(* ===== verification/Fec_Prelude.thy ===== *)
theory Fec_Prelude
  imports "HOL-Library.Word"
begin

text \<open>
  Shared vocabulary of the development: the machine integers of the program, the way a C++
  operation can go wrong (a failed \<open>RTC_CHECK\<close>, an access outside an object, a read of
  indeterminate bytes), raw memory as lists of possibly indeterminate bytes, and the generic
  lemmas on lists, words and results on which the component theories rest.
\<close>

unbundle bit_operations_syntax

section \<open>Types\<close>

type_synonym u8 = "8 word"
type_synonym u16 = "16 word"
type_synonym u32 = "32 word"

text \<open>
  Raw memory: one cell per byte, \<open>None\<close> while the byte is indeterminate (a local array or a
  member array that no statement has written yet).
\<close>

type_synonym mem = "u8 option list"

datatype fault =
    Check_failed string    \<comment> \<open>an \<open>RTC_CHECK\<close> or \<open>RTC_DCHECK\<close> aborted the process\<close>
  | Out_of_bounds string   \<comment> \<open>an access outside the named object\<close>
  | Indeterminate string   \<comment> \<open>a use of a byte that was never written\<close>

type_synonym 'a res = "fault + 'a"

section \<open>Simplification collections\<close>

named_theorems mem_simps \<open>evaluation of the raw memory operations\<close>
named_theorems layout_simps \<open>lengths and positions of serialised fields\<close>

section \<open>Results\<close>

fun bind_res :: "'a res \<Rightarrow> ('a \<Rightarrow> 'b res) \<Rightarrow> 'b res" where
  "bind_res (Inl e) f = Inl e"
| "bind_res (Inr x) f = f x"

lemma bind_res_Inr_iff:
  "bind_res r f = Inr y \<longleftrightarrow> (\<exists>x. r = Inr x \<and> f x = Inr y)"
  by (cases r) auto

lemma bind_res_Inl_iff:
  "bind_res r f = Inl e \<longleftrightarrow> r = Inl e \<or> (\<exists>x. r = Inr x \<and> f x = Inl e)"
  by (cases r) auto

lemma bind_res_assoc: "bind_res (bind_res r f) g = bind_res r (\<lambda>x. bind_res (f x) g)"
  by (cases r) auto

lemma bind_res_cong [fundef_cong]:
  "r = r' \<Longrightarrow> (\<And>x. r' = Inr x \<Longrightarrow> f x = g x) \<Longrightarrow> bind_res r f = bind_res r' g"
  by (cases r') auto

section \<open>Conversions between integer types\<close>

text \<open>
  The conversion of a signed value to \<open>size_t\<close>: reduction modulo \<open>2 ^ 64\<close> on the x64
  targets of the project files.
\<close>

definition size_t :: "int \<Rightarrow> nat" where
  "size_t x = nat (x mod 2 ^ 64)"

lemma size_t_small: "0 \<le> x \<Longrightarrow> x < 2 ^ 64 \<Longrightarrow> size_t x = nat x"
  by (simp add: size_t_def)

lemma size_t_of_nat: "n < 2 ^ 64 \<Longrightarrow> size_t (int n) = n"
  by (simp add: size_t_def)

lemma size_t_negative: "- (2 ^ 63) \<le> x \<Longrightarrow> x < 0 \<Longrightarrow> 2 ^ 63 \<le> size_t x"
proof -
  assume lo: "- (2 ^ 63) \<le> x" and neg: "x < 0"
  have "x mod 2 ^ 64 = (x + 2 ^ 64) mod 2 ^ 64" by simp
  also have "\<dots> = x + 2 ^ 64" using lo neg by (intro mod_pos_pos_trivial) auto
  finally show ?thesis using lo by (simp add: size_t_def)
qed

text \<open>Little-endian representation of the multi-byte header fields, as \<open>memcpy\<close> sees them.\<close>

definition le16 :: "u16 \<Rightarrow> u8 list" where
  "le16 w = [ucast w, ucast (drop_bit 8 w)]"

definition le32 :: "u32 \<Rightarrow> u8 list" where
  "le32 w = [ucast w, ucast (drop_bit 8 w), ucast (drop_bit 16 w), ucast (drop_bit 24 w)]"

definition of_le16 :: "u8 \<Rightarrow> u8 \<Rightarrow> u16" where
  "of_le16 lo hi = ucast lo OR push_bit 8 (ucast hi)"

lemma length_le16 [simp, layout_simps]: "length (le16 w) = 2"
  by (simp add: le16_def)

lemma length_le32 [simp, layout_simps]: "length (le32 w) = 4"
  by (simp add: le32_def)

lemma bit_u8_beyond [simp]: "\<not> bit (w :: u8) (8 + n)"
  using bit_imp_le_length [of w "8 + n"] by auto

lemma of_le16_le16: "le16 (of_le16 lo hi) = [lo, hi]"
  unfolding le16_def of_le16_def
  by (auto intro!: bit_word_eqI simp: bit_simps)

lemma le16_inj: "le16 v = le16 w \<longleftrightarrow> v = w"
proof
  assume "le16 v = le16 w"
  then have lo: "(ucast v :: u8) = ucast w" and hi: "(ucast (drop_bit 8 v) :: u8) = ucast (drop_bit 8 w)"
    by (simp_all add: le16_def)
  show "v = w"
  proof (rule bit_word_eqI)
    fix n assume n: "n < LENGTH(16)"
    have "bit v n = (if n < 8 then bit (ucast v :: u8) n else bit (ucast (drop_bit 8 v) :: u8) (n - 8))"
      using n by (auto simp: bit_simps)
    moreover have "bit w n = (if n < 8 then bit (ucast w :: u8) n else bit (ucast (drop_bit 8 w) :: u8) (n - 8))"
      using n by (auto simp: bit_simps)
    ultimately show "bit v n = bit w n" by (simp only: lo hi)
  qed
qed simp

section \<open>Raw memory\<close>

text \<open>\<open>memcpy\<close> of \<open>bs\<close> to offset \<open>off\<close> of an object, refused outside the object.\<close>

definition mem_store :: "string \<Rightarrow> int \<Rightarrow> mem \<Rightarrow> mem \<Rightarrow> mem res" where
  "mem_store what off bs m =
     (if 0 \<le> off \<and> nat off + length bs \<le> length m
      then Inr (take (nat off) m @ bs @ drop (nat off + length bs) m)
      else Inl (Out_of_bounds what))"

text \<open>The \<open>n\<close> cells from offset \<open>off\<close>: the source operand of a \<open>memcpy\<close>.\<close>

definition mem_load :: "string \<Rightarrow> int \<Rightarrow> nat \<Rightarrow> mem \<Rightarrow> mem res" where
  "mem_load what off n m =
     (if 0 \<le> off \<and> nat off + n \<le> length m
      then Inr (take n (drop (nat off) m))
      else Inl (Out_of_bounds what))"

text \<open>Using the cells as values requires all of them to be written.\<close>

definition mem_values :: "string \<Rightarrow> mem \<Rightarrow> u8 list res" where
  "mem_values what m =
     (if None \<in> set m then Inl (Indeterminate what) else Inr (map the m))"

definition mem_of :: "u8 list \<Rightarrow> mem" where
  "mem_of bs = map Some bs"

definition mem_read :: "string \<Rightarrow> int \<Rightarrow> nat \<Rightarrow> mem \<Rightarrow> u8 list res" where
  "mem_read what off n m = bind_res (mem_load what off n m) (mem_values what)"

lemma length_mem_of [simp]: "length (mem_of bs) = length bs"
  by (simp add: mem_of_def)

lemma mem_of_Nil [simp]: "mem_of [] = []"
  by (simp add: mem_of_def)

lemma take_mem_of [simp]: "take n (mem_of bs) = mem_of (take n bs)"
  by (simp add: mem_of_def take_map)

lemma drop_mem_of [simp]: "drop n (mem_of bs) = mem_of (drop n bs)"
  by (simp add: mem_of_def drop_map)

lemma mem_of_append [simp]: "mem_of (xs @ ys) = mem_of xs @ mem_of ys"
  by (simp add: mem_of_def)

lemma mem_of_inj [simp]: "mem_of xs = mem_of ys \<longleftrightarrow> xs = ys"
  by (auto simp: mem_of_def inj_map_eq_map)

lemma None_notin_mem_of [simp]: "None \<notin> set (mem_of bs)"
  by (auto simp: mem_of_def)

lemma mem_values_mem_of [simp, mem_simps]: "mem_values what (mem_of bs) = Inr bs"
  by (auto simp: mem_values_def mem_of_def comp_def)

lemma mem_values_Inr_iff: "mem_values what m = Inr bs \<longleftrightarrow> m = mem_of bs"
proof
  assume *: "mem_values what m = Inr bs"
  then have no: "None \<notin> set m" and bs: "bs = map the m"
    by (auto simp: mem_values_def split: if_splits)
  have "map (\<lambda>c. Some (the c)) m = m"
    using no by (intro map_idI) (metis option.collapse)
  then show "m = mem_of bs" by (simp add: bs mem_of_def comp_def)
qed simp

lemma length_mem_store: "mem_store what off bs m = Inr m' \<Longrightarrow> length m' = length m"
  by (auto simp: mem_store_def split: if_splits)

lemma mem_store_ok [mem_simps]:
  "0 \<le> off \<Longrightarrow> nat off + length bs \<le> length m \<Longrightarrow>
   mem_store what off bs m = Inr (take (nat off) m @ bs @ drop (nat off + length bs) m)"
  by (simp add: mem_store_def)

lemma mem_store_nat:
  "n + length bs \<le> length m \<Longrightarrow>
   mem_store what (int n) bs m = Inr (take n m @ bs @ drop (n + length bs) m)"
  by (simp add: mem_store_def)

lemma mem_load_nat:
  "i + n \<le> length m \<Longrightarrow> mem_load what (int i) n m = Inr (take n (drop i m))"
  by (simp add: mem_load_def)

lemma mem_load_ok [mem_simps]:
  "0 \<le> off \<Longrightarrow> nat off + n \<le> length m \<Longrightarrow> mem_load what off n m = Inr (take n (drop (nat off) m))"
  by (simp add: mem_load_def)

lemma mem_read_mem_of [mem_simps]:
  "0 \<le> off \<Longrightarrow> nat off + n \<le> length bs \<Longrightarrow>
   mem_read what off n (mem_of bs) = Inr (take n (drop (nat off) bs))"
  by (simp add: mem_read_def mem_load_ok)

lemma mem_store_one: "p < length pm \<Longrightarrow> mem_store what (int p) [v] pm = Inr (pm[p := v])"
  by (simp add: mem_store_nat upd_conv_take_nth_drop)

lemma mem_read_one: "p < length m \<Longrightarrow> m ! p = Some v \<Longrightarrow> mem_read what (int p) 1 m = Inr [v]"
  by (simp add: mem_read_def mem_load_nat mem_values_def take_Suc hd_drop_conv_nth)

section \<open>Lists\<close>

lemma nth_concat_fixed:
  assumes "\<And>x. x \<in> set xss \<Longrightarrow> length x = n" and "i < length xss" and "j < n"
  shows "concat xss ! (i * n + j) = xss ! i ! j"
  using assms
proof (induction xss arbitrary: i)
  case Nil
  then show ?case by simp
next
  case (Cons x xss)
  then show ?case by (cases i) (auto simp: nth_append)
qed

lemma length_concat_fixed:
  "(\<And>x. x \<in> set xss \<Longrightarrow> length x = n) \<Longrightarrow> length (concat xss) = length xss * n"
  by (induction xss) auto

lemma take_drop_segment:
  "a = length xs \<Longrightarrow> n = length ys \<Longrightarrow> take n (drop a (xs @ ys @ zs)) = ys"
  by simp

lemma all_nth_update:
  "\<forall>j < n. P j (xs ! j) \<Longrightarrow> length xs = n \<Longrightarrow> (i < n \<Longrightarrow> P i v) \<Longrightarrow> \<forall>j < n. P j (xs[i := v] ! j)"
  by (metis nth_list_update_eq nth_list_update_neq)

text \<open>Cells of a matrix with rows of \<open>w\<close> entries, stored row by row.\<close>

lemma row_cell_eq: "c < w \<Longrightarrow> d < w \<Longrightarrow> i * w + c = j * w + d \<longleftrightarrow> i = j \<and> c = (d :: nat)"
proof
  assume w: "c < w" "d < w" and eq: "i * w + c = j * w + d"
  have "(i * w + c) div w = i" "(j * w + d) div w = j" using w by auto
  then show "i = j \<and> c = d" using eq by auto
qed simp

lemma row_cell_less: "i < n \<Longrightarrow> c < w \<Longrightarrow> i * w + c < n * (w :: nat)"
  using mult_le_mono1 [of "Suc i" n w] by simp

lemma nth_cell_update:
  assumes "c < w" "d < w" "i * w + c < length m"
  shows "m[i * w + c := v] ! (j * w + d) = (if i = j \<and> c = d then v else m ! (j * w + d))"
  using assms row_cell_eq [of c w d i j] by (auto simp: nth_list_update)

end
