(* ===== verification/Checks.thy ===== *)
theory Checks
  imports Fec_Prelude
begin

text \<open>
  The run-time checks: the \<open>RTC_CHECK\<close> and \<open>RTC_DCHECK\<close> macros of
  \<^verbatim>\<open>FEC_Encode/include/rtc_base/checks.h\<close> and the report that a failed check writes before it
  aborts the process (\<^verbatim>\<open>Channel_sim/checks.cpp\<close>). A failed check is the value
  \<open>Inl (Check_failed text)\<close>; nothing after it runs. The variadic argument list of
  \<open>FatalLog\<close> is a list of tagged values, and taking an argument of another type than the tag
  announces, or running past either list, is an \<open>Out_of_bounds\<close> fault. The renderings that the
  C standard leaves to the platform (\<^verbatim>\<open>%g\<close>, \<^verbatim>\<open>%Lg\<close>, \<^verbatim>\<open>%p\<close>) are parameters.
\<close>

section \<open>The macros\<close>

text \<open>
  \<open>RTC_DCHECK\<close> tests its condition only where \<open>RTC_DCHECK_IS_ON\<close> (the first argument; off
  under \<open>NDEBUG\<close>). The \<open>_EQ\<close>, \<open>_LE\<close>, \dots variants compare with \<open>rtc::SafeLe\<close> and its
  kin, that is, by mathematical value, and differ in the report only.
\<close>

definition RTC_CHECK :: "bool \<Rightarrow> string \<Rightarrow> 'a res \<Rightarrow> 'a res" where
  "RTC_CHECK c text rest = (if c then rest else Inl (Check_failed text))"

definition RTC_DCHECK :: "bool \<Rightarrow> bool \<Rightarrow> string \<Rightarrow> 'a res \<Rightarrow> 'a res" where
  "RTC_DCHECK is_on c text rest = (if is_on then RTC_CHECK c text rest else rest)"

lemma RTC_DCHECK_pass [simp]: "c \<Longrightarrow> RTC_DCHECK is_on c text rest = rest"
  by (simp add: RTC_DCHECK_def RTC_CHECK_def)

lemma RTC_DCHECK_off [simp]: "RTC_DCHECK False c text rest = rest"
  by (simp add: RTC_DCHECK_def)

lemma RTC_DCHECK_fail: "\<not> c \<Longrightarrow> RTC_DCHECK True c text rest = Inl (Check_failed text)"
  by (simp add: RTC_DCHECK_def RTC_CHECK_def)

lemma RTC_DCHECK_Inr:
  "RTC_DCHECK is_on c text rest = Inr x \<longleftrightarrow> (is_on \<longrightarrow> c) \<and> rest = Inr x"
  by (simp add: RTC_DCHECK_def RTC_CHECK_def)

section \<open>Decimal numbers\<close>

fun digits_of :: "nat \<Rightarrow> string" where
  "digits_of n =
     (if n < 10 then [char_of (48 + n)] else digits_of (n div 10) @ [char_of (48 + n mod 10)])"

declare digits_of.simps [simp del]

definition show_unsigned :: "nat \<Rightarrow> string" where
  "show_unsigned n = digits_of n"

definition show_signed :: "int \<Rightarrow> string" where
  "show_signed i = (if i < 0 then CHR ''-'' # digits_of (nat (- i)) else digits_of (nat i))"

lemma digits_of_nonempty: "digits_of n \<noteq> []"
  by (subst digits_of.simps) simp

section \<open>The report\<close>

datatype CheckArgType =
    kEnd | kInt | kLong | kLongLong | kUInt | kULong | kULongLong | kDouble | kLongDouble
  | kCharP | kStdString | kStringView | kVoidP | kCheckOp

datatype 'd check_arg =
    AInt int | ALong int | ALongLong int | AUInt nat | AULong nat | AULongLong nat
  | ADouble 'd | ALongDouble 'd | ACharP string | AStdString string | AStringView string
  | AVoidP nat

record 'd libc_format =
  fmt_g :: "'d \<Rightarrow> string"
  fmt_Lg :: "'d \<Rightarrow> string"
  fmt_p :: "nat \<Rightarrow> string"

text \<open>\<open>AppendFormat\<close>: the formatted text is measured first and appended when not empty.\<close>

definition AppendFormat :: "string \<Rightarrow> string \<Rightarrow> string" where
  "AppendFormat s formatted = (if length formatted > 0 then s @ formatted else s)"

lemma AppendFormat_eq [simp]: "AppendFormat s t = s @ t"
  by (simp add: AppendFormat_def)

text \<open>
  What \<^verbatim>\<open>%s\<close>, or an append of a \<open>const char*\<close>, takes of the bytes a pointer leads to: those before the first NUL. A
  \<open>std::string\<close> or \<open>string_view\<close> is appended whole, but it is cut as well when its \<open>c_str()\<close> is printed.
\<close>

definition c_string :: "string \<Rightarrow> string" where
  "c_string s = takeWhile (\<lambda>c. c \<noteq> CHR 0x00) s"

lemma c_string_whole: "CHR 0x00 \<notin> set s \<Longrightarrow> c_string s = s"
  by (auto simp: c_string_def takeWhile_eq_all_conv)

text \<open>
  The tag that \<open>MakeVal\<close> attaches to a value, and its rendering in the branch of \<open>ParseArg\<close>
  for that tag. \<open>take_arg\<close> is \<open>va_arg\<close> at an announced tag.
\<close>

primrec arg_type :: "'d check_arg \<Rightarrow> CheckArgType" where
  "arg_type (AInt i) = kInt"
| "arg_type (ALong i) = kLong"
| "arg_type (ALongLong i) = kLongLong"
| "arg_type (AUInt n) = kUInt"
| "arg_type (AULong n) = kULong"
| "arg_type (AULongLong n) = kULongLong"
| "arg_type (ADouble d) = kDouble"
| "arg_type (ALongDouble d) = kLongDouble"
| "arg_type (ACharP s) = kCharP"
| "arg_type (AStdString s) = kStdString"
| "arg_type (AStringView s) = kStringView"
| "arg_type (AVoidP p) = kVoidP"

primrec arg_text :: "'d libc_format \<Rightarrow> 'd check_arg \<Rightarrow> string" where
  "arg_text f (AInt i) = show_signed i"
| "arg_text f (ALong i) = show_signed i"
| "arg_text f (ALongLong i) = show_signed i"
| "arg_text f (AUInt n) = show_unsigned n"
| "arg_text f (AULong n) = show_unsigned n"
| "arg_text f (AULongLong n) = show_unsigned n"
| "arg_text f (ADouble d) = fmt_g f d"
| "arg_text f (ALongDouble d) = fmt_Lg f d"
| "arg_text f (ACharP s) = c_string s"
| "arg_text f (AStdString s) = s"
| "arg_text f (AStringView s) = s"
| "arg_text f (AVoidP p) = fmt_p f p"

definition take_arg :: "'d libc_format \<Rightarrow> CheckArgType \<Rightarrow> 'd check_arg list \<Rightarrow> (string \<times> 'd check_arg list) res" where
  "take_arg f t args =
     (case args of
        [] \<Rightarrow> Inl (Out_of_bounds ''va_arg'')
      | a # rest \<Rightarrow> if t = arg_type a then Inr (arg_text f a, rest) else Inl (Out_of_bounds ''va_arg''))"

text \<open>
  \<open>ParseArg\<close>: whether an argument was taken, the remaining arguments, the advanced format and
  the extended text.
\<close>

definition ParseArg ::
  "'d libc_format \<Rightarrow> 'd check_arg list \<Rightarrow> CheckArgType list \<Rightarrow> string
   \<Rightarrow> (bool \<times> 'd check_arg list \<times> CheckArgType list \<times> string) res"
where
  "ParseArg f args fmt s =
     (case fmt of
        [] \<Rightarrow> Inl (Out_of_bounds ''fmt'')
      | t # rest \<Rightarrow>
          if t = kEnd then Inr (False, args, fmt, s)
          else if t = kCheckOp then Inr (False, args, fmt, s @ ''[Invalid CheckArgType]'')
          else bind_res (take_arg f t args) (\<lambda>(text, args'). Inr (True, args', rest, s @ text)))"

lemma ParseArg_progress:
  "ParseArg f args fmt s = Inr (True, args', fmt', s') \<Longrightarrow> length fmt = Suc (length fmt')"
  by (auto simp: ParseArg_def bind_res_Inr_iff split: list.splits if_splits)

text \<open>\<open>while (ParseArg(&args, &fmt, &s)) ;\<close>: each round consumes one format tag.\<close>

function parse_all ::
  "'d libc_format \<Rightarrow> 'd check_arg list \<Rightarrow> CheckArgType list \<Rightarrow> string \<Rightarrow> string res"
where
  "parse_all f args fmt s =
     (case ParseArg f args fmt s of
        Inl e \<Rightarrow> Inl e
      | Inr (taken, args', fmt', s') \<Rightarrow> if taken then parse_all f args' fmt' s' else Inr s')"
  by pat_completeness auto
termination
  by (relation "measure (\<lambda>(f, args, fmt, s). length fmt)")
    (auto dest: ParseArg_progress)

declare parse_all.simps [simp del]

text \<open>\<open>WriteFatalLog\<close> prints the text on \<open>stderr\<close> and aborts: it has no normal result.\<close>

definition WriteFatalLog :: "string \<Rightarrow> 'a res" where
  "WriteFatalLog output = Inl (Check_failed output)"

definition fatal_banner :: "string \<Rightarrow> int \<Rightarrow> nat \<Rightarrow> string \<Rightarrow> string" where
  "fatal_banner file line last_system_error message =
     ''\<newline>\<newline>#\<newline># Fatal error in: '' @ c_string file @ '', line '' @ show_signed line @
     ''\<newline># last system error: '' @ show_unsigned last_system_error @
     ''\<newline># Check failed: '' @ c_string message"

definition FatalLog ::
  "'d libc_format \<Rightarrow> nat \<Rightarrow> string \<Rightarrow> int \<Rightarrow> string \<Rightarrow> CheckArgType list \<Rightarrow> 'd check_arg list \<Rightarrow> 'a res"
where
  "FatalLog f last_system_error file line message fmt args =
     (let s = AppendFormat [] (fatal_banner file line last_system_error message) in
      case fmt of
        [] \<Rightarrow> Inl (Out_of_bounds ''fmt'')
      | t # fmt_tail \<Rightarrow>
          if t = kCheckOp then
            bind_res (ParseArg f args fmt_tail []) (\<lambda>(ok1, args1, fmt1, s1).
              if ok1 then
                bind_res (ParseArg f args1 fmt1 []) (\<lambda>(ok2, args2, fmt2, s2).
                  bind_res
                    (parse_all f args2 fmt2
                       (if ok2 then AppendFormat s ('' ('' @ c_string s1 @ '' vs. '' @ c_string s2 @ '')\<newline># '') else s))
                    WriteFatalLog)
              else bind_res (parse_all f args1 fmt1 s) WriteFatalLog)
          else bind_res (parse_all f args fmt (s @ ''\<newline># '')) WriteFatalLog)"

definition UnreachableCodeReached :: "nat \<Rightarrow> string \<Rightarrow> int \<Rightarrow> 'a res" where
  "UnreachableCodeReached last_system_error file line =
     WriteFatalLog
       (''\<newline>\<newline>#\<newline># Unreachable code reached: '' @ c_string file @ '', line '' @ show_signed line @
        ''\<newline># last system error: '' @ show_unsigned last_system_error @ ''\<newline># '')"

definition rtc_FatalMessage :: "'d libc_format \<Rightarrow> nat \<Rightarrow> string \<Rightarrow> int \<Rightarrow> string \<Rightarrow> 'a res" where
  "rtc_FatalMessage f last_system_error file line msg =
     FatalLog f last_system_error file line msg [kEnd] []"

text \<open>
  The stream behind a failing check. A \<open>LogStreamer\<close> holds the most recent operand and a
  pointer to the stream before it; \<open>Call\<close> walks back to the first operand and puts each one in
  front of those already collected. \<open>Call\<close> and \<open>CallCheckOp\<close> of the base case build the array
  of tags and call \<open>FatalLog\<close>.
\<close>

primrec stream_args :: "'d check_arg list \<Rightarrow> 'd check_arg list \<Rightarrow> 'd check_arg list" where
  "stream_args [] args = args"
| "stream_args (arg # prior) args = stream_args prior (arg # args)"

definition LogStreamer_Call ::
  "'d libc_format \<Rightarrow> nat \<Rightarrow> string \<Rightarrow> int \<Rightarrow> string \<Rightarrow> 'd check_arg list \<Rightarrow> 'a res"
where
  "LogStreamer_Call f err file line message streamer =
     (let args = stream_args streamer [] in
      FatalLog f err file line message (map arg_type args @ [kEnd]) args)"

definition LogStreamer_CallCheckOp ::
  "'d libc_format \<Rightarrow> nat \<Rightarrow> string \<Rightarrow> int \<Rightarrow> string \<Rightarrow> 'd check_arg list \<Rightarrow> 'a res"
where
  "LogStreamer_CallCheckOp f err file line message streamer =
     (let args = stream_args streamer [] in
      FatalLog f err file line message (kCheckOp # map arg_type args @ [kEnd]) args)"

section \<open>What a failed check reports\<close>

lemma arg_type_proper [simp]: "arg_type a \<noteq> kEnd" "arg_type a \<noteq> kCheckOp"
  by (cases a; simp)+

lemma ParseArg_take [simp]:
  "ParseArg f (a # args) (arg_type a # fmt) s = Inr (True, args, fmt, s @ arg_text f a)"
  by (simp add: ParseArg_def take_arg_def)

lemma ParseArg_end [simp]: "ParseArg f args (kEnd # fmt) s = Inr (False, args, kEnd # fmt, s)"
  by (simp add: ParseArg_def)

lemma parse_all_matching:
  "parse_all f args (map arg_type args @ [kEnd]) s = Inr (s @ concat (map (arg_text f) args))"
  by (induction args arbitrary: s) (subst parse_all.simps, simp)+

lemma stream_args_rev [simp]: "stream_args streamer args = rev streamer @ args"
  by (induction streamer arbitrary: args) auto

lemma bind_WriteFatalLog: "bind_res r WriteFatalLog \<noteq> Inr x"
  by (cases r) (auto simp: WriteFatalLog_def)

lemma FatalLog_no_return: "FatalLog f err file line message fmt args \<noteq> Inr x"
  unfolding FatalLog_def Let_def
  by (auto simp: bind_res_Inr_iff bind_WriteFatalLog [unfolded bind_res_Inr_iff] WriteFatalLog_def
      split: list.splits if_splits)

text \<open>
  Claim C27. A failing \<open>RTC_CHECK_OP(val1, val2) << x1 << \<dots> << xn\<close> never continues, and its
  report is the banner with file, line, last system error and the text of the comparison, then
  the two operands as \<open>(a vs. b)\<close>, each cut at its first NUL because it is printed as a C string, then the streamed operands in the order they were
  written, strings whole, although the stream is stored last operand first.
\<close>

theorem check_op_report:
  "LogStreamer_CallCheckOp f err file line message (rev (v1 # v2 # xs)) =
     (Inl (Check_failed
        (fatal_banner file line err message @
         '' ('' @ c_string (arg_text f v1) @ '' vs. '' @ c_string (arg_text f v2) @ '')\<newline># '' @
         concat (map (arg_text f) xs))) :: 'a res)"
  by (simp add: LogStreamer_CallCheckOp_def FatalLog_def parse_all_matching WriteFatalLog_def)

end
