(* ===== verification/Packet_Masks.thy ===== *)
theory Packet_Masks
  imports Checks Mask_Tables_Random Mask_Tables_Bursty
begin

text \<open>
  Choice and construction of the packet masks (\<^verbatim>\<open>Channel_sim/forward_error_correction.cpp\<close>:
  \<open>PickTable\<close>, \<open>PacketMaskSize\<close>, \<open>LookUpInFecTable\<close>, \<open>LookUp\<close>,
  \<open>GeneratePacketMasks\<close>). Pointers into the tables are offsets, and every read or write is
  checked against its object. The reference definition \<open>mask_spec\<close> says which mask a pair
  (media packets, FEC packets) has; the theorems show that the pointer walk over the byte arrays
  and the interleaving loops produce it, for both kinds of tables.
\<close>

section \<open>Constants and types\<close>

datatype FecMaskType = kFecMaskRandom | kFecMaskBursty

definition kUlpfecMaxMediaPackets :: nat where "kUlpfecMaxMediaPackets = 48"
definition kUlpfecPacketMaskSizeLBitClear :: nat where "kUlpfecPacketMaskSizeLBitClear = 2"
definition kUlpfecPacketMaskSizeLBitSet :: nat where "kUlpfecPacketMaskSizeLBitSet = 6"
definition kFECPacketMaskMaxSize :: nat where "kFECPacketMaskMaxSize = 288"

lemmas mask_constants =
  kUlpfecMaxMediaPackets_def kUlpfecPacketMaskSizeLBitClear_def
  kUlpfecPacketMaskSizeLBitSet_def kFECPacketMaskMaxSize_def

text \<open>The members \<open>table_\<close> and \<open>fec_packet_mask_\<close> of the class.\<close>

record PacketMaskTable =
  pm_table :: "u8 list"
  fec_packet_mask :: mem

text \<open>\<open>rtc::ArrayView<const uint8_t>\<close>: the object viewed, the offset of the view, its size.\<close>

record array_view =
  av_object :: mem
  av_start :: nat
  av_size :: nat

section \<open>Operations\<close>

definition PacketMaskSize :: "bool \<Rightarrow> nat \<Rightarrow> nat res" where
  "PacketMaskSize dchecks num_sequence_numbers =
     RTC_DCHECK dchecks (num_sequence_numbers \<le> 8 * kUlpfecPacketMaskSizeLBitSet)
       ''num_sequence_numbers <= 8 * kUlpfecPacketMaskSizeLBitSet''
       (if num_sequence_numbers > 8 * kUlpfecPacketMaskSizeLBitClear
        then Inr kUlpfecPacketMaskSizeLBitSet
        else Inr kUlpfecPacketMaskSizeLBitClear)"

definition PickTable :: "bool \<Rightarrow> FecMaskType \<Rightarrow> int \<Rightarrow> u8 list res" where
  "PickTable dchecks fec_mask_type num_media_packets =
     RTC_DCHECK dchecks (num_media_packets \<ge> 0) ''num_media_packets >= 0''
       (RTC_DCHECK dchecks (size_t num_media_packets \<le> kUlpfecMaxMediaPackets)
          ''static_cast<size_t>(num_media_packets) <= kUlpfecMaxMediaPackets''
          (if fec_mask_type \<noteq> kFecMaskRandom \<and> num_media_packets \<le> uint (hd kPacketMaskBurstyTbl)
           then Inr kPacketMaskBurstyTbl
           else Inr kPacketMaskRandomTbl))"

text \<open>The constructor sets \<open>table_\<close> only; the array \<open>fec_packet_mask_\<close> stays unwritten.\<close>

definition new_PacketMaskTable :: "bool \<Rightarrow> FecMaskType \<Rightarrow> int \<Rightarrow> PacketMaskTable res" where
  "new_PacketMaskTable dchecks fec_mask_type num_media_packets =
     bind_res (PickTable dchecks fec_mask_type num_media_packets) (\<lambda>t.
       Inr \<lparr>pm_table = t, fec_packet_mask = replicate kFECPacketMaskMaxSize None\<rparr>)"

definition byte_at :: "u8 list \<Rightarrow> nat \<Rightarrow> u8 res" where
  "byte_at table i = (if i < length table then Inr (table ! i) else Inl (Out_of_bounds ''table''))"

text \<open>\<open>for (j = 0; j < count; ++j) entry += entry_size_increment * (j + 1);\<close>\<close>

fun skip_data :: "nat \<Rightarrow> nat \<Rightarrow> nat \<Rightarrow> nat" where
  "skip_data inc entry 0 = entry"
| "skip_data inc entry (Suc count) = skip_data inc entry count + inc * (count + 1)"

text \<open>The loop over the uninteresting entries, from \<open>i\<close> to \<open>n\<close>.\<close>

function hop_entries :: "u8 list \<Rightarrow> nat \<Rightarrow> nat \<Rightarrow> nat \<Rightarrow> nat \<Rightarrow> (nat \<times> nat) res" where
  "hop_entries table n i inc entry =
     (if i < n then
        let inc' = (if i = 16 then 6 else inc) in
        bind_res (byte_at table entry) (\<lambda>count.
          hop_entries table n (Suc i) inc' (skip_data inc' (Suc entry) (unat count)))
      else Inr (inc, entry))"
  by pat_completeness auto
termination
  by (relation "measure (\<lambda>(table, n, i, inc, entry). n - i)") auto

declare hop_entries.simps [simp del]

definition LookUpInFecTable :: "bool \<Rightarrow> u8 list \<Rightarrow> int \<Rightarrow> int \<Rightarrow> array_view res" where
  "LookUpInFecTable dchecks table media_packet_index fec_index =
     bind_res (byte_at table 0) (\<lambda>t0.
       RTC_DCHECK dchecks (media_packet_index < uint t0) ''media_packet_index < table[0]''
         (bind_res (hop_entries table (nat media_packet_index) 0 2 1) (\<lambda>(inc0, entry0).
            let inc = (if media_packet_index = 16 then 6 else inc0) in
            bind_res (byte_at table entry0) (\<lambda>count.
              RTC_DCHECK dchecks (fec_index < uint count) ''fec_index < entry[0]''
                (let entry = skip_data inc (Suc entry0) (nat fec_index);
                     size = size_t (int inc * (fec_index + 1))
                 in Inr \<lparr>av_object = mem_of table, av_start = entry, av_size = size\<rparr>)))))"

text \<open>One byte of an interleaved mask row: media packet \<open>X\<close> is protected by row \<open>X % N\<close>.\<close>

definition interleaved_bit :: "nat \<Rightarrow> nat \<Rightarrow> nat \<Rightarrow> nat \<Rightarrow> u8 \<Rightarrow> u8" where
  "interleaved_bit num_media_packets num_fec_packets row x value =
     (if x mod num_fec_packets = row \<and> x < num_media_packets then value else 0x00)"

definition interleaved_byte :: "nat \<Rightarrow> nat \<Rightarrow> nat \<Rightarrow> nat \<Rightarrow> u8" where
  "interleaved_byte num_media_packets num_fec_packets row col =
     (let b = interleaved_bit num_media_packets num_fec_packets row in
      b (col * 8) 0x80 OR b (col * 8 + 1) 0x40 OR b (col * 8 + 2) 0x20 OR b (col * 8 + 3) 0x10 OR
      b (col * 8 + 4) 0x08 OR b (col * 8 + 5) 0x04 OR b (col * 8 + 6) 0x02 OR b (col * 8 + 7) 0x01)"

function fill_row :: "nat \<Rightarrow> nat \<Rightarrow> nat \<Rightarrow> nat \<Rightarrow> nat \<Rightarrow> mem \<Rightarrow> mem res" where
  "fill_row num_media num_fec mask_length row col buf =
     (if col < mask_length then
        bind_res
          (mem_store ''fec_packet_mask_'' (int (row * mask_length + col))
             [Some (interleaved_byte num_media num_fec row col)] buf)
          (fill_row num_media num_fec mask_length row (Suc col))
      else Inr buf)"
  by pat_completeness auto
termination
  by (relation "measure (\<lambda>(k, m, mask_length, row, col, buf). mask_length - col)") auto

function fill_masks :: "nat \<Rightarrow> nat \<Rightarrow> nat \<Rightarrow> nat \<Rightarrow> mem \<Rightarrow> mem res" where
  "fill_masks num_media num_fec mask_length row buf =
     (if row < num_fec then
        bind_res (fill_row num_media num_fec mask_length row 0 buf)
          (fill_masks num_media num_fec mask_length (Suc row))
      else Inr buf)"
  by pat_completeness auto
termination
  by (relation "measure (\<lambda>(k, m, mask_length, row, buf). m - row)") auto

declare fill_row.simps [simp del] fill_masks.simps [simp del]

definition LookUp ::
  "bool \<Rightarrow> PacketMaskTable \<Rightarrow> int \<Rightarrow> int \<Rightarrow> (array_view \<times> PacketMaskTable) res"
where
  "LookUp dchecks t num_media_packets num_fec_packets =
     RTC_DCHECK dchecks (num_media_packets > 0) ''num_media_packets > 0''
       (RTC_DCHECK dchecks (num_fec_packets > 0) ''num_fec_packets > 0''
         (RTC_DCHECK dchecks (num_media_packets \<le> int kUlpfecMaxMediaPackets)
            ''num_media_packets <= kUlpfecMaxMediaPackets''
           (RTC_DCHECK dchecks (num_fec_packets \<le> num_media_packets)
              ''num_fec_packets <= num_media_packets''
             (if num_media_packets \<le> 12 then
                bind_res
                  (LookUpInFecTable dchecks (pm_table t) (num_media_packets - 1) (num_fec_packets - 1))
                  (\<lambda>v. Inr (v, t))
              else
                bind_res (PacketMaskSize dchecks (size_t num_media_packets)) (\<lambda>mask_length.
                  bind_res
                    (fill_masks (nat num_media_packets) (nat num_fec_packets) mask_length 0
                       (fec_packet_mask t))
                    (\<lambda>buf.
                      Inr (\<lparr>av_object = buf, av_start = 0,
                            av_size = size_t (num_fec_packets * int mask_length)\<rparr>,
                           t\<lparr>fec_packet_mask := buf\<rparr>)))))))"

text \<open>\<open>packet_mask\<close> is the encoder's member array; the mask is copied to its start.\<close>

definition GeneratePacketMasks ::
  "bool \<Rightarrow> int \<Rightarrow> int \<Rightarrow> int \<Rightarrow> bool \<Rightarrow> PacketMaskTable \<Rightarrow> mem \<Rightarrow> (PacketMaskTable \<times> mem) res"
where
  "GeneratePacketMasks dchecks num_media_packets num_fec_packets num_imp_packets
     use_unequal_protection mask_table packet_mask =
     RTC_DCHECK dchecks (num_media_packets > 0) ''num_media_packets > 0''
       (RTC_DCHECK dchecks (num_fec_packets > 0) ''num_fec_packets > 0''
         (RTC_DCHECK dchecks (num_fec_packets \<le> num_media_packets) ''num_fec_packets <= num_media_packets''
           (RTC_DCHECK dchecks (num_imp_packets \<le> num_media_packets) ''num_imp_packets <= num_media_packets''
             (RTC_DCHECK dchecks (num_imp_packets \<ge> 0) ''num_imp_packets >= 0''
               (bind_res (PacketMaskSize dchecks (size_t num_media_packets)) (\<lambda>num_mask_bytes.
                 if \<not> use_unequal_protection \<or> num_imp_packets = 0 then
                   bind_res (LookUp dchecks mask_table num_media_packets num_fec_packets)
                     (\<lambda>(mask, mask_table').
                       RTC_DCHECK dchecks (0 < av_size mask) ''idx < this->size()''
                         (bind_res
                            (mem_load ''mask'' (int (av_start mask)) (av_size mask) (av_object mask))
                            (\<lambda>bytes.
                              bind_res (mem_store ''packet_masks_'' 0 bytes packet_mask)
                                (\<lambda>packet_mask'. Inr (mask_table', packet_mask')))))
                 else Inr (mask_table, packet_mask)))))))"

section \<open>Reference masks\<close>

text \<open>Bytes per mask row for \<open>k\<close> media packets.\<close>

definition mask_width :: "nat \<Rightarrow> nat" where
  "mask_width k = (if k > 16 then 6 else 2)"

definition interleaved_mask :: "nat \<Rightarrow> nat \<Rightarrow> u8 list" where
  "interleaved_mask k m =
     concat (map (\<lambda>row. map (interleaved_byte k m row) [0..<mask_width k]) [0..<m])"

definition rows_of :: "FecMaskType \<Rightarrow> u8 list list list" where
  "rows_of ty = (case ty of kFecMaskRandom \<Rightarrow> mask_rows_random | kFecMaskBursty \<Rightarrow> mask_rows_bursty)"

definition table_of :: "FecMaskType \<Rightarrow> u8 list" where
  "table_of ty = (case ty of kFecMaskRandom \<Rightarrow> kPacketMaskRandomTbl | kFecMaskBursty \<Rightarrow> kPacketMaskBurstyTbl)"

definition mask_spec :: "FecMaskType \<Rightarrow> nat \<Rightarrow> nat \<Rightarrow> u8 list" where
  "mask_spec ty k m =
     (if k \<le> 12 then rows_of ty ! (k - 1) ! (m - 1) else interleaved_mask k m)"

text \<open>Row \<open>i\<close> of a mask protects media packet \<open>j\<close>: the bit the encoder tests.\<close>

definition protects :: "u8 list \<Rightarrow> nat \<Rightarrow> nat \<Rightarrow> nat \<Rightarrow> bool" where
  "protects bytes width i j \<longleftrightarrow> bit (bytes ! (i * width + j div 8)) (7 - j mod 8)"

section \<open>Sizes\<close>

lemma PacketMaskSize_ok: "k \<le> 48 \<Longrightarrow> PacketMaskSize dchecks k = Inr (mask_width k)"
  by (simp add: PacketMaskSize_def mask_width_def mask_constants)

lemma length_interleaved_mask: "length (interleaved_mask k m) = m * mask_width k"
  unfolding interleaved_mask_def
  by (subst length_concat_fixed [where n = "mask_width k"]) auto

section \<open>The walk over a table\<close>

definition entry_bytes :: "u8 list list \<Rightarrow> u8 list" where
  "entry_bytes ms = of_nat (length ms) # concat ms"

definition wf_rows :: "u8 list list list \<Rightarrow> bool" where
  "wf_rows rows \<longleftrightarrow> length rows \<le> 16 \<and>
     (\<forall>ms \<in> set rows. length ms < 256 \<and> (\<forall>j < length ms. length (ms ! j) = 2 * (j + 1)))"

lemma skip_data_concat:
  "n \<le> length ms \<Longrightarrow> (\<And>j. j < length ms \<Longrightarrow> length (ms ! j) = 2 * (j + 1)) \<Longrightarrow>
   skip_data 2 entry n = entry + length (concat (take n ms))"
  by (induction n) (simp_all add: take_Suc_conv_app_nth)

lemma entry_split:
  assumes "n < length rows"
  shows "concat (map entry_bytes rows) =
    concat (map entry_bytes (take n rows)) @ of_nat (length (rows ! n)) #
    concat (rows ! n) @ concat (map entry_bytes (drop (Suc n) rows))"
proof -
  have "rows = take n rows @ rows ! n # drop (Suc n) rows"
    using assms by (rule id_take_nth_drop)
  then have "map entry_bytes rows = map entry_bytes (take n rows) @
      entry_bytes (rows ! n) # map entry_bytes (drop (Suc n) rows)"
    by (metis list.simps(9) map_append)
  then show ?thesis by (simp add: entry_bytes_def)
qed

text \<open>Offset of entry \<open>n\<close> behind the leading size byte.\<close>

definition entry_offset :: "u8 list list list \<Rightarrow> nat \<Rightarrow> nat" where
  "entry_offset rows n = 1 + length (concat (map entry_bytes (take n rows)))"

lemma byte_at_entry:
  assumes "n < length rows"
  shows "byte_at (t0 # concat (map entry_bytes rows)) (entry_offset rows n) =
    Inr (of_nat (length (rows ! n)))"
  using assms by (simp add: byte_at_def entry_offset_def entry_split [OF assms] nth_append)

lemma entry_offset_Suc:
  assumes "n < length rows"
  shows "entry_offset rows (Suc n) = Suc (entry_offset rows n) + length (concat (rows ! n))"
  using assms by (simp add: entry_offset_def take_Suc_conv_app_nth entry_bytes_def)

lemma unat_entry_count: "wf_rows rows \<Longrightarrow> n < length rows \<Longrightarrow>
    unat (of_nat (length (rows ! n)) :: u8) = length (rows ! n)"
  by (auto simp: wf_rows_def unat_of_nat)

lemma hop_entries_offset:
  assumes wf: "wf_rows rows" and "i \<le> n" and "n < length rows"
  shows "hop_entries (t0 # concat (map entry_bytes rows)) n i 2 (entry_offset rows i) =
    Inr (2, entry_offset rows n)"
  using assms(2,3)
proof (induction "n - i" arbitrary: i)
  case 0
  then show ?case by (simp add: hop_entries.simps)
next
  case (Suc d)
  then have i: "i < length rows" and i16: "i \<noteq> 16" and "i < n"
    using wf by (auto simp: wf_rows_def)
  have "skip_data 2 (Suc (entry_offset rows i)) (length (rows ! i)) = entry_offset rows (Suc i)"
    using wf i by (subst skip_data_concat [where ms = "rows ! i"])
      (auto simp: wf_rows_def entry_offset_Suc)
  then show ?case
    using Suc i i16 \<open>i < n\<close>
    by (subst hop_entries.simps) (simp add: byte_at_entry unat_entry_count [OF wf])
qed

lemma LookUpInFecTable_rows:
  assumes wf: "wf_rows rows" and k: "k < length rows" and m: "m < length (rows ! k)"
    and t0: "t0 = of_nat (length rows)"
  defines "T \<equiv> t0 # concat (map entry_bytes rows)"
  shows "\<exists>v. LookUpInFecTable dchecks T (int k) (int m) = Inr v \<and>
    av_start v + av_size v \<le> length (av_object v) \<and>
    take (av_size v) (drop (av_start v) (av_object v)) = mem_of (rows ! k ! m) \<and> av_size v = 2 * (m + 1)"
proof -
  let ?ms = "rows ! k"
  let ?start = "Suc (entry_offset rows k) + length (concat (take m ?ms))"
  have ms: "length ?ms < 256" "\<And>j. j < length ?ms \<Longrightarrow> length (?ms ! j) = 2 * (j + 1)"
    and len: "length rows \<le> 16"
    using wf k by (auto simp: wf_rows_def)
  have hop: "hop_entries T k 0 2 1 = Inr (2, entry_offset rows k)"
    using hop_entries_offset [OF wf, of 0 k t0] k by (simp add: T_def entry_offset_def)
  have skip: "skip_data 2 (Suc (entry_offset rows k)) m = ?start"
    using m ms by (intro skip_data_concat) auto
  have size: "size_t (2 * (int m + 1)) = 2 * (m + 1)"
    using m ms(1) by (subst size_t_small) auto
  have split: "concat ?ms = concat (take m ?ms) @ ?ms ! m @ concat (drop (Suc m) ?ms)"
    using m by (metis concat.simps(2) concat_append id_take_nth_drop)
  have T: "T = (t0 # concat (map entry_bytes (take k rows)) @ of_nat (length ?ms) #
      concat (take m ?ms)) @ ?ms ! m @ concat (drop (Suc m) ?ms) @
      concat (map entry_bytes (drop (Suc k) rows))"
    by (simp add: T_def entry_split [OF k] split)
  have start: "length (t0 # concat (map entry_bytes (take k rows)) @ of_nat (length ?ms) #
      concat (take m ?ms)) = ?start"
    by (simp add: entry_offset_def)
  have view: "take (2 * (m + 1)) (drop ?start T) = ?ms ! m" "?start + 2 * (m + 1) \<le> length T"
    unfolding T length_append start using ms(2) [OF m]
    by (simp_all only: take_drop_segment [OF start [symmetric]])
  have reads: "byte_at T 0 = Inr t0" "byte_at T (entry_offset rows k) = Inr (of_nat (length ?ms))"
    using byte_at_entry [OF k, of t0] by (simp_all add: T_def byte_at_def)
  have counts: "uint t0 = int (length rows)" "uint (of_nat (length ?ms) :: u8) = int (length ?ms)"
    using len ms(1) by (simp_all add: t0 uint_nat unat_of_nat)
  have "int k \<noteq> 16" using k len by simp
  then have "LookUpInFecTable dchecks T (int k) (int m) =
      Inr \<lparr>av_object = mem_of T, av_start = ?start, av_size = 2 * (m + 1)\<rparr>"
    unfolding LookUpInFecTable_def using k m
    by (simp only: reads hop counts skip size bind_res.simps prod.case Let_def nat_int if_False
        RTC_DCHECK_pass of_nat_less_iff of_nat_numeral)
  with view show ?thesis by simp
qed
section \<open>The two tables\<close>

lemma wf_rows_iff:
  "wf_rows rows \<longleftrightarrow> length rows \<le> 16 \<and>
     list_all (\<lambda>ms. length ms < 256 \<and> map length ms = map (\<lambda>j. 2 * (j + 1)) [0..<length ms]) rows"
  unfolding wf_rows_def list_all_iff list_eq_iff_nth_eq by auto

lemma wf_rows_random: "wf_rows mask_rows_random"
  unfolding wf_rows_iff mask_rows_random_def
  by (simp add: mask_random_defs upt_rec)

lemma wf_rows_bursty: "wf_rows mask_rows_bursty"
  unfolding wf_rows_iff mask_rows_bursty_def
  by (simp add: mask_bursty_defs upt_rec)

lemma lengths_upt:
  assumes "map length rows = [1..<Suc n]" and "k < n"
  shows "length (rows ! k) = Suc k"
proof -
  have n: "length rows = n" using arg_cong [OF assms(1), of length] by simp
  have "map length rows ! k = [1..<Suc n] ! k" by (simp only: assms(1))
  then show ?thesis using n assms(2) by (simp del: upt_Suc)
qed

lemma length_rows [simp]: "length mask_rows_random = 12" "length mask_rows_bursty = 12"
  by (simp_all add: mask_rows_random_def mask_rows_bursty_def)

lemma length_row_random: "k < 12 \<Longrightarrow> length (mask_rows_random ! k) = Suc k"
  by (rule lengths_upt [where n = 12]) (simp add: mask_rows_random_def upt_rec)

lemma length_row_bursty: "k < 12 \<Longrightarrow> length (mask_rows_bursty ! k) = Suc k"
  by (rule lengths_upt [where n = 12]) (simp add: mask_rows_bursty_def upt_rec)

lemmas rows_facts = wf_rows_random wf_rows_bursty length_row_random length_row_bursty

lemma table_of_rows: "table_of ty = of_nat (length (rows_of ty)) # concat (map entry_bytes (rows_of ty))"
  by (cases ty) (simp_all only: table_of_def rows_of_def table_random_layout table_bursty_layout
      FecMaskType.case entry_bytes_def [abs_def])

lemma rows_of_facts: "wf_rows (rows_of ty)" "length (rows_of ty) = 12"
    "k < 12 \<Longrightarrow> length (rows_of ty ! k) = Suc k"
  by (cases ty; simp add: rows_of_def rows_facts)+

lemma PickTable_small:
  "0 < k \<Longrightarrow> k \<le> 12 \<Longrightarrow> PickTable dchecks ty (int k) = Inr (table_of ty)"
  by (cases ty) (simp_all add: PickTable_def table_of_def size_t_of_nat mask_constants
      kPacketMaskBurstyTbl_def)

lemma LookUp_table:
  assumes "0 < m" "m \<le> k" "k \<le> 12" and t: "pm_table t = table_of ty"
  shows "\<exists>v. LookUp dchecks t (int k) (int m) = Inr (v, t) \<and>
    av_start v + av_size v \<le> length (av_object v) \<and>
    take (av_size v) (drop (av_start v) (av_object v)) = mem_of (rows_of ty ! (k - 1) ! (m - 1)) \<and>
    av_size v = 2 * m"
proof -
  have "k - 1 < length (rows_of ty)" "m - 1 < length (rows_of ty ! (k - 1))"
    using assms by (simp_all add: rows_of_facts)
  from LookUpInFecTable_rows [OF rows_of_facts(1) this refl, of dchecks]
  obtain v where v: "LookUpInFecTable dchecks (table_of ty) (int k - 1) (int m - 1) = Inr v"
    "av_start v + av_size v \<le> length (av_object v)"
    "take (av_size v) (drop (av_start v) (av_object v)) = mem_of (rows_of ty ! (k - 1) ! (m - 1))"
    "av_size v = 2 * m"
    using assms by (auto simp: table_of_rows of_nat_diff)
  then show ?thesis using assms by (simp add: LookUp_def mask_constants)
qed

section \<open>The interleaving loops\<close>

lemma fill_row_eq:
  assumes "Suc row * w \<le> length buf" and "col \<le> w"
  shows "fill_row k m w row col buf =
    Inr (take (row * w + col) buf @ mem_of (map (interleaved_byte k m row) [col..<w]) @
         drop (Suc row * w) buf)"
  using assms
proof (induction "w - col" arbitrary: col buf)
  case 0
  then show ?case by (simp add: fill_row.simps mem_of_def add.commute)
next
  case (Suc d)
  let ?p = "row * w + col"
  let ?b = "interleaved_byte k m row col"
  let ?buf = "take ?p buf @ [Some ?b] @ drop (Suc ?p) buf"
  have p: "Suc ?p \<le> length buf" and cw: "col < w" using Suc by auto
  have "mem_store ''fec_packet_mask_'' (int ?p) [Some ?b] buf = Inr ?buf"
    using p by (subst mem_store_nat) simp_all
  moreover have "fill_row k m w row (Suc col) ?buf =
     Inr (take (Suc ?p) ?buf @ mem_of (map (interleaved_byte k m row) [Suc col..<w]) @ drop (Suc row * w) ?buf)"
    using Suc p by (subst Suc.hyps(1)) auto
  moreover have "take (Suc ?p) ?buf = take ?p buf @ mem_of [?b]"
    using p by (simp add: mem_of_def)
  moreover have "drop (Suc row * w) ?buf = drop (Suc row * w) buf"
    using p cw by (simp add: drop_Cons')
  ultimately show ?case
    using cw by (subst fill_row.simps) (simp add: upt_conv_Cons mem_of_def)
qed

lemma fill_masks_eq:
  assumes "m * w \<le> length buf" and "row \<le> m"
  shows "fill_masks k m w row buf =
    Inr (take (row * w) buf @ mem_of (concat (map (\<lambda>r. map (interleaved_byte k m r) [0..<w]) [row..<m])) @
         drop (m * w) buf)"
  using assms
proof (induction "m - row" arbitrary: row buf)
  case 0
  then show ?case by (simp add: fill_masks.simps mem_of_def)
next
  case (Suc d)
  let ?bs = "map (interleaved_byte k m row) [0..<w]"
  let ?buf = "take (row * w) buf @ mem_of ?bs @ drop (Suc row * w) buf"
  have rm: "row < m" using Suc by simp
  then have le: "Suc row * w \<le> m * w" by (intro mult_le_mono1) simp
  then have p: "Suc row * w \<le> length buf" using Suc.prems by linarith
  have "fill_row k m w row 0 buf = Inr ?buf"
    using p by (subst fill_row_eq) auto
  moreover have "fill_masks k m w (Suc row) ?buf =
     Inr (take (Suc row * w) ?buf @ mem_of (concat (map (\<lambda>r. map (interleaved_byte k m r) [0..<w]) [Suc row..<m])) @
          drop (m * w) ?buf)"
    using Suc p by (subst Suc.hyps(1)) auto
  moreover have "take (Suc row * w) ?buf = take (row * w) buf @ mem_of ?bs"
    using p by simp
  moreover have "drop (m * w) ?buf = drop (m * w) buf"
    using p le by (simp add: rm less_imp_le)
  ultimately show ?case
    using rm by (subst fill_masks.simps) (simp add: upt_conv_Cons)
qed
section \<open>Mask generation meets its reference\<close>

lemma length_mask_spec:
  assumes "0 < m" "m \<le> k" "k \<le> 48"
  shows "length (mask_spec ty k m) = m * mask_width k"
proof (cases "k \<le> 12")
  case True
  have "m - 1 < length (rows_of ty ! (k - 1))" "rows_of ty ! (k - 1) \<in> set (rows_of ty)"
    using True assms by (simp_all add: rows_of_facts)
  then have "length (rows_of ty ! (k - 1) ! (m - 1)) = 2 * (m - 1 + 1)"
    using rows_of_facts(1) unfolding wf_rows_def by blast
  then show ?thesis using True assms by (simp add: mask_spec_def mask_width_def)
next
  case False
  then show ?thesis by (simp add: mask_spec_def length_interleaved_mask)
qed

lemma LookUp_interleaved:
  assumes "0 < m" "m \<le> k" "12 < k" "k \<le> 48" and len: "length (fec_packet_mask t) = 288"
  shows "\<exists>v t'. LookUp dchecks t (int k) (int m) = Inr (v, t') \<and>
    av_start v + av_size v \<le> length (av_object v) \<and>
    take (av_size v) (drop (av_start v) (av_object v)) = mem_of (interleaved_mask k m) \<and>
    av_size v = m * mask_width k"
proof -
  let ?w = "mask_width k"
  let ?buf = "mem_of (interleaved_mask k m) @ drop (m * ?w) (fec_packet_mask t)"
  have w: "?w \<le> 6" by (simp add: mask_width_def)
  have bound: "m * ?w \<le> 288" using mult_le_mono [of m 48 ?w 6] assms w by simp
  then have "fill_masks k m ?w 0 (fec_packet_mask t) = Inr ?buf"
    using len by (subst fill_masks_eq) (simp_all add: interleaved_mask_def)
  moreover have "size_t (int m * int ?w) = m * ?w"
    using bound by (simp only: of_nat_mult [symmetric], intro size_t_of_nat) simp
  ultimately have "LookUp dchecks t (int k) (int m) =
      Inr (\<lparr>av_object = ?buf, av_start = 0, av_size = m * ?w\<rparr>, t\<lparr>fec_packet_mask := ?buf\<rparr>)"
    using assms by (simp add: LookUp_def mask_constants size_t_of_nat PacketMaskSize_ok)
  then show ?thesis
    using bound len by (simp add: length_interleaved_mask)
qed

lemma new_PacketMaskTable_ok:
  assumes "0 < k" "k \<le> 48"
  shows "\<exists>t. new_PacketMaskTable dchecks ty (int k) = Inr t \<and> length (fec_packet_mask t) = 288 \<and>
    (k \<le> 12 \<longrightarrow> pm_table t = table_of ty)"
  using assms
  by (auto simp: new_PacketMaskTable_def PickTable_def table_of_def size_t_of_nat mask_constants
      kPacketMaskBurstyTbl_def split: FecMaskType.splits)

lemma LookUp_spec:
  assumes "0 < m" "m \<le> k" "k \<le> 48" and t: "new_PacketMaskTable d0 ty (int k) = Inr t"
  shows "\<exists>v t'. LookUp dchecks t (int k) (int m) = Inr (v, t') \<and>
    av_start v + av_size v \<le> length (av_object v) \<and>
    take (av_size v) (drop (av_start v) (av_object v)) = mem_of (mask_spec ty k m) \<and>
    av_size v = m * mask_width k"
proof -
  have k: "0 < k" using assms by simp
  then have t_facts: "length (fec_packet_mask t) = 288" "k \<le> 12 \<longrightarrow> pm_table t = table_of ty"
    using new_PacketMaskTable_ok [of k d0 ty] assms by auto
  show ?thesis
  proof (cases "k \<le> 12")
    case True
    then have "mask_width k = 2" by (simp add: mask_width_def)
    then show ?thesis
      using LookUp_table [of m k t ty dchecks] t_facts True assms
      by (auto simp: mask_spec_def mult.commute)
  next
    case False
    then show ?thesis using LookUp_interleaved [of m k t dchecks] t_facts assms
      by (simp add: mask_spec_def)
  qed
qed

lemma GeneratePacketMasks_eq:
  assumes "0 < m" and "m \<le> k" and "k \<le> 48"
    and "new_PacketMaskTable dchecks ty (int k) = Inr t"
    and "0 \<le> imp" and "imp \<le> int k" and "\<not> uep \<or> imp = 0"
    and "m * mask_width k \<le> length packet_mask"
  shows "\<exists>t'. GeneratePacketMasks dchecks (int k) (int m) imp uep t packet_mask =
    Inr (t', mem_of (mask_spec ty k m) @ drop (m * mask_width k) packet_mask)"
proof -
  let ?n = "m * mask_width k"
  from LookUp_spec [OF assms(1-4), of dchecks] obtain v t' where
    v: "LookUp dchecks t (int k) (int m) = Inr (v, t')"
      "mem_load ''mask'' (int (av_start v)) (av_size v) (av_object v) = Inr (mem_of (mask_spec ty k m))"
      "av_size v = ?n"
    by (auto simp: mem_load_nat)
  have "mem_store ''packet_masks_'' 0 (mem_of (mask_spec ty k m)) packet_mask =
      Inr (mem_of (mask_spec ty k m) @ drop ?n packet_mask)"
    using assms length_mask_spec [of m k ty] by (simp add: mem_store_def)
  then show ?thesis
    using assms v by (auto simp: GeneratePacketMasks_def PacketMaskSize_ok size_t_of_nat mask_width_def)
qed

text \<open>
  Claim C1. For every number of media packets \<open>1 \<le> k \<le> 48\<close>, every number of FEC packets
  \<open>1 \<le> m \<le> k\<close>, both table kinds and both build modes, \<open>GeneratePacketMasks\<close> on a freshly
  constructed table returns without a failed check or an access outside an object, and writes
  exactly the reference mask at the start of the encoder's mask array, leaving the rest of the
  array alone: the named macro of the table for \<open>k \<le> 12\<close>, the interleaved mask beyond.
\<close>

theorem GeneratePacketMasks_spec:
  assumes "0 < m" and "m \<le> k" and "k \<le> 48"
    and "new_PacketMaskTable dchecks ty (int k) = Inr t"
    and "0 \<le> imp" and "imp \<le> int k" and "\<not> uep \<or> imp = 0"
    and "m * mask_width k \<le> length packet_mask"
  shows "\<exists>t'. GeneratePacketMasks dchecks (int k) (int m) imp uep t packet_mask =
    Inr (t', mem_of (mask_spec ty k m) @ drop (m * mask_width k) packet_mask)"
  using assms by (rule GeneratePacketMasks_eq)

theorem GeneratePacketMasks_spec_witness:
  "\<exists>t'. GeneratePacketMasks True 10 2 0 False
     \<lparr>pm_table = kPacketMaskRandomTbl, fec_packet_mask = replicate 288 None\<rparr> (replicate 288 None) =
     Inr (t', mem_of (mask_spec kFecMaskRandom 10 2) @ replicate 284 None)"
proof -
  let ?t = "\<lparr>pm_table = kPacketMaskRandomTbl, fec_packet_mask = replicate 288 None\<rparr>"
  have "new_PacketMaskTable True kFecMaskRandom (int 10) = Inr ?t"
    by (simp add: new_PacketMaskTable_def PickTable_def size_t_def mask_constants)
  then show ?thesis
    using GeneratePacketMasks_spec [of 2 10 True kFecMaskRandom ?t 0 False "replicate 288 None"]
    by (simp add: mask_width_def)
qed

end
