(* ===== verification/Fec_Encoder.thy ===== *)
theory Fec_Encoder
  imports Packet_Masks
begin

text \<open>
  The sending half of the FEC module (\<^verbatim>\<open>Channel_sim/forward_error_correction.cpp\<close> with the class
  of \<^verbatim>\<open>FEC_Encode/include/modules/rtp_rtcp/source/forward_error_correction.h\<close>): packets and
  their serialisation, the XOR encoder \<open>EncodeFec\<close>, the packetiser \<open>PacketByFEC\<close> that
  \<open>Udpserver\<close> calls, and the self-contained sender \<open>SendByUlpfec\<close>. The members of the class
  form the record \<open>fec_state\<close>; trailing underscores of member names are dropped. The file-scope
  variable \<open>packet_size\<close> is a field of the same record, since the program has one
  \<open>ForwardErrorCorrection\<close> object.
\<close>

section \<open>Packets\<close>

definition kMaxDataSize :: nat where "kMaxDataSize = 2000"

record packet =
  pkt_packet_mask :: u16
  pkt_group_number :: u8
  pkt_sequence_number :: u8
  pkt_k :: u8
  pkt_r :: u8
  pkt_data :: "u8 list"

definition new_Packet :: packet where
  "new_Packet = \<lparr>pkt_packet_mask = 0, pkt_group_number = 0, pkt_sequence_number = 0,
     pkt_k = 0, pkt_r = 0, pkt_data = replicate kMaxDataSize 0\<rparr>"

definition header_bytes :: "packet \<Rightarrow> u8 list" where
  "header_bytes p =
     le16 (pkt_packet_mask p) @ [pkt_group_number p, pkt_sequence_number p, pkt_k p, pkt_r p]"

text \<open>
  \<open>Serialize\<close>: the number of bytes written and the buffer afterwards; \<open>0\<close> and an untouched
  buffer when \<open>buffer_size\<close> or the payload request is out of range. \<open>buffer\<close> is the memory the
  pointer designates, which may be larger than \<open>buffer_size\<close> says, or smaller.
\<close>

definition Serialize :: "packet \<Rightarrow> mem \<Rightarrow> nat \<Rightarrow> nat \<Rightarrow> (nat \<times> mem) res" where
  "Serialize p buffer buffer_size payload_size_to_write =
     (let header_size = 2 + 1 + 1 + 1 + 1;
          required_total_size = header_size + payload_size_to_write
      in if buffer_size < required_total_size then Inr (0, buffer)
         else if payload_size_to_write > length (pkt_data p) then Inr (0, buffer)
         else
           bind_res (mem_store ''buffer'' 0 (mem_of (le16 (pkt_packet_mask p))) buffer) (\<lambda>b1.
           bind_res (mem_store ''buffer'' 2 (mem_of [pkt_group_number p]) b1) (\<lambda>b2.
           bind_res (mem_store ''buffer'' 3 (mem_of [pkt_sequence_number p]) b2) (\<lambda>b3.
           bind_res (mem_store ''buffer'' 4 (mem_of [pkt_k p]) b3) (\<lambda>b4.
           bind_res (mem_store ''buffer'' 5 (mem_of [pkt_r p]) b4) (\<lambda>b5.
           bind_res (mem_store ''buffer'' 6 (mem_of (take payload_size_to_write (pkt_data p))) b5) (\<lambda>b6.
             Inr (required_total_size, b6))))))))"

section \<open>The encoder\<close>

record fec_state =
  total_sent_packets :: u32
  total_sent_src_packets :: u32
  total_sent_fec_packets :: u32
  media_packets :: "packet list"
  buffer_packets :: "packet list"
  packet_masks :: mem
  packet_mask_size :: nat
  kNumImportantPackets :: int
  kUseUnequalProtection :: bool
  fec_first_use :: bool
  fec_last_use :: bool
  fec_packets :: "packet list"
  group_number :: int
  sequence_number :: int
  packet_size :: int

text \<open>
  A new object: the in-class initialisers; \<open>packet_masks_\<close> and \<open>packet_mask_size_\<close> have none,
  and \<open>EncodeFec\<close> sets them before it reads them. The static \<open>packet_size\<close> starts at zero.
\<close>

definition new_ForwardErrorCorrection :: fec_state where
  "new_ForwardErrorCorrection =
     \<lparr>total_sent_packets = 0, total_sent_src_packets = 0, total_sent_fec_packets = 0,
      media_packets = [], buffer_packets = [],
      packet_masks = replicate (48 * 6) None, packet_mask_size = 0,
      kNumImportantPackets = 0, kUseUnequalProtection = False,
      fec_first_use = True, fec_last_use = False, fec_packets = [],
      group_number = 0, sequence_number = 0, packet_size = 0\<rparr>"

text \<open>The static \<open>fec_mask_type\<close> of \<^verbatim>\<open>forward_error_correction_internal.h\<close>.\<close>

definition fec_mask_type :: FecMaskType where "fec_mask_type = kFecMaskRandom"

text \<open>\<open>for (i = 0; i < length; ++i) dst[i] ^= src[i];\<close> from \<open>i\<close> on.\<close>

function xor_loop :: "u8 list \<Rightarrow> u8 list \<Rightarrow> nat \<Rightarrow> nat \<Rightarrow> u8 list res" where
  "xor_loop src dst n i =
     (if i < n then
        if i < length src \<and> i < length dst
        then xor_loop src (dst[i := dst ! i XOR src ! i]) n (Suc i)
        else Inl (Out_of_bounds ''data'')
      else Inr dst)"
  by pat_completeness auto
termination
  by (relation "measure (\<lambda>(src, dst, n, i). n - i)") auto

declare xor_loop.simps [simp del]

definition XorPayloads :: "u8 list \<Rightarrow> u8 list \<Rightarrow> nat \<Rightarrow> u8 list res" where
  "XorPayloads src dst n = xor_loop src dst n 0"

text \<open>
  The inner loop of \<open>EncodeFec\<close>: media packet \<open>j\<close> is folded into the FEC packet's data when
  the mask bit \<open>packet_masks_[i * packet_mask_size_ + j / 8] & (1 << (7 - j % 8))\<close> is set.
\<close>

fun protect_loop ::
  "mem \<Rightarrow> nat \<Rightarrow> nat \<Rightarrow> nat \<Rightarrow> nat \<Rightarrow> packet list \<Rightarrow> u8 list \<Rightarrow> u8 list res"
where
  "protect_loop masks mask_size len i j [] fec_data = Inr fec_data"
| "protect_loop masks mask_size len i j (p # ps) fec_data =
     bind_res (mem_read ''packet_masks_'' (int (i * mask_size + j div 8)) 1 masks) (\<lambda>b.
       if hd b AND push_bit (7 - j mod 8) 1 \<noteq> 0
       then bind_res (XorPayloads (pkt_data p) fec_data len) (protect_loop masks mask_size len i (Suc j) ps)
       else protect_loop masks mask_size len i (Suc j) ps fec_data)"

text \<open>
  \<open>memcpy(&fec_packet->packet_mask, &packet_masks_[(sequence_number - num_media_packets) *
  packet_mask_size_], packet_mask_size_)\<close>: the index is computed in \<open>size_t\<close>, and more than the
  two bytes of \<open>packet_mask\<close> do not fit the member.
\<close>

definition copy_packet_mask :: "mem \<Rightarrow> nat \<Rightarrow> int \<Rightarrow> nat \<Rightarrow> u16 res" where
  "copy_packet_mask masks mask_size seq num_media =
     bind_res
       (mem_read ''packet_masks_'' (int (size_t ((seq - int num_media) * int mask_size))) mask_size masks)
       (\<lambda>bs. case bs of
          [lo, hi] \<Rightarrow> Inr (of_le16 lo hi)
        | _ \<Rightarrow> Inl (Out_of_bounds ''packet_mask''))"

text \<open>The generating loop, from \<open>i\<close> on: each FEC packet is taken from the front of the list,
  filled, and put back at its end; \<open>sequence_number\<close> advances with it.\<close>

function generate_loop ::
  "packet list \<Rightarrow> nat \<Rightarrow> fec_state \<Rightarrow> nat \<Rightarrow> fec_state res"
where
  "generate_loop media num_fec st i =
     (if i < num_fec then
        case fec_packets st of
          [] \<Rightarrow> Inl (Out_of_bounds ''fec_packets'')
        | fp # rest \<Rightarrow>
            bind_res
              (protect_loop (packet_masks st) (packet_mask_size st) (size_t (packet_size st)) i 0 media
                 (pkt_data fp))
              (\<lambda>d.
                bind_res
                  (copy_packet_mask (packet_masks st) (packet_mask_size st) (sequence_number st)
                     (length media))
                  (\<lambda>mask_value.
                    let fp' = \<lparr>pkt_packet_mask = mask_value,
                               pkt_group_number = word_of_int (group_number st),
                               pkt_sequence_number = word_of_int (sequence_number st),
                               pkt_k = of_nat (length media), pkt_r = of_nat num_fec,
                               pkt_data = d\<rparr>
                    in generate_loop media num_fec
                         (st\<lparr>fec_packets := rest @ [fp'],
                             sequence_number := sequence_number st + 1\<rparr>)
                         (Suc i)))
      else Inr st)"
  by pat_completeness auto
termination
  by (relation "measure (\<lambda>(media, num_fec, st, i). num_fec - i)") auto

declare generate_loop.simps [simp del]

text \<open>\<open>EncodeFec\<close> on the object's own \<open>fec_packets\<close> list: the returned count and the new state.\<close>

definition EncodeFec ::
  "bool \<Rightarrow> packet list \<Rightarrow> u32 \<Rightarrow> int \<Rightarrow> bool \<Rightarrow> FecMaskType \<Rightarrow> fec_state \<Rightarrow> (int \<times> fec_state) res"
where
  "EncodeFec dchecks media r num_important_packets use_unequal_protection mask_type st =
     (let num_media_packets = length media; num_fec_packets = sint r in
      RTC_DCHECK dchecks (num_media_packets > 0) ''num_media_packets > 0''
      (RTC_DCHECK dchecks (num_important_packets \<ge> 0) ''num_important_packets >= 0''
      (RTC_DCHECK dchecks (num_important_packets \<le> int num_media_packets)
         ''num_important_packets <= num_media_packets''
      (RTC_DCHECK dchecks (fec_packets st = []) ''fec_packets->empty()''
      (RTC_DCHECK dchecks (num_media_packets \<le> 16) ''num_media_packets <= 16''
      (RTC_DCHECK dchecks (num_fec_packets \<le> int num_media_packets) ''num_fec_packets <= num_media_packets''
        (if num_fec_packets = 0 then Inr (0, st)
         else
           let st1 = st\<lparr>fec_packets := fec_packets st @ replicate (nat num_fec_packets) new_Packet\<rparr> in
           bind_res (new_PacketMaskTable dchecks mask_type (int num_media_packets)) (\<lambda>mask_table.
           bind_res (PacketMaskSize dchecks num_media_packets) (\<lambda>mask_size.
           bind_res
             (mem_store ''packet_masks_'' 0
                (replicate (size_t (num_fec_packets * int mask_size)) (Some 0)) (packet_masks st1))
             (\<lambda>zeroed.
           bind_res
             (GeneratePacketMasks dchecks (int num_media_packets) num_fec_packets num_important_packets
                use_unequal_protection mask_table zeroed)
             (\<lambda>(mask_table', masks).
           bind_res
             (generate_loop media (nat num_fec_packets)
                (st1\<lparr>packet_mask_size := mask_size, packet_masks := masks\<rparr>) 0)
             (\<lambda>st2. Inr (num_fec_packets, st2)))))))))))))"

section \<open>The packetiser\<close>

text \<open>
  The common head of \<open>PacketByFEC\<close> and \<open>SendByUlpfec\<close>: the first call fixes \<open>packet_size\<close>; a
  shorter chunk is padded with zeros in the caller's buffer and marks the last use; the packet is
  stamped and appended to \<open>media_packets\<close>. The result is the packet and the new state.
\<close>

definition make_packet ::
  "mem \<Rightarrow> int \<Rightarrow> int \<Rightarrow> int \<Rightarrow> fec_state \<Rightarrow> (packet \<times> fec_state) res"
where
  "make_packet buf len k r st =
     (let st1 = (if fec_first_use st then st\<lparr>packet_size := len, fec_first_use := False\<rparr> else st) in
      bind_res
        (if len < packet_size st1 then
           bind_res
             (mem_store ''buf'' len (replicate (size_t (packet_size st1 - len)) (Some 0)) buf)
             (\<lambda>buf'. Inr (buf', st1\<lparr>fec_last_use := True\<rparr>))
         else Inr (buf, st1))
        (\<lambda>(buf', st2).
          bind_res (mem_read ''buf'' 0 (size_t (packet_size st2)) buf') (\<lambda>bytes.
          bind_res (mem_store ''data'' 0 (mem_of bytes) (mem_of (pkt_data new_Packet))) (\<lambda>cells.
          bind_res (mem_values ''data'' cells) (\<lambda>d.
            let p = \<lparr>pkt_packet_mask = 0,
                     pkt_group_number = word_of_int (group_number st2),
                     pkt_sequence_number = word_of_int (sequence_number st2),
                     pkt_k = word_of_int k, pkt_r = word_of_int r, pkt_data = d\<rparr>
            in Inr (p, st2\<lparr>sequence_number := sequence_number st2 + 1,
                           media_packets := media_packets st2 @ [p]\<rparr>))))))"

definition PacketByFEC :: "bool \<Rightarrow> mem \<Rightarrow> int \<Rightarrow> int \<Rightarrow> int \<Rightarrow> fec_state \<Rightarrow> fec_state res" where
  "PacketByFEC dchecks buf len k r st =
     bind_res (make_packet buf len k r st) (\<lambda>(p, st1).
       let st2 = st1\<lparr>buffer_packets := buffer_packets st1 @ [p]\<rparr> in
       if length (media_packets st2) = size_t k then
         bind_res
           (EncodeFec dchecks (media_packets st2) (word_of_int r) (kNumImportantPackets st2)
              (kUseUnequalProtection st2) fec_mask_type st2)
           (\<lambda>(ret, st3).
             Inr (st3\<lparr>buffer_packets := buffer_packets st3 @ fec_packets st3,
                      group_number := group_number st3 + 1,
                      sequence_number := 0,
                      media_packets := [],
                      fec_packets := []\<rparr>))
       else Inr st2)"

end
