(* ===== verification/Encoder_Correct.thy ===== *)
theory Encoder_Correct
  imports Fec_Encoder
begin

text \<open>
  Functional correctness of the encoder: the byte loops compute the XOR of the payloads that the
  reference mask selects, \<open>EncodeFec\<close> builds the FEC packets of a group without a failed check or
  an access outside an object in either build mode, and a sequence of \<open>PacketByFEC\<close> calls refines
  the abstract stream of groups \<open>stream_spec\<close>.
\<close>

section \<open>XOR of payloads\<close>

definition xor_bytes :: "u8 list \<Rightarrow> u8 list \<Rightarrow> u8 list" where
  "xor_bytes xs ys = map2 (XOR) xs ys"

lemma length_xor_bytes [simp]: "length (xor_bytes xs ys) = min (length xs) (length ys)"
  by (simp add: xor_bytes_def)

lemma nth_xor_bytes [simp]:
  "i < length xs \<Longrightarrow> i < length ys \<Longrightarrow> xor_bytes xs ys ! i = xs ! i XOR ys ! i"
  by (simp add: xor_bytes_def)

lemma xor_loop_eq:
  assumes "n \<le> length src" "n \<le> length dst" "i \<le> n"
  shows "xor_loop src dst n i =
    Inr (map (\<lambda>j. if i \<le> j \<and> j < n then dst ! j XOR src ! j else dst ! j) [0..<length dst])"
  using assms
proof (induction "n - i" arbitrary: i dst)
  case 0
  then have "map (\<lambda>j. if i \<le> j \<and> j < n then dst ! j XOR src ! j else dst ! j) [0..<length dst] = dst"
    by (intro nth_equalityI) auto
  with 0 show ?case by (simp add: xor_loop.simps)
next
  case (Suc d)
  let ?dst = "dst[i := dst ! i XOR src ! i]"
  have "xor_loop src ?dst n (Suc i) =
      Inr (map (\<lambda>j. if Suc i \<le> j \<and> j < n then ?dst ! j XOR src ! j else ?dst ! j) [0..<length ?dst])"
    using Suc by (intro Suc.hyps(1)) auto
  moreover have "map (\<lambda>j. if Suc i \<le> j \<and> j < n then ?dst ! j XOR src ! j else ?dst ! j) [0..<length ?dst] =
      map (\<lambda>j. if i \<le> j \<and> j < n then dst ! j XOR src ! j else dst ! j) [0..<length dst]"
    using Suc by (auto simp: nth_list_update intro!: map_cong)
  moreover have "i < n" using Suc.hyps(2) by simp
  ultimately show ?case
    using Suc.prems by (subst xor_loop.simps) simp
qed

lemma XorPayloads_eq:
  assumes "n \<le> length src" "n \<le> length dst"
  shows "XorPayloads src dst n = Inr (xor_bytes (take n dst) (take n src) @ drop n dst)"
proof -
  have "map (\<lambda>j. if 0 \<le> j \<and> j < n then dst ! j XOR src ! j else dst ! j) [0..<length dst] =
      xor_bytes (take n dst) (take n src) @ drop n dst"
    using assms by (intro nth_equalityI) (auto simp: nth_append)
  then show ?thesis
    using xor_loop_eq [of n src dst 0] assms by (simp add: XorPayloads_def)
qed

text \<open>Payloads of the encoder: \<open>n\<close> significant bytes, zeros up to the size of the data field.\<close>

definition padded :: "nat \<Rightarrow> u8 list \<Rightarrow> bool" where
  "padded n d \<longleftrightarrow> length d = kMaxDataSize \<and> n \<le> kMaxDataSize \<and> drop n d = replicate (kMaxDataSize - n) 0"

lemma padded_nth: "padded n d \<Longrightarrow> n \<le> i \<Longrightarrow> i < kMaxDataSize \<Longrightarrow> d ! i = 0"
  by (metis add_diff_inverse_nat diff_less_mono leD nth_drop nth_replicate padded_def)

lemma padded_zero: "n \<le> kMaxDataSize \<Longrightarrow> padded n (replicate kMaxDataSize 0)"
  by (simp add: padded_def)

lemma XorPayloads_padded:
  assumes "padded n src" "padded n dst"
  shows "XorPayloads src dst n = Inr (xor_bytes dst src)"
proof -
  have "xor_bytes (take n dst) (take n src) @ drop n dst = xor_bytes dst src"
    using assms by (intro nth_equalityI) (auto simp: padded_def nth_append padded_nth [OF assms(1)] padded_nth [OF assms(2)])
  then show ?thesis using assms by (simp add: XorPayloads_eq padded_def)
qed

lemma padded_xor:
  assumes "padded n a" "padded n b"
  shows "padded n (xor_bytes a b)"
  using assms unfolding padded_def
  by (auto intro!: nth_equalityI simp: padded_nth [OF assms(1)] padded_nth [OF assms(2)])


section \<open>Parity of a group\<close>

text \<open>
  The parity that a mask row selects: the XOR of the selected payloads, over a zero payload. The
  first argument tells, by position, which payloads are selected.
\<close>

definition parity :: "(nat \<Rightarrow> bool) \<Rightarrow> u8 list list \<Rightarrow> u8 list" where
  "parity sel ds = fold (\<lambda>j acc. if sel j then xor_bytes acc (ds ! j) else acc) [0..<length ds]
     (replicate kMaxDataSize 0)"

lemma mem_read_byte:
  "i < length bs \<Longrightarrow> mem_read what (int i) 1 (mem_of bs @ rest) = Inr [bs ! i]"
  by (simp add: mem_read_def mem_load_nat take_Suc_conv_app_nth hd_drop_conv_nth
      take_Suc drop_eq_Nil mem_values_def mem_of_def)


lemma protect_loop_eq:
  assumes "i * w + (j + length ps - 1) div 8 < length bytes"
    and "\<And>p. p \<in> set ps \<Longrightarrow> padded n (pkt_data p)" and "padded n d"
  shows "protect_loop (mem_of bytes @ rest) w n i j ps d =
    Inr (fold (\<lambda>l acc. if protects bytes w i (j + l) then xor_bytes acc (pkt_data (ps ! l)) else acc)
           [0..<length ps] d)"
  using assms
proof (induction ps arbitrary: j d)
  case Nil
  then show ?case by simp
next
  case (Cons p ps)
  have shift: "fold (\<lambda>l acc. if protects bytes w i (j + l) then xor_bytes acc (pkt_data ((p # ps) ! l)) else acc)
        [0..<length (p # ps)] d =
      fold (\<lambda>l acc. if protects bytes w i (Suc j + l) then xor_bytes acc (pkt_data (ps ! l)) else acc)
        [0..<length ps] (if protects bytes w i j then xor_bytes d (pkt_data p) else d)"
    by (simp add: upt_conv_Cons fold_map comp_def cong: if_cong flip: map_Suc_upt del: upt_Suc)
  have "j div 8 \<le> (j + length (p # ps) - 1) div 8" by (intro div_le_mono) simp
  then have "mem_read ''packet_masks_'' (int (i * w + j div 8)) 1 (mem_of bytes @ rest) =
      Inr [bytes ! (i * w + j div 8)]"
    using Cons.prems by (intro mem_read_byte) linarith
  moreover have "XorPayloads (pkt_data p) d n = Inr (xor_bytes d (pkt_data p))"
    using Cons.prems by (intro XorPayloads_padded) auto
  moreover have "padded n (xor_bytes d (pkt_data p))"
    using Cons.prems by (intro padded_xor) auto
  ultimately show ?case
    using Cons.prems unfolding shift
    by (simp add: and_exp_eq_0_iff_not_bit Cons.IH) (simp add: protects_def)
qed


text \<open>What the encoder has to produce for the group \<open>g\<close> with payloads \<open>ds\<close>.\<close>

definition data_packet :: "nat \<Rightarrow> nat \<Rightarrow> int \<Rightarrow> nat \<Rightarrow> u8 list \<Rightarrow> packet" where
  "data_packet k r g i d =
     \<lparr>pkt_packet_mask = 0, pkt_group_number = word_of_int g, pkt_sequence_number = of_nat i,
      pkt_k = of_nat k, pkt_r = of_nat r, pkt_data = d\<rparr>"

definition fec_packet :: "nat \<Rightarrow> int \<Rightarrow> u8 list list \<Rightarrow> nat \<Rightarrow> packet" where
  "fec_packet r g ds i =
     (let k = length ds; bytes = mask_spec fec_mask_type k r in
      \<lparr>pkt_packet_mask = of_le16 (bytes ! (2 * i)) (bytes ! (2 * i + 1)),
       pkt_group_number = word_of_int g, pkt_sequence_number = of_nat (k + i),
       pkt_k = of_nat k, pkt_r = of_nat r, pkt_data = parity (protects bytes 2 i) ds\<rparr>)"

definition group_data :: "nat \<Rightarrow> nat \<Rightarrow> int \<Rightarrow> u8 list list \<Rightarrow> packet list" where
  "group_data k r g ds = map (\<lambda>i. data_packet k r g i (ds ! i)) [0..<length ds]"

definition group_fec :: "nat \<Rightarrow> int \<Rightarrow> u8 list list \<Rightarrow> packet list" where
  "group_fec r g ds = map (fec_packet r g ds) [0..<r]"

lemma group_data_simps [simp]:
  "length (group_data k r g ds) = length ds"
  "i < length ds \<Longrightarrow> pkt_data (group_data k r g ds ! i) = ds ! i"
  by (simp_all add: group_data_def data_packet_def)

lemma group_data_append:
  "group_data k r g (ds @ [d]) = group_data k r g ds @ [data_packet k r g (length ds) d]"
  by (simp add: group_data_def nth_append)

lemma copy_packet_mask_eq:
  assumes "2 * i + 1 < length bytes" and "length bytes < 2 ^ 63"
  shows "copy_packet_mask (mem_of bytes @ rest) 2 (int k + int i) k =
    Inr (of_le16 (bytes ! (2 * i)) (bytes ! (2 * i + 1)))"
proof -
  have idx: "size_t ((int k + int i - int k) * int 2) = 2 * i"
    using assms by (subst size_t_small) auto
  have "take 2 (drop (2 * i) (mem_of bytes @ rest)) = mem_of [bytes ! (2 * i), bytes ! (2 * i + 1)]"
    using assms(1) by (intro nth_equalityI) (auto simp: mem_of_def nth_append less_2_cases_iff)
  then have "mem_read ''packet_masks_'' (int (2 * i)) 2 (mem_of bytes @ rest) =
      Inr [bytes ! (2 * i), bytes ! (2 * i + 1)]"
    unfolding mem_read_def using assms(1) by (subst mem_load_nat) auto
  then show ?thesis unfolding copy_packet_mask_def idx by simp
qed

lemma generate_loop_eq:
  fixes ds :: "u8 list list" and r n :: nat and g :: int
  assumes "i \<le> r"
    and st: "packet_masks st = mem_of (mask_spec fec_mask_type (length ds) r) @ rest" "packet_mask_size st = 2"
      "packet_size st = int n" "group_number st = g" "sequence_number st = int (length ds) + int i"
      "fec_packets st = replicate (r - i) new_Packet @ map (fec_packet r g ds) [0..<i]"
    and k: "0 < length ds" "r \<le> length ds" "length ds \<le> 16"
    and n: "n \<le> kMaxDataSize" and ds: "\<And>d. d \<in> set ds \<Longrightarrow> padded n d"
    and media: "length media = length ds" "\<And>l. l < length ds \<Longrightarrow> pkt_data (media ! l) = ds ! l"
  shows "generate_loop media r st i =
    Inr (st\<lparr>fec_packets := group_fec r g ds, sequence_number := int (length ds) + int r\<rparr>)"
  using assms(1) st
proof (induction "r - i" arbitrary: i st)
  case 0
  then show ?case by (subst generate_loop.simps) (simp add: group_fec_def)
next
  case (Suc x)
  let ?bytes = "mask_spec fec_mask_type (length ds) r"
  let ?rest = "replicate (r - Suc i) new_Packet @ map (fec_packet r g ds) [0..<i]"
  have i: "i < r" and r: "0 < r" using Suc.hyps(2) by auto
  have len: "length ?bytes = 2 * r"
    using k r length_mask_spec [of r "length ds" fec_mask_type] by (simp add: mask_width_def)
  have fec: "fec_packets st = new_Packet # ?rest"
    using Suc.prems i by (simp add: Suc_diff_Suc flip: replicate_Suc)
  have size: "size_t (int n) = n"
    using n by (simp add: size_t_of_nat kMaxDataSize_def)
  have "protect_loop (mem_of ?bytes @ rest) 2 n i 0 media (pkt_data new_Packet) =
      Inr (fold (\<lambda>l acc. if protects ?bytes 2 i (0 + l) then xor_bytes acc (pkt_data (media ! l)) else acc)
        [0..<length media] (pkt_data new_Packet))"
  proof (rule protect_loop_eq)
    have "(0 + length media - 1) div 8 \<le> 1" using media k by simp
    then show "i * 2 + (0 + length media - 1) div 8 < length ?bytes" using i len by linarith
    show "padded n (pkt_data p)" if "p \<in> set media" for p
      using that ds media by (metis in_set_conv_nth nth_mem)
    show "padded n (pkt_data new_Packet)" using n by (simp add: new_Packet_def padded_zero)
  qed
  also have "fold (\<lambda>l acc. if protects ?bytes 2 i (0 + l) then xor_bytes acc (pkt_data (media ! l)) else acc)
        [0..<length media] (pkt_data new_Packet) = parity (protects ?bytes 2 i) ds"
    unfolding parity_def new_Packet_def using media by (auto intro!: fold_cong)
  finally have prot: "protect_loop (mem_of ?bytes @ rest) 2 (size_t (int n)) i 0 media
      (pkt_data new_Packet) = Inr (parity (protects ?bytes 2 i) ds)"
    by (simp only: size)
  have copy: "copy_packet_mask (mem_of ?bytes @ rest) 2 (int (length ds) + int i) (length ds) =
      Inr (of_le16 (?bytes ! (2 * i)) (?bytes ! (2 * i + 1)))"
    using i len k by (intro copy_packet_mask_eq) auto
  let ?st = "st\<lparr>fec_packets := ?rest @ [fec_packet r g ds i], sequence_number := sequence_number st + 1\<rparr>"
  have "generate_loop media r ?st (Suc i) =
      Inr (?st\<lparr>fec_packets := group_fec r g ds, sequence_number := int (length ds) + int r\<rparr>)"
    using Suc.prems Suc.hyps(2) i by (intro Suc.hyps(1)) auto
  moreover have "generate_loop media r st i = generate_loop media r ?st (Suc i)"
    using i by (subst generate_loop.simps)
      (simp add: fec prot copy fec_packet_def Let_def Suc.prems media)
  ultimately show ?case by simp
qed

lemma sint_word_of_nat: "r \<le> 16 \<Longrightarrow> sint (word_of_int (int r) :: u32) = int r"
  by (simp add: sint_uint uint_nat unat_of_nat signed_take_bit_int_eq_self)

lemma EncodeFec_eq:
  fixes ds :: "u8 list list" and r n :: nat and g :: int
  assumes st: "length (packet_masks st) = 288" "packet_size st = int n" "group_number st = g"
      "sequence_number st = int (length ds)" "fec_packets st = []"
    and k: "0 < length ds" "r \<le> length ds" "length ds \<le> 16"
    and n: "n \<le> kMaxDataSize" and ds: "\<And>d. d \<in> set ds \<Longrightarrow> padded n d"
    and media: "length media = length ds" "\<And>l. l < length ds \<Longrightarrow> pkt_data (media ! l) = ds ! l"
  shows "\<exists>st'. EncodeFec dchecks media (word_of_int (int r)) 0 False fec_mask_type st = Inr (int r, st') \<and>
    st' = st\<lparr>fec_packets := group_fec r g ds, sequence_number := int (length ds) + int r,
             packet_masks := packet_masks st', packet_mask_size := packet_mask_size st'\<rparr> \<and>
    length (packet_masks st') = 288"
proof (cases "r = 0")
  case True
  then show ?thesis
    using k st media by (simp add: EncodeFec_def group_fec_def)
next
  case False
  let ?k = "length ds"
  let ?bytes = "mask_spec fec_mask_type ?k r"
  have r: "sint (word_of_int (int r) :: u32) = int r" using k by (intro sint_word_of_nat) simp
  have w: "mask_width ?k = 2" using k by (simp add: mask_width_def)
  have size: "size_t (int r * 2) = 2 * r" using k by (subst size_t_small) auto
  obtain t where t: "new_PacketMaskTable dchecks fec_mask_type (int ?k) = Inr t"
    using new_PacketMaskTable_ok [of ?k dchecks fec_mask_type] k by auto
  let ?zeroed = "replicate (2 * r) (Some 0) @ drop (2 * r) (packet_masks st)"
  have zero: "mem_store ''packet_masks_'' 0 (replicate (2 * r) (Some 0)) (packet_masks st) = Inr ?zeroed"
    using st k by (simp add: mem_store_def)
  obtain t' where gen: "GeneratePacketMasks dchecks (int ?k) (int r) 0 False t ?zeroed =
      Inr (t', mem_of ?bytes @ drop (r * 2) ?zeroed)"
    using GeneratePacketMasks_eq [of r ?k dchecks fec_mask_type t 0 False ?zeroed] False k t w st by auto
  let ?st = "st\<lparr>fec_packets := replicate r new_Packet, packet_mask_size := 2,
               packet_masks := mem_of ?bytes @ drop (r * 2) ?zeroed\<rparr>"
  have "generate_loop media r ?st 0 =
      Inr (?st\<lparr>fec_packets := group_fec r g ds, sequence_number := int ?k + int r\<rparr>)"
    by (rule generate_loop_eq [OF _ _ _ _ _ _ _ k n ds media]) (simp_all add: st)
  moreover have "length ?bytes = 2 * r"
    using length_mask_spec [of r ?k fec_mask_type] False k w by simp
  ultimately show ?thesis
    using False k media r t gen zero size st w
    by (simp add: EncodeFec_def PacketMaskSize_ok Let_def)
qed

section \<open>The packetiser\<close>

definition pad_payload :: "nat \<Rightarrow> u8 list \<Rightarrow> u8 list" where
  "pad_payload n c = take n c @ replicate (kMaxDataSize - min n (length c)) 0"

lemma padded_pad_payload: "n \<le> kMaxDataSize \<Longrightarrow> padded n (pad_payload n c)"
  by (cases "length c \<le> n") (simp_all add: padded_def pad_payload_def)

lemma make_packet_eq:
  assumes n: "n \<le> kMaxDataSize" and c: "length c \<le> kMaxDataSize" and cap: "n \<le> length c + length junk"
    and size: "if fec_first_use st then length c = n else packet_size st = int n"
    and g: "sequence_number st = int i" and k: "0 < k" and "buf = mem_of c @ junk"
  shows "make_packet buf (int (length c)) (int k) (int r) st =
    (let p = data_packet k r (group_number st) i (pad_payload n c)
     in Inr (p, st\<lparr>packet_size := int n, fec_first_use := False,
                   fec_last_use := fec_last_use st \<or> length c < n,
                   sequence_number := int i + 1, media_packets := media_packets st @ [p]\<rparr>))"
proof -
  have nn: "size_t (int n) = n" "length c < n \<Longrightarrow> size_t (int n - int (length c)) = n - length c"
    using n c by (simp_all add: size_t_small kMaxDataSize_def)
  let ?st1 = "st\<lparr>packet_size := int n, fec_first_use := False\<rparr>"
  let ?pad = "replicate (n - length c) (0 :: u8)"
  let ?x = "take n c @ ?pad"
  have st1: "(if fec_first_use st then st\<lparr>packet_size := int (length c), fec_first_use := False\<rparr> else st) = ?st1"
    using size by (cases "fec_first_use st") simp_all
  have read: "mem_read ''buf'' 0 n (mem_of (c @ ?pad) @ junk') = Inr ?x" for junk'
    unfolding mem_read_def by (subst mem_load_ok) (simp_all del: mem_of_append)
  have data: "mem_store ''data'' 0 (mem_of ?x) (mem_of (pkt_data new_Packet)) = Inr (mem_of (pad_payload n c))"
    using n by (cases "length c \<le> n") (simp_all add: mem_store_def new_Packet_def pad_payload_def
        replicate_add [symmetric] mem_of_append [symmetric] del: mem_of_append)
  show ?thesis
  proof (cases "length c < n")
    case True
    have cells: "mem_of ?pad = replicate (n - length c) (Some 0)" by (simp add: mem_of_def)
    have "mem_store ''buf'' (int (length c)) (mem_of ?pad) buf =
        Inr (mem_of (c @ ?pad) @ drop (n - length c) junk)"
      using True cap assms(7) by (subst mem_store_nat) simp_all
    then show ?thesis
      using True g data unfolding make_packet_def Let_def st1 cells
      by (simp add: nn read data data_packet_def del: mem_of_append)
  next
    case False
    then show ?thesis
      using g data read [of junk] assms(7) unfolding make_packet_def Let_def st1
      by (simp add: nn data_packet_def)
  qed
qed

text \<open>
  The state between two calls: \<open>ds\<close> are the payloads of the group \<open>g\<close> collected so far, all of
  packet size \<open>n\<close> once a first chunk has fixed it.
\<close>

definition fec_rel :: "nat \<Rightarrow> nat \<Rightarrow> nat \<Rightarrow> int \<Rightarrow> u8 list list \<Rightarrow> fec_state \<Rightarrow> bool" where
  "fec_rel k r n g ds st \<longleftrightarrow>
     media_packets st = group_data k r g ds \<and> length ds < k \<and> (\<forall>d \<in> set ds. padded n d) \<and>
     fec_packets st = [] \<and> length (packet_masks st) = 288 \<and>
     sequence_number st = int (length ds) \<and> group_number st = g \<and>
     kNumImportantPackets st = 0 \<and> \<not> kUseUnequalProtection st \<and>
     (\<not> fec_first_use st \<longrightarrow> packet_size st = int n)"

lemma fec_rel_new: "0 < k \<Longrightarrow> fec_rel k r n 0 [] new_ForwardErrorCorrection"
  by (simp add: fec_rel_def new_ForwardErrorCorrection_def group_data_def)

text \<open>What one call emits, and the collected payloads and group number after it.\<close>

definition emitted :: "nat \<Rightarrow> nat \<Rightarrow> int \<Rightarrow> u8 list list \<Rightarrow> u8 list \<Rightarrow> packet list" where
  "emitted k r g ds d = data_packet k r g (length ds) d #
     (if Suc (length ds) = k then group_fec r g (ds @ [d]) else [])"

definition next_group :: "nat \<Rightarrow> int \<Rightarrow> u8 list list \<Rightarrow> u8 list \<Rightarrow> int \<times> u8 list list" where
  "next_group k g ds d = (if Suc (length ds) = k then (g + 1, []) else (g, ds @ [d]))"

lemma padded_parity:
  assumes "n \<le> kMaxDataSize" "\<And>d. d \<in> set ds \<Longrightarrow> padded n d"
  shows "padded n (parity sel ds)"
proof -
  have "padded n (fold (\<lambda>j acc. if sel j then xor_bytes acc (ds ! j) else acc) js a)"
    if "padded n a" "set js \<subseteq> {0..<length ds}" for js a
    using that by (induction js arbitrary: a) (auto simp: padded_xor assms(2))
  then show ?thesis by (simp add: parity_def padded_zero assms(1))
qed

lemma padded_emitted:
  assumes "n \<le> kMaxDataSize" "padded n d" "\<And>d. d \<in> set ds \<Longrightarrow> padded n d" "p \<in> set (emitted k r g ds d)"
  shows "padded n (pkt_data p)"
proof -
  have "padded n (parity sel (ds @ [d]))" for sel
    using assms by (intro padded_parity) auto
  then show ?thesis
    using assms by (auto simp: emitted_def data_packet_def group_fec_def fec_packet_def Let_def split: if_splits)
qed

lemma PacketByFEC_eq:
  assumes rel: "fec_rel k r n g ds st" and k: "r \<le> k" "k \<le> 16" and n: "n \<le> kMaxDataSize"
    and c: "length c \<le> kMaxDataSize" "fec_first_use st \<longrightarrow> length c = n" and cap: "n \<le> length c + length junk"
  shows "\<exists>st'. PacketByFEC dchecks (mem_of c @ junk) (int (length c)) (int k) (int r) st = Inr st' \<and>
    buffer_packets st' = buffer_packets st @ emitted k r g ds (pad_payload n c) \<and>
    (case next_group k g ds (pad_payload n c) of (g', ds') \<Rightarrow> fec_rel k r n g' ds' st') \<and>
    \<not> fec_first_use st' \<and> fec_last_use st' = (fec_last_use st \<or> length c < n)"
proof -
  let ?d = "pad_payload n c"
  let ?p = "data_packet k r g (length ds) ?d"
  let ?st1 = "st\<lparr>packet_size := int n, fec_first_use := False,
      fec_last_use := fec_last_use st \<or> length c < n,
      sequence_number := int (length ds) + 1, media_packets := media_packets st @ [?p],
      buffer_packets := buffer_packets st @ [?p]\<rparr>"
  have facts: "media_packets st = group_data k r g ds" "length ds < k" "fec_packets st = []"
    "length (packet_masks st) = 288" "sequence_number st = int (length ds)" "group_number st = g"
    "kNumImportantPackets st = 0" "\<not> kUseUnequalProtection st" "\<not> fec_first_use st \<longrightarrow> packet_size st = int n"
    "\<forall>d \<in> set ds. padded n d"
    using rel by (auto simp: fec_rel_def)
  have d: "padded n ?d" using n c by (intro padded_pad_payload)
  have make: "make_packet (mem_of c @ junk) (int (length c)) (int k) (int r) st =
      Inr (?p, ?st1\<lparr>buffer_packets := buffer_packets st\<rparr>)"
    using make_packet_eq [of n c junk st "length ds" k "mem_of c @ junk" r] n c cap facts
    by (auto simp: Let_def)
  have sk: "size_t (int k) = k" using k by (intro size_t_of_nat) simp
  show ?thesis
  proof (cases "Suc (length ds) = k")
    case False
    then show ?thesis
      using facts d by (simp add: PacketByFEC_def make sk Let_def emitted_def next_group_def fec_rel_def
          group_data_append)
  next
    case True
    let ?ds = "ds @ [?d]"
    obtain st2 where enc: "EncodeFec dchecks (group_data k r g ?ds) (word_of_int (int r)) 0 False fec_mask_type ?st1 =
        Inr (int r, st2)"
      and st2: "st2 = ?st1\<lparr>fec_packets := group_fec r g ?ds, sequence_number := int (length ?ds) + int r,
             packet_masks := packet_masks st2, packet_mask_size := packet_mask_size st2\<rparr>"
        "length (packet_masks st2) = 288"
      using EncodeFec_eq [of ?st1 n g ?ds r "group_data k r g ?ds" dchecks] facts True k n d by auto
    have proj: "buffer_packets st2 = buffer_packets st @ [?p]" "fec_packets st2 = group_fec r g ?ds"
      "group_number st2 = g" "kNumImportantPackets st2 = 0" "\<not> kUseUnequalProtection st2"
      "packet_size st2 = int n" "\<not> fec_first_use st2" "fec_last_use st2 = (fec_last_use st \<or> length c < n)"
      using facts by (subst st2(1); simp)+
    have "PacketByFEC dchecks (mem_of c @ junk) (int (length c)) (int k) (int r) st =
        Inr (st2\<lparr>buffer_packets := buffer_packets st2 @ fec_packets st2, group_number := group_number st2 + 1,
              sequence_number := 0, media_packets := [], fec_packets := []\<rparr>)"
      using facts enc True by (simp add: PacketByFEC_def make sk Let_def group_data_append)
    then show ?thesis
      using True proj st2(2) k by (simp add: emitted_def next_group_def fec_rel_def group_data_def)
  qed
qed
section \<open>Streams of chunks\<close>

text \<open>
  The calls that \<open>fileReaderTask\<close> makes: each chunk stands at the start of a 2000-byte local
  buffer whose remaining bytes are indeterminate.
\<close>

fun feed :: "bool \<Rightarrow> nat \<Rightarrow> nat \<Rightarrow> u8 list list \<Rightarrow> fec_state \<Rightarrow> fec_state res" where
  "feed dchecks k r [] st = Inr st"
| "feed dchecks k r (c # cs) st =
     bind_res
       (PacketByFEC dchecks (mem_of c @ replicate (kMaxDataSize - length c) None) (int (length c))
          (int k) (int r) st)
       (feed dchecks k r cs)"

lemma feed_append: "feed dchecks k r (xs @ ys) st = bind_res (feed dchecks k r xs st) (feed dchecks k r ys)"
proof (induction xs arbitrary: st)
  case (Cons x xs)
  then have "feed dchecks k r (xs @ ys) = (\<lambda>st. bind_res (feed dchecks k r xs st) (feed dchecks k r ys))"
    by blast
  then show ?case by (simp add: bind_res_assoc)
qed simp

text \<open>
  The abstract stream: the payloads cut into groups of \<open>k\<close>; a complete group is its data packets
  followed by its FEC packets, an incomplete last group its data packets only.
\<close>

definition nth_group :: "nat \<Rightarrow> 'a list \<Rightarrow> nat \<Rightarrow> 'a list" where
  "nth_group k ps g = take k (drop (g * k) ps)"

definition stream_spec :: "nat \<Rightarrow> nat \<Rightarrow> u8 list list \<Rightarrow> packet list" where
  "stream_spec k r ps =
     (let full = length ps div k in
      concat (map (\<lambda>g. group_data k r (int g) (nth_group k ps g) @ group_fec r (int g) (nth_group k ps g))
        [0..<full]) @ group_data k r (int full) (nth_group k ps full))"

lemma nth_group_prefix: "Suc g * k \<le> length ps \<Longrightarrow> nth_group k (ps @ qs) g = nth_group k ps g"
  by (simp add: nth_group_def)

lemma nth_group_last: "0 < k \<Longrightarrow> nth_group k ps (length ps div k) = drop (length ps div k * k) ps"
  by (simp add: nth_group_def div_mult_mod_eq minus_div_mult_eq_mod less_imp_le)

lemma length_last_group: "length (drop (length ps div k * k) ps) = length ps mod k"
  by (simp add: minus_div_mult_eq_mod)

lemma Suc_div_mod:
  assumes "0 < (k::nat)"
  shows "Suc (l mod k) = k \<Longrightarrow> Suc l div k = Suc (l div k)" "Suc (l mod k) \<noteq> k \<Longrightarrow> Suc l div k = l div k"
  using assms by (auto simp: div_Suc mod_Suc split: if_splits)

lemma stream_spec_full: "0 < k \<Longrightarrow> map (\<lambda>g. f g (nth_group k (ps @ [p]) g)) [0..<length ps div k] =
    map (\<lambda>g. f g (nth_group k ps g)) [0..<length ps div k]"
proof (intro map_cong refl)
  fix g assume "0 < k" "g \<in> set [0..<length ps div k]"
  then have "Suc g * k \<le> length ps div k * k" by (intro mult_le_mono1) simp
  then have "Suc g * k \<le> length ps" using div_times_less_eq_dividend [of "length ps" k] by linarith
  then show "f g (nth_group k (ps @ [p]) g) = f g (nth_group k ps g)" by (simp only: nth_group_prefix)
qed

lemma stream_spec_snoc:
  fixes ps :: "u8 list list"
  assumes k: "0 < k"
  defines "g \<equiv> length ps div k"
  defines "ds \<equiv> drop (g * k) ps"
  shows "stream_spec k r (ps @ [p]) = stream_spec k r ps @ emitted k r (int g) ds p"
    and "next_group k (int g) ds p =
      (int (length (ps @ [p]) div k), drop (length (ps @ [p]) div k * k) (ps @ [p]))"
proof -
  let ?l = "length ps"
  have len: "length ds = ?l mod k" by (simp only: ds_def g_def length_last_group)
  have gk: "g * k \<le> ?l" by (simp add: g_def)
  have last: "nth_group k ps g = ds" using nth_group_last [OF k, of ps] by (simp add: g_def ds_def)
  have ds': "drop (g * k) (ps @ [p]) = ds @ [p]" using gk by (simp add: ds_def)
  note full = stream_spec_full [OF k, of "\<lambda>g ds. group_data k r (int g) ds @ group_fec r (int g) ds" ps p, folded g_def]
  have both: "stream_spec k r (ps @ [p]) = stream_spec k r ps @ emitted k r (int g) ds p \<and>
      next_group k (int g) ds p = (int (length (ps @ [p]) div k), drop (length (ps @ [p]) div k * k) (ps @ [p]))"
  proof (cases "Suc (?l mod k) = k")
    case True
    then have g': "Suc ?l div k = Suc g" using Suc_div_mod [OF k] by (simp add: g_def)
    have "Suc ?l = ?l div k * k + Suc (?l mod k)" by simp
    then have tot: "Suc ?l = Suc g * k" unfolding True by (simp add: g_def)
    have grp: "nth_group k (ps @ [p]) g = ds @ [p]" "nth_group k (ps @ [p]) (Suc g) = []"
      using ds' len True tot by (simp_all add: nth_group_def)
    show ?thesis
      using True len tot last
      by (simp add: full stream_spec_def Let_def g' grp emitted_def next_group_def group_data_append
          group_data_def [of _ _ _ "[]"] flip: g_def)
  next
    case False
    then have g': "Suc ?l div k = g" using Suc_div_mod [OF k] by (simp add: g_def)
    have "Suc (?l mod k) < k" using False k by (metis Suc_lessI mod_less_divisor)
    then have grp: "nth_group k (ps @ [p]) g = ds @ [p]"
      using ds' len by (simp add: nth_group_def)
    show ?thesis
      using False len last ds'
      by (simp add: full stream_spec_def Let_def g' grp emitted_def next_group_def group_data_append flip: g_def)
  qed
  then show "stream_spec k r (ps @ [p]) = stream_spec k r ps @ emitted k r (int g) ds p"
    and "next_group k (int g) ds p =
      (int (length (ps @ [p]) div k), drop (length (ps @ [p]) div k * k) (ps @ [p]))" by blast+
qed

lemma feed_rel:
  assumes k: "0 < k" "r \<le> k" "k \<le> 16" and n: "n \<le> kMaxDataSize"
    and first: "cs \<noteq> [] \<Longrightarrow> length (hd cs) = n" and le: "\<forall>c \<in> set cs. length c \<le> n"
  shows "\<exists>st. feed dchecks k r cs new_ForwardErrorCorrection = Inr st \<and>
    buffer_packets st = stream_spec k r (map (pad_payload n) cs) \<and>
    fec_rel k r n (int (length cs div k)) (drop (length cs div k * k) (map (pad_payload n) cs)) st \<and>
    fec_first_use st = (cs = []) \<and> fec_last_use st = (\<exists>c \<in> set cs. length c < n)"
  using first le
proof (induction cs rule: rev_induct)
  case Nil
  then show ?case
    using fec_rel_new [OF k(1), of r n]
    by (simp add: stream_spec_def nth_group_def group_data_def) (simp add: new_ForwardErrorCorrection_def)
next
  case (snoc c cs)
  let ?ps = "map (pad_payload n) cs" and ?g = "length cs div k"
  have "cs \<noteq> [] \<Longrightarrow> length (hd cs) = n" using snoc.prems(1) by (cases cs) auto
  then obtain st where st: "feed dchecks k r cs new_ForwardErrorCorrection = Inr st"
    "buffer_packets st = stream_spec k r ?ps" "fec_rel k r n (int ?g) (drop (?g * k) ?ps) st"
    "fec_first_use st = (cs = [])" "fec_last_use st = (\<exists>c \<in> set cs. length c < n)"
    using snoc by auto
  have c: "length c \<le> kMaxDataSize" "fec_first_use st \<longrightarrow> length c = n"
    using snoc.prems st n by auto
  have cap: "n \<le> length c + length (replicate (kMaxDataSize - length c) (None :: u8 option))"
    using n by simp
  obtain st' where st': "PacketByFEC dchecks (mem_of c @ replicate (kMaxDataSize - length c) None) (int (length c))
      (int k) (int r) st = Inr st'"
    "buffer_packets st' = buffer_packets st @ emitted k r (int ?g) (drop (?g * k) ?ps) (pad_payload n c)"
    "case next_group k (int ?g) (drop (?g * k) ?ps) (pad_payload n c) of (g', ds') \<Rightarrow> fec_rel k r n g' ds' st'"
    "\<not> fec_first_use st'" "fec_last_use st' = (fec_last_use st \<or> length c < n)"
    using PacketByFEC_eq [OF st(3) k(2,3) n c cap, of dchecks] by (elim exE conjE) (rule that)
  have "feed dchecks k r (cs @ [c]) new_ForwardErrorCorrection = Inr st'"
    using st(1) st'(1) by (simp add: feed_append)
  then show ?case
    using st st' stream_spec_snoc(1) [OF k(1), where r = r and ps = ?ps and p = "pad_payload n c"]
      stream_spec_snoc(2) [OF k(1), where ps = ?ps and p = "pad_payload n c"]
    by auto
qed

text \<open>
  Claim C2. Feeding any sequence of chunks to a new encoder (first chunk of \<open>n \<le> 2000\<close> bytes, no
  later one longer, \<open>1 \<le> k \<le> 16\<close>, \<open>0 \<le> r \<le> k\<close>) never fails a check, leaves an object's bounds
  or reads an unwritten byte, in debug and in release builds, and refines the abstract stream: the
  packets queued in \<open>buffer_packets\<close> are, group by group, the \<open>k\<close> zero-padded chunks with
  sequence numbers \<open>0 \<dots> k - 1\<close> and then the \<open>r\<close> parity packets of the reference mask with
  sequence numbers \<open>k \<dots> k + r - 1\<close>, each stamped with its group; \<open>group_number\<close> and
  \<open>sequence_number\<close> are the quotient and remainder of the number of chunks by \<open>k\<close>.
\<close>

theorem feed_refines_stream:
  assumes "0 < k" "r \<le> k" "k \<le> 16" "n \<le> kMaxDataSize"
    and "cs \<noteq> [] \<Longrightarrow> length (hd cs) = n" and "\<forall>c \<in> set cs. length c \<le> n"
  shows "\<exists>st. feed dchecks k r cs new_ForwardErrorCorrection = Inr st \<and>
    buffer_packets st = stream_spec k r (map (pad_payload n) cs) \<and>
    group_number st = int (length cs div k) \<and> sequence_number st = int (length cs mod k) \<and>
    fec_packets st = []"
proof -
  from feed_rel [OF assms, of dchecks] obtain st where st: "feed dchecks k r cs new_ForwardErrorCorrection = Inr st"
    "buffer_packets st = stream_spec k r (map (pad_payload n) cs)"
    "fec_rel k r n (int (length cs div k)) (drop (length cs div k * k) (map (pad_payload n) cs)) st"
    by blast
  from st(3) have "group_number st = int (length cs div k)" "fec_packets st = []"
    "sequence_number st = int (length cs mod k)"
    by (simp_all add: fec_rel_def minus_div_mult_eq_mod)
  with st show ?thesis by blast
qed
theorem feed_refines_stream_witness:
  "\<exists>st. feed True 2 1 [[1, 2, 3], [4, 5], [6]] new_ForwardErrorCorrection = Inr st \<and>
    buffer_packets st = stream_spec 2 1 (map (pad_payload 3) [[1, 2, 3], [4, 5], [6]]) \<and>
    group_number st = 1 \<and> sequence_number st = 1 \<and> fec_packets st = []"
  using feed_refines_stream [of 2 1 3 "[[1, 2, 3], [4, 5], [6]]" True]
  by (simp add: kMaxDataSize_def)

end
