(* ===== verification/Fec_Recovery.thy ===== *)
theory Fec_Recovery
  imports Encoder_Correct
begin

text \<open>
  What the code is for: which losses of a group a receiver can repair, and that a repaired payload
  is the one that was sent. The receiver itself is a binary of the repository; its side is the
  abstract relation \<open>rebuilds\<close>, which allows any sequence of single-unknown XOR steps. The locale
  \<open>xor_code\<close> states the algebra such steps need and is interpreted on the encoder's payloads.
\<close>

section \<open>Codes over an XOR algebra\<close>

text \<open>
  The combination of the selected elements of a list, and the laws a payload type needs for a
  lost element to be recomputed from the combination and the other elements.
\<close>

definition combine :: "('g \<Rightarrow> 'g \<Rightarrow> 'g) \<Rightarrow> 'g \<Rightarrow> (nat \<Rightarrow> bool) \<Rightarrow> 'g list \<Rightarrow> 'g" where
  "combine add zero sel xs =
     fold (\<lambda>j acc. if sel j then add acc (xs ! j) else acc) [0..<length xs] zero"

locale xor_code =
  fixes add :: "'g \<Rightarrow> 'g \<Rightarrow> 'g"
    and zero :: 'g
    and valid :: "'g \<Rightarrow> bool"
  assumes valid_zero: "valid zero"
    and valid_add: "valid a \<Longrightarrow> valid b \<Longrightarrow> valid (add a b)"
    and add_assoc: "valid a \<Longrightarrow> valid b \<Longrightarrow> valid c \<Longrightarrow> add (add a b) c = add a (add b c)"
    and add_commute: "valid a \<Longrightarrow> valid b \<Longrightarrow> add a b = add b a"
    and add_zero: "valid a \<Longrightarrow> add zero a = a"
    and add_self: "valid a \<Longrightarrow> add a a = zero"
begin

lemma combine_snoc:
  "combine add zero sel (xs @ [x]) =
     (if sel (length xs) then add (combine add zero sel xs) x else combine add zero sel xs)"
proof -
  have "fold (\<lambda>j acc. if sel j then add acc ((xs @ [x]) ! j) else acc) [0..<length xs] zero =
      fold (\<lambda>j acc. if sel j then add acc (xs ! j) else acc) [0..<length xs] zero"
    by (rule fold_cong) (auto simp: nth_append)
  then show ?thesis by (simp add: combine_def)
qed

lemma valid_combine: "(\<And>x. x \<in> set xs \<Longrightarrow> valid x) \<Longrightarrow> valid (combine add zero sel xs)"
proof (induction xs rule: rev_induct)
  case Nil
  then show ?case by (simp add: combine_def valid_zero)
next
  case (snoc x xs)
  then show ?case by (simp add: combine_snoc valid_add)
qed

lemma combine_cong:
  "(\<And>j. j < length xs \<Longrightarrow> sel j = sel' j) \<Longrightarrow> length xs = length ys \<Longrightarrow>
   (\<And>j. j < length xs \<Longrightarrow> sel j \<Longrightarrow> xs ! j = ys ! j) \<Longrightarrow>
   combine add zero sel xs = combine add zero sel' ys"
  unfolding combine_def by (auto intro!: fold_cong)

text \<open>Cancelling the selected elements other than \<open>j\<close> leaves element \<open>j\<close>.\<close>

lemma combine_cancel:
  assumes "j < length xs" "sel j" "\<And>x. x \<in> set xs \<Longrightarrow> valid x"
  shows "add (combine add zero sel xs) (combine add zero (\<lambda>l. l \<noteq> j \<and> sel l) xs) = xs ! j"
  using assms
proof (induction xs rule: rev_induct)
  case Nil
  then show ?case by simp
next
  case (snoc x xs)
  let ?all = "combine add zero sel xs" and ?oth = "combine add zero (\<lambda>l. l \<noteq> j \<and> sel l) xs"
  have v: "valid ?all" "valid ?oth" "valid x" using snoc.prems by (auto intro: valid_combine)
  show ?case
  proof (cases "j = length xs")
    case True
    have same: "?oth = ?all" using True by (intro combine_cong) auto
    have "add (add ?all x) ?all = add (add x ?all) ?all" using v by (simp add: add_commute)
    also have "\<dots> = add x zero" using v by (simp add: add_assoc add_self)
    also have "\<dots> = x" using v by (simp add: add_commute [of x zero] valid_zero add_zero)
    finally show ?thesis using True snoc.prems same by (simp add: combine_snoc)
  next
    case False
    then have j: "j < length xs" using snoc.prems by simp
    then have IH: "add ?all ?oth = xs ! j" using snoc by auto
    have "add x (add ?oth x) = add (add ?oth x) x" using v by (simp add: add_commute valid_add)
    also have "\<dots> = add ?oth zero" using v by (simp add: add_assoc add_self)
    also have "\<dots> = ?oth" using v by (simp add: add_commute [of ?oth] valid_zero add_zero)
    finally have "add (add ?all x) (add ?oth x) = add ?all ?oth"
      using v by (simp add: add_assoc valid_add)
    then show ?thesis using False j IH by (simp add: combine_snoc nth_append)
  qed
qed

end

lemma parity_combine: "parity = combine xor_bytes (replicate kMaxDataSize 0)"
  by (simp add: fun_eq_iff parity_def combine_def)

interpretation payload: xor_code xor_bytes "replicate kMaxDataSize 0" "\<lambda>d. length d = kMaxDataSize"
  by unfold_locales (auto intro!: nth_equalityI simp: xor.assoc xor.commute xor.left_commute)


section \<open>Rebuilding lost packets\<close>

text \<open>
  What a receiver can compute from a group: the payloads it received, and, from a received FEC
  packet \<open>i\<close> all of whose protected media packets but one it knows, the XOR of the FEC payload
  with the known ones. \<open>media\<close> and \<open>fec\<close> give the received payloads by position; any order of
  such steps is allowed.
\<close>

inductive rebuilds ::
  "(nat \<Rightarrow> nat \<Rightarrow> bool) \<Rightarrow> nat \<Rightarrow> (nat \<rightharpoonup> u8 list) \<Rightarrow> (nat \<rightharpoonup> u8 list) \<Rightarrow> nat \<Rightarrow> u8 list \<Rightarrow> bool"
  for prot :: "nat \<Rightarrow> nat \<Rightarrow> bool" and k :: nat and media fec :: "nat \<rightharpoonup> u8 list"
where
  received: "j < k \<Longrightarrow> media j = Some d \<Longrightarrow> rebuilds prot k media fec j d"
| solved: "j < k \<Longrightarrow> fec i = Some p \<Longrightarrow> prot i j \<Longrightarrow> length xs = k \<Longrightarrow>
     (\<And>l. l < k \<Longrightarrow> l \<noteq> j \<Longrightarrow> prot i l \<Longrightarrow> rebuilds prot k media fec l (xs ! l)) \<Longrightarrow>
     rebuilds prot k media fec j (xor_bytes p (parity (\<lambda>l. l \<noteq> j \<and> prot i l) xs))"

text \<open>The received packets are packets of the group: nothing was altered on the way.\<close>

definition genuine :: "(nat \<Rightarrow> nat \<Rightarrow> bool) \<Rightarrow> u8 list list \<Rightarrow> (nat \<rightharpoonup> u8 list) \<Rightarrow> (nat \<rightharpoonup> u8 list) \<Rightarrow> bool" where
  "genuine prot ds media fec \<longleftrightarrow>
     (\<forall>j < length ds. media j \<noteq> None \<longrightarrow> media j = Some (ds ! j)) \<and>
     (\<forall>i. fec i \<noteq> None \<longrightarrow> fec i = Some (parity (prot i) ds))"

lemma rebuilds_genuine:
  assumes "rebuilds prot k media fec j d" and "genuine prot ds media fec" and k: "length ds = k"
    and v: "\<And>d. d \<in> set ds \<Longrightarrow> length d = kMaxDataSize"
  shows "d = ds ! j"
  using assms(1)
proof (induction rule: rebuilds.induct)
  case (received j d)
  then show ?case using assms(2) k by (force simp: genuine_def)
next
  case (solved j i p xs)
  have p: "p = parity (prot i) ds" using solved.hyps assms(2) by (force simp: genuine_def)
  have "parity (\<lambda>l. l \<noteq> j \<and> prot i l) xs = parity (\<lambda>l. l \<noteq> j \<and> prot i l) ds"
    unfolding parity_combine using solved k by (intro payload.combine_cong) auto
  then show ?case
    unfolding p parity_combine using payload.combine_cancel [of j ds "prot i"] solved.hyps k v by simp
qed

section \<open>Peeling\<close>

text \<open>
  An executable account of which losses such steps repair. \<open>miss ! j\<close> says that media packet
  \<open>j\<close> is still missing; \<open>peel_row\<close> uses a row whose selection meets exactly one missing packet,
  \<open>peel_pass\<close> tries the rows in order, and \<open>peel\<close> repeats.
\<close>

fun exactly_one :: "bool list \<Rightarrow> bool" where
  "exactly_one [] = False"
| "exactly_one (b # bs) = (if b then \<not> list_ex id bs else exactly_one bs)"

definition peel_row :: "bool list \<Rightarrow> bool list \<Rightarrow> bool list" where
  "peel_row row miss =
     (let hit = map2 (\<and>) row miss in if exactly_one hit then map2 (\<lambda>m h. m \<and> \<not> h) miss hit else miss)"

definition peel_pass :: "bool list list \<Rightarrow> bool list \<Rightarrow> bool list" where
  "peel_pass rows miss = fold peel_row rows miss"

fun peel :: "nat \<Rightarrow> bool list list \<Rightarrow> bool list \<Rightarrow> bool list" where
  "peel 0 rows miss = miss"
| "peel (Suc n) rows miss = (if list_ex id miss then peel n rows (peel_pass rows miss) else miss)"

lemma exactly_one_nth:
  "exactly_one bs \<Longrightarrow> j < length bs \<Longrightarrow> bs ! j \<Longrightarrow> l < length bs \<Longrightarrow> bs ! l \<Longrightarrow> j = l"
proof (induction bs arbitrary: j l)
  case (Cons b bs)
  show ?case
  proof (cases b)
    case True
    then have none: "\<forall>b \<in> set bs. \<not> b" using Cons.prems(1) by (simp add: list_ex_iff)
    have "\<not> bs ! x" if "x < length bs" for x
      by (rule bspec [OF none nth_mem [OF that]])
    then show ?thesis using Cons.prems by (cases j; cases l) simp_all
  next
    case False
    then obtain j' l' where "j = Suc j'" "l = Suc l'"
      using Cons.prems by (cases j; cases l) simp_all
    then show ?thesis using Cons.IH [of j' l'] Cons.prems False by simp
  qed
qed simp

text \<open>The rows at hand are those of received FEC packets.\<close>

definition rows_known :: "(nat \<Rightarrow> nat \<Rightarrow> bool) \<Rightarrow> nat \<Rightarrow> (nat \<rightharpoonup> u8 list) \<Rightarrow> bool list list \<Rightarrow> bool" where
  "rows_known prot k fec rows \<longleftrightarrow>
     (\<forall>row \<in> set rows. length row = k \<and> (\<exists>i p. fec i = Some p \<and> (\<forall>j < k. row ! j = prot i j)))"

definition known_outside :: "(nat \<Rightarrow> nat \<Rightarrow> bool) \<Rightarrow> nat \<Rightarrow> (nat \<rightharpoonup> u8 list) \<Rightarrow> (nat \<rightharpoonup> u8 list) \<Rightarrow> bool list \<Rightarrow> bool" where
  "known_outside prot k media fec miss \<longleftrightarrow>
     length miss = k \<and> (\<forall>j < k. \<not> miss ! j \<longrightarrow> (\<exists>d. rebuilds prot k media fec j d))"

lemma peel_row_known:
  assumes "known_outside prot k media fec miss" and "length row = k"
    and "fec i = Some p" and row: "\<forall>j < k. row ! j = prot i j"
  shows "known_outside prot k media fec (peel_row row miss)"
proof (cases "exactly_one (map2 (\<and>) row miss)")
  case False
  then show ?thesis using assms(1) by (simp add: peel_row_def)
next
  case True
  let ?hit = "map2 (\<and>) row miss"
  have len: "length miss = k" "length ?hit = k" using assms(1,2) by (simp_all add: known_outside_def)
  have "\<exists>d. rebuilds prot k media fec j d" if j: "j < k" "\<not> (miss ! j \<and> \<not> ?hit ! j)" for j
  proof (cases "miss ! j")
    case False
    then show ?thesis using assms(1) j by (simp add: known_outside_def)
  next
    case mj: True
    then have hj: "?hit ! j" using j by simp
    have "\<exists>d. rebuilds prot k media fec l d" if l: "l < k" "l \<noteq> j" "prot i l" for l
    proof -
      have "\<not> ?hit ! l" using exactly_one_nth [OF True, of j l] hj l j(1) len(2) by metis
      then have "\<not> miss ! l" using l len assms(2) row by simp
      then show ?thesis using assms(1) l by (simp add: known_outside_def)
    qed
    then obtain f where f: "\<And>l. l < k \<Longrightarrow> l \<noteq> j \<Longrightarrow> prot i l \<Longrightarrow> rebuilds prot k media fec l (f l)"
      by metis
    have "prot i j" using hj j len assms(2) row by simp
    then have "rebuilds prot k media fec j (xor_bytes p (parity (\<lambda>l. l \<noteq> j \<and> prot i l) (map f [0..<k])))"
      using f j assms(3) by (intro rebuilds.solved) auto
    then show ?thesis by blast
  qed
  then show ?thesis using True len by (simp add: peel_row_def known_outside_def)
qed

lemma peel_pass_known:
  "rows_known prot k fec rows \<Longrightarrow> known_outside prot k media fec miss \<Longrightarrow>
   known_outside prot k media fec (peel_pass rows miss)"
  unfolding peel_pass_def
proof (induction rows arbitrary: miss)
  case (Cons row rows)
  then show ?case by (auto simp: rows_known_def intro: peel_row_known)
qed simp

lemma peel_known:
  "rows_known prot k fec rows \<Longrightarrow> known_outside prot k media fec miss \<Longrightarrow>
   known_outside prot k media fec (peel n rows miss)"
  by (induction n arbitrary: miss) (auto intro: peel_pass_known)
end
