(* ===== verification/Mask_Coverage.thy ===== *)
theory Mask_Coverage
  imports Fec_Recovery
begin

text \<open>
  What the mask tables and the interleaved masks achieve. The tables are finite, so their
  properties are computed: \<open>check_table\<close> runs a test over all masks of a table, and the tests
  state that every media packet is protected, that no row is empty or points past the group, and
  (bursty table) that every burst of at most \<open>m\<close> losses can be repaired. The interleaved masks,
  used beyond 12 media packets, are covered by a proof for all sizes.
\<close>

section \<open>Checking all masks of a table\<close>

definition mask_rows_bool :: "nat \<Rightarrow> nat \<Rightarrow> u8 list \<Rightarrow> bool list list" where
  "mask_rows_bool k m bytes = map (\<lambda>i. map (protects bytes 2 i) [0..<k]) [0..<m]"

text \<open>A test for every mask of one \<open>k\<close> (the first of them for \<open>m\<close> FEC packets) and of a table.\<close>

fun check_masks :: "(nat \<Rightarrow> nat \<Rightarrow> u8 list \<Rightarrow> bool) \<Rightarrow> nat \<Rightarrow> nat \<Rightarrow> u8 list list \<Rightarrow> bool" where
  "check_masks P k m [] = True"
| "check_masks P k m (bytes # rest) = (P k m bytes \<and> check_masks P k (Suc m) rest)"

fun check_table :: "(nat \<Rightarrow> nat \<Rightarrow> u8 list \<Rightarrow> bool) \<Rightarrow> nat \<Rightarrow> u8 list list list \<Rightarrow> bool" where
  "check_table P k [] = True"
| "check_table P k (ms # rest) = (check_masks P k 1 ms \<and> check_table P (Suc k) rest)"

lemma check_masks_nth: "check_masks P k m ms \<Longrightarrow> i < length ms \<Longrightarrow> P k (m + i) (ms ! i)"
proof (induction ms arbitrary: m i)
  case (Cons b ms)
  then show ?case using Cons.IH [of "Suc m" "i - 1"] by (cases i) auto
qed simp

lemma check_table_nth: "check_table P k rows \<Longrightarrow> i < length rows \<Longrightarrow> check_masks P (k + i) 1 (rows ! i)"
proof (induction rows arbitrary: k i)
  case (Cons ms rows)
  then show ?case using Cons.IH [of "Suc k" "i - 1"] by (cases i) auto
qed simp

lemma check_table_spec:
  assumes "check_table P 1 (rows_of ty)" "0 < m" "m \<le> k" "k \<le> 12"
  shows "P k m (mask_spec ty k m)"
proof -
  have "check_masks P (1 + (k - 1)) 1 (rows_of ty ! (k - 1))"
    using assms check_table_nth [of P 1 "rows_of ty" "k - 1"] by (simp add: rows_of_facts)
  then have "P (1 + (k - 1)) (1 + (m - 1)) (rows_of ty ! (k - 1) ! (m - 1))"
    using assms check_masks_nth [of P "1 + (k - 1)" 1 "rows_of ty ! (k - 1)" "m - 1"]
    by (simp add: rows_of_facts)
  then show ?thesis using assms by (simp add: mask_spec_def)
qed

section \<open>Every media packet is protected\<close>

definition or_rows :: "bool list list \<Rightarrow> bool list" where
  "or_rows rows = foldr (map2 (\<or>)) rows (replicate 16 False)"

definition cover_check :: "nat \<Rightarrow> nat \<Rightarrow> u8 list \<Rightarrow> bool" where
  "cover_check k m bytes \<longleftrightarrow>
     list_all id (take k (or_rows (mask_rows_bool 16 m bytes))) \<and>
     \<not> list_ex id (drop k (or_rows (mask_rows_bool 16 m bytes))) \<and>
     list_all (list_ex id) (mask_rows_bool 16 m bytes)"

lemma tables_cover: "check_table cover_check 1 (rows_of ty)"
proof (cases ty)
  case kFecMaskRandom
  have "check_table cover_check 1 mask_rows_random" by code_simp
  then show ?thesis by (simp add: kFecMaskRandom rows_of_def)
next
  case kFecMaskBursty
  have "check_table cover_check 1 mask_rows_bursty" by code_simp
  then show ?thesis by (simp add: kFecMaskBursty rows_of_def)
qed

lemma or_rows_facts:
  assumes "\<And>row. row \<in> set rows \<Longrightarrow> length row = 16"
  shows "length (or_rows rows) = 16" "j < 16 \<Longrightarrow> or_rows rows ! j \<longleftrightarrow> (\<exists>row \<in> set rows. row ! j)"
proof -
  have "length (foldr (map2 (\<or>)) rows (replicate 16 False)) = 16 \<and>
      (j < 16 \<longrightarrow> (foldr (map2 (\<or>)) rows (replicate 16 False) ! j \<longleftrightarrow> (\<exists>row \<in> set rows. row ! j)))"
    using assms by (induction rows) auto
  then show "length (or_rows rows) = 16" "j < 16 \<Longrightarrow> or_rows rows ! j \<longleftrightarrow> (\<exists>row \<in> set rows. row ! j)"
    by (simp_all add: or_rows_def)
qed

lemma cover_check_iff:
  assumes "k \<le> 16" "cover_check k m bytes"
  shows "\<forall>j < k. \<exists>i < m. protects bytes 2 i j" "\<forall>i < m. \<forall>j. k \<le> j \<and> j < 16 \<longrightarrow> \<not> protects bytes 2 i j"
    "\<forall>i < m. \<exists>j < 16. protects bytes 2 i j"
proof -
  let ?rows = "mask_rows_bool 16 m bytes"
  have or: "or_rows ?rows ! j \<longleftrightarrow> (\<exists>i < m. protects bytes 2 i j)" if "j < 16" for j
    using that by (subst or_rows_facts) (auto simp: mask_rows_bool_def)
  have len: "length (or_rows ?rows) = 16"
    by (rule or_rows_facts) (auto simp: mask_rows_bool_def)
  show "\<forall>j < k. \<exists>i < m. protects bytes 2 i j"
    using assms len or by (auto simp: cover_check_def list_all_length)
  show "\<forall>i < m. \<forall>j. k \<le> j \<and> j < 16 \<longrightarrow> \<not> protects bytes 2 i j"
  proof (intro allI impI)
    fix i j assume i: "i < m" and j: "k \<le> j \<and> j < 16"
    then obtain n where n: "j = k + n" using le_Suc_ex by blast
    have "\<not> or_rows ?rows ! (k + n)"
      using assms(2) len j n by (simp add: cover_check_def list_ex_length)
    then show "\<not> protects bytes 2 i j" using or [of j] i j n by simp
  qed
  have "list_ex id (map (protects bytes 2 i) [0..<16])" if "i < m" for i
  proof -
    have "list_all (list_ex id) ?rows" using assms(2) by (simp only: cover_check_def)
    moreover have "map (protects bytes 2 i) [0..<16] \<in> set ?rows"
      using that unfolding mask_rows_bool_def set_map by (intro imageI) simp
    ultimately show ?thesis by (simp only: list_all_iff)
  qed
  moreover have "\<exists>j < 16. f j" if "list_ex id (map f [0..<16])" for f :: "nat \<Rightarrow> bool"
    using that unfolding list_ex_iff set_map set_upt by force
  ultimately show "\<forall>i < m. \<exists>j < 16. protects bytes 2 i j" by blast
qed

lemma bit_interleaved_byte:
  assumes "b < 8"
  shows "bit (interleaved_byte k m row col) (7 - b) \<longleftrightarrow> (col * 8 + b) mod m = row \<and> col * 8 + b < k"
proof -
  have "b = 0 \<or> b = 1 \<or> b = 2 \<or> b = 3 \<or> b = 4 \<or> b = 5 \<or> b = 6 \<or> b = 7" using assms by arith
  then show ?thesis
    by (elim disjE) (simp_all add: interleaved_byte_def interleaved_bit_def bit_simps Let_def)
qed

lemma interleaved_protects:
  assumes "i < m" "j < 8 * mask_width k"
  shows "protects (interleaved_mask k m) (mask_width k) i j \<longleftrightarrow> j mod m = i \<and> j < k"
proof -
  have "interleaved_mask k m ! (i * mask_width k + j div 8) = interleaved_byte k m i (j div 8)"
    unfolding interleaved_mask_def using assms by (subst nth_concat_fixed) auto
  then show ?thesis
    by (simp add: protects_def bit_interleaved_byte div_mult_mod_eq)
qed

lemma mask_spec_covers:
  assumes "0 < m" "m \<le> k" "k \<le> 48"
  shows "(\<forall>j < k. \<exists>i < m. protects (mask_spec ty k m) (mask_width k) i j) \<and>
    (\<forall>i < m. \<exists>j < k. protects (mask_spec ty k m) (mask_width k) i j) \<and>
    (\<forall>i < m. \<forall>j. k \<le> j \<and> j < 8 * mask_width k \<longrightarrow> \<not> protects (mask_spec ty k m) (mask_width k) i j)"
proof (cases "k \<le> 12")
  case True
  have "cover_check k m (mask_spec ty k m)"
    using check_table_spec [OF tables_cover] True assms by blast
  note c = cover_check_iff [OF _ this]
  have w: "mask_width k = 2" using True by (simp add: mask_width_def)
  have "\<exists>j < k. protects (mask_spec ty k m) 2 i j" if "i < m" for i
  proof -
    from c(3) True that obtain j where "j < 16" "protects (mask_spec ty k m) 2 i j" by auto
    then show ?thesis using c(2) True that by (intro exI [of _ j]) (auto simp: not_less [symmetric])
  qed
  then show ?thesis using c(1,2) True by (simp add: w)
next
  case False
  let ?p = "protects (mask_spec ty k m) (mask_width k)"
  have w: "k \<le> 8 * mask_width k" using assms by (simp add: mask_width_def)
  have p: "?p i j \<longleftrightarrow> j mod m = i \<and> j < k" if "i < m" "j < 8 * mask_width k" for i j
    using that interleaved_protects [of i m j k] False by (simp add: mask_spec_def)
  have "\<exists>i < m. ?p i j" if "j < k" for j
    using p [of "j mod m" j] that w assms by (intro exI [of _ "j mod m"]) simp
  moreover have "\<exists>j < k. ?p i j" if "i < m" for i
    using p [of i i] that w assms by (intro exI [of _ i]) simp
  ultimately show ?thesis using p by auto
qed

text \<open>
  Claim C18. No media packet is left out: for every mask the generator can build (both table kinds,
  \<open>1 \<le> m \<le> k \<le> 48\<close>), every media packet is protected by some FEC packet, every FEC packet
  protects some media packet, and no mask bit selects a position beyond the group.
\<close>

theorem mask_covers_group:
  assumes "0 < m" "m \<le> k" "k \<le> 48"
  shows "(\<forall>j < k. \<exists>i < m. protects (mask_spec ty k m) (mask_width k) i j) \<and>
    (\<forall>i < m. \<exists>j < k. protects (mask_spec ty k m) (mask_width k) i j) \<and>
    (\<forall>i < m. \<forall>j. k \<le> j \<and> j < 8 * mask_width k \<longrightarrow> \<not> protects (mask_spec ty k m) (mask_width k) i j)"
  using assms by (rule mask_spec_covers)

theorem mask_covers_group_witness:
  "\<exists>i < 3. protects (mask_spec kFecMaskRandom 20 3) (mask_width 20) i 19"
  using mask_covers_group [of 3 20 kFecMaskRandom] by auto

section \<open>Bursts and the bursty table\<close>

definition burst_miss :: "nat \<Rightarrow> nat \<Rightarrow> nat \<Rightarrow> bool list" where
  "burst_miss k s l = take k (replicate s False @ replicate l True @ replicate k False)"

definition burst_rows :: "nat \<Rightarrow> bool list list \<Rightarrow> nat \<Rightarrow> nat \<Rightarrow> bool list list" where
  "burst_rows k rows s l = take (s - k) rows @ drop (s + l - k) rows"

definition burst_repaired :: "nat \<Rightarrow> bool list list \<Rightarrow> nat \<Rightarrow> nat \<Rightarrow> bool" where
  "burst_repaired k rows s l = (\<not> list_ex id (peel l (burst_rows k rows s l) (burst_miss k s l)))"

text \<open>Every burst of \<open>m\<close> packets that starts at \<open>s\<close> or before.\<close>

fun bursts_repaired :: "nat \<Rightarrow> nat \<Rightarrow> bool list list \<Rightarrow> nat \<Rightarrow> bool" where
  "bursts_repaired k m rows 0 = burst_repaired k rows 0 m"
| "bursts_repaired k m rows (Suc s) = (burst_repaired k rows (Suc s) m \<and> bursts_repaired k m rows s)"

definition burst_check :: "nat \<Rightarrow> nat \<Rightarrow> u8 list \<Rightarrow> bool" where
  "burst_check k m bytes = bursts_repaired k m (mask_rows_bool k m bytes) k"

lemma bursty_table_check: "check_table burst_check 1 mask_rows_bursty"
  by code_simp

lemma bursts_repaired_le: "bursts_repaired k m rows n \<Longrightarrow> s \<le> n \<Longrightarrow> burst_repaired k rows s m"
  by (induction n) (auto simp: le_Suc_eq)

lemma bursty_burst_repaired:
  assumes "0 < m" "m \<le> k" "k \<le> 12" "s \<le> k"
  shows "burst_repaired k (mask_rows_bool k m (mask_spec kFecMaskBursty k m)) s m"
proof -
  have "burst_check k m (mask_spec kFecMaskBursty k m)"
    using check_table_spec [of burst_check kFecMaskBursty m k] bursty_table_check assms
    by (simp add: rows_of_def)
  then show ?thesis
    using bursts_repaired_le [of k m _ k s] assms by (simp add: burst_check_def)
qed

lemma nth_burst_miss: "j < k \<Longrightarrow> burst_miss k s l ! j = (s \<le> j \<and> j < s + l)"
  by (auto simp: burst_miss_def nth_append)

lemma burst_rows_known:
  assumes "\<And>i. i < m \<Longrightarrow> \<not> (s \<le> k + i \<and> k + i < s + l) \<Longrightarrow> fec i \<noteq> None" "s \<le> k"
  shows "rows_known (protects bytes 2) k fec (burst_rows k (mask_rows_bool k m bytes) s l)"
proof -
  have "\<exists>i < m. \<not> (s \<le> k + i \<and> k + i < s + l) \<and> row = map (protects bytes 2 i) [0..<k]"
    if "row \<in> set (burst_rows k (mask_rows_bool k m bytes) s l)" for row
  proof -
    from that assms(2) have "row \<in> set (drop (s + l - k) (mask_rows_bool k m bytes))"
      by (simp add: burst_rows_def)
    then obtain i where i: "i < m - (s + l - k)" "row = mask_rows_bool k m bytes ! (s + l - k + i)"
      by (auto simp: in_set_conv_nth mask_rows_bool_def)
    then show ?thesis
      by (intro exI [of _ "s + l - k + i"]) (auto simp: mask_rows_bool_def)
  qed
  then show ?thesis
    using assms(1) by (fastforce simp: rows_known_def)
qed

text \<open>
  Claim C17. The bursty table keeps the promise of its header file: for \<open>1 \<le> m \<le> k \<le> 12\<close>, after
  any loss of at most \<open>m\<close> consecutive packets among the \<open>k\<close> media packets and the \<open>m\<close> FEC
  packets that follow them, every media payload of the group can be rebuilt by XOR steps from what
  arrived, and the rebuilt payload is the sent one.
\<close>

theorem bursty_mask_repairs_bursts:
  assumes "0 < m" "m \<le> k" "k \<le> 12" "length ds = k" "\<forall>d \<in> set ds. length d = kMaxDataSize"
    and "l \<le> m" "s + l \<le> k + m"
    and gen: "genuine (protects (mask_spec kFecMaskBursty k m) 2) ds media fec"
    and media: "\<forall>j < k. \<not> (s \<le> j \<and> j < s + l) \<longrightarrow> media j \<noteq> None"
    and fec: "\<forall>i < m. \<not> (s \<le> k + i \<and> k + i < s + l) \<longrightarrow> fec i \<noteq> None"
    and "j < k"
  shows "rebuilds (protects (mask_spec kFecMaskBursty k m) 2) k media fec j (ds ! j)"
proof -
  let ?bytes = "mask_spec kFecMaskBursty k m"
  let ?prot = "protects ?bytes 2"
  let ?s = "min s k"
  let ?rows = "burst_rows k (mask_rows_bool k m ?bytes) ?s m" and ?miss = "burst_miss k ?s m"
  have rows: "rows_known ?prot k fec ?rows"
    using fec assms(6) by (intro burst_rows_known) auto
  have "\<exists>d. rebuilds ?prot k media fec j d" if j: "j < k" "\<not> ?miss ! j" for j
  proof -
    have "\<not> (s \<le> j \<and> j < s + l)" using j nth_burst_miss [of j k ?s m] assms(6) by auto
    with media j obtain d where "media j = Some d" by blast
    then show ?thesis using j rebuilds.received by blast
  qed
  then have "known_outside ?prot k media fec ?miss"
    by (simp add: known_outside_def burst_miss_def)
  then have "known_outside ?prot k media fec (peel m ?rows ?miss)"
    by (rule peel_known [OF rows])
  moreover have "\<not> list_ex id (peel m ?rows ?miss)"
    using bursty_burst_repaired [of m k ?s] assms by (simp add: burst_repaired_def)
  ultimately obtain d where "rebuilds ?prot k media fec j d"
    using assms(11) by (auto simp: known_outside_def list_ex_length)
  moreover from this have "d = ds ! j"
    using rebuilds_genuine [of ?prot k media fec j d ds] gen assms(4,5) by blast
  ultimately show ?thesis by simp
qed

theorem bursty_mask_repairs_bursts_witness:
  "\<exists>ds. ds = [replicate kMaxDataSize 7, replicate kMaxDataSize 9] \<and>
    rebuilds (protects (mask_spec kFecMaskBursty 2 1) 2) 2 (\<lambda>j. if j = 0 then Some (ds ! 0) else None)
      (\<lambda>i. Some (parity (protects (mask_spec kFecMaskBursty 2 1) 2 i) ds)) 1 (replicate kMaxDataSize 9)"
proof -
  let ?ds = "[replicate kMaxDataSize 7, replicate kMaxDataSize 9] :: u8 list list"
  let ?p = "protects (mask_spec kFecMaskBursty 2 1) 2"
  have "rebuilds ?p 2 (\<lambda>j. if j = 0 then Some (?ds ! 0) else None) (\<lambda>i. Some (parity (?p i) ?ds)) 1 (?ds ! 1)"
    by (rule bursty_mask_repairs_bursts [where s = 1 and l = 1]) (auto simp: genuine_def)
  then show ?thesis by simp
qed

end
