(* ===== verification/Group_Repair.thy ===== *)
theory Group_Repair
  imports Mask_Coverage
begin

text \<open>
  From the packets that \<open>PacketByFEC\<close> queued to the chunks of the file: the position of each
  packet of a group in the queue, and the repair of a group from what arrived of it. The receiver's
  view uses nothing but the packets themselves: the rows of the mask are read from the
  \<open>packet_mask\<close> field of the FEC packets.
\<close>

section \<open>Packets of a group in the stream\<close>

lemma length_nth_group: "g < length ps div k \<Longrightarrow> length (nth_group k ps g) = k"
proof -
  assume "g < length ps div k"
  then have "Suc g * k \<le> length ps div k * k" by (intro mult_le_mono1) simp
  also have "\<dots> \<le> length ps" by (rule div_times_less_eq_dividend)
  finally show ?thesis by (simp add: nth_group_def)
qed

lemma nth_nth_group:
  assumes "g < length ps div k" "j < k"
  shows "nth_group k ps g ! j = ps ! (g * k + j)" "g * k + j < length ps"
  using assms length_nth_group [OF assms(1)] by (simp_all add: nth_group_def)

lemma stream_spec_nth:
  assumes g: "g < length ps div k" and i: "i < k + r"
  shows "stream_spec k r ps ! (g * (k + r) + i) =
    (if i < k then data_packet k r (int g) i (ps ! (g * k + i))
     else fec_packet r (int g) (nth_group k ps g) (i - k))"
proof -
  let ?grp = "\<lambda>g. group_data k r (int g) (nth_group k ps g) @ group_fec r (int g) (nth_group k ps g)"
  let ?full = "length ps div k"
  have len: "length x = k + r" if "x \<in> set (map ?grp [0..<?full])" for x
    using that by (auto simp: length_nth_group group_fec_def)
  have "Suc g * (k + r) \<le> ?full * (k + r)" using g by (intro mult_le_mono1) simp
  then have "g * (k + r) + i < length (concat (map ?grp [0..<?full]))"
    using i length_concat_fixed [of "map ?grp [0..<?full]", OF len] by simp
  then have "stream_spec k r ps ! (g * (k + r) + i) = concat (map ?grp [0..<?full]) ! (g * (k + r) + i)"
    by (simp add: stream_spec_def Let_def nth_append)
  also have "\<dots> = map ?grp [0..<?full] ! g ! i"
    using g i by (intro nth_concat_fixed [OF len]) auto
  also have "\<dots> = ?grp g ! i" using g by simp
  finally show ?thesis
    using g i length_nth_group [OF g]
    by (simp add: nth_append group_fec_def) (simp add: group_data_def nth_nth_group)
qed

section \<open>The receiver's view of a group\<close>

definition header_protects :: "packet \<Rightarrow> nat \<Rightarrow> bool" where
  "header_protects p j = bit (le16 (pkt_packet_mask p) ! (j div 8)) (7 - j mod 8)"

definition arrived :: "packet list \<Rightarrow> (nat \<Rightarrow> bool) \<Rightarrow> nat \<Rightarrow> u8 list option" where
  "arrived buf got i = (if got i then Some (pkt_data (buf ! i)) else None)"

lemma header_protects_fec:
  assumes "j < length ds" "length ds \<le> 16" "i < r" "r \<le> length ds"
  shows "header_protects (fec_packet r g ds i) j = protects (mask_spec fec_mask_type (length ds) r) 2 i j"
proof -
  have "j div 8 = 0 \<or> j div 8 = 1" using assms by auto
  then show ?thesis
    by (auto simp: header_protects_def fec_packet_def Let_def of_le16_le16 protects_def mult.commute)
qed

lemma single_loss_rebuilds:
  assumes "j < k" and fec: "media j \<noteq> None \<or> (\<exists>i. prot i j \<and> fec i \<noteq> None)"
    and media: "\<And>l. l < k \<Longrightarrow> l \<noteq> j \<Longrightarrow> media j = None \<Longrightarrow> media l \<noteq> None"
  shows "\<exists>d. rebuilds prot k media fec j d"
proof (cases "media j")
  case (Some d)
  then show ?thesis using assms(1) rebuilds.received by blast
next
  case None
  then obtain i p where i: "prot i j" "fec i = Some p" using fec by auto
  have "rebuilds prot k media fec l (map (\<lambda>l. the (media l)) [0..<k] ! l)" if "l < k" "l \<noteq> j" for l
    using that media None by (auto intro: rebuilds.received)
  then show ?thesis using rebuilds.solved [of j k fec i p prot "map (\<lambda>l. the (media l)) [0..<k]" media] i assms(1)
    by auto
qed

lemma rebuilds_cong_prot:
  assumes "rebuilds prot k media fec j d"
    and "\<And>i l. l < k \<Longrightarrow> fec i \<noteq> None \<Longrightarrow> prot i l = prot' i l"
  shows "rebuilds prot' k media fec j d"
  using assms(1)
proof (induction rule: rebuilds.induct)
  case (received j d)
  then show ?case by (rule rebuilds.received)
next
  case (solved j i p xs)
  have "parity (\<lambda>l. l \<noteq> j \<and> prot i l) xs = parity (\<lambda>l. l \<noteq> j \<and> prot' i l) xs"
    unfolding parity_combine using assms(2) [of _ i] solved.hyps by (intro payload.combine_cong) auto
  moreover have "rebuilds prot' k media fec j (xor_bytes p (parity (\<lambda>l. l \<noteq> j \<and> prot' i l) xs))"
    using solved assms(2) [of _ i] by (intro rebuilds.solved) auto
  ultimately show ?case by simp
qed

text \<open>The view of group \<open>g\<close> in the queue, related to the payloads the encoder was given.\<close>

lemma arrived_genuine:
  fixes ps :: "u8 list list"
  assumes g: "g < length ps div k" and buf: "buf = stream_spec k r ps" and k: "r \<le> k" "k \<le> 16"
  defines "prot \<equiv> protects (mask_spec fec_mask_type k r) 2"
  shows "genuine prot (nth_group k ps g) (\<lambda>j. arrived buf got (g * (k + r) + j))
      (\<lambda>i. if i < r then arrived buf got (g * (k + r) + k + i) else None)"
    and "i < r \<Longrightarrow> j < k \<Longrightarrow> header_protects (buf ! (g * (k + r) + k + i)) j = prot i j"
proof -
  note len = length_nth_group [OF g]
  have data: "buf ! (g * (k + r) + j) = data_packet k r (int g) j (ps ! (g * k + j))" if "j < k" for j
    using stream_spec_nth [OF g, of j r] that buf by simp
  have fec: "buf ! (g * (k + r) + k + i) = fec_packet r (int g) (nth_group k ps g) i" if "i < r" for i
    using stream_spec_nth [OF g, of "k + i" r] that buf by (simp add: add.assoc)
  show "genuine prot (nth_group k ps g) (\<lambda>j. arrived buf got (g * (k + r) + j))
      (\<lambda>i. if i < r then arrived buf got (g * (k + r) + k + i) else None)"
    unfolding genuine_def len
    by (auto simp: arrived_def data fec data_packet_def fec_packet_def Let_def len prot_def nth_nth_group(1) [OF g])
  show "header_protects (buf ! (g * (k + r) + k + i)) j = prot i j" if "i < r" "j < k"
    using header_protects_fec [of j "nth_group k ps g" i r "int g"] that k fec [OF that(1)]
    by (simp add: len prot_def)
qed

section \<open>Repair of a group\<close>

text \<open>
  Claim C4. End to end: whatever chunks are fed to a new encoder with \<open>1 \<le> r \<le> k \<le> 16\<close>, if at
  most one packet of a complete group is lost, then every chunk of the group, zero-padded, can be
  rebuilt by XOR steps from the queued packets that arrived, using the mask rows written in the
  headers of the FEC packets; and a rebuilt payload is always the chunk that was fed.
\<close>

theorem single_loss_repaired:
  assumes "0 < k" "0 < r" "r \<le> k" "k \<le> 16" "n \<le> kMaxDataSize"
    and "cs \<noteq> [] \<Longrightarrow> length (hd cs) = n" and "\<forall>c \<in> set cs. length c \<le> n"
    and feed: "feed dchecks k r cs new_ForwardErrorCorrection = Inr st"
    and g: "g < length cs div k" and j: "j < k"
    and loss: "\<forall>a b. a < k + r \<and> b < k + r \<and> \<not> got (g * (k + r) + a) \<and> \<not> got (g * (k + r) + b) \<longrightarrow> a = b"
  shows "rebuilds (\<lambda>i. header_protects (buffer_packets st ! (g * (k + r) + k + i))) k
     (\<lambda>j. arrived (buffer_packets st) got (g * (k + r) + j))
     (\<lambda>i. if i < r then arrived (buffer_packets st) got (g * (k + r) + k + i) else None)
     j d \<longleftrightarrow> d = pad_payload n (cs ! (g * k + j))"
proof -
  let ?ps = "map (pad_payload n) cs"
  let ?buf = "buffer_packets st"
  let ?media = "\<lambda>j. arrived ?buf got (g * (k + r) + j)"
  let ?fec = "\<lambda>i. if i < r then arrived ?buf got (g * (k + r) + k + i) else None"
  let ?prot = "protects (mask_spec fec_mask_type k r) 2"
  let ?hdr = "\<lambda>i. header_protects (?buf ! (g * (k + r) + k + i))"
  have buf: "?buf = stream_spec k r ?ps"
    using feed_rel [OF assms(1,3-7), of dchecks] feed by auto
  have g': "g < length ?ps div k" using g by simp
  note gen = arrived_genuine(1) [OF g' buf assms(3,4), where got = got] arrived_genuine(2) [OF g' buf assms(3,4)]
  have len: "length (nth_group k ?ps g) = k" by (rule length_nth_group [OF g'])
  have sizes: "length x = kMaxDataSize" if "x \<in> set (nth_group k ?ps g)" for x
    using that padded_pad_payload [OF assms(5)] assms(7)
    by (auto simp: nth_group_def padded_def dest!: in_set_takeD in_set_dropD)
  have same: "?hdr i l = ?prot i l" if "l < k" "?fec i \<noteq> None" for i l
    using that gen(2) [of i l] by (simp split: if_splits)
  have uniq: "d = nth_group k ?ps g ! j" if "rebuilds ?hdr k ?media ?fec j d" for d
    using rebuilds_genuine [OF rebuilds_cong_prot [OF that same] gen(1) len sizes] by blast
  obtain i where i: "i < r" "?prot i j"
    using mask_spec_covers [of r k fec_mask_type] assms(2-4) j by (auto simp: mask_width_def)
  have got: "got (g * (k + r) + b)" if "\<not> got (g * (k + r) + a)" "a \<noteq> b" "a < k + r" "b < k + r" for a b
    using loss that by blast
  have "\<exists>d. rebuilds ?prot k ?media ?fec j d"
  proof (rule single_loss_rebuilds [OF j])
    show "?media j \<noteq> None \<or> (\<exists>i. ?prot i j \<and> ?fec i \<noteq> None)"
      using i got [of j "k + i"] j by (auto simp: arrived_def add.assoc)
    show "?media l \<noteq> None" if "l < k" "l \<noteq> j" "?media j = None" for l
      using that got [of j l] j by (auto simp: arrived_def split: if_splits)
  qed
  then obtain d' where "rebuilds ?prot k ?media ?fec j d'" by (rule exE)
  then have hdr: "rebuilds ?hdr k ?media ?fec j d'"
    by (rule rebuilds_cong_prot) (rule same [symmetric])
  have "nth_group k ?ps g ! j = pad_payload n (cs ! (g * k + j))"
    using nth_nth_group [OF g' j] by simp
  then show ?thesis using uniq [OF hdr] hdr uniq [of d] by (intro iffI) simp_all
qed

theorem single_loss_repaired_witness:
  "\<exists>st. feed True 2 1 [[1, 2, 3], [4, 5], [6]] new_ForwardErrorCorrection = Inr st \<and>
     rebuilds (\<lambda>i. header_protects (buffer_packets st ! (2 + i))) 2
       (\<lambda>j. arrived (buffer_packets st) (\<lambda>x. x \<noteq> 1) j)
       (\<lambda>i. if i < 1 then arrived (buffer_packets st) (\<lambda>x. x \<noteq> 1) (2 + i) else None)
       1 (pad_payload 3 [4, 5])"
proof -
  let ?cs = "[[1, 2, 3], [4, 5], [6]] :: u8 list list"
  obtain st where st: "feed True 2 1 ?cs new_ForwardErrorCorrection = Inr st"
    using feed_rel [of 2 1 3 ?cs True] by (auto simp: kMaxDataSize_def)
  have "rebuilds (\<lambda>i. header_protects (buffer_packets st ! (0 * (2 + 1) + 2 + i))) 2
       (\<lambda>j. arrived (buffer_packets st) (\<lambda>x. x \<noteq> 1) (0 * (2 + 1) + j))
       (\<lambda>i. if i < 1 then arrived (buffer_packets st) (\<lambda>x. x \<noteq> 1) (0 * (2 + 1) + 2 + i) else None)
       1 (pad_payload 3 [4, 5]) \<longleftrightarrow> pad_payload 3 [4, 5] = pad_payload 3 (?cs ! (0 * 2 + 1))"
    by (rule single_loss_repaired [OF _ _ _ _ _ _ _ st, of _ 0]) (auto simp: kMaxDataSize_def)
  then have "rebuilds (\<lambda>i. header_protects (buffer_packets st ! (2 + i))) 2
       (\<lambda>j. arrived (buffer_packets st) (\<lambda>x. x \<noteq> 1) j)
       (\<lambda>i. if i < 1 then arrived (buffer_packets st) (\<lambda>x. x \<noteq> 1) (2 + i) else None)
       1 (pad_payload 3 [4, 5])"
    by (simp only: mult_0 add_0 nth_Cons_Suc nth_Cons_0 One_nat_def)
  with st show ?thesis by blast
qed

end
