(* ===== verification/Packet_Wire.thy ===== *)
theory Packet_Wire
  imports Encoder_Correct
begin

text \<open>
  The byte layout of a packet on the wire: what \<open>Packet::Serialize\<close> writes, its error returns, and
  the reading of the layout by a receiver, \<open>parse_packet\<close>, with the round trip between the two.
\<close>

section \<open>The layout\<close>

text \<open>Six header bytes, then the first \<open>n\<close> bytes of the data field.\<close>

definition wire_bytes :: "nat \<Rightarrow> packet \<Rightarrow> u8 list" where
  "wire_bytes n p = header_bytes p @ take n (pkt_data p)"

lemma length_header_bytes [simp, layout_simps]: "length (header_bytes p) = 6"
  by (simp add: header_bytes_def)

lemma length_wire_bytes [layout_simps]: "length (wire_bytes n p) = 6 + min n (length (pkt_data p))"
  by (simp add: wire_bytes_def)

text \<open>Consecutive stores from the start of an object write a growing prefix.\<close>

lemma mem_store_prefix:
  assumes "length pre = n" "length bs \<le> length rest"
  shows "mem_store what (int n) (mem_of bs) (mem_of pre @ rest) = Inr (mem_of (pre @ bs) @ drop (length bs) rest)"
  using assms by (simp add: mem_store_def)

lemma mem_store_prefix_num:
  assumes "length pre = numeral n" "length bs \<le> length rest"
  shows "mem_store what (numeral n) (mem_of bs) (mem_of pre @ rest) = Inr (mem_of (pre @ bs) @ drop (length bs) rest)"
  using mem_store_prefix [of pre "numeral n" bs rest what] assms by simp

lemma header_stores:
  assumes "6 + length payload \<le> length buffer"
  shows "bind_res (mem_store what 0 (mem_of (le16 (pkt_packet_mask p))) buffer) (\<lambda>b1.
    bind_res (mem_store what 2 (mem_of [pkt_group_number p]) b1) (\<lambda>b2.
    bind_res (mem_store what 3 (mem_of [pkt_sequence_number p]) b2) (\<lambda>b3.
    bind_res (mem_store what 4 (mem_of [pkt_k p]) b3) (\<lambda>b4.
    bind_res (mem_store what 5 (mem_of [pkt_r p]) b4) (\<lambda>b5.
    bind_res (mem_store what 6 (mem_of payload) b5) f))))) =
    f (mem_of (header_bytes p @ payload) @ drop (6 + length payload) buffer)"
proof -
  have first: "mem_store what 0 (mem_of (le16 (pkt_packet_mask p))) buffer =
      Inr (mem_of (le16 (pkt_packet_mask p)) @ drop 2 buffer)"
    using assms by (simp add: mem_store_def numeral_2_eq_2)
  show ?thesis
    unfolding first bind_res.simps using assms
    by (simp add: mem_store_prefix_num header_bytes_def del: mem_of_append) (simp add: eval_nat_numeral)
qed

lemma Serialize_eq:
  assumes "length (pkt_data p) = kMaxDataSize" "buffer_size \<le> length buffer"
  shows "Serialize p buffer buffer_size n =
    (if 6 + n \<le> buffer_size \<and> n \<le> kMaxDataSize
     then Inr (6 + n, mem_of (wire_bytes n p) @ drop (6 + n) buffer)
     else Inr (0, buffer))"
proof (cases "6 + n \<le> buffer_size \<and> n \<le> kMaxDataSize")
  case True
  then have "6 + length (take n (pkt_data p)) \<le> length buffer" using assms by simp
  from header_stores [OF this] show ?thesis
    using True assms by (simp add: Serialize_def Let_def wire_bytes_def min_absorb2)
next
  case False
  then show ?thesis using assms by (auto simp: Serialize_def Let_def)
qed

section \<open>Reading it back\<close>

definition parse_packet :: "u8 list \<Rightarrow> packet option" where
  "parse_packet bytes =
     (case bytes of
        m0 # m1 # g # s # k # r # payload \<Rightarrow>
          if length payload \<le> kMaxDataSize
          then Some \<lparr>pkt_packet_mask = of_le16 m0 m1, pkt_group_number = g, pkt_sequence_number = s,
                 pkt_k = k, pkt_r = r, pkt_data = payload @ replicate (kMaxDataSize - length payload) 0\<rparr>
          else None
      | _ \<Rightarrow> None)"

lemma le16_of_le16: "of_le16 (ucast w) (ucast (drop_bit 8 w)) = w"
proof -
  have "le16 (of_le16 (ucast w) (ucast (drop_bit 8 w))) = le16 w"
    unfolding of_le16_le16 by (simp add: le16_def)
  then show ?thesis by (simp only: le16_inj)
qed

text \<open>What a receiver knows of a packet of which \<open>n\<close> payload bytes were sent.\<close>

definition sent_part :: "nat \<Rightarrow> packet \<Rightarrow> packet" where
  "sent_part n p = p\<lparr>pkt_data := take n (pkt_data p) @ replicate (kMaxDataSize - n) 0\<rparr>"

lemma sent_part_padded: "padded n (pkt_data p) \<Longrightarrow> sent_part n p = p"
proof -
  assume p: "padded n (pkt_data p)"
  then have "take n (pkt_data p) @ replicate (kMaxDataSize - n) 0 = pkt_data p"
    unfolding padded_def by (metis append_take_drop_id)
  then show ?thesis by (simp add: sent_part_def)
qed

lemma parse_wire_bytes:
  assumes "length (pkt_data p) = kMaxDataSize" "n \<le> kMaxDataSize"
  shows "parse_packet (wire_bytes n p) = Some (sent_part n p)"
  using assms by (simp add: parse_packet_def wire_bytes_def header_bytes_def le16_def le16_of_le16 sent_part_def min_absorb2)

text \<open>
  Claim C19. For any requested payload size and any buffer that has the announced size, \<open>Serialize\<close> succeeds exactly when the buffer size covers the six
  header bytes and the payload and the payload fits the data field of 2000 bytes; it then returns the number of bytes and has replaced
  exactly the first bytes of the buffer by the wire layout, from which a receiver gets the packet back as far as it was sent, and the
  whole packet when its data are zero beyond the payload, as those of the encoder are. When the buffer is too small, and also when it is large enough but
  the payload is larger than the data field, it returns 0 and leaves the buffer alone. No access leaves the buffer or the data field.
\<close>

theorem Serialize_roundtrip:
  assumes "length (pkt_data p) = kMaxDataSize" "buffer_size \<le> length buffer"
  shows "if 6 + n \<le> buffer_size \<and> n \<le> kMaxDataSize
    then \<exists>out. Serialize p buffer buffer_size n = Inr (6 + n, mem_of out @ drop (6 + n) buffer) \<and>
           length out = 6 + n \<and> parse_packet out = Some (sent_part n p) \<and> (padded n (pkt_data p) \<longrightarrow> parse_packet out = Some p)
    else Serialize p buffer buffer_size n = Inr (0, buffer)"
  using assms Serialize_eq [of p buffer_size buffer n] parse_wire_bytes [OF assms(1), of n] sent_part_padded [of n p]
  by (auto simp: length_wire_bytes)

theorem Serialize_roundtrip_witness:
  "(\<exists>out. Serialize new_Packet (replicate 20 None) 16 10 = Inr (16, mem_of out @ replicate 4 None) \<and>
     length out = 16 \<and> parse_packet out = Some new_Packet) \<and>
   Serialize new_Packet (replicate 2500 None) 2500 2001 = Inr (0, replicate 2500 None)"
  using Serialize_roundtrip [of new_Packet 16 "replicate 20 None" 10] Serialize_roundtrip [of new_Packet 2500 "replicate 2500 None" 2001]
  by (auto simp: new_Packet_def padded_def kMaxDataSize_def)

end
