(* ===== verification/Fec_Sender.thy ===== *)
theory Fec_Sender
  imports Packet_Wire Complex_Main
begin

text \<open>
  \<open>SendByUlpfec\<close>, the sender that \<^verbatim>\<open>FEC_Encode\<close> exports next to \<open>PacketByFEC\<close>: it stamps the
  chunk, sends it at once, and sends the FEC packets of a group when the group is complete. The
  socket and the clock are outside the program: \<open>net_env\<close> says, by the number of the attempt, whether
  \<open>sendto\<close> fails and how many milliseconds it took. Times are exact rationals where the code has
  \<open>double\<close>; they only feed the pauses. Debug output is not modelled.
\<close>

section \<open>Model\<close>

record net_env =
  send_fails :: "nat \<Rightarrow> bool"
  send_millis :: "nat \<Rightarrow> nat"

text \<open>
  \<open>pauses\<close> are the requested sleeps in milliseconds, \<open>None\<close> for the infinite one that a zero bitrate gives; the thread does not
  come back from that one (\<open>hangs\<close>), so a state with \<open>hangs\<close> is the last one, and nothing that follows in the code is executed.
\<close>

record net =
  attempts :: nat
  wire :: "u8 list list"
  pauses :: "rat option list"
  hangs :: bool

definition new_net :: net where
  "new_net = \<lparr>attempts = 0, wire = [], pauses = [], hangs = False\<rparr>"

text \<open>\<open>sendto\<close>: whether it succeeded, and the network afterwards.\<close>

definition net_sendto :: "net_env \<Rightarrow> u8 list \<Rightarrow> net \<Rightarrow> bool \<times> net" where
  "net_sendto env bytes net =
     (if send_fails env (attempts net) then (False, net\<lparr>attempts := attempts net + 1\<rparr>)
      else (True, net\<lparr>attempts := attempts net + 1, wire := wire net @ [bytes]\<rparr>))"

text \<open>
  The six \<open>memcpy\<close> calls into the local \<open>send_buffer[2006]\<close>, and the bytes that \<open>sendto\<close> reads.
\<close>

definition fill_send_buffer :: "packet \<Rightarrow> int \<Rightarrow> u8 list res" where
  "fill_send_buffer p nbytes =
     bind_res (mem_store ''send_buffer'' 0 (mem_of (le16 (pkt_packet_mask p))) (replicate 2006 None)) (\<lambda>b1.
     bind_res (mem_store ''send_buffer'' 2 (mem_of [pkt_group_number p]) b1) (\<lambda>b2.
     bind_res (mem_store ''send_buffer'' 3 (mem_of [pkt_sequence_number p]) b2) (\<lambda>b3.
     bind_res (mem_store ''send_buffer'' 4 (mem_of [pkt_k p]) b3) (\<lambda>b4.
     bind_res (mem_store ''send_buffer'' 5 (mem_of [pkt_r p]) b4) (\<lambda>b5.
     bind_res (mem_read ''data'' 0 (size_t nbytes) (mem_of (pkt_data p))) (\<lambda>payload.
     bind_res (mem_store ''send_buffer'' 6 (mem_of payload) b5) (\<lambda>b6.
       mem_read ''send_buffer'' 0 (size_t (nbytes + 6)) b6)))))))"

text \<open>
  The pause after a datagram: \<open>desiredTime - timeTaken\<close>, both in seconds, handed to
  \<open>sleep_for\<close> as a number of milliseconds when it is positive.
\<close>

definition pace :: "int \<Rightarrow> int \<Rightarrow> nat \<Rightarrow> net \<Rightarrow> net" where
  "pace nbytes bitrate millis net =
     (if bitrate = 0 then
        if nbytes + 6 > 0 then net\<lparr>pauses := pauses net @ [None], hangs := True\<rparr> else net
      else
        let timeTaken = of_nat millis / 1000;
            desiredTime = of_int ((nbytes + 6) * 8) / of_int bitrate;
            sleepTime = desiredTime - timeTaken
        in if sleepTime > 0 then net\<lparr>pauses := pauses net @ [Some sleepTime]\<rparr> else net)"

text \<open>One datagram: the result says whether the caller goes on or returns.\<close>

definition send_packet ::
  "net_env \<Rightarrow> int \<Rightarrow> int \<Rightarrow> packet \<Rightarrow> net \<Rightarrow> (bool \<times> net) res"
where
  "send_packet env nbytes bitrate p net =
     bind_res (fill_send_buffer p nbytes) (\<lambda>bytes.
       let (ok, net1) = net_sendto env bytes net
       in Inr (ok, if ok then pace nbytes bitrate (send_millis env (attempts net)) net1 else net1))"

text \<open>The loop over \<open>fec_packets\<close>; \<open>False\<close> is the early return after a failed \<open>sendto\<close>, or a pause without end.\<close>

fun send_fec_loop ::
  "net_env \<Rightarrow> int \<Rightarrow> packet list \<Rightarrow> fec_state \<Rightarrow> net \<Rightarrow> (bool \<times> fec_state \<times> net) res"
where
  "send_fec_loop env bitrate [] st net = Inr (True, st, net)"
| "send_fec_loop env bitrate (p # ps) st net =
     bind_res (send_packet env (packet_size st) bitrate p net) (\<lambda>(ok, net1).
       if ok then
         let st1 = st\<lparr>total_sent_packets := total_sent_packets st + 1,
                      total_sent_fec_packets := total_sent_fec_packets st + 1\<rparr>
         in if hangs net1 then Inr (False, st1, net1) else send_fec_loop env bitrate ps st1 net1
       else Inr (False, st, net1))"

text \<open>The tail of the function: the last use drops the packets of an incomplete group.\<close>

definition finish_last :: "fec_state \<Rightarrow> fec_state" where
  "finish_last st = (if fec_last_use st then st\<lparr>media_packets := []\<rparr> else st)"

definition SendByUlpfec ::
  "bool \<Rightarrow> net_env \<Rightarrow> mem \<Rightarrow> int \<Rightarrow> int \<Rightarrow> int \<Rightarrow> int \<Rightarrow> fec_state \<Rightarrow> net \<Rightarrow> (fec_state \<times> net) res"
where
  "SendByUlpfec dchecks env buf len k r bitrate st net =
     bind_res (make_packet buf len k r st) (\<lambda>(p, st1).
     bind_res (send_packet env (packet_size st1) bitrate p net) (\<lambda>(ok, net1).
       if \<not> ok then Inr (st1, net1)
       else
         let st2 = st1\<lparr>total_sent_packets := total_sent_packets st1 + 1,
                       total_sent_src_packets := total_sent_src_packets st1 + 1\<rparr> in
         if hangs net1 then Inr (st2, net1)
         else if length (media_packets st2) = size_t k then
           bind_res
             (EncodeFec dchecks (media_packets st2) (word_of_int r) (kNumImportantPackets st2)
                (kUseUnequalProtection st2) fec_mask_type st2)
             (\<lambda>(ret, st3).
               bind_res (send_fec_loop env bitrate (fec_packets st3) st3 net1) (\<lambda>(done, st4, net2).
                 if \<not> done then Inr (st4, net2)
                 else Inr (finish_last
                        (st4\<lparr>media_packets := [], fec_packets := [],
                             group_number := group_number st4 + 1, sequence_number := 0\<rparr>), net2)))
         else Inr (finish_last st2, net1)))"

section \<open>One datagram\<close>

lemma fill_send_buffer_eq:
  assumes "length (pkt_data p) = kMaxDataSize" "n \<le> kMaxDataSize"
  shows "fill_send_buffer p (int n) = Inr (wire_bytes n p)"
proof -
  have n: "size_t (int n) = n" "size_t (int n + 6) = n + 6"
    using assms(2) by (simp_all add: size_t_small kMaxDataSize_def)
  have data: "mem_read ''data'' 0 n (mem_of (pkt_data p)) = Inr (take n (pkt_data p))"
    using assms by (simp add: mem_read_mem_of)
  have len: "6 + length (take n (pkt_data p)) \<le> length (replicate 2006 (None :: u8 option))"
    using assms by (simp add: kMaxDataSize_def)
  have "mem_read ''send_buffer'' 0 (n + 6)
      (mem_of (wire_bytes n p) @ drop (6 + length (take n (pkt_data p))) (replicate 2006 None)) =
      Inr (wire_bytes n p)"
    using assms by (simp add: mem_read_def mem_load_def length_wire_bytes min_absorb2)
  then show ?thesis
    unfolding fill_send_buffer_def n data bind_res.simps header_stores [OF len]
    by (simp only: wire_bytes_def)
qed

lemma pace_simps [simp]: "wire (pace s b t net) = wire net" "attempts (pace s b t net) = attempts net"
  by (simp_all add: pace_def Let_def)

lemma pace_hangs: "bitrate \<noteq> 0 \<Longrightarrow> hangs (pace s bitrate t net) = hangs net"
  by (simp add: pace_def Let_def)

lemma send_packet_eq:
  assumes "padded n (pkt_data p)"
  shows "\<exists>net'. send_packet env (int n) bitrate p net = Inr (\<not> send_fails env (attempts net), net') \<and>
    attempts net' = attempts net + 1 \<and> (bitrate \<noteq> 0 \<longrightarrow> hangs net' = hangs net) \<and>
    wire net' = wire net @ (if send_fails env (attempts net) then [] else [wire_bytes n p])"
  using assms by (auto simp: send_packet_def fill_send_buffer_eq padded_def net_sendto_def pace_hangs)

definition no_failure :: "net_env \<Rightarrow> bool" where
  "no_failure env \<longleftrightarrow> (\<forall>a. \<not> send_fails env a)"

lemma send_fec_loop_eq:
  assumes "no_failure env" "\<And>p. p \<in> set ps \<Longrightarrow> padded n (pkt_data p)" "packet_size st = int n" "bitrate \<noteq> 0" "\<not> hangs net"
  shows "\<exists>net'. send_fec_loop env bitrate ps st net =
      Inr (True, st\<lparr>total_sent_packets := total_sent_packets st + of_nat (length ps),
                    total_sent_fec_packets := total_sent_fec_packets st + of_nat (length ps)\<rparr>, net') \<and>
    wire net' = wire net @ map (wire_bytes n) ps \<and> \<not> hangs net'"
  using assms(2,3,5)
proof (induction ps arbitrary: st net)
  case (Cons p ps)
  have "padded n (pkt_data p)" using Cons.prems by simp
  from send_packet_eq [OF this, of env bitrate net] obtain net1 where
    net1: "send_packet env (int n) bitrate p net = Inr (True, net1)" "wire net1 = wire net @ [wire_bytes n p]" "\<not> hangs net1"
    using assms(1,4) Cons.prems(3) by (auto simp: no_failure_def)
  let ?st = "st\<lparr>total_sent_packets := total_sent_packets st + 1,
               total_sent_fec_packets := total_sent_fec_packets st + 1\<rparr>"
  from Cons.IH [of ?st net1] Cons.prems obtain net' where
    "send_fec_loop env bitrate ps ?st net1 =
      Inr (True, st\<lparr>total_sent_packets := total_sent_packets st + 1 + of_nat (length ps),
                    total_sent_fec_packets := total_sent_fec_packets st + 1 + of_nat (length ps)\<rparr>, net')"
    "wire net' = wire net1 @ map (wire_bytes n) ps" "\<not> hangs net'"
    using net1(3) by auto
  then show ?case using net1 Cons.prems by (auto simp: add.assoc)
qed simp

section \<open>One call\<close>

lemma SendByUlpfec_eq:
  assumes rel: "fec_rel k r n g ds st" and k: "r \<le> k" "k \<le> 16" and n: "n \<le> kMaxDataSize"
    and c: "length c \<le> n" "fec_first_use st \<longrightarrow> length c = n" and cap: "n \<le> length c + length junk"
    and env: "no_failure env" and fresh: "\<not> fec_last_use st" and rate: "bitrate \<noteq> 0" "\<not> hangs net"
  shows "\<exists>st' net'. SendByUlpfec dchecks env (mem_of c @ junk) (int (length c)) (int k) (int r) bitrate st net =
      Inr (st', net') \<and>
    wire net' = wire net @ map (wire_bytes n) (emitted k r g ds (pad_payload n c)) \<and>
    (length c = n \<longrightarrow> (case next_group k g ds (pad_payload n c) of (g', ds') \<Rightarrow> fec_rel k r n g' ds' st')) \<and>
    \<not> fec_first_use st' \<and> fec_last_use st' = (length c < n) \<and> \<not> hangs net' \<and>
    total_sent_src_packets st' = total_sent_src_packets st + 1 \<and>
    total_sent_fec_packets st' = total_sent_fec_packets st + (if Suc (length ds) = k then of_nat r else 0)"
proof -
  let ?d = "pad_payload n c"
  let ?p = "data_packet k r g (length ds) ?d"
  let ?st1 = "st\<lparr>packet_size := int n, fec_first_use := False, fec_last_use := length c < n,
      sequence_number := int (length ds) + 1, media_packets := media_packets st @ [?p]\<rparr>"
  let ?st2 = "?st1\<lparr>total_sent_packets := total_sent_packets st + 1,
      total_sent_src_packets := total_sent_src_packets st + 1\<rparr>"
  have facts: "media_packets st = group_data k r g ds" "length ds < k" "fec_packets st = []"
    "length (packet_masks st) = 288" "sequence_number st = int (length ds)" "group_number st = g"
    "kNumImportantPackets st = 0" "\<not> kUseUnequalProtection st" "\<not> fec_first_use st \<longrightarrow> packet_size st = int n"
    "\<forall>d \<in> set ds. padded n d"
    using rel by (auto simp: fec_rel_def)
  have d: "padded n ?d" using n c by (intro padded_pad_payload)
  then have p: "padded n (pkt_data ?p)" by (simp add: data_packet_def)
  have make: "make_packet (mem_of c @ junk) (int (length c)) (int k) (int r) st = Inr (?p, ?st1)"
    using make_packet_eq [of n c junk st "length ds" k "mem_of c @ junk" r] n c cap facts fresh
    by (auto simp: Let_def)
  obtain net1 where net1: "send_packet env (int n) bitrate ?p net = Inr (True, net1)"
    "wire net1 = wire net @ [wire_bytes n ?p]" "\<not> hangs net1"
    using send_packet_eq [OF p, of env bitrate net] env rate by (auto simp: no_failure_def)
  have sk: "size_t (int k) = k" using k by (intro size_t_of_nat) simp
  show ?thesis
  proof (cases "Suc (length ds) = k")
    case False
    then show ?thesis
      using facts d net1
      by (auto simp: SendByUlpfec_def make sk Let_def emitted_def next_group_def fec_rel_def
          group_data_append finish_last_def)
  next
    case True
    let ?ds = "ds @ [?d]"
    obtain st3 where enc: "EncodeFec dchecks (group_data k r g ?ds) (word_of_int (int r)) 0 False fec_mask_type ?st2 =
        Inr (int r, st3)"
      and st3: "st3 = ?st2\<lparr>fec_packets := group_fec r g ?ds, sequence_number := int (length ?ds) + int r,
             packet_masks := packet_masks st3, packet_mask_size := packet_mask_size st3\<rparr>"
        "length (packet_masks st3) = 288"
      using EncodeFec_eq [of ?st2 n g ?ds r "group_data k r g ?ds" dchecks] facts True k n d by auto
    have proj: "fec_packets st3 = group_fec r g ?ds" "group_number st3 = g" "kNumImportantPackets st3 = 0"
      "\<not> kUseUnequalProtection st3" "packet_size st3 = int n" "\<not> fec_first_use st3"
      "fec_last_use st3 = (length c < n)"
      "total_sent_src_packets st3 = total_sent_src_packets st + 1"
      "total_sent_fec_packets st3 = total_sent_fec_packets st"
      using facts by (subst st3(1); simp)+
    have pads: "padded n (pkt_data q)" if "q \<in> set (group_fec r g ?ds)" for q
      using padded_emitted [of n ?d ds q k r g] that n d facts True by (simp add: emitted_def)
    from send_fec_loop_eq [where ps = "group_fec r g ?ds" and net = net1 and bitrate = bitrate, OF env pads proj(5) rate(1) net1(3)] obtain net2 where
      loop: "send_fec_loop env bitrate (group_fec r g ?ds) st3 net1 =
        Inr (True, st3\<lparr>total_sent_packets := total_sent_packets st3 + of_nat r,
                    total_sent_fec_packets := total_sent_fec_packets st3 + of_nat r\<rparr>, net2)"
      "wire net2 = wire net1 @ map (wire_bytes n) (group_fec r g ?ds)" "\<not> hangs net2"
      by (auto simp: group_fec_def)
    show ?thesis
      using True proj st3(2) k facts enc loop net1
      by (auto simp: SendByUlpfec_def make sk Let_def group_data_append emitted_def next_group_def fec_rel_def
          group_data_def [of _ _ _ "[]"] finish_last_def)
  qed
qed

section \<open>Streams\<close>

text \<open>
  The calls for a list of chunks, each in a buffer of its own that has \<open>room\<close> bytes (the call writes behind a chunk that is shorter than
  the first one); after a pause without end there is no further call.
\<close>

fun send_all ::
  "bool \<Rightarrow> net_env \<Rightarrow> int \<Rightarrow> nat \<Rightarrow> nat \<Rightarrow> nat \<Rightarrow> u8 list list \<Rightarrow> fec_state \<Rightarrow> net \<Rightarrow> (fec_state \<times> net) res"
where
  "send_all dchecks env bitrate room k r [] st net = Inr (st, net)"
| "send_all dchecks env bitrate room k r (c # cs) st net =
     (if hangs net then Inr (st, net)
      else
        bind_res
          (SendByUlpfec dchecks env (mem_of c @ replicate (room - length c) None) (int (length c))
             (int k) (int r) bitrate st net)
          (\<lambda>(st', net'). send_all dchecks env bitrate room k r cs st' net'))"

lemma send_all_hangs: "hangs net \<Longrightarrow> send_all dchecks env bitrate room k r cs st net = Inr (st, net)"
  by (cases cs) simp_all

lemma send_all_append:
  "send_all dchecks env bitrate room k r (xs @ ys) st net =
     bind_res (send_all dchecks env bitrate room k r xs st net) (\<lambda>(st', net'). send_all dchecks env bitrate room k r ys st' net')"
proof (induction xs arbitrary: st net)
  case (Cons x xs)
  then have "(\<lambda>(st, net). send_all dchecks env bitrate room k r (xs @ ys) st net) =
      (\<lambda>(st, net). bind_res (send_all dchecks env bitrate room k r xs st net)
        (\<lambda>(st', net'). send_all dchecks env bitrate room k r ys st' net'))"
    by (intro ext) auto
  then show ?case by (simp add: bind_res_assoc case_prod_beta' send_all_hangs)
qed simp

lemma send_all_full:
  assumes k: "0 < k" "r \<le> k" "k \<le> 16" and n: "n \<le> kMaxDataSize" and env: "no_failure env" and rate: "bitrate \<noteq> 0"
    and full: "\<forall>c \<in> set cs. length c = n"
  shows "\<exists>st net. send_all dchecks env bitrate room k r cs new_ForwardErrorCorrection new_net = Inr (st, net) \<and>
    wire net = map (wire_bytes n) (stream_spec k r (map (pad_payload n) cs)) \<and>
    fec_rel k r n (int (length cs div k)) (drop (length cs div k * k) (map (pad_payload n) cs)) st \<and>
    fec_first_use st = (cs = []) \<and> \<not> fec_last_use st \<and> \<not> hangs net \<and>
    total_sent_src_packets st = of_nat (length cs) \<and>
    total_sent_fec_packets st = of_nat (r * (length cs div k))"
  using full
proof (induction cs rule: rev_induct)
  case Nil
  then show ?case
    using fec_rel_new [OF k(1), of r n]
    by (simp add: stream_spec_def nth_group_def group_data_def new_net_def) (simp add: new_ForwardErrorCorrection_def)
next
  case (snoc c cs)
  let ?ps = "map (pad_payload n) cs" and ?g = "length cs div k"
  let ?ds = "drop (?g * k) ?ps"
  obtain st net where st: "send_all dchecks env bitrate room k r cs new_ForwardErrorCorrection new_net = Inr (st, net)"
    "wire net = map (wire_bytes n) (stream_spec k r ?ps)" "fec_rel k r n (int ?g) ?ds st"
    "fec_first_use st = (cs = [])" "\<not> fec_last_use st" "total_sent_src_packets st = of_nat (length cs)"
    "total_sent_fec_packets st = of_nat (r * ?g)" "\<not> hangs net"
    using snoc by auto
  have c: "length c \<le> n" "fec_first_use st \<longrightarrow> length c = n" "length c = n" using snoc.prems by auto
  have cap: "n \<le> length c + length (replicate (room - length c) (None :: u8 option))" using c(3) by simp
  obtain st' net' where st': "SendByUlpfec dchecks env (mem_of c @ replicate (room - length c) None)
      (int (length c)) (int k) (int r) bitrate st net = Inr (st', net')"
    "wire net' = wire net @ map (wire_bytes n) (emitted k r (int ?g) ?ds (pad_payload n c))"
    "case next_group k (int ?g) ?ds (pad_payload n c) of (g', ds') \<Rightarrow> fec_rel k r n g' ds' st'"
    "\<not> fec_first_use st'" "fec_last_use st' = (length c < n)" "\<not> hangs net'"
    "total_sent_src_packets st' = total_sent_src_packets st + 1"
    "total_sent_fec_packets st' = total_sent_fec_packets st + (if Suc (length ?ds) = k then of_nat r else 0)"
    using SendByUlpfec_eq [OF st(3) k(2,3) n c(1,2) cap env st(5) rate st(8), of dchecks] c(3)
    by (elim exE conjE) (rule that, simp_all)
  have len: "length ?ds = length cs mod k" using length_last_group [of ?ps k] by simp
  have count: "r * (length (cs @ [c]) div k) = r * ?g + (if Suc (length ?ds) = k then r else 0)"
    unfolding len using Suc_div_mod [OF k(1), of "length cs"] by (cases "Suc (length cs mod k) = k") simp_all
  have "send_all dchecks env bitrate room k r (cs @ [c]) new_ForwardErrorCorrection new_net = Inr (st', net')"
    using st(1,8) st'(1) by (simp add: send_all_append)
  moreover have "total_sent_fec_packets st' = of_nat (r * (length (cs @ [c]) div k))"
    unfolding count st'(8) st(7) by simp
  ultimately show ?case
    using st st' c stream_spec_snoc(1) [OF k(1), where r = r and ps = ?ps and p = "pad_payload n c"]
      stream_spec_snoc(2) [OF k(1), where ps = ?ps and p = "pad_payload n c"]
    by auto
qed



section \<open>A failed datagram\<close>

text \<open>More than \<open>k\<close> collected packets, or exactly \<open>k\<close> between two calls: no group is ever complete again.\<close>

definition overfull :: "nat \<Rightarrow> nat \<Rightarrow> fec_state \<Rightarrow> bool" where
  "overfull k n st \<longleftrightarrow> k \<le> length (media_packets st) \<and> packet_size st = int n \<and> \<not> fec_first_use st \<and>
     \<not> fec_last_use st \<and> (\<exists>i. sequence_number st = int i)"

lemma SendByUlpfec_overfull:
  assumes "overfull k n st" "0 < k" "k \<le> 16" "length c = n" "n \<le> kMaxDataSize"
  shows "\<exists>st' net'. SendByUlpfec dchecks env (mem_of c @ replicate (room - length c) None) (int (length c))
      (int k) (int r) bitrate st net = Inr (st', net') \<and> overfull k n st' \<and>
    total_sent_fec_packets st' = total_sent_fec_packets st \<and> group_number st' = group_number st"
proof -
  from assms(1) obtain i where i: "sequence_number st = int i"
    and st: "k \<le> length (media_packets st)" "packet_size st = int n" "\<not> fec_first_use st" "\<not> fec_last_use st"
    by (auto simp: overfull_def)
  let ?p = "data_packet k r (group_number st) i (pad_payload n c)"
  let ?st1 = "st\<lparr>packet_size := int n, fec_first_use := False, fec_last_use := False,
      sequence_number := int i + 1, media_packets := media_packets st @ [?p]\<rparr>"
  let ?buf = "mem_of c @ replicate (room - length c) None"
  have make: "make_packet ?buf (int (length c)) (int k) (int r) st = Inr (?p, ?st1)"
    using make_packet_eq [of n c "replicate (room - length c) None" st i k ?buf r] assms i st
    by (simp add: Let_def)
  have "padded n (pkt_data ?p)" using assms padded_pad_payload [of n c] by (simp add: data_packet_def)
  from send_packet_eq [OF this, of env bitrate net] obtain net1 where
    "send_packet env (int n) bitrate ?p net = Inr (\<not> send_fails env (attempts net), net1)" by blast
  moreover have "size_t (int k) = k" using assms by (intro size_t_of_nat) simp
  moreover have "\<exists>j. int i + 1 = int j" by (rule exI [of _ "Suc i"]) simp
  ultimately show ?thesis
    using st make by (auto simp: SendByUlpfec_def Let_def finish_last_def overfull_def)
qed

lemma send_all_overfull:
  assumes "overfull k n st" "0 < k" "k \<le> 16" "n \<le> kMaxDataSize" "\<forall>c \<in> set cs. length c = n"
  shows "\<exists>st' net'. send_all dchecks env bitrate room k r cs st net = Inr (st', net') \<and> overfull k n st' \<and>
    total_sent_fec_packets st' = total_sent_fec_packets st \<and> group_number st' = group_number st"
  using assms(1,5)
proof (induction cs arbitrary: st net)
  case (Cons c cs)
  obtain st1 net1 where s: "SendByUlpfec dchecks env (mem_of c @ replicate (room - length c) None)
      (int (length c)) (int k) (int r) bitrate st net = Inr (st1, net1)" "overfull k n st1"
    "total_sent_fec_packets st1 = total_sent_fec_packets st" "group_number st1 = group_number st"
    using SendByUlpfec_overfull [OF Cons.prems(1) assms(2,3) _ assms(4), of c dchecks env room r bitrate net]
      Cons.prems(2) by auto
  then show ?case using Cons.IH [OF s(2), of net1] Cons.prems by (cases "hangs net") auto
qed simp

text \<open>
  Claim C21. One failed \<open>sendto\<close> ends the protection of the stream: if the datagram that completes
  a group is refused by the socket, the early return leaves \<open>k\<close> packets in \<open>media_packets\<close>, and
  however many full chunks follow, and whether or not their datagrams succeed, no FEC packet is sent
  and \<open>group_number\<close> never advances again.
\<close>

theorem failed_send_ends_fec:
  assumes "fec_rel k r n g ds st" "Suc (length ds) = k" "k \<le> 16" "n \<le> kMaxDataSize" "\<not> fec_last_use st"
    and "send_fails env (attempts net)" "length c = n" "\<forall>c \<in> set cs. length c = n"
  shows "\<exists>st' net'. send_all dchecks env bitrate room k r (c # cs) st net = Inr (st', net') \<and>
    total_sent_fec_packets st' = total_sent_fec_packets st \<and> group_number st' = group_number st"
proof -
  let ?p = "data_packet k r g (length ds) (pad_payload n c)"
  let ?st1 = "st\<lparr>packet_size := int n, fec_first_use := False, fec_last_use := False,
      sequence_number := int (length ds) + 1, media_packets := media_packets st @ [?p]\<rparr>"
  let ?buf = "mem_of c @ replicate (room - length c) None"
  have st: "media_packets st = group_data k r g ds" "sequence_number st = int (length ds)" "group_number st = g"
    "\<not> fec_first_use st \<longrightarrow> packet_size st = int n"
    using assms(1) by (auto simp: fec_rel_def)
  have make: "make_packet ?buf (int (length c)) (int k) (int r) st = Inr (?p, ?st1)"
    using make_packet_eq [of n c "replicate (room - length c) None" st "length ds" k ?buf r] assms st
    by (auto simp: Let_def)
  have "padded n (pkt_data ?p)" using assms padded_pad_payload [of n c] by (simp add: data_packet_def)
  from send_packet_eq [OF this, of env bitrate net] obtain net1 where
    "send_packet env (int n) bitrate ?p net = Inr (False, net1)" using assms(6) by auto
  then have first: "SendByUlpfec dchecks env ?buf (int (length c)) (int k) (int r) bitrate st net = Inr (?st1, net1)"
    using make by (simp add: SendByUlpfec_def)
  have "\<exists>j. int (length ds) + 1 = int j" by (rule exI [of _ "Suc (length ds)"]) simp
  then have over: "overfull k n ?st1" using assms(2) st by (simp add: overfull_def)
  obtain st' net' where "send_all dchecks env bitrate room k r cs ?st1 net1 = Inr (st', net')"
    "total_sent_fec_packets st' = total_sent_fec_packets st" "group_number st' = group_number st"
    using send_all_overfull [OF over _ assms(3,4,8), of dchecks env bitrate room r net1] assms(2) by auto
  then show ?thesis using first by (cases "hangs net") simp_all
qed

theorem failed_send_ends_fec_witness:
  "\<exists>st' net'. send_all True \<lparr>send_fails = (\<lambda>a. a = 0), send_millis = (\<lambda>a. 1)\<rparr> 8000 2000 1 1 [[1, 2], [3, 4], [5, 6]]
      new_ForwardErrorCorrection new_net = Inr (st', net') \<and>
    total_sent_fec_packets st' = 0 \<and> group_number st' = 0"
  using failed_send_ends_fec [of 1 1 2 0 "[]" new_ForwardErrorCorrection
      "\<lparr>send_fails = (\<lambda>a. a = 0), send_millis = (\<lambda>a. 1)\<rparr>" new_net "[1, 2]" "[[3, 4], [5, 6]]" True 8000 2000]
    fec_rel_new [of 1 1 2]
  by (simp add: kMaxDataSize_def new_net_def new_ForwardErrorCorrection_def)

end
