(* ===== verification/Fec_Encode_Lib.thy ===== *)
theory Fec_Encode_Lib
  imports Encoder_Correct
begin

text \<open>
  The second copy of the FEC module, \<^verbatim>\<open>FEC_Encode/forward_error_correction.cpp\<close>, from which the
  library \<^verbatim>\<open>udp_with_ulpfec\<close> was built. It differs from the copy in \<^verbatim>\<open>Channel_sim\<close> in two places:
  it has no \<open>Serialize\<close>, and its \<open>PacketByFEC\<close> ends without clearing \<open>media_packets\<close> and
  \<open>fec_packets\<close>. The theory models that \<open>PacketByFEC\<close> and shows what the missing lines change.
\<close>

definition PacketByFEC_lib :: "bool \<Rightarrow> mem \<Rightarrow> int \<Rightarrow> int \<Rightarrow> int \<Rightarrow> fec_state \<Rightarrow> fec_state res" where
  "PacketByFEC_lib dchecks buf len k r st =
     bind_res (make_packet buf len k r st) (\<lambda>(p, st1).
       let st2 = st1\<lparr>buffer_packets := buffer_packets st1 @ [p]\<rparr> in
       if length (media_packets st2) = size_t k then
         bind_res
           (EncodeFec dchecks (media_packets st2) (word_of_int r) (kNumImportantPackets st2)
              (kUseUnequalProtection st2) fec_mask_type st2)
           (\<lambda>(ret, st3).
             Inr (st3\<lparr>buffer_packets := buffer_packets st3 @ fec_packets st3,
                      group_number := group_number st3 + 1,
                      sequence_number := 0\<rparr>))
       else Inr st2)"

fun feed_lib :: "bool \<Rightarrow> nat \<Rightarrow> nat \<Rightarrow> u8 list list \<Rightarrow> fec_state \<Rightarrow> fec_state res" where
  "feed_lib dchecks k r [] st = Inr st"
| "feed_lib dchecks k r (c # cs) st =
     bind_res
       (PacketByFEC_lib dchecks (mem_of c @ replicate (kMaxDataSize - length c) None) (int (length c))
          (int k) (int r) st)
       (feed_lib dchecks k r cs)"

lemma feed_lib_append:
  "feed_lib dchecks k r (xs @ ys) st = bind_res (feed_lib dchecks k r xs st) (feed_lib dchecks k r ys)"
proof (induction xs arbitrary: st)
  case (Cons x xs)
  then have "feed_lib dchecks k r (xs @ ys) = (\<lambda>st. bind_res (feed_lib dchecks k r xs st) (feed_lib dchecks k r ys))"
    by blast
  then show ?case by (simp add: bind_res_assoc)
qed simp

text \<open>Once a group is complete, \<open>media_packets\<close> has more than \<open>k\<close> packets after every call.\<close>

definition lib_stuck :: "nat \<Rightarrow> nat \<Rightarrow> nat \<Rightarrow> fec_state \<Rightarrow> bool" where
  "lib_stuck k n i st \<longleftrightarrow> k \<le> length (media_packets st) \<and> packet_size st = int n \<and> \<not> fec_first_use st \<and>
     sequence_number st = int i \<and> group_number st = 1"

lemma PacketByFEC_lib_stuck:
  assumes "lib_stuck k n i st" "0 < k" "k \<le> 16" "length c \<le> n" "n \<le> kMaxDataSize"
  shows "\<exists>st'. PacketByFEC_lib dchecks (mem_of c @ replicate (kMaxDataSize - length c) None) (int (length c))
      (int k) (int r) st = Inr st' \<and> lib_stuck k n (Suc i) st' \<and>
    buffer_packets st' = buffer_packets st @ [data_packet k r 1 i (pad_payload n c)]"
proof -
  have st: "k \<le> length (media_packets st)" "packet_size st = int n" "\<not> fec_first_use st" "group_number st = 1"
    "sequence_number st = int i"
    using assms(1) by (auto simp: lib_stuck_def)
  let ?buf = "mem_of c @ replicate (kMaxDataSize - length c) None"
  have "make_packet ?buf (int (length c)) (int k) (int r) st =
     (let p = data_packet k r (group_number st) i (pad_payload n c)
     in Inr (p, st\<lparr>packet_size := int n, fec_first_use := False,
                   fec_last_use := fec_last_use st \<or> length c < n,
                   sequence_number := int i + 1, media_packets := media_packets st @ [p]\<rparr>))"
    using st assms by (intro make_packet_eq [where junk = "replicate (kMaxDataSize - length c) None"]) auto
  moreover have "size_t (int k) = k" using assms by (intro size_t_of_nat) simp
  ultimately show ?thesis
    using st by (simp add: PacketByFEC_lib_def Let_def lib_stuck_def)
qed

lemma feed_lib_stuck:
  assumes "lib_stuck k n i st" "0 < k" "k \<le> 16" "n \<le> kMaxDataSize" "\<forall>c \<in> set cs. length c \<le> n"
  shows "\<exists>st'. feed_lib dchecks k r cs st = Inr st' \<and> lib_stuck k n (i + length cs) st' \<and>
    buffer_packets st' = buffer_packets st @
      map (\<lambda>l. data_packet k r 1 (i + l) (pad_payload n (cs ! l))) [0..<length cs]"
  using assms(1,5)
proof (induction cs arbitrary: st i)
  case (Cons c cs)
  obtain st1 where s: "PacketByFEC_lib dchecks (mem_of c @ replicate (kMaxDataSize - length c) None) (int (length c))
      (int k) (int r) st = Inr st1" "lib_stuck k n (Suc i) st1"
    "buffer_packets st1 = buffer_packets st @ [data_packet k r 1 i (pad_payload n c)]"
    using PacketByFEC_lib_stuck [OF Cons.prems(1) assms(2,3) _ assms(4), of c dchecks r] Cons.prems(2) by auto
  obtain st2 where s2: "feed_lib dchecks k r cs st1 = Inr st2" "lib_stuck k n (Suc i + length cs) st2"
    "buffer_packets st2 = buffer_packets st1 @ map (\<lambda>l. data_packet k r 1 (Suc i + l) (pad_payload n (cs ! l))) [0..<length cs]"
    using Cons.IH [OF s(2)] Cons.prems(2) by auto
  have "map (\<lambda>l. data_packet k r 1 (i + l) (pad_payload n ((c # cs) ! l))) [0..<length (c # cs)] =
      data_packet k r 1 i (pad_payload n c) #
      map (\<lambda>l. data_packet k r 1 (Suc i + l) (pad_payload n (cs ! l))) [0..<length cs]"
    by (simp add: upt_conv_Cons del: upt_Suc flip: map_Suc_upt)
  then show ?case using s s2 by simp
qed simp

text \<open>Before the first group is complete the two versions do the same.\<close>

lemma PacketByFEC_lib_first:
  assumes rel: "fec_rel k r n g ds st" and k: "r \<le> k" "k \<le> 16" and n: "n \<le> kMaxDataSize"
    and c: "length c \<le> n" "fec_first_use st \<longrightarrow> length c = n"
  shows "\<exists>st'. PacketByFEC_lib dchecks (mem_of c @ replicate (kMaxDataSize - length c) None) (int (length c))
      (int k) (int r) st = Inr st' \<and>
    buffer_packets st' = buffer_packets st @ emitted k r g ds (pad_payload n c) \<and> \<not> fec_first_use st' \<and>
    (if Suc (length ds) = k then g = 0 \<longrightarrow> lib_stuck k n 0 st' else fec_rel k r n g (ds @ [pad_payload n c]) st')"
proof -
  let ?d = "pad_payload n c"
  let ?p = "data_packet k r g (length ds) ?d"
  let ?buf = "mem_of c @ replicate (kMaxDataSize - length c) None"
  let ?st1 = "st\<lparr>packet_size := int n, fec_first_use := False,
      fec_last_use := fec_last_use st \<or> length c < n,
      sequence_number := int (length ds) + 1, media_packets := media_packets st @ [?p],
      buffer_packets := buffer_packets st @ [?p]\<rparr>"
  have facts: "media_packets st = group_data k r g ds" "length ds < k" "fec_packets st = []"
    "length (packet_masks st) = 288" "sequence_number st = int (length ds)" "group_number st = g"
    "kNumImportantPackets st = 0" "\<not> kUseUnequalProtection st" "\<not> fec_first_use st \<longrightarrow> packet_size st = int n"
    "\<forall>d \<in> set ds. padded n d"
    using rel by (auto simp: fec_rel_def)
  have d: "padded n ?d" using n c by (intro padded_pad_payload)
  have make: "make_packet ?buf (int (length c)) (int k) (int r) st =
      Inr (?p, ?st1\<lparr>buffer_packets := buffer_packets st\<rparr>)"
    using make_packet_eq [of n c "replicate (kMaxDataSize - length c) None" st "length ds" k ?buf r] n c facts
    by (auto simp: Let_def)
  have sk: "size_t (int k) = k" using k by (intro size_t_of_nat) simp
  show ?thesis
  proof (cases "Suc (length ds) = k")
    case False
    then show ?thesis
      using facts d by (simp add: PacketByFEC_lib_def make sk Let_def emitted_def fec_rel_def group_data_append)
  next
    case True
    let ?ds = "ds @ [?d]"
    obtain st2 where enc: "EncodeFec dchecks (group_data k r g ?ds) (word_of_int (int r)) 0 False fec_mask_type ?st1 =
        Inr (int r, st2)"
      and st2: "st2 = ?st1\<lparr>fec_packets := group_fec r g ?ds, sequence_number := int (length ?ds) + int r,
             packet_masks := packet_masks st2, packet_mask_size := packet_mask_size st2\<rparr>"
      using EncodeFec_eq [of ?st1 n g ?ds r "group_data k r g ?ds" dchecks] facts True k n d by auto
    have proj: "buffer_packets st2 = buffer_packets st @ [?p]" "fec_packets st2 = group_fec r g ?ds"
      "group_number st2 = g" "packet_size st2 = int n" "\<not> fec_first_use st2"
      "length (media_packets st2) = k"
      using facts True by (subst st2; simp)+
    then show ?thesis
      using facts enc True by (simp add: PacketByFEC_lib_def make sk Let_def group_data_append emitted_def lib_stuck_def)
  qed
qed

lemma feed_lib_partial:
  assumes k: "r \<le> k" "k \<le> 16" and n: "n \<le> kMaxDataSize" and "length cs < k"
    and "cs \<noteq> [] \<Longrightarrow> length (hd cs) = n" and "\<forall>c \<in> set cs. length c \<le> n"
  shows "\<exists>st. feed_lib dchecks k r cs new_ForwardErrorCorrection = Inr st \<and>
    buffer_packets st = group_data k r 0 (map (pad_payload n) cs) \<and>
    fec_rel k r n 0 (map (pad_payload n) cs) st \<and> fec_first_use st = (cs = [])"
  using assms(4-6)
proof (induction cs rule: rev_induct)
  case Nil
  then show ?case
    using fec_rel_new [of k r n] by (simp add: group_data_def) (simp add: new_ForwardErrorCorrection_def)
next
  case (snoc c cs)
  have "cs \<noteq> [] \<Longrightarrow> length (hd cs) = n" using snoc.prems(2) by (cases cs) auto
  then obtain st where st: "feed_lib dchecks k r cs new_ForwardErrorCorrection = Inr st"
    "buffer_packets st = group_data k r 0 (map (pad_payload n) cs)"
    "fec_rel k r n 0 (map (pad_payload n) cs) st" "fec_first_use st = (cs = [])"
    using snoc by auto
  have "length c \<le> n" "fec_first_use st \<longrightarrow> length c = n" using snoc.prems st by auto
  from PacketByFEC_lib_first [OF st(3) k n this, of dchecks] obtain st' where
    "PacketByFEC_lib dchecks (mem_of c @ replicate (kMaxDataSize - length c) None) (int (length c))
      (int k) (int r) st = Inr st'"
    "buffer_packets st' = buffer_packets st @ emitted k r 0 (map (pad_payload n) cs) (pad_payload n c)"
    "\<not> fec_first_use st'" "fec_rel k r n 0 (map (pad_payload n) cs @ [pad_payload n c]) st'"
    using snoc.prems(1) by auto
  then show ?case
    using st snoc.prems(1) by (simp add: feed_lib_append emitted_def group_data_append)
qed

text \<open>
  Claim C22. In the \<^verbatim>\<open>FEC_Encode\<close> copy only the first group is ever protected: feeding the \<open>k\<close> chunks
  of a first group and then any further chunks yields that group with its \<open>r\<close> FEC packets, and after
  it one data packet per chunk, all stamped with group 1 and with sequence numbers that count on
  (modulo 256 in the header byte), and no FEC packet at all; no check fails in either build mode.
\<close>

theorem lib_protects_first_group_only:
  assumes "0 < k" "r \<le> k" "k \<le> 16" "n \<le> kMaxDataSize" "length first = k"
    and "length (hd first) = n" "\<forall>c \<in> set (first @ cs). length c \<le> n"
  shows "\<exists>st. feed_lib dchecks k r (first @ cs) new_ForwardErrorCorrection = Inr st \<and>
    buffer_packets st = stream_spec k r (map (pad_payload n) first) @
      map (\<lambda>i. data_packet k r 1 i (pad_payload n (cs ! i))) [0..<length cs] \<and> group_number st = 1"
proof -
  have "first \<noteq> []" using assms by auto
  then obtain xs x where first: "first = xs @ [x]" by (metis append_butlast_last_id)
  have k: "Suc (length xs) = k" using assms(5) first by simp
  have hd: "xs \<noteq> [] \<Longrightarrow> length (hd xs) = n" using assms(6) first by simp
  obtain st where st: "feed_lib dchecks k r xs new_ForwardErrorCorrection = Inr st"
    "buffer_packets st = group_data k r 0 (map (pad_payload n) xs)"
    "fec_rel k r n 0 (map (pad_payload n) xs) st" "fec_first_use st = (xs = [])"
    using feed_lib_partial [OF assms(2-4) _ hd, of dchecks] k assms(7) first by auto
  have x: "length x \<le> n" "fec_first_use st \<longrightarrow> length x = n" using assms(6,7) st first by auto
  obtain st1 where st1: "PacketByFEC_lib dchecks (mem_of x @ replicate (kMaxDataSize - length x) None) (int (length x))
      (int k) (int r) st = Inr st1" "lib_stuck k n 0 st1"
    "buffer_packets st1 = buffer_packets st @ emitted k r 0 (map (pad_payload n) xs) (pad_payload n x)"
    using PacketByFEC_lib_first [OF st(3) assms(2-4) x, of dchecks] k by auto
  obtain st2 where st2: "feed_lib dchecks k r cs st1 = Inr st2" "lib_stuck k n (0 + length cs) st2"
    "buffer_packets st2 = buffer_packets st1 @ map (\<lambda>l. data_packet k r 1 (0 + l) (pad_payload n (cs ! l))) [0..<length cs]"
    using feed_lib_stuck [OF st1(2) assms(1,3,4), of cs dchecks r] assms(7) by auto
  have div: "length xs div k = 0" using k by simp
  have "buffer_packets st1 = stream_spec k r (map (pad_payload n) first)"
    using stream_spec_snoc(1) [OF assms(1), of r "map (pad_payload n) xs" "pad_payload n x"] st(2) st1(3) first k
    by (simp add: div stream_spec_def nth_group_def)
  moreover have "feed_lib dchecks k r (first @ cs) new_ForwardErrorCorrection = Inr st2"
    using st st1 st2 first by (simp add: feed_lib_append)
  ultimately show ?thesis using st2 by (auto simp: lib_stuck_def)
qed

theorem lib_protects_first_group_only_witness:
  "\<exists>st. feed_lib True 2 1 [[1, 2], [3, 4], [5, 6], [7, 8]] new_ForwardErrorCorrection = Inr st \<and>
    buffer_packets st = stream_spec 2 1 (map (pad_payload 2) [[1, 2], [3, 4]]) @
      [data_packet 2 1 1 0 (pad_payload 2 [5, 6]), data_packet 2 1 1 1 (pad_payload 2 [7, 8])] \<and> group_number st = 1"
  using lib_protects_first_group_only [of 2 1 2 "[[1, 2], [3, 4]]" "[[5, 6], [7, 8]]" True]
  by (simp add: kMaxDataSize_def)

end
