(* ===== verification/Datagram.thy ===== *)
theory Datagram
  imports Packet_Wire Complex_Main
begin

text \<open>
  The bytes that \<open>Udpserver\<close> handles (\<^verbatim>\<open>Channel_sim/Udpserver.h\<close>, \<^verbatim>\<open>Udpserver.cpp\<close>): the packed
  \<open>videoStruct\<close> around a chunk of the file, the input it makes for the FEC module, the
  \<open>SendPacket\<close> of a queue, and the datagram a worker assembles from it.
\<close>

section \<open>Constants of the class\<close>

definition SOCKET_POOL_SIZE :: nat where "SOCKET_POOL_SIZE = 3"
definition flightpkt_header_size :: nat where "flightpkt_header_size = 15"
definition fec_header_size :: nat where "fec_header_size = 6"
definition packet_header_size :: nat where "packet_header_size = 7"
definition readChunkSize :: nat where "readChunkSize = 1009"
definition total_length :: nat where
  "total_length = readChunkSize + packet_header_size + fec_header_size + flightpkt_header_size"
definition fec_k :: int where "fec_k = 10"
definition fec_r :: int where "fec_r = 2"

lemmas server_constants =
  SOCKET_POOL_SIZE_def flightpkt_header_size_def fec_header_size_def packet_header_size_def
  readChunkSize_def total_length_def fec_k_def fec_r_def

section \<open>The video structure\<close>

text \<open>Packed: 15 bytes of header fields, then \<open>videoData\<close>, the last member.\<close>

record videoStruct =
  sysWord :: u32
  idWord :: u8
  nowTime :: u32
  versionNumber :: u8
  totalChannel :: u8
  whichChannel :: u8
  videoFormat :: u8
  packetSize :: u16
  videoData :: mem

definition videoData_size :: nat where "videoData_size = 1009"

definition video_header :: "videoStruct \<Rightarrow> u8 list" where
  "video_header v =
     le32 (sysWord v) @ [idWord v] @ le32 (nowTime v) @
     [versionNumber v, totalChannel v, whichChannel v, videoFormat v] @ le16 (packetSize v)"

definition video_cells :: "videoStruct \<Rightarrow> mem" where
  "video_cells v = mem_of (video_header v) @ videoData v"

text \<open>
  \<open>memcpy(flightpkt.videoData, data_buf, sizeof(data_buf))\<close>: the cells that land in the member,
  and the number of cells written behind the end of the structure. The header fields are set after
  the copy.
\<close>

definition copy_videoData :: "mem \<Rightarrow> mem \<times> nat" where
  "copy_videoData data_buf = (take videoData_size data_buf, length data_buf - videoData_size)"

definition make_flightpkt :: "u32 \<Rightarrow> mem \<Rightarrow> videoStruct \<times> nat" where
  "make_flightpkt sysword data_buf =
     (let (cells, spill) = copy_videoData data_buf in
      (\<lparr>sysWord = sysword, idWord = 1, nowTime = 1, versionNumber = 1, totalChannel = 6,
        whichChannel = 1, videoFormat = 1, packetSize = 1009, videoData = cells\<rparr>, spill))"

text \<open>\<open>memcpy(fec_input_buffer, &flightpkt, fec_input_size)\<close> into a new local array.\<close>

definition make_fec_input :: "videoStruct \<Rightarrow> nat \<Rightarrow> mem res" where
  "make_fec_input v fec_input_size =
     bind_res (mem_load ''flightpkt'' 0 fec_input_size (video_cells v)) (\<lambda>cells.
       mem_store ''fec_input_buffer'' 0 cells (replicate 2000 None))"

section \<open>Packets in a queue and datagrams\<close>

record SendPacket =
  packet_to_send :: "packet option"
  crc32 :: u32
  stream_type :: u8
  channel_index :: u8
  seq :: u8
  actual_payload_size :: nat

text \<open>
  The worker's send buffer: \<open>Serialize\<close> with the size of the payload, then the trailer behind it.
  The result is the number of bytes serialised and the 2000 cells of the buffer.
\<close>

definition fill_datagram :: "packet \<Rightarrow> SendPacket \<Rightarrow> (nat \<times> mem) res" where
  "fill_datagram p sp =
     (let payload_size = actual_payload_size sp; trailer = int (payload_size + fec_header_size) in
      bind_res (Serialize p (replicate 2000 None) (payload_size + fec_header_size) payload_size) (\<lambda>(n, b0).
      bind_res (mem_store ''send_buffer'' trailer (mem_of (le32 (crc32 sp))) b0) (\<lambda>b1.
      bind_res (mem_store ''send_buffer'' (trailer + 4) (mem_of [stream_type sp]) b1) (\<lambda>b2.
      bind_res (mem_store ''send_buffer'' (trailer + 5) (mem_of [channel_index sp]) b2) (\<lambda>b3.
      bind_res (mem_store ''send_buffer'' (trailer + 6) (mem_of [seq sp]) b3) (\<lambda>b4.
        Inr (n, b4)))))))"

section \<open>The FEC input\<close>

text \<open>The 15 header bytes of every \<open>videoStruct\<close> the reader makes.\<close>

definition flight_header :: "u32 \<Rightarrow> u8 list" where
  "flight_header sysword = le32 sysword @ [1] @ le32 1 @ [1, 6, 1, 1] @ le16 1009"

lemma length_flight_header [simp]: "length (flight_header w) = 15"
  by (simp add: flight_header_def)

lemma make_fec_input_eq:
  assumes "length c \<le> 1009" "length c + length rest = 2000" "make_flightpkt w (mem_of c @ rest) = (v, spill)"
  shows "make_fec_input v (15 + length c) =
    Inr (mem_of (flight_header w @ c) @ replicate (2000 - (15 + length c)) None)"
    and "spill = 991"
proof -
  have "video_header v = flight_header w" "videoData v = mem_of c @ take (1009 - length c) rest"
    using assms by (auto simp: make_flightpkt_def copy_videoData_def videoData_size_def video_header_def
        flight_header_def)
  then have v: "video_cells v = mem_of (flight_header w @ c) @ take (1009 - length c) rest"
    by (simp add: video_cells_def)
  have "mem_load ''flightpkt'' 0 (15 + length c) (video_cells v) = Inr (mem_of (flight_header w @ c))"
    using assms by (simp add: v mem_load_def del: mem_of_append)
  then show "make_fec_input v (15 + length c) =
      Inr (mem_of (flight_header w @ c) @ replicate (2000 - (15 + length c)) None)"
    using assms by (simp add: make_fec_input_def mem_store_def)
  show "spill = 991"
    using assms by (auto simp: make_flightpkt_def copy_videoData_def videoData_size_def)
qed

section \<open>The datagram\<close>

text \<open>The seven trailer bytes.\<close>

definition trailer_bytes :: "SendPacket \<Rightarrow> u8 list" where
  "trailer_bytes sp = le32 (crc32 sp) @ [stream_type sp, channel_index sp, seq sp]"

lemma length_trailer_bytes [simp]: "length (trailer_bytes sp) = 7"
  by (simp add: trailer_bytes_def)

lemma fill_datagram_eq:
  assumes "length (pkt_data p) = kMaxDataSize" "actual_payload_size sp + 13 \<le> 2000"
  shows "fill_datagram p sp = Inr (6 + actual_payload_size sp,
    mem_of (wire_bytes (actual_payload_size sp) p @ trailer_bytes sp) @
    replicate (2000 - (13 + actual_payload_size sp)) None)"
proof -
  let ?n = "actual_payload_size sp"
  let ?w = "wire_bytes ?n p"
  have len: "length ?w = ?n + 6" using assms by (simp add: length_wire_bytes kMaxDataSize_def)
  have ser: "Serialize p (replicate 2000 None) (?n + 6) ?n =
      Inr (6 + ?n, mem_of ?w @ replicate (2000 - (6 + ?n)) None)"
    using assms by (simp add: Serialize_eq kMaxDataSize_def)
  have t: "mem_store ''send_buffer'' (int (?n + 6)) (mem_of bs) (mem_of ?w @ replicate x None) =
      Inr (mem_of (?w @ bs) @ replicate (x - length bs) None)" if "length bs \<le> x" for bs x
    using that by (subst mem_store_prefix) (simp_all add: len)
  have t': "mem_store ''send_buffer'' (int (?n + 6) + numeral i) (mem_of [b]) (mem_of (?w @ bs) @ replicate x None) =
      Inr (mem_of (?w @ bs @ [b]) @ replicate (x - 1) None)" if "length bs = numeral i" "1 \<le> x" for b bs x i
    using that mem_store_prefix [of "?w @ bs" "?n + 6 + numeral i" "[b]" "replicate x None"]
    by (simp add: len)
  show ?thesis
    unfolding fill_datagram_def Let_def fec_header_size_def ser bind_res.simps prod.case
    using assms by (simp add: t t' trailer_bytes_def del: mem_of_append of_nat_add)
qed

text \<open>What \<open>sendto\<close> reads: \<open>total_length\<close> bytes from the start of the buffer.\<close>

text \<open>
  Claim C23. A worker's buffer for any queued packet is the serialised FEC packet and then the seven
  trailer bytes, and no store leaves the 2000-byte array. The 1037 bytes handed to \<open>sendto\<close> are
  exactly this datagram when the payload is a full one of 1024 bytes; for a shorter last chunk of
  \<open>m < 1024\<close> bytes they are the same layout with the trailer right behind the shorter payload,
  followed by \<open>1024 - m\<close> bytes that were never written.
\<close>

theorem datagram_layout:
  assumes "length (pkt_data p) = kMaxDataSize" "actual_payload_size sp \<le> 1024"
  shows "\<exists>cells. fill_datagram p sp = Inr (fec_header_size + actual_payload_size sp, cells) \<and>
    length cells = 2000 \<and>
    take total_length cells =
      mem_of (header_bytes p @ take (actual_payload_size sp) (pkt_data p) @ trailer_bytes sp) @
      replicate (1024 - actual_payload_size sp) None"
  using assms fill_datagram_eq [of p sp]
  by (simp add: server_constants wire_bytes_def length_wire_bytes kMaxDataSize_def)

theorem datagram_layout_witness:
  "\<exists>cells. fill_datagram new_Packet
      \<lparr>packet_to_send = Some new_Packet, crc32 = 0, stream_type = 1, channel_index = 2, seq = 7, actual_payload_size = 1000\<rparr> =
      Inr (1006, cells) \<and>
    drop 1006 (take total_length cells) = mem_of [0, 0, 0, 0, 1, 2, 7] @ replicate 24 None"
  using datagram_layout [of new_Packet
      "\<lparr>packet_to_send = Some new_Packet, crc32 = 0, stream_type = 1, channel_index = 2, seq = 7, actual_payload_size = 1000\<rparr>"]
  by (auto simp: new_Packet_def kMaxDataSize_def fec_header_size_def trailer_bytes_def le32_def mem_of_def)

end
