(* ===== verification/Step_Systems.thy ===== *)
theory Step_Systems
  imports Main
begin

text \<open>
  Runs of labelled step relations and the arguments the concurrent components use: an invariant
  kept by every step, an abstract machine that replays the events of every step, a history of the events, and progress in fair
  executions. All are locales; their assumptions are one-step laws, their conclusions speak about whole runs.
\<close>

inductive runs :: "('s \<Rightarrow> 'e list \<Rightarrow> 's \<Rightarrow> bool) \<Rightarrow> 's \<Rightarrow> 'e list \<Rightarrow> 's \<Rightarrow> bool"
  for step :: "'s \<Rightarrow> 'e list \<Rightarrow> 's \<Rightarrow> bool" and s0 :: 's
where
  runs_init: "runs step s0 [] s0"
| runs_step: "runs step s0 tr s \<Longrightarrow> step s evs s' \<Longrightarrow> runs step s0 (tr @ evs) s'"

lemma runs_trans: "runs step s tr' s'' \<Longrightarrow> runs step s0 tr s \<Longrightarrow> runs step s0 (tr @ tr') s''"
proof (induction rule: runs.induct)
  case (runs_step tr1 s1 evs s2)
  then have "runs step s0 ((tr @ tr1) @ evs) s2" by (blast intro: runs.runs_step)
  then show ?case by simp
qed simp

lemma runs_mono: "runs step s0 tr s \<Longrightarrow> (\<And>s evs s'. step s evs s' \<Longrightarrow> step' s evs s') \<Longrightarrow> runs step' s0 tr s"
  by (induction rule: runs.induct) (auto intro: runs.intros)

text \<open>An abstract machine that consumes events one by one and may get stuck.\<close>

primrec replay :: "('e \<Rightarrow> 'a \<Rightarrow> 'a option) \<Rightarrow> 'e list \<Rightarrow> 'a \<Rightarrow> 'a option" where
  "replay f [] a = Some a"
| "replay f (e # es) a = (case f e a of None \<Rightarrow> None | Some a' \<Rightarrow> replay f es a')"

lemma replay_append:
  "replay f (xs @ ys) a = (case replay f xs a of None \<Rightarrow> None | Some b \<Rightarrow> replay f ys b)"
  by (induction xs arbitrary: a) (auto split: option.splits)

locale step_invariant =
  fixes step :: "'s \<Rightarrow> 'e list \<Rightarrow> 's \<Rightarrow> bool"
    and inv :: "'s \<Rightarrow> bool"
  assumes preserved: "inv s \<Longrightarrow> step s evs s' \<Longrightarrow> inv s'"
begin

lemma runs_preserve: "runs step s0 tr s \<Longrightarrow> inv s0 \<Longrightarrow> inv s"
  by (induction rule: runs.induct) (auto intro: preserved)

end

locale step_simulation = step_invariant step inv
  for step :: "'s \<Rightarrow> 'e list \<Rightarrow> 's \<Rightarrow> bool" and inv :: "'s \<Rightarrow> bool" +
  fixes accept :: "'e \<Rightarrow> 'a \<Rightarrow> 'a option"
    and abs :: "'s \<Rightarrow> 'a"
  assumes simulated: "inv s \<Longrightarrow> step s evs s' \<Longrightarrow> replay accept evs (abs s) = Some (abs s')"
begin

lemma runs_replay: "runs step s0 tr s \<Longrightarrow> inv s0 \<Longrightarrow> replay accept tr (abs s0) = Some (abs s)"
proof (induction rule: runs.induct)
  case (runs_step tr s evs s')
  then have "inv s" by (blast intro: runs_preserve)
  then show ?case using runs_step simulated [of s evs s'] by (simp add: replay_append)
qed simp

end

locale step_history = step_invariant step inv
  for step :: "'s \<Rightarrow> 'e list \<Rightarrow> 's \<Rightarrow> bool" and inv :: "'s \<Rightarrow> bool" +
  fixes hist :: "'e list \<Rightarrow> 's \<Rightarrow> bool"
  assumes recorded: "inv s \<Longrightarrow> hist tr s \<Longrightarrow> step s evs s' \<Longrightarrow> hist (tr @ evs) s'"
begin

lemma runs_record: "runs step s0 tr s \<Longrightarrow> inv s0 \<Longrightarrow> hist [] s0 \<Longrightarrow> hist tr s"
proof (induction rule: runs.induct)
  case (runs_step tr s evs s')
  then have "inv s" by (blast intro: runs_preserve)
  then show ?case using runs_step recorded [of s tr evs s'] by blast
qed simp

end

section \<open>Fair executions\<close>

text \<open>
  An execution is an infinite sequence of steps; it is fair when every thread moves again and again. Something pending is reached in every
  fair execution if a rank never grows and shrinks whenever a certain thread, the helper, moves, and if the helper only
  changes when the rank does.
\<close>

definition execution :: "('s \<Rightarrow> 'e list \<Rightarrow> 's \<Rightarrow> bool) \<Rightarrow> (nat \<Rightarrow> 's) \<Rightarrow> bool" where
  "execution step f \<longleftrightarrow> (\<forall>k. \<exists>evs. step (f k) evs (f (Suc k)))"

definition fair :: "('t \<Rightarrow> 's \<Rightarrow> 's \<Rightarrow> bool) \<Rightarrow> 't set \<Rightarrow> (nat \<Rightarrow> 's) \<Rightarrow> bool" where
  "fair moves threads f \<longleftrightarrow> (\<forall>t \<in> threads. \<forall>k. \<exists>m \<ge> k. moves t (f m) (f (Suc m)))"

lemma runs_path: "runs step s0 tr s \<Longrightarrow> \<exists>f n. f 0 = s0 \<and> f n = s \<and> (\<forall>k < n. \<exists>evs. step (f k) evs (f (Suc k)))"
proof (induction rule: runs.induct)
  case runs_init
  show ?case by (intro exI [of _ "\<lambda>_. s0"] exI [of _ 0]) simp
next
  case (runs_step tr s evs s')
  then obtain f n where f: "f 0 = s0" "f n = s" "\<forall>k < n. \<exists>evs. step (f k) evs (f (Suc k))" by blast
  let ?g = "\<lambda>k. if k \<le> n then f k else s'"
  have "\<exists>evs. step (?g k) evs (?g (Suc k))" if "k < Suc n" for k
    using that f runs_step(2) by (cases "k = n") auto
  then show ?case using f(1) by (intro exI [of _ ?g] exI [of _ "Suc n"]) simp
qed

locale fair_progress = step_invariant step inv
  for step :: "'s \<Rightarrow> 'e list \<Rightarrow> 's \<Rightarrow> bool" and inv :: "'s \<Rightarrow> bool" +
  fixes moves :: "'t \<Rightarrow> 's \<Rightarrow> 's \<Rightarrow> bool"
    and threads :: "'t set"
    and pending :: "'s \<Rightarrow> bool"
    and reached :: "'s \<Rightarrow> 's \<Rightarrow> bool"
    and rank :: "'s \<Rightarrow> nat"
    and helper :: "'s \<Rightarrow> 't"
  assumes helper_fair: "inv s \<Longrightarrow> pending s \<Longrightarrow> helper s \<in> threads"
    and not_undone: "inv s \<Longrightarrow> pending s \<Longrightarrow> step s evs s' \<Longrightarrow>
      reached s s' \<or> pending s' \<and> (rank s' < rank s \<or> rank s' = rank s \<and> helper s' = helper s)"
    and helper_moves: "inv s \<Longrightarrow> pending s \<Longrightarrow> moves (helper s) s s' \<Longrightarrow> reached s s' \<or> rank s' < rank s"
begin

lemma execution_inv: "execution step f \<Longrightarrow> inv (f 0) \<Longrightarrow> inv (f k)"
  by (induction k) (auto simp: execution_def intro: preserved)

lemma waiting:
  assumes ex: "execution step f" "inv (f 0)" and k: "pending (f k)"
  shows "\<forall>m < n. \<not> reached (f (k + m)) (f (Suc (k + m))) \<Longrightarrow> pending (f (k + n)) \<and>
    (rank (f (k + n)) < rank (f k) \<or> rank (f (k + n)) = rank (f k) \<and> helper (f (k + n)) = helper (f k))"
proof (induction n)
  case (Suc n)
  then have n: "pending (f (k + n))" "rank (f (k + n)) < rank (f k) \<or> rank (f (k + n)) = rank (f k) \<and> helper (f (k + n)) = helper (f k)"
    by auto
  obtain evs where "step (f (k + n)) evs (f (Suc (k + n)))" using ex(1) by (auto simp: execution_def)
  from not_undone [OF execution_inv [OF ex] n(1) this] Suc.prems n(2) show ?case by auto
qed (use k in simp)

lemma eventually_reached:
  assumes ex: "execution step f" "inv (f 0)" "fair moves threads f"
  shows "pending (f k) \<Longrightarrow> \<exists>m \<ge> k. reached (f m) (f (Suc m))"
proof (induction "rank (f k)" arbitrary: k rule: less_induct)
  case less
  note inv = execution_inv [OF ex(1,2)]
  from helper_fair [OF inv less.prems] ex(3) obtain m where m: "k \<le> m" "moves (helper (f k)) (f m) (f (Suc m))"
    by (auto simp: fair_def)
  then obtain n where n: "m = k + n" using le_Suc_ex by blast
  show ?case
  proof (cases "\<exists>j \<le> n. reached (f (k + j)) (f (Suc (k + j)))")
    case True
    then show ?thesis using le_add1 by blast
  next
    case False
    then have "pending (f (k + Suc n))" "rank (f (k + n)) < rank (f k) \<or> rank (f (k + n)) = rank (f k) \<and> helper (f (k + n)) = helper (f k)"
      "pending (f (k + n))" "\<not> reached (f m) (f (Suc m))"
      using waiting [OF ex(1,2) less.prems, of n] waiting [OF ex(1,2) less.prems, of "Suc n"] n by (auto simp: less_Suc_eq_le)
    moreover from this have "rank (f (k + Suc n)) < rank (f k) \<or> rank (f (k + n)) < rank (f k)"
      using helper_moves [OF inv, of m "f (Suc m)"] m(2) n by auto
    ultimately obtain j where "pending (f (k + j))" "rank (f (k + j)) < rank (f k)" by blast
    from less.hyps [OF this(2,1)] show ?thesis using add_leD1 by blast
  qed
qed

end

end
