(* ===== verification/Udp_Server.thy ===== *)
theory Udp_Server
  imports Datagram Step_Systems
begin

text \<open>
  The server object (\<^verbatim>\<open>Channel_sim/Udpserver.cpp\<close>): its members and the locals of its threads as one
  record, one definition per member function that the GUI thread calls, and the bodies of the two
  thread functions as step functions over explicit program points. One step is at most one access
  to shared data: an atomic load, or one critical section of a mutex with the loads made under it.
  A mutex is held exactly at the program points \<open>holds_queue\<close> names, so it needs no field; the critical
  sections of \<open>stateMutex\<close> and of the GUI thread are single steps.

  The waits of \<open>StopSending\<close> that run out of their five seconds are steps too, and the model ends there:
  \<open>QThread::terminate\<close> stops a thread wherever it is, with its mutexes locked and its objects half written,
  so the state \<open>G_terminated\<close> has no successor and nothing is claimed about what follows it.

  Outside the program are the operating system and the Qt calls; \<open>os_env\<close> says what they return, by
  the number of the call where calls can differ. \<open>event\<close> records what a step did; the sleeps are
  events, their durations do not influence a step. \<open>double\<close> loss rates are exact rationals.
\<close>

section \<open>State\<close>

record ChannelContext =
  packetQueue :: "SendPacket list"
  enabled :: int
  lossRate :: rat

datatype SOCKET = Unset_socket | INVALID_SOCKET | Socket_handle nat

record sockaddr_in =
  sin_port :: u16
  sin_addr :: u32

datatype reader_pc =
    R_none       \<comment> \<open>no reader thread\<close>
  | R_open       \<comment> \<open>start of \<open>fileReaderTask\<close>\<close>
  | R_while      \<comment> \<open>condition of the outer loop\<close>
  | R_search     \<comment> \<open>condition and body of the search loop\<close>
  | R_nochannel  \<comment> \<open>no enabled channel was found\<close>
  | R_read       \<comment> \<open>reading a chunk and handing it to the FEC module\<close>
  | R_push       \<comment> \<open>moving the packets to the queue\<close>
  | R_wake       \<comment> \<open>\<open>wakeOne\<close> and the pause after a packet was queued\<close>
  | R_done

datatype worker_pc =
    W_none
  | W_top                              \<comment> \<open>condition of the outer loop\<close>
  | W_inner                            \<comment> \<open>condition of the queue wait loop, \<open>queueMutex\<close> held\<close>
  | W_asleep                           \<comment> \<open>in \<open>queueCondition.wait\<close>\<close>
  | W_run                              \<comment> \<open>\<open>if (!is_running) break\<close>, \<open>queueMutex\<close> held\<close>
  | W_enabled                          \<comment> \<open>test of \<open>enabled\<close>, then taking a packet, \<open>queueMutex\<close> held\<close>
  | W_state "SendPacket option"        \<comment> \<open>condition of the state wait loop\<close>
  | W_state_asleep "SendPacket option" \<comment> \<open>in \<open>stateCondition.wait\<close>\<close>
  | W_run2 "SendPacket option"
  | W_send "SendPacket option"         \<comment> \<open>phase 3: loss simulation and sequence number\<close>
  | W_out SendPacket                   \<comment> \<open>phase 3: serialisation and \<open>sendto\<close>\<close>
  | W_done

datatype gui_pc =
    G_idle
  | G_notify nat           \<comment> \<open>in \<open>channelStateChange\<close>, channel \<open>i\<close> enabled, before the \<open>wakeOne\<close>\<close>
  | G_wake_state nat bool  \<comment> \<open>in \<open>StopSending\<close>, before \<open>stateCondition.wakeAll\<close> of channel \<open>i\<close>; whether \<open>StartSending\<close> goes on after it\<close>
  | G_wake_queue nat bool  \<comment> \<open>in \<open>StopSending\<close>, before \<open>queueCondition.wakeAll\<close> of channel \<open>i\<close>\<close>
  | G_join nat bool        \<comment> \<open>in \<open>StopSending\<close>, that many threads still to be waited for\<close>
  | G_terminated           \<comment> \<open>a wait has run out and its thread was terminated\<close>

record server =
  sockets :: "SOCKET list"
  targetAddr :: "sockaddr_in list"
  currentFilePath :: string
  currentSocket :: int
  sysword :: int
  globalSeqCounter :: u8
  channels :: "ChannelContext list"
  workerThreads :: nat
  is_running :: bool
  fec :: fec_state
  \<comment> \<open>locals of the reader thread\<close>
  rd_pc :: reader_pc
  rd_file :: "u8 list"
  data_buf :: mem
  target_channel :: int
  search_start_index :: int
  search_attempts :: nat
  bytesRead :: nat
  fec_input_size :: nat
  \<comment> \<open>program points of the workers and of the GUI thread\<close>
  wk_pc :: "worker_pc list"
  gui :: gui_pc
  \<comment> \<open>the operating system: handles in use, Winsock references, calls so far\<close>
  live_handles :: "nat list"
  wsa_refs :: int
  n_threads :: nat
  n_reads :: nat
  n_sends :: nat
  n_draws :: "nat list"

record os_env =
  dchecks_on :: bool
  wsa_startup_ok :: bool
  socket_ok :: "nat \<Rightarrow> bool"
  inet_pton :: "string \<Rightarrow> u32 option"
  thread_ok :: "nat \<Rightarrow> bool"
  open_file :: "string \<Rightarrow> u8 list option"
  read_error :: "nat \<Rightarrow> bool"
  sendto_result :: "nat \<Rightarrow> int"
  draw :: "nat \<Rightarrow> nat \<Rightarrow> rat"

datatype event =
    Chunk_read "u8 list"
  | Spilled nat
  | Enqueued nat SendPacket
  | Paused nat
  | Dequeued nat SendPacket
  | Dropped nat SendPacket
  | Discarded nat SendPacket
  | Stamped nat SendPacket
  | Sent nat SendPacket mem int
  | Queues_cleared
  | Terminated nat

section \<open>Construction\<close>

text \<open>\<open>htons\<close> on a little-endian host.\<close>

definition htons :: "u16 \<Rightarrow> u16" where
  "htons w = push_bit 8 w OR drop_bit 8 w"

definition new_ChannelContext :: ChannelContext where
  "new_ChannelContext = \<lparr>packetQueue = [], enabled = 0, lossRate = 0\<rparr>"

text \<open>
  The loop of \<open>initializeSockets\<close>: on a failed \<open>socket\<close> call the handles made so far are closed
  (their array entries keep the value) and Winsock is released.
\<close>

fun open_sockets :: "os_env \<Rightarrow> nat \<Rightarrow> nat \<Rightarrow> server \<Rightarrow> server" where
  "open_sockets env i 0 s = s"
| "open_sockets env i (Suc n) s =
     (if socket_ok env i then
        open_sockets env (Suc i) n
          (s\<lparr>sockets := (sockets s)[i := Socket_handle i], live_handles := live_handles s @ [i]\<rparr>)
      else s\<lparr>sockets := (sockets s)[i := INVALID_SOCKET], live_handles := [], wsa_refs := wsa_refs s - 1\<rparr>)"

definition initializeSockets :: "os_env \<Rightarrow> server \<Rightarrow> server" where
  "initializeSockets env s =
     (if wsa_startup_ok env
      then open_sockets env 0 SOCKET_POOL_SIZE (s\<lparr>wsa_refs := wsa_refs s + 1\<rparr>)
      else s)"

definition new_Udpserver :: "os_env \<Rightarrow> string \<Rightarrow> int \<Rightarrow> server" where
  "new_Udpserver env dest_host baseport =
     initializeSockets env
       \<lparr>sockets = replicate SOCKET_POOL_SIZE Unset_socket,
        targetAddr = map (\<lambda>i. \<lparr>sin_port = htons (word_of_int (baseport + int i)),
                               sin_addr = (case inet_pton env dest_host of None \<Rightarrow> 0 | Some a \<Rightarrow> a)\<rparr>)
                       [0..<SOCKET_POOL_SIZE],
        currentFilePath = [], currentSocket = 0, sysword = 0, globalSeqCounter = 0,
        channels = replicate SOCKET_POOL_SIZE new_ChannelContext,
        workerThreads = 0, is_running = False, fec = new_ForwardErrorCorrection,
        rd_pc = R_none, rd_file = [], data_buf = replicate kMaxDataSize None, target_channel = - 1,
        search_start_index = 0, search_attempts = 0, bytesRead = 0, fec_input_size = 0,
        wk_pc = replicate SOCKET_POOL_SIZE W_none, gui = G_idle,
        live_handles = [], wsa_refs = 0, n_threads = 0, n_reads = 0, n_sends = 0,
        n_draws = replicate SOCKET_POOL_SIZE 0\<rparr>"

section \<open>Operations of the GUI thread\<close>

definition SetFileName :: "string \<Rightarrow> server \<Rightarrow> server" where
  "SetFileName filePath s = s\<lparr>currentFilePath := filePath\<rparr>"

definition update_channel :: "nat \<Rightarrow> (ChannelContext \<Rightarrow> ChannelContext) \<Rightarrow> server \<Rightarrow> server" where
  "update_channel i f s = s\<lparr>channels := (channels s)[i := f (channels s ! i)]\<rparr>"

text \<open>Waking a worker from one of its two condition variables.\<close>

definition wake_queue :: "nat \<Rightarrow> server \<Rightarrow> server" where
  "wake_queue i s =
     (case wk_pc s ! i of W_asleep \<Rightarrow> s\<lparr>wk_pc := (wk_pc s)[i := W_inner]\<rparr> | _ \<Rightarrow> s)"

definition wake_state :: "nat \<Rightarrow> server \<Rightarrow> server" where
  "wake_state i s =
     (case wk_pc s ! i of W_state_asleep x \<Rightarrow> s\<lparr>wk_pc := (wk_pc s)[i := W_state x]\<rparr> | _ \<Rightarrow> s)"

text \<open>
  \<open>channelStateChange\<close> exchanges the flag; when it enables the channel, the locked \<open>wakeOne\<close> is a later
  step of the GUI thread.
\<close>

definition channelStateChange :: "int \<Rightarrow> bool \<Rightarrow> server \<Rightarrow> server" where
  "channelStateChange channel state s =
     (if channel < 0 \<or> channel \<ge> int SOCKET_POOL_SIZE then s
      else
        let i = nat channel;
            new_state = (if state then 1 else 0);
            previous_state = enabled (channels s ! i);
            s1 = update_channel i (enabled_update (\<lambda>_. new_state)) s
        in if previous_state \<noteq> new_state \<and> state then s1\<lparr>gui := G_notify i\<rparr> else s1)"

definition notify_state :: "server \<Rightarrow> server" where
  "notify_state s = (case gui s of G_notify i \<Rightarrow> (wake_state i s)\<lparr>gui := G_idle\<rparr> | _ \<Rightarrow> s)"

definition setLossRate :: "int \<Rightarrow> rat \<Rightarrow> server \<Rightarrow> server" where
  "setLossRate channel rate s =
     (if channel \<ge> 0 \<and> channel < int SOCKET_POOL_SIZE
      then update_channel (nat channel) (lossRate_update (\<lambda>_. max 0 (min 1 rate))) s
      else s)"

text \<open>The head of \<open>StopSending\<close>; \<open>resume\<close> says that \<open>StartSending\<close> called it and goes on after it.\<close>

definition stop_begin :: "bool \<Rightarrow> server \<Rightarrow> server" where
  "stop_begin resume s =
     (if \<not> is_running s \<and> workerThreads s = 0 then s\<lparr>is_running := False\<rparr>
      else s\<lparr>is_running := False, gui := G_wake_state 0 resume\<rparr>)"

definition StopSending :: "server \<Rightarrow> server" where
  "StopSending s = stop_begin False s"

text \<open>Starting the workers from \<open>i\<close> on; a thread that cannot be created stops the others.\<close>

fun start_workers :: "os_env \<Rightarrow> nat \<Rightarrow> nat \<Rightarrow> server \<Rightarrow> server" where
  "start_workers env i 0 s = s"
| "start_workers env i (Suc n) s =
     (let s1 = s\<lparr>n_threads := n_threads s + 1\<rparr> in
      if thread_ok env (n_threads s) then
        start_workers env (Suc i) n
          (s1\<lparr>workerThreads := workerThreads s + 1, wk_pc := (wk_pc s)[i := W_top]\<rparr>)
      else stop_begin False s1)"

text \<open>\<open>StartSending\<close> after its guards: queues cleared, flags set, threads created.\<close>

definition start_rest :: "os_env \<Rightarrow> server \<Rightarrow> server \<times> event list" where
  "start_rest env s =
     (let s1 = s\<lparr>workerThreads := 0, channels := map (packetQueue_update (\<lambda>_. [])) (channels s),
                 is_running := True, currentSocket := 0, n_threads := n_threads s + 1\<rparr>
      in (if thread_ok env (n_threads s)
          then start_workers env 0 SOCKET_POOL_SIZE (s1\<lparr>workerThreads := 1, rd_pc := R_open\<rparr>)
          else s1\<lparr>is_running := False\<rparr>, [Queues_cleared]))"

definition StartSending :: "os_env \<Rightarrow> server \<Rightarrow> server \<times> event list" where
  "StartSending env s =
     (if currentFilePath s = [] then (s, [])
      else if is_running s then (s, [])
      else if workerThreads s \<noteq> 0 then (stop_begin True s, [])
      else start_rest env s)"

section \<open>The rest of \<open>StopSending\<close>\<close>

definition holds_queue :: "worker_pc \<Rightarrow> bool" where
  "holds_queue pc \<longleftrightarrow> pc = W_inner \<or> pc = W_run \<or> pc = W_enabled"

text \<open>
  The two critical sections of the loop body for channel \<open>i\<close>; the second is blocked while the worker
  holds \<open>queueMutex\<close>. After the last channel the threads are waited for.
\<close>

definition stop_wake :: "server \<Rightarrow> server" where
  "stop_wake s =
     (case gui s of
        G_wake_state i resume \<Rightarrow>
          if i < SOCKET_POOL_SIZE then (wake_state i s)\<lparr>gui := G_wake_queue i resume\<rparr>
          else s\<lparr>gui := G_join (workerThreads s) resume\<rparr>
      | G_wake_queue i resume \<Rightarrow>
          if holds_queue (wk_pc s ! i) then s
          else (wake_queue i s)\<lparr>gui := G_wake_state (Suc i) resume\<rparr>
      | _ \<Rightarrow> s)"

text \<open>
  The threads in \<open>workerThreads\<close>: the reader at index 0, then the workers. The loop goes from the last
  one down; \<open>wait\<close> returns when the thread has finished.
\<close>

definition worker_ended :: "worker_pc \<Rightarrow> bool" where
  "worker_ended pc \<longleftrightarrow> pc = W_none \<or> pc = W_done"

definition thread_finished :: "nat \<Rightarrow> server \<Rightarrow> bool" where
  "thread_finished k s =
     (if k = 0 then rd_pc s = R_none \<or> rd_pc s = R_done else worker_ended (wk_pc s ! (k - 1)))"

definition stop_join :: "server \<Rightarrow> server" where
  "stop_join s =
     (case gui s of
        G_join n resume \<Rightarrow>
          (case n of 0 \<Rightarrow> s | Suc k \<Rightarrow> if thread_finished k s then s\<lparr>gui := G_join k resume\<rparr> else s)
      | _ \<Rightarrow> s)"

text \<open>
  The end of \<open>StopSending\<close>, when all threads have finished and are deleted: sockets are closed and
  Winsock is released. Then the caller goes on.
\<close>

definition close_socket :: "SOCKET \<Rightarrow> nat list \<Rightarrow> nat list" where
  "close_socket so live = (case so of Socket_handle h \<Rightarrow> filter (\<lambda>x. x \<noteq> h) live | _ \<Rightarrow> live)"

definition stop_cleanup :: "server \<Rightarrow> server" where
  "stop_cleanup s =
     s\<lparr>workerThreads := 0, rd_pc := R_none, wk_pc := map (\<lambda>_. W_none) (wk_pc s),
       live_handles := fold close_socket (sockets s) (live_handles s),
       sockets := map (\<lambda>_. INVALID_SOCKET) (sockets s), wsa_refs := wsa_refs s - 1, gui := G_idle\<rparr>"

definition stop_finish :: "os_env \<Rightarrow> server \<Rightarrow> server \<times> event list" where
  "stop_finish env s =
     (case gui s of
        G_join n resume \<Rightarrow>
          if n = 0 then if resume then start_rest env (stop_cleanup s) else (stop_cleanup s, [])
          else (s, [])
      | _ \<Rightarrow> (s, []))"

text \<open>The packet a worker has taken from its queue and not yet dealt with.\<close>

definition in_flight :: "worker_pc \<Rightarrow> SendPacket option" where
  "in_flight pc =
     (case pc of W_state x \<Rightarrow> x | W_state_asleep x \<Rightarrow> x | W_run2 x \<Rightarrow> x | W_send x \<Rightarrow> x
      | W_out sp \<Rightarrow> Some sp | _ \<Rightarrow> None)"

section \<open>The reader thread\<close>

text \<open>Microseconds of sleep after each queued packet.\<close>

definition sleep_duration_us :: "nat \<Rightarrow> nat" where
  "sleep_duration_us n = (n * 8 * 1000000) div 30000000"

definition make_SendPacket :: "packet \<Rightarrow> int \<Rightarrow> nat \<Rightarrow> SendPacket" where
  "make_SendPacket p target payload =
     \<lparr>packet_to_send = Some p, crc32 = 0, stream_type = 1, channel_index = word_of_int target,
      seq = 1, actual_payload_size = payload\<rparr>"

text \<open>Reading a chunk into \<open>data_buf\<close>, wrapping it, and the call of \<open>PacketByFEC\<close>.\<close>

definition read_chunk :: "os_env \<Rightarrow> server \<Rightarrow> (server \<times> event list) res" where
  "read_chunk env s =
     (let s0 = s\<lparr>n_reads := n_reads s + 1\<rparr> in
      if read_error env (n_reads s) then Inr (s0\<lparr>rd_pc := R_done\<rparr>, [])
      else
        let c = take readChunkSize (rd_file s); n = length c in
        bind_res (mem_store ''data_buf'' 0 (mem_of c) (data_buf s)) (\<lambda>buf.
          let (flightpkt, spill) = make_flightpkt (word_of_int (sysword s)) buf;
              input_size = flightpkt_header_size + n
          in bind_res (make_fec_input flightpkt input_size) (\<lambda>input.
             bind_res (PacketByFEC (dchecks_on env) input (int input_size) fec_k fec_r (fec s)) (\<lambda>f.
               Inr (s0\<lparr>rd_file := drop readChunkSize (rd_file s), data_buf := buf, bytesRead := n,
                       fec_input_size := input_size, fec := f, rd_pc := R_push\<rparr>,
                    [Chunk_read c, Spilled spill])))))"

definition reader_step :: "os_env \<Rightarrow> server \<Rightarrow> (server \<times> event list) res" where
  "reader_step env s =
     (case rd_pc s of
        R_none \<Rightarrow> Inr (s, [])
      | R_open \<Rightarrow>
          (if currentFilePath s = [] then Inr (s\<lparr>is_running := False, rd_pc := R_done\<rparr>, [])
           else case open_file env (currentFilePath s) of
                  None \<Rightarrow> Inr (s\<lparr>is_running := False, rd_pc := R_done\<rparr>, [])
                | Some bytes \<Rightarrow>
                    Inr (s\<lparr>rd_file := bytes, data_buf := replicate kMaxDataSize None, rd_pc := R_while\<rparr>, []))
      | R_while \<Rightarrow>
          (if is_running s \<and> rd_file s \<noteq> []
           then Inr (s\<lparr>target_channel := - 1, search_start_index := currentSocket s,
                       search_attempts := 0, rd_pc := R_search\<rparr>, [])
           else Inr (s\<lparr>rd_pc := R_done\<rparr>, []))
      | R_search \<Rightarrow>
          (if search_attempts s < SOCKET_POOL_SIZE \<and> is_running s then
             let current_index = search_start_index s mod int SOCKET_POOL_SIZE in
             if enabled (channels s ! nat current_index) = 1
             then Inr (s\<lparr>target_channel := current_index,
                         currentSocket := (current_index + 1) mod int SOCKET_POOL_SIZE,
                         rd_pc := R_read\<rparr>, [])
             else Inr (s\<lparr>search_start_index := search_start_index s + 1,
                         search_attempts := search_attempts s + 1\<rparr>, [])
           else Inr (s\<lparr>rd_pc := R_nochannel\<rparr>, []))
      | R_nochannel \<Rightarrow>
          (if \<not> is_running s then Inr (s\<lparr>rd_pc := R_done\<rparr>, [])
           else Inr (s\<lparr>rd_pc := R_while\<rparr>, [Paused 10000]))
      | R_read \<Rightarrow> read_chunk env s
      | R_push \<Rightarrow>
          (case buffer_packets (fec s) of
             [] \<Rightarrow> Inr (s\<lparr>rd_pc := R_while\<rparr>, [])
           | p # ps \<Rightarrow>
               let i = nat (target_channel s);
                   sendPkt = make_SendPacket p (target_channel s) (fec_input_size s)
               in if i < length (channels s) then
                    if holds_queue (wk_pc s ! i) then Inr (s, [])
                    else Inr ((update_channel i (\<lambda>c. c\<lparr>packetQueue := packetQueue c @ [sendPkt]\<rparr>) s)
                           \<lparr>fec := (fec s)\<lparr>buffer_packets := ps\<rparr>, rd_pc := R_wake\<rparr>, [Enqueued i sendPkt])
                  else Inl (Out_of_bounds ''channels''))
      | R_wake \<Rightarrow>
          (let us = sleep_duration_us (bytesRead s) in
           Inr ((wake_queue (nat (target_channel s)) s)\<lparr>rd_pc := R_push\<rparr>,
                if us > 0 then [Paused us] else []))
      | R_done \<Rightarrow> Inr (s, []))"

section \<open>A worker thread\<close>

definition goto :: "nat \<Rightarrow> worker_pc \<Rightarrow> server \<Rightarrow> server" where
  "goto i pc s = s\<lparr>wk_pc := (wk_pc s)[i := pc]\<rparr>"

text \<open>\<open>sendto\<close> on the socket of channel \<open>i\<close>: \<open>SOCKET_ERROR\<close> unless its handle is open.\<close>

definition socket_send :: "os_env \<Rightarrow> nat \<Rightarrow> server \<Rightarrow> int" where
  "socket_send env i s =
     (case sockets s ! i of
        Socket_handle h \<Rightarrow> if h \<in> set (live_handles s) then sendto_result env (n_sends s) else - 1
      | _ \<Rightarrow> - 1)"

text \<open>
  Phase 3 of the loop body for a packet taken from the queue: the validity test, the simulated
  loss, the sequence number; then the serialisation and the datagram.
\<close>

definition stamp_packet :: "os_env \<Rightarrow> nat \<Rightarrow> SendPacket \<Rightarrow> server \<Rightarrow> server \<times> event list" where
  "stamp_packet env i sp s =
     (if packet_to_send sp = None \<or> actual_payload_size sp = 0 then (goto i W_top s, [Discarded i sp])
      else
        let rate = lossRate (channels s ! i);
            s1 = (if rate > 0 then s\<lparr>n_draws := (n_draws s)[i := n_draws s ! i + 1]\<rparr> else s)
        in if rate > 0 \<and> draw env i (n_draws s ! i) < rate then (goto i W_top s1, [Dropped i sp])
           else
             let sp1 = sp\<lparr>seq := globalSeqCounter s1\<rparr>
             in (goto i (W_out sp1) (s1\<lparr>globalSeqCounter := globalSeqCounter s1 + 1\<rparr>), [Stamped i sp1]))"

definition send_packet_out :: "os_env \<Rightarrow> nat \<Rightarrow> SendPacket \<Rightarrow> server \<Rightarrow> (server \<times> event list) res" where
  "send_packet_out env i sp s =
     (case packet_to_send sp of
        None \<Rightarrow> Inl (Out_of_bounds ''packet_to_send'')
      | Some p \<Rightarrow>
          bind_res (fill_datagram p sp) (\<lambda>(bytes_serialized, send_buffer).
            if bytes_serialized = actual_payload_size sp + fec_header_size then
              bind_res (mem_load ''send_buffer'' 0 total_length send_buffer) (\<lambda>cells.
                Inr (goto i W_top (s\<lparr>n_sends := n_sends s + 1\<rparr>), [Sent i sp cells (socket_send env i s)]))
            else Inr (goto i W_top s, [Discarded i sp])))"

definition worker_step :: "os_env \<Rightarrow> nat \<Rightarrow> server \<Rightarrow> (server \<times> event list) res" where
  "worker_step env i s =
     (let ctx = channels s ! i in
      case wk_pc s ! i of
        W_none \<Rightarrow> Inr (s, [])
      | W_top \<Rightarrow> Inr (goto i (if is_running s then W_inner else W_done) s, [])
      | W_inner \<Rightarrow>
          Inr (goto i (if is_running s \<and> enabled ctx = 1 \<and> packetQueue ctx = [] then W_asleep else W_run) s, [])
      | W_asleep \<Rightarrow> Inr (s, [])
      | W_run \<Rightarrow> Inr (goto i (if is_running s then W_enabled else W_done) s, [])
      | W_enabled \<Rightarrow>
          (if enabled ctx = 0 then Inr (goto i W_top s, [])
           else case packetQueue ctx of
                  [] \<Rightarrow> Inr (goto i (W_state None) s, [])
                | sp # rest \<Rightarrow>
                    Inr (goto i (W_state (Some sp)) (update_channel i (packetQueue_update (\<lambda>_. rest)) s),
                         [Dequeued i sp]))
      | W_state x \<Rightarrow> Inr (goto i (if is_running s \<and> enabled ctx = 0 then W_state_asleep x else W_run2 x) s, [])
      | W_state_asleep x \<Rightarrow> Inr (s, [])
      | W_run2 x \<Rightarrow>
          (if is_running s then Inr (goto i (W_send x) s, [])
           else Inr (goto i W_done s, case x of None \<Rightarrow> [] | Some sp \<Rightarrow> [Discarded i sp]))
      | W_send x \<Rightarrow>
          (case x of
             None \<Rightarrow> Inr (goto i W_top s, [])
           | Some sp \<Rightarrow> Inr (stamp_packet env i sp s))
      | W_out sp \<Rightarrow> send_packet_out env i sp s
      | W_done \<Rightarrow> Inr (s, []))"

section \<open>The system\<close>

text \<open>
  Interleavings of the reader, the workers and the GUI thread. The GUI thread calls an operation
  only while it is not inside another; a sleeping worker may wake spuriously; a wait of \<open>StopSending\<close>
  may run out while its thread has not finished, which ends the run.
\<close>

fun in_stop :: "gui_pc \<Rightarrow> bool" where
  "in_stop (G_wake_state i b) = True"
| "in_stop (G_wake_queue i b) = True"
| "in_stop (G_join n b) = True"
| "in_stop g = False"

inductive server_step :: "os_env \<Rightarrow> server \<Rightarrow> event list \<Rightarrow> server \<Rightarrow> bool" for env :: os_env where
  reader: "reader_step env s = Inr (s', evs) \<Longrightarrow> gui s \<noteq> G_terminated \<Longrightarrow> server_step env s evs s'"
| worker: "i < SOCKET_POOL_SIZE \<Longrightarrow> worker_step env i s = Inr (s', evs) \<Longrightarrow> gui s \<noteq> G_terminated \<Longrightarrow> server_step env s evs s'"
| spurious_queue: "i < SOCKET_POOL_SIZE \<Longrightarrow> gui s \<noteq> G_terminated \<Longrightarrow> server_step env s [] (wake_queue i s)"
| spurious_state: "i < SOCKET_POOL_SIZE \<Longrightarrow> gui s \<noteq> G_terminated \<Longrightarrow> server_step env s [] (wake_state i s)"
| set_file: "gui s = G_idle \<Longrightarrow> server_step env s [] (SetFileName path s)"
| channel_state: "gui s = G_idle \<Longrightarrow> server_step env s [] (channelStateChange channel on s)"
| loss_rate: "gui s = G_idle \<Longrightarrow> server_step env s [] (setLossRate channel rate s)"
| start: "gui s = G_idle \<Longrightarrow> StartSending env s = (s', evs) \<Longrightarrow> server_step env s evs s'"
| stop: "gui s = G_idle \<Longrightarrow> server_step env s [] (StopSending s)"
| notify: "gui s = G_notify i \<Longrightarrow> server_step env s [] (notify_state s)"
| stop_waking: "in_stop (gui s) \<Longrightarrow> server_step env s [] (stop_wake s)"
| stop_joining: "in_stop (gui s) \<Longrightarrow> server_step env s [] (stop_join s)"
| stop_joined: "in_stop (gui s) \<Longrightarrow> stop_finish env s = (s', evs) \<Longrightarrow> server_step env s evs s'"
| stop_timeout: "gui s = G_join (Suc k) resume \<Longrightarrow> \<not> thread_finished k s \<Longrightarrow>
    server_step env s [Terminated k] (s\<lparr>gui := G_terminated\<rparr>)"

inductive_cases server_stepE: "server_step env s evs s'"

end
