(* ===== verification/Server_Safety.thy ===== *)
theory Server_Safety
  imports Udp_Server
begin

text \<open>
  Safety of the server: an invariant of all interleavings of its threads, from which no step can fail
  a check, leave the bounds of an object or read an unwritten byte (apart from the copy into
  \<open>videoData\<close>, whose excess the model counts).
\<close>

section \<open>The invariant\<close>

definition sp_ok :: "nat \<Rightarrow> SendPacket \<Rightarrow> bool" where
  "sp_ok i sp \<longleftrightarrow>
     (\<exists>p. packet_to_send sp = Some p \<and> length (pkt_data p) = kMaxDataSize) \<and>
     15 < actual_payload_size sp \<and> actual_payload_size sp \<le> 1024 \<and>
     crc32 sp = 0 \<and> stream_type sp = 1 \<and> channel_index sp = of_nat i"

definition chan_ok :: "nat \<Rightarrow> ChannelContext \<Rightarrow> bool" where
  "chan_ok i c \<longleftrightarrow> (enabled c = 0 \<or> enabled c = 1) \<and> 0 \<le> lossRate c \<and> lossRate c \<le> 1 \<and>
     (\<forall>sp \<in> set (packetQueue c). sp_ok i sp)"

definition pc_ok :: "nat \<Rightarrow> worker_pc \<Rightarrow> bool" where
  "pc_ok i pc \<longleftrightarrow> (\<forall>sp. in_flight pc = Some sp \<longrightarrow> sp_ok i sp)"

definition fec_ok :: "fec_state \<Rightarrow> bool" where
  "fec_ok f \<longleftrightarrow>
     (\<exists>n g ds. fec_rel 10 2 n g ds f \<and> n \<le> 1024 \<and> (fec_first_use f \<longrightarrow> ds = [])) \<and>
     (\<forall>p \<in> set (buffer_packets f). length (pkt_data p) = kMaxDataSize)"

definition reader_ok :: "server \<Rightarrow> bool" where
  "reader_ok s \<longleftrightarrow>
     (rd_pc s = R_search \<longrightarrow> 0 \<le> search_start_index s \<and> rd_file s \<noteq> []) \<and>
     (rd_pc s = R_read \<longrightarrow> rd_file s \<noteq> []) \<and>
     (rd_pc s \<in> {R_read, R_push, R_wake} \<longrightarrow> 0 \<le> target_channel s \<and> target_channel s < 3) \<and>
     (rd_pc s \<in> {R_push, R_wake} \<longrightarrow> 15 < fec_input_size s \<and> fec_input_size s \<le> 1024)"

definition server_inv :: "server \<Rightarrow> bool" where
  "server_inv s \<longleftrightarrow>
     length (channels s) = 3 \<and> length (wk_pc s) = 3 \<and> length (sockets s) = 3 \<and> length (n_draws s) = 3 \<and>
     length (data_buf s) = kMaxDataSize \<and> 0 \<le> currentSocket s \<and> currentSocket s < 3 \<and>
     (\<forall>i < 3. chan_ok i (channels s ! i)) \<and> (\<forall>i < 3. pc_ok i (wk_pc s ! i)) \<and>
     fec_ok (fec s) \<and> reader_ok s"

lemma fec_ok_new: "fec_ok new_ForwardErrorCorrection"
  using fec_rel_new [of 10 2 0] by (auto simp: fec_ok_def new_ForwardErrorCorrection_def)

lemma open_sockets_fields [simp]:
  "channels (open_sockets env i n s) = channels s" "wk_pc (open_sockets env i n s) = wk_pc s"
  "length (sockets (open_sockets env i n s)) = length (sockets s)"
  "n_draws (open_sockets env i n s) = n_draws s" "data_buf (open_sockets env i n s) = data_buf s"
  "currentSocket (open_sockets env i n s) = currentSocket s" "fec (open_sockets env i n s) = fec s"
  "rd_pc (open_sockets env i n s) = rd_pc s" "is_running (open_sockets env i n s) = is_running s"
  "gui (open_sockets env i n s) = gui s" "globalSeqCounter (open_sockets env i n s) = globalSeqCounter s"
  "workerThreads (open_sockets env i n s) = workerThreads s"
  by (induction n arbitrary: i s) simp_all

lemma server_inv_new: "server_inv (new_Udpserver env host port)"
proof -
  have "chan_ok i new_ChannelContext" "pc_ok i W_none" for i
    by (simp_all add: chan_ok_def new_ChannelContext_def pc_ok_def in_flight_def)
  then show ?thesis
    using fec_ok_new by (simp add: server_inv_def new_Udpserver_def initializeSockets_def SOCKET_POOL_SIZE_def
        reader_ok_def nth_replicate)
qed

section \<open>Operations of the GUI thread\<close>

lemma pc_ok_simple [simp]:
  "pc_ok i W_none" "pc_ok i W_top" "pc_ok i W_inner" "pc_ok i W_asleep" "pc_ok i W_run" "pc_ok i W_enabled"
  "pc_ok i W_done" "pc_ok i (W_state None)" "pc_ok i (W_state_asleep None)" "pc_ok i (W_run2 None)" "pc_ok i (W_send None)"
  "pc_ok i (W_state x) = pc_ok i (W_send x)" "pc_ok i (W_state_asleep x) = pc_ok i (W_send x)"
  "pc_ok i (W_run2 x) = pc_ok i (W_send x)" "pc_ok i (W_send (Some sp)) = sp_ok i sp" "pc_ok i (W_out sp) = sp_ok i sp"
  by (auto simp: pc_ok_def in_flight_def)

text \<open>Replacing one program point, or one channel, keeps the invariant when the new value is fine.\<close>

lemma goto_inv: "server_inv s \<Longrightarrow> pc_ok i pc \<Longrightarrow> server_inv (goto i pc s)"
  unfolding server_inv_def using all_nth_update [of 3 pc_ok "wk_pc s" i pc]
  by (simp add: goto_def reader_ok_def)

lemma update_channel_inv_at:
  "server_inv s \<Longrightarrow> (i < 3 \<Longrightarrow> chan_ok i (f (channels s ! i))) \<Longrightarrow> server_inv (update_channel i f s)"
  unfolding server_inv_def using all_nth_update [of 3 chan_ok "channels s" i "f (channels s ! i)"]
  by (simp add: update_channel_def reader_ok_def)

lemma update_channel_inv:
  "server_inv s \<Longrightarrow> (\<And>c. chan_ok i c \<Longrightarrow> chan_ok i (f c)) \<Longrightarrow> server_inv (update_channel i f s)"
  by (rule update_channel_inv_at) (simp_all add: server_inv_def)

lemma wake_queue_inv: "server_inv s \<Longrightarrow> server_inv (wake_queue i s)"
  using goto_inv [of s i W_inner] by (auto simp: wake_queue_def goto_def split: worker_pc.splits)

lemma wake_state_inv: "server_inv s \<Longrightarrow> i < 3 \<Longrightarrow> server_inv (wake_state i s)"
  using goto_inv [of s i "W_state x" for x]
  by (auto simp: wake_state_def goto_def server_inv_def split: worker_pc.splits)

lemma SetFileName_inv: "server_inv s \<Longrightarrow> server_inv (SetFileName p s)"
  by (simp add: server_inv_def SetFileName_def reader_ok_def)

lemma gui_inv [simp]: "server_inv (s\<lparr>gui := g\<rparr>) = server_inv s"
  by (simp add: server_inv_def reader_ok_def)

lemma channelStateChange_inv: "server_inv s \<Longrightarrow> server_inv (channelStateChange c on s)"
  unfolding channelStateChange_def Let_def
  by (auto simp: SOCKET_POOL_SIZE_def intro!: update_channel_inv) (auto simp: chan_ok_def)

lemma setLossRate_inv: "server_inv s \<Longrightarrow> server_inv (setLossRate c r s)"
  unfolding setLossRate_def by (auto simp: SOCKET_POOL_SIZE_def chan_ok_def intro!: update_channel_inv)

lemma stop_begin_inv: "server_inv s \<Longrightarrow> server_inv (stop_begin b s)"
  by (simp add: stop_begin_def server_inv_def reader_ok_def)

lemma start_workers_inv: "server_inv s \<Longrightarrow> server_inv (start_workers env i n s)"
proof (induction n arbitrary: i s)
  case (Suc n)
  have "server_inv (goto i W_top s)" using Suc.prems by (rule goto_inv) simp
  then have "server_inv (s\<lparr>n_threads := n_threads s + 1, workerThreads := workerThreads s + 1, wk_pc := (wk_pc s)[i := W_top]\<rparr>)"
    by (simp add: server_inv_def reader_ok_def goto_def)
  moreover have "server_inv (s\<lparr>n_threads := n_threads s + 1\<rparr>)"
    using Suc.prems by (simp add: server_inv_def reader_ok_def)
  ultimately show ?case using Suc.IH by (simp add: stop_begin_inv Let_def)
qed simp

lemma start_rest_inv: "server_inv s \<Longrightarrow> start_rest env s = (s', evs) \<Longrightarrow> server_inv s'"
proof -
  assume s: "server_inv s" and eq: "start_rest env s = (s', evs)"
  let ?s1 = "s\<lparr>workerThreads := 0, channels := map (packetQueue_update (\<lambda>_. [])) (channels s),
                 is_running := True, currentSocket := 0, n_threads := n_threads s + 1\<rparr>"
  have "server_inv (?s1\<lparr>workerThreads := 1, rd_pc := R_open\<rparr>)" "server_inv (?s1\<lparr>is_running := False\<rparr>)"
    using s by (simp_all add: server_inv_def reader_ok_def chan_ok_def)
  then show ?thesis using eq start_workers_inv by (auto simp: start_rest_def Let_def split: if_splits)
qed

lemma StartSending_inv: "server_inv s \<Longrightarrow> StartSending env s = (s', evs) \<Longrightarrow> server_inv s'"
  by (auto simp: StartSending_def stop_begin_inv start_rest_inv split: if_splits)

lemma stop_wake_inv: "server_inv s \<Longrightarrow> server_inv (stop_wake s)"
  by (auto simp: stop_wake_def SOCKET_POOL_SIZE_def wake_queue_inv wake_state_inv split: gui_pc.splits)

lemma stop_join_inv: "server_inv s \<Longrightarrow> server_inv (stop_join s)"
  by (auto simp: stop_join_def split: gui_pc.splits nat.splits)

lemma notify_state_inv: "server_inv s \<Longrightarrow> server_inv (notify_state s)"
proof (cases "gui s")
  case (G_notify i)
  assume "server_inv s"
  then have "server_inv (wake_state i s)"
    by (cases "i < 3") (auto simp: wake_state_inv, auto simp: wake_state_def server_inv_def list_update_beyond reader_ok_def split: worker_pc.splits)
  then show ?thesis by (simp add: notify_state_def G_notify)
qed (simp_all add: notify_state_def)

lemma stop_finish_cases:
  assumes "stop_finish env s = (s', evs)"
  obtains (waiting) "s' = s" "evs = []"
    | (stopped) "gui s = G_join 0 False" "s' = stop_cleanup s" "evs = []"
    | (restarted) "gui s = G_join 0 True" "start_rest env (stop_cleanup s) = (s', evs)"
  using assms by (auto simp: stop_finish_def split: gui_pc.splits if_splits)

lemma stop_cleanup_inv: "server_inv s \<Longrightarrow> server_inv (stop_cleanup s)"
  by (simp add: stop_cleanup_def server_inv_def reader_ok_def)

lemma stop_finish_inv: "server_inv s \<Longrightarrow> stop_finish env s = (s', evs) \<Longrightarrow> server_inv s'"
  by (erule stop_finish_cases) (auto intro: stop_cleanup_inv start_rest_inv)

section \<open>The reader\<close>

lemma fec_rel_first_use:
  "fec_rel k r n g [] f \<Longrightarrow> fec_first_use f \<Longrightarrow> fec_rel k r n' g [] f"
  by (simp add: fec_rel_def group_data_def)

text \<open>The bytes that the reader hands to the FEC module for a chunk.\<close>

definition flight_payload :: "int \<Rightarrow> u8 list \<Rightarrow> u8 list" where
  "flight_payload w c = flight_header (word_of_int w) @ c"

lemma PacketByFEC_chunk:
  assumes rel: "fec_rel 10 2 n g ds f" and n: "n \<le> 1024" and first: "fec_first_use f \<longrightarrow> ds = []"
    and c: "length c \<le> 1009"
    and "m = (if fec_first_use f then 15 + length c else n)"
  shows "\<exists>f'. PacketByFEC d (mem_of (flight_payload w c) @ replicate (2000 - (15 + length c)) None)
      (int (15 + length c)) fec_k fec_r f = Inr f' \<and>
    buffer_packets f' = buffer_packets f @ emitted 10 2 g ds (pad_payload m (flight_payload w c)) \<and>
    (case next_group 10 g ds (pad_payload m (flight_payload w c)) of (g', ds') \<Rightarrow> fec_rel 10 2 m g' ds' f') \<and>
    \<not> fec_first_use f'"
proof -
  have rel': "fec_rel 10 2 m g ds f" and m: "m \<le> kMaxDataSize" "m \<le> 1024"
    using rel fec_rel_first_use [of 10 2 n g f m] first n c assms(5) by (auto simp: kMaxDataSize_def)
  have len: "length (flight_payload w c) = 15 + length c" by (simp add: flight_payload_def)
  have "length (flight_payload w c) \<le> kMaxDataSize" "fec_first_use f \<longrightarrow> length (flight_payload w c) = m"
    "m \<le> length (flight_payload w c) + length (replicate (2000 - (15 + length c)) (None :: u8 option))"
    using m c assms(5) by (simp_all add: len kMaxDataSize_def)
  note fits = this
  have k: "2 \<le> (10::nat)" "10 \<le> (16::nat)" by simp_all
  from PacketByFEC_eq [OF rel' k m(1) fits, of d] obtain f' where f': "PacketByFEC d (mem_of (flight_payload w c) @ replicate (2000 - (15 + length c)) None)
      (int (15 + length c)) (int 10) (int 2) f = Inr f'"
    "buffer_packets f' = buffer_packets f @ emitted 10 2 g ds (pad_payload m (flight_payload w c))"
    "case next_group 10 g ds (pad_payload m (flight_payload w c)) of (g', ds') \<Rightarrow> fec_rel 10 2 m g' ds' f'"
    "\<not> fec_first_use f'"
    unfolding len by (elim exE conjE) (rule that)
  moreover have "int 10 = fec_k" "int 2 = fec_r" by (simp_all add: fec_k_def fec_r_def)
  ultimately show ?thesis by (intro exI [of _ f'] conjI) (simp_all only: not_False_eq_True)
qed

lemma PacketByFEC_fec_ok:
  assumes ok: "fec_ok f" and c: "length c \<le> 1009"
  shows "\<exists>f'. PacketByFEC d (mem_of (flight_payload w c) @ replicate (2000 - (15 + length c)) None)
      (int (15 + length c)) fec_k fec_r f = Inr f' \<and> fec_ok f'"
proof -
  from ok obtain n g ds where rel: "fec_rel 10 2 n g ds f" "n \<le> 1024" "fec_first_use f \<longrightarrow> ds = []"
    by (auto simp: fec_ok_def)
  let ?m = "if fec_first_use f then 15 + length c else n"
  let ?d = "pad_payload ?m (flight_payload w c)"
  obtain f' where f': "PacketByFEC d (mem_of (flight_payload w c) @ replicate (2000 - (15 + length c)) None)
      (int (15 + length c)) fec_k fec_r f = Inr f'"
    "buffer_packets f' = buffer_packets f @ emitted 10 2 g ds ?d"
    "case next_group 10 g ds ?d of (g', ds') \<Rightarrow> fec_rel 10 2 ?m g' ds' f'" "\<not> fec_first_use f'"
    using PacketByFEC_chunk [OF rel c refl, of d w] by (elim exE conjE) (rule that)
  have m: "?m \<le> 1024" "?m \<le> kMaxDataSize" using rel(2) c by (simp_all add: kMaxDataSize_def)
  have "\<forall>d \<in> set ds. padded ?m d" using rel by (auto simp: fec_rel_def)
  then have "padded ?m (pkt_data p)" if "p \<in> set (emitted 10 2 g ds ?d)" for p
    using that m(2) padded_emitted [of ?m ?d ds p 10 2 g] by (simp add: padded_pad_payload)
  then have "length (pkt_data p) = kMaxDataSize" if "p \<in> set (emitted 10 2 g ds ?d)" for p
    using that by (simp add: padded_def)
  moreover obtain g' ds' where "fec_rel 10 2 ?m g' ds' f'"
    using f'(3) by (cases "next_group 10 g ds ?d") auto
  ultimately have "fec_ok f'"
    using ok f'(2,4) m(1) unfolding fec_ok_def by auto
  with f'(1) show ?thesis by blast
qed

lemma read_chunk_eq:
  assumes "server_inv s" "rd_pc s = R_read" "\<not> read_error env (n_reads s)"
  defines "c \<equiv> take readChunkSize (rd_file s)"
  shows "\<exists>f buf. PacketByFEC (dchecks_on env) (mem_of (flight_payload (sysword s) c) @
        replicate (2000 - (15 + length c)) None) (int (15 + length c)) fec_k fec_r (fec s) = Inr f \<and>
    fec_ok f \<and> length buf = kMaxDataSize \<and> 0 < length c \<and> length c \<le> 1009 \<and>
    read_chunk env s = Inr (s\<lparr>n_reads := n_reads s + 1, rd_file := drop readChunkSize (rd_file s), data_buf := buf,
        bytesRead := length c, fec_input_size := 15 + length c, fec := f, rd_pc := R_push\<rparr>,
      [Chunk_read c, Spilled 991])"
proof -
  have c: "length c \<le> 1009" "0 < length c"
    using assms by (auto simp: readChunkSize_def server_inv_def reader_ok_def)
  let ?buf = "mem_of c @ drop (length c) (data_buf s)"
  have buf: "length (data_buf s) = 2000" using assms by (simp add: server_inv_def kMaxDataSize_def)
  then have store: "mem_store ''data_buf'' 0 (mem_of c) (data_buf s) = Inr ?buf"
    using c by (simp add: mem_store_def)
  obtain v spill where v: "make_flightpkt (word_of_int (sysword s)) ?buf = (v, spill)" by fastforce
  have input: "make_fec_input v (15 + length c) =
      Inr (mem_of (flight_payload (sysword s) c) @ replicate (2000 - (15 + length c)) None)" and spill: "spill = 991"
    using make_fec_input_eq [OF c(1) _ v] buf c by (simp_all add: flight_payload_def)
  obtain f where f: "PacketByFEC (dchecks_on env) (mem_of (flight_payload (sysword s) c) @
        replicate (2000 - (15 + length c)) None) (int (15 + length c)) fec_k fec_r (fec s) = Inr f" "fec_ok f"
    using PacketByFEC_fec_ok [OF _ c(1), of "fec s" "dchecks_on env" "sysword s"] assms(1) by (auto simp: server_inv_def)
  have "length ?buf = kMaxDataSize" using buf c by (simp add: kMaxDataSize_def)
  moreover have "read_chunk env s = Inr (s\<lparr>n_reads := n_reads s + 1, rd_file := drop readChunkSize (rd_file s),
        data_buf := ?buf, bytesRead := length c, fec_input_size := 15 + length c, fec := f, rd_pc := R_push\<rparr>,
      [Chunk_read c, Spilled 991])"
    unfolding read_chunk_def Let_def using assms(3) store v input f(1) spill
    by (simp add: c_def [symmetric] flightpkt_header_size_def)
  ultimately show ?thesis using f c by blast
qed

lemma server_inv_reader_locals:
  assumes "server_inv s"
  shows "server_inv (s\<lparr>rd_pc := R_done\<rparr>)" "server_inv (s\<lparr>is_running := b, rd_pc := R_done\<rparr>)"
    "server_inv (s\<lparr>n_reads := n, rd_pc := R_done\<rparr>)" "server_inv (s\<lparr>rd_pc := R_nochannel\<rparr>)"
    "server_inv (s\<lparr>rd_pc := R_while\<rparr>)"
    "server_inv (s\<lparr>rd_file := x, data_buf := replicate kMaxDataSize None, rd_pc := R_while\<rparr>)"
  using assms by (simp_all add: server_inv_def reader_ok_def)

lemma reader_step_inv:
  assumes s: "server_inv s"
  shows "\<exists>s' evs. reader_step env s = Inr (s', evs) \<and> server_inv s'"
proof (cases "rd_pc s")
  case R_open
  then show ?thesis
    using server_inv_reader_locals [OF s] by (auto simp: reader_step_def split: option.splits)
next
  case R_while
  have "server_inv (s\<lparr>target_channel := - 1, search_start_index := currentSocket s, search_attempts := 0, rd_pc := R_search\<rparr>)"
    if "rd_file s \<noteq> []"
    using s that by (simp add: server_inv_def reader_ok_def)
  then show ?thesis using R_while server_inv_reader_locals [OF s] by (auto simp: reader_step_def)
next
  case R_search
  let ?j = "search_start_index s mod 3"
  have j: "0 \<le> ?j" "?j < 3" "0 \<le> (?j + 1) mod 3" "(?j + 1) mod 3 < 3" by simp_all
  have "server_inv (s\<lparr>target_channel := ?j, currentSocket := (?j + 1) mod 3, rd_pc := R_read\<rparr>)"
    "server_inv (s\<lparr>search_start_index := search_start_index s + 1, search_attempts := search_attempts s + 1\<rparr>)"
    using s R_search j by (simp_all add: server_inv_def reader_ok_def)
  then show ?thesis
    using R_search server_inv_reader_locals [OF s] by (simp add: reader_step_def SOCKET_POOL_SIZE_def Let_def)
next
  case R_read
  show ?thesis
  proof (cases "read_error env (n_reads s)")
    case True
    then show ?thesis using R_read server_inv_reader_locals [OF s] by (simp add: reader_step_def read_chunk_def Let_def)
  next
    case False
    from read_chunk_eq [OF s R_read False] obtain f buf where
      "fec_ok f" "length buf = kMaxDataSize" "0 < length (take readChunkSize (rd_file s))"
      "length (take readChunkSize (rd_file s)) \<le> 1009"
      and r: "read_chunk env s = Inr (s\<lparr>n_reads := n_reads s + 1, rd_file := drop readChunkSize (rd_file s), data_buf := buf,
        bytesRead := length (take readChunkSize (rd_file s)), fec_input_size := 15 + length (take readChunkSize (rd_file s)),
        fec := f, rd_pc := R_push\<rparr>, [Chunk_read (take readChunkSize (rd_file s)), Spilled 991])"
      by blast
    then have "server_inv (s\<lparr>n_reads := n_reads s + 1, rd_file := drop readChunkSize (rd_file s), data_buf := buf,
        bytesRead := length (take readChunkSize (rd_file s)), fec_input_size := 15 + length (take readChunkSize (rd_file s)),
        fec := f, rd_pc := R_push\<rparr>)"
      using s R_read by (simp add: server_inv_def reader_ok_def)
    with r show ?thesis using R_read by (simp add: reader_step_def)
  qed
next
  case R_push
  let ?i = "nat (target_channel s)"
  have i: "?i < length (channels s)" "word_of_int (target_channel s) = (of_nat ?i :: u8)"
    "15 < fec_input_size s" "fec_input_size s \<le> 1024"
    using s R_push by (simp_all add: server_inv_def reader_ok_def nat_less_iff)
  show ?thesis
  proof (cases "buffer_packets (fec s)")
    case Nil
    then show ?thesis using R_push server_inv_reader_locals [OF s] by (simp add: reader_step_def)
  next
    case (Cons p ps)
    let ?sp = "make_SendPacket p (target_channel s) (fec_input_size s)"
    have fec: "fec_ok ((fec s)\<lparr>buffer_packets := ps\<rparr>)" "length (pkt_data p) = kMaxDataSize"
      using s Cons by (auto simp: server_inv_def fec_ok_def fec_rel_def)
    then have "sp_ok ?i ?sp" using i by (simp add: sp_ok_def make_SendPacket_def)
    then have "server_inv (update_channel ?i (\<lambda>c. c\<lparr>packetQueue := packetQueue c @ [?sp]\<rparr>) s)"
      by (intro update_channel_inv [OF s]) (auto simp: chan_ok_def)
    then have "server_inv ((update_channel ?i (\<lambda>c. c\<lparr>packetQueue := packetQueue c @ [?sp]\<rparr>) s)
        \<lparr>fec := (fec s)\<lparr>buffer_packets := ps\<rparr>, rd_pc := R_wake\<rparr>)"
      using fec R_push by (simp add: server_inv_def reader_ok_def update_channel_def)
    then show ?thesis using R_push Cons i s by (simp add: reader_step_def Let_def)
  qed
next
  case R_wake
  have w: "server_inv (wake_queue (nat (target_channel s)) s)" using s by (rule wake_queue_inv)
  have "rd_pc (wake_queue (nat (target_channel s)) s) = R_wake"
    using R_wake by (simp add: wake_queue_def split: worker_pc.splits)
  then have "server_inv ((wake_queue (nat (target_channel s)) s)\<lparr>rd_pc := R_push\<rparr>)"
    using w by (simp add: server_inv_def reader_ok_def)
  then show ?thesis using R_wake by (simp add: reader_step_def Let_def)
qed (use s server_inv_reader_locals [OF s] in \<open>simp_all add: reader_step_def\<close>)

section \<open>The workers\<close>

lemma stamp_packet_inv:
  assumes s: "server_inv s" and sp: "sp_ok i sp" and eq: "stamp_packet env i sp s = (s', evs)"
  shows "server_inv s'"
proof -
  have "server_inv (s\<lparr>n_draws := (n_draws s)[i := x]\<rparr>)" "server_inv (t\<lparr>globalSeqCounter := y\<rparr>)"
    if "server_inv t" for x y t
    using s that by (simp_all add: server_inv_def reader_ok_def)
  moreover have "sp_ok i (sp\<lparr>seq := y\<rparr>)" for y using sp by (simp add: sp_ok_def)
  ultimately show ?thesis
    using eq s by (auto simp: stamp_packet_def Let_def goto_inv split: if_splits)
qed

lemma send_packet_out_eq:
  assumes "sp_ok i sp"
  shows "\<exists>p. packet_to_send sp = Some p \<and>
    send_packet_out env i sp s = Inr (goto i W_top (s\<lparr>n_sends := n_sends s + 1\<rparr>),
      [Sent i sp (mem_of (wire_bytes (actual_payload_size sp) p @ trailer_bytes sp) @
          replicate (1024 - actual_payload_size sp) None) (socket_send env i s)])"
proof -
  obtain p where p: "packet_to_send sp = Some p" "length (pkt_data p) = kMaxDataSize"
    and n: "actual_payload_size sp \<le> 1024"
    using assms by (auto simp: sp_ok_def)
  let ?d = "mem_of (wire_bytes (actual_payload_size sp) p @ trailer_bytes sp)"
  have "length (wire_bytes (actual_payload_size sp) p) = 6 + actual_payload_size sp"
    using p n by (simp add: length_wire_bytes kMaxDataSize_def)
  then have "mem_load ''send_buffer'' 0 1037 (?d @ replicate (2000 - (13 + actual_payload_size sp)) None) =
      Inr (?d @ replicate (1024 - actual_payload_size sp) None)"
    using n by (simp add: mem_load_def)
  then show ?thesis
    using fill_datagram_eq [OF p(2), of sp] p n
    by (simp add: send_packet_out_def server_constants del: mem_of_append)
qed

lemma worker_step_inv:
  assumes s: "server_inv s" and i: "i < 3"
  shows "\<exists>s' evs. worker_step env i s = Inr (s', evs) \<and> server_inv s'"
proof -
  have pc: "pc_ok i (wk_pc s ! i)" and ch: "chan_ok i (channels s ! i)" using s i by (simp_all add: server_inv_def)
  show ?thesis
  proof (cases "wk_pc s ! i")
    case W_enabled
    show ?thesis
    proof (cases "packetQueue (channels s ! i)")
      case Nil
      then show ?thesis using W_enabled s by (simp add: worker_step_def Let_def goto_inv)
    next
      case (Cons sp rest)
      then have "sp_ok i sp" "chan_ok i (packetQueue_update (\<lambda>_. rest) (channels s ! i))"
        using ch by (simp_all add: chan_ok_def)
      then have "sp_ok i sp" "server_inv (update_channel i (packetQueue_update (\<lambda>_. rest)) s)"
        using s by (simp_all add: update_channel_inv_at)
      then show ?thesis using W_enabled Cons s by (simp add: worker_step_def Let_def goto_inv)
    qed
  next
    case (W_send x)
    show ?thesis
    proof (cases x)
      case None
      then show ?thesis using W_send s by (simp add: worker_step_def Let_def goto_inv)
    next
      case (Some sp)
      obtain s' evs where "stamp_packet env i sp s = (s', evs)" by fastforce
      then show ?thesis using W_send Some stamp_packet_inv [OF s, of i sp env] pc by (simp add: worker_step_def Let_def)
    qed
  next
    case (W_out sp)
    then have "sp_ok i sp" using pc by simp
    moreover have "server_inv (s\<lparr>n_sends := n_sends s + 1\<rparr>)" using s by (simp add: server_inv_def reader_ok_def)
    ultimately show ?thesis
      using send_packet_out_eq [of i sp env s] W_out by (auto simp: worker_step_def Let_def goto_inv)
  qed (use s pc in \<open>simp_all add: worker_step_def Let_def goto_inv\<close>)
qed

section \<open>All interleavings\<close>

lemma server_step_inv:
  assumes s: "server_inv s" and "server_step env s evs s'"
  shows "server_inv s'"
  using assms(2)
proof (cases rule: server_step.cases)
  case reader
  then show ?thesis using reader_step_inv [OF s, of env] by auto
next
  case (worker i)
  then show ?thesis using worker_step_inv [OF s, of i env] by (auto simp: SOCKET_POOL_SIZE_def)
next
  case (spurious_queue i)
  then show ?thesis using s by (simp add: wake_queue_inv)
next
  case (spurious_state i)
  then show ?thesis using s by (simp add: wake_state_inv SOCKET_POOL_SIZE_def)
next
  case (set_file path)
  then show ?thesis using s by (simp add: SetFileName_inv)
next
  case (channel_state channel on)
  then show ?thesis using s by (simp add: channelStateChange_inv)
next
  case (loss_rate channel rate)
  then show ?thesis using s by (simp add: setLossRate_inv)
next
  case start
  then show ?thesis using s StartSending_inv by blast
next
  case stop
  then show ?thesis using s by (simp add: StopSending_def stop_begin_inv)
next
  case (notify i)
  then show ?thesis using s by (simp add: notify_state_inv)
next
  case stop_waking
  then show ?thesis using s by (simp add: stop_wake_inv)
next
  case stop_joining
  then show ?thesis using s by (simp add: stop_join_inv)
next
  case stop_joined
  then show ?thesis using s stop_finish_inv by blast
next
  case (stop_timeout k resume)
  then show ?thesis using s by simp
qed

interpretation safe: step_invariant "server_step env" server_inv for env
  by unfold_locales (rule server_step_inv)

lemma reachable_inv: "runs (server_step env) (new_Udpserver env host port) tr s \<Longrightarrow> server_inv s"
  by (rule safe.runs_preserve) (auto intro: server_inv_new)

text \<open>The two places where the memory behind or inside an object is not what the code takes it for.\<close>

lemma reader_spills:
  assumes "server_inv s" "reader_step env s = Inr (s', evs)" "Spilled n \<in> set evs"
  shows "n = 991"
proof (cases "rd_pc s = R_read \<and> \<not> read_error env (n_reads s)")
  case True
  then show ?thesis using read_chunk_eq [OF assms(1), of env] assms(2,3) by (auto simp: reader_step_def)
qed (use assms(2,3) in \<open>auto simp: reader_step_def read_chunk_def Let_def split: reader_pc.splits if_splits option.splits list.splits\<close>)

lemma worker_sends_unwritten:
  assumes "server_inv s" "i < 3" "worker_step env i s = Inr (s', evs)" "Sent j sp cells r \<in> set evs"
  shows "\<exists>bytes. cells = mem_of bytes @ replicate (1024 - actual_payload_size sp) None \<and> length bytes = 13 + actual_payload_size sp"
proof (cases "wk_pc s ! i")
  case (W_out sq)
  then have ok: "sp_ok i sq" using assms(1,2) by (auto simp: server_inv_def)
  from send_packet_out_eq [OF this, of env s] obtain p where p: "packet_to_send sq = Some p"
    "cells = mem_of (wire_bytes (actual_payload_size sq) p @ trailer_bytes sq) @ replicate (1024 - actual_payload_size sq) None" "sp = sq"
    using assms(3,4) W_out by (auto simp: worker_step_def)
  have "length (wire_bytes (actual_payload_size sq) p) = 6 + actual_payload_size sq"
    using ok p(1) by (auto simp: sp_ok_def length_wire_bytes kMaxDataSize_def)
  then show ?thesis using p by (intro exI [of _ "wire_bytes (actual_payload_size sq) p @ trailer_bytes sq"]) simp
qed (use assms(3,4) in \<open>auto simp: worker_step_def Let_def stamp_packet_def split: if_splits option.splits list.splits\<close>)


end
