(* ===== verification/Server_Threads.thy ===== *)
theory Server_Threads
  imports Server_Safety
begin

text \<open>
  Threads and condition variables of the server: which program points belong to which phase of
  \<open>StartSending\<close> and \<open>StopSending\<close>, that no wake-up is lost, and that a stopped worker finishes.
\<close>

section \<open>Frames of the steps\<close>

lemma goto_fields [simp]:
  "channels (goto i pc s) = channels s" "rd_pc (goto i pc s) = rd_pc s" "gui (goto i pc s) = gui s"
  "is_running (goto i pc s) = is_running s" "workerThreads (goto i pc s) = workerThreads s"
  "target_channel (goto i pc s) = target_channel s" "fec (goto i pc s) = fec s"
  "sockets (goto i pc s) = sockets s" "live_handles (goto i pc s) = live_handles s"
  "globalSeqCounter (goto i pc s) = globalSeqCounter s" "wk_pc (goto i pc s) = (wk_pc s)[i := pc]"
  by (simp_all add: goto_def)

lemma update_channel_fields [simp]:
  "rd_pc (update_channel i f s) = rd_pc s" "gui (update_channel i f s) = gui s"
  "is_running (update_channel i f s) = is_running s" "workerThreads (update_channel i f s) = workerThreads s"
  "target_channel (update_channel i f s) = target_channel s" "fec (update_channel i f s) = fec s"
  "sockets (update_channel i f s) = sockets s" "live_handles (update_channel i f s) = live_handles s"
  "globalSeqCounter (update_channel i f s) = globalSeqCounter s" "wk_pc (update_channel i f s) = wk_pc s"
  "channels (update_channel i f s) = (channels s)[i := f (channels s ! i)]"
  by (simp_all add: update_channel_def)

lemma wake_fields [simp]:
  "channels (wake_queue i s) = channels s" "rd_pc (wake_queue i s) = rd_pc s" "gui (wake_queue i s) = gui s"
  "is_running (wake_queue i s) = is_running s" "workerThreads (wake_queue i s) = workerThreads s"
  "target_channel (wake_queue i s) = target_channel s" "fec (wake_queue i s) = fec s"
  "sockets (wake_queue i s) = sockets s" "globalSeqCounter (wake_queue i s) = globalSeqCounter s"
  "channels (wake_state i s) = channels s" "rd_pc (wake_state i s) = rd_pc s" "gui (wake_state i s) = gui s"
  "is_running (wake_state i s) = is_running s" "workerThreads (wake_state i s) = workerThreads s"
  "target_channel (wake_state i s) = target_channel s" "fec (wake_state i s) = fec s"
  "sockets (wake_state i s) = sockets s" "globalSeqCounter (wake_state i s) = globalSeqCounter s"
  "length (wk_pc (wake_queue i s)) = length (wk_pc s)" "length (wk_pc (wake_state i s)) = length (wk_pc s)"
  by (simp_all add: wake_queue_def wake_state_def split: worker_pc.splits)

lemma stop_cleanup_fields [simp]:
  "channels (stop_cleanup s) = channels s" "workerThreads (stop_cleanup s) = 0" "rd_pc (stop_cleanup s) = R_none"
  "gui (stop_cleanup s) = G_idle" "is_running (stop_cleanup s) = is_running s" "wk_pc (stop_cleanup s) = map (\<lambda>_. W_none) (wk_pc s)"
  "sockets (stop_cleanup s) = map (\<lambda>_. INVALID_SOCKET) (sockets s)" "fec (stop_cleanup s) = fec s"
  "globalSeqCounter (stop_cleanup s) = globalSeqCounter s" "currentFilePath (stop_cleanup s) = currentFilePath s"
  by (simp_all add: stop_cleanup_def)

definition asleep :: "worker_pc \<Rightarrow> bool" where
  "asleep pc \<longleftrightarrow> pc = W_asleep \<or> (\<exists>x. pc = W_state_asleep x)"

lemma wake_queue_pc:
  "i < length (wk_pc s) \<Longrightarrow>
   wk_pc (wake_queue i s) ! j = (if j = i \<and> wk_pc s ! i = W_asleep then W_inner else wk_pc s ! j)"
  by (auto simp: wake_queue_def nth_list_update split: worker_pc.splits)

lemma wake_state_pc:
  "i < length (wk_pc s) \<Longrightarrow>
   wk_pc (wake_state i s) ! j =
     (if j = i then (case wk_pc s ! i of W_state_asleep x \<Rightarrow> W_state x | pc \<Rightarrow> pc) else wk_pc s ! j)"
  by (auto simp: wake_state_def nth_list_update split: worker_pc.splits)

lemma wake_in_flight [simp]:
  "i < length (wk_pc s) \<Longrightarrow> in_flight (wk_pc (wake_queue i s) ! j) = in_flight (wk_pc s ! j)"
  "i < length (wk_pc s) \<Longrightarrow> in_flight (wk_pc (wake_state i s) ! j) = in_flight (wk_pc s ! j)"
  by (auto simp: wake_queue_pc wake_state_pc in_flight_def split: worker_pc.splits)

lemma enabled_requeue [simp]:
  "enabled (cs[j := (cs ! j)\<lparr>packetQueue := q\<rparr>] ! i) = enabled (cs ! i)"
  by (cases "i = j"; cases "j < length cs") (simp_all add: list_update_beyond)

text \<open>What a step of worker \<open>j\<close> leaves alone.\<close>

definition worker_frame :: "nat \<Rightarrow> server \<Rightarrow> server \<Rightarrow> bool" where
  "worker_frame j s s' \<longleftrightarrow>
     rd_pc s' = rd_pc s \<and> gui s' = gui s \<and> is_running s' = is_running s \<and> workerThreads s' = workerThreads s \<and>
     target_channel s' = target_channel s \<and> fec s' = fec s \<and> sockets s' = sockets s \<and>
     (\<forall>i. i \<noteq> j \<longrightarrow> wk_pc s' ! i = wk_pc s ! i \<and> channels s' ! i = channels s ! i) \<and>
     (\<forall>i. enabled (channels s' ! i) = enabled (channels s ! i))"

lemma stamp_packet_frame: "stamp_packet env j sp s = (s', evs) \<Longrightarrow> worker_frame j s s'"
  by (auto simp: stamp_packet_def worker_frame_def Let_def split: if_splits)

lemma send_packet_out_frame: "send_packet_out env j sp s = Inr (s', evs) \<Longrightarrow> worker_frame j s s'"
  by (auto simp: send_packet_out_def worker_frame_def bind_res_Inr_iff split: option.splits if_splits)

lemma worker_frame_goto: "worker_frame j s (goto j pc s)"
  by (simp add: worker_frame_def)

lemma worker_step_frame: "worker_step env j s = Inr (s', evs) \<Longrightarrow> worker_frame j s s'"
proof (cases "wk_pc s ! j")
  case W_enabled
  assume "worker_step env j s = Inr (s', evs)"
  then show ?thesis
    using W_enabled by (auto simp: worker_step_def Let_def worker_frame_def split: if_splits list.splits)
next
  case (W_send x)
  assume "worker_step env j s = Inr (s', evs)"
  then show ?thesis
    using W_send stamp_packet_frame worker_frame_goto [of j s]
    by (auto simp: worker_step_def Let_def split: option.splits)
next
  case (W_out sp)
  assume "worker_step env j s = Inr (s', evs)"
  then show ?thesis using W_out send_packet_out_frame by (auto simp: worker_step_def Let_def)
qed (auto simp: worker_step_def Let_def worker_frame_goto, auto simp: worker_frame_def split: if_splits)

text \<open>What a step of the reader does to the rest of the server.\<close>

lemma read_chunk_frame:
  assumes "read_chunk env s = Inr (s', evs)"
  shows "gui s' = gui s \<and> workerThreads s' = workerThreads s \<and> is_running s' = is_running s \<and>
    channels s' = channels s \<and> wk_pc s' = wk_pc s \<and> sockets s' = sockets s \<and> rd_pc s' \<in> {R_done, R_push} \<and>
    globalSeqCounter s' = globalSeqCounter s"
  using assms by (auto simp: read_chunk_def Let_def bind_res_Inr_iff case_prod_beta split: if_splits)

lemma reader_step_frame:
  assumes "reader_step env s = Inr (s', evs)" "server_inv s"
  shows "gui s' = gui s \<and> workerThreads s' = workerThreads s \<and> (is_running s' \<longrightarrow> is_running s) \<and> sockets s' = sockets s \<and>
    globalSeqCounter s' = globalSeqCounter s \<and>
    (rd_pc s = R_none \<longrightarrow> s' = s) \<and>
    (if rd_pc s = R_wake then wk_pc s' = wk_pc (wake_queue (nat (target_channel s)) s) else wk_pc s' = wk_pc s) \<and>
    (if rd_pc s = R_push \<and> rd_pc s' = R_wake
     then \<exists>sp. channels s' = (channels s)[nat (target_channel s) :=
         (channels s ! nat (target_channel s))\<lparr>packetQueue := packetQueue (channels s ! nat (target_channel s)) @ [sp]\<rparr>] \<and>
         evs = [Enqueued (nat (target_channel s)) sp] \<and> target_channel s' = target_channel s
     else channels s' = channels s \<and> (\<forall>i sp. Enqueued i sp \<notin> set evs))"
proof (cases "rd_pc s")
  case R_read
  then show ?thesis
    using assms read_chunk_frame [of env s s' evs]
    by (auto simp: reader_step_def) (auto simp: read_chunk_def Let_def bind_res_Inr_iff case_prod_beta split: if_splits)
next
  case R_push
  show ?thesis
  proof (cases "buffer_packets (fec s)")
    case (Cons p ps)
    then show ?thesis
      using assms R_push by (auto simp: reader_step_def Let_def split: if_splits)
  qed (use assms R_push in \<open>auto simp: reader_step_def\<close>)
qed (use assms in \<open>auto simp: reader_step_def Let_def split: if_splits option.splits\<close>)

section \<open>The thread invariant\<close>

text \<open>
  A worker asleep on its queue has an empty queue, or the reader is about to wake it; one asleep on
  its state is disabled, or the GUI thread is about to wake it; \<open>StopSending\<close> leaves no channel asleep behind it.
\<close>

text \<open>Whether worker \<open>i\<close> may sleep on its queue, or on its state, while the GUI thread is at a program point.\<close>

fun may_sleep_queue :: "gui_pc \<Rightarrow> nat \<Rightarrow> bool" where
  "may_sleep_queue (G_wake_state j b) i = (j \<le> i)"
| "may_sleep_queue (G_wake_queue j b) i = (j \<le> i)"
| "may_sleep_queue g i = (g = G_idle \<or> (\<exists>j. g = G_notify j))"

fun may_sleep_state :: "gui_pc \<Rightarrow> nat \<Rightarrow> bool" where
  "may_sleep_state (G_wake_state j b) i = (j \<le> i)"
| "may_sleep_state (G_wake_queue j b) i = (j < i)"
| "may_sleep_state g i = (g = G_idle \<or> (\<exists>j. g = G_notify j))"

definition wake_ok :: "server \<Rightarrow> nat \<Rightarrow> bool" where
  "wake_ok s i \<longleftrightarrow>
     (wk_pc s ! i = W_asleep \<longrightarrow>
        (packetQueue (channels s ! i) = [] \<or> (rd_pc s = R_wake \<and> nat (target_channel s) = i)) \<and> may_sleep_queue (gui s) i) \<and>
     ((\<exists>x. wk_pc s ! i = W_state_asleep x) \<longrightarrow>
        (enabled (channels s ! i) = 0 \<or> gui s = G_notify i) \<and> may_sleep_state (gui s) i)"

text \<open>The program points of the GUI thread, and the threads it has already waited for.\<close>

fun gui_ok :: "server \<Rightarrow> gui_pc \<Rightarrow> bool" where
  "gui_ok s G_idle = True"
| "gui_ok s (G_notify i) = (i < 3)"
| "gui_ok s (G_wake_state i b) = (\<not> is_running s \<and> workerThreads s \<noteq> 0 \<and> i \<le> 3)"
| "gui_ok s (G_wake_queue i b) = (\<not> is_running s \<and> workerThreads s \<noteq> 0 \<and> i < 3)"
| "gui_ok s (G_join n b) = (\<not> is_running s \<and> workerThreads s \<noteq> 0 \<and> n \<le> 4 \<and> (\<forall>k < 4. n \<le> k \<longrightarrow> thread_finished k s))"
| "gui_ok s G_terminated = (\<not> is_running s \<and> workerThreads s \<noteq> 0)"

definition threads_ok :: "server \<Rightarrow> bool" where
  "threads_ok s \<longleftrightarrow>
     workerThreads s \<le> 4 \<and> (\<forall>i < 3. workerThreads s \<le> Suc i \<longrightarrow> wk_pc s ! i = W_none) \<and>
     (workerThreads s = 0 \<longrightarrow> rd_pc s = R_none \<and> \<not> is_running s) \<and>
     gui_ok s (gui s) \<and> (\<forall>i < 3. wake_ok s i)"

definition full_inv :: "server \<Rightarrow> bool" where
  "full_inv s \<longleftrightarrow> server_inv s \<and> threads_ok s"

lemma thread_finished_gui [simp]: "thread_finished k (s\<lparr>gui := g\<rparr>) = thread_finished k s"
  by (simp add: thread_finished_def)

lemma no_threads: "threads_ok s \<Longrightarrow> workerThreads s = 0 \<Longrightarrow> i < 3 \<Longrightarrow> wk_pc s ! i = W_none"
  by (simp add: threads_ok_def)

lemma stop_not_running: "gui_ok s g \<Longrightarrow> in_stop g \<or> g = G_terminated \<Longrightarrow> \<not> is_running s \<and> workerThreads s \<noteq> 0"
  by (cases g) simp_all

lemma running_may_sleep: "gui_ok s g \<Longrightarrow> is_running s \<Longrightarrow> may_sleep_queue g i \<and> may_sleep_state g i"
  by (cases g) simp_all

lemma wake_ok_awake: "\<not> asleep (wk_pc s ! i) \<Longrightarrow> wake_ok s i"
  by (auto simp: wake_ok_def asleep_def)

lemma threads_okI:
  "workerThreads s \<noteq> 0 \<Longrightarrow> workerThreads s \<le> 4 \<Longrightarrow> (\<And>i. i < 3 \<Longrightarrow> workerThreads s \<le> Suc i \<Longrightarrow> wk_pc s ! i = W_none) \<Longrightarrow>
   gui_ok s (gui s) \<Longrightarrow> (\<And>i. i < 3 \<Longrightarrow> wake_ok s i) \<Longrightarrow> threads_ok s"
  by (simp add: threads_ok_def)

text \<open>A step that starts no thread, keeps the ended ones ended and leaves the GUI thread alone keeps the invariant.\<close>

lemma threads_ok_keep:
  assumes ok: "threads_ok s" and same: "gui s' = gui s" "workerThreads s' = workerThreads s" "is_running s' \<longrightarrow> is_running s"
    and ended: "\<And>i. i < 3 \<Longrightarrow> worker_ended (wk_pc s ! i) \<Longrightarrow> wk_pc s' ! i = wk_pc s ! i"
      "rd_pc s = R_none \<or> rd_pc s = R_done \<Longrightarrow> rd_pc s' = rd_pc s"
    and wake: "\<And>i. i < 3 \<Longrightarrow> wake_ok s' i"
  shows "threads_ok s'"
proof -
  have "thread_finished k s'" if "thread_finished k s" "k < 4" for k
    using that ended ended(1) [of "k - 1"] by (auto simp: thread_finished_def)
  then have "gui_ok s' (gui s)" using ok same(2,3) by (cases "gui s") (auto simp: threads_ok_def)
  moreover have "wk_pc s' ! i = W_none" if "i < 3" "workerThreads s \<le> Suc i" for i
    using that ok ended(1) [of i] by (simp add: threads_ok_def worker_ended_def)
  ultimately show ?thesis using ok same ended(2) wake by (auto simp: threads_ok_def)
qed

lemma threads_ok_new: "threads_ok (new_Udpserver env host port)"
  by (simp add: threads_ok_def new_Udpserver_def initializeSockets_def SOCKET_POOL_SIZE_def wake_ok_def asleep_def)

lemma wake_ok_frame:
  assumes "wake_ok s i" "wk_pc s' ! i = wk_pc s ! i" "packetQueue (channels s' ! i) = packetQueue (channels s ! i)"
    "enabled (channels s' ! i) = enabled (channels s ! i)" "rd_pc s' = rd_pc s" "target_channel s' = target_channel s"
    "gui s' = gui s"
  shows "wake_ok s' i"
  using assms by (simp add: wake_ok_def)

subsection \<open>Workers\<close>

lemma wake_ok_own_step:
  assumes "worker_step env i s = Inr (s', evs)" "wake_ok s i" "i < length (wk_pc s)"
    "gui_ok s (gui s)"
  shows "wake_ok s' i"
proof (cases "wk_pc s ! i")
  case W_inner
  then show ?thesis using assms running_may_sleep [OF assms(4)] by (auto simp: worker_step_def Let_def wake_ok_def split: if_splits)
next
  case (W_state x)
  then show ?thesis using assms running_may_sleep [OF assms(4)] by (auto simp: worker_step_def Let_def wake_ok_def split: if_splits)
next
  case W_enabled
  then show ?thesis
    using assms by (intro wake_ok_awake)
      (auto simp: worker_step_def Let_def asleep_def split: if_splits list.splits)
next
  case (W_send x)
  then show ?thesis
    using assms by (intro wake_ok_awake)
      (auto simp: worker_step_def Let_def asleep_def stamp_packet_def split: if_splits option.splits)
next
  case (W_out sp)
  then show ?thesis
    using assms by (intro wake_ok_awake)
      (auto simp: worker_step_def Let_def asleep_def send_packet_out_def bind_res_Inr_iff split: if_splits option.splits)
qed (use assms in \<open>auto simp: worker_step_def Let_def wake_ok_def asleep_def split: if_splits\<close>)

lemma worker_step_threads:
  assumes st: "worker_step env j s = Inr (s', evs)" and j: "j < 3" and inv: "full_inv s"
  shows "threads_ok s'"
proof -
  have fr: "worker_frame j s s'" by (rule worker_step_frame [OF st])
  have ok: "threads_ok s" and len: "length (wk_pc s) = 3" using inv by (simp_all add: full_inv_def server_inv_def)
  show ?thesis
  proof (rule threads_ok_keep [OF ok])
    fix i :: nat assume i: "i < 3"
    show "wk_pc s' ! i = wk_pc s ! i" if "worker_ended (wk_pc s ! i)"
      using that fr st by (cases "i = j") (auto simp: worker_frame_def worker_ended_def worker_step_def)
    have "wake_ok s i" using ok i by (simp add: threads_ok_def)
    then show "wake_ok s' i"
      using wake_ok_own_step [OF st] wake_ok_frame [of s i s'] fr ok len j
      by (cases "i = j") (auto simp: worker_frame_def threads_ok_def)
  qed (use fr in \<open>auto simp: worker_frame_def\<close>)
qed

subsection \<open>The reader\<close>

lemma wake_ok_reader:
  assumes st: "reader_step env s = Inr (s', evs)" and inv: "full_inv s" and i: "i < 3"
  shows "wake_ok s' i"
proof -
  let ?t = "nat (target_channel s)"
  have s: "server_inv s" and w: "wake_ok s i" and len: "length (wk_pc s) = 3" "length (channels s) = 3"
    using inv i by (simp_all add: full_inv_def threads_ok_def server_inv_def)
  note fr = reader_step_frame [OF st s]
  consider (wake) "rd_pc s = R_wake" | (push) "rd_pc s = R_push" "rd_pc s' = R_wake"
    | (other) "rd_pc s \<noteq> R_wake" "\<not> (rd_pc s = R_push \<and> rd_pc s' = R_wake)" by blast
  then show ?thesis
  proof cases
    case wake
    then have t: "?t < 3" using s by (simp add: server_inv_def reader_ok_def nat_less_iff)
    have "wk_pc s' ! i = (if i = ?t \<and> wk_pc s ! ?t = W_asleep then W_inner else wk_pc s ! i)"
      using fr wake t len by (simp add: wake_queue_pc)
    moreover have "channels s' = channels s" "gui s' = gui s" using fr wake by simp_all
    ultimately show ?thesis using w by (auto simp: wake_ok_def asleep_def split: if_splits)
  next
    case push
    then have t: "?t < 3" using s by (simp add: server_inv_def reader_ok_def nat_less_iff)
    from fr push obtain sp where ch: "channels s' = (channels s)[?t :=
         (channels s ! ?t)\<lparr>packetQueue := packetQueue (channels s ! ?t) @ [sp]\<rparr>]" "target_channel s' = target_channel s"
      by auto
    show ?thesis using w fr push ch by (cases "i = ?t") (auto simp: wake_ok_def)
  next
    case other
    then show ?thesis using w fr by (auto simp: wake_ok_def)
  qed
qed

lemma reader_step_threads:
  assumes st: "reader_step env s = Inr (s', evs)" and inv: "full_inv s"
  shows "threads_ok s'"
proof (rule threads_ok_keep)
  show "threads_ok s" using inv by (simp add: full_inv_def)
  have srv: "server_inv s" using inv by (simp add: full_inv_def)
  note fr = reader_step_frame [OF st srv]
  show "gui s' = gui s" "workerThreads s' = workerThreads s" "is_running s' \<longrightarrow> is_running s" using fr by blast+
  show "rd_pc s' = rd_pc s" if "rd_pc s = R_none \<or> rd_pc s = R_done" using that st by (auto simp: reader_step_def)
  show "wk_pc s' ! i = wk_pc s ! i" if "worker_ended (wk_pc s ! i)" for i
  proof -
    have "rd_pc s = R_wake \<Longrightarrow> nat (target_channel s) < length (wk_pc s)"
      using srv by (auto simp: server_inv_def reader_ok_def)
    then show ?thesis using that fr by (cases "rd_pc s = R_wake") (auto simp: wake_queue_pc worker_ended_def)
  qed
qed (rule wake_ok_reader [OF st inv])

subsection \<open>The GUI thread\<close>

lemma wake_queue_threads: "full_inv s \<Longrightarrow> i < 3 \<Longrightarrow> threads_ok (wake_queue i s)"
proof (rule threads_ok_keep)
  assume inv: "full_inv s" and i: "i < 3"
  then have len: "length (wk_pc s) = 3" by (simp add: full_inv_def server_inv_def)
  show "threads_ok s" using inv by (simp add: full_inv_def)
  show "wake_ok (wake_queue i s) j" if "j < 3" for j
    using inv i len that by (auto simp: full_inv_def threads_ok_def wake_ok_def wake_queue_pc)
  show "worker_ended (wk_pc s ! j) \<Longrightarrow> wk_pc (wake_queue i s) ! j = wk_pc s ! j" for j
    using len i by (auto simp: wake_queue_pc worker_ended_def)
qed simp_all

lemma wake_state_threads: "full_inv s \<Longrightarrow> i < 3 \<Longrightarrow> threads_ok (wake_state i s)"
proof (rule threads_ok_keep)
  assume inv: "full_inv s" and i: "i < 3"
  then have len: "length (wk_pc s) = 3" by (simp add: full_inv_def server_inv_def)
  show "threads_ok s" using inv by (simp add: full_inv_def)
  show "wake_ok (wake_state i s) j" if "j < 3" for j
    using inv i len that by (auto simp: full_inv_def threads_ok_def wake_ok_def wake_state_pc split: worker_pc.splits)
  show "worker_ended (wk_pc s ! j) \<Longrightarrow> wk_pc (wake_state i s) ! j = wk_pc s ! j" for j
    using len i by (auto simp: wake_state_pc worker_ended_def)
qed simp_all

text \<open>The steps of the GUI thread: the invariant after a change of its program point.\<close>

lemma threads_ok_gui:
  assumes "threads_ok s" "gui_ok s g" "\<And>i. i < 3 \<Longrightarrow> wake_ok (s\<lparr>gui := g\<rparr>) i"
  shows "threads_ok (s\<lparr>gui := g\<rparr>)"
proof -
  have "gui_ok (s\<lparr>gui := g\<rparr>) g" using assms(2) by (cases g) auto
  then show ?thesis using assms by (simp add: threads_ok_def)
qed

lemma channelStateChange_threads:
  assumes inv: "full_inv s" and idle: "gui s = G_idle"
  shows "threads_ok (channelStateChange c on s)"
proof (cases "c < 0 \<or> c \<ge> 3")
  case True
  then show ?thesis using inv by (auto simp: channelStateChange_def SOCKET_POOL_SIZE_def full_inv_def)
next
  case False
  define i where "i = nat c"
  then have i: "i < 3" using False by (simp add: nat_less_iff)
  have len: "length (channels s) = 3" and en: "enabled (channels s ! i) = 0 \<or> enabled (channels s ! i) = 1"
    using inv i by (simp_all add: full_inv_def server_inv_def chan_ok_def)
  let ?v = "if on then 1 else 0 :: int"
  let ?g = "if enabled (channels s ! i) \<noteq> ?v \<and> on then G_notify i else G_idle"
  let ?s1 = "(update_channel i (enabled_update (\<lambda>_. ?v)) s)\<lparr>gui := ?g\<rparr>"
  have eq: "channelStateChange c on s = ?s1"
    using False idle by (simp add: channelStateChange_def SOCKET_POOL_SIZE_def i_def Let_def update_channel_def)
  have "wake_ok ?s1 j" if j: "j < 3" for j
  proof -
    have w: "wake_ok s j" using inv j by (simp add: full_inv_def threads_ok_def)
    then show ?thesis using i j len en idle by (cases "j = i"; cases on) (auto simp: wake_ok_def)
  qed
  moreover have "gui_ok ?s1 ?g" using i by simp
  ultimately have "threads_ok ?s1" using inv unfolding full_inv_def threads_ok_def by simp
  then show ?thesis by (simp only: eq)
qed

lemma notify_state_threads:
  assumes inv: "full_inv s" and g: "gui s = G_notify i"
  shows "threads_ok (notify_state s)"
proof -
  have i: "i < 3" and ok: "threads_ok s" and len: "length (wk_pc s) = 3"
    using inv g by (simp_all add: full_inv_def threads_ok_def server_inv_def)
  have "wake_ok ((wake_state i s)\<lparr>gui := G_idle\<rparr>) j" if "j < 3" for j
    using ok that g i len by (cases "j = i") (auto simp: threads_ok_def wake_ok_def wake_state_pc split: worker_pc.splits)
  then show ?thesis using wake_state_threads [OF inv i] by (simp add: notify_state_def g threads_ok_gui)
qed

lemma setLossRate_threads: "full_inv s \<Longrightarrow> threads_ok (setLossRate c r s)"
proof -
  assume inv: "full_inv s"
  have "wake_ok (update_channel i (lossRate_update f) s) j" if "wake_ok s j" for i j f
    using that by (cases "j = i"; cases "i < length (channels s)") (auto simp: wake_ok_def list_update_beyond)
  note wake = this
  have ok: "threads_ok s" "\<And>j. j < 3 \<Longrightarrow> wake_ok s j" using inv by (simp_all add: full_inv_def threads_ok_def)
  have "threads_ok (update_channel i (lossRate_update f) s)" for i f
    using ok(1) by (rule threads_ok_keep) (simp_all add: wake ok)
  then show ?thesis using inv by (simp add: setLossRate_def full_inv_def)
qed

lemma stop_begin_threads: "threads_ok s \<Longrightarrow> gui s = G_idle \<Longrightarrow> threads_ok (stop_begin b s)"
  by (auto simp: stop_begin_def threads_ok_def wake_ok_def)

text \<open>Threads that have been started, and one that could not be.\<close>

definition started :: "server \<Rightarrow> bool" where
  "started s \<longleftrightarrow> 0 < workerThreads s \<and> workerThreads s \<le> 4 \<and>
     (\<forall>j < 3. wk_pc s ! j = (if Suc j < workerThreads s then W_top else W_none)) \<and>
     (gui s = G_idle \<or> gui s = G_wake_state 0 False \<and> \<not> is_running s)"

lemma start_workers_started:
  "i + n = 3 \<Longrightarrow> length (wk_pc s) = 3 \<Longrightarrow> workerThreads s = Suc i \<Longrightarrow> gui s = G_idle \<Longrightarrow>
   \<forall>j < 3. wk_pc s ! j = (if j < i then W_top else W_none) \<Longrightarrow> started (start_workers env i n s)"
proof (induction n arbitrary: i s)
  case (Suc n)
  let ?s1 = "s\<lparr>n_threads := n_threads s + 1, workerThreads := workerThreads s + 1, wk_pc := (wk_pc s)[i := W_top]\<rparr>"
  have "wk_pc ?s1 ! j = (if j < Suc i then W_top else W_none)" if "j < 3" for j
    using Suc.prems(1,2,5) that by (cases "j = i") simp_all
  then have "\<forall>j < 3. wk_pc ?s1 ! j = (if j < Suc i then W_top else W_none)" by blast
  then have "started (start_workers env (Suc i) n ?s1)"
    using Suc.prems(1-4) by (intro Suc.IH) simp_all
  moreover have "started (stop_begin False (s\<lparr>n_threads := n_threads s + 1\<rparr>))"
    using Suc.prems(1,3,5) by (simp add: stop_begin_def started_def)
  ultimately show ?case by (simp only: start_workers.simps Let_def if_True if_False split: if_split) simp
next
  case 0
  then have "wk_pc s ! j = W_top" if "j < 3" for j using that by simp
  then show ?case using 0(1,3,4) by (auto simp: started_def)
qed

lemma started_threads: "started s \<Longrightarrow> threads_ok s"
proof (rule threads_okI)
  assume s: "started s"
  show "wake_ok s i" if "i < 3" for i
    using s that by (cases "Suc i < workerThreads s") (auto simp: started_def asleep_def intro!: wake_ok_awake)
qed (auto simp: started_def)

lemma start_rest_started:
  assumes "start_rest env s = (s', evs)" "length (wk_pc s) = 3" "gui s = G_idle" "\<forall>i < 3. wk_pc s ! i = W_none"
  shows "started s' \<or> s' = s\<lparr>workerThreads := 0, channels := map (packetQueue_update (\<lambda>_. [])) (channels s),
    is_running := False, currentSocket := 0, n_threads := n_threads s + 1\<rparr>"
proof (cases "thread_ok env (n_threads s)")
  case True
  let ?s1 = "s\<lparr>channels := map (packetQueue_update (\<lambda>_. [])) (channels s), is_running := True,
                 currentSocket := 0, n_threads := n_threads s + 1, workerThreads := 1, rd_pc := R_open\<rparr>"
  have "started (start_workers env 0 3 ?s1)" using assms by (intro start_workers_started) simp_all
  moreover have "s' = start_workers env 0 3 ?s1" using assms(1) True by (auto simp: start_rest_def SOCKET_POOL_SIZE_def)
  ultimately show ?thesis by simp
next
  case False
  then show ?thesis using assms(1) by (auto simp: start_rest_def)
qed

lemma start_rest_threads:
  assumes "start_rest env s = (s', evs)" "length (wk_pc s) = 3" "gui s = G_idle" "\<forall>i < 3. wk_pc s ! i = W_none" "rd_pc s = R_none"
  shows "threads_ok s'"
  using start_rest_started [OF assms(1-4)]
proof
  assume "s' = s\<lparr>workerThreads := 0, channels := map (packetQueue_update (\<lambda>_. [])) (channels s),
    is_running := False, currentSocket := 0, n_threads := n_threads s + 1\<rparr>"
  then show ?thesis using assms(3-5) by (simp add: threads_ok_def wake_ok_def)
qed (rule started_threads)

lemma StartSending_threads:
  assumes "full_inv s" "gui s = G_idle" "StartSending env s = (s', evs)"
  shows "threads_ok s'"
  using assms stop_begin_threads [of s True] start_rest_threads [of env s s' evs]
  by (auto simp: StartSending_def full_inv_def threads_ok_def server_inv_def split: if_splits)

lemma stop_wake_threads:
  assumes inv: "full_inv s"
  shows "threads_ok (stop_wake s)"
proof (cases "gui s")
  case (G_wake_state i resume)
  have ok: "threads_ok s" "\<And>j. j < 3 \<Longrightarrow> wake_ok s j" and len: "length (wk_pc s) = 3"
    using inv by (simp_all add: full_inv_def threads_ok_def server_inv_def)
  show ?thesis
  proof (cases "i < 3")
    case True
    have "wake_ok ((wake_state i s)\<lparr>gui := G_wake_queue i resume\<rparr>) j" if "j < 3" for j
      using ok(2) [OF that] len True G_wake_state by (cases "j = i") (auto simp: wake_ok_def wake_state_pc split: worker_pc.splits)
    then show ?thesis
      using wake_state_threads [OF inv True] ok(1) G_wake_state True
      by (simp add: stop_wake_def SOCKET_POOL_SIZE_def threads_ok_gui threads_ok_def)
  next
    case False
    have "thread_finished k s" if "k < 4" "workerThreads s \<le> k" for k
      using ok(1) that G_wake_state by (auto simp: threads_ok_def thread_finished_def worker_ended_def)
    moreover have "wake_ok (s\<lparr>gui := G_join (workerThreads s) resume\<rparr>) j" if "j < 3" for j
      using ok(2) [OF that] that False G_wake_state by (auto simp: wake_ok_def)
    ultimately show ?thesis
      using ok(1) False G_wake_state by (simp add: stop_wake_def SOCKET_POOL_SIZE_def threads_ok_gui threads_ok_def)
  qed
next
  case (G_wake_queue i resume)
  have ok: "threads_ok s" "\<And>j. j < 3 \<Longrightarrow> wake_ok s j" and i: "i < 3" and len: "length (wk_pc s) = 3"
    using inv G_wake_queue by (simp_all add: full_inv_def threads_ok_def server_inv_def)
  have "wake_ok ((wake_queue i s)\<lparr>gui := G_wake_state (Suc i) resume\<rparr>) j" if "j < 3" for j
    using ok(2) [OF that] len i G_wake_queue by (cases "j = i") (auto simp: wake_ok_def wake_queue_pc)
  then show ?thesis
    using wake_queue_threads [OF inv i] ok(1) G_wake_queue i by (simp add: stop_wake_def threads_ok_gui threads_ok_def)
qed (use inv in \<open>simp_all add: stop_wake_def full_inv_def\<close>)

lemma wake_ok_join: "wake_ok s i \<Longrightarrow> gui s = G_join n b \<Longrightarrow> g = G_join m c \<or> g = G_terminated \<Longrightarrow> wake_ok (s\<lparr>gui := g\<rparr>) i"
  by (auto simp: wake_ok_def)

lemma stop_join_threads: "full_inv s \<Longrightarrow> threads_ok (stop_join s)"
proof (cases "\<exists>k b. gui s = G_join (Suc k) b \<and> thread_finished k s")
  case True
  then obtain k b where g: "gui s = G_join (Suc k) b" "thread_finished k s" by blast
  assume inv: "full_inv s"
  then have "gui_ok s (G_join k b)" using g by (auto simp: full_inv_def threads_ok_def Suc_le_eq le_less)
  moreover have "wake_ok (s\<lparr>gui := G_join k b\<rparr>) i" if "i < 3" for i
    using inv that g(1) by (intro wake_ok_join [where n = "Suc k" and b = b and m = k and c = b]) (auto simp: full_inv_def threads_ok_def)
  ultimately have "threads_ok (s\<lparr>gui := G_join k b\<rparr>)" using inv by (intro threads_ok_gui) (auto simp: full_inv_def)
  then show ?thesis using g by (simp add: stop_join_def)
qed (auto simp: stop_join_def full_inv_def split: gui_pc.splits nat.splits)

lemma stop_timeout_threads: "full_inv s \<Longrightarrow> gui s = G_join n b \<Longrightarrow> threads_ok (s\<lparr>gui := G_terminated\<rparr>)"
  by (rule threads_ok_gui) (auto simp: full_inv_def threads_ok_def intro: wake_ok_join)

lemma stop_cleanup_threads:
  assumes "full_inv s" "gui s = G_join n b"
  shows "threads_ok (stop_cleanup s)"
  using assms by (auto simp: stop_cleanup_def full_inv_def threads_ok_def server_inv_def wake_ok_def)

lemma stop_finish_threads: "full_inv s \<Longrightarrow> stop_finish env s = (s', evs) \<Longrightarrow> threads_ok s'"
proof (erule stop_finish_cases)
  assume inv: "full_inv s"
  then have len: "length (wk_pc s) = 3" by (simp add: full_inv_def server_inv_def)
  assume "start_rest env (stop_cleanup s) = (s', evs)"
  from start_rest_threads [OF this] show ?thesis using len by (simp add: stop_cleanup_def)
qed (auto intro: stop_cleanup_threads simp: full_inv_def)

lemma full_inv_step:
  assumes inv: "full_inv s" and "server_step env s evs s'"
  shows "full_inv s'"
proof -
  have "threads_ok s'" using assms(2)
  proof (cases rule: server_step.cases)
    case reader
    from reader(1) show ?thesis using inv by (rule reader_step_threads)
  next
    case (worker i)
    then show ?thesis using inv worker_step_threads by (simp add: SOCKET_POOL_SIZE_def)
  next
    case (spurious_queue i)
    then show ?thesis using inv by (simp add: wake_queue_threads SOCKET_POOL_SIZE_def)
  next
    case (spurious_state i)
    then show ?thesis using inv by (simp add: wake_state_threads SOCKET_POOL_SIZE_def)
  next
    case (set_file path)
    then show ?thesis using inv by (simp add: SetFileName_def full_inv_def threads_ok_def wake_ok_def)
  next
    case start
    then show ?thesis using inv StartSending_threads by blast
  next
    case stop
    then show ?thesis using inv by (simp add: StopSending_def stop_begin_threads full_inv_def)
  next
    case stop_joined
    then show ?thesis using inv stop_finish_threads by blast
  qed (use inv in \<open>simp_all add: channelStateChange_threads setLossRate_threads notify_state_threads stop_wake_threads
        stop_join_threads stop_timeout_threads\<close>)
  moreover have "server_inv s'" using assms by (auto simp: full_inv_def intro: server_step_inv)
  ultimately show ?thesis by (simp add: full_inv_def)
qed

interpretation threads: step_invariant "server_step env" full_inv for env
  by unfold_locales (rule full_inv_step)

lemma full_inv_new: "full_inv (new_Udpserver env host port)"
  by (simp add: full_inv_def server_inv_new threads_ok_new)

lemma reachable_full: "runs (server_step env) (new_Udpserver env host port) tr s \<Longrightarrow> full_inv s"
  by (rule threads.runs_preserve) (auto intro: full_inv_new)

end
