(* ===== verification/Server_Traces.thy ===== *)
theory Server_Traces
  imports Server_Threads
begin

text \<open>
  What the server does over whole runs: the queues as FIFO buffers, the fate of every packet taken
  from a queue, sequence numbers, wake-ups, and the end of the workers after \<open>StopSending\<close>. Each
  history property is a simulation of an abstract machine that reads the events.
\<close>

section \<open>Wake-ups and the end of a worker\<close>


text \<open>Steps that separate a worker from its end once the server is no longer running.\<close>

fun worker_distance :: "worker_pc \<Rightarrow> nat" where
  "worker_distance W_none = 0"
| "worker_distance W_top = 1"
| "worker_distance W_inner = 2"
| "worker_distance W_asleep = 3"
| "worker_distance W_run = 1"
| "worker_distance W_enabled = 3"
| "worker_distance (W_state x) = 2"
| "worker_distance (W_state_asleep x) = 3"
| "worker_distance (W_run2 x) = 1"
| "worker_distance (W_send x) = 3"
| "worker_distance (W_out sp) = 2"
| "worker_distance W_done = 0"

lemma worker_distance_bound: "worker_distance pc \<le> 3"
  by (cases pc) simp_all

lemma worker_distance_0: "worker_distance pc = 0 \<longleftrightarrow> pc = W_none \<or> pc = W_done"
  by (cases pc) simp_all

lemma worker_step_distance:
  assumes "server_inv s" "i < 3" "\<not> is_running s" "\<not> asleep (wk_pc s ! i)" "worker_step env i s = Inr (s', evs)"
  shows "\<not> is_running s' \<and> \<not> asleep (wk_pc s' ! i) \<and> worker_distance (wk_pc s' ! i) \<le> worker_distance (wk_pc s ! i) - 1"
proof -
  have len: "i < length (wk_pc s)" and pc: "pc_ok i (wk_pc s ! i)" using assms by (simp_all add: server_inv_def)
  have run: "\<not> is_running s'" using worker_step_frame [OF assms(5)] assms(3) by (simp add: worker_frame_def)
  show ?thesis
  proof (cases "wk_pc s ! i")
    case (W_out sp)
    then have "sp_ok i sp" using pc by simp
    from send_packet_out_eq [OF this, of env s] show ?thesis
      using W_out assms(5) len run by (auto simp: worker_step_def Let_def asleep_def)
  next
    case (W_send x)
    then show ?thesis
      using assms(5) len run
      by (auto simp: worker_step_def Let_def asleep_def stamp_packet_def split: if_splits option.splits)
  next
    case W_enabled
    then show ?thesis
      using assms(5) len run by (auto simp: worker_step_def Let_def asleep_def split: if_splits list.splits)
  qed (use assms len run in \<open>auto simp: worker_step_def Let_def asleep_def\<close>)
qed

fun worker_steps :: "os_env \<Rightarrow> nat \<Rightarrow> nat \<Rightarrow> server \<Rightarrow> server res" where
  "worker_steps env i 0 s = Inr s"
| "worker_steps env i (Suc n) s = bind_res (worker_step env i s) (\<lambda>(s', evs). worker_steps env i n s')"

lemma worker_steps_finish:
  assumes "server_inv s" "i < 3" "\<not> is_running s" "\<not> asleep (wk_pc s ! i)" "worker_distance (wk_pc s ! i) \<le> n"
  shows "\<exists>s'. worker_steps env i n s = Inr s' \<and> (wk_pc s' ! i = W_none \<or> wk_pc s' ! i = W_done)"
  using assms(1,3-5)
proof (induction n arbitrary: s)
  case 0
  then show ?case by (simp add: worker_distance_0)
next
  case (Suc n)
  obtain s' evs where st: "worker_step env i s = Inr (s', evs)" "server_inv s'"
    using worker_step_inv [OF Suc.prems(1) assms(2), of env] by blast
  have "\<not> is_running s' \<and> \<not> asleep (wk_pc s' ! i) \<and> worker_distance (wk_pc s' ! i) \<le> n"
    using worker_step_distance [OF Suc.prems(1) assms(2) Suc.prems(2,3) st(1)] Suc.prems(4) by auto
  then show ?case using Suc.IH [OF st(2)] st(1) by simp
qed

text \<open>
  Claim C16. After \<open>StopSending\<close> has woken the channels and while it waits for the threads, every worker returns from
  \<open>socketWorkerTask\<close> within three of its own steps, whatever it was doing, so that the wait for it
  needs no forced termination.
\<close>

theorem stopped_worker_returns:
  assumes "runs (server_step env) (new_Udpserver env host port) tr s" and "gui s = G_join n b" and "i < SOCKET_POOL_SIZE"
  shows "\<exists>s'. worker_steps env i 3 s = Inr s' \<and> (wk_pc s' ! i = W_none \<or> wk_pc s' ! i = W_done)"
proof -
  have inv: "full_inv s" by (rule reachable_full [OF assms(1)])
  then have "\<not> is_running s" "wake_ok s i"
    using assms(2,3) by (simp_all add: full_inv_def threads_ok_def SOCKET_POOL_SIZE_def)
  then show ?thesis
    using inv assms(2,3) worker_distance_bound
    by (intro worker_steps_finish) (auto simp: full_inv_def wake_ok_def asleep_def SOCKET_POOL_SIZE_def)
qed

section \<open>The queues\<close>

text \<open>The abstract queue of channel \<open>i\<close>: it accepts a packet at its end and gives up its head only.\<close>

fun queue_accept :: "nat \<Rightarrow> event \<Rightarrow> SendPacket list \<Rightarrow> SendPacket list option" where
  "queue_accept i (Enqueued j sp) q = (if j = i then Some (q @ [sp]) else Some q)"
| "queue_accept i (Dequeued j sp) q =
     (if j = i then (if q \<noteq> [] \<and> hd q = sp then Some (tl q) else None) else Some q)"
| "queue_accept i Queues_cleared q = Some []"
| "queue_accept i e q = Some q"

definition queue_at :: "nat \<Rightarrow> server \<Rightarrow> SendPacket list" where
  "queue_at i s = (if i < 3 then packetQueue (channels s ! i) else [])"

text \<open>Event lists with no event of the queue machine leave it alone.\<close>

definition quiet :: "event list \<Rightarrow> bool" where
  "quiet evs \<longleftrightarrow> (\<forall>e \<in> set evs. \<forall>i sp. e \<noteq> Enqueued i sp \<and> e \<noteq> Dequeued i sp \<and> e \<noteq> Queues_cleared)"

lemma replay_quiet: "quiet evs \<Longrightarrow> replay (queue_accept i) evs q = Some q"
proof (induction evs)
  case (Cons e evs)
  then show ?case by (cases e) (auto simp: quiet_def)
qed simp

lemma queue_at_ops [simp]:
  "queue_at i (goto j pc s) = queue_at i s" "queue_at i (wake_queue j s) = queue_at i s"
  "queue_at i (wake_state j s) = queue_at i s" "queue_at i (SetFileName p s) = queue_at i s"
  "queue_at i (stop_begin b s) = queue_at i s" "queue_at i (stop_join s) = queue_at i s" "queue_at i (notify_state s) = queue_at i s"
  "queue_at i (stop_cleanup s) = queue_at i s" "queue_at i (s\<lparr>gui := g\<rparr>) = queue_at i s"
  by (simp_all add: queue_at_def SetFileName_def stop_begin_def stop_join_def notify_state_def stop_cleanup_def split: gui_pc.splits nat.splits)

lemma queue_at_update:
  assumes "\<And>c. packetQueue (f c) = packetQueue c"
  shows "queue_at i (update_channel j f s) = queue_at i s"
  using assms by (cases "j < length (channels s)"; cases "i = j") (simp_all add: queue_at_def list_update_beyond)

lemma queue_at_channel_ops [simp]:
  "queue_at i (channelStateChange c on s) = queue_at i s" "queue_at i (setLossRate c r s) = queue_at i s"
  by (simp_all add: channelStateChange_def setLossRate_def Let_def queue_at_update)

lemma queue_at_stop_wake [simp]: "queue_at i (stop_wake s) = queue_at i s"
  by (simp add: stop_wake_def queue_at_def split: gui_pc.splits)

lemma channels_start_workers [simp]: "channels (start_workers env i n s) = channels s"
  by (induction n arbitrary: i s) (simp_all add: Let_def stop_begin_def)

lemma queue_start_rest:
  "start_rest env s = (s', evs) \<Longrightarrow> length (channels s) = 3 \<Longrightarrow> evs = [Queues_cleared] \<and> queue_at i s' = []"
  by (auto simp: start_rest_def queue_at_def Let_def split: if_splits)

lemma queue_reader_step:
  assumes "reader_step env s = Inr (s', evs)" "server_inv s"
  shows "replay (queue_accept i) evs (queue_at i s) = Some (queue_at i s')"
proof (cases "rd_pc s = R_push \<and> rd_pc s' = R_wake")
  case True
  have "nat (target_channel s) < 3" "length (channels s) = 3"
    using assms(2) True by (simp_all add: server_inv_def reader_ok_def nat_less_iff)
  then show ?thesis
    using reader_step_frame [OF assms] True by (auto simp: queue_at_def)
next
  case False
  then have ch: "channels s' = channels s" using reader_step_frame [OF assms] by (simp split: if_splits)
  have "quiet evs"
    using assms(1) False
    by (auto simp: reader_step_def read_chunk_def Let_def bind_res_Inr_iff case_prod_beta quiet_def
        split: reader_pc.splits if_splits option.splits list.splits)
  then show ?thesis using ch by (simp add: replay_quiet queue_at_def)
qed

lemma queue_worker_step:
  assumes st: "worker_step env j s = Inr (s', evs)" and inv: "server_inv s" and j: "j < 3"
  shows "replay (queue_accept i) evs (queue_at i s) = Some (queue_at i s')"
proof (cases "wk_pc s ! j")
  case W_enabled
  have len: "length (channels s) = 3" using inv by (simp add: server_inv_def)
  show ?thesis
  proof (cases "packetQueue (channels s ! j)")
    case (Cons sp rest)
    consider (off) "s' = goto j W_top s" "evs = []"
      | (taken) "s' = goto j (W_state (Some sp)) (update_channel j (packetQueue_update (\<lambda>_. rest)) s)"
          "evs = [Dequeued j sp]"
      using st W_enabled Cons by (auto simp: worker_step_def Let_def split: if_splits)
    then show ?thesis
    proof cases
      case taken
      show ?thesis unfolding taken using Cons j len by (cases "i = j") (simp_all add: queue_at_def)
    qed simp
  qed (use st W_enabled in \<open>auto simp: worker_step_def Let_def split: if_splits\<close>)
next
  case (W_send x)
  then show ?thesis
    using st by (auto simp: worker_step_def Let_def stamp_packet_def split: if_splits option.splits) 
      (auto simp: queue_at_def)
next
  case (W_out sp)
  then show ?thesis
    using st by (auto simp: worker_step_def Let_def send_packet_out_def bind_res_Inr_iff split: if_splits option.splits)
      (auto simp: queue_at_def)
qed (use st in \<open>auto simp: worker_step_def Let_def split: option.splits if_splits\<close>)

lemma queue_step:
  assumes inv: "full_inv s" and "server_step env s evs s'"
  shows "replay (queue_accept i) evs (queue_at i s) = Some (queue_at i s')"
proof -
  have s: "server_inv s" and len: "length (channels s) = 3" using inv by (simp_all add: full_inv_def server_inv_def)
  show ?thesis using assms(2)
  proof (cases rule: server_step.cases)
    case reader
    from reader(1) show ?thesis using s by (rule queue_reader_step)
  next
    case (worker j)
    then show ?thesis using s queue_worker_step by (simp add: SOCKET_POOL_SIZE_def)
  next
    case start
    then show ?thesis
      using queue_start_rest [of env s s' evs i] len by (auto simp: StartSending_def split: if_splits)
  next
    case stop_joined
    from stop_joined(2) show ?thesis
      by (cases rule: stop_finish_cases) (use queue_start_rest [of env "stop_cleanup s" s' evs i] len in auto)
  qed (auto simp: StopSending_def)
qed

interpretation fifo: step_simulation "server_step env" full_inv "queue_accept i" "queue_at i" for env i
  by unfold_locales (rule queue_step)

text \<open>
  Claim C14. Every channel queue is a FIFO buffer between the reader and its worker: in every run
  the abstract queue, which takes packets at its end and gives up only its head, accepts all
  \<open>push_back\<close> and \<open>pop_front\<close> events of the channel, is emptied exactly by \<open>StartSending\<close>, and its
  content is the content of \<open>packetQueue\<close>. No packet is lost, duplicated or reordered in a queue.
\<close>

theorem channel_queue_fifo:
  assumes "runs (server_step env) (new_Udpserver env host port) tr s" and "i < SOCKET_POOL_SIZE"
  shows "replay (queue_accept i) tr [] = Some (packetQueue (channels s ! i))"
proof -
  have "queue_at i (new_Udpserver env host port) = []"
    by (simp add: queue_at_def new_Udpserver_def initializeSockets_def SOCKET_POOL_SIZE_def new_ChannelContext_def)
  then show ?thesis
    using fifo.runs_replay [OF assms(1) full_inv_new, of i] assms(2) by (simp add: queue_at_def SOCKET_POOL_SIZE_def)
qed

section \<open>The fate of a packet\<close>

text \<open>
  The packet a worker holds: taken when it holds none, stamped at most by changing its sequence
  number, and given up by exactly one of sending, dropping and discarding it.
\<close>

fun flight_accept :: "nat \<Rightarrow> event \<Rightarrow> SendPacket option \<Rightarrow> SendPacket option option" where
  "flight_accept i (Dequeued j sp) x = (if j = i then (if x = None then Some (Some sp) else None) else Some x)"
| "flight_accept i (Stamped j sp) x =
     (if j = i then (case x of None \<Rightarrow> None | Some sp0 \<Rightarrow> if sp = sp0\<lparr>seq := seq sp\<rparr> then Some (Some sp) else None)
      else Some x)"
| "flight_accept i (Sent j sp cells r) x = (if j = i then (if x = Some sp then Some None else None) else Some x)"
| "flight_accept i (Dropped j sp) x = (if j = i then (if x = Some sp then Some None else None) else Some x)"
| "flight_accept i (Discarded j sp) x = (if j = i then (if x = Some sp then Some None else None) else Some x)"
| "flight_accept i e x = Some x"

definition flight_at :: "nat \<Rightarrow> server \<Rightarrow> SendPacket option" where
  "flight_at i s = (if i < 3 then in_flight (wk_pc s ! i) else None)"

lemma in_flight_simps [simp]:
  "in_flight W_none = None" "in_flight W_top = None" "in_flight W_inner = None" "in_flight W_asleep = None"
  "in_flight W_run = None" "in_flight W_enabled = None" "in_flight W_done = None" "in_flight (W_state x) = x"
  "in_flight (W_state_asleep x) = x" "in_flight (W_run2 x) = x" "in_flight (W_send x) = x" "in_flight (W_out sp) = Some sp"
  by (simp_all add: in_flight_def)

text \<open>The worker an event belongs to.\<close>

fun worker_of :: "event \<Rightarrow> nat option" where
  "worker_of (Dequeued j sp) = Some j"
| "worker_of (Stamped j sp) = Some j"
| "worker_of (Sent j sp cells r) = Some j"
| "worker_of (Dropped j sp) = Some j"
| "worker_of (Discarded j sp) = Some j"
| "worker_of e = None"

lemma flight_unrelated: "\<forall>e \<in> set evs. worker_of e \<noteq> Some i \<Longrightarrow> replay (flight_accept i) evs x = Some x"
proof (induction evs)
  case (Cons e evs)
  then show ?case by (cases e) simp_all
qed simp

lemma flight_worker_step:
  assumes st: "worker_step env j s = Inr (s', evs)" and inv: "server_inv s" and j: "j < 3"
  shows "replay (flight_accept i) evs (flight_at i s) = Some (flight_at i s')"
proof -
  have len: "j < length (wk_pc s)" and pc: "pc_ok j (wk_pc s ! j)" using inv j by (simp_all add: server_inv_def)
  have own: "replay (flight_accept j) evs (in_flight (wk_pc s ! j)) = Some (in_flight (wk_pc s' ! j)) \<and>
    (\<forall>e \<in> set evs. worker_of e = Some j)"
  proof (cases "wk_pc s ! j")
    case W_enabled
    then show ?thesis using st len by (auto simp: worker_step_def Let_def split: if_splits list.splits)
  next
    case (W_send x)
    then show ?thesis
      using st len by (auto simp: worker_step_def Let_def stamp_packet_def split: if_splits option.splits)
  next
    case (W_out sp)
    then have "sp_ok j sp" using pc by simp
    from send_packet_out_eq [OF this, of env s] show ?thesis
      using st W_out len by (auto simp: worker_step_def Let_def)
  next
    case (W_run2 x)
    then show ?thesis using st len by (auto simp: worker_step_def Let_def split: if_splits option.splits)
  qed (use st len in \<open>auto simp: worker_step_def Let_def\<close>)
  show ?thesis
  proof (cases "i = j")
    case True
    then show ?thesis using own j by (simp add: flight_at_def)
  next
    case False
    then have "flight_at i s' = flight_at i s"
      using worker_step_frame [OF st] by (simp add: flight_at_def worker_frame_def)
    then show ?thesis using flight_unrelated [of evs i] own False by simp
  qed
qed

lemma flight_reader_step:
  assumes st: "reader_step env s = Inr (s', evs)" and inv: "server_inv s"
  shows "replay (flight_accept i) evs (flight_at i s) = Some (flight_at i s')"
proof -
  have "rd_pc s = R_wake \<Longrightarrow> nat (target_channel s) < length (wk_pc s)"
    using inv by (simp add: server_inv_def reader_ok_def nat_less_iff)
  then have "flight_at i s' = flight_at i s"
    using reader_step_frame [OF st inv] by (auto simp: flight_at_def split: if_splits)
  moreover have "replay (flight_accept i) evs (flight_at i s) = Some (flight_at i s)"
    using st by (intro flight_unrelated)
      (auto simp: reader_step_def read_chunk_def Let_def bind_res_Inr_iff case_prod_beta
        split: reader_pc.splits if_splits option.splits list.splits)
  ultimately show ?thesis by simp
qed

lemma flight_start_rest:
  assumes eq: "start_rest env s = (s', evs)" and len: "length (wk_pc s) = 3" and none: "\<forall>i < 3. wk_pc s ! i = W_none"
    and g: "gui s = G_idle"
  shows "evs = [Queues_cleared] \<and> flight_at i s' = None"
proof -
  have "evs = [Queues_cleared]" using eq by (auto simp: start_rest_def Let_def)
  moreover from start_rest_started [OF eq len g none] have "wk_pc s' ! i = W_none \<or> wk_pc s' ! i = W_top" if "i < 3"
    using that none by (cases "Suc i < workerThreads s'") (auto simp: started_def)
  ultimately show ?thesis by (auto simp: flight_at_def)
qed

text \<open>When all threads have been waited for, no worker holds a packet.\<close>

lemma finished_flight:
  assumes "full_inv s" "gui s = G_join 0 b"
  shows "flight_at i s = None"
proof -
  have "thread_finished (Suc i) s" if "i < 3"
    using assms that by (simp add: full_inv_def threads_ok_def)
  then show ?thesis by (auto simp: flight_at_def thread_finished_def worker_ended_def)
qed

lemma flight_step:
  assumes inv: "full_inv s" and "server_step env s evs s'"
  shows "replay (flight_accept i) evs (flight_at i s) = Some (flight_at i s')"
proof -
  have s: "server_inv s" and len: "length (wk_pc s) = 3" using inv by (simp_all add: full_inv_def server_inv_def)
  show ?thesis using assms(2)
  proof (cases rule: server_step.cases)
    case reader
    from reader(1) show ?thesis using s by (rule flight_reader_step)
  next
    case (worker j)
    then show ?thesis using s flight_worker_step by (simp add: SOCKET_POOL_SIZE_def)
  next
    case (channel_state c on)
    then show ?thesis by (auto simp: channelStateChange_def Let_def flight_at_def)
  next
    case start
    show ?thesis
    proof (cases "currentFilePath s \<noteq> [] \<and> \<not> is_running s \<and> workerThreads s = 0")
      case True
      then have "start_rest env s = (s', evs)" "\<forall>i < 3. wk_pc s ! i = W_none"
        using start inv by (simp_all add: StartSending_def full_inv_def threads_ok_def)
      then show ?thesis using flight_start_rest [of env s s' evs i] len start by (auto simp: flight_at_def)
    next
      case False
      then show ?thesis using start by (auto simp: StartSending_def stop_begin_def flight_at_def split: if_splits)
    qed
  next
    case (notify j)
    then have "j < length (wk_pc s)" using inv len by (simp add: full_inv_def threads_ok_def)
    then show ?thesis using notify by (simp add: notify_state_def flight_at_def)
  next
    case stop_joined
    have none: "\<forall>i < 3. wk_pc (stop_cleanup s) ! i = W_none" using len by simp
    from stop_joined(2) show ?thesis
    proof (cases rule: stop_finish_cases)
      case restarted
      then show ?thesis
        using finished_flight [OF inv restarted(1), of i] flight_start_rest [OF restarted(2) _ none, of i] len by simp
    next
      case stopped
      then show ?thesis using finished_flight [OF inv stopped(1), of i] none by (auto simp: flight_at_def)
    qed simp
  next
    case stop_waking
    have "gui_ok s (gui s)" using inv by (simp add: full_inv_def threads_ok_def)
    then show ?thesis using stop_waking len
      by (cases "gui s") (auto simp: stop_wake_def SOCKET_POOL_SIZE_def flight_at_def)
  qed (use len in \<open>auto simp: StopSending_def stop_begin_def SetFileName_def setLossRate_def stop_join_def flight_at_def SOCKET_POOL_SIZE_def
      split: gui_pc.splits nat.splits\<close>)
qed

interpretation fate: step_simulation "server_step env" full_inv "flight_accept i" "flight_at i" for env i
  by unfold_locales (rule flight_step)

text \<open>A worker gives a packet up unsent and undropped only when the server is no longer running.\<close>

lemma discarded_when_stopped:
  assumes inv: "server_inv s" and st: "server_step env s evs s'" and e: "Discarded i sp \<in> set evs"
  shows "\<not> is_running s"
  using st
proof (cases rule: server_step.cases)
  case reader
  from reader(1) show ?thesis using e
    by (auto simp: reader_step_def read_chunk_def Let_def bind_res_Inr_iff case_prod_beta
        split: reader_pc.splits if_splits option.splits list.splits)
next
  case (worker j)
  have pc: "pc_ok j (wk_pc s ! j)" using inv worker(1) by (simp add: server_inv_def SOCKET_POOL_SIZE_def)
  show ?thesis
  proof (cases "wk_pc s ! j")
    case (W_out sq)
    then have "sp_ok j sq" using pc by simp
    from send_packet_out_eq [OF this, of env s] show ?thesis using worker(2) W_out e by (auto simp: worker_step_def)
  next
    case (W_send x)
    then show ?thesis
      using worker(2) pc e by (auto simp: worker_step_def Let_def stamp_packet_def sp_ok_def split: if_splits option.splits)
  qed (use worker(2) e in \<open>auto simp: worker_step_def Let_def split: if_splits option.splits list.splits\<close>)
next
  case start
  then show ?thesis using e by (auto simp: StartSending_def start_rest_def Let_def split: if_splits)
next
  case stop_joined
  from stop_joined(2) show ?thesis by (cases rule: stop_finish_cases) (use e in \<open>auto simp: start_rest_def Let_def\<close>)
qed (use e in auto)

text \<open>
  Claim C15. Every packet that a worker takes from its queue meets exactly one fate before the worker
  takes the next: it is handed to \<open>sendto\<close>, dropped by the loss simulation, or discarded; between taking and sending only its
  sequence number changes, and in every reachable state the packet still open, if any, is the one the worker holds. A packet
  is discarded only after the server has stopped running: no step made while \<open>is_running\<close> is set discards one, so a worker of a running server
  sends or drops every packet it takes.
\<close>

theorem packet_fate:
  assumes "runs (server_step env) (new_Udpserver env host port) tr s" and "i < SOCKET_POOL_SIZE"
  shows "replay (flight_accept i) tr None = Some (in_flight (wk_pc s ! i)) \<and>
    (\<forall>evs s' sp. server_step env s evs s' \<and> Discarded i sp \<in> set evs \<longrightarrow> \<not> is_running s)"
proof -
  have "flight_at i (new_Udpserver env host port) = None"
    by (simp add: flight_at_def new_Udpserver_def initializeSockets_def SOCKET_POOL_SIZE_def)
  then have "replay (flight_accept i) tr None = Some (in_flight (wk_pc s ! i))"
    using fate.runs_replay [OF assms(1) full_inv_new, of i] assms(2) by (simp add: flight_at_def SOCKET_POOL_SIZE_def)
  then show ?thesis using discarded_when_stopped [OF reachable_inv [OF assms(1)]] by blast
qed

end
