(* ===== verification/Server_Stream.thy ===== *)
theory Server_Stream
  imports Server_Traces
begin

text \<open>
  The server from the file to the wire: the packets that enter the queues are the abstract FEC stream
  of the chunks read from the file, every datagram is a queued packet in its wire layout, sequence
  numbers count the stamped packets, and what happens to a server that was stopped once.
\<close>

section \<open>Chunks and queued packets\<close>

definition chunks_of :: "event list \<Rightarrow> u8 list list" where
  "chunks_of tr = concat (map (\<lambda>e. case e of Chunk_read c \<Rightarrow> [c] | _ \<Rightarrow> []) tr)"

definition queued_of :: "event list \<Rightarrow> packet list" where
  "queued_of tr = concat (map (\<lambda>e. case e of Enqueued i sp \<Rightarrow> [the (packet_to_send sp)] | _ \<Rightarrow> []) tr)"

lemma chunks_of_append [simp]: "chunks_of (xs @ ys) = chunks_of xs @ chunks_of ys"
  by (simp add: chunks_of_def)

lemma queued_of_append [simp]: "queued_of (xs @ ys) = queued_of xs @ queued_of ys"
  by (simp add: queued_of_def)

lemma trace_views_simps [simp]:
  "chunks_of [] = []" "queued_of [] = []" "chunks_of (Chunk_read c # tr) = c # chunks_of tr"
  "chunks_of (Spilled n # tr) = chunks_of tr" "queued_of (Chunk_read c # tr) = queued_of tr"
  "queued_of (Spilled n # tr) = queued_of tr" "chunks_of (Enqueued i sp # tr) = chunks_of tr"
  "queued_of (Enqueued i sp # tr) = the (packet_to_send sp) # queued_of tr"
  "chunks_of (Paused n # tr) = chunks_of tr" "queued_of (Paused n # tr) = queued_of tr"
  "chunks_of (Queues_cleared # tr) = chunks_of tr" "queued_of (Queues_cleared # tr) = queued_of tr"
  by (simp_all add: chunks_of_def queued_of_def)

lemma trace_views_worker:
  "\<forall>e \<in> set evs. worker_of e \<noteq> None \<Longrightarrow> chunks_of evs = [] \<and> queued_of evs = []"
proof (induction evs)
  case (Cons e evs)
  then show ?case by (cases e) (simp_all add: chunks_of_def queued_of_def)
qed simp

lemma sysword_ops [simp]:
  "sysword (goto i pc s) = sysword s" "sysword (update_channel i f s) = sysword s"
  "sysword (wake_queue i s) = sysword s" "sysword (wake_state i s) = sysword s"
  "sysword (stop_begin b s) = sysword s" "fec (stop_begin b s) = fec s"
  "sysword (SetFileName p s) = sysword s" "fec (SetFileName p s) = fec s"
  "sysword (channelStateChange c on s) = sysword s" "fec (channelStateChange c on s) = fec s"
  "sysword (setLossRate c r s) = sysword s" "fec (setLossRate c r s) = fec s"
  "sysword (stop_wake s) = sysword s" "fec (stop_wake s) = fec s" "sysword (stop_join s) = sysword s" "fec (stop_join s) = fec s"
  "sysword (notify_state s) = sysword s" "fec (notify_state s) = fec s" "sysword (stop_cleanup s) = sysword s"
  by (simp_all add: goto_def update_channel_def wake_queue_def wake_state_def stop_begin_def SetFileName_def
      channelStateChange_def setLossRate_def stop_wake_def stop_join_def notify_state_def stop_cleanup_def Let_def
      split: worker_pc.splits gui_pc.splits nat.splits)

lemma start_workers_keep [simp]:
  "sysword (start_workers env i n s) = sysword s" "fec (start_workers env i n s) = fec s"
  "sockets (start_workers env i n s) = sockets s" "globalSeqCounter (start_workers env i n s) = globalSeqCounter s"
  by (induction n arbitrary: i s) (simp_all add: Let_def, simp_all add: stop_begin_def)

lemma start_rest_keep:
  "start_rest env s = (s', evs) \<Longrightarrow> evs = [Queues_cleared] \<and> sysword s' = sysword s \<and> fec s' = fec s \<and>
     sockets s' = sockets s \<and> globalSeqCounter s' = globalSeqCounter s"
  by (auto simp: start_rest_def Let_def)

lemma worker_events: "worker_step env j s = Inr (s', evs) \<Longrightarrow> \<forall>e \<in> set evs. worker_of e = Some j"
  by (auto simp: worker_step_def Let_def stamp_packet_def send_packet_out_def bind_res_Inr_iff
      split: worker_pc.splits if_splits option.splits list.splits)

lemma worker_sysword: "worker_step env j s = Inr (s', evs) \<Longrightarrow> sysword s' = sysword s"
  by (auto simp: worker_step_def Let_def stamp_packet_def send_packet_out_def bind_res_Inr_iff
      split: worker_pc.splits if_splits option.splits list.splits)

lemma stop_finish_keep:
  assumes "stop_finish env s = (s', evs)"
  shows "sysword s' = sysword s \<and> fec s' = fec s \<and> globalSeqCounter s' = globalSeqCounter s \<and> set evs \<subseteq> {Queues_cleared}"
  using assms by (cases rule: stop_finish_cases) (auto dest: start_rest_keep)

lemma cleared_views: "set evs \<subseteq> {Queues_cleared} \<Longrightarrow> chunks_of evs = [] \<and> queued_of evs = []"
  by (induction evs) auto

text \<open>Only the reader touches the FEC module.\<close>

lemma non_reader_step:
  assumes "server_step env s evs s'"
  shows "reader_step env s = Inr (s', evs) \<or>
    (fec s' = fec s \<and> sysword s' = sysword s \<and> chunks_of evs = [] \<and> queued_of evs = [])"
  using assms
proof (cases rule: server_step.cases)
  case (worker i)
  then show ?thesis
    using worker_step_frame [of env i s s' evs] worker_sysword [of env i s s' evs]
      trace_views_worker [of evs] worker_events [of env i s s' evs]
    by (auto simp: worker_frame_def)
next
  case start
  then show ?thesis using start_rest_keep [of env s s' evs] by (auto simp: StartSending_def split: if_splits)
next
  case stop_joined
  then show ?thesis using stop_finish_keep [of env s s' evs] cleared_views [of evs] by blast
qed (auto simp: StopSending_def chunks_of_def queued_of_def)

section \<open>The stream\<close>

text \<open>The significant size of all packets: that of the first chunk the server ever read.\<close>

definition stream_size :: "u8 list list \<Rightarrow> nat" where
  "stream_size cs = (case cs of [] \<Rightarrow> 0 | c # _ \<Rightarrow> 15 + length c)"

definition stream_payloads :: "u8 list list \<Rightarrow> u8 list list" where
  "stream_payloads cs = map (\<lambda>c. pad_payload (stream_size cs) (flight_payload 0 c)) cs"

definition stream_hist :: "event list \<Rightarrow> server \<Rightarrow> bool" where
  "stream_hist tr s \<longleftrightarrow>
     (let cs = chunks_of tr; ps = stream_payloads cs; g = length cs div 10 in
      sysword s = 0 \<and> queued_of tr @ buffer_packets (fec s) = stream_spec 10 2 ps \<and>
      fec_rel 10 2 (stream_size cs) (int g) (drop (g * 10) ps) (fec s) \<and>
      fec_first_use (fec s) = (cs = []) \<and> stream_size cs \<le> 1024)"

lemma stream_hist_new: "stream_hist [] (new_Udpserver env host port)"
proof -
  have "sysword (open_sockets env i n s) = sysword s" for i n s
    by (induction n arbitrary: i s) simp_all
  then show ?thesis
    using fec_rel_new [of 10 2 0]
    by (simp add: stream_hist_def new_Udpserver_def initializeSockets_def stream_payloads_def stream_size_def
        stream_spec_def nth_group_def group_data_def Let_def)
      (simp add: new_ForwardErrorCorrection_def)
qed

lemma stream_payloads_snoc:
  "cs \<noteq> [] \<Longrightarrow> stream_payloads (cs @ [c]) = stream_payloads cs @ [pad_payload (stream_size cs) (flight_payload 0 c)]"
  "cs \<noteq> [] \<Longrightarrow> stream_size (cs @ [c]) = stream_size cs"
  "stream_size [c] = 15 + length c"
  by (cases cs; simp add: stream_payloads_def stream_size_def)+

lemma length_stream_payloads [simp]: "length (stream_payloads cs) = length cs"
  by (simp add: stream_payloads_def)

lemma stream_hist_chunk:
  assumes hist: "stream_hist tr s" and c: "length c \<le> 1009"
    and fec: "PacketByFEC d (mem_of (flight_payload (sysword s) c) @ replicate (2000 - (15 + length c)) None)
      (int (15 + length c)) fec_k fec_r (fec s) = Inr f" and s': "fec s' = f" "sysword s' = sysword s"
  shows "stream_hist (tr @ [Chunk_read c, Spilled x]) s'"
proof -
  let ?cs = "chunks_of tr"
  let ?ps = "stream_payloads ?cs" and ?g = "length ?cs div 10"
  let ?ds = "drop (?g * 10) ?ps"
  let ?m = "stream_size (?cs @ [c])"
  let ?p = "pad_payload ?m (flight_payload 0 c)"
  have h: "sysword s = 0" "queued_of tr @ buffer_packets (fec s) = stream_spec 10 2 ?ps"
    "fec_rel 10 2 (stream_size ?cs) (int ?g) ?ds (fec s)" "fec_first_use (fec s) = (?cs = [])" "stream_size ?cs \<le> 1024"
    using hist by (simp_all add: stream_hist_def Let_def)
  have m: "?m = (if fec_first_use (fec s) then 15 + length c else stream_size ?cs)"
    using h(4) stream_payloads_snoc by (cases "?cs = []") simp_all
  have ps: "stream_payloads (?cs @ [c]) = ?ps @ [?p]"
    using stream_payloads_snoc(1,2) [of ?cs c] stream_payloads_snoc(3) [of c]
    by (cases "?cs = []") (simp_all add: stream_payloads_def)
  have first: "fec_first_use (fec s) \<longrightarrow> ?ds = []" using h(4) by (simp add: stream_payloads_def)
  obtain f' where f': "PacketByFEC d (mem_of (flight_payload 0 c) @ replicate (2000 - (15 + length c)) None)
      (int (15 + length c)) fec_k fec_r (fec s) = Inr f'"
    "buffer_packets f' = buffer_packets (fec s) @ emitted 10 2 (int ?g) ?ds ?p"
    "case next_group 10 (int ?g) ?ds ?p of (g', ds') \<Rightarrow> fec_rel 10 2 ?m g' ds' f'" "\<not> fec_first_use f'"
    using PacketByFEC_chunk [OF h(3,5) first c m, of d 0] by (elim exE conjE) (rule that)
  have "f' = f" using f'(1) fec h(1) by simp
  moreover have "stream_spec 10 2 (?ps @ [?p]) = stream_spec 10 2 ?ps @ emitted 10 2 (int ?g) ?ds ?p"
    "next_group 10 (int ?g) ?ds ?p = (int (Suc (length ?cs) div 10), drop (Suc (length ?cs) div 10 * 10) (?ps @ [?p]))"
    using stream_spec_snoc(1) [where k = 10 and r = 2 and ps = ?ps and p = ?p]
      stream_spec_snoc(2) [where k = 10 and ps = ?ps and p = ?p] by simp_all
  moreover have "?m \<le> 1024" using m h(5) c by simp
  ultimately show ?thesis
    using f' h(1,2) s' ps by (simp add: stream_hist_def Let_def flip: append_assoc)
qed

lemma stream_reader_step:
  assumes inv: "server_inv s" and hist: "stream_hist tr s" and st: "reader_step env s = Inr (s', evs)"
  shows "stream_hist (tr @ evs) s'"
proof (cases "rd_pc s")
  case R_read
  show ?thesis
  proof (cases "read_error env (n_reads s)")
    case True
    then show ?thesis using st R_read hist by (auto simp: reader_step_def read_chunk_def Let_def stream_hist_def)
  next
    case False
    from read_chunk_eq [OF inv R_read False] obtain f buf where
      f: "PacketByFEC (dchecks_on env) (mem_of (flight_payload (sysword s) (take readChunkSize (rd_file s))) @
          replicate (2000 - (15 + length (take readChunkSize (rd_file s)))) None)
          (int (15 + length (take readChunkSize (rd_file s)))) fec_k fec_r (fec s) = Inr f"
        "length (take readChunkSize (rd_file s)) \<le> 1009"
      and r: "read_chunk env s = Inr (s\<lparr>n_reads := n_reads s + 1, rd_file := drop readChunkSize (rd_file s), data_buf := buf,
        bytesRead := length (take readChunkSize (rd_file s)), fec_input_size := 15 + length (take readChunkSize (rd_file s)),
        fec := f, rd_pc := R_push\<rparr>, [Chunk_read (take readChunkSize (rd_file s)), Spilled 991])"
      by blast
    have "evs = [Chunk_read (take readChunkSize (rd_file s)), Spilled 991]" "fec s' = f" "sysword s' = sysword s"
      using st R_read r by (auto simp: reader_step_def)
    then show ?thesis using stream_hist_chunk [OF hist f(2,1)] by simp
  qed
next
  case R_push
  show ?thesis
  proof (cases "buffer_packets (fec s)")
    case (Cons p ps)
    have "fec_rel 10 2 n g ds ((fec s)\<lparr>buffer_packets := x\<rparr>) = fec_rel 10 2 n g ds (fec s)" for n g ds x
      by (simp add: fec_rel_def)
    then show ?thesis
      using st R_push Cons hist
      by (auto simp: reader_step_def Let_def stream_hist_def make_SendPacket_def split: if_splits)
  qed (use st R_push hist in \<open>auto simp: reader_step_def stream_hist_def\<close>)
qed (use st hist in \<open>auto simp: reader_step_def Let_def stream_hist_def split: if_splits option.splits\<close>)

lemma stream_step:
  assumes "full_inv s" "stream_hist tr s" "server_step env s evs s'"
  shows "stream_hist (tr @ evs) s'"
proof -
  consider (reader) "reader_step env s = Inr (s', evs)"
    | (other) "fec s' = fec s" "sysword s' = sysword s" "chunks_of evs = []" "queued_of evs = []"
    using non_reader_step [OF assms(3)] by blast
  then show ?thesis
  proof cases
    case reader
    then show ?thesis using assms by (auto simp: full_inv_def intro: stream_reader_step)
  next
    case other
    then show ?thesis using assms(2) by (simp add: stream_hist_def)
  qed
qed

interpretation stream: step_history "server_step env" full_inv stream_hist for env
  by unfold_locales (rule stream_step)

text \<open>
  Claim C3. From file to queues: in every run, over any number of \<open>StartSending\<close> calls and any
  interleaving, the packets put into the queues so far, in the order they were put there over all
  channels, followed by those the FEC module has still buffered, are exactly the abstract FEC stream
  with \<open>k = 10\<close>, \<open>r = 2\<close> of the chunks read so far, each behind its 15-byte header and padded or
  cut to the size that the very first chunk had.
\<close>

theorem queued_packets_are_stream:
  assumes "runs (server_step env) (new_Udpserver env host port) tr s"
  shows "queued_of tr @ buffer_packets (fec s) = stream_spec 10 2 (stream_payloads (chunks_of tr))"
  using stream.runs_record [OF assms full_inv_new stream_hist_new] by (simp add: stream_hist_def Let_def)

section \<open>Sequence numbers\<close>

definition seqs_of :: "event list \<Rightarrow> u8 list" where
  "seqs_of tr = concat (map (\<lambda>e. case e of Stamped i sp \<Rightarrow> [seq sp] | _ \<Rightarrow> []) tr)"

definition seq_hist :: "event list \<Rightarrow> server \<Rightarrow> bool" where
  "seq_hist tr s \<longleftrightarrow> seqs_of tr = map of_nat [0..<length (seqs_of tr)] \<and> globalSeqCounter s = of_nat (length (seqs_of tr))"

lemma seqs_of_append [simp]: "seqs_of (xs @ ys) = seqs_of xs @ seqs_of ys"
  by (simp add: seqs_of_def)

lemma seq_hist_same:
  "seq_hist tr s \<Longrightarrow> seqs_of evs = [] \<Longrightarrow> globalSeqCounter s' = globalSeqCounter s \<Longrightarrow> seq_hist (tr @ evs) s'"
  by (simp add: seq_hist_def)

lemma seq_hist_stamp:
  "seq_hist tr s \<Longrightarrow> seqs_of evs = [globalSeqCounter s] \<Longrightarrow> globalSeqCounter s' = globalSeqCounter s + 1 \<Longrightarrow>
   seq_hist (tr @ evs) s'"
  by (simp add: seq_hist_def)

lemma seq_worker_step:
  assumes "seq_hist tr s" "worker_step env j s = Inr (s', evs)"
  shows "seq_hist (tr @ evs) s'"
proof -
  have "(seqs_of evs = [] \<and> globalSeqCounter s' = globalSeqCounter s) \<or>
      (seqs_of evs = [globalSeqCounter s] \<and> globalSeqCounter s' = globalSeqCounter s + 1)"
    using assms(2)
    by (auto simp: worker_step_def Let_def stamp_packet_def send_packet_out_def bind_res_Inr_iff seqs_of_def
        split: worker_pc.splits if_splits option.splits list.splits)
  then show ?thesis using assms(1) seq_hist_same seq_hist_stamp by blast
qed

lemma seqs_of_reader: "reader_step env s = Inr (s', evs) \<Longrightarrow> seqs_of evs = []"
  by (auto simp: reader_step_def read_chunk_def Let_def bind_res_Inr_iff case_prod_beta seqs_of_def
      split: reader_pc.splits if_splits option.splits list.splits)

lemma seqs_of_cleared: "set evs \<subseteq> {Queues_cleared} \<Longrightarrow> seqs_of evs = []"
  by (induction evs) (auto simp: seqs_of_def)

lemma globalSeqCounter_ops [simp]:
  "globalSeqCounter (stop_begin b s) = globalSeqCounter s" "globalSeqCounter (SetFileName p s) = globalSeqCounter s"
  "globalSeqCounter (channelStateChange c on s) = globalSeqCounter s"
  "globalSeqCounter (setLossRate c r s) = globalSeqCounter s" "globalSeqCounter (stop_wake s) = globalSeqCounter s"
  "globalSeqCounter (stop_join s) = globalSeqCounter s" "globalSeqCounter (notify_state s) = globalSeqCounter s"
  by (simp_all add: stop_begin_def SetFileName_def channelStateChange_def setLossRate_def stop_wake_def stop_join_def
      notify_state_def Let_def split: gui_pc.splits nat.splits)

lemma seq_step:
  assumes "full_inv s" "seq_hist tr s" "server_step env s evs s'"
  shows "seq_hist (tr @ evs) s'"
  using assms(3)
proof (cases rule: server_step.cases)
  case reader
  then show ?thesis
    using assms(1,2) reader_step_frame [of env s s' evs] seqs_of_reader [of env s s' evs] seq_hist_same
    by (auto simp: full_inv_def)
next
  case (worker i)
  then show ?thesis using assms(2) seq_worker_step by blast
next
  case start
  have "seqs_of evs = []" "globalSeqCounter s' = globalSeqCounter s"
    using start start_rest_keep [of env s s' evs] by (auto simp: StartSending_def seqs_of_def split: if_splits)
  then show ?thesis using assms(2) seq_hist_same by blast
next
  case stop_joined
  then show ?thesis
    using assms(2) seq_hist_same seqs_of_cleared [of evs] stop_finish_keep [of env s s' evs] by blast
qed (use assms(2) in \<open>auto simp: StopSending_def seq_hist_def seqs_of_def\<close>)

interpretation seqs: step_history "server_step env" full_inv seq_hist for env
  by unfold_locales (rule seq_step)

text \<open>
  Claim C24. Sequence numbers are handed out without gap or repetition over all channels: in every
  run the \<open>n\<close>-th packet that passes the loss simulation, whichever worker handles it, gets the
  number \<open>n\<close> modulo 256, and the counter is never reset, not even by a new \<open>StartSending\<close>.
\<close>

theorem sequence_numbers_consecutive:
  assumes "runs (server_step env) (new_Udpserver env host port) tr s"
  shows "seqs_of tr = map of_nat [0..<length (seqs_of tr)]"
proof -
  have "globalSeqCounter (new_Udpserver env host port) = 0"
    by (simp add: new_Udpserver_def initializeSockets_def)
  then have "seq_hist [] (new_Udpserver env host port)" by (simp add: seq_hist_def seqs_of_def)
  from seqs.runs_record [OF assms full_inv_new this] show ?thesis by (simp add: seq_hist_def)
qed

section \<open>A stopped server\<close>

definition dead :: "server \<Rightarrow> bool" where
  "dead s \<longleftrightarrow> full_inv s \<and> (\<forall>so \<in> set (sockets s). so = INVALID_SOCKET)"

definition fails_hist :: "event list \<Rightarrow> server \<Rightarrow> bool" where
  "fails_hist tr s \<longleftrightarrow> (\<forall>i sp cells r. Sent i sp cells r \<in> set tr \<longrightarrow> r = - 1)"

lemma sockets_step:
  assumes "full_inv s" "server_step env s evs s'"
  shows "sockets s' = sockets s \<or> sockets s' = map (\<lambda>_. INVALID_SOCKET) (sockets s)"
  using assms(2)
proof (cases rule: server_step.cases)
  case reader
  then show ?thesis using reader_step_frame assms(1) by (simp add: full_inv_def)
next
  case (worker i)
  then show ?thesis using worker_step_frame by (simp add: worker_frame_def)
next
  case start
  then show ?thesis
    using start_rest_keep [of env s s' evs] by (auto simp: StartSending_def stop_begin_def split: if_splits)
next
  case stop_joined
  from stop_joined(2) show ?thesis by (cases rule: stop_finish_cases) (auto dest: start_rest_keep)
qed (auto simp: StopSending_def stop_begin_def SetFileName_def channelStateChange_def setLossRate_def stop_wake_def stop_join_def
      notify_state_def Let_def split: gui_pc.splits nat.splits)

lemma dead_step: "dead s \<Longrightarrow> server_step env s evs s' \<Longrightarrow> dead s'"
  using sockets_step [of s env evs s'] full_inv_step [of s env evs s'] by (auto simp: dead_def)

lemma Sent_from_worker:
  assumes "server_step env s evs s'" "Sent i sp cells r \<in> set evs"
  shows "r = socket_send env i s \<and> i < 3"
  using assms(1)
proof (cases rule: server_step.cases)
  case reader
  then show ?thesis using assms(2)
    by (auto simp: reader_step_def read_chunk_def Let_def bind_res_Inr_iff case_prod_beta
        split: reader_pc.splits if_splits option.splits list.splits)
next
  case (worker j)
  then show ?thesis using assms(2)
    by (auto simp: worker_step_def Let_def stamp_packet_def send_packet_out_def bind_res_Inr_iff SOCKET_POOL_SIZE_def
        split: worker_pc.splits if_splits option.splits list.splits)
next
  case start
  then show ?thesis using assms(2) start_rest_keep [of env s s' evs] by (auto simp: StartSending_def split: if_splits)
next
  case stop_joined
  then show ?thesis using assms(2) stop_finish_keep [of env s s' evs] by auto
qed (use assms(2) in auto)

lemma dead_sends: "dead s \<Longrightarrow> i < 3 \<Longrightarrow> socket_send env i s = - 1"
proof -
  assume "dead s" "i < 3"
  then have "sockets s ! i \<in> set (sockets s)" by (simp add: dead_def full_inv_def server_inv_def)
  then show ?thesis using \<open>dead s\<close> by (auto simp: dead_def socket_send_def)
qed

lemma dead_record: "dead s \<Longrightarrow> fails_hist tr s \<Longrightarrow> server_step env s evs s' \<Longrightarrow> fails_hist (tr @ evs) s'"
  unfolding fails_hist_def
proof (intro allI impI)
  fix i sp cells r
  assume "dead s" "\<forall>i sp cells r. Sent i sp cells r \<in> set tr \<longrightarrow> r = - 1" "server_step env s evs s'"
    "Sent i sp cells r \<in> set (tr @ evs)"
  then show "r = - 1" using Sent_from_worker [of env s evs s' i sp cells r] dead_sends [of s i env] by auto
qed

interpretation stopped: step_history "server_step env" dead fails_hist for env
  by unfold_locales (auto intro: dead_step dead_record)

text \<open>
  Claim C25. A server that was stopped once never sends again: \<open>StopSending\<close> closes the sockets and
  nothing reopens them, so after its end, whatever the user does and however often
  \<open>StartSending\<close> is called, every \<open>sendto\<close> of every later run fails.
\<close>

theorem stopped_server_never_sends:
  assumes "runs (server_step env) (new_Udpserver env host port) tr0 s" and "gui s = G_join 0 b"
    and "stop_finish env s = (s1, evs)" and "runs (server_step env) s1 tr s2"
    and "Sent i sp cells r \<in> set tr"
  shows "r = - 1"
proof -
  have "full_inv s" by (rule reachable_full [OF assms(1)])
  then have "full_inv s1" using full_inv_step [of s env evs s1] server_step.stop_joined [OF _ assms(3)] assms(2) by simp
  moreover have "\<forall>so \<in> set (sockets s1). so = INVALID_SOCKET"
    using assms(2,3) start_rest_keep [of env "stop_cleanup s" s1 evs] by (auto simp: stop_finish_def split: if_splits)
  ultimately have "dead s1" by (simp add: dead_def)
  from stopped.runs_record [OF assms(4) this] show ?thesis using assms(5) by (auto simp: fails_hist_def)
qed

end
