(* ===== verification/Server_Examples.thy ===== *)
theory Server_Examples
  imports Server_Stream
begin

text \<open>
  Concrete runs of the server: an environment in which every call succeeds, a started server, a
  chunk that travels from the file through the FEC module and a queue to \<open>sendto\<close>, and a server
  that was stopped and started again. They show that the hypotheses of the server theorems hold at
  runs in which packets really move.
\<close>

section \<open>A chunk on its way\<close>

lemma srv_one: "server_step env s evs s' \<Longrightarrow> runs (server_step env) s evs s'"
  using runs.runs_step [OF runs.runs_init, of "server_step env" s evs s'] by simp

lemma srv_snoc:
  "runs (server_step env) s0 tr s \<Longrightarrow> server_step env s evs s' \<Longrightarrow> runs (server_step env) s0 (tr @ evs) s'"
  by (rule runs.runs_step)

lemma srv_trans:
  "runs (server_step env) s0 tr s \<Longrightarrow> runs (server_step env) s tr' s' \<Longrightarrow> runs (server_step env) s0 (tr @ tr') s'"
  by (rule runs_trans)

text \<open>A just started server whose first channel is on and loses nothing.\<close>

definition ready :: "os_env \<Rightarrow> server \<Rightarrow> bool" where
  "ready env s \<longleftrightarrow> full_inv s \<and> gui s = G_idle \<and> is_running s \<and> rd_pc s = R_open \<and> currentFilePath s \<noteq> [] \<and>
     open_file env (currentFilePath s) = Some [1, 2, 3] \<and> \<not> read_error env (n_reads s) \<and>
     currentSocket s = 0 \<and> enabled (channels s ! 0) = 1 \<and> lossRate (channels s ! 0) = 0 \<and>
     packetQueue (channels s ! 0) = [] \<and> wk_pc s ! 0 = W_top \<and> buffer_packets (fec s) = []"

lemma reader_queues_chunk:
  assumes "ready env s"
  shows "\<exists>sp s'. runs (server_step env) s [Chunk_read [1, 2, 3], Spilled 991, Enqueued 0 sp] s' \<and>
    full_inv s' \<and> is_running s' \<and> enabled (channels s' ! 0) = 1 \<and> lossRate (channels s' ! 0) = 0 \<and>
    packetQueue (channels s' ! 0) = [sp] \<and> wk_pc s' ! 0 = W_top \<and> gui s' = G_idle"
proof -
  let ?s1 = "s\<lparr>rd_file := [1, 2, 3], data_buf := replicate kMaxDataSize None, rd_pc := R_while\<rparr>"
  let ?s2 = "?s1\<lparr>target_channel := - 1, search_start_index := 0, search_attempts := 0, rd_pc := R_search\<rparr>"
  let ?s3 = "?s2\<lparr>target_channel := 0, currentSocket := 1, rd_pc := R_read\<rparr>"
  have st1: "server_step env s [] ?s1" using assms by (intro server_step.reader) (simp_all add: ready_def reader_step_def)
  have st2: "server_step env ?s1 [] ?s2" using assms by (intro server_step.reader) (simp_all add: ready_def reader_step_def)
  have st3: "server_step env ?s2 [] ?s3"
    using assms by (intro server_step.reader) (simp_all add: ready_def reader_step_def SOCKET_POOL_SIZE_def)
  have run3: "runs (server_step env) s [] ?s3"
    using srv_snoc [OF srv_snoc [OF srv_one [OF st1] st2] st3] by simp
  have inv3: "full_inv ?s3" using threads.runs_preserve [OF run3] assms by (simp add: ready_def)
  then have srv: "server_inv ?s3" by (simp add: full_inv_def)
  have noerr: "\<not> read_error env (n_reads ?s3)" using assms by (simp add: ready_def)
  obtain f buf where f: "PacketByFEC (dchecks_on env) (mem_of (flight_payload (sysword s) [1, 2, 3]) @
        replicate (2000 - (15 + 3)) None) (int (15 + 3)) fec_k fec_r (fec s) = Inr f"
    and r: "read_chunk env ?s3 = Inr (?s3\<lparr>n_reads := n_reads s + 1, rd_file := [], data_buf := buf,
        bytesRead := 3, fec_input_size := 18, fec := f, rd_pc := R_push\<rparr>, [Chunk_read [1, 2, 3], Spilled 991])"
    using read_chunk_eq [OF srv _ noerr] by (auto simp: readChunkSize_def numeral_3_eq_3)
  let ?s4 = "?s3\<lparr>n_reads := n_reads s + 1, rd_file := [], data_buf := buf,
        bytesRead := 3, fec_input_size := 18, fec := f, rd_pc := R_push\<rparr>"
  have st4: "server_step env ?s3 [Chunk_read [1, 2, 3], Spilled 991] ?s4"
    using r assms by (intro server_step.reader) (simp_all add: reader_step_def ready_def)
  obtain p ps where p: "buffer_packets f = p # ps"
  proof -
    from srv obtain n g ds where rel: "fec_rel 10 2 n g ds (fec s)" "n \<le> 1024" "fec_first_use (fec s) \<longrightarrow> ds = []"
      by (auto simp: server_inv_def fec_ok_def)
    have "length ([1, 2, 3] :: u8 list) \<le> 1009" by simp
    from PacketByFEC_chunk [OF rel this refl, of "dchecks_on env" "sysword s"] f that show thesis
      using assms by (auto simp: ready_def emitted_def)
  qed
  let ?sp = "make_SendPacket p 0 18"
  let ?s5 = "(update_channel 0 (\<lambda>c. c\<lparr>packetQueue := packetQueue c @ [?sp]\<rparr>) ?s4)
      \<lparr>fec := f\<lparr>buffer_packets := ps\<rparr>, rd_pc := R_wake\<rparr>"
  have len: "length (channels s) = 3" "length (wk_pc s) = 3" using srv by (simp_all add: server_inv_def)
  have st5: "server_step env ?s4 [Enqueued 0 ?sp] ?s5"
    using assms p len by (intro server_step.reader) (simp_all add: ready_def reader_step_def holds_queue_def Let_def)
  have run5: "runs (server_step env) s [Chunk_read [1, 2, 3], Spilled 991, Enqueued 0 ?sp] ?s5"
    using srv_snoc [OF srv_snoc [OF run3 st4] st5] by simp
  moreover have "full_inv ?s5" using threads.runs_preserve [OF run5] assms by (simp add: ready_def)
  ultimately show ?thesis
    using assms len by (intro exI [of _ ?sp] exI [of _ ?s5]) (simp add: ready_def)
qed

lemma worker_sends_packet:
  assumes inv: "full_inv s" and s: "is_running s" "enabled (channels s ! 0) = 1" "lossRate (channels s ! 0) = 0"
    "packetQueue (channels s ! 0) = [sp]" "wk_pc s ! 0 = W_top" "gui s = G_idle"
  shows "\<exists>sp' cells r s'. runs (server_step env) s [Dequeued 0 sp, Stamped 0 sp', Sent 0 sp' cells r] s'"
proof -
  have srv: "server_inv s" and len: "length (channels s) = 3" "length (wk_pc s) = 3"
    using inv by (simp_all add: full_inv_def server_inv_def)
  have sp: "sp_ok 0 sp" using srv s(4) by (auto simp: server_inv_def chan_ok_def)
  let ?s1 = "goto 0 W_inner s" and ?s2 = "goto 0 W_run s" and ?s3 = "goto 0 W_enabled s"
  let ?t = "update_channel 0 (packetQueue_update (\<lambda>_. [])) s"
  let ?s4 = "goto 0 (W_state (Some sp)) ?t" and ?s5 = "goto 0 (W_run2 (Some sp)) ?t" and ?s6 = "goto 0 (W_send (Some sp)) ?t"
  let ?sp = "sp\<lparr>seq := globalSeqCounter s\<rparr>"
  let ?s7 = "goto 0 (W_out ?sp) (?t\<lparr>globalSeqCounter := globalSeqCounter s + 1\<rparr>)"
  have w: "server_step env x evs y" if "worker_step env 0 x = Inr (y, evs)" "gui x = G_idle" for x y evs
    using that by (intro server_step.worker [of 0]) (simp_all add: SOCKET_POOL_SIZE_def)
  have goto2: "goto 0 b (goto 0 a x) = goto 0 b x" for a b x by (simp add: goto_def)
  have upd: "update_channel 0 f (goto 0 a x) = goto 0 a (update_channel 0 f x)" for f a x
    by (simp add: goto_def update_channel_def)
  have st: "server_step env s [] ?s1" "server_step env ?s1 [] ?s2" "server_step env ?s2 [] ?s3"
      "server_step env ?s3 [Dequeued 0 sp] ?s4" "server_step env ?s4 [] ?s5" "server_step env ?s5 [] ?s6"
    using s len by (intro w; simp add: worker_step_def Let_def goto2 upd)+
  have st7: "server_step env ?s6 [Stamped 0 ?sp] ?s7"
    using s len sp by (intro w) (auto simp: worker_step_def Let_def stamp_packet_def sp_ok_def, simp_all add: goto_def)
  have "sp_ok 0 ?sp" using sp by (simp add: sp_ok_def)
  from send_packet_out_eq [OF this, of env ?s7] obtain cells y where
    out: "send_packet_out env 0 ?sp ?s7 = Inr (y, [Sent 0 ?sp cells (socket_send env 0 ?s7)])" by blast
  have st8: "server_step env ?s7 [Sent 0 ?sp cells (socket_send env 0 ?s7)] y"
    using out len s(6) by (intro w) (simp_all add: worker_step_def)
  note run = srv_snoc [OF srv_snoc [OF srv_snoc [OF srv_snoc [OF srv_snoc [OF srv_snoc [OF srv_snoc [OF
    srv_one [OF st(1)] st(2)] st(3)] st(4)] st(5)] st(6)] st7] st8]
  show ?thesis by (intro exI) (use run in simp)
qed

lemma ready_delivers:
  assumes "ready env s"
  shows "\<exists>sp sp' cells r s'. runs (server_step env) s [Chunk_read [1, 2, 3], Spilled 991, Enqueued 0 sp, Dequeued 0 sp,
      Stamped 0 sp', Sent 0 sp' cells r] s'"
proof -
  from reader_queues_chunk [OF assms] obtain sp s1 where
    s1: "runs (server_step env) s [Chunk_read [1, 2, 3], Spilled 991, Enqueued 0 sp] s1"
      "full_inv s1" "is_running s1" "enabled (channels s1 ! 0) = 1" "lossRate (channels s1 ! 0) = 0"
      "packetQueue (channels s1 ! 0) = [sp]" "wk_pc s1 ! 0 = W_top" "gui s1 = G_idle" by blast
  from worker_sends_packet [OF s1(2-8), of env] obtain sp' cells r s2 where
    "runs (server_step env) s1 [Dequeued 0 sp, Stamped 0 sp', Sent 0 sp' cells r] s2" by blast
  from srv_trans [OF s1(1) this] show ?thesis by (intro exI) simp
qed

section \<open>A concrete environment\<close>

definition demo_env :: os_env where
  "demo_env = \<lparr>dchecks_on = True, wsa_startup_ok = True, socket_ok = (\<lambda>_. True), inet_pton = (\<lambda>_. Some 7),
     thread_ok = (\<lambda>_. True), open_file = (\<lambda>_. Some [1, 2, 3]), read_error = (\<lambda>_. False),
     sendto_result = (\<lambda>_. 1037), draw = (\<lambda>_ _. 0)\<rparr>"

definition demo_new :: server where
  "demo_new = new_Udpserver demo_env ''225.0.10.101'' 600"

definition demo_set :: server where
  "demo_set = notify_state (channelStateChange 0 True (SetFileName ''f'' demo_new))"

definition demo_started :: server where
  "demo_started = fst (StartSending demo_env demo_set)"

lemmas demo_defs = demo_new_def demo_set_def new_Udpserver_def initializeSockets_def SOCKET_POOL_SIZE_def
  channelStateChange_def notify_state_def SetFileName_def update_channel_def numeral_3_eq_3 new_ChannelContext_def

lemma demo_set_fields:
  "gui demo_set = G_idle" "currentFilePath demo_set = ''f''" "\<not> is_running demo_set" "workerThreads demo_set = 0"
  "enabled (channels demo_set ! 0) = 1" "lossRate (channels demo_set ! 0) = 0" "fec demo_set = new_ForwardErrorCorrection"
  "length (channels demo_set) = 3" "wk_pc demo_set = [W_none, W_none, W_none]"
  by (simp_all add: demo_defs demo_env_def Let_def wake_state_def)

lemma run_set: "runs (server_step demo_env) (new_Udpserver demo_env ''225.0.10.101'' 600) [] demo_set"
proof -
  have g: "gui demo_new = G_idle" by (simp add: demo_defs demo_env_def)
  have "server_step demo_env demo_new [] (SetFileName ''f'' demo_new)" using g by (rule server_step.set_file)
  note 1 = srv_one [OF this]
  have 2: "server_step demo_env (SetFileName ''f'' demo_new) [] (channelStateChange 0 True (SetFileName ''f'' demo_new))"
    using g by (intro server_step.channel_state) (simp add: SetFileName_def)
  have "gui (channelStateChange 0 True (SetFileName ''f'' demo_new)) = G_notify 0"
    by (simp add: demo_defs demo_env_def Let_def)
  then have "server_step demo_env (channelStateChange 0 True (SetFileName ''f'' demo_new)) [] demo_set"
    unfolding demo_set_def by (rule server_step.notify)
  from srv_snoc [OF srv_snoc [OF 1 2] this] show ?thesis by (simp add: demo_new_def)
qed

text \<open>Starting a configured server that has no threads.\<close>

lemma start_ready:
  assumes "full_inv s" "gui s = G_idle" "currentFilePath s \<noteq> []" "\<not> is_running s" "workerThreads s = 0"
    "enabled (channels s ! 0) = 1" "lossRate (channels s ! 0) = 0" "buffer_packets (fec s) = []"
  shows "\<exists>s'. StartSending demo_env s = (s', [Queues_cleared]) \<and> ready demo_env s' \<and> gui s' = G_idle \<and>
    workerThreads s' = 4 \<and> currentFilePath s' = currentFilePath s \<and> wk_pc s' = [W_top, W_top, W_top]"
proof -
  obtain s' where s': "StartSending demo_env s = (s', [Queues_cleared])"
    using assms by (simp add: StartSending_def start_rest_def Let_def)
  have "full_inv s'" using full_inv_step [OF assms(1) server_step.start [OF assms(2) s']] .
  moreover have len: "length (channels s) = 3" "length (wk_pc s) = 3" and none: "\<forall>i < 3. wk_pc s ! i = W_none"
    using assms(1,5) by (simp_all add: full_inv_def server_inv_def threads_ok_def)
  moreover have "wk_pc s = replicate 3 W_none" using len none by (intro nth_equalityI) simp_all
  then have "wk_pc s = [W_none, W_none, W_none]" by (simp add: numeral_3_eq_3)
  ultimately show ?thesis
    using s' assms by (auto simp: StartSending_def start_rest_def Let_def demo_env_def SOCKET_POOL_SIZE_def
        numeral_3_eq_3 ready_def)
qed

lemma demo_set_inv: "full_inv demo_set"
  by (rule reachable_full [OF run_set])

lemma run_started:
  "runs (server_step demo_env) (new_Udpserver demo_env ''225.0.10.101'' 600) [Queues_cleared] demo_started"
  "ready demo_env demo_started" "gui demo_started = G_idle" "workerThreads demo_started = 4"
  "currentFilePath demo_started = ''f''" "wk_pc demo_started = [W_top, W_top, W_top]"
proof -
  have "buffer_packets (fec demo_set) = []" by (simp add: demo_set_fields new_ForwardErrorCorrection_def)
  from start_ready [of demo_set, OF demo_set_inv _ _ _ _ _ _ this] obtain s' where
    s': "StartSending demo_env demo_set = (s', [Queues_cleared])" "ready demo_env s'" "gui s' = G_idle" "workerThreads s' = 4"
      "currentFilePath s' = currentFilePath demo_set" "wk_pc s' = [W_top, W_top, W_top]"
    by (auto simp: demo_set_fields)
  then have eq: "demo_started = s'" by (simp add: demo_started_def)
  show "runs (server_step demo_env) (new_Udpserver demo_env ''225.0.10.101'' 600) [Queues_cleared] demo_started"
    using srv_snoc [OF run_set server_step.start [OF demo_set_fields(1) s'(1)]] eq by simp
  show "ready demo_env demo_started" "gui demo_started = G_idle" "workerThreads demo_started = 4"
    "currentFilePath demo_started = ''f''" "wk_pc demo_started = [W_top, W_top, W_top]"
    using s' eq by (simp_all add: demo_set_fields)
qed

lemma run_delivered:
  "\<exists>sp sp' cells r s. runs (server_step demo_env) (new_Udpserver demo_env ''225.0.10.101'' 600)
     [Queues_cleared, Chunk_read [1, 2, 3], Spilled 991, Enqueued 0 sp, Dequeued 0 sp, Stamped 0 sp', Sent 0 sp' cells r] s"
proof -
  from ready_delivers [OF run_started(2)] obtain sp sp' cells r s where
    "runs (server_step demo_env) demo_started [Chunk_read [1, 2, 3], Spilled 991, Enqueued 0 sp, Dequeued 0 sp,
      Stamped 0 sp', Sent 0 sp' cells r] s" by blast
  from srv_trans [OF run_started(1) this] show ?thesis by (intro exI) simp
qed

section \<open>Stopping and starting again\<close>

definition demo_joined :: server where
  "demo_joined = demo_started\<lparr>is_running := False, gui := G_join 4 False\<rparr>"

lemma run_joined: "runs (server_step demo_env) (new_Udpserver demo_env ''225.0.10.101'' 600) [Queues_cleared] demo_joined"
proof -
  let ?at = "\<lambda>g. demo_started\<lparr>is_running := False, gui := g\<rparr>"
  have stop: "server_step demo_env demo_started [] (?at (G_wake_state 0 False))"
    using server_step.stop [of demo_started demo_env] run_started(3,4) by (simp add: StopSending_def stop_begin_def)
  have wake: "server_step demo_env (?at (G_wake_state i False)) [] (?at (G_wake_queue i False))"
    "server_step demo_env (?at (G_wake_queue i False)) [] (?at (G_wake_state (Suc i) False))" if "i < 3" for i
  proof -
    have "wk_pc demo_started ! i = W_top" using that run_started(6) by (auto simp: less_Suc_eq numeral_3_eq_3)
    then have "stop_wake (?at (G_wake_state i False)) = ?at (G_wake_queue i False)"
      "stop_wake (?at (G_wake_queue i False)) = ?at (G_wake_state (Suc i) False)"
      using that by (simp_all add: stop_wake_def SOCKET_POOL_SIZE_def holds_queue_def wake_queue_def wake_state_def)
    then show "server_step demo_env (?at (G_wake_state i False)) [] (?at (G_wake_queue i False))"
      "server_step demo_env (?at (G_wake_queue i False)) [] (?at (G_wake_state (Suc i) False))"
      using server_step.stop_waking [of "?at (G_wake_state i False)" demo_env]
        server_step.stop_waking [of "?at (G_wake_queue i False)" demo_env] by simp_all
  qed
  have woken: "n \<le> 3 \<Longrightarrow> runs (server_step demo_env) (new_Udpserver demo_env ''225.0.10.101'' 600) [Queues_cleared] (?at (G_wake_state n False))" for n
  proof (induction n)
    case 0
    then show ?case using srv_snoc [OF run_started(1) stop] by simp
  next
    case (Suc n)
    then have n: "n < 3" and run: "runs (server_step demo_env) (new_Udpserver demo_env ''225.0.10.101'' 600) [Queues_cleared] (?at (G_wake_state n False))"
      by simp_all
    show ?case using srv_snoc [OF srv_snoc [OF run wake(1) [OF n]] wake(2) [OF n]] by simp
  qed
  have "server_step demo_env (?at (G_wake_state 3 False)) [] demo_joined"
    using server_step.stop_waking [of "?at (G_wake_state 3 False)" demo_env] run_started(4)
    by (simp add: stop_wake_def SOCKET_POOL_SIZE_def demo_joined_def)
  from srv_snoc [OF woken [OF order_refl] this] show ?thesis by simp
qed

text \<open>The threads return and are waited for.\<close>

definition demo_ended :: server where
  "demo_ended = demo_joined\<lparr>wk_pc := [W_done, W_done, W_done], rd_file := [1, 2, 3],
     data_buf := replicate kMaxDataSize None, rd_pc := R_done\<rparr>"

definition demo_finished :: server where
  "demo_finished = demo_ended\<lparr>gui := G_join 0 False\<rparr>"

lemma run_finished: "runs (server_step demo_env) (new_Udpserver demo_env ''225.0.10.101'' 600) [Queues_cleared] demo_finished"
proof -
  let ?w = "\<lambda>ws. demo_joined\<lparr>wk_pc := ws\<rparr>" and ?d = "W_done" and ?t = "W_top"
  let ?r = "(?w [?d, ?d, ?d])\<lparr>rd_file := [1, 2, 3], data_buf := replicate kMaxDataSize None, rd_pc := R_while\<rparr>"
  have j: "is_running demo_joined = False" "gui demo_joined = G_join 4 False" "wk_pc demo_joined = [?t, ?t, ?t]" "rd_pc demo_joined = R_open"
    "currentFilePath demo_joined \<noteq> []" "open_file demo_env (currentFilePath demo_joined) = Some [1, 2, 3]"
    using run_started(2,6) by (simp_all add: demo_joined_def ready_def)
  have first: "?w [?t, ?t, ?t] = demo_joined" using j(3) by (simp flip: j(3))
  have w: "server_step demo_env (?w [?t, ?t, ?t]) [] (?w [?d, ?t, ?t])" "server_step demo_env (?w [?d, ?t, ?t]) [] (?w [?d, ?d, ?t])"
      "server_step demo_env (?w [?d, ?d, ?t]) [] (?w [?d, ?d, ?d])"
    using j by (intro server_step.worker [of 0]; simp add: worker_step_def goto_def SOCKET_POOL_SIZE_def)
      (use j in \<open>intro server_step.worker [of 1]; simp add: worker_step_def goto_def SOCKET_POOL_SIZE_def\<close>,
       use j in \<open>intro server_step.worker [of 2]; simp add: worker_step_def goto_def SOCKET_POOL_SIZE_def\<close>)
  have r: "server_step demo_env (?w [?d, ?d, ?d]) [] ?r" "server_step demo_env ?r [] demo_ended"
    using j by (intro server_step.reader; simp add: reader_step_def demo_ended_def)+
  have fin: "thread_finished k (demo_ended\<lparr>gui := g\<rparr>)" if "k < 4" for k g
  proof -
    have "k = 0 \<or> k - 1 = 0 \<or> k - 1 = 1 \<or> k - 1 = 2" using that by linarith
    then show ?thesis by (auto simp: thread_finished_def demo_ended_def worker_ended_def)
  qed
  have join: "server_step demo_env (demo_ended\<lparr>gui := G_join (Suc k) False\<rparr>) [] (demo_ended\<lparr>gui := G_join k False\<rparr>)" if "k < 4" for k
    using server_step.stop_joining [of "demo_ended\<lparr>gui := G_join (Suc k) False\<rparr>" demo_env] fin [OF that, of "G_join (Suc k) False"]
    by (simp add: stop_join_def)
  have start: "demo_ended = demo_ended\<lparr>gui := G_join 4 False\<rparr>" using j by (simp add: demo_ended_def)
  have "runs (server_step demo_env) (new_Udpserver demo_env ''225.0.10.101'' 600) [Queues_cleared] (demo_ended\<lparr>gui := G_join 4 False\<rparr>)"
    using srv_snoc [OF srv_snoc [OF srv_snoc [OF srv_snoc [OF srv_snoc [OF run_joined w(1) [unfolded first]] w(2)] w(3)] r(1)] r(2)] start by simp
  note run4 = this
  have run3: "runs (server_step demo_env) (new_Udpserver demo_env ''225.0.10.101'' 600) [Queues_cleared] (demo_ended\<lparr>gui := G_join 3 False\<rparr>)"
    using srv_snoc [OF run4] join [of 3] by fastforce
  have run2: "runs (server_step demo_env) (new_Udpserver demo_env ''225.0.10.101'' 600) [Queues_cleared] (demo_ended\<lparr>gui := G_join 2 False\<rparr>)"
    using srv_snoc [OF run3] join [of 2] by fastforce
  have run1: "runs (server_step demo_env) (new_Udpserver demo_env ''225.0.10.101'' 600) [Queues_cleared] (demo_ended\<lparr>gui := G_join 1 False\<rparr>)"
    using srv_snoc [OF run2] join [of 1] by (fastforce simp: numeral_2_eq_2)
  show ?thesis using srv_snoc [OF run1] join [of 0] by (fastforce simp: demo_finished_def)
qed

lemma finished_delivers:
  "\<exists>s1 evs s2 tr sp cells r. stop_finish demo_env demo_finished = (s1, evs) \<and> runs (server_step demo_env) s1 tr s2 \<and>
     Sent 0 sp cells r \<in> set tr"
proof -
  let ?s1 = "stop_cleanup demo_finished"
  have s1: "stop_finish demo_env demo_finished = (?s1, [])" by (simp add: stop_finish_def demo_finished_def)
  have "full_inv ?s1"
    using full_inv_step [OF reachable_full [OF run_finished] server_step.stop_joined [OF _ s1]] by (simp add: demo_finished_def)
  moreover have "gui ?s1 = G_idle" "currentFilePath ?s1 \<noteq> []" "\<not> is_running ?s1" "workerThreads ?s1 = 0"
    "enabled (channels ?s1 ! 0) = 1" "lossRate (channels ?s1 ! 0) = 0" "buffer_packets (fec ?s1) = []"
    using run_started(2) by (simp_all add: demo_finished_def demo_ended_def demo_joined_def ready_def)
  ultimately obtain s2 where s2: "StartSending demo_env ?s1 = (s2, [Queues_cleared])" "ready demo_env s2"
    using start_ready [of ?s1] by blast
  from ready_delivers [OF s2(2)] obtain sp sp' cells r s3 where
    "runs (server_step demo_env) s2 [Chunk_read [1, 2, 3], Spilled 991, Enqueued 0 sp, Dequeued 0 sp,
      Stamped 0 sp', Sent 0 sp' cells r] s3" by blast
  from srv_trans [OF srv_one [OF server_step.start [OF \<open>gui ?s1 = G_idle\<close> s2(1)]] this] s1 show ?thesis
    by (intro exI conjI) (assumption, assumption, simp)
qed

section \<open>The server theorems at these runs\<close>



theorem stopped_worker_returns_witness:
  "gui demo_joined = G_join 4 False \<and>
   (\<exists>s'. worker_steps demo_env 0 3 demo_joined = Inr s' \<and> (wk_pc s' ! 0 = W_none \<or> wk_pc s' ! 0 = W_done))"
proof -
  have "gui demo_joined = G_join 4 False" by (simp add: demo_joined_def)
  with stopped_worker_returns [OF run_joined this, of 0] show ?thesis by (simp add: SOCKET_POOL_SIZE_def)
qed

theorem channel_queue_fifo_witness:
  "\<exists>tr s sp. runs (server_step demo_env) (new_Udpserver demo_env ''225.0.10.101'' 600) tr s \<and>
     Enqueued 0 sp \<in> set tr \<and> replay (queue_accept 0) tr [] = Some (packetQueue (channels s ! 0))"
proof -
  from run_delivered obtain sp sp' cells r s where
    run: "runs (server_step demo_env) (new_Udpserver demo_env ''225.0.10.101'' 600)
     [Queues_cleared, Chunk_read [1, 2, 3], Spilled 991, Enqueued 0 sp, Dequeued 0 sp, Stamped 0 sp', Sent 0 sp' cells r] s"
    by blast
  from channel_queue_fifo [OF run, of 0] show ?thesis
    by (intro exI conjI, rule_tac [1] run) (simp_all add: SOCKET_POOL_SIZE_def)
qed

theorem packet_fate_witness:
  "\<exists>tr s sp cells r. runs (server_step demo_env) (new_Udpserver demo_env ''225.0.10.101'' 600) tr s \<and>
     Sent 0 sp cells r \<in> set tr \<and> replay (flight_accept 0) tr None = Some (in_flight (wk_pc s ! 0))"
proof -
  from run_delivered obtain sp sp' cells r s where
    run: "runs (server_step demo_env) (new_Udpserver demo_env ''225.0.10.101'' 600)
     [Queues_cleared, Chunk_read [1, 2, 3], Spilled 991, Enqueued 0 sp, Dequeued 0 sp, Stamped 0 sp', Sent 0 sp' cells r] s"
    by blast
  from packet_fate [OF run, of 0] show ?thesis
    by (intro exI conjI, rule_tac [1] run) (simp_all add: SOCKET_POOL_SIZE_def)
qed

theorem queued_packets_are_stream_witness:
  "\<exists>tr s. runs (server_step demo_env) (new_Udpserver demo_env ''225.0.10.101'' 600) tr s \<and>
     length (queued_of tr) = 1 \<and>
     queued_of tr @ buffer_packets (fec s) = stream_spec 10 2 [pad_payload 18 (flight_payload 0 [1, 2, 3])]"
proof -
  from run_delivered obtain sp sp' cells r s where
    run: "runs (server_step demo_env) (new_Udpserver demo_env ''225.0.10.101'' 600)
     [Queues_cleared, Chunk_read [1, 2, 3], Spilled 991, Enqueued 0 sp, Dequeued 0 sp, Stamped 0 sp', Sent 0 sp' cells r] s"
    by blast
  from queued_packets_are_stream [OF run] show ?thesis
    by (intro exI conjI, rule_tac [1] run)
      (simp_all add: stream_payloads_def stream_size_def chunks_of_def queued_of_def)
qed

theorem sequence_numbers_consecutive_witness:
  "\<exists>tr s. runs (server_step demo_env) (new_Udpserver demo_env ''225.0.10.101'' 600) tr s \<and> seqs_of tr = [0]"
proof -
  from run_delivered obtain sp sp' cells r s where
    run: "runs (server_step demo_env) (new_Udpserver demo_env ''225.0.10.101'' 600)
     [Queues_cleared, Chunk_read [1, 2, 3], Spilled 991, Enqueued 0 sp, Dequeued 0 sp, Stamped 0 sp', Sent 0 sp' cells r] s"
    by blast
  from sequence_numbers_consecutive [OF run] show ?thesis
    by (intro exI conjI, rule_tac [1] run) (simp add: seqs_of_def)
qed

theorem stopped_server_never_sends_witness:
  "\<exists>s1 evs s2 tr sp cells. stop_finish demo_env demo_finished = (s1, evs) \<and> runs (server_step demo_env) s1 tr s2 \<and>
     Sent 0 sp cells (- 1) \<in> set tr"
proof -
  from finished_delivers obtain s1 evs s2 tr sp cells r where
    j: "stop_finish demo_env demo_finished = (s1, evs)" "runs (server_step demo_env) s1 tr s2" "Sent 0 sp cells r \<in> set tr"
    by blast
  have "gui demo_finished = G_join 0 False" by (simp add: demo_finished_def)
  from stopped_server_never_sends [OF run_finished this j] j show ?thesis by blast
qed

end
