(* ===== verification/Log_Emitter.thy ===== *)
theory Log_Emitter
  imports Fec_Prelude Step_Systems
begin

text \<open>
  The log path (\<^verbatim>\<open>Channel_sim/LogEmitter.cpp\<close>, \<^verbatim>\<open>LogEmitter.h\<close>, the handler installation in
  \<^verbatim>\<open>main.cpp\<close>, and \<open>Channel_sim::appendLogToUi\<close>): every Qt message is stamped, prefixed by its
  type, emitted to the window and passed on to the handler that was installed before. The connection of the
  signal to the window is automatic: a message of the GUI thread reaches the slot by a direct call, one of another
  thread is posted to the GUI thread, which delivers the posted events in order whenever it is in its event loop. Outside the
  program are the clock, Qt's decoding of the narrow string literals, and whether the global
  \<open>LogEmitter\<close> still exists; they are arguments. \<open>LogEmitter::instance()\<close> is taken to be one object in all files.
\<close>

datatype QtMsgType = QtDebugMsg | QtInfoMsg | QtWarningMsg | QtCriticalMsg | QtFatalMsg

text \<open>The literals of the \<open>switch\<close>, as the bytes of the source file.\<close>

primrec type_prefix :: "QtMsgType \<Rightarrow> string" where
  "type_prefix QtDebugMsg = ''''"
| "type_prefix QtInfoMsg = ''INFO: ''"
| "type_prefix QtWarningMsg = [CHR 0xBE, CHR 0xAF, CHR 0xB8, CHR 0xE6] @ '': ''"
| "type_prefix QtCriticalMsg = [CHR 0xD1, CHR 0xCF, CHR 0xD6, CHR 0xD8, CHR 0xB4, CHR 0xED, CHR 0xCE, CHR 0xF3] @ '': ''"
| "type_prefix QtFatalMsg = [CHR 0xD6, CHR 0xC2, CHR 0xC3, CHR 0xFC, CHR 0xB4, CHR 0xED, CHR 0xCE, CHR 0xF3] @ '': ''"

text \<open>
  The widgets and handlers the log path reaches: the lines of \<open>logTextEdit\<close> (\<open>None\<close> when the
  widget pointer is null), the events posted to the window and not yet delivered, the calls of the message handler that have still to call the
  previous handler, the calls that handler has got, with the thread that made them, and \<open>stderr\<close>.
\<close>

datatype log_thread = Log_gui | Log_other nat

type_synonym log_call = "log_thread \<times> QtMsgType \<times> string"

record log_sinks =
  logTextEdit :: "string list option"
  posted :: "string list"
  in_handler :: "log_call list"
  forwarded :: "log_call list"
  stderr_text :: "string list"

record log_env =
  decode_literal :: "string \<Rightarrow> string"
  emitter_alive :: bool
  has_previous_handler :: bool

definition no_widget_text :: string where
  "no_widget_text = ''UI'' @ [CHR 0xC8, CHR 0xD5, CHR 0xD6, CHR 0xBE, CHR 0xBF, CHR 0xD8, CHR 0xBC, CHR 0xFE,
     CHR 0xCE, CHR 0xB4, CHR 0xD5, CHR 0xD2, CHR 0xB5, CHR 0xBD] @ '': ''"

definition appendLogToUi :: "log_env \<Rightarrow> string \<Rightarrow> log_sinks \<Rightarrow> log_sinks" where
  "appendLogToUi env message s =
     (case logTextEdit s of
        Some ls \<Rightarrow> s\<lparr>logTextEdit := Some (ls @ [message])\<rparr>
      | None \<Rightarrow>
          if has_previous_handler env
          then s\<lparr>forwarded := forwarded s @ [(Log_gui, QtDebugMsg, decode_literal env no_widget_text @ message)]\<rparr>
          else s\<lparr>stderr_text := stderr_text s @ [no_widget_text @ message @ ''\<newline>'']\<rparr>)"

text \<open>
  The handler, called in thread \<open>t\<close>, up to its call of the previous handler; \<open>now\<close> is the formatted time. \<open>newLogMessage\<close> is
  connected to \<open>appendLogToUi\<close> while the window lives (\<open>connected\<close>).
\<close>

definition formattedMessage :: "log_env \<Rightarrow> string \<Rightarrow> QtMsgType \<Rightarrow> string \<Rightarrow> string" where
  "formattedMessage env now ty msg = now @ decode_literal env (type_prefix ty) @ msg"

definition emit_newLogMessage :: "log_env \<Rightarrow> bool \<Rightarrow> log_thread \<Rightarrow> string \<Rightarrow> log_sinks \<Rightarrow> log_sinks" where
  "emit_newLogMessage env connected t message s =
     (if \<not> connected then s
      else if t = Log_gui then appendLogToUi env message s
      else s\<lparr>posted := posted s @ [message]\<rparr>)"

definition customMessageHandler ::
  "log_env \<Rightarrow> bool \<Rightarrow> log_thread \<Rightarrow> string \<Rightarrow> QtMsgType \<Rightarrow> string \<Rightarrow> log_sinks \<Rightarrow> log_sinks"
where
  "customMessageHandler env connected t now ty msg s =
     (let s1 = (if emitter_alive env then emit_newLogMessage env connected t (formattedMessage env now ty msg) s else s)
      in if has_previous_handler env then s1\<lparr>in_handler := in_handler s1 @ [(t, ty, msg)]\<rparr> else s1)"

text \<open>The rest of one of the calls, and the delivery of a posted event by the event loop.\<close>

definition call_previousMessageHandler :: "nat \<Rightarrow> log_sinks \<Rightarrow> log_sinks" where
  "call_previousMessageHandler i s =
     s\<lparr>forwarded := forwarded s @ [in_handler s ! i], in_handler := take i (in_handler s) @ drop (Suc i) (in_handler s)\<rparr>"

definition deliver_posted :: "log_env \<Rightarrow> log_sinks \<Rightarrow> log_sinks" where
  "deliver_posted env s = (case posted s of [] \<Rightarrow> s | m # ms \<Rightarrow> appendLogToUi env m (s\<lparr>posted := ms\<rparr>))"

text \<open>All interleavings: a thread is in at most one call of the handler, the GUI thread in none while it delivers.\<close>

datatype log_event = Logged log_thread string QtMsgType string

inductive log_step :: "log_env \<Rightarrow> bool \<Rightarrow> log_sinks \<Rightarrow> log_event list \<Rightarrow> log_sinks \<Rightarrow> bool" for env :: log_env and connected :: bool where
  logged: "t \<notin> fst ` set (in_handler s) \<Longrightarrow>
    log_step env connected s [Logged t now ty msg] (customMessageHandler env connected t now ty msg s)"
| previous: "i < length (in_handler s) \<Longrightarrow> log_step env connected s [] (call_previousMessageHandler i s)"
| delivered: "Log_gui \<notin> fst ` set (in_handler s) \<Longrightarrow> log_step env connected s [] (deliver_posted env s)"

section \<open>No message is lost\<close>

definition new_log_sinks :: log_sinks where
  "new_log_sinks = \<lparr>logTextEdit = Some [], posted = [], in_handler = [], forwarded = [], stderr_text = []\<rparr>"

text \<open>What was logged: the lines of the GUI thread, those of the other threads, and the calls.\<close>

fun gui_line :: "log_env \<Rightarrow> log_event \<Rightarrow> string list" where
  "gui_line env (Logged t now ty msg) = (if t = Log_gui then [formattedMessage env now ty msg] else [])"

fun other_line :: "log_env \<Rightarrow> log_event \<Rightarrow> string list" where
  "other_line env (Logged t now ty msg) = (if t = Log_gui then [] else [formattedMessage env now ty msg])"

fun call_of :: "log_event \<Rightarrow> log_call" where
  "call_of (Logged t now ty msg) = (t, ty, msg)"

text \<open>Appending to one side of a shuffle.\<close>

lemma shuffles_snoc: "zs \<in> shuffles xs ys \<Longrightarrow> zs @ [a] \<in> shuffles (xs @ [a]) ys"
proof (induction xs ys arbitrary: zs rule: shuffles.induct)
  case (1 ys)
  then have "zs = ys" by simp
  moreover have "ys @ [a] \<in> shuffles [a] ys"
    by (induction ys) (auto intro: Cons_in_shuffles_rightI)
  ultimately show ?case by simp
next
  case (3 x xs y ys)
  then show ?case by auto
qed simp

lemma shuffles_snoc_right: "zs \<in> shuffles xs ys \<Longrightarrow> zs @ [a] \<in> shuffles xs (ys @ [a])"
  using shuffles_snoc [of zs ys xs a] by (simp add: shuffles_commutes)

definition log_hist :: "log_env \<Rightarrow> log_event list \<Rightarrow> log_sinks \<Rightarrow> bool" where
  "log_hist env tr s \<longleftrightarrow>
     (\<exists>ls shown. logTextEdit s = Some ls \<and> ls \<in> shuffles (concat (map (gui_line env) tr)) shown \<and>
        concat (map (other_line env) tr) = shown @ posted s) \<and>
     (\<forall>t. filter (\<lambda>c. fst c = t) (forwarded s @ in_handler s) = filter (\<lambda>c. fst c = t) (map call_of tr)) \<and>
     stderr_text s = []"

definition calls_distinct :: "log_sinks \<Rightarrow> bool" where
  "calls_distinct s \<longleftrightarrow> distinct (map fst (in_handler s))"

definition log_inv :: "log_env \<Rightarrow> log_sinks \<Rightarrow> bool" where
  "log_inv env s \<longleftrightarrow> calls_distinct s \<and> emitter_alive env \<and> has_previous_handler env"

lemma previous_split:
  assumes "calls_distinct s" "i < length (in_handler s)"
  obtains xs c ys where "in_handler s = xs @ c # ys" "fst c \<notin> fst ` set xs" "distinct (map fst (xs @ ys))"
    "call_previousMessageHandler i s = s\<lparr>forwarded := forwarded s @ [c], in_handler := xs @ ys\<rparr>"
proof -
  have s: "in_handler s = take i (in_handler s) @ in_handler s ! i # drop (Suc i) (in_handler s)"
    using assms(2) by (rule id_take_nth_drop)
  show ?thesis
  proof (rule that [OF s])
    have "distinct (map fst (take i (in_handler s) @ in_handler s ! i # drop (Suc i) (in_handler s)))"
      using assms(1) unfolding calls_distinct_def by (subst (asm) s)
    then show "fst (in_handler s ! i) \<notin> fst ` set (take i (in_handler s))"
      "distinct (map fst (take i (in_handler s) @ drop (Suc i) (in_handler s)))" by auto
  qed (simp add: call_previousMessageHandler_def)
qed

lemma append_keeps [simp]:
  "logTextEdit s = Some ls \<Longrightarrow> appendLogToUi env m s = s\<lparr>logTextEdit := Some (ls @ [m])\<rparr>"
  by (simp add: appendLogToUi_def)

lemma in_handler_append [simp]: "in_handler (appendLogToUi env m s) = in_handler s"
  by (simp add: appendLogToUi_def split: option.splits)

lemma calls_distinct_step:
  assumes d: "calls_distinct s" and st: "log_step env connected s evs s'"
  shows "calls_distinct s'"
  using st
proof cases
  case (previous i)
  from d previous(3) show ?thesis by (rule previous_split) (simp add: previous(2) calls_distinct_def)
qed (use d in \<open>auto simp: calls_distinct_def customMessageHandler_def emit_newLogMessage_def deliver_posted_def Let_def split: list.splits\<close>)

lemma previous_keeps_calls:
  assumes "calls_distinct s" "i < length (in_handler s)"
  shows "filter (\<lambda>c. fst c = t) (forwarded (call_previousMessageHandler i s) @ in_handler (call_previousMessageHandler i s)) =
    filter (\<lambda>c. fst c = t) (forwarded s @ in_handler s)"
  using assms
proof (rule previous_split)
  fix xs c ys
  assume split: "in_handler s = xs @ c # ys" "fst c \<notin> fst ` set xs"
    and eq: "call_previousMessageHandler i s = s\<lparr>forwarded := forwarded s @ [c], in_handler := xs @ ys\<rparr>"
  have "fst x \<noteq> fst c" if "x \<in> set xs" for x using split(2) imageI [OF that, of fst] by metis
  then have "filter (\<lambda>x. fst x = fst c) xs = []" by (simp add: filter_empty_conv)
  then show ?thesis unfolding eq by (cases "fst c = t") (auto simp: split(1))
qed

lemma log_hist_step:
  assumes inv: "log_inv env s" and h: "log_hist env tr s" and st: "log_step env True s evs s'"
  shows "log_hist env (tr @ evs) s'"
proof -
  have env: "emitter_alive env" "has_previous_handler env" and d: "calls_distinct s" using inv by (simp_all add: log_inv_def)
  obtain ls shown where ls: "logTextEdit s = Some ls" "ls \<in> shuffles (concat (map (gui_line env) tr)) shown"
      "concat (map (other_line env) tr) = shown @ posted s"
    and calls: "\<And>t. filter (\<lambda>c. fst c = t) (forwarded s @ in_handler s) = filter (\<lambda>c. fst c = t) (map call_of tr)" "stderr_text s = []"
    using h by (auto simp: log_hist_def)
  from st show ?thesis
  proof cases
    case (logged t now ty msg)
    have "filter (\<lambda>c. fst c = u) (forwarded s @ in_handler s @ [(t, ty, msg)]) = filter (\<lambda>c. fst c = u) (map call_of (tr @ evs))" for u
      using calls(1) [of u] logged(1) by simp
    then show ?thesis
      using logged ls calls(2) env shuffles_snoc [OF ls(2)]
      by (cases "t = Log_gui") (auto simp: log_hist_def customMessageHandler_def emit_newLogMessage_def)
  next
    case (previous i)
    then show ?thesis
      using ls calls previous_keeps_calls [OF d previous(3)]
      by (auto simp: log_hist_def simp del: filter_append) (auto simp: call_previousMessageHandler_def)
  next
    case delivered
    show ?thesis
    proof (cases "posted s")
      case (Cons m ms)
      have "ls @ [m] \<in> shuffles (concat (map (gui_line env) tr)) (shown @ [m])" by (rule shuffles_snoc_right [OF ls(2)])
      moreover have "concat (map (other_line env) tr) = (shown @ [m]) @ ms" using ls(3) Cons by simp
      ultimately show ?thesis using delivered Cons ls(1) calls by (auto simp: log_hist_def deliver_posted_def)
    qed (use delivered h in \<open>simp add: deliver_posted_def\<close>)
  qed
qed

interpretation logs: step_history "log_step env True" "log_inv env" "log_hist env" for env
  by unfold_locales (auto simp: log_inv_def intro: calls_distinct_step log_hist_step)


text \<open>Two messages: a worker logs first, the GUI thread second, and the second line is shown first.\<close>

definition demo_log_env :: log_env where
  "demo_log_env = \<lparr>decode_literal = (\<lambda>x. x), emitter_alive = True, has_previous_handler = True\<rparr>"

definition demo_log_posted :: log_sinks where
  "demo_log_posted = customMessageHandler demo_log_env True (Log_other 1) ''t1 '' QtInfoMsg ''a'' new_log_sinks"

definition demo_log_both :: log_sinks where
  "demo_log_both = customMessageHandler demo_log_env True Log_gui ''t2 '' QtDebugMsg ''b'' demo_log_posted"

definition demo_log_shown :: log_sinks where
  "demo_log_shown = deliver_posted demo_log_env (call_previousMessageHandler 1 demo_log_both)"

lemmas demo_log_defs = demo_log_env_def demo_log_posted_def demo_log_both_def demo_log_shown_def customMessageHandler_def
  emit_newLogMessage_def new_log_sinks_def formattedMessage_def call_previousMessageHandler_def deliver_posted_def

lemma demo_log_run:
  "runs (log_step demo_log_env True) new_log_sinks
     [Logged (Log_other 1) ''t1 '' QtInfoMsg ''a'', Logged Log_gui ''t2 '' QtDebugMsg ''b''] demo_log_shown"
proof -
  have "runs (log_step demo_log_env True) new_log_sinks ([] @ [Logged (Log_other 1) ''t1 '' QtInfoMsg ''a'']) demo_log_posted"
    unfolding demo_log_posted_def by (rule runs.runs_step [OF runs.runs_init], rule log_step.logged) (simp add: new_log_sinks_def)
  then have "runs (log_step demo_log_env True) new_log_sinks
      (([] @ [Logged (Log_other 1) ''t1 '' QtInfoMsg ''a'']) @ [Logged Log_gui ''t2 '' QtDebugMsg ''b'']) demo_log_both"
    unfolding demo_log_both_def by (rule runs.runs_step, intro log_step.logged) (simp add: demo_log_defs)
  then have "runs (log_step demo_log_env True) new_log_sinks
      ((([] @ [Logged (Log_other 1) ''t1 '' QtInfoMsg ''a'']) @ [Logged Log_gui ''t2 '' QtDebugMsg ''b'']) @ []) (call_previousMessageHandler 1 demo_log_both)"
    by (rule runs.runs_step, intro log_step.previous) (simp add: demo_log_defs)
  then have "runs (log_step demo_log_env True) new_log_sinks
      (((([] @ [Logged (Log_other 1) ''t1 '' QtInfoMsg ''a'']) @ [Logged Log_gui ''t2 '' QtDebugMsg ''b'']) @ []) @ []) demo_log_shown"
    unfolding demo_log_shown_def by (rule runs.runs_step, intro log_step.delivered) (simp add: demo_log_defs)
  then show ?thesis by simp
qed

lemma demo_log_lines: "logTextEdit demo_log_shown = Some [''t2 b'', ''t1 INFO: a'']" "posted demo_log_shown = []"
  "concat (map (other_line demo_log_env) [Logged (Log_other 1) ''t1 '' QtInfoMsg ''a'', Logged Log_gui ''t2 '' QtDebugMsg ''b'']) = [''t1 INFO: a'']"
  by (simp_all add: demo_log_defs)


end
