(* ===== verification/Gui.thy ===== *)
theory Gui
  imports Server_Examples Log_Emitter
begin

text \<open>
  The main window (\<^verbatim>\<open>Channel_sim/Channel_sim.cpp\<close>): its widgets as a record next to the server it
  owns, one definition per slot, and the signal connections as the dispatch of user actions. The
  connections of the widgets are direct calls in the GUI thread; the one of the log messages is in
  \<^verbatim>\<open>Log_Emitter\<close>. A slot that calls \<open>channelStateChange\<close> sets its status text in the step that begins the call. Qt's rendering of a \<open>double\<close> by \<open>QString::arg\<close> is
  a parameter; the time-outs of status messages are not modelled.
\<close>

section \<open>The window\<close>

record window =
  check_state :: "int list"        \<comment> \<open>\<open>checkState()\<close> of the three channel boxes\<close>
  lost_value :: "int list"         \<comment> \<open>values of the three loss bars\<close>
  lostrate_label :: "string list"
  status_message :: string
  file_name :: string
  udp :: server

definition showMessage :: "string \<Rightarrow> window \<Rightarrow> window" where
  "showMessage m w = w\<lparr>status_message := m\<rparr>"

text \<open>The two signals, connected to the server's slots.\<close>

definition ChannelStateChanging :: "int \<Rightarrow> bool \<Rightarrow> window \<Rightarrow> window" where
  "ChannelStateChanging channel state w = w\<lparr>udp := channelStateChange channel state (udp w)\<rparr>"

definition ChannelLostRateChanging :: "int \<Rightarrow> rat \<Rightarrow> window \<Rightarrow> window" where
  "ChannelLostRateChanging channel rate w = w\<lparr>udp := setLossRate channel rate (udp w)\<rparr>"

text \<open>
  The constructor, after \<open>setupUi\<close>: boxes unchecked, bars at zero, the server for the address and
  base port written in the source.
\<close>

definition new_Channel_sim :: "os_env \<Rightarrow> window" where
  "new_Channel_sim env =
     \<lparr>check_state = [0, 0, 0], lost_value = [0, 0, 0], lostrate_label = [''Drop'', ''Drop'', ''Drop''],
      status_message = [], file_name = [], udp = new_Udpserver env ''225.0.10.101'' 600\<rparr>"

section \<open>Slots\<close>

text \<open>\<open>dialog\<close> is what \<open>getOpenFileName\<close> returned: the empty string when it was cancelled.\<close>

definition Readfile :: "string \<Rightarrow> window \<Rightarrow> window" where
  "Readfile dialog w = w\<lparr>file_name := dialog, udp := SetFileName dialog (udp w)\<rparr>"

definition getChannelState_1 :: "window \<Rightarrow> window" where
  "getChannelState_1 w =
     (if check_state w ! 0 \<noteq> 0
      then showMessage ''Channel 1 open'' (ChannelStateChanging 0 True w)
      else showMessage ''Channel 1 close '' (ChannelStateChanging 0 False w))"

definition getChannelState_2 :: "window \<Rightarrow> window" where
  "getChannelState_2 w =
     (if check_state w ! 1 \<noteq> 0
      then showMessage ''Channel 2 open'' (ChannelStateChanging 1 True w)
      else showMessage ''Channel 2 close'' (ChannelStateChanging 1 False w))"

definition getChannelState_3 :: "window \<Rightarrow> window" where
  "getChannelState_3 w =
     (if check_state w ! 2 \<noteq> 0
      then showMessage ''Channel 3 open'' (ChannelStateChanging 2 True w)
      else showMessage ''Channel 3 close'' (ChannelStateChanging 2 False w))"

definition set_label :: "(rat \<Rightarrow> string) \<Rightarrow> nat \<Rightarrow> int \<Rightarrow> window \<Rightarrow> window" where
  "set_label num i vaule w =
     w\<lparr>lostrate_label := (lostrate_label w)[i := ''Drop:%'' @ num (of_int vaule / 10)]\<rparr>"

definition getLostrate_1 :: "(rat \<Rightarrow> string) \<Rightarrow> int \<Rightarrow> window \<Rightarrow> window" where
  "getLostrate_1 num vaule w = ChannelLostRateChanging 0 (of_int vaule / 1000) (set_label num 0 vaule w)"

definition getLostrate_2 :: "(rat \<Rightarrow> string) \<Rightarrow> int \<Rightarrow> window \<Rightarrow> window" where
  "getLostrate_2 num vaule w = ChannelLostRateChanging 1 (of_int vaule / 1000) (set_label num 1 vaule w)"

definition getLostrate_3 :: "(rat \<Rightarrow> string) \<Rightarrow> int \<Rightarrow> window \<Rightarrow> window" where
  "getLostrate_3 num vaule w = ChannelLostRateChanging 2 (of_int vaule / 1000) (set_label num 2 vaule w)"

definition start_message :: "window \<Rightarrow> window" where
  "start_message w = showMessage ''Start sending'' w"

section \<open>Connections\<close>

text \<open>
  What the user can do and which slots it reaches. A click on a box changes its state between
  \<open>Unchecked\<close> (0) and \<open>Checked\<close> (2). The bars are \<open>QScrollBar\<close>s with the default range 0 to 99,
  which report a value only when it changed. There is no action for \<open>Stop_btn\<close>: the window has the
  button, and nothing is connected to it.
\<close>

datatype user_action =
    Choose_file string
  | Click_box_1 | Click_box_2 | Click_box_3
  | Slide_1 int | Slide_2 int | Slide_3 int
  | Click_play

definition click_box :: "nat \<Rightarrow> window \<Rightarrow> window" where
  "click_box i w = w\<lparr>check_state := (check_state w)[i := (if check_state w ! i = 0 then 2 else 0)]\<rparr>"

definition slide_bar :: "nat \<Rightarrow> int \<Rightarrow> (int \<Rightarrow> window \<Rightarrow> window) \<Rightarrow> window \<Rightarrow> window" where
  "slide_bar i v slot w =
     (let x = max 0 (min 99 v) in
      if x = lost_value w ! i then w else slot x (w\<lparr>lost_value := (lost_value w)[i := x]\<rparr>))"

definition dispatch :: "os_env \<Rightarrow> (rat \<Rightarrow> string) \<Rightarrow> user_action \<Rightarrow> window \<Rightarrow> window \<times> event list" where
  "dispatch env num a w =
     (case a of
        Choose_file f \<Rightarrow> (Readfile f w, [])
      | Click_box_1 \<Rightarrow> (getChannelState_1 (click_box 0 w), [])
      | Click_box_2 \<Rightarrow> (getChannelState_2 (click_box 1 w), [])
      | Click_box_3 \<Rightarrow> (getChannelState_3 (click_box 2 w), [])
      | Slide_1 v \<Rightarrow> (slide_bar 0 v (getLostrate_1 num) w, [])
      | Slide_2 v \<Rightarrow> (slide_bar 1 v (getLostrate_2 num) w, [])
      | Slide_3 v \<Rightarrow> (slide_bar 2 v (getLostrate_3 num) w, [])
      | Click_play \<Rightarrow>
          (let (s, evs) = StartSending env (udp w) in (start_message (w\<lparr>udp := s\<rparr>), evs)))"

text \<open>
  Runs of the application: the user acts while the GUI thread is free, the threads of the server and
  the rest of a \<open>channelStateChange\<close>, or of a \<open>StopSending\<close> that \<open>StartSending\<close> called, go on by themselves.
\<close>

inductive app_step :: "os_env \<Rightarrow> (rat \<Rightarrow> string) \<Rightarrow> window \<Rightarrow> event list \<Rightarrow> window \<Rightarrow> bool"
  for env :: os_env and num :: "rat \<Rightarrow> string"
where
  user: "gui (udp w) = G_idle \<Longrightarrow> dispatch env num a w = (w', evs) \<Longrightarrow> app_step env num w evs w'"
| app_reader: "reader_step env (udp w) = Inr (s, evs) \<Longrightarrow> gui (udp w) \<noteq> G_terminated \<Longrightarrow> app_step env num w evs (w\<lparr>udp := s\<rparr>)"
| app_worker: "i < SOCKET_POOL_SIZE \<Longrightarrow> worker_step env i (udp w) = Inr (s, evs) \<Longrightarrow> gui (udp w) \<noteq> G_terminated \<Longrightarrow>
    app_step env num w evs (w\<lparr>udp := s\<rparr>)"
| app_spurious_queue: "i < SOCKET_POOL_SIZE \<Longrightarrow> gui (udp w) \<noteq> G_terminated \<Longrightarrow> app_step env num w [] (w\<lparr>udp := wake_queue i (udp w)\<rparr>)"
| app_spurious_state: "i < SOCKET_POOL_SIZE \<Longrightarrow> gui (udp w) \<noteq> G_terminated \<Longrightarrow> app_step env num w [] (w\<lparr>udp := wake_state i (udp w)\<rparr>)"
| app_notify: "gui (udp w) = G_notify i \<Longrightarrow> app_step env num w [] (w\<lparr>udp := notify_state (udp w)\<rparr>)"
| app_stop_waking: "in_stop (gui (udp w)) \<Longrightarrow> app_step env num w [] (w\<lparr>udp := stop_wake (udp w)\<rparr>)"
| app_stop_joining: "in_stop (gui (udp w)) \<Longrightarrow> app_step env num w [] (w\<lparr>udp := stop_join (udp w)\<rparr>)"
| app_stop_joined: "in_stop (gui (udp w)) \<Longrightarrow> stop_finish env (udp w) = (s, evs) \<Longrightarrow> app_step env num w evs (w\<lparr>udp := s\<rparr>)"
| app_stop_timeout: "gui (udp w) = G_join (Suc k) resume \<Longrightarrow> \<not> thread_finished k (udp w) \<Longrightarrow>
    app_step env num w [Terminated k] (w\<lparr>udp := (udp w)\<lparr>gui := G_terminated\<rparr>\<rparr>)"

lemmas slot_defs = Readfile_def getChannelState_1_def getChannelState_2_def getChannelState_3_def
  getLostrate_1_def getLostrate_2_def getLostrate_3_def set_label_def start_message_def showMessage_def
  ChannelStateChanging_def ChannelLostRateChanging_def click_box_def slide_bar_def

text \<open>Doing nothing is a step of the server, since a call with an invalid channel does nothing.\<close>

lemma app_idle: "gui s = G_idle \<Longrightarrow> server_step env s [] s"
  using server_step.channel_state [of s env "- 1" True] by (simp add: channelStateChange_def)

lemma app_step_server: "app_step env num w evs w' \<Longrightarrow> server_step env (udp w) evs (udp w')"
proof (induction rule: app_step.induct)
  case (user w a w' evs)
  then show ?case
    by (cases a) (auto simp: dispatch_def slot_defs Let_def split: prod.splits if_splits intro: server_step.intros app_idle)
qed (auto intro: server_step.intros)

lemma app_runs_server: "runs (app_step env num) w tr w' \<Longrightarrow> runs (server_step env) (udp w) tr (udp w')"
  by (induction rule: runs.induct) (auto intro: runs.intros app_step_server)

section \<open>Switches and loss bars\<close>

definition settings :: "server \<Rightarrow> (int \<times> rat) list" where
  "settings s = map (\<lambda>c. (enabled c, lossRate c)) (channels s)"

lemma map_update_same: "f y = f (xs ! i) \<Longrightarrow> map f (xs[i := y]) = map f xs"
  by (cases "i < length xs") (auto simp: map_update list_update_beyond list_update_same_conv)

lemma settings_queue_update: "settings (update_channel i (packetQueue_update f) s) = settings s"
  by (simp add: settings_def map_update_same)

lemma settings_ops [simp]:
  "settings (goto i pc s) = settings s" "settings (wake_queue i s) = settings s" "settings (wake_state i s) = settings s"
  "settings (SetFileName p s) = settings s" "settings (stop_begin b s) = settings s" "settings (stop_wake s) = settings s"
  "settings (stop_join s) = settings s" "settings (notify_state s) = settings s" "settings (stop_cleanup s) = settings s"
  "settings (s\<lparr>gui := g\<rparr>) = settings s"
  by (simp_all add: settings_def SetFileName_def stop_begin_def stop_wake_def stop_join_def notify_state_def
      split: gui_pc.splits nat.splits)

lemma settings_cong: "channels s' = channels s \<Longrightarrow> settings s' = settings s"
  by (simp add: settings_def)

lemma settings_reader: "reader_step env s = Inr (s', evs) \<Longrightarrow> server_inv s \<Longrightarrow> settings s' = settings s"
  using reader_step_frame [of env s s' evs] by (auto simp: settings_def map_update_same split: if_splits)

lemma settings_worker:
  assumes "worker_step env i s = Inr (s', evs)"
  shows "settings s' = settings s"
proof -
  have "settings (t\<lparr>n_draws := x\<rparr>) = settings t" "settings (t\<lparr>globalSeqCounter := y\<rparr>) = settings t"
    "settings (t\<lparr>n_sends := z\<rparr>) = settings t" for t x y z
    by (simp_all add: settings_def)
  then show ?thesis
    using assms by (auto simp: worker_step_def Let_def stamp_packet_def send_packet_out_def bind_res_Inr_iff settings_queue_update
        split: worker_pc.splits if_splits option.splits list.splits)
qed

lemma settings_start_rest: "start_rest env s = (s', evs) \<Longrightarrow> settings s' = settings s"
  by (auto simp: start_rest_def Let_def settings_def comp_def split: if_splits)

lemma settings_stop_finish: "stop_finish env s = (s', evs) \<Longrightarrow> settings s' = settings s"
  by (erule stop_finish_cases) (auto dest: settings_start_rest)

definition wanted_settings :: "window \<Rightarrow> (int \<times> rat) list" where
  "wanted_settings w =
     map (\<lambda>i. (if check_state w ! i \<noteq> 0 then 1 else 0, of_int (lost_value w ! i) / 1000)) [0..<3]"

definition window_inv :: "window \<Rightarrow> bool" where
  "window_inv w \<longleftrightarrow> server_inv (udp w) \<and> length (check_state w) = 3 \<and> length (lost_value w) = 3 \<and>
     (\<forall>v \<in> set (lost_value w). 0 \<le> v \<and> v \<le> 99) \<and> settings (udp w) = wanted_settings w"

lemma settings_channelStateChange:
  assumes "length (channels s) = 3" "i < 3"
  shows "settings (channelStateChange (int i) on s) =
    (settings s)[i := (if on then 1 else 0, lossRate (channels s ! i))]"
  using assms by (auto simp: channelStateChange_def SOCKET_POOL_SIZE_def Let_def settings_def map_update)

lemma settings_setLossRate:
  assumes "length (channels s) = 3" "i < 3"
  shows "settings (setLossRate (int i) r s) =
    (settings s)[i := (enabled (channels s ! i), max 0 (min 1 r))]"
  using assms by (auto simp: setLossRate_def SOCKET_POOL_SIZE_def settings_def map_update)

lemmas settings_preserved = settings_reader settings_worker settings_start_rest settings_stop_finish

lemma channels_open_sockets [simp]: "channels (open_sockets env i n s) = channels s"
  by (induction env i n s rule: open_sockets.induct) auto

lemma channels_new [simp]: "channels (new_Udpserver env host port) = replicate 3 new_ChannelContext"
  by (simp add: new_Udpserver_def initializeSockets_def SOCKET_POOL_SIZE_def)

lemma window_inv_new: "window_inv (new_Channel_sim env)"
  by (simp add: window_inv_def new_Channel_sim_def server_inv_new settings_def wanted_settings_def
      new_ChannelContext_def numeral_3_eq_3)

text \<open>The effect of a slot on the server and on the row of its channel.\<close>

lemma window_inv_box:
  assumes "window_inv w" "i < 3"
    and "udp w' = channelStateChange (int i) (check_state (click_box i w) ! i \<noteq> 0) (udp w)"
    and "check_state w' = check_state (click_box i w)" "lost_value w' = lost_value w"
    and "server_inv (udp w')"
  shows "window_inv w'"
proof -
  have len: "length (channels (udp w)) = 3"
    using assms(1) by (simp add: window_inv_def server_inv_def SOCKET_POOL_SIZE_def)
  have "map snd (settings (udp w)) ! i = lossRate (channels (udp w) ! i)"
    using assms(2) len by (simp add: settings_def)
  moreover have "map snd (settings (udp w)) ! i = of_int (lost_value w ! i) / 1000"
    using assms(1,2) by (simp add: window_inv_def wanted_settings_def)
  ultimately have "settings (udp w') = wanted_settings w'"
    using assms len
    by (auto simp: window_inv_def wanted_settings_def settings_channelStateChange click_box_def
        intro!: nth_equalityI simp: nth_list_update)
  then show ?thesis using assms by (simp add: window_inv_def click_box_def)
qed

lemma window_inv_bar:
  assumes "window_inv w" "i < 3" "0 \<le> x" "x \<le> 99"
    and "udp w' = setLossRate (int i) (of_int x / 1000) (udp w)"
    and "check_state w' = check_state w" "lost_value w' = (lost_value w)[i := x]"
    and "server_inv (udp w')"
  shows "window_inv w'"
proof -
  have len: "length (channels (udp w)) = 3"
    using assms(1) by (simp add: window_inv_def server_inv_def SOCKET_POOL_SIZE_def)
  have "map fst (settings (udp w)) ! i = enabled (channels (udp w) ! i)"
    using assms(2) len by (simp add: settings_def)
  moreover have "map fst (settings (udp w)) ! i = (if check_state w ! i \<noteq> 0 then 1 else 0)"
    using assms(1,2) by (simp add: window_inv_def wanted_settings_def)
  moreover have "max 0 (min 1 (rat_of_int x / 1000)) = of_int x / 1000"
    using assms(3,4) by simp
  ultimately have "settings (udp w') = wanted_settings w'"
    using assms len
    by (auto simp: window_inv_def wanted_settings_def settings_setLossRate
        intro!: nth_equalityI simp: nth_list_update)
  then show ?thesis using assms by (auto simp: window_inv_def dest!: set_update_subset_insert [THEN subsetD])
qed

lemma settings_StartSending: "StartSending env s = (s', evs) \<Longrightarrow> settings s' = settings s"
  by (auto simp: StartSending_def dest: settings_start_rest split: if_splits)

lemma window_inv_cong:
  assumes "window_inv w" "server_inv (udp w')" "settings (udp w') = settings (udp w)"
    and "check_state w' = check_state w" "lost_value w' = lost_value w"
  shows "window_inv w'"
  using assms by (simp add: window_inv_def wanted_settings_def)

lemma window_inv_user:
  assumes inv: "window_inv w" and a: "dispatch env num a w = (w', evs)" and srv: "server_inv (udp w')"
  shows "window_inv w'"
proof -
  have box: "window_inv w'" if "i < 3" "udp w' = channelStateChange (int i) (check_state (click_box i w) ! i \<noteq> 0) (udp w)"
      "check_state w' = check_state (click_box i w)" "lost_value w' = lost_value w" for i
    using window_inv_box [OF inv that srv] .
  have bar: "window_inv w'" if "i < 3" "w' = slide_bar i v (\<lambda>x u. ChannelLostRateChanging (int i) (of_int x / 1000)
      (set_label num i x u)) w" for i v
  proof (cases "w' = w")
    case False
    then show ?thesis
      using that by (intro window_inv_bar [OF inv that(1), of "max 0 (min 99 v)"] srv)
        (auto simp: slide_bar_def Let_def ChannelLostRateChanging_def set_label_def split: if_splits)
  qed (use inv in simp)
  show ?thesis
  proof (cases a)
    case (Choose_file f)
    with a have "settings (udp w') = settings (udp w)" "check_state w' = check_state w" "lost_value w' = lost_value w"
      by (auto simp: dispatch_def Readfile_def)
    then show ?thesis by (rule window_inv_cong [OF inv srv])
  next
    case Click_play
    with a have "settings (udp w') = settings (udp w)" "check_state w' = check_state w" "lost_value w' = lost_value w"
      by (auto simp: dispatch_def start_message_def showMessage_def split: prod.splits dest: settings_StartSending)
    then show ?thesis by (rule window_inv_cong [OF inv srv])
  next
    case Click_box_1
    with a show ?thesis
      by (intro box [of 0]) (auto simp: dispatch_def getChannelState_1_def showMessage_def ChannelStateChanging_def
          click_box_def split: if_splits)
  next
    case Click_box_2
    with a show ?thesis
      by (intro box [of 1]) (auto simp: dispatch_def getChannelState_2_def showMessage_def ChannelStateChanging_def
          click_box_def split: if_splits)
  next
    case Click_box_3
    with a show ?thesis
      by (intro box [of 2]) (auto simp: dispatch_def getChannelState_3_def showMessage_def ChannelStateChanging_def
          click_box_def split: if_splits)
  next
    case (Slide_1 v)
    with a show ?thesis by (intro bar [of 0 v]) (simp_all add: dispatch_def getLostrate_1_def [abs_def])
  next
    case (Slide_2 v)
    with a show ?thesis by (intro bar [of 1 v]) (simp_all add: dispatch_def getLostrate_2_def [abs_def])
  next
    case (Slide_3 v)
    with a show ?thesis by (intro bar [of 2 v]) (simp_all add: dispatch_def getLostrate_3_def [abs_def])
  qed
qed

lemma window_inv_step: "window_inv w \<Longrightarrow> app_step env num w evs w' \<Longrightarrow> window_inv w'"
proof -
  assume w: "window_inv w" and st: "app_step env num w evs w'"
  have inv: "server_inv (udp w)" and srv: "server_inv (udp w')"
    using w server_step_inv [OF _ app_step_server [OF st]] by (simp_all add: window_inv_def)
  from st show "window_inv w'"
  proof cases
    case (user a)
    then show ?thesis using window_inv_user w srv by blast
  qed (rule window_inv_cong [OF w srv]; use inv in \<open>auto dest: settings_preserved\<close>)+
qed

interpretation app: step_invariant "app_step env num" window_inv for env num
  by unfold_locales (rule window_inv_step)

lemma new_window_fields [simp]:
  "gui (udp (new_Channel_sim env)) = G_idle" "\<not> is_running (udp (new_Channel_sim env))"
  "workerThreads (udp (new_Channel_sim env)) = 0"
  by (simp_all add: new_Channel_sim_def new_Udpserver_def initializeSockets_def)

lemma app_user:
  "runs (app_step env num) w0 tr w \<Longrightarrow> gui (udp w) = G_idle \<Longrightarrow> dispatch env num a w = (w', evs) \<Longrightarrow>
   runs (app_step env num) w0 (tr @ evs) w'"
  by (rule runs.runs_step) (auto intro: app_step.user)



section \<open>The end of a file\<close>

text \<open>The reader has returned normally, and nothing has reset \<open>is_running\<close>.\<close>

definition file_sent :: "window \<Rightarrow> bool" where
  "file_sent w \<longleftrightarrow> is_running (udp w) \<and> rd_pc (udp w) = R_done \<and> (gui (udp w) = G_idle \<or> (\<exists>i. gui (udp w) = G_notify i))"

definition no_new_chunk :: "event list \<Rightarrow> window \<Rightarrow> bool" where
  "no_new_chunk tr w \<longleftrightarrow> (\<forall>c. Chunk_read c \<notin> set tr) \<and> (\<forall>i sp. Enqueued i sp \<notin> set tr)"

lemma worker_step_no_chunk:
  "worker_step env i s = Inr (s', evs) \<Longrightarrow> Chunk_read c \<notin> set evs \<and> Enqueued j sp \<notin> set evs"
  by (auto simp: worker_step_def Let_def stamp_packet_def send_packet_out_def bind_res_Inr_iff
      split: worker_pc.splits if_splits option.splits list.splits)

lemma file_sent_user:
  assumes "file_sent w" "dispatch env num a w = (w', evs)"
  shows "file_sent w' \<and> evs = []"
  using assms by (cases a)
    (auto simp: dispatch_def slot_defs file_sent_def SetFileName_def channelStateChange_def setLossRate_def
      StartSending_def Let_def split: if_splits)

lemma file_sent_step:
  assumes "file_sent w" "app_step env num w evs w'"
  shows "file_sent w' \<and> no_new_chunk evs w'"
  using assms(2,1)
proof cases
  case (user a)
  then show ?thesis using file_sent_user [OF assms(1) user(2)] by (simp add: no_new_chunk_def)
next
  case (app_worker i s)
  then show ?thesis
    using assms(1) worker_step_frame [OF app_worker(3)] worker_step_no_chunk [OF app_worker(3)]
    by (auto simp: file_sent_def no_new_chunk_def worker_frame_def)
qed (auto simp: file_sent_def no_new_chunk_def reader_step_def notify_state_def)

interpretation sent_file: step_history "app_step env num" file_sent no_new_chunk for env num
  by unfold_locales (use file_sent_step in \<open>auto simp: no_new_chunk_def\<close>)

text \<open>
  Claim C29. One file per session: once the reader has come to the end of a file, \<open>is_running\<close> stays
  set, so no action of the user makes the application read or queue anything again; \<open>Play\<close> leaves
  the server as it is, while the status bar says that sending starts.
\<close>

theorem no_second_file:
  assumes "file_sent w" "runs (app_step env num) w tr w'"
  shows "(\<forall>c. Chunk_read c \<notin> set tr) \<and> (\<forall>i sp. Enqueued i sp \<notin> set tr) \<and>
    dispatch env num Click_play w' = (w'\<lparr>status_message := ''Start sending''\<rparr>, [])"
proof -
  have "file_sent w'" by (rule sent_file.runs_preserve [OF assms(2,1)])
  then have "dispatch env num Click_play w' = (w'\<lparr>status_message := ''Start sending''\<rparr>, [])"
    by (simp add: dispatch_def StartSending_def file_sent_def start_message_def showMessage_def)
  moreover have "no_new_chunk tr w'"
    by (rule sent_file.runs_record [OF assms(2,1)]) (simp add: no_new_chunk_def)
  ultimately show ?thesis by (simp add: no_new_chunk_def)
qed

theorem no_second_file_witness:
  "\<exists>env num tr w. runs (app_step env num) (new_Channel_sim env) tr w \<and> file_sent w \<and> status_message w = ''Start sending'' \<and>
     dispatch env num Click_play w = (w\<lparr>status_message := ''Start sending''\<rparr>, [])"
proof -
  let ?env = "demo_env\<lparr>open_file := \<lambda>_. Some []\<rparr>" and ?num = "\<lambda>_ :: rat. ''0''"
  let ?w0 = "new_Channel_sim ?env"
  obtain w1 where w1: "dispatch ?env ?num (Choose_file ''f'') ?w0 = (w1, [])" by (simp add: dispatch_def)
  then have f1: "gui (udp w1) = G_idle" "currentFilePath (udp w1) = ''f''" "\<not> is_running (udp w1)" "workerThreads (udp w1) = 0"
    by (auto simp: dispatch_def Readfile_def SetFileName_def)
  obtain w2 where w2: "dispatch ?env ?num Click_play w1 = (w2, [Queues_cleared])"
    using f1 by (auto simp: dispatch_def StartSending_def start_rest_def Let_def split: prod.splits)
  then have f2: "gui (udp w2) = G_idle" "is_running (udp w2)" "rd_pc (udp w2) = R_open" "currentFilePath (udp w2) = ''f''"
    "status_message w2 = ''Start sending''"
    using f1 by (auto simp: dispatch_def StartSending_def start_rest_def Let_def slot_defs demo_env_def SOCKET_POOL_SIZE_def
        numeral_3_eq_3)
  let ?w3 = "w2\<lparr>udp := (udp w2)\<lparr>rd_file := [], data_buf := replicate kMaxDataSize None, rd_pc := R_while\<rparr>\<rparr>"
  let ?w4 = "?w3\<lparr>udp := (udp ?w3)\<lparr>rd_pc := R_done\<rparr>\<rparr>"
  have st: "app_step ?env ?num w2 [] ?w3" "app_step ?env ?num ?w3 [] ?w4"
    by (rule app_step.app_reader; use f2 in \<open>simp add: reader_step_def\<close>)+
  have run2: "runs (app_step ?env ?num) ?w0 [Queues_cleared] w2"
    using app_user [OF app_user [OF runs.runs_init _ w1] f1(1) w2] by simp
  have run4: "runs (app_step ?env ?num) ?w0 [Queues_cleared] ?w4"
    using runs.runs_step [OF runs.runs_step [OF run2 st(1)] st(2)] by simp
  have sent: "file_sent ?w4" using f2 by (simp add: file_sent_def)
  from no_second_file [OF sent runs.runs_init] run4 sent f2 show ?thesis
    by (intro exI conjI) (assumption, simp_all)
qed

end
