(* ===== verification/Uep_Masks.thy ===== *)
theory Uep_Masks
  imports Packet_Masks
begin

text \<open>
  Unequal protection (\<^verbatim>\<open>FEC_Encode/include/modules/rtp_rtcp/source/forward_error_correction_internal.cc\<close>,
  the mask module that the program's own \<open>GeneratePacketMasks\<close> was cut down from): the allocation of
  FEC packets to the important media packets, the fitting and shifting of sub-masks, and the full
  \<open>GeneratePacketMasks\<close>. Its table functions \<open>LookUp\<close>, \<open>LookUpInFecTable\<close>, \<open>PickTable\<close> and
  \<open>PacketMaskSize\<close> are the same text as the ones of \<^verbatim>\<open>Channel_sim\<close> and are shared. Parameters of type
  \<open>int\<close> that count bytes, rows or columns are natural numbers.
\<close>

section \<open>Sub-masks\<close>

datatype ProtectionMode = kModeNoOverlap | kModeOverlap | kModeBiasFirstPacket

text \<open>
  The inner loop of \<open>FitSubMask\<close> over the remaining \<open>n\<close> bytes of a row, and the loop over the
  remaining \<open>n\<close> rows from row \<open>i\<close>. \<open>s0\<close> and \<open>p0\<close> are the offsets the two pointers have.
\<close>

fun fit_row :: "mem \<Rightarrow> nat \<Rightarrow> nat \<Rightarrow> nat \<Rightarrow> mem \<Rightarrow> mem res" where
  "fit_row sub_mask pkt_mask_idx2 pkt_mask_idx 0 packet_mask = Inr packet_mask"
| "fit_row sub_mask pkt_mask_idx2 pkt_mask_idx (Suc n) packet_mask =
     bind_res (mem_load ''sub_mask'' (int pkt_mask_idx2) 1 sub_mask) (\<lambda>b.
     bind_res (mem_store ''packet_mask'' (int pkt_mask_idx) b packet_mask)
       (fit_row sub_mask (Suc pkt_mask_idx2) (Suc pkt_mask_idx) n))"

fun fit_rows :: "nat \<Rightarrow> nat \<Rightarrow> mem \<Rightarrow> nat \<Rightarrow> nat \<Rightarrow> nat \<Rightarrow> nat \<Rightarrow> mem \<Rightarrow> mem res" where
  "fit_rows num_mask_bytes num_sub_mask_bytes sub_mask s0 p0 i 0 packet_mask = Inr packet_mask"
| "fit_rows num_mask_bytes num_sub_mask_bytes sub_mask s0 p0 i (Suc n) packet_mask =
     bind_res
       (fit_row sub_mask (s0 + i * num_sub_mask_bytes) (p0 + i * num_mask_bytes) num_sub_mask_bytes packet_mask)
       (fit_rows num_mask_bytes num_sub_mask_bytes sub_mask s0 p0 (Suc i) n)"

definition FitSubMask :: "nat \<Rightarrow> nat \<Rightarrow> nat \<Rightarrow> mem \<Rightarrow> nat \<Rightarrow> nat \<Rightarrow> mem \<Rightarrow> mem res" where
  "FitSubMask num_mask_bytes num_sub_mask_bytes num_rows sub_mask s0 p0 packet_mask =
     (if num_mask_bytes = num_sub_mask_bytes then
        bind_res (mem_load ''sub_mask'' (int s0) (num_rows * num_sub_mask_bytes) sub_mask) (\<lambda>bs.
          mem_store ''packet_mask'' (int p0) bs packet_mask)
      else fit_rows num_mask_bytes num_sub_mask_bytes sub_mask s0 p0 0 num_rows packet_mask)"

text \<open>
  The bytes of one row in \<open>ShiftFitSubMask\<close>, from byte \<open>j\<close> down to byte 0; then the loop over the
  remaining \<open>n\<close> rows from row \<open>i\<close>.
\<close>

fun shift_bytes :: "mem \<Rightarrow> nat \<Rightarrow> nat \<Rightarrow> int \<Rightarrow> int \<Rightarrow> mem \<Rightarrow> mem res" where
  "shift_bytes sub_mask num_bit_shifts 0 pkt_mask_idx pkt_mask_idx2 packet_mask =
     bind_res (mem_read ''sub_mask'' pkt_mask_idx2 1 sub_mask) (\<lambda>cur.
       mem_store ''packet_mask'' pkt_mask_idx [Some (drop_bit num_bit_shifts (hd cur))] packet_mask)"
| "shift_bytes sub_mask num_bit_shifts (Suc j) pkt_mask_idx pkt_mask_idx2 packet_mask =
     bind_res (mem_read ''sub_mask'' pkt_mask_idx2 1 sub_mask) (\<lambda>cur.
     bind_res (mem_read ''sub_mask'' (pkt_mask_idx2 - 1) 1 sub_mask) (\<lambda>prev.
     bind_res
       (mem_store ''packet_mask'' pkt_mask_idx
          [Some (drop_bit num_bit_shifts (hd cur) OR push_bit (8 - num_bit_shifts) (hd prev))] packet_mask)
       (shift_bytes sub_mask num_bit_shifts j (pkt_mask_idx - 1) (pkt_mask_idx2 - 1))))"

definition shift_row :: "nat \<Rightarrow> nat \<Rightarrow> nat \<Rightarrow> mem \<Rightarrow> nat \<Rightarrow> nat \<Rightarrow> mem \<Rightarrow> mem res" where
  "shift_row num_mask_bytes res_mask_bytes num_column_shift sub_mask s0 i packet_mask =
     (let num_bit_shifts = num_column_shift mod 8;
          num_byte_shifts = num_column_shift div 8;
          pkt_mask_idx = int (i * num_mask_bytes) + int res_mask_bytes - 1 + int num_byte_shifts;
          pkt_mask_idx2 = int s0 + int ((i - num_column_shift) * res_mask_bytes) + int res_mask_bytes - 1
      in bind_res
           (if num_mask_bytes > res_mask_bytes then
              bind_res (mem_read ''sub_mask'' pkt_mask_idx2 1 sub_mask) (\<lambda>lst.
                mem_store ''packet_mask'' (pkt_mask_idx + 1) [Some (push_bit (8 - num_bit_shifts) (hd lst))]
                  packet_mask)
            else Inr packet_mask)
           (shift_bytes sub_mask num_bit_shifts (res_mask_bytes - 1) pkt_mask_idx pkt_mask_idx2))"

fun shift_rows :: "nat \<Rightarrow> nat \<Rightarrow> nat \<Rightarrow> mem \<Rightarrow> nat \<Rightarrow> nat \<Rightarrow> nat \<Rightarrow> mem \<Rightarrow> mem res" where
  "shift_rows num_mask_bytes res_mask_bytes num_column_shift sub_mask s0 i 0 packet_mask = Inr packet_mask"
| "shift_rows num_mask_bytes res_mask_bytes num_column_shift sub_mask s0 i (Suc n) packet_mask =
     bind_res (shift_row num_mask_bytes res_mask_bytes num_column_shift sub_mask s0 i packet_mask)
       (shift_rows num_mask_bytes res_mask_bytes num_column_shift sub_mask s0 (Suc i) n)"

definition ShiftFitSubMask :: "nat \<Rightarrow> nat \<Rightarrow> nat \<Rightarrow> nat \<Rightarrow> mem \<Rightarrow> nat \<Rightarrow> mem \<Rightarrow> mem res" where
  "ShiftFitSubMask num_mask_bytes res_mask_bytes num_column_shift end_row sub_mask s0 packet_mask =
     shift_rows num_mask_bytes res_mask_bytes num_column_shift sub_mask s0 num_column_shift
       (end_row - num_column_shift) packet_mask"

section \<open>Allocation\<close>

text \<open>\<open>int max_num_fec_for_imp = 0.5f * num_fec_packets\<close> truncates towards zero.\<close>

definition SetProtectionAllocation :: "int \<Rightarrow> int \<Rightarrow> int \<Rightarrow> int" where
  "SetProtectionAllocation num_media_packets num_fec_packets num_imp_packets =
     (let max_num_fec_for_imp = sgn num_fec_packets * (\<bar>num_fec_packets\<bar> div 2);
          num_fec_for_imp_packets =
            (if num_imp_packets < max_num_fec_for_imp then num_imp_packets else max_num_fec_for_imp)
      in if num_fec_packets = 1 \<and> num_media_packets > 2 * num_imp_packets then 0
         else num_fec_for_imp_packets)"

text \<open>\<open>packet_mask[i * num_mask_bytes] |= 1 << 7\<close> for the remaining \<open>n\<close> rows from row \<open>i\<close>.\<close>

fun bias_first :: "nat \<Rightarrow> nat \<Rightarrow> nat \<Rightarrow> mem \<Rightarrow> mem res" where
  "bias_first num_mask_bytes i 0 packet_mask = Inr packet_mask"
| "bias_first num_mask_bytes i (Suc n) packet_mask =
     bind_res (mem_read ''packet_mask'' (int (i * num_mask_bytes)) 1 packet_mask) (\<lambda>b.
     bind_res (mem_store ''packet_mask'' (int (i * num_mask_bytes)) [Some (hd b OR 0x80)] packet_mask)
       (bias_first num_mask_bytes (Suc i) n))"

definition ImportantPacketProtection ::
  "bool \<Rightarrow> nat \<Rightarrow> nat \<Rightarrow> nat \<Rightarrow> mem \<Rightarrow> PacketMaskTable \<Rightarrow> (PacketMaskTable \<times> mem) res"
where
  "ImportantPacketProtection dchecks num_fec_for_imp_packets num_imp_packets num_mask_bytes packet_mask mask_table =
     bind_res (PacketMaskSize dchecks num_imp_packets) (\<lambda>num_imp_mask_bytes.
     bind_res (LookUp dchecks mask_table (int num_imp_packets) (int num_fec_for_imp_packets)) (\<lambda>(sub_1, table').
       RTC_DCHECK dchecks (0 < av_size sub_1) ''idx < this->size()''
         (bind_res
            (FitSubMask num_mask_bytes num_imp_mask_bytes num_fec_for_imp_packets (av_object sub_1) (av_start sub_1) 0
               packet_mask)
            (\<lambda>packet_mask'. Inr (table', packet_mask')))))"

definition RemainingPacketProtection ::
  "bool \<Rightarrow> nat \<Rightarrow> nat \<Rightarrow> nat \<Rightarrow> nat \<Rightarrow> ProtectionMode \<Rightarrow> mem \<Rightarrow> PacketMaskTable \<Rightarrow> (PacketMaskTable \<times> mem) res"
where
  "RemainingPacketProtection dchecks num_media_packets num_fec_remaining num_fec_for_imp_packets num_mask_bytes
     mode packet_mask mask_table =
     (if mode = kModeNoOverlap then
        bind_res (PacketMaskSize dchecks (size_t (int num_media_packets - int num_fec_for_imp_packets))) (\<lambda>res_mask_bytes.
        bind_res
          (LookUp dchecks mask_table (int num_media_packets - int num_fec_for_imp_packets) (int num_fec_remaining))
          (\<lambda>(sub_21, table').
            RTC_DCHECK dchecks (0 < av_size sub_21) ''idx < this->size()''
              (bind_res
                 (ShiftFitSubMask num_mask_bytes res_mask_bytes num_fec_for_imp_packets
                    (num_fec_for_imp_packets + num_fec_remaining) (av_object sub_21) (av_start sub_21) packet_mask)
                 (\<lambda>packet_mask'. Inr (table', packet_mask')))))
      else
        bind_res (LookUp dchecks mask_table (int num_media_packets) (int num_fec_remaining)) (\<lambda>(sub_22, table').
          RTC_DCHECK dchecks (0 < av_size sub_22) ''idx < this->size()''
            (bind_res
               (FitSubMask num_mask_bytes num_mask_bytes num_fec_remaining (av_object sub_22) (av_start sub_22)
                  (num_fec_for_imp_packets * num_mask_bytes) packet_mask)
               (\<lambda>packet_mask'.
                 bind_res
                   (if mode = kModeBiasFirstPacket then bias_first num_mask_bytes 0 num_fec_remaining packet_mask'
                    else Inr packet_mask')
                   (\<lambda>packet_mask''. Inr (table', packet_mask''))))))"

definition UnequalProtectionMask ::
  "bool \<Rightarrow> nat \<Rightarrow> nat \<Rightarrow> nat \<Rightarrow> nat \<Rightarrow> mem \<Rightarrow> PacketMaskTable \<Rightarrow> (PacketMaskTable \<times> mem) res"
where
  "UnequalProtectionMask dchecks num_media_packets num_fec_packets num_imp_packets num_mask_bytes packet_mask mask_table =
     (let mode = kModeOverlap;
          num_fec_for_imp_packets =
            (if mode \<noteq> kModeBiasFirstPacket
             then SetProtectionAllocation (int num_media_packets) (int num_fec_packets) (int num_imp_packets) else 0);
          num_fec_remaining = int num_fec_packets - num_fec_for_imp_packets
      in bind_res
           (if num_fec_for_imp_packets > 0 then
              ImportantPacketProtection dchecks (nat num_fec_for_imp_packets) num_imp_packets num_mask_bytes
                packet_mask mask_table
            else Inr (mask_table, packet_mask))
           (\<lambda>(table1, packet_mask1).
             if num_fec_remaining > 0 then
               RemainingPacketProtection dchecks num_media_packets (nat num_fec_remaining)
                 (nat num_fec_for_imp_packets) num_mask_bytes mode packet_mask1 table1
             else Inr (table1, packet_mask1)))"

definition GeneratePacketMasks_uep ::
  "bool \<Rightarrow> nat \<Rightarrow> nat \<Rightarrow> nat \<Rightarrow> bool \<Rightarrow> PacketMaskTable \<Rightarrow> mem \<Rightarrow> (PacketMaskTable \<times> mem) res"
where
  "GeneratePacketMasks_uep dchecks num_media_packets num_fec_packets num_imp_packets
     use_unequal_protection mask_table packet_mask =
     RTC_DCHECK dchecks (num_media_packets > 0) ''num_media_packets > 0''
       (RTC_DCHECK dchecks (num_fec_packets > 0) ''num_fec_packets > 0''
         (RTC_DCHECK dchecks (num_fec_packets \<le> num_media_packets) ''num_fec_packets <= num_media_packets''
           (RTC_DCHECK dchecks (num_imp_packets \<le> num_media_packets) ''num_imp_packets <= num_media_packets''
             (bind_res (PacketMaskSize dchecks num_media_packets) (\<lambda>num_mask_bytes.
               if \<not> use_unequal_protection \<or> num_imp_packets = 0 then
                 bind_res (LookUp dchecks mask_table (int num_media_packets) (int num_fec_packets)) (\<lambda>(sub, table').
                   RTC_DCHECK dchecks (0 < av_size sub) ''idx < this->size()''
                     (bind_res (mem_load ''mask'' (int (av_start sub)) (av_size sub) (av_object sub)) (\<lambda>bytes.
                      bind_res (mem_store ''packet_masks_'' 0 bytes packet_mask)
                        (\<lambda>packet_mask'. Inr (table', packet_mask')))))
               else
                 UnequalProtectionMask dchecks num_media_packets num_fec_packets num_imp_packets num_mask_bytes
                   packet_mask mask_table)))))"

section \<open>Fitting a sub-mask\<close>

text \<open>A mask of \<open>n\<close> rows of \<open>w'\<close> bytes in rows of \<open>w\<close> bytes, filled with zeros.\<close>

definition widen :: "nat \<Rightarrow> nat \<Rightarrow> nat \<Rightarrow> u8 list \<Rightarrow> u8 list" where
  "widen w w' n bytes = concat (map (\<lambda>i. take w' (drop (i * w') bytes) @ replicate (w - w') 0) [0..<n])"

lemma length_widen: "length bytes = n * w' \<Longrightarrow> w' \<le> w \<Longrightarrow> length (widen w w' n bytes) = n * w"
proof -
  assume len: "length bytes = n * w'" "w' \<le> w"
  have "length (take w' (drop (i * w') bytes)) = w'" if "i < n" for i
    using len that mult_le_mono1 [of "Suc i" n w'] by simp
  then show ?thesis unfolding widen_def using len
    by (subst length_concat_fixed [where n = w]) auto
qed

lemma rows_concat: "length bytes = n * w \<Longrightarrow> concat (map (\<lambda>i. take w (drop (i * w) bytes)) [0..<n]) = bytes"
proof (induction n arbitrary: bytes)
  case (Suc n)
  have "[0..<Suc n] = 0 # map Suc [0..<n]" by (simp add: map_Suc_upt upt_conv_Cons del: upt_Suc)
  then have "concat (map (\<lambda>i. take w (drop (i * w) bytes)) [0..<Suc n]) =
      take w bytes @ concat (map (\<lambda>i. take w (drop (i * w) (drop w bytes))) [0..<n])"
    by (simp add: comp_def add.commute del: upt_Suc)
  then show ?case using Suc.IH [of "drop w bytes"] Suc.prems by simp
qed simp

lemma widen_same: "length bytes = n * w \<Longrightarrow> widen w w n bytes = bytes"
  by (simp add: widen_def rows_concat)

lemma fit_row_eq:
  "s + n \<le> length sub_mask \<Longrightarrow> p + n \<le> length pm \<Longrightarrow>
   fit_row sub_mask s p n pm = Inr (take p pm @ take n (drop s sub_mask) @ drop (p + n) pm)"
proof (induction n arbitrary: s p pm)
  case (Suc n)
  then have drop: "drop s sub_mask = sub_mask ! s # drop (Suc s) sub_mask"
    by (simp add: Cons_nth_drop_Suc)
  from Suc.prems have "mem_load ''sub_mask'' (int s) 1 sub_mask = Inr [sub_mask ! s]"
    by (simp add: mem_load_nat drop)
  then show ?case
    using Suc.prems by (simp add: mem_store_nat Suc.IH drop add.commute [of n p])
qed simp

lemma fit_rows_eq:
  assumes "w' \<le> w" "(i + n) * w' \<le> length bytes" "length pre = p0 + i * w"
  shows "fit_rows w w' (xs @ mem_of bytes @ ys) (length xs) p0 i n (pre @ replicate (n * w) (Some 0) @ post) =
    Inr (pre @ mem_of (concat (map (\<lambda>r. take w' (drop (r * w') bytes) @ replicate (w - w') 0) [i..<i + n])) @ post)"
  using assms(2,3)
proof (induction n arbitrary: i pre)
  case (Suc n)
  let ?row = "take w' (drop (i * w') bytes)"
  let ?pm = "pre @ replicate (Suc n * w) (Some 0) @ post"
  have le: "i * w' + w' \<le> length bytes"
    using Suc.prems(1) by (simp add: algebra_simps)
  then have row: "take w' (drop (length xs + i * w') (xs @ mem_of bytes @ ys)) = mem_of ?row" by simp
  have zeros: "replicate (Suc n * w) (Some (0 :: u8)) = replicate w' (Some 0) @ replicate (w - w') (Some 0) @ replicate (n * w) (Some 0)"
    using assms(1) by (simp flip: replicate_add)
  have "fit_row (xs @ mem_of bytes @ ys) (length xs + i * w') (p0 + i * w) w' ?pm =
      Inr (pre @ mem_of ?row @ replicate (w - w') (Some 0) @ replicate (n * w) (Some 0) @ post)"
    using le Suc.prems(2) by (subst fit_row_eq) (simp_all add: row zeros del: replicate_Suc mult_Suc)
  moreover have "[i..<i + Suc n] = i # [Suc i..<Suc i + n]" by (simp add: upt_conv_Cons del: upt_Suc)
  moreover have "mem_of (replicate (w - w') 0) = replicate (w - w') (Some 0)" by (simp add: mem_of_def)
  ultimately show ?case
    using Suc.IH [of "Suc i" "pre @ mem_of ?row @ replicate (w - w') (Some 0)"] Suc.prems assms(1) le
    by (simp del: upt_Suc)
qed simp

lemma FitSubMask_eq:
  assumes "w' \<le> w" "length bytes = n * w'" "length pre = p0" "s0 + n * w' \<le> length sub_mask"
    and "take (n * w') (drop s0 sub_mask) = mem_of bytes"
  shows "FitSubMask w w' n sub_mask s0 p0 (pre @ replicate (n * w) (Some 0) @ post) =
    Inr (pre @ mem_of (widen w w' n bytes) @ post)"
proof (cases "w = w'")
  case True
  then show ?thesis
    using assms by (simp add: FitSubMask_def mem_load_nat mem_store_nat widen_same)
next
  case False
  have "sub_mask = take s0 sub_mask @ mem_of bytes @ drop (s0 + n * w') sub_mask"
    using assms(4,5) by (metis append_take_drop_id drop_drop add.commute)
  then have "fit_rows w w' sub_mask s0 p0 0 n (pre @ replicate (n * w) (Some 0) @ post) =
      Inr (pre @ mem_of (widen w w' n bytes) @ post)"
    using fit_rows_eq [OF assms(1), of 0 n bytes pre p0 "take s0 sub_mask" "drop (s0 + n * w') sub_mask" post] assms
    by (simp add: widen_def)
  then show ?thesis using False by (simp add: FitSubMask_def)
qed

section \<open>Looking up several masks\<close>

text \<open>The table that \<open>PickTable\<close> chooses for \<open>k\<close> media packets, and a table ready for a look-up.\<close>

definition picked_type :: "FecMaskType \<Rightarrow> nat \<Rightarrow> FecMaskType" where
  "picked_type ty k = (if k \<le> 12 then ty else kFecMaskRandom)"

definition table_ready :: "FecMaskType \<Rightarrow> PacketMaskTable \<Rightarrow> bool" where
  "table_ready ty t \<longleftrightarrow> pm_table t = table_of ty \<and> length (fec_packet_mask t) = 288"

lemma new_table_ready:
  assumes "0 < k" "k \<le> 48" "new_PacketMaskTable dchecks ty (int k) = Inr t"
  shows "table_ready (picked_type ty k) t"
  using assms
  by (auto simp: table_ready_def picked_type_def new_PacketMaskTable_def PickTable_def table_of_def size_t_of_nat
      mask_constants kPacketMaskBurstyTbl_def RTC_DCHECK_Inr split: FecMaskType.splits)

lemma length_fill_row: "fill_row k m w row col buf = Inr buf' \<Longrightarrow> length buf' = length buf"
proof (induction k m w row col buf arbitrary: buf' rule: fill_row.induct)
  case (1 k m w row col buf)
  then show ?case
    by (cases "col < w") (fastforce simp: fill_row.simps [of k m w row col] bind_res_Inr_iff dest: length_mem_store)+
qed

lemma length_fill_masks: "fill_masks k m w row buf = Inr buf' \<Longrightarrow> length buf' = length buf"
proof (induction k m w row buf arbitrary: buf' rule: fill_masks.induct)
  case (1 k m w row buf)
  then show ?case
    by (cases "row < m") (fastforce simp: fill_masks.simps [of k m w row] bind_res_Inr_iff dest: length_fill_row)+
qed

lemma LookUp_keeps_ready: "LookUp dchecks t k m = Inr (v, t') \<Longrightarrow> table_ready ty t \<Longrightarrow> table_ready ty t'"
  by (auto simp: LookUp_def table_ready_def RTC_DCHECK_Inr bind_res_Inr_iff split: if_splits dest: length_fill_masks)

lemma LookUp_ready:
  assumes "0 < m" "m \<le> k" "k \<le> 48" "table_ready ty t"
  shows "\<exists>v t'. LookUp dchecks t (int k) (int m) = Inr (v, t') \<and> table_ready ty t' \<and>
    av_start v + m * mask_width k \<le> length (av_object v) \<and>
    take (m * mask_width k) (drop (av_start v) (av_object v)) = mem_of (mask_spec ty k m) \<and>
    av_size v = m * mask_width k"
proof (cases "k \<le> 12")
  case True
  then show ?thesis
    using LookUp_table [of m k t ty dchecks] assms
    by (auto simp: table_ready_def mask_spec_def mask_width_def mult.commute)
next
  case False
  then show ?thesis
    using LookUp_interleaved [of m k t dchecks] assms LookUp_keeps_ready [OF _ assms(4)]
    by (fastforce simp: table_ready_def mask_spec_def)
qed

section \<open>The unequal mask\<close>

text \<open>FEC packets spent on the important media packets only.\<close>

definition uep_alloc :: "nat \<Rightarrow> nat \<Rightarrow> nat \<Rightarrow> nat" where
  "uep_alloc k m imp = (if m = 1 \<and> k > 2 * imp then 0 else min imp (m div 2))"

lemma SetProtectionAllocation_eq: "SetProtectionAllocation (int k) (int m) (int imp) = int (uep_alloc k m imp)"
proof -
  have "sgn (int m) * (\<bar>int m\<bar> div 2) = int (m div 2)" by (cases m) (simp_all add: zdiv_int)
  then show ?thesis by (auto simp: SetProtectionAllocation_def uep_alloc_def Let_def min_def)
qed

lemma uep_alloc_le: "uep_alloc k m imp \<le> imp"
  by (simp add: uep_alloc_def)

lemma uep_alloc_less: "0 < m \<Longrightarrow> uep_alloc k m imp < m"
  by (auto simp: uep_alloc_def)

text \<open>
  The reference: first the rows for the \<open>imp\<close> important packets alone, then the equal-protection
  rows for the whole group.
\<close>

definition uep_mask :: "FecMaskType \<Rightarrow> nat \<Rightarrow> nat \<Rightarrow> nat \<Rightarrow> u8 list" where
  "uep_mask ty k m imp =
     (let t = uep_alloc k m imp in
      (if t = 0 then [] else widen (mask_width k) (mask_width imp) t (mask_spec ty imp t)) @
      mask_spec ty k (m - t))"

lemma mask_width_mono: "a \<le> b \<Longrightarrow> mask_width a \<le> mask_width b"
  by (simp add: mask_width_def)

lemma length_uep_mask:
  assumes "0 < m" "m \<le> k" "k \<le> 48" "imp \<le> k"
  shows "length (uep_mask ty k m imp) = m * mask_width k"
proof -
  let ?t = "uep_alloc k m imp"
  have t: "?t \<le> imp" "?t < m" using uep_alloc_le uep_alloc_less assms by auto
  have "length (mask_spec ty k (m - ?t)) = (m - ?t) * mask_width k"
    using t assms by (intro length_mask_spec) auto
  moreover have "length (widen (mask_width k) (mask_width imp) ?t (mask_spec ty imp ?t)) = ?t * mask_width k" if "0 < ?t"
    using t assms that by (intro length_widen length_mask_spec mask_width_mono) auto
  ultimately show ?thesis
    using t by (auto simp: uep_mask_def Let_def simp flip: add_mult_distrib)
qed

lemma ImportantPacketProtection_eq:
  assumes "0 < t" "t \<le> imp" "imp \<le> k" "k \<le> 48" "table_ready ty tab"
  shows "\<exists>tab'. ImportantPacketProtection dchecks t imp (mask_width k)
      (replicate (t * mask_width k) (Some 0) @ post) tab =
      Inr (tab', mem_of (widen (mask_width k) (mask_width imp) t (mask_spec ty imp t)) @ post) \<and> table_ready ty tab'"
proof -
  from LookUp_ready [of t imp ty tab dchecks] assms obtain v tab' where
    v: "LookUp dchecks tab (int imp) (int t) = Inr (v, tab')" "table_ready ty tab'"
      "av_start v + t * mask_width imp \<le> length (av_object v)"
      "take (t * mask_width imp) (drop (av_start v) (av_object v)) = mem_of (mask_spec ty imp t)"
      "av_size v = t * mask_width imp"
    by auto
  have "length (mask_spec ty imp t) = t * mask_width imp" using assms by (intro length_mask_spec) auto
  note fit = FitSubMask_eq [OF mask_width_mono [OF assms(3)] this _ v(3,4), of "[]" 0 post]
  have "0 < av_size v" using v(5) assms(1) by (simp add: mask_width_def)
  then show ?thesis
    using v assms fit by (simp add: ImportantPacketProtection_def PacketMaskSize_ok)
qed

lemma RemainingPacketProtection_eq:
  assumes "0 < r" "r \<le> k" "k \<le> 48" "table_ready ty tab" "length pre = t * mask_width k"
  shows "\<exists>tab'. RemainingPacketProtection dchecks k r t (mask_width k) kModeOverlap
      (pre @ replicate (r * mask_width k) (Some 0) @ post) tab =
      Inr (tab', pre @ mem_of (mask_spec ty k r) @ post) \<and> table_ready ty tab'"
proof -
  from LookUp_ready [of r k ty tab dchecks] assms obtain v tab' where
    v: "LookUp dchecks tab (int k) (int r) = Inr (v, tab')" "table_ready ty tab'"
      "av_start v + r * mask_width k \<le> length (av_object v)"
      "take (r * mask_width k) (drop (av_start v) (av_object v)) = mem_of (mask_spec ty k r)"
      "av_size v = r * mask_width k"
    by auto
  have "0 < av_size v" using v(5) assms(1) by (simp add: mask_width_def)
  then show ?thesis
    using v assms FitSubMask_eq [OF order_refl length_mask_spec [OF assms(1-3)] assms(5) v(3,4), of post]
    by (simp add: RemainingPacketProtection_def widen_same length_mask_spec)
qed

lemma GeneratePacketMasks_uep_eq:
  assumes "0 < m" "m \<le> k" "k \<le> 48" "0 < imp" "imp \<le> k"
    and "new_PacketMaskTable dchecks ty (int k) = Inr t"
    and "packet_mask = replicate (m * mask_width k) (Some 0) @ post"
  shows "\<exists>t'. GeneratePacketMasks_uep dchecks k m imp True t packet_mask =
    Inr (t', mem_of (uep_mask (picked_type ty k) k m imp) @ post)"
proof -
  let ?ty = "picked_type ty k" and ?n = "uep_alloc k m imp" and ?w = "mask_width k"
  have n: "?n \<le> imp" "?n < m" using uep_alloc_le uep_alloc_less assms(1) by auto
  have t: "table_ready ?ty t" using new_table_ready assms by simp
  have split: "packet_mask = replicate (?n * ?w) (Some 0) @ replicate ((m - ?n) * ?w) (Some 0) @ post"
    using n assms(7) by (simp flip: replicate_add add_mult_distrib)
  let ?pre = "if ?n = 0 then [] else widen ?w (mask_width imp) ?n (mask_spec ?ty imp ?n)"
  have "\<exists>t1. (if int ?n > 0 then ImportantPacketProtection dchecks (nat (int ?n)) imp ?w packet_mask t
      else Inr (t, packet_mask)) = Inr (t1, mem_of ?pre @ replicate ((m - ?n) * ?w) (Some 0) @ post) \<and> table_ready ?ty t1"
    using ImportantPacketProtection_eq [of ?n imp k ?ty t dchecks] n assms(3,5) t by (auto simp: split)
  then obtain t1 where t1: "(if int ?n > 0 then ImportantPacketProtection dchecks (nat (int ?n)) imp ?w packet_mask t
      else Inr (t, packet_mask)) = Inr (t1, mem_of ?pre @ replicate ((m - ?n) * ?w) (Some 0) @ post)" "table_ready ?ty t1"
    by blast
  have len: "length (mem_of ?pre) = ?n * ?w"
    using n assms by (auto intro!: length_widen length_mask_spec mask_width_mono)
  have r: "nat (int m - int ?n) = m - ?n" "int m - int ?n > 0" using n by auto
  have "0 < m - ?n" "m - ?n \<le> k" using n assms(2) by auto
  from RemainingPacketProtection_eq [OF this assms(3) t1(2) len, of dchecks post] obtain t2 where
    "RemainingPacketProtection dchecks k (m - ?n) ?n ?w kModeOverlap
       (mem_of ?pre @ replicate ((m - ?n) * ?w) (Some 0) @ post) t1 =
     Inr (t2, mem_of ?pre @ mem_of (mask_spec ?ty k (m - ?n)) @ post)" by blast
  then show ?thesis
    using t1(1) assms r
    by (auto simp: GeneratePacketMasks_uep_def UnequalProtectionMask_def PacketMaskSize_ok SetProtectionAllocation_eq
        Let_def uep_mask_def)
qed

text \<open>
  Claim C30. With unequal protection the full \<open>GeneratePacketMasks\<close> returns, for all
  \<open>1 \<le> m \<le> k \<le> 48\<close>, \<open>1 \<le> imp \<le> k\<close>, both table kinds and both build modes, on a zeroed array,
  without a failed check or an access outside an object; the array then starts with
  \<open>min(imp, m / 2)\<close> rows that are the mask for the important packets alone, each widened to the row
  size of the group, followed by the equal-protection mask of the whole group for the remaining
  FEC packets, and is unchanged behind them.
\<close>

theorem unequal_mask_spec:
  assumes "0 < m" "m \<le> k" "k \<le> 48" "0 < imp" "imp \<le> k"
    and "new_PacketMaskTable dchecks ty (int k) = Inr t"
    and "packet_mask = replicate (m * mask_width k) (Some 0) @ post"
  shows "\<exists>t'. GeneratePacketMasks_uep dchecks k m imp True t packet_mask =
    Inr (t', mem_of (uep_mask (picked_type ty k) k m imp) @ post)"
  using assms by (rule GeneratePacketMasks_uep_eq)

theorem unequal_mask_spec_witness:
  "\<exists>t'. GeneratePacketMasks_uep True 20 4 3 True
     \<lparr>pm_table = kPacketMaskRandomTbl, fec_packet_mask = replicate 288 None\<rparr> (replicate 24 (Some 0)) =
     Inr (t', mem_of (widen 6 2 2 kMaskRandom3_2 @ interleaved_mask 20 2))"
proof -
  let ?t = "\<lparr>pm_table = kPacketMaskRandomTbl, fec_packet_mask = replicate 288 None\<rparr>"
  have "new_PacketMaskTable True kFecMaskRandom (int 20) = Inr ?t"
    by (simp add: new_PacketMaskTable_def PickTable_def size_t_def mask_constants)
  moreover have "uep_mask (picked_type kFecMaskRandom 20) 20 4 3 = widen 6 2 2 kMaskRandom3_2 @ interleaved_mask 20 2"
    by (simp add: uep_mask_def picked_type_def uep_alloc_def mask_width_def mask_spec_def rows_of_def mask_rows_random_def)
  ultimately show ?thesis
    using unequal_mask_spec [of 4 20 3 True kFecMaskRandom ?t "replicate 24 (Some 0)" "[]"]
    by (simp add: mask_width_def)
qed

end
