(* ===== verification/Uep_Shift.thy ===== *)
theory Uep_Shift
  imports Uep_Masks
begin

text \<open>
  \<open>ShiftFitSubMask\<close> as a matrix operation: it moves a sub-mask by a number of rows and as many
  columns. The function works byte by byte, from the last byte of a row to the first, combines two
  neighbouring bytes, and may write behind the row; the lemmas follow the cells of the mask through
  the three loops.
\<close>

section \<open>One byte\<close>

text \<open>Byte \<open>c\<close> of a row \<open>B\<close> of \<open>n\<close> bytes after a shift by \<open>s < 8\<close> columns.\<close>

definition shifted_byte :: "nat \<Rightarrow> nat \<Rightarrow> (nat \<Rightarrow> u8) \<Rightarrow> nat \<Rightarrow> u8" where
  "shifted_byte s n B c =
     (if c < n then drop_bit s (B c) else 0) OR (if 0 < c \<and> c \<le> n then push_bit (8 - s) (B (c - 1)) else 0)"

lemma bit_shifted_byte:
  assumes "s < 8" "b < 8"
  shows "bit (shifted_byte s n B c) (7 - b) \<longleftrightarrow>
    s \<le> 8 * c + b \<and> 8 * c + b - s < 8 * n \<and> bit (B ((8 * c + b - s) div 8)) (7 - (8 * c + b - s) mod 8)"
proof (cases "s \<le> b")
  case True
  then have "8 * c + b - s = 8 * c + (b - s)" "b - s < 8" using assms by auto
  then have q: "(8 * c + b - s) div 8 = c" "(8 * c + b - s) mod 8 = b - s" by simp_all
  have "\<not> bit (push_bit (8 - s) (B (c - 1))) (7 - b)" using True assms by (auto simp: bit_push_bit_iff)
  moreover have "bit (drop_bit s (B c)) (7 - b) = bit (B c) (7 - (b - s))"
    using True assms by (simp add: bit_drop_bit_eq add.commute)
  ultimately show ?thesis using True assms q by (auto simp: shifted_byte_def bit_or_iff)
next
  case False
  then have "8 * c + b - s = 8 * (c - 1) + (8 + b - s)" "8 + b - s < 8" if "0 < c" using that assms by auto
  then have q: "(8 * c + b - s) div 8 = c - 1" "(8 * c + b - s) mod 8 = 8 + b - s" if "0 < c"
    using that by simp_all
  have "\<not> bit (drop_bit s (B c)) (7 - b)"
    using False assms bit_imp_le_length [of "B c"] by (fastforce simp: bit_drop_bit_eq)
  moreover have "bit (push_bit (8 - s) (B (c - 1))) (7 - b) = bit (B (c - 1)) (7 - (8 + b - s))"
    using False assms by (auto simp: bit_push_bit_iff)
  ultimately show ?thesis using False assms q by (auto simp: shifted_byte_def bit_or_iff)
qed

section \<open>One row\<close>

lemma shift_bytes_eq:
  assumes "\<And>c. c \<le> j \<Longrightarrow> base2 + c < length sub_mask \<and> sub_mask ! (base2 + c) = Some (B c)" "base + j < length pm"
    and "j < n"
  shows "\<exists>pm'. shift_bytes sub_mask s j (int (base + j)) (int (base2 + j)) pm = Inr pm' \<and> length pm' = length pm \<and>
    (\<forall>p. pm' ! p = (if base \<le> p \<and> p \<le> base + j then Some (shifted_byte s n B (p - base)) else pm ! p))"
  using assms
proof (induction j arbitrary: pm)
  case 0
  then have "mem_read ''sub_mask'' (int (base2 + 0)) 1 sub_mask = Inr [B 0]" by (intro mem_read_one) auto
  then show ?case
    using 0 by (auto simp: mem_store_one shifted_byte_def nth_list_update)
next
  case (Suc j)
  have cur: "mem_read ''sub_mask'' (int (base2 + Suc j)) 1 sub_mask = Inr [B (Suc j)]"
    using Suc.prems(1) [of "Suc j"] by (intro mem_read_one) auto
  have prev: "mem_read ''sub_mask'' (int (base2 + j)) 1 sub_mask = Inr [B j]"
    using Suc.prems(1) [of j] by (intro mem_read_one) auto
  have idx: "int (base + Suc j) - 1 = int (base + j)" "int (base2 + Suc j) - 1 = int (base2 + j)" by simp_all
  let ?pm = "pm[base + Suc j := Some (drop_bit s (B (Suc j)) OR push_bit (8 - s) (B j))]"
  have st: "mem_store ''packet_mask'' (int (base + Suc j)) [Some (drop_bit s (B (Suc j)) OR push_bit (8 - s) (B j))] pm = Inr ?pm"
    using Suc.prems(2) by (intro mem_store_one) simp
  obtain pm' where pm': "shift_bytes sub_mask s j (int (base + j)) (int (base2 + j)) ?pm = Inr pm'" "length pm' = length pm"
    "\<forall>p. pm' ! p = (if base \<le> p \<and> p \<le> base + j then Some (shifted_byte s n B (p - base)) else ?pm ! p)"
    using Suc.IH [of ?pm] Suc.prems by auto
  have "shift_bytes sub_mask s (Suc j) (int (base + Suc j)) (int (base2 + Suc j)) pm = Inr pm'"
    using pm'(1) by (simp only: shift_bytes.simps idx cur prev st bind_res.simps list.sel)
  moreover have "pm' ! p = (if base \<le> p \<and> p \<le> base + Suc j then Some (shifted_byte s n B (p - base)) else pm ! p)" for p
    using pm'(3) Suc.prems by (auto simp: nth_list_update shifted_byte_def le_Suc_eq)
  ultimately show ?case using pm'(2) by blast
qed

text \<open>
  A row of \<open>n\<close> bytes written from cell \<open>base\<close> on; with room in the row the bits shifted out of its
  last byte get a byte of their own.
\<close>

lemma shift_row_eq:
  assumes "\<And>c. c < n \<Longrightarrow> s0 + (i - shift) * n + c < length sub_mask \<and> sub_mask ! (s0 + (i - shift) * n + c) = Some (B c)"
    and "0 < n" "base = i * w + shift div 8" "hi = (if n < w then n else n - 1)" "base + hi < length pm"
  shows "\<exists>pm'. shift_row w n shift sub_mask s0 i pm = Inr pm' \<and> length pm' = length pm \<and>
    (\<forall>p. pm' ! p = (if base \<le> p \<and> p \<le> base + hi then Some (shifted_byte (shift mod 8) n B (p - base)) else pm ! p))"
proof -
  let ?s = "shift mod 8" and ?b2 = "s0 + (i - shift) * n"
  let ?pm1 = "if n < w then pm[base + n := Some (push_bit (8 - ?s) (B (n - 1)))] else pm"
  have idx: "int (i * w) + int n - 1 + int (shift div 8) = int (base + (n - 1))"
    "int s0 + int ((i - shift) * n) + int n - 1 = int (?b2 + (n - 1))"
    using assms(2,3) by auto
  have lst: "mem_read ''sub_mask'' (int (?b2 + (n - 1))) 1 sub_mask = Inr [B (n - 1)]"
    using assms(1) [of "n - 1"] assms(2) by (intro mem_read_one) auto
  have nxt: "int (base + (n - 1)) + 1 = int (base + n)" using assms(2) by simp
  have first: "(if n < w then bind_res (mem_read ''sub_mask'' (int (?b2 + (n - 1))) 1 sub_mask) (\<lambda>lst.
      mem_store ''packet_mask'' (int (base + (n - 1)) + 1) [Some (push_bit (8 - ?s) (hd lst))] pm) else Inr pm) = Inr ?pm1"
    using assms(4,5) by (cases "n < w") (simp_all only: nxt lst bind_res.simps list.sel mem_store_one if_True if_False)
  have "base + (n - 1) < length ?pm1" using assms(2,4,5) by (auto split: if_splits)
  then obtain pm' where pm': "shift_bytes sub_mask ?s (n - 1) (int (base + (n - 1))) (int (?b2 + (n - 1))) ?pm1 = Inr pm'"
    "length pm' = length ?pm1"
    "\<forall>p. pm' ! p = (if base \<le> p \<and> p \<le> base + (n - 1) then Some (shifted_byte ?s n B (p - base)) else ?pm1 ! p)"
    using shift_bytes_eq [of "n - 1" ?b2 sub_mask B base ?pm1 n ?s] assms(1,2) by auto
  have "shift_row w n shift sub_mask s0 i pm = Inr pm'"
    unfolding shift_row_def Let_def idx first bind_res.simps using pm'(1) .
  moreover have "pm' ! p = (if base \<le> p \<and> p \<le> base + hi then Some (shifted_byte ?s n B (p - base)) else pm ! p)" for p
    using pm'(3) assms(2,4,5) by (auto simp: nth_list_update shifted_byte_def split: if_splits)
  moreover have "length pm' = length pm" using pm'(2) by simp
  ultimately show ?thesis by blast
qed

section \<open>All rows\<close>

text \<open>
  The cells of the rows from \<open>shift\<close> on when \<open>r\<close> of them are done: zero to the left of the shifted
  bytes and in the rows to come.
\<close>

definition shifted_cells :: "nat \<Rightarrow> nat \<Rightarrow> nat \<Rightarrow> (nat \<Rightarrow> nat \<Rightarrow> u8) \<Rightarrow> nat \<Rightarrow> nat \<Rightarrow> mem \<Rightarrow> mem \<Rightarrow> bool" where
  "shifted_cells w n shift B rows r pm0 pm \<longleftrightarrow> length pm = length pm0 \<and>
     (\<forall>p < shift * w. pm ! p = pm0 ! p) \<and>
     (\<forall>row < rows. \<forall>c < w. pm ! ((shift + row) * w + c) =
        Some (if row < r \<and> shift div 8 \<le> c then shifted_byte (shift mod 8) n (B row) (c - shift div 8) else 0))"

text \<open>Bytes that fall behind the row hold none of the \<open>k\<close> columns of the sub-mask.\<close>

lemma shifted_byte_outside:
  assumes "k + shift \<le> 8 * w" "\<And>q. k \<le> q \<Longrightarrow> q < 8 * n \<Longrightarrow> \<not> bit (B (q div 8)) (7 - q mod 8)" "w \<le> shift div 8 + c"
  shows "shifted_byte (shift mod 8) n B c = 0"
proof (rule bit_word_eqI)
  fix b assume "b < LENGTH(8)"
  then have b: "b = 7 - (7 - b)" "7 - b < 8" "b < 8" by auto
  have "shift = 8 * (shift div 8) + shift mod 8" "8 * w \<le> 8 * (shift div 8) + 8 * c"
    using mult_le_mono2 [OF assms(3), of 8] by simp_all
  then have "k + shift mod 8 \<le> 8 * c" using assms(1) by linarith
  then have "k \<le> 8 * c + (7 - b) - shift mod 8" by linarith
  then have "\<not> bit (shifted_byte (shift mod 8) n B c) (7 - (7 - b))"
    using bit_shifted_byte [of "shift mod 8" "7 - b" n B c] assms(2) b(2) by auto
  then show "bit (shifted_byte (shift mod 8) n B c) b = bit (0 :: u8) b" using b(1) by simp
qed

lemma shift_row_cells:
  assumes cells: "shifted_cells w n shift B rows r pm0 pm" and "r < rows" "0 < n" "n \<le> w"
    and sub: "\<And>c. c < n \<Longrightarrow> s0 + r * n + c < length sub_mask \<and> sub_mask ! (s0 + r * n + c) = Some (B r c)"
    and fits: "k + shift \<le> 8 * w" "\<And>q. k \<le> q \<Longrightarrow> q < 8 * n \<Longrightarrow> \<not> bit (B r (q div 8)) (7 - q mod 8)"
    and len: "(shift + rows) * w + shift div 8 \<le> length pm0"
  shows "\<exists>pm'. shift_row w n shift sub_mask s0 (shift + r) pm = Inr pm' \<and> shifted_cells w n shift B rows (Suc r) pm0 pm'"
proof -
  let ?base = "(shift + r) * w + shift div 8" and ?hi = "if n < w then n else n - 1"
  let ?sb = "shifted_byte (shift mod 8) n (B r)"
  have hi: "?hi < w" using assms(3,4) by auto
  have "(shift + r) * w + w \<le> (shift + rows) * w"
    using assms(2) mult_le_mono1 [of "Suc (shift + r)" "shift + rows" w] by simp
  then have "?base + ?hi < length pm" using cells len hi by (simp add: shifted_cells_def)
  then obtain pm' where pm': "shift_row w n shift sub_mask s0 (shift + r) pm = Inr pm'" "length pm' = length pm"
    "\<forall>p. pm' ! p = (if ?base \<le> p \<and> p \<le> ?base + ?hi then Some (?sb (p - ?base)) else pm ! p)"
    using shift_row_eq [of n s0 "shift + r" shift sub_mask "B r" ?base w ?hi pm] sub assms(3) by auto
  have byte: "shift div 8 \<le> w" using fits(1) by simp
  have beyond: "?sb c = 0" if "?hi < c" "c < w" for c
    using that assms(3,4) by (auto simp: shifted_byte_def split: if_splits)
  have out: "?sb c = 0" if "w \<le> shift div 8 + c" for c
    using shifted_byte_outside [OF fits(1) fits(2) that] .
  have "pm' ! ((shift + row) * w + c) = Some (if row < Suc r \<and> shift div 8 \<le> c
      then shifted_byte (shift mod 8) n (B row) (c - shift div 8) else 0)" if row: "row < rows" "c < w" for row c
  proof -
    let ?p = "(shift + row) * w + c"
    have old: "pm ! ?p = Some (if row < r \<and> shift div 8 \<le> c
        then shifted_byte (shift mod 8) n (B row) (c - shift div 8) else 0)"
      using cells row by (simp add: shifted_cells_def)
    consider "row = r" | "row < r" | "r < row" by linarith
    then show ?thesis
    proof cases
      case 1
      then show ?thesis
        using pm'(3) [rule_format, of ?p] old beyond [of "c - shift div 8"] row(2) by (auto simp: not_le)
    next
      case 2
      then have "(shift + Suc row) * w \<le> (shift + r) * w" by (intro mult_le_mono1) simp
      then have "?p < ?base" using row(2) by simp
      then show ?thesis using pm'(3) [rule_format, of ?p] old 2 by simp
    next
      case 3
      then have "(shift + Suc r) * w \<le> (shift + row) * w" by (intro mult_le_mono1) simp
      then have "?sb (?p - ?base) = 0" using out [of "?p - ?base"] byte by simp
      then show ?thesis using pm'(3) [rule_format, of ?p] old 3 by simp
    qed
  qed
  moreover have "pm' ! p = pm0 ! p" if "p < shift * w" for p
  proof -
    have "p < ?base" using that by (simp add: add_mult_distrib)
    then show ?thesis using pm'(3) cells that by (simp add: shifted_cells_def)
  qed
  ultimately show ?thesis using pm'(1,2) cells by (auto simp: shifted_cells_def)
qed

lemma shift_rows_cells:
  assumes "shifted_cells w n shift B rows r pm0 pm" "r + m = rows" "0 < n" "n \<le> w"
    and sub: "\<And>row c. row < rows \<Longrightarrow> c < n \<Longrightarrow>
      s0 + row * n + c < length sub_mask \<and> sub_mask ! (s0 + row * n + c) = Some (B row c)"
    and fits: "k + shift \<le> 8 * w"
      "\<And>row q. row < rows \<Longrightarrow> k \<le> q \<Longrightarrow> q < 8 * n \<Longrightarrow> \<not> bit (B row (q div 8)) (7 - q mod 8)"
    and len: "(shift + rows) * w + shift div 8 \<le> length pm0"
  shows "\<exists>pm'. shift_rows w n shift sub_mask s0 (shift + r) m pm = Inr pm' \<and> shifted_cells w n shift B rows rows pm0 pm'"
  using assms(1,2)
proof (induction m arbitrary: r pm)
  case (Suc m)
  then have r: "r < rows" by simp
  from shift_row_cells [OF Suc.prems(1) r assms(3,4) sub [OF r] fits(1) fits(2) [OF r] len] obtain pm1 where
    "shift_row w n shift sub_mask s0 (shift + r) pm = Inr pm1" "shifted_cells w n shift B rows (Suc r) pm0 pm1" by blast
  then show ?case using Suc.IH [of "Suc r" pm1] Suc.prems(2) by simp
qed auto

text \<open>
  Claim C31. \<open>ShiftFitSubMask\<close> is the matrix shift it is meant to be: given a sub-mask of \<open>k\<close> columns
  and \<open>rows\<close> rows of \<open>n\<close> bytes, and a zeroed target whose rows of \<open>w \<ge> n\<close> bytes have room for the
  shifted columns, it returns; bit \<open>j\<close> of target row \<open>shift + row\<close> is bit \<open>j - shift\<close> of row \<open>row\<close>
  of the sub-mask, zero to the left of it, and the first \<open>shift\<close> rows are untouched. The writes
  behind a row, which do happen, stay within \<open>shift / 8\<close> bytes behind the target and never change
  a bit of it.
\<close>

theorem ShiftFitSubMask_shifts:
  assumes "0 < n" "n \<le> w" "k + shift \<le> 8 * w" "length bytes = rows * n"
    and "\<And>row j. row < rows \<Longrightarrow> k \<le> j \<Longrightarrow> j < 8 * n \<Longrightarrow> \<not> protects bytes n row j"
    and "s0 + rows * n \<le> length sub_mask" "take (rows * n) (drop s0 sub_mask) = mem_of bytes"
    and "length pm = (shift + rows) * w + shift div 8 + extra"
    and "\<And>p. shift * w \<le> p \<Longrightarrow> p < (shift + rows) * w \<Longrightarrow> pm ! p = Some 0"
  shows "\<exists>pm'. ShiftFitSubMask w n shift (shift + rows) sub_mask s0 pm = Inr pm' \<and> length pm' = length pm \<and>
    (\<forall>p < shift * w. pm' ! p = pm ! p) \<and>
    (\<forall>row < rows. \<forall>j < 8 * w. \<exists>v. pm' ! ((shift + row) * w + j div 8) = Some v \<and>
       bit v (7 - j mod 8) = (shift \<le> j \<and> j - shift < 8 * n \<and> protects bytes n row (j - shift)))"
proof -
  define B where "B = (\<lambda>row c. bytes ! (row * n + c))"
  have idx: "row * n + c < rows * n" if "row < rows" "c < n" for row c
    using that mult_le_mono1 [of "Suc row" rows n] by simp
  have sub: "s0 + row * n + c < length sub_mask \<and> sub_mask ! (s0 + row * n + c) = Some (B row c)" if rc: "row < rows" "c < n" for row c
  proof -
    have "take (rows * n) (drop s0 sub_mask) ! (row * n + c) = mem_of bytes ! (row * n + c)" using assms(7) by simp
    then show ?thesis using idx [OF rc] assms(4,6) by (simp add: B_def mem_of_def add.assoc)
  qed
  have zero: "shifted_cells w n shift B rows 0 pm pm"
  proof -
    have "pm ! ((shift + row) * w + c) = Some 0" if "row < rows" "c < w" for row c
      using that mult_le_mono1 [of "Suc (shift + row)" "shift + rows" w]
      by (intro assms(9)) (simp_all add: add_mult_distrib)
    then show ?thesis by (simp add: shifted_cells_def)
  qed
  have outside: "\<not> bit (B row (q div 8)) (7 - q mod 8)" if "row < rows" "k \<le> q" "q < 8 * n" for row q
    using assms(5) [OF that] by (simp add: protects_def B_def)
  have len: "(shift + rows) * w + shift div 8 \<le> length pm" using assms(8) by simp
  from shift_rows_cells [OF zero _ assms(1,2) sub assms(3) outside len, of rows] obtain pm' where
    pm': "ShiftFitSubMask w n shift (shift + rows) sub_mask s0 pm = Inr pm'" "shifted_cells w n shift B rows rows pm pm'"
    by (auto simp: ShiftFitSubMask_def)
  have "bit (if shift div 8 \<le> j div 8 then shifted_byte (shift mod 8) n (B row) (j div 8 - shift div 8) else 0) (7 - j mod 8) =
      (shift \<le> j \<and> j - shift < 8 * n \<and> protects bytes n row (j - shift))" if "row < rows" for row j
  proof (cases "shift div 8 \<le> j div 8")
    case True
    then have "8 * (j div 8 - shift div 8) + j mod 8 = j - 8 * (shift div 8)" by (simp add: diff_mult_distrib2 minus_mod_eq_mult_div)
    moreover have "j - 8 * (shift div 8) - shift mod 8 = j - shift"
      by (metis diff_diff_left mult_div_mod_eq)
    moreover have "8 * (shift div 8) \<le> j" using True by linarith
    then have "shift mod 8 \<le> j - 8 * (shift div 8) \<longleftrightarrow> shift \<le> j" using mult_div_mod_eq [of 8 shift] by linarith
    ultimately show ?thesis
      using True bit_shifted_byte [of "shift mod 8" "j mod 8" n "B row" "j div 8 - shift div 8"]
      by (simp add: protects_def B_def)
  next
    case False
    then have "\<not> shift \<le> j" using div_le_mono [of shift j 8] by auto
    then show ?thesis using False by simp
  qed
  then show ?thesis
    using pm' by (intro exI [of _ pm']) (auto simp: shifted_cells_def less_mult_imp_div_less mult.commute)
qed

theorem ShiftFitSubMask_shifts_witness:
  "\<exists>pm'. ShiftFitSubMask 2 2 3 4 (mem_of [0xC0, 0]) 0 (replicate 8 (Some 0)) = Inr pm' \<and> length pm' = 8 \<and>
    (\<exists>v. pm' ! 6 = Some v \<and> bit v 4) \<and> (\<exists>v. pm' ! 6 = Some v \<and> \<not> bit v 5)"
proof -
  let ?bytes = "[0xC0, 0 :: u8]" and ?pm = "replicate 8 (Some (0 :: u8))"
  have all: "\<forall>j \<in> set [2..<16]. \<not> protects ?bytes 2 0 j" by (simp add: upt_rec protects_def)
  have none: "\<not> protects ?bytes 2 row j" if "row < 1" "2 \<le> j" "j < 8 * 2" for row j
    using bspec [OF all [unfolded set_upt], of j] that by simp
  have bits: "protects ?bytes 2 0 0" by (simp add: protects_def)
  from ShiftFitSubMask_shifts [of 2 2 2 3 ?bytes 1 0 "mem_of ?bytes" ?pm 0, OF _ _ _ _ none] obtain pm' where
    pm': "ShiftFitSubMask 2 2 3 4 (mem_of ?bytes) 0 ?pm = Inr pm'" "length pm' = 8"
      "\<forall>row < 1. \<forall>j < 16. \<exists>v. pm' ! ((3 + row) * 2 + j div 8) = Some v \<and>
        bit v (7 - j mod 8) = (3 \<le> j \<and> j - 3 < 16 \<and> protects ?bytes 2 row (j - 3))"
    by auto
  from pm'(3) [rule_format, of 0 3] pm'(3) [rule_format, of 0 2] bits have
    "\<exists>v. pm' ! 6 = Some v \<and> bit v 4" "\<exists>v. pm' ! 6 = Some v \<and> \<not> bit v 5" by auto
  then show ?thesis using pm'(1,2) by blast
qed

end
