(* ===== verification/Uep_Coverage.thy ===== *)
theory Uep_Coverage
  imports Uep_Masks Mask_Coverage
begin

text \<open>
  What the masks with unequal protection achieve: every media packet keeps the protection of the whole group, the
  important packets get rows of their own, and the properties of the equal masks that the encoder relies on (no
  empty row, no bit behind the group) hold for both.
\<close>

section \<open>Rows\<close>

lemma protects_append:
  assumes "length A = t * w" "j < 8 * w"
  shows "protects (A @ B) w r j = (if r < t then protects A w r j else protects B w (r - t) j)"
proof -
  have j: "j div 8 < w" using assms(2) by (simp add: less_mult_imp_div_less mult.commute)
  show ?thesis
  proof (cases "r < t")
    case True
    then show ?thesis using row_cell_less [OF True j] assms(1) by (simp add: protects_def nth_append)
  next
    case False
    then have "r * w + j div 8 = t * w + ((r - t) * w + j div 8)" by (simp flip: add_mult_distrib)
    then show ?thesis using False assms(1) by (simp add: protects_def nth_append)
  qed
qed

lemma protects_widen:
  assumes "length bytes = n * w'" "w' \<le> w" "r < n" "j < 8 * w"
  shows "protects (widen w w' n bytes) w r j \<longleftrightarrow> j < 8 * w' \<and> protects bytes w' r j"
proof -
  let ?row = "\<lambda>i. take w' (drop (i * w') bytes) @ replicate (w - w') 0"
  have j: "j div 8 < w" "j div 8 < w' \<longleftrightarrow> j < 8 * w'"
    using assms(4) by (auto simp: less_mult_imp_div_less mult.commute div_less_iff_less_mult)
  have len: "length (take w' (drop (i * w') bytes)) = w'" if "i < n" for i
    using assms(1) that mult_le_mono1 [of "Suc i" n w'] by simp
  have "concat (map ?row [0..<n]) ! (r * w + j div 8) = map ?row [0..<n] ! r ! (j div 8)"
    using assms len j by (intro nth_concat_fixed) auto
  also have "\<dots> = (if j < 8 * w' then bytes ! (r * w' + j div 8) else 0)"
    using assms len [OF assms(3)] j by (auto simp: nth_append add.commute)
  finally show ?thesis by (simp add: protects_def widen_def)
qed

text \<open>The rows of the unequal mask.\<close>

lemma uep_mask_protects:
  assumes "0 < m" "m \<le> k" "k \<le> 48" "imp \<le> k" "r < m" "j < 8 * mask_width k"
  defines "t \<equiv> uep_alloc k m imp"
  shows "protects (uep_mask ty k m imp) (mask_width k) r j \<longleftrightarrow>
    (if r < t then j < 8 * mask_width imp \<and> protects (mask_spec ty imp t) (mask_width imp) r j
     else protects (mask_spec ty k (m - t)) (mask_width k) (r - t) j)"
proof -
  have t: "t \<le> imp" "t < m" using uep_alloc_le uep_alloc_less assms by (auto simp: t_def)
  let ?A = "if t = 0 then [] else widen (mask_width k) (mask_width imp) t (mask_spec ty imp t)"
  have w: "mask_width imp \<le> mask_width k" using assms(4) by (rule mask_width_mono)
  have l: "length (mask_spec ty imp t) = t * mask_width imp" if "t \<noteq> 0"
    using t assms that by (intro length_mask_spec) auto
  then have "length ?A = t * mask_width k" using w by (auto intro: length_widen)
  then have "protects (uep_mask ty k m imp) (mask_width k) r j =
      (if r < t then protects ?A (mask_width k) r j else protects (mask_spec ty k (m - t)) (mask_width k) (r - t) j)"
    unfolding uep_mask_def Let_def t_def [symmetric] by (rule protects_append [OF _ assms(6)])
  then show ?thesis using protects_widen [OF l w _ assms(6), of r] by auto
qed

section \<open>Coverage\<close>

text \<open>
  The mask of the encoder: with unequal protection when it is asked for and there are important packets.
\<close>

definition encoder_mask :: "FecMaskType \<Rightarrow> nat \<Rightarrow> nat \<Rightarrow> nat \<Rightarrow> bool \<Rightarrow> u8 list" where
  "encoder_mask ty k m imp uep = (if uep \<and> 0 < imp then uep_mask ty k m imp else mask_spec ty k m)"

lemma uep_mask_covers:
  fixes ty :: FecMaskType
  assumes "0 < m" "m \<le> k" "k \<le> 48" "0 < imp" "imp \<le> k"
  defines "t \<equiv> uep_alloc k m imp" and "P \<equiv> protects (uep_mask ty k m imp) (mask_width k)"
  shows "\<forall>j < k. \<exists>r. t \<le> r \<and> r < m \<and> P r j" "0 < t \<Longrightarrow> \<forall>j < imp. \<exists>r < t. P r j"
    "\<forall>r < t. \<forall>j. imp \<le> j \<and> j < 8 * mask_width k \<longrightarrow> \<not> P r j"
    "\<forall>r < m. \<exists>j < k. P r j" "\<forall>r < m. \<forall>j. k \<le> j \<and> j < 8 * mask_width k \<longrightarrow> \<not> P r j"
proof -
  have t: "t \<le> imp" "t < m" using uep_alloc_le uep_alloc_less assms by (auto simp: t_def)
  have w: "k \<le> 8 * mask_width k" "imp \<le> 8 * mask_width imp" "mask_width imp \<le> mask_width k"
    using assms mask_width_mono [OF assms(5)] by (auto simp: mask_width_def)
  have P: "P r j \<longleftrightarrow> (if r < t then j < 8 * mask_width imp \<and> protects (mask_spec ty imp t) (mask_width imp) r j
     else protects (mask_spec ty k (m - t)) (mask_width k) (r - t) j)" if "r < m" "j < 8 * mask_width k" for r j
    unfolding P_def t_def using uep_mask_protects [OF assms(1-3,5) that] by blast
  have all: "0 < m - t" "m - t \<le> k" using t assms(2) by auto
  note c = mask_spec_covers [OF all assms(3), of ty]
  have im: "(\<forall>j < imp. \<exists>i < t. protects (mask_spec ty imp t) (mask_width imp) i j) \<and>
    (\<forall>i < t. \<exists>j < imp. protects (mask_spec ty imp t) (mask_width imp) i j) \<and>
    (\<forall>i < t. \<forall>j. imp \<le> j \<and> j < 8 * mask_width imp \<longrightarrow> \<not> protects (mask_spec ty imp t) (mask_width imp) i j)" if "0 < t"
    using mask_spec_covers [OF that t(1), of ty] assms by simp
  show "\<forall>j < k. \<exists>r. t \<le> r \<and> r < m \<and> P r j"
  proof (intro allI impI)
    fix j assume j: "j < k"
    with c obtain i where "i < m - t" "protects (mask_spec ty k (m - t)) (mask_width k) i j" by blast
    then show "\<exists>r. t \<le> r \<and> r < m \<and> P r j" using j w by (intro exI [of _ "t + i"]) (auto simp: P)
  qed
  show important: "\<forall>j < imp. \<exists>r < t. P r j" if "0 < t"
  proof (intro allI impI)
    fix j assume j: "j < imp"
    with im [OF that] obtain i where "i < t" "protects (mask_spec ty imp t) (mask_width imp) i j" by blast
    then show "\<exists>r < t. P r j" using j w t assms(5) by (intro exI [of _ i]) (auto simp: P)
  qed
  show only: "\<forall>r < t. \<forall>j. imp \<le> j \<and> j < 8 * mask_width k \<longrightarrow> \<not> P r j"
    using P im t by (metis order_less_trans bot_nat_0.not_eq_extremum less_nat_zero_code)
  have "\<exists>j < k. P r j" if r: "r < m" for r
  proof (cases "r < t")
    case True
    with im obtain j where "j < imp" "protects (mask_spec ty imp t) (mask_width imp) r j" by auto
    then show ?thesis using True r w assms(5) by (intro exI [of _ j]) (auto simp: P)
  next
    case False
    with c r obtain j where "j < k" "protects (mask_spec ty k (m - t)) (mask_width k) (r - t) j"
      by (metis diff_less_mono linorder_not_less)
    then show ?thesis using False r w by (intro exI [of _ j]) (auto simp: P)
  qed
  then show "\<forall>r < m. \<exists>j < k. P r j" by blast
  show "\<forall>r < m. \<forall>j. k \<le> j \<and> j < 8 * mask_width k \<longrightarrow> \<not> P r j"
  proof (intro allI impI)
    fix r j assume r: "r < m" and j: "k \<le> j \<and> j < 8 * mask_width k"
    show "\<not> P r j"
    proof (cases "r < t")
      case True
      then show ?thesis using only j assms(5) by (meson order_trans)
    next
      case False
      then have "r - t < m - t" using r by simp
      then show ?thesis using P [OF r, of j] j c False by auto
    qed
  qed
qed

lemma encoder_mask_facts:
  assumes "0 < m" "m \<le> k" "k \<le> 48" "imp \<le> k"
  shows "length (encoder_mask ty k m imp uep) = m * mask_width k"
    "j < k \<Longrightarrow> \<exists>r < m. protects (encoder_mask ty k m imp uep) (mask_width k) r j"
    "r < m \<Longrightarrow> \<exists>j < k. protects (encoder_mask ty k m imp uep) (mask_width k) r j"
    "r < m \<Longrightarrow> k \<le> j \<Longrightarrow> j < 8 * mask_width k \<Longrightarrow> \<not> protects (encoder_mask ty k m imp uep) (mask_width k) r j"
  using length_uep_mask [OF assms, of ty] length_mask_spec [OF assms(1-3), of ty]
    uep_mask_covers [OF assms(1-3) _ assms(4), of ty] mask_spec_covers [OF assms(1-3), of ty]
  unfolding encoder_mask_def by (cases "uep \<and> 0 < imp"; auto; blast)+

text \<open>
  Claim C34. Unequal protection adds to the protection of the important packets and takes nothing essential from the others: for all
  \<open>1 \<le> m \<le> k \<le> 48\<close> and \<open>1 \<le> imp \<le> k\<close>, in the mask that \<open>GeneratePacketMasks\<close> builds, every media packet is covered by a row for
  the whole group, every one of the first \<open>imp\<close> packets also by one of the rows that \<open>SetProtectionAllocation\<close> reserves for
  them (when there are any), these rows cover important packets only, and no row is empty.
\<close>

theorem important_packets_protected_twice:
  assumes "0 < m" "m \<le> k" "k \<le> 48" "0 < imp" "imp \<le> k"
    and "new_PacketMaskTable dchecks ty (int k) = Inr t"
    and "packet_mask = replicate (m * mask_width k) (Some 0) @ post"
    and "alloc = nat (SetProtectionAllocation (int k) (int m) (int imp))"
  shows "\<exists>t' bytes. GeneratePacketMasks_uep dchecks k m imp True t packet_mask = Inr (t', mem_of bytes @ post) \<and>
    (\<forall>j < k. \<exists>r. alloc \<le> r \<and> r < m \<and> protects bytes (mask_width k) r j) \<and>
    (0 < alloc \<longrightarrow> (\<forall>j < imp. \<exists>r < alloc. protects bytes (mask_width k) r j)) \<and>
    (\<forall>r < alloc. \<forall>j. imp \<le> j \<and> j < 8 * mask_width k \<longrightarrow> \<not> protects bytes (mask_width k) r j) \<and>
    (\<forall>r < m. \<exists>j < k. protects bytes (mask_width k) r j)"
proof -
  have alloc: "alloc = uep_alloc k m imp" using assms(8) by (simp add: SetProtectionAllocation_eq)
  from GeneratePacketMasks_uep_eq [OF assms(1-7)] obtain t' where
    "GeneratePacketMasks_uep dchecks k m imp True t packet_mask = Inr (t', mem_of (uep_mask (picked_type ty k) k m imp) @ post)" by blast
  then show ?thesis
    using uep_mask_covers [OF assms(1-5), of "picked_type ty k"] unfolding alloc
    by (intro exI [of _ t'] exI [of _ "uep_mask (picked_type ty k) k m imp"]) blast
qed

theorem important_packets_protected_twice_witness:
  "\<exists>t' bytes r. GeneratePacketMasks_uep True 5 2 3 True
     \<lparr>pm_table = kPacketMaskRandomTbl, fec_packet_mask = replicate 288 None\<rparr> (replicate 4 (Some 0)) = Inr (t', mem_of bytes) \<and>
     r < 1 \<and> protects bytes 2 r 2"
proof -
  let ?t = "\<lparr>pm_table = kPacketMaskRandomTbl, fec_packet_mask = replicate 288 None\<rparr>"
  have t: "new_PacketMaskTable True kFecMaskRandom (int 5) = Inr ?t"
    by (simp add: new_PacketMaskTable_def PickTable_def size_t_def mask_constants)
  have a: "1 = nat (SetProtectionAllocation (int 5) (int 2) (int 3))" unfolding SetProtectionAllocation_eq by (simp add: uep_alloc_def)
  have w: "mask_width 5 = 2" by (simp add: mask_width_def)
  from important_packets_protected_twice [OF _ _ _ _ _ t _ a, of "replicate 4 (Some 0)" "[]", unfolded w] obtain t' bytes where
    "GeneratePacketMasks_uep True 5 2 3 True ?t (replicate 4 (Some 0)) = Inr (t', mem_of bytes)" "\<forall>j < 3. \<exists>r < 1. protects bytes 2 r j"
    by auto
  then show ?thesis by (metis eval_nat_numeral(3) lessI)
qed

end
