(* ===== verification/Fec_Packets.thy ===== *)
theory Fec_Packets
  imports Packet_Masks
begin

text \<open>
  The packets of the WebRTC codec in \<^verbatim>\<open>FEC_Encode/include/modules/rtp_rtcp/source\<close> and what it takes
  from its surroundings: the resizable buffer \<open>CopyOnWriteBuffer\<close> (\<^verbatim>\<open>rtc_base/copy_on_write_buffer\<close>),
  big-endian integers (\<^verbatim>\<open>byte_io.h\<close>), the comparison of wrapping sequence numbers
  (\<^verbatim>\<open>module_common_types_public.h\<close>, \<^verbatim>\<open>mod_ops.h\<close>), the packet classes, and the abstract classes
  \<open>FecHeaderReader\<close> and \<open>FecHeaderWriter\<close>, whose virtual functions are the fields of two records.
\<close>

section \<open>Buffers\<close>

text \<open>
  A buffer is the cells of its current size and its capacity. The buffers of the codec are never
  changed while they are shared, so that copying on write is not visible. Space that \<open>SetSize\<close>
  adds is indeterminate.
\<close>

record CopyOnWriteBuffer =
  cow_data :: mem
  cow_capacity :: nat

definition empty_buffer :: CopyOnWriteBuffer where
  "empty_buffer = \<lparr>cow_data = [], cow_capacity = 0\<rparr>"

definition buffer_of :: "u8 list \<Rightarrow> CopyOnWriteBuffer" where
  "buffer_of bytes = \<lparr>cow_data = mem_of bytes, cow_capacity = length bytes\<rparr>"

abbreviation buffer_size :: "CopyOnWriteBuffer \<Rightarrow> nat" where
  "buffer_size b \<equiv> length (cow_data b)"

definition SetSize :: "nat \<Rightarrow> CopyOnWriteBuffer \<Rightarrow> CopyOnWriteBuffer" where
  "SetSize n b =
     (if n \<le> buffer_size b then b\<lparr>cow_data := take n (cow_data b)\<rparr>
      else \<lparr>cow_data = cow_data b @ replicate (n - buffer_size b) None, cow_capacity = max (cow_capacity b) n\<rparr>)"

definition EnsureCapacity :: "nat \<Rightarrow> CopyOnWriteBuffer \<Rightarrow> CopyOnWriteBuffer" where
  "EnsureCapacity n b = b\<lparr>cow_capacity := max (cow_capacity b) n\<rparr>"

definition SetData :: "mem \<Rightarrow> CopyOnWriteBuffer \<Rightarrow> CopyOnWriteBuffer" where
  "SetData d b = \<lparr>cow_data = d, cow_capacity = max (cow_capacity b) (length d)\<rparr>"

text \<open>Statements on the bytes that \<open>MutableData\<close> points to.\<close>

definition change_data :: "(mem \<Rightarrow> mem res) \<Rightarrow> CopyOnWriteBuffer \<Rightarrow> CopyOnWriteBuffer res" where
  "change_data f b = bind_res (f (cow_data b)) (\<lambda>m. Inr (b\<lparr>cow_data := m\<rparr>))"

definition modify_byte :: "nat \<Rightarrow> (u8 \<Rightarrow> u8) \<Rightarrow> mem \<Rightarrow> mem res" where
  "modify_byte i f m =
     bind_res (mem_read ''data'' (int i) 1 m) (\<lambda>v. mem_store ''data'' (int i) [Some (f (hd v))] m)"

text \<open>\<open>SetSize(new_size)\<close> to a larger size and \<open>memset\<close> of the added bytes to zero.\<close>

definition grow_zeroed :: "nat \<Rightarrow> CopyOnWriteBuffer \<Rightarrow> CopyOnWriteBuffer res" where
  "grow_zeroed new_size b =
     change_data (mem_store ''data'' (int (buffer_size b)) (replicate (new_size - buffer_size b) (Some 0)))
       (SetSize new_size b)"

section \<open>Big-endian integers\<close>

definition ReadBigEndian :: "u8 list \<Rightarrow> 'a :: len word" where
  "ReadBigEndian data =
     fold (\<lambda>i val. val OR push_bit ((length data - 1 - i) * 8) (ucast (data ! i))) [0..<length data] 0"

definition WriteBigEndian :: "nat \<Rightarrow> 'a :: len word \<Rightarrow> u8 list" where
  "WriteBigEndian B val = map (\<lambda>i. ucast (drop_bit ((B - 1 - i) * 8) val)) [0..<B]"

section \<open>Wrapping sequence numbers\<close>

definition IsNewerSequenceNumber :: "u16 \<Rightarrow> u16 \<Rightarrow> bool" where
  "IsNewerSequenceNumber value prev_value =
     (if uint value - uint prev_value = 0x8000 then value > prev_value
      else value \<noteq> prev_value \<and> value - prev_value < 0x8000)"

definition MinDiff :: "u16 \<Rightarrow> u16 \<Rightarrow> u16" where
  "MinDiff a b = min (b - a) (a - b)"

section \<open>Packets\<close>

record SortablePacket =
  ssrc :: u32
  seq_num :: u16

record ReceivedPacket = SortablePacket +
  is_fec :: bool
  received_pkt :: CopyOnWriteBuffer

record RecoveredPacket = SortablePacket +
  was_recovered :: bool
  returned :: bool
  recovered_pkt :: CopyOnWriteBuffer

text \<open>The \<open>pkt\<close> of a protected packet is the null pointer while the packet is missing.\<close>

record ProtectedPacket = SortablePacket +
  protected_pkt :: "CopyOnWriteBuffer option"

record ReadStream =
  stream_ssrc :: u32
  stream_seq_num_base :: u16
  stream_mask_offset :: nat
  stream_mask_size :: nat

record ReceivedFecPacket = SortablePacket +
  protected_packets :: "ProtectedPacket list"
  protected_streams :: "ReadStream list"
  fec_header_size :: nat
  protection_length :: nat
  fec_pkt :: CopyOnWriteBuffer

text \<open>The stream argument of \<open>FinalizeFecHeader\<close>: its mask is a view of the encoder's mask array.\<close>

record WrittenStream =
  written_ssrc :: u32
  written_seq_num_base :: u16
  written_mask :: mem

section \<open>The header classes\<close>

text \<open>
  \<open>ReadFecHeader\<close> returns the completed packet for \<open>true\<close> and nothing for \<open>false\<close>; it edits the
  received bytes, which from then on belong to the decoder.
\<close>

record FecHeaderReader =
  reader_MaxMediaPackets :: nat
  reader_MaxFecPackets :: nat
  ReadFecHeader :: "bool \<Rightarrow> ReceivedFecPacket \<Rightarrow> ReceivedFecPacket option res"

record FecHeaderWriter =
  writer_MaxMediaPackets :: nat
  writer_MaxFecPackets :: nat
  writer_MaxPacketOverhead :: nat
  MinPacketMaskSize :: "bool \<Rightarrow> mem \<Rightarrow> nat res"
  FecHeaderSize :: "bool \<Rightarrow> nat \<Rightarrow> nat res"
  FinalizeFecHeader :: "bool \<Rightarrow> WrittenStream list \<Rightarrow> CopyOnWriteBuffer \<Rightarrow> CopyOnWriteBuffer res"

section \<open>Evaluation\<close>

lemma bit_ReadBigEndian:
  "bit (ReadBigEndian bs :: 'a :: len word) n \<longleftrightarrow>
     n < LENGTH('a) \<and> n < 8 * length bs \<and> bit (bs ! (length bs - 1 - n div 8)) (n mod 8)"
proof -
  define f where "f = (\<lambda>i (val :: 'a word). val OR push_bit ((length bs - 1 - i) * 8) (ucast (bs ! i)))"
  have step: "bit (push_bit (8 * j) (ucast (b :: u8)) :: 'a word) n \<longleftrightarrow> n < LENGTH('a) \<and> n div 8 = j \<and> bit b (n mod 8)" for j b
  proof (cases "n div 8 = j")
    case True
    then show ?thesis
      using mult_div_mod_eq [of 8 n] by (auto simp: bit_simps minus_mult_div_eq_mod mult.commute)
  next
    case False
    then have "n < 8 * j \<or> 8 \<le> n - 8 * j"
      using mult_div_mod_eq [of 8 n] by (cases "n < 8 * j") (auto simp: div_less_iff_less_mult less_eq_div_iff_mult_less_eq)
    then show ?thesis using False bit_u8_beyond by (auto simp: bit_simps le_iff_add)
  qed
  have "k \<le> length bs \<Longrightarrow> bit (fold f [0..<k] 0) n \<longleftrightarrow>
      n < LENGTH('a) \<and> n div 8 < length bs \<and> length bs - 1 - n div 8 < k \<and> bit (bs ! (length bs - 1 - n div 8)) (n mod 8)" for k
  proof (induction k)
    case (Suc k)
    have eq: "n div 8 = length bs - 1 - k \<longleftrightarrow> n div 8 < length bs \<and> length bs - 1 - n div 8 = k" using Suc.prems by auto
    show ?case
      using Suc step [of "length bs - 1 - k" "bs ! k"] unfolding eq
      by (auto simp: f_def bit_or_iff mult.commute less_Suc_eq)
  qed simp
  from this [of "length bs"] show ?thesis
    unfolding ReadBigEndian_def f_def by (auto simp: div_less_iff_less_mult mult.commute)
qed

lemma length_WriteBigEndian [simp, layout_simps]: "length (WriteBigEndian B w) = B"
  by (simp add: WriteBigEndian_def)

lemma ReadBigEndian_Write:
  "LENGTH('a) \<le> 8 * B \<Longrightarrow> ReadBigEndian (WriteBigEndian B (w :: 'a :: len word)) = w"
proof (rule bit_word_eqI)
  fix n assume n: "LENGTH('a) \<le> 8 * B" "n < LENGTH('a)"
  then have "n div 8 < B" by (simp add: div_less_iff_less_mult mult.commute)
  then have "WriteBigEndian B w ! (B - 1 - n div 8) = ucast (drop_bit (n div 8 * 8) w)" by (simp add: WriteBigEndian_def)
  then show "bit (ReadBigEndian (WriteBigEndian B w) :: 'a word) n = bit w n"
    using n by (simp add: bit_ReadBigEndian bit_simps)
qed

lemma WriteBigEndian_Read:
  "8 * length bs \<le> LENGTH('a) \<Longrightarrow> WriteBigEndian (length bs) (ReadBigEndian bs :: 'a :: len word) = bs"
proof (rule nth_equalityI)
  fix i assume len: "8 * length bs \<le> LENGTH('a)" and i: "i < length (WriteBigEndian (length bs) (ReadBigEndian bs :: 'a word))"
  then have i': "i < length bs" by simp
  have "bit (ucast (drop_bit ((length bs - 1 - i) * 8) (ReadBigEndian bs :: 'a word)) :: u8) n = bit (bs ! i) n" if n: "n < 8" for n
  proof -
    have "((length bs - 1 - i) * 8 + n) div 8 = length bs - 1 - i" "((length bs - 1 - i) * 8 + n) mod 8 = n"
      using n by simp_all
    moreover have "(length bs - 1 - i) * 8 + n < 8 * length bs" using i' n by simp
    ultimately show ?thesis using i' len n by (simp add: bit_simps bit_ReadBigEndian)
  qed
  then have "ucast (drop_bit ((length bs - 1 - i) * 8) (ReadBigEndian bs :: 'a word)) = bs ! i" by (intro bit_word_eqI) simp
  then show "WriteBigEndian (length bs) (ReadBigEndian bs :: 'a word) ! i = bs ! i"
    using i' by (simp add: WriteBigEndian_def)
qed simp

lemma modify_byte_eq: "i < length bytes \<Longrightarrow> modify_byte i f (mem_of bytes) = Inr (mem_of (bytes[i := f (bytes ! i)]))"
  unfolding modify_byte_def by (simp add: mem_read_one [unfolded One_nat_def] mem_store_one mem_of_def map_update)

text \<open>Bytes overwritten in the middle of a list.\<close>

definition overwrite :: "nat \<Rightarrow> u8 list \<Rightarrow> u8 list \<Rightarrow> u8 list" where
  "overwrite i bs xs = take i xs @ bs @ drop (i + length bs) xs"

lemma length_overwrite [simp]: "i + length bs \<le> length xs \<Longrightarrow> length (overwrite i bs xs) = length xs"
  by (simp add: overwrite_def)

lemma nth_overwrite:
  "i + length bs \<le> length xs \<Longrightarrow> k < length xs \<Longrightarrow>
   overwrite i bs xs ! k = (if i \<le> k \<and> k < i + length bs then bs ! (k - i) else xs ! k)"
  by (auto simp: overwrite_def nth_append min_def)

lemma store_bytes [mem_simps]:
  "0 \<le> off \<Longrightarrow> nat off + length bs \<le> length bytes \<Longrightarrow>
   mem_store what off (mem_of bs) (mem_of bytes) = Inr (mem_of (overwrite (nat off) bs bytes))"
  by (simp add: mem_store_ok overwrite_def)

lemma take_drop_nth: "i + n \<le> length xs \<Longrightarrow> take n (drop i xs) = map (\<lambda>k. xs ! (i + k)) [0..<n]"
  by (rule nth_equalityI) auto

lemma load_bytes [mem_simps]:
  "0 \<le> off \<Longrightarrow> nat off + n \<le> length bytes \<Longrightarrow>
   mem_load what off n (mem_of bytes) = Inr (mem_of (map (\<lambda>k. bytes ! (nat off + k)) [0..<n]))"
  by (simp add: mem_load_ok take_drop_nth)

lemma read_bytes:
  "0 \<le> off \<Longrightarrow> nat off + n \<le> length bytes \<Longrightarrow>
   mem_read what off n (mem_of bytes) = Inr (map (\<lambda>k. bytes ! (nat off + k)) [0..<n])"
  by (simp add: mem_read_mem_of take_drop_nth)

end
