(* ===== verification/Fec_Headers.thy ===== *)
theory Fec_Headers
  imports Fec_Packets
begin

text \<open>
  The two FEC header formats of the WebRTC codec: ULPFEC (\<^verbatim>\<open>ulpfec_header_reader_writer.cc\<close>) and FlexFEC
  draft 03 (\<^verbatim>\<open>flexfec_03_header_reader_writer.cc\<close>).
\<close>

section \<open>Constants\<close>

definition kMaxMediaPackets :: nat where "kMaxMediaPackets = 48"
definition kMaxTrackedMediaPackets :: nat where "kMaxTrackedMediaPackets = 4 * kMaxMediaPackets"
definition kMaxFecPackets :: nat where "kMaxFecPackets = kMaxMediaPackets"
definition kFecLevel0HeaderSize :: nat where "kFecLevel0HeaderSize = 10"
definition kFecLevel1HeaderSizeLBitSet :: nat where "kFecLevel1HeaderSizeLBitSet = 2 + kUlpfecPacketMaskSizeLBitSet"
definition kFecLevel1HeaderSizeLBitClear :: nat where "kFecLevel1HeaderSizeLBitClear = 2 + kUlpfecPacketMaskSizeLBitClear"
definition kPacketMaskOffset :: nat where "kPacketMaskOffset = kFecLevel0HeaderSize + 2"

definition kFlexfecPacketMaskSizes :: "nat list" where "kFlexfecPacketMaskSizes = [2, 6, 14]"
definition kBaseHeaderSize :: nat where "kBaseHeaderSize = 12"
definition kStreamSpecificHeaderSize :: nat where "kStreamSpecificHeaderSize = 6"
definition kHeaderSizes :: "nat list" where
  "kHeaderSizes = map (\<lambda>s. kBaseHeaderSize + kStreamSpecificHeaderSize + s) kFlexfecPacketMaskSizes"
definition kFlexfecPacketMaskOffset :: nat where
  "kFlexfecPacketMaskOffset = kBaseHeaderSize + kStreamSpecificHeaderSize"

lemmas header_constants = kMaxMediaPackets_def kMaxTrackedMediaPackets_def kMaxFecPackets_def
  kFecLevel0HeaderSize_def kFecLevel1HeaderSizeLBitSet_def kFecLevel1HeaderSizeLBitClear_def kPacketMaskOffset_def
  kFlexfecPacketMaskSizes_def kBaseHeaderSize_def kStreamSpecificHeaderSize_def kHeaderSizes_def
  kFlexfecPacketMaskOffset_def kUlpfecPacketMaskSizeLBitSet_def kUlpfecPacketMaskSizeLBitClear_def

section \<open>ULPFEC\<close>

definition UlpfecHeaderSize :: "bool \<Rightarrow> nat \<Rightarrow> nat res" where
  "UlpfecHeaderSize dchecks packet_mask_size =
     RTC_DCHECK dchecks (packet_mask_size \<le> kUlpfecPacketMaskSizeLBitSet) ''packet_mask_size <= kUlpfecPacketMaskSizeLBitSet''
       (if packet_mask_size \<le> kUlpfecPacketMaskSizeLBitClear then Inr (kFecLevel0HeaderSize + kFecLevel1HeaderSizeLBitClear)
        else Inr (kFecLevel0HeaderSize + kFecLevel1HeaderSizeLBitSet))"

definition Ulpfec_ReadFecHeader :: "bool \<Rightarrow> ReceivedFecPacket \<Rightarrow> ReceivedFecPacket option res" where
  "Ulpfec_ReadFecHeader dchecks fec_packet =
     (let data = cow_data (fec_pkt fec_packet) in
      if length data < kPacketMaskOffset then Inr None
      else
        bind_res (mem_read ''data'' 0 1 data) (\<lambda>first.
          let l_bit = (hd first AND 0x40 \<noteq> 0);
              mask_size = (if l_bit then kUlpfecPacketMaskSizeLBitSet else kUlpfecPacketMaskSizeLBitClear)
          in bind_res (UlpfecHeaderSize dchecks mask_size) (\<lambda>header_size.
             bind_res (mem_read ''data'' 2 2 data) (\<lambda>base.
             bind_res (mem_read ''data'' 10 2 data) (\<lambda>protection.
             bind_res (mem_load ''data'' 8 2 data) (\<lambda>length_recovery.
             bind_res (mem_store ''data'' 2 length_recovery data) (\<lambda>data'.
               Inr (Some (fec_packet\<lparr>
                 protected_streams :=
                   [\<lparr>stream_ssrc = ssrc fec_packet, stream_seq_num_base = ReadBigEndian base,
                     stream_mask_offset = kPacketMaskOffset, stream_mask_size = mask_size\<rparr>],
                 fec_header_size := header_size,
                 protection_length := unat (ReadBigEndian protection :: u16),
                 fec_pkt := (fec_pkt fec_packet)\<lparr>cow_data := data'\<rparr>\<rparr>)))))))))"

definition Ulpfec_MinPacketMaskSize :: "bool \<Rightarrow> mem \<Rightarrow> nat res" where
  "Ulpfec_MinPacketMaskSize dchecks packet_mask = Inr (length packet_mask)"

definition Ulpfec_FinalizeFecHeader :: "bool \<Rightarrow> WrittenStream list \<Rightarrow> CopyOnWriteBuffer \<Rightarrow> CopyOnWriteBuffer res" where
  "Ulpfec_FinalizeFecHeader dchecks streams =
     change_data (\<lambda>data0.
       RTC_CHECK (length streams = 1) ''protected_streams.size() == 1''
         (let stream = hd streams;
              packet_mask = written_mask stream;
              l_bit = (length packet_mask = kUlpfecPacketMaskSizeLBitSet)
          in bind_res (modify_byte 0 (\<lambda>b. b AND 0x7f) data0) (\<lambda>data1.
             bind_res
               (if l_bit then modify_byte 0 (\<lambda>b. b OR 0x40) data1
                else RTC_DCHECK dchecks (length packet_mask = kUlpfecPacketMaskSizeLBitClear)
                       ''packet_mask_size == kUlpfecPacketMaskSizeLBitClear'' (modify_byte 0 (\<lambda>b. b AND 0xbf) data1))
               (\<lambda>data2.
             bind_res (mem_load ''data'' 2 2 data2) (\<lambda>length_recovery.
             bind_res (mem_store ''data'' 8 length_recovery data2) (\<lambda>data3.
             bind_res (mem_store ''data'' 2 (mem_of (WriteBigEndian 2 (written_seq_num_base stream))) data3) (\<lambda>data4.
             bind_res (UlpfecHeaderSize dchecks (length packet_mask)) (\<lambda>header_size.
             bind_res
               (mem_store ''data'' 10
                  (mem_of (WriteBigEndian 2 (word_of_int (int (length data4) - int header_size) :: u16))) data4)
               (\<lambda>data5. mem_store ''data'' 12 packet_mask data5)))))))))"

definition UlpfecHeaderReader :: FecHeaderReader where
  "UlpfecHeaderReader = \<lparr>reader_MaxMediaPackets = kMaxTrackedMediaPackets, reader_MaxFecPackets = kMaxFecPackets,
     ReadFecHeader = Ulpfec_ReadFecHeader\<rparr>"

definition UlpfecHeaderWriter :: FecHeaderWriter where
  "UlpfecHeaderWriter = \<lparr>writer_MaxMediaPackets = kMaxMediaPackets, writer_MaxFecPackets = kMaxFecPackets,
     writer_MaxPacketOverhead = kFecLevel0HeaderSize + kFecLevel1HeaderSizeLBitSet,
     MinPacketMaskSize = Ulpfec_MinPacketMaskSize, FecHeaderSize = UlpfecHeaderSize,
     FinalizeFecHeader = Ulpfec_FinalizeFecHeader\<rparr>"

section \<open>FlexFEC draft 03\<close>

definition FlexfecHeaderSize :: "bool \<Rightarrow> nat \<Rightarrow> nat res" where
  "FlexfecHeaderSize dchecks packet_mask_size =
     RTC_DCHECK dchecks (packet_mask_size \<le> kFlexfecPacketMaskSizes ! 2) ''packet_mask_size <= kFlexfecPacketMaskSizes[2]''
       (Inr (if packet_mask_size \<le> kFlexfecPacketMaskSizes ! 0 then kHeaderSizes ! 0
             else if packet_mask_size \<le> kFlexfecPacketMaskSizes ! 1 then kHeaderSizes ! 1
             else kHeaderSizes ! 2))"

text \<open>\<open>ReadBigEndian\<close> of an integer in the packet, a shift to the left, and \<open>WriteBigEndian\<close> back.\<close>

definition shift_field :: "nat \<Rightarrow> nat \<Rightarrow> ('a :: len word \<Rightarrow> 'a word) \<Rightarrow> mem \<Rightarrow> mem res" where
  "shift_field off n f data =
     bind_res (mem_read ''data'' (int off) n data) (\<lambda>v.
       mem_store ''data'' (int off) (mem_of (WriteBigEndian n (f (ReadBigEndian v)))) data)"

text \<open>
  The packet mask with its interleaved K-bits: the bits are packed in place, and the result is the
  size of the mask, or nothing for a truncated or malformed header.
\<close>

definition unpack_mask :: "nat \<Rightarrow> mem \<Rightarrow> (nat \<times> mem) option res" where
  "unpack_mask data_size data =
     (let pm = kFlexfecPacketMaskOffset in
      bind_res (mem_read ''data'' (int pm) 1 data) (\<lambda>m0.
      bind_res (shift_field pm 2 (\<lambda>w :: u16. push_bit 1 w) data) (\<lambda>data1.
        if hd m0 AND 0x80 \<noteq> 0 then Inr (Some (kFlexfecPacketMaskSizes ! 0, data1))
        else if data_size < kHeaderSizes ! 1 then Inr None
        else
          bind_res (mem_read ''data'' (int (pm + 2)) 1 data1) (\<lambda>m2.
          bind_res (modify_byte (pm + 1) (\<lambda>b. b OR (drop_bit 6 (hd m2) AND 0x01)) data1) (\<lambda>data2.
          bind_res (shift_field (pm + 2) 4 (\<lambda>w :: u32. push_bit 2 w) data2) (\<lambda>data3.
            if hd m2 AND 0x80 \<noteq> 0 then Inr (Some (kFlexfecPacketMaskSizes ! 1, data3))
            else if data_size < kHeaderSizes ! 2 then Inr None
            else
              bind_res (mem_read ''data'' (int (pm + 6)) 1 data3) (\<lambda>m6.
                if hd m6 AND 0x80 = 0 then Inr None
                else
                  bind_res (modify_byte (pm + 5) (\<lambda>b. b OR (drop_bit 5 (hd m6) AND 0x03)) data3) (\<lambda>data4.
                  bind_res (shift_field (pm + 6) 8 (\<lambda>w :: 64 word. push_bit 3 w) data4) (\<lambda>data5.
                    Inr (Some (kFlexfecPacketMaskSizes ! 2, data5)))))))))))"

definition Flexfec_ReadFecHeader :: "bool \<Rightarrow> ReceivedFecPacket \<Rightarrow> ReceivedFecPacket option res" where
  "Flexfec_ReadFecHeader dchecks fec_packet =
     (let data = cow_data (fec_pkt fec_packet); data_size = length data in
      if data_size \<le> kBaseHeaderSize + kStreamSpecificHeaderSize then Inr None
      else
        bind_res (mem_read ''data'' 0 1 data) (\<lambda>first.
          if hd first AND 0x80 \<noteq> 0 then Inr None
          else if hd first AND 0x40 \<noteq> 0 then Inr None
          else
            bind_res (mem_read ''data'' 8 1 data) (\<lambda>ssrc_count.
              if hd ssrc_count \<noteq> 1 then Inr None
              else
                bind_res (mem_read ''data'' 12 4 data) (\<lambda>protected_ssrc.
                bind_res (mem_read ''data'' 16 2 data) (\<lambda>base.
                  if data_size < kHeaderSizes ! 0 then Inr None
                  else
                    bind_res (unpack_mask data_size data) (\<lambda>unpacked. case unpacked of
                        None \<Rightarrow> Inr None
                      | Some (mask_size, data') \<Rightarrow>
                          bind_res (FlexfecHeaderSize dchecks mask_size) (\<lambda>header_size.
                            Inr (Some (fec_packet\<lparr>
                              protected_streams :=
                                [\<lparr>stream_ssrc = ReadBigEndian protected_ssrc, stream_seq_num_base = ReadBigEndian base,
                                  stream_mask_offset = kFlexfecPacketMaskOffset, stream_mask_size = mask_size\<rparr>],
                              fec_header_size := header_size,
                              protection_length := size_t (int data_size - int header_size),
                              fec_pkt := (fec_pkt fec_packet)\<lparr>cow_data := data'\<rparr>\<rparr>)))))))))"

definition Flexfec_MinPacketMaskSize :: "bool \<Rightarrow> mem \<Rightarrow> nat res" where
  "Flexfec_MinPacketMaskSize dchecks packet_mask =
     (if length packet_mask = kUlpfecPacketMaskSizeLBitClear then
        bind_res (mem_read ''packet_mask'' 1 1 packet_mask) (\<lambda>m1.
          Inr (if hd m1 AND 0x01 = 0 then kFlexfecPacketMaskSizes ! 0 else kFlexfecPacketMaskSizes ! 1))
      else if length packet_mask = kUlpfecPacketMaskSizeLBitSet then
        bind_res (mem_read ''packet_mask'' 5 1 packet_mask) (\<lambda>m5.
          Inr (if hd m5 AND 0x03 = 0 then kFlexfecPacketMaskSizes ! 1 else kFlexfecPacketMaskSizes ! 2))
      else RTC_DCHECK dchecks False ''Incorrect packet mask size: '' (Inr (kFlexfecPacketMaskSizes ! 2)))"

text \<open>The packet mask adapted to the FlexFEC header, written at its offset.\<close>

definition pack_mask :: "bool \<Rightarrow> mem \<Rightarrow> mem \<Rightarrow> mem res" where
  "pack_mask dchecks packet_mask data =
     (let pm = kFlexfecPacketMaskOffset in
      if length packet_mask = kUlpfecPacketMaskSizeLBitSet then
        bind_res (mem_read ''packet_mask'' 0 6 packet_mask) (\<lambda>m.
        bind_res (mem_store ''data'' (int pm)
          (mem_of (WriteBigEndian 2 (drop_bit 1 (ReadBigEndian (take 2 m) :: u16)))) data) (\<lambda>data1.
        bind_res (mem_store ''data'' (int (pm + 2))
          (mem_of (WriteBigEndian 4 (drop_bit 2 (ReadBigEndian (drop 2 m) :: u32)))) data1) (\<lambda>data2.
        bind_res (if m ! 1 AND 0x01 \<noteq> 0 then modify_byte (pm + 2) (\<lambda>b. b OR 0x40) data2 else Inr data2) (\<lambda>data3.
          let bit46 = (m ! 5 AND 0x02 \<noteq> 0); bit47 = (m ! 5 AND 0x01 \<noteq> 0) in
          if \<not> bit46 \<and> \<not> bit47 then modify_byte (pm + 2) (\<lambda>b. b OR 0x80) data3
          else
            bind_res (mem_store ''data'' (int (pm + 6)) (replicate 8 (Some 0)) data3) (\<lambda>data4.
            bind_res (modify_byte (pm + 6) (\<lambda>b. b OR 0x80) data4) (\<lambda>data5.
            bind_res (if bit46 then modify_byte (pm + 6) (\<lambda>b. b OR 0x40) data5 else Inr data5) (\<lambda>data6.
              if bit47 then modify_byte (pm + 6) (\<lambda>b. b OR 0x20) data6 else Inr data6)))))))
      else if length packet_mask = kUlpfecPacketMaskSizeLBitClear then
        bind_res (mem_read ''packet_mask'' 0 2 packet_mask) (\<lambda>m.
        bind_res (mem_store ''data'' (int pm)
          (mem_of (WriteBigEndian 2 (drop_bit 1 (ReadBigEndian m :: u16)))) data) (\<lambda>data1.
          if m ! 1 AND 0x01 = 0 then modify_byte pm (\<lambda>b. b OR 0x80) data1
          else
            bind_res (mem_store ''data'' (int (pm + 2)) (replicate 4 (Some 0)) data1) (\<lambda>data2.
            bind_res (modify_byte (pm + 2) (\<lambda>b. b OR 0x80) data2) (\<lambda>data3.
              modify_byte (pm + 2) (\<lambda>b. b OR 0x40) data3))))
      else RTC_DCHECK dchecks False ''Incorrect packet mask size: '' (Inr data))"

definition Flexfec_FinalizeFecHeader :: "bool \<Rightarrow> WrittenStream list \<Rightarrow> CopyOnWriteBuffer \<Rightarrow> CopyOnWriteBuffer res" where
  "Flexfec_FinalizeFecHeader dchecks streams =
     change_data (\<lambda>data0.
       RTC_CHECK (length streams = 1) ''protected_streams.size() == 1''
         (let stream = hd streams in
          bind_res (modify_byte 0 (\<lambda>b. b AND 0x7f) data0) (\<lambda>data1.
          bind_res (modify_byte 0 (\<lambda>b. b AND 0xbf) data1) (\<lambda>data2.
          bind_res (mem_store ''data'' 8 [Some 1] data2) (\<lambda>data3.
          bind_res (mem_store ''data'' 9 (mem_of (WriteBigEndian 3 (0 :: u32))) data3) (\<lambda>data4.
          bind_res (mem_store ''data'' 12 (mem_of (WriteBigEndian 4 (written_ssrc stream))) data4) (\<lambda>data5.
          bind_res (mem_store ''data'' 16 (mem_of (WriteBigEndian 2 (written_seq_num_base stream))) data5) (\<lambda>data6.
            pack_mask dchecks (written_mask stream) data6))))))))"

definition Flexfec03HeaderReader :: FecHeaderReader where
  "Flexfec03HeaderReader = \<lparr>reader_MaxMediaPackets = kMaxTrackedMediaPackets, reader_MaxFecPackets = kMaxFecPackets,
     ReadFecHeader = Flexfec_ReadFecHeader\<rparr>"

definition Flexfec03HeaderWriter :: FecHeaderWriter where
  "Flexfec03HeaderWriter = \<lparr>writer_MaxMediaPackets = kMaxMediaPackets, writer_MaxFecPackets = kMaxFecPackets,
     writer_MaxPacketOverhead = kHeaderSizes ! 2,
     MinPacketMaskSize = Flexfec_MinPacketMaskSize, FecHeaderSize = FlexfecHeaderSize,
     FinalizeFecHeader = Flexfec_FinalizeFecHeader\<rparr>"

end
