(* ===== verification/Mask_Columns.thy ===== *)
theory Mask_Columns
  imports Uep_Masks
begin

text \<open>
  Media packets with gaps in their sequence numbers: \<open>InsertZeroColumns\<close> and \<open>CopyColumn\<close> of
  \<^verbatim>\<open>forward_error_correction_internal.cc\<close> and \<open>InsertZerosInPacketMasks\<close> of
  \<^verbatim>\<open>forward_error_correction.cc\<close> (both under \<^verbatim>\<open>FEC_Encode/include/modules/rtp_rtcp/source\<close>), which
  spread the columns of a mask over the sequence numbers. The functions build each row bit by bit
  from the left, keeping the bits of the current byte at its right end; the reference is the plain
  statement of which bit ends up where.
\<close>

section \<open>Model\<close>

text \<open>\<open>new_mask[row * new_mask_bytes + byte] <<= amount\<close> for the remaining \<open>n\<close> rows from \<open>row\<close>.\<close>

fun shift_cells :: "nat \<Rightarrow> nat \<Rightarrow> nat \<Rightarrow> nat \<Rightarrow> nat \<Rightarrow> mem \<Rightarrow> mem res" where
  "shift_cells new_mask_bytes byte amount row 0 new_mask = Inr new_mask"
| "shift_cells new_mask_bytes byte amount row (Suc n) new_mask =
     bind_res (mem_read ''new_mask'' (int (row * new_mask_bytes + byte)) 1 new_mask) (\<lambda>v.
     bind_res (mem_store ''new_mask'' (int (row * new_mask_bytes + byte)) [Some (push_bit amount (hd v))] new_mask)
       (shift_cells new_mask_bytes byte amount (Suc row) n))"

definition InsertZeroColumns :: "nat \<Rightarrow> mem \<Rightarrow> nat \<Rightarrow> nat \<Rightarrow> nat \<Rightarrow> mem res" where
  "InsertZeroColumns num_zeros new_mask new_mask_bytes num_fec_packets new_bit_index =
     (let max_shifts = 7 - new_bit_index mod 8 in
      shift_cells new_mask_bytes (new_bit_index div 8) (min num_zeros max_shifts) 0 num_fec_packets new_mask)"

text \<open>
  One row of \<open>CopyColumn\<close>: the leftmost bit of the old byte moves to the right end of the new one, which
  is shifted on unless it is full.
\<close>

definition append_bit :: "nat \<Rightarrow> u8 \<Rightarrow> u8 \<Rightarrow> u8" where
  "append_bit new_bit_index nv ov =
     (let v = nv OR drop_bit 7 (ov AND 0x80) in if new_bit_index mod 8 \<noteq> 7 then push_bit 1 v else v)"

fun copy_rows :: "nat \<Rightarrow> nat \<Rightarrow> nat \<Rightarrow> nat \<Rightarrow> nat \<Rightarrow> nat \<Rightarrow> mem \<Rightarrow> mem \<Rightarrow> (mem \<times> mem) res" where
  "copy_rows new_mask_bytes old_mask_bytes new_bit_index old_bit_index row 0 new_mask old_mask = Inr (new_mask, old_mask)"
| "copy_rows new_mask_bytes old_mask_bytes new_bit_index old_bit_index row (Suc n) new_mask old_mask =
     (let new_byte_index = int (row * new_mask_bytes + new_bit_index div 8);
          old_byte_index = int (row * old_mask_bytes + old_bit_index div 8)
      in bind_res (mem_read ''new_mask'' new_byte_index 1 new_mask) (\<lambda>nv.
         bind_res (mem_read ''old_mask'' old_byte_index 1 old_mask) (\<lambda>ov.
         bind_res (mem_store ''new_mask'' new_byte_index [Some (append_bit new_bit_index (hd nv) (hd ov))] new_mask) (\<lambda>new_mask'.
         bind_res (mem_store ''old_mask'' old_byte_index [Some (push_bit 1 (hd ov))] old_mask) (\<lambda>old_mask'.
           copy_rows new_mask_bytes old_mask_bytes new_bit_index old_bit_index (Suc row) n new_mask' old_mask')))))"

definition CopyColumn :: "mem \<Rightarrow> nat \<Rightarrow> mem \<Rightarrow> nat \<Rightarrow> nat \<Rightarrow> nat \<Rightarrow> nat \<Rightarrow> (mem \<times> mem) res" where
  "CopyColumn new_mask new_mask_bytes old_mask old_mask_bytes num_fec_packets new_bit_index old_bit_index =
     RTC_CHECK (new_bit_index < 8 * new_mask_bytes) ''new_bit_index < 8 * new_mask_bytes''
       (copy_rows new_mask_bytes old_mask_bytes new_bit_index old_bit_index 0 num_fec_packets new_mask old_mask)"

text \<open>A media packet is its bytes, an RTP packet; the sequence number stands at bytes 2 and 3.\<close>

definition ParseSequenceNumber :: "u8 list \<Rightarrow> u16 res" where
  "ParseSequenceNumber packet =
     (if 3 < length packet then Inr (push_bit 8 (ucast (packet ! 2)) + ucast (packet ! 3))
      else Inl (Out_of_bounds ''packet''))"

text \<open>
  The loop over the media packets after the first; the result is the number of columns, the new and
  the used up old mask.
\<close>

fun insert_loop ::
  "nat \<Rightarrow> nat \<Rightarrow> nat \<Rightarrow> nat \<Rightarrow> u8 list list \<Rightarrow> u16 \<Rightarrow> nat \<Rightarrow> nat \<Rightarrow> mem \<Rightarrow> mem \<Rightarrow> (nat \<times> mem \<times> mem) res"
where
  "insert_loop max_media_packets tmp_size mask_size num_fec_packets [] prev_seq_num new_bit_index old_bit_index tmp masks =
     Inr (new_bit_index, tmp, masks)"
| "insert_loop max_media_packets tmp_size mask_size num_fec_packets (p # ps) prev_seq_num new_bit_index old_bit_index tmp masks =
     (if new_bit_index = max_media_packets then Inr (new_bit_index, tmp, masks)
      else
        bind_res (ParseSequenceNumber p) (\<lambda>seq_num.
          let num_zeros_to_insert = unat (seq_num - prev_seq_num - 1) in
          bind_res
            (if num_zeros_to_insert > 0
             then InsertZeroColumns num_zeros_to_insert tmp tmp_size num_fec_packets new_bit_index else Inr tmp)
            (\<lambda>tmp1.
              let new_bit_index1 = new_bit_index + num_zeros_to_insert in
              bind_res (CopyColumn tmp1 tmp_size masks mask_size num_fec_packets new_bit_index1 old_bit_index)
                (\<lambda>(tmp2, masks2).
                  insert_loop max_media_packets tmp_size mask_size num_fec_packets ps seq_num (Suc new_bit_index1)
                    (Suc old_bit_index) tmp2 masks2))))"

text \<open>
  \<open>InsertZerosInPacketMasks\<close>: the number of mask columns, or \<open>-1\<close>, and the arrays
  \<open>packet_masks_\<close> and \<open>tmp_packet_masks_\<close> afterwards. The gap count is computed in \<open>size_t\<close>.
\<close>

definition InsertZerosInPacketMasks ::
  "bool \<Rightarrow> nat \<Rightarrow> nat \<Rightarrow> u8 list list \<Rightarrow> nat \<Rightarrow> mem \<Rightarrow> mem \<Rightarrow> (int \<times> mem \<times> mem) res"
where
  "InsertZerosInPacketMasks dchecks max_media_packets mask_size media num_fec_packets masks tmp =
     (let num_media_packets = length media in
      if num_media_packets \<le> 1 then Inr (int num_media_packets, masks, tmp)
      else
        bind_res (ParseSequenceNumber (last media)) (\<lambda>last_seq_num.
        bind_res (ParseSequenceNumber (hd media)) (\<lambda>first_seq_num.
          let total_missing_seq_nums = size_t (int (unat (last_seq_num - first_seq_num)) - int num_media_packets + 1);
              covered = size_t (int total_missing_seq_nums + int num_media_packets)
          in if total_missing_seq_nums = 0 then Inr (int num_media_packets, masks, tmp)
             else if covered > max_media_packets then Inr (- 1, masks, tmp)
             else
               bind_res (PacketMaskSize dchecks covered) (\<lambda>tmp_size.
               bind_res (mem_store ''tmp_packet_masks_'' 0 (replicate (num_fec_packets * tmp_size) (Some 0)) tmp) (\<lambda>tmp0.
               bind_res (CopyColumn tmp0 tmp_size masks mask_size num_fec_packets 0 0) (\<lambda>(tmp1, masks1).
               bind_res
                 (insert_loop max_media_packets tmp_size mask_size num_fec_packets (tl media) first_seq_num 1 1 tmp1 masks1)
                 (\<lambda>(new_bit_index, tmp2, masks2).
               bind_res
                 (if new_bit_index mod 8 \<noteq> 0
                  then shift_cells tmp_size (new_bit_index div 8) (7 - new_bit_index mod 8) 0 num_fec_packets tmp2
                  else Inr tmp2)
                 (\<lambda>tmp3.
               bind_res (mem_load ''tmp_packet_masks_'' 0 (num_fec_packets * tmp_size) tmp3) (\<lambda>cells.
               bind_res (mem_store ''packet_masks_'' 0 cells masks2) (\<lambda>masks3.
                 Inr (int new_bit_index, masks3, tmp3)))))))))))"

section \<open>Row loops\<close>

text \<open>All cells of the first \<open>rows\<close> rows of width \<open>w\<close> are written.\<close>

definition rows_written :: "nat \<Rightarrow> nat \<Rightarrow> mem \<Rightarrow> bool" where
  "rows_written w rows m \<longleftrightarrow> rows * w \<le> length m \<and> (\<forall>p < rows * w. m ! p \<noteq> None)"

lemma read_cell:
  assumes "rows_written w rows m" "row < rows" "c < w"
  shows "mem_read what (int (row * w + c)) 1 m = Inr [the (m ! (row * w + c))]" "row * w + c < length m"
proof -
  have p: "row * w + c < rows * w" using assms(2,3) by (rule row_cell_less)
  then show "row * w + c < length m" using assms(1) by (simp add: rows_written_def)
  then show "mem_read what (int (row * w + c)) 1 m = Inr [the (m ! (row * w + c))]"
    using p assms(1) by (intro mem_read_one) (auto simp: rows_written_def)
qed

lemma rows_written_bytes: "rows_written w rows m \<Longrightarrow> \<exists>bytes. take (rows * w) m = mem_of bytes"
proof
  assume "rows_written w rows m"
  then show "take (rows * w) m = mem_of (map the (take (rows * w) m))"
    by (intro nth_equalityI) (auto simp: rows_written_def mem_of_def)
qed

lemma rows_written_update: "rows_written w rows m \<Longrightarrow> rows_written w rows (m[p := Some v])"
  unfolding rows_written_def
  by (metis length_list_update nth_list_update_eq nth_list_update_neq option.distinct(1) order_less_le_trans)

lemma shift_cells_eq:
  assumes "rows_written w rows m" "row + n \<le> rows" "byte < w"
  shows "\<exists>m'. shift_cells w byte amount row n m = Inr m' \<and> length m' = length m \<and> rows_written w rows m' \<and>
    (\<forall>r c. c < w \<longrightarrow> m' ! (r * w + c) =
       (if row \<le> r \<and> r < row + n \<and> c = byte then Some (push_bit amount (the (m ! (r * w + c)))) else m ! (r * w + c)))"
  using assms(1,2)
proof (induction n arbitrary: row m)
  case (Suc n)
  then have row: "row < rows" by simp
  note cell = read_cell [OF Suc.prems(1) row assms(3)]
  let ?m = "m[row * w + byte := Some (push_bit amount (the (m ! (row * w + byte))))]"
  from Suc.IH [of ?m "Suc row"] Suc.prems obtain m' where
    m': "shift_cells w byte amount (Suc row) n ?m = Inr m'" "length m' = length m" "rows_written w rows m'"
      "\<forall>r c. c < w \<longrightarrow> m' ! (r * w + c) =
        (if Suc row \<le> r \<and> r < Suc row + n \<and> c = byte then Some (push_bit amount (the (?m ! (r * w + c)))) else ?m ! (r * w + c))"
    by (auto simp: rows_written_update)
  have "m' ! (r * w + c) = (if row \<le> r \<and> r < row + Suc n \<and> c = byte
      then Some (push_bit amount (the (m ! (r * w + c)))) else m ! (r * w + c))" if "c < w" for r c
    using m'(4) that assms(3) cell(2) by (auto simp: nth_cell_update)
  moreover have "shift_cells w byte amount row (Suc n) m = Inr m'"
    using cell m'(1) by (simp add: mem_store_one del: of_nat_add of_nat_mult)
  ultimately show ?case using m'(2,3) by blast
qed auto

lemma copy_rows_eq:
  assumes "rows_written w rows new" "rows_written v rows old" "row + n \<le> rows" "nbi div 8 < w" "obi div 8 < v"
  shows "\<exists>new' old'. copy_rows w v nbi obi row n new old = Inr (new', old') \<and> length new' = length new \<and>
    length old' = length old \<and> rows_written w rows new' \<and> rows_written v rows old' \<and>
    (\<forall>r c. c < w \<longrightarrow> new' ! (r * w + c) = (if row \<le> r \<and> r < row + n \<and> c = nbi div 8
       then Some (append_bit nbi (the (new ! (r * w + c))) (the (old ! (r * v + obi div 8)))) else new ! (r * w + c))) \<and>
    (\<forall>r c. c < v \<longrightarrow> old' ! (r * v + c) = (if row \<le> r \<and> r < row + n \<and> c = obi div 8
       then Some (push_bit 1 (the (old ! (r * v + c)))) else old ! (r * v + c)))"
  using assms(1-3)
proof (induction n arbitrary: row new old)
  case (Suc n)
  then have row: "row < rows" by simp
  note cell = read_cell [OF Suc.prems(1) row assms(4)] and ocell = read_cell [OF Suc.prems(2) row assms(5)]
  define new1 where "new1 = new[row * w + nbi div 8 :=
    Some (append_bit nbi (the (new ! (row * w + nbi div 8))) (the (old ! (row * v + obi div 8))))]"
  define old1 where "old1 = old[row * v + obi div 8 := Some (push_bit 1 (the (old ! (row * v + obi div 8))))]"
  have step: "copy_rows w v nbi obi row (Suc n) new old = copy_rows w v nbi obi (Suc row) n new1 old1"
    using cell ocell by (simp add: mem_store_one Let_def new1_def old1_def del: of_nat_add of_nat_mult)
  have len: "length new1 = length new" "length old1 = length old" by (simp_all add: new1_def old1_def)
  have n1: "new1 ! (r * w + c) = (if r = row \<and> c = nbi div 8
      then Some (append_bit nbi (the (new ! (r * w + c))) (the (old ! (r * v + obi div 8)))) else new ! (r * w + c))"
    if "c < w" for r c
    using that assms(4) cell(2) by (auto simp: new1_def nth_cell_update)
  have o1: "old1 ! (r * v + c) = (if r = row \<and> c = obi div 8 then Some (push_bit 1 (the (old ! (r * v + c)))) else old ! (r * v + c))"
    if "c < v" for r c
    using that assms(5) ocell(2) by (auto simp: old1_def nth_cell_update)
  have "rows_written w rows new1" "rows_written v rows old1" "Suc row + n \<le> rows"
    using Suc.prems by (simp_all add: rows_written_update new1_def old1_def)
  from Suc.IH [OF this] obtain new' old' where
    n': "copy_rows w v nbi obi (Suc row) n new1 old1 = Inr (new', old')" "length new' = length new1"
      "length old' = length old1" "rows_written w rows new'" "rows_written v rows old'"
    and new': "\<And>r c. c < w \<Longrightarrow> new' ! (r * w + c) = (if Suc row \<le> r \<and> r < Suc row + n \<and> c = nbi div 8
         then Some (append_bit nbi (the (new1 ! (r * w + c))) (the (old1 ! (r * v + obi div 8)))) else new1 ! (r * w + c))"
    and old': "\<And>r c. c < v \<Longrightarrow> old' ! (r * v + c) = (if Suc row \<le> r \<and> r < Suc row + n \<and> c = obi div 8
         then Some (push_bit 1 (the (old1 ! (r * v + c)))) else old1 ! (r * v + c))"
    by blast
  have "new' ! (r * w + c) = (if row \<le> r \<and> r < row + Suc n \<and> c = nbi div 8
       then Some (append_bit nbi (the (new ! (r * w + c))) (the (old ! (r * v + obi div 8)))) else new ! (r * w + c))"
    if "c < w" for r c
    using new' [OF that, of r] n1 [OF that, of r] o1 [OF assms(5), of r] by auto
  moreover have "old' ! (r * v + c) = (if row \<le> r \<and> r < row + Suc n \<and> c = obi div 8
       then Some (push_bit 1 (the (old ! (r * v + c)))) else old ! (r * v + c))" if "c < v" for r c
    using old' [OF that, of r] o1 [OF that, of r] by auto
  ultimately show ?case
    using n' by (intro exI [of _ new'] exI [of _ old']) (simp only: step len, blast)
qed auto

section \<open>Bits of a row under construction\<close>

text \<open>
  Bit \<open>t\<close> of byte \<open>c\<close> of a row that has got \<open>nbi\<close> columns with the values \<open>f\<close>: full bytes hold eight
  columns, the current byte holds its columns above a zero, the bytes to come are zero.
\<close>

definition partial_bit :: "nat \<Rightarrow> (nat \<Rightarrow> bool) \<Rightarrow> nat \<Rightarrow> nat \<Rightarrow> bool" where
  "partial_bit nbi f c t \<longleftrightarrow>
     (if c < nbi div 8 then f (8 * c + 7 - t)
      else c = nbi div 8 \<and> 1 \<le> t \<and> t \<le> nbi mod 8 \<and> f (8 * c + nbi mod 8 - t))"

lemma Suc_div_mod_8:
  "nbi mod 8 = 7 \<Longrightarrow> Suc nbi div 8 = Suc (nbi div 8)" "nbi mod 8 = 7 \<Longrightarrow> Suc nbi mod 8 = 0"
  "nbi mod 8 \<noteq> 7 \<Longrightarrow> Suc nbi div 8 = nbi div 8" "nbi mod 8 \<noteq> 7 \<Longrightarrow> Suc nbi mod 8 = Suc (nbi mod 8)"
  by (simp_all add: div_Suc mod_Suc)

lemma add_div_mod_8:
  assumes "nbi mod 8 + z \<le> (7 :: nat)"
  shows "(nbi + z) div 8 = nbi div 8" "(nbi + z) mod 8 = nbi mod 8 + z"
proof -
  have "nbi + z = 8 * (nbi div 8) + (nbi mod 8 + z)" using mult_div_mod_eq [of 8 nbi] by linarith
  moreover have "(8 * c + q) div 8 = c" "(8 * c + q) mod 8 = q" if "q \<le> 7" for c q :: nat using that by simp_all
  ultimately show "(nbi + z) div 8 = nbi div 8" "(nbi + z) mod 8 = nbi mod 8 + z" using assms by metis+
qed

lemma add_div_8_less: "\<not> nbi mod 8 + z \<le> 7 \<Longrightarrow> nbi div 8 < (nbi + z) div (8 :: nat)"
proof -
  assume "\<not> nbi mod 8 + z \<le> 7"
  then have "8 * Suc (nbi div 8) \<le> nbi + z" unfolding mult_Suc_right using mult_div_mod_eq [of 8 nbi] by linarith
  then show ?thesis using div_le_mono [of "8 * Suc (nbi div 8)" "nbi + z" 8] by simp
qed

lemma full_byte_column: "c < nbi div 8 \<Longrightarrow> 8 * c + 7 - t < (nbi :: nat)"
  using mult_div_mod_eq [of 8 nbi] by linarith

lemma later_byte_column: "nbi div 8 < c \<Longrightarrow> nbi \<le> 8 * (c :: nat)"
  using mult_div_mod_eq [of 8 nbi] mod_less_divisor [of 8 nbi] by linarith

lemma partial_bit_append_other:
  assumes "c \<noteq> nbi div 8"
  shows "partial_bit (Suc nbi) (f(nbi := x)) c t = partial_bit nbi f c t"
proof -
  consider "c < nbi div 8" | "nbi div 8 < c" using assms(1) by linarith
  then show ?thesis
  proof cases
    case 1
    then have "c < Suc nbi div 8" using div_le_mono [of nbi "Suc nbi" 8] by simp
    then show ?thesis using 1 full_byte_column [OF 1, of t] by (simp add: partial_bit_def)
  next
    case 2
    then have "\<not> c < Suc nbi div 8" "c = Suc nbi div 8 \<Longrightarrow> Suc nbi mod 8 = 0"
      by (cases "nbi mod 8 = 7"; simp add: Suc_div_mod_8)+
    then show ?thesis using 2 by (auto simp: partial_bit_def)
  qed
qed

lemma bit_append_bit:
  assumes "t < 8"
  shows "bit (append_bit nbi nv ov) t =
    (if nbi mod 8 = 7 then bit nv t \<or> t = 0 \<and> bit ov 7 else 0 < t \<and> (bit nv (t - 1) \<or> t = 1 \<and> bit ov 7))"
proof -
  define x where "x = drop_bit 7 (ov AND 0x80)"
  have x: "bit x u \<longleftrightarrow> u = 0 \<and> bit ov 7" if "u < 8" for u
  proof (cases "u = 0")
    case False
    then have "\<not> bit ov (7 + u)" using bit_imp_le_length [of ov "7 + u"] by auto
    then show ?thesis using False by (simp add: x_def bit_drop_bit_eq bit_and_iff add.commute)
  qed (simp add: x_def bit_drop_bit_eq bit_and_iff)
  have "bit (push_bit 1 (nv OR x)) t \<longleftrightarrow> 0 < t \<and> (bit nv (t - 1) \<or> bit x (t - 1))"
    using assms by (subst bit_push_bit_iff) (auto simp: bit_or_iff)
  then show ?thesis
    unfolding append_bit_def Let_def x_def [symmetric] using assms x [of t] x [of "t - 1"] by (auto simp: bit_or_iff)
qed

lemma partial_bit_append:
  assumes nv: "\<And>t. t < 8 \<Longrightarrow> bit nv t = partial_bit nbi f (nbi div 8) t" and "t < 8"
  shows "bit (append_bit nbi nv ov) t = partial_bit (Suc nbi) (f(nbi := bit ov 7)) (nbi div 8) t"
proof -
  let ?c = "nbi div 8" and ?p = "nbi mod 8"
  have nbi: "nbi = 8 * ?c + ?p" "?p < 8" by simp_all
  have nv': "bit nv u \<longleftrightarrow> 1 \<le> u \<and> u \<le> ?p \<and> f (8 * ?c + ?p - u)" if "u < 8" for u
    using nv [OF that] by (simp add: partial_bit_def)
  show ?thesis
  proof (cases "?p = 7")
    case True
    then have "?c < Suc nbi div 8" by (simp add: Suc_div_mod_8)
    then show ?thesis
      using True nv' [OF assms(2)] nbi assms(2) by (auto simp: partial_bit_def bit_append_bit)
  next
    case False
    then have q: "Suc nbi div 8 = ?c" "Suc nbi mod 8 = Suc ?p" by (simp_all add: Suc_div_mod_8)
    have "8 * ?c + ?p - (t - 1) = 8 * ?c + Suc ?p - t" if "0 < t" using that by simp
    moreover have "8 * ?c + Suc ?p - t = nbi \<longleftrightarrow> t = 1" if "0 < t" "t \<le> Suc ?p" using that nbi(1) by linarith
    ultimately show ?thesis
      using False nv' [of "t - 1"] assms(2) by (auto simp: partial_bit_def bit_append_bit q)
  qed
qed

lemma partial_bit_zeros_other:
  assumes "c \<noteq> nbi div 8" "t < 8" "\<And>i. nbi \<le> i \<Longrightarrow> \<not> f i"
  shows "partial_bit (nbi + z) f c t = partial_bit nbi f c t"
proof -
  consider "c < nbi div 8" | "nbi div 8 < c" using assms(1) by linarith
  then show ?thesis
  proof cases
    case 1
    then have "c < (nbi + z) div 8" using div_le_mono [of nbi "nbi + z" 8] by simp
    then show ?thesis using 1 by (simp add: partial_bit_def)
  next
    case 2
    then have "nbi \<le> 8 * c" by (rule later_byte_column)
    then have "nbi \<le> 8 * c + 7 - t" "t \<le> (nbi + z) mod 8 \<Longrightarrow> nbi \<le> 8 * c + (nbi + z) mod 8 - t"
      using assms(2) by linarith+
    then show ?thesis using 2 assms(3) by (auto simp: partial_bit_def)
  qed
qed

text \<open>Shifting the current byte by \<open>z\<close> columns, or up to its left end.\<close>

lemma partial_bit_shift:
  assumes nv: "\<And>t. t < 8 \<Longrightarrow> bit nv t = partial_bit nbi f (nbi div 8) t" and "t < 8"
    and f: "\<And>i. nbi \<le> i \<Longrightarrow> \<not> f i"
  shows "bit (push_bit (min z (7 - nbi mod 8)) (nv :: u8)) t =
    (if nbi mod 8 + z \<le> 7 then partial_bit (nbi + z) f (nbi div 8) t else f (8 * (nbi div 8) + 7 - t))"
proof -
  define c p a where "c = nbi div 8" and "p = nbi mod 8" and "a = min z (7 - p)"
  have nbi: "nbi = 8 * c + p" "p < 8" by (simp_all add: c_def p_def)
  have "bit (push_bit a nv) t \<longleftrightarrow> a \<le> t \<and> bit nv (t - a)"
    using assms(2) by (simp add: bit_push_bit_iff)
  also have "\<dots> \<longleftrightarrow> a < t \<and> t \<le> p + a \<and> f (8 * c + (p + a) - t)"
  proof (cases "a \<le> t")
    case True
    then have "8 * c + p - (t - a) = 8 * c + (p + a) - t" "1 \<le> t - a \<longleftrightarrow> a < t" "t - a \<le> p \<longleftrightarrow> t \<le> p + a"
      by linarith+
    then show ?thesis using True nv [of "t - a"] assms(2) by (simp add: partial_bit_def flip: c_def p_def)
  qed simp
  also have "\<dots> \<longleftrightarrow> t \<le> p + a \<and> f (8 * c + (p + a) - t)"
  proof (cases "a < t")
    case False
    then have "nbi \<le> 8 * c + (p + a) - t" using nbi(1) by linarith
    then show ?thesis using False f by simp
  qed simp
  finally have eq: "bit (push_bit a nv) t \<longleftrightarrow> t \<le> p + a \<and> f (8 * c + (p + a) - t)" .
  show ?thesis
  proof (cases "p + z \<le> 7")
    case True
    then have "a = z" by (simp add: a_def)
    moreover have "t \<noteq> 0" if "f (8 * c + (p + z) - t)" using f [of "8 * c + (p + z) - t"] that nbi(1) by (cases t) auto
    moreover note add_div_mod_8 [of nbi z, folded c_def p_def, OF True]
    ultimately show ?thesis
      using True eq by (auto simp: partial_bit_def a_def [symmetric] simp flip: c_def p_def)
  next
    case False
    then have "p + a = 7" using nbi(2) by (simp add: a_def)
    then show ?thesis using False eq assms(2) by (simp add: a_def [symmetric] flip: c_def p_def)
  qed
qed

lemma partial_bit_full: "c < nbi div 8 \<Longrightarrow> partial_bit nbi f c t = f (8 * c + 7 - t)"
  by (simp add: partial_bit_def)

section \<open>The construction of the new mask\<close>

definition building :: "nat \<Rightarrow> nat \<Rightarrow> nat \<Rightarrow> (nat \<Rightarrow> nat \<Rightarrow> bool) \<Rightarrow> mem \<Rightarrow> bool" where
  "building w rows nbi F m \<longleftrightarrow> rows_written w rows m \<and> (\<forall>r i. nbi \<le> i \<longrightarrow> \<not> F r i) \<and>
     (\<forall>r < rows. \<forall>c < w. \<forall>t < 8. bit (the (m ! (r * w + c))) t = partial_bit nbi (F r) c t)"

text \<open>The old mask after \<open>obi\<close> columns were shifted out of it.\<close>

definition used_up :: "nat \<Rightarrow> nat \<Rightarrow> nat \<Rightarrow> u8 list \<Rightarrow> mem \<Rightarrow> bool" where
  "used_up v rows obi bytes m \<longleftrightarrow> rows_written v rows m \<and>
     (\<forall>r < rows. \<forall>c < v. obi div 8 \<le> c \<longrightarrow>
        the (m ! (r * v + c)) = push_bit (if c = obi div 8 then obi mod 8 else 0) (bytes ! (r * v + c)))"

lemma used_up_bit:
  assumes "used_up v rows obi bytes m" "r < rows" "obi < 8 * v"
  shows "bit (the (m ! (r * v + obi div 8))) 7 = protects bytes v r obi"
proof -
  have "obi div 8 < v" using assms(3) by (simp add: less_mult_imp_div_less mult.commute)
  then have "the (m ! (r * v + obi div 8)) = push_bit (obi mod 8) (bytes ! (r * v + obi div 8))"
    using assms(1,2) by (simp add: used_up_def)
  moreover have "obi mod 8 \<le> 7" using mod_less_divisor [of 8 obi] by linarith
  ultimately show ?thesis by (simp add: protects_def bit_push_bit_iff)
qed

lemma CopyColumn_builds:
  assumes new: "building w rows nbi F new" and old: "used_up v rows obi bytes old"
    and "nbi < 8 * w" "obi < 8 * v"
  shows "\<exists>new' old'. CopyColumn new w old v rows nbi obi = Inr (new', old') \<and> length new' = length new \<and>
    length old' = length old \<and> building w rows (Suc nbi) (\<lambda>r. (F r)(nbi := r < rows \<and> protects bytes v r obi)) new' \<and>
    used_up v rows (Suc obi) bytes old'"
proof -
  have w: "nbi div 8 < w" "obi div 8 < v" using assms(3,4) by (simp_all add: less_mult_imp_div_less mult.commute)
  from copy_rows_eq [of w rows new v old 0 rows nbi obi] new old w obtain new' old' where
    n': "CopyColumn new w old v rows nbi obi = Inr (new', old')" "length new' = length new" "length old' = length old"
      "rows_written w rows new'" "rows_written v rows old'"
    and new': "\<And>r c. c < w \<Longrightarrow> new' ! (r * w + c) = (if r < rows \<and> c = nbi div 8
       then Some (append_bit nbi (the (new ! (r * w + c))) (the (old ! (r * v + obi div 8)))) else new ! (r * w + c))"
    and old': "\<And>r c. c < v \<Longrightarrow> old' ! (r * v + c) = (if r < rows \<and> c = obi div 8
       then Some (push_bit 1 (the (old ! (r * v + c)))) else old ! (r * v + c))"
    using assms(3) by (auto simp: building_def used_up_def CopyColumn_def RTC_CHECK_def)
  have "bit (the (new' ! (r * w + c))) t = partial_bit (Suc nbi) ((F r)(nbi := r < rows \<and> protects bytes v r obi)) c t"
    if r: "r < rows" "c < w" "t < 8" for r c t
  proof (cases "c = nbi div 8")
    case True
    then show ?thesis
      using new' [OF r(2), of r] r new used_up_bit [OF old r(1) assms(4)]
        partial_bit_append [of "the (new ! (r * w + c))" nbi "F r" t "the (old ! (r * v + obi div 8))"]
      by (simp add: building_def)
  next
    case False
    then show ?thesis using new' [OF r(2), of r] r new by (simp add: building_def partial_bit_append_other)
  qed
  moreover have "the (old' ! (r * v + c)) = push_bit (if c = Suc obi div 8 then Suc obi mod 8 else 0) (bytes ! (r * v + c))"
    if "r < rows" "c < v" "Suc obi div 8 \<le> c" for r c
  proof (cases "obi mod 8 = 7")
    case True
    then show ?thesis using that old' [OF that(2), of r] old by (auto simp: used_up_def Suc_div_mod_8)
  next
    case False
    then show ?thesis using that old' [OF that(2), of r] old by (auto simp: used_up_def Suc_div_mod_8)
  qed
  ultimately show ?thesis using n' new by (auto simp: building_def used_up_def)
qed

lemma InsertZeroColumns_builds:
  assumes new: "building w rows nbi F new" and "nbi + z < 8 * w"
  shows "\<exists>new'. InsertZeroColumns z new w rows nbi = Inr new' \<and> length new' = length new \<and> building w rows (nbi + z) F new'"
proof -
  let ?c = "nbi div 8" and ?p = "nbi mod 8"
  have "?c < w" using assms(2) by (simp add: less_mult_imp_div_less mult.commute)
  with shift_cells_eq [of w rows new 0 rows ?c "min z (7 - ?p)"] new obtain new' where
    n': "InsertZeroColumns z new w rows nbi = Inr new'" "length new' = length new" "rows_written w rows new'"
    and new': "\<And>r c. c < w \<Longrightarrow> new' ! (r * w + c) = (if r < rows \<and> c = ?c
       then Some (push_bit (min z (7 - ?p)) (the (new ! (r * w + c)))) else new ! (r * w + c))"
    by (auto simp: building_def InsertZeroColumns_def)
  have "bit (the (new' ! (r * w + c))) t = partial_bit (nbi + z) (F r) c t" if r: "r < rows" "c < w" "t < 8" for r c t
  proof (cases "c = ?c")
    case True
    note less = add_div_8_less [of nbi z]
    then show ?thesis
      using True new' [OF r(2), of r] r new partial_bit_shift [of "the (new ! (r * w + c))" nbi "F r" t z]
      by (auto simp: building_def partial_bit_full less)
  next
    case False
    then show ?thesis using new' [OF r(2), of r] r new by (simp add: building_def partial_bit_zeros_other)
  qed
  then show ?thesis using n' new by (auto simp: building_def)
qed

text \<open>
  Columns of the new mask after \<open>n\<close> media packets, of which packet \<open>j\<close> has the sequence number
  \<open>d j\<close> behind the first.
\<close>

definition spread :: "nat \<Rightarrow> (nat \<Rightarrow> nat) \<Rightarrow> nat \<Rightarrow> u8 list \<Rightarrow> nat \<Rightarrow> nat \<Rightarrow> nat \<Rightarrow> bool" where
  "spread rows d v bytes n r c \<longleftrightarrow> r < rows \<and> (\<exists>j < n. d j = c \<and> protects bytes v r j)"

text \<open>\<open>n\<close> media packets with these sequence numbers, in order.\<close>

definition numbered :: "u16 \<Rightarrow> (nat \<Rightarrow> nat) \<Rightarrow> u8 list list \<Rightarrow> bool" where
  "numbered s0 d media \<longleftrightarrow>
     (\<forall>j < length media. ParseSequenceNumber (media ! j) = Inr (s0 + of_nat (d j))) \<and>
     (\<forall>j < length media. \<forall>i < j. d i < d j) \<and> d 0 = 0 \<and> d (length media - 1) < 48"

lemma numbered_mono:
  assumes "numbered s0 d media" "i \<le> j" "j < length media"
  shows "d i \<le> d j"
proof (cases "i = j")
  case False
  then have "i < j" using assms(2) by simp
  then have "d i < d j" using assms by (simp add: numbered_def)
  then show ?thesis by simp
qed simp

lemma numbered_inj:
  assumes "numbered s0 d media" "i < length media" "j < length media"
  shows "d i = d j \<longleftrightarrow> i = j"
proof -
  have "d i < d j" if "i < j" using that assms by (simp add: numbered_def)
  moreover have "d j < d i" if "j < i" using that assms by (simp add: numbered_def)
  ultimately show ?thesis by (cases i j rule: linorder_cases) auto
qed

lemma numbered_gap: "numbered s0 d media \<Longrightarrow> i \<le> j \<Longrightarrow> j < length media \<Longrightarrow> d i + (j - i) \<le> d j"
proof (induction j)
  case (Suc j)
  then have "d j < d (Suc j)" by (simp add: numbered_def)
  moreover have "d i + (j - i) \<le> d j" if "i \<le> j" using Suc that by simp
  ultimately show ?case using Suc.prems(2) by (cases "i = Suc j") auto
qed simp

lemma seq_gap:
  assumes "b < a" "a < 65536"
  shows "unat ((s0 + of_nat a) - (s0 + of_nat b) - 1 :: u16) = a - b - 1"
proof -
  have "(s0 + of_nat a) - (s0 + of_nat b) - 1 = (of_nat (a - b - 1) :: u16)"
    using assms(1) by (simp add: of_nat_diff)
  then show ?thesis using assms by (simp only: unat_of_nat) simp
qed

lemma spread_Suc:
  assumes "numbered s0 d media" "n < length media"
  shows "(\<lambda>r. (spread rows d v bytes n r)(d n := r < rows \<and> protects bytes v r n)) = spread rows d v bytes (Suc n)"
proof (intro ext)
  fix r c
  have "d j = d n \<longleftrightarrow> j = n" if "j \<le> n" for j using numbered_inj [OF assms(1), of j n] assms(2) that by simp
  then show "((spread rows d v bytes n r)(d n := r < rows \<and> protects bytes v r n)) c = spread rows d v bytes (Suc n) r c"
    by (auto simp: spread_def less_Suc_eq) 
qed

lemma insert_loop_builds:
  assumes num: "numbered s0 d media" and n: "n = length media" "n \<le> 8 * v" "d (n - 1) < 8 * w"
  shows "0 < obi \<Longrightarrow> obi \<le> n \<Longrightarrow> building w rows (Suc (d (obi - 1))) (spread rows d v bytes obi) tmp \<Longrightarrow>
    used_up v rows obi bytes masks \<Longrightarrow>
    \<exists>tmp' masks'. insert_loop 48 w v rows (drop obi media) (s0 + of_nat (d (obi - 1))) (Suc (d (obi - 1))) obi tmp masks =
      Inr (Suc (d (n - 1)), tmp', masks') \<and> length tmp' = length tmp \<and> length masks' = length masks \<and>
      building w rows (Suc (d (n - 1))) (spread rows d v bytes n) tmp'"
proof (induction "n - obi" arbitrary: obi tmp masks)
  case 0
  then show ?case using n by auto
next
  case (Suc m)
  then have obi: "obi < n" by simp
  let ?a = "d obi" and ?b = "d (obi - 1)"
  have lt: "?b < ?a" using num obi Suc.prems(1) n(1) by (simp add: numbered_def)
  have le: "?a \<le> d (n - 1)" using numbered_mono [OF num, of obi "n - 1"] obi n(1) by simp
  then have a48: "?a < 48" using num n(1) by (simp add: numbered_def)
  have drop: "drop obi media = media ! obi # drop (Suc obi) media" using obi n(1) by (simp add: Cons_nth_drop_Suc)
  have parse: "ParseSequenceNumber (media ! obi) = Inr (s0 + of_nat ?a)" using num obi n(1) by (simp add: numbered_def)
  have gap: "unat ((s0 + of_nat ?a) - (s0 + of_nat ?b) - 1) = ?a - ?b - 1" using lt a48 by (intro seq_gap) auto
  let ?z = "?a - ?b - 1"
  have neq: "(Suc ?b = 48) = False" using lt a48 by simp
  have sum: "Suc ?b + ?z = ?a" using lt by simp
  have "\<exists>tmp1. (if ?z > 0 then InsertZeroColumns ?z tmp w rows (Suc ?b) else Inr tmp) = Inr tmp1 \<and>
      length tmp1 = length tmp \<and> building w rows ?a (spread rows d v bytes obi) tmp1"
    using InsertZeroColumns_builds [OF Suc.prems(3), of ?z] le n(3) sum Suc.prems(3) by (cases "?z > 0") auto
  then obtain tmp1 where t1: "(if ?z > 0 then InsertZeroColumns ?z tmp w rows (Suc ?b) else Inr tmp) = Inr tmp1"
    "length tmp1 = length tmp" "building w rows ?a (spread rows d v bytes obi) tmp1" by blast
  from CopyColumn_builds [OF t1(3) Suc.prems(4)] le n(2,3) obi obtain tmp2 masks2 where
    t2: "CopyColumn tmp1 w masks v rows ?a obi = Inr (tmp2, masks2)" "length tmp2 = length tmp1" "length masks2 = length masks"
      "building w rows (Suc ?a) (spread rows d v bytes (Suc obi)) tmp2" "used_up v rows (Suc obi) bytes masks2"
    using spread_Suc [OF num, of obi rows v bytes] n(1) by auto
  have "insert_loop 48 w v rows (drop obi media) (s0 + of_nat ?b) (Suc ?b) obi tmp masks =
      insert_loop 48 w v rows (drop (Suc obi) media) (s0 + of_nat ?a) (Suc ?a) (Suc obi) tmp2 masks2"
    using neq by (simp only: drop insert_loop.simps parse bind_res.simps Let_def gap sum t1(1) t2(1) prod.case if_False)
  then show ?case using Suc.hyps(1) [of "Suc obi" tmp2 masks2] Suc.hyps(2) obi t1(2) t2 by simp
qed

section \<open>The finished mask\<close>

text \<open>After the last shift every byte holds its eight columns.\<close>

lemma last_shift_finishes:
  assumes "building w rows nbi F m" "nbi \<le> 8 * w"
  shows "\<exists>m'. (if nbi mod 8 \<noteq> 0 then shift_cells w (nbi div 8) (7 - nbi mod 8) 0 rows m else Inr m) = Inr m' \<and>
    length m' = length m \<and> rows_written w rows m' \<and>
    (\<forall>r < rows. \<forall>j < 8 * w. bit (the (m' ! (r * w + j div 8))) (7 - j mod 8) = F r j)"
proof -
  let ?c = "nbi div 8" and ?p = "nbi mod 8"
  have col: "8 * (j div 8) + 7 - (7 - j mod 8) = j" "7 - j mod 8 < 8" for j :: nat
    using mult_div_mod_eq [of 8 j] mod_less_divisor [of 8 j] by linarith+
  have F: "\<not> F r i" if "nbi \<le> i" for r i using assms(1) that by (simp add: building_def)
  have other: "partial_bit nbi (F r) c t = F r (8 * c + 7 - t)" if "c \<noteq> ?c \<or> ?p = 0" "t < 8" for r c t
  proof (cases "c < ?c")
    case False
    then have "nbi \<le> 8 * c"
      using that(1) later_byte_column [of nbi c] mult_div_mod_eq [of 8 nbi] by (cases "c = ?c") auto
    then have "\<not> F r (8 * c + 7 - t)" using that(2) by (intro F) simp
    then show ?thesis using False that(1) by (auto simp: partial_bit_def)
  qed (simp add: partial_bit_full)
  have bits: "bit (the (m ! (r * w + c))) t = partial_bit nbi (F r) c t" if "r < rows" "c < w" "t < 8" for r c t
    using assms(1) that by (simp add: building_def)
  have byte: "j div 8 < w" if "j < 8 * w" for j using that by (simp add: less_mult_imp_div_less mult.commute)
  show ?thesis
  proof (cases "?p = 0")
    case True
    have "bit (the (m ! (r * w + j div 8))) (7 - j mod 8) = F r j" if "r < rows" "j < 8 * w" for r j
      using bits [OF that(1) byte [OF that(2)] col(2)] other [of "j div 8" "7 - j mod 8" r] True col by simp
    then show ?thesis using True assms(1) by (auto simp: building_def)
  next
    case False
    have "?c < w" using False assms(2) by (metis less_mult_imp_div_less mod_mult_self1_is_0 mult.commute nat_less_le)
    with shift_cells_eq [of w rows m 0 rows ?c "7 - ?p"] assms(1) obtain m' where
      m': "shift_cells w ?c (7 - ?p) 0 rows m = Inr m'" "length m' = length m" "rows_written w rows m'"
      and cells: "\<And>r c. c < w \<Longrightarrow> m' ! (r * w + c) = (if r < rows \<and> c = ?c
         then Some (push_bit (7 - ?p) (the (m ! (r * w + c)))) else m ! (r * w + c))"
      by (auto simp: building_def)
    have "bit (the (m' ! (r * w + c))) t = F r (8 * c + 7 - t)" if r: "r < rows" "c < w" "t < 8" for r c t
    proof (cases "c = ?c")
      case True
      have "min 8 (7 - ?p) = 7 - ?p" "\<not> ?p + 8 \<le> 7" by auto
      then show ?thesis
        using True cells [OF r(2), of r] r partial_bit_shift [of "the (m ! (r * w + c))" nbi "F r" t 8] bits F by simp
    next
      case False
      then show ?thesis using cells [OF r(2), of r] bits r other by simp
    qed
    then have "bit (the (m' ! (r * w + j div 8))) (7 - j mod 8) = F r j" if "r < rows" "j < 8 * w" for r j
      using that byte [OF that(2)] col by simp
    then show ?thesis using False m' by auto
  qed
qed

text \<open>The numbers that \<open>InsertZerosInPacketMasks\<close> computes first.\<close>

lemma gap_counts:
  assumes num: "numbered s0 d media" and n: "n = length media" "0 < n" "n \<le> 48"
  shows "ParseSequenceNumber (last media) = Inr (s0 + of_nat (d (n - 1)))" "ParseSequenceNumber (hd media) = Inr s0"
    "unat (s0 + of_nat (d (n - 1)) - s0) = d (n - 1)" "size_t (int (d (n - 1)) - int n + 1) = d (n - 1) + 1 - n"
    "size_t (int (d (n - 1) + 1 - n) + int n) = d (n - 1) + 1"
    "d (n - 1) < 48" "n - 1 \<le> d (n - 1)"
proof -
  have d0: "d 0 = 0" using num by (simp add: numbered_def)
  show D: "d (n - 1) < 48" "n - 1 \<le> d (n - 1)"
    using num numbered_gap [OF num, of 0 "n - 1"] n by (auto simp: numbered_def)
  have media: "last media = media ! (n - 1)" "hd media = media ! 0"
    using n(1,2) by (auto simp: last_conv_nth hd_conv_nth)
  have "ParseSequenceNumber (media ! j) = Inr (s0 + of_nat (d j))" if "j < n" for j
    using num n(1) that by (simp add: numbered_def)
  from this [of "n - 1"] this [of 0] show "ParseSequenceNumber (last media) = Inr (s0 + of_nat (d (n - 1)))"
    "ParseSequenceNumber (hd media) = Inr s0" using n(2) media d0 by simp_all
  show "unat (s0 + of_nat (d (n - 1)) - s0) = d (n - 1)" using D by (simp add: unat_of_nat)
  show "size_t (int (d (n - 1)) - int n + 1) = d (n - 1) + 1 - n" using D n by (simp add: size_t_small nat_diff_distrib')
  show "size_t (int (d (n - 1) + 1 - n) + int n) = d (n - 1) + 1" using D n by (simp add: size_t_small)
qed

lemma numbered_id:
  assumes num: "numbered s0 d media" and "n = length media" "d (n - 1) + 1 = n" "i < n"
  shows "d i = i"
proof -
  have "i \<le> n - 1" "n - 1 < length media" using assms(2,4) by simp_all
  then have "d i + (n - 1 - i) \<le> d (n - 1)" by (rule numbered_gap [OF num])
  moreover have "i \<le> d i" using numbered_gap [OF num, of 0 i] assms num by (simp add: numbered_def)
  ultimately show ?thesis using assms(3,4) by linarith
qed

lemma InsertZeros_no_gap:
  assumes "numbered s0 d media" "n = length media" "0 < n" "n \<le> 48" "d (n - 1) + 1 = n"
  shows "InsertZerosInPacketMasks dchecks 48 w media rows masks tmp = Inr (int n, masks, tmp)"
proof (cases "n = 1")
  case False
  note g = gap_counts [OF assms(1-4)]
  show ?thesis
    unfolding InsertZerosInPacketMasks_def Let_def assms(2) [symmetric] g(1,2) bind_res.simps g(3,4)
    using False assms by simp
qed (simp add: InsertZerosInPacketMasks_def assms(2) [symmetric])

text \<open>The new mask: column \<open>j\<close> is that of the media packet with offset \<open>j\<close>, if there is one.\<close>

definition spread_masks :: "nat \<Rightarrow> nat \<Rightarrow> (nat \<Rightarrow> nat) \<Rightarrow> u8 list \<Rightarrow> u8 list \<Rightarrow> bool" where
  "spread_masks n rows d bytes bytes' \<longleftrightarrow>
     (let w = mask_width (d (n - 1) + 1) in
      length bytes' = rows * w \<and>
      (\<forall>r < rows. \<forall>j < 8 * w. protects bytes' w r j = (\<exists>i < n. d i = j \<and> protects bytes (mask_width n) r i)))"

lemma InsertZeros_gap:
  assumes num: "numbered s0 d media" and n: "n = length media" "0 < n" "n \<le> 48" and gap: "d (n - 1) + 1 \<noteq> n"
    and masks: "masks = mem_of bytes @ rest" "length bytes = rows * mask_width n"
    and len: "rows * 6 \<le> length masks" "rows * 6 \<le> length tmp"
  shows "\<exists>bytes' rest' tmp'. InsertZerosInPacketMasks dchecks 48 (mask_width n) media rows masks tmp =
      Inr (int (d (n - 1) + 1), mem_of bytes' @ rest', tmp') \<and> spread_masks n rows d bytes bytes' \<and>
    length bytes' + length rest' = length masks \<and> length tmp' = length tmp"
proof -
  let ?v = "mask_width n" and ?w = "mask_width (d (n - 1) + 1)" and ?D = "d (n - 1)"
  note g = gap_counts [OF num n]
  have d0: "d 0 = 0" using num by (simp add: numbered_def)
  have n2: "2 \<le> n" using gap d0 n(2) by (cases "n = 1") auto
  have width: "n \<le> 8 * ?v" "?D + 1 \<le> 8 * ?w" "?w \<le> 6" "0 < ?v" using n(3) g(6) by (auto simp: mask_width_def)
  have media: "media \<noteq> []" "tl media = drop 1 media" using n by (auto simp: drop_Suc)
  let ?tmp0 = "replicate (rows * ?w) (Some 0) @ drop (rows * ?w) tmp"
  have lenw: "rows * ?w \<le> length tmp" "rows * ?w \<le> length masks"
    using len width(3) mult_le_mono2 [of ?w 6 rows] by linarith+
  have st0: "mem_store ''tmp_packet_masks_'' 0 (replicate (rows * ?w) (Some 0)) tmp = Inr ?tmp0"
    using lenw by (simp add: mem_store_def)
  have b0: "building ?w rows 0 (spread rows d ?v bytes 0) ?tmp0"
    using lenw row_cell_less by (auto simp: building_def rows_written_def spread_def partial_bit_def nth_append)
  have "masks ! p = Some (bytes ! p)" if "p < rows * ?v" for p
    using that masks by (simp add: nth_append mem_of_def)
  then have u0: "used_up ?v rows 0 bytes masks"
    using masks row_cell_less [of _ rows _ ?v] by (auto simp: used_up_def rows_written_def)
  have sp: "(\<lambda>r. (spread rows d ?v bytes 0 r)(0 := r < rows \<and> protects bytes ?v r 0)) = spread rows d ?v bytes 1"
    using spread_Suc [OF num, of 0 rows ?v bytes] media d0 by simp
  have "0 < 8 * ?w" "0 < 8 * ?v" using width by auto
  from CopyColumn_builds [OF b0 u0 this, unfolded sp] obtain tmp1 masks1 where
    t1: "CopyColumn ?tmp0 ?w masks ?v rows 0 0 = Inr (tmp1, masks1)" "length tmp1 = length ?tmp0" "length masks1 = length masks"
      "building ?w rows 1 (spread rows d ?v bytes 1) tmp1" "used_up ?v rows 1 bytes masks1"
    by auto
  from insert_loop_builds [OF num n(1) width(1), of ?w 1 rows bytes tmp1 masks1] t1(4,5) width(2) n2 d0 obtain tmp2 masks2 where
    t2: "insert_loop 48 ?w ?v rows (drop 1 media) s0 1 1 tmp1 masks1 = Inr (Suc ?D, tmp2, masks2)"
      "length tmp2 = length tmp1" "length masks2 = length masks1" "building ?w rows (Suc ?D) (spread rows d ?v bytes n) tmp2"
    by auto
  from last_shift_finishes [OF t2(4)] width(2) obtain tmp3 where
    t3: "(if Suc ?D mod 8 \<noteq> 0 then shift_cells ?w (Suc ?D div 8) (7 - Suc ?D mod 8) 0 rows tmp2 else Inr tmp2) = Inr tmp3"
      "length tmp3 = length tmp2" "rows_written ?w rows tmp3"
      "\<forall>r < rows. \<forall>j < 8 * ?w. bit (the (tmp3 ! (r * ?w + j div 8))) (7 - j mod 8) = spread rows d ?v bytes n r j"
    by auto
  have len3: "length tmp3 = length tmp" "length masks2 = length masks" using t1 t2 t3 lenw by simp_all
  obtain bytes' where b': "take (rows * ?w) tmp3 = mem_of bytes'"
    using rows_written_bytes [OF t3(3)] by blast
  have lb: "length bytes' = rows * ?w" using arg_cong [OF b', of length] lenw len3 by simp
  have ld: "mem_load ''tmp_packet_masks_'' 0 (rows * ?w) tmp3 = Inr (mem_of bytes')"
    using lenw len3 b' by (simp add: mem_load_def)
  have st3: "mem_store ''packet_masks_'' 0 (mem_of bytes') masks2 = Inr (mem_of bytes' @ drop (rows * ?w) masks2)"
    using lenw len3 lb by (simp add: mem_store_def)
  have ps: "PacketMaskSize dchecks (?D + 1) = Inr ?w" using g(6) by (intro PacketMaskSize_ok) simp
  have conds: "(n \<le> 1) = False" "(?D + 1 - n = 0) = False" "(48 < ?D + 1) = False" using n2 g(6,7) gap by auto
  have "InsertZerosInPacketMasks dchecks 48 ?v media rows masks tmp = Inr (int (?D + 1), mem_of bytes' @ drop (rows * ?w) masks2, tmp3)"
    by (simp only: InsertZerosInPacketMasks_def Let_def n(1) [symmetric] g(1-5) bind_res.simps conds if_False
        ps st0 t1(1) t2(1) t3(1) prod.case media(2) ld st3) simp
  moreover have "protects bytes' ?w r j = (\<exists>i < n. d i = j \<and> protects bytes ?v r i)" if "r < rows" "j < 8 * ?w" for r j
  proof -
    have "r * ?w + j div 8 < rows * ?w" using that by (intro row_cell_less) (auto simp: less_mult_imp_div_less mult.commute)
    then have "tmp3 ! (r * ?w + j div 8) = Some (bytes' ! (r * ?w + j div 8))"
      using nth_take [of "r * ?w + j div 8" "rows * ?w" tmp3] lb unfolding b' by (simp add: mem_of_def)
    then show ?thesis using t3(4) [rule_format, OF that] that(1) by (simp add: protects_def spread_def)
  qed
  ultimately show ?thesis
    using lenw len3 lb by (intro exI [of _ bytes'] exI [of _ "drop (rows * ?w) masks2"] exI [of _ tmp3]) (simp add: spread_masks_def Let_def)
qed

text \<open>Both cases, for a mask without bits behind its last packet.\<close>

lemma InsertZeros_spread:
  assumes num: "numbered s0 d media" and n: "n = length media" "0 < n" "n \<le> 48"
    and masks: "masks = mem_of bytes @ rest" "length bytes = rows * mask_width n"
    and len: "rows * 6 \<le> length masks" "rows * 6 \<le> length tmp"
    and clean: "\<And>r j. r < rows \<Longrightarrow> n \<le> j \<Longrightarrow> j < 8 * mask_width n \<Longrightarrow> \<not> protects bytes (mask_width n) r j"
  shows "\<exists>bytes' rest' tmp'. InsertZerosInPacketMasks dchecks 48 (mask_width n) media rows masks tmp =
      Inr (int (d (n - 1) + 1), mem_of bytes' @ rest', tmp') \<and> spread_masks n rows d bytes bytes' \<and>
    length bytes' + length rest' = length masks \<and> length tmp' = length tmp"
proof (cases "d (n - 1) + 1 = n")
  case True
  have "(\<exists>i < n. d i = j \<and> protects bytes (mask_width n) r i) = protects bytes (mask_width n) r j"
    if "r < rows" "j < 8 * mask_width n" for r j
    using numbered_id [OF num n(1) True] clean [of r j] that by (metis linorder_not_less)
  then have "spread_masks n rows d bytes bytes" using masks(2) True by (simp add: spread_masks_def)
  then show ?thesis
    using InsertZeros_no_gap [OF num n True] masks True by (intro exI [of _ bytes] exI [of _ rest] exI [of _ tmp]) simp
qed (rule InsertZeros_gap [OF num n _ masks len])

text \<open>
  Claim C32. \<open>InsertZerosInPacketMasks\<close> spreads a mask over the gaps of the sequence numbers: for at
  least two media packets, packet \<open>j\<close> having the sequence number \<open>d j\<close> behind the first (modulo
  \<open>2^16\<close>, in increasing order, fewer than 48 in all), and any number of FEC packets, it returns the
  number \<open>d (n - 1) + 1\<close> of columns, and bit \<open>j\<close> of a row of the new mask is set exactly when
  \<open>j\<close> is the offset of a media packet that the row protected before.
\<close>

theorem zeros_inserted_for_gaps:
  assumes num: "numbered s0 d media" and n: "n = length media" "2 \<le> n" "n \<le> 48"
    and masks: "masks = mem_of bytes @ rest" "length bytes = rows * mask_width n"
    and len: "rows * 6 \<le> length masks" "rows * 6 \<le> length tmp"
  shows "\<exists>masks' tmp'. InsertZerosInPacketMasks dchecks 48 (mask_width n) media rows masks tmp =
      Inr (int (d (n - 1) + 1), masks', tmp') \<and>
    (\<forall>r < rows. \<forall>j \<le> d (n - 1). \<exists>v. masks' ! (r * mask_width (d (n - 1) + 1) + j div 8) = Some v \<and>
       bit v (7 - j mod 8) = (\<exists>i < n. d i = j \<and> protects bytes (mask_width n) r i))"
proof (cases "d (n - 1) + 1 = n")
  case True
  have n0: "0 < n" using n(2) by simp
  have "masks ! (r * mask_width n + j div 8) = Some (bytes ! (r * mask_width n + j div 8))"
    if "r < rows" "j < n" for r j
  proof -
    have "j div 8 < mask_width n" using that(2) n(3) by (auto simp: mask_width_def)
    then have "r * mask_width n + j div 8 < length bytes" using row_cell_less [OF that(1)] masks(2) by simp
    then show ?thesis using masks(1) by (simp add: nth_append mem_of_def)
  qed
  moreover have "(\<exists>i < n. d i = j \<and> protects bytes (mask_width n) r i) = protects bytes (mask_width n) r j" if "j < n" for r j
    using numbered_id [OF num n(1) True] that by metis
  ultimately show ?thesis using InsertZeros_no_gap [OF num n(1) n0 n(3) True] True by (auto simp: protects_def)
next
  case False
  have n0: "0 < n" using n(2) by simp
  from InsertZeros_gap [OF num n(1) n0 n(3) False masks len] obtain bytes' rest' tmp' where
    r: "InsertZerosInPacketMasks dchecks 48 (mask_width n) media rows masks tmp = Inr (int (d (n - 1) + 1), mem_of bytes' @ rest', tmp')"
      "spread_masks n rows d bytes bytes'" by blast
  let ?w = "mask_width (d (n - 1) + 1)"
  have "\<exists>v. (mem_of bytes' @ rest') ! (r * ?w + j div 8) = Some v \<and>
      bit v (7 - j mod 8) = (\<exists>i < n. d i = j \<and> protects bytes (mask_width n) r i)" if rj: "r < rows" "j \<le> d (n - 1)" for r j
  proof -
    have j: "j < 8 * ?w" "j div 8 < ?w" using rj(2) num by (auto simp: mask_width_def numbered_def n(1))
    have "r * ?w + j div 8 < length bytes'" using row_cell_less [OF rj(1) j(2)] r(2) by (simp add: spread_masks_def Let_def)
    moreover have "protects bytes' ?w r j = (\<exists>i < n. d i = j \<and> protects bytes (mask_width n) r i)"
      using r(2) rj(1) j(1) by (simp add: spread_masks_def Let_def)
    ultimately show ?thesis by (simp add: nth_append mem_of_def protects_def)
  qed
  then show ?thesis using r(1) by (intro exI [of _ "mem_of bytes' @ rest'"] exI [of _ tmp']) simp
qed

text \<open>Three packets with a hole after the first: its column stays, the others move one to the right.\<close>

theorem zeros_inserted_for_gaps_witness:
  "\<exists>masks' tmp' v. InsertZerosInPacketMasks True 48 2 [[0, 0, 1, 0], [0, 0, 1, 2], [0, 0, 1, 3]] 1
     (mem_of [0xC0, 0] @ replicate 4 None) (replicate 6 None) = Inr (4, masks', tmp') \<and>
     masks' ! 0 = Some v \<and> bit v 7 \<and> \<not> bit v 6 \<and> bit v 5 \<and> \<not> bit v 4"
proof -
  define d where "d = (\<lambda>j :: nat. if j = 0 then 0 else j + 1)"
  define media where "media = [[0, 0, 1, 0], [0, 0, 1, 2], [0, 0, 1, 3 :: u8]]"
  let ?bytes = "[0xC0, 0 :: u8]"
  have num: "numbered 256 d media"
    by (simp add: numbered_def media_def d_def ParseSequenceNumber_def All_less_Suc)
  have bits: "protects ?bytes 2 0 0" "protects ?bytes 2 0 1" "\<not> protects ?bytes 2 0 2" by (simp_all add: protects_def)
  have ex: "(\<exists>i < 3. d i = j \<and> protects ?bytes 2 0 i) = (j = 0 \<or> j = 2)" for j
    using bits by (auto simp: d_def less_Suc_eq numeral_3_eq_3 numeral_2_eq_2)
  have d2: "d (3 - 1) = 3" by (simp add: d_def)
  have len: "3 = length media" by (simp add: media_def)
  from zeros_inserted_for_gaps [OF num len _ _ refl, where bytes = ?bytes and rest = "replicate 4 None" and rows = 1
      and tmp = "replicate 6 None" and dchecks = True, unfolded d2]
  obtain masks' tmp' where
    m: "InsertZerosInPacketMasks True 48 2 media 1 (mem_of ?bytes @ replicate 4 None) (replicate 6 None) = Inr (4, masks', tmp')"
    and cols: "\<forall>j \<le> 3. \<exists>v. masks' ! (j div 8) = Some v \<and> bit v (7 - j mod 8) = (\<exists>i < 3. d i = j \<and> protects ?bytes 2 0 i)"
    by (auto simp: mask_width_def)
  have col: "\<exists>v. masks' ! (j div 8) = Some v \<and> bit v (7 - j mod 8) = (j = 0 \<or> j = 2)" if "j \<le> 3" for j
    using cols that unfolding ex by blast
  from col [of 0] obtain v where v: "masks' ! 0 = Some v" "bit v 7" by auto
  from col [of 1] col [of 2] col [of 3] v(1) have "\<not> bit v 6" "bit v 5" "\<not> bit v 4" by auto
  then show ?thesis using m v unfolding media_def by blast
qed

end
