(* ===== verification/Fec_Codec.thy ===== *)
theory Fec_Codec
  imports Fec_Headers Mask_Columns
begin

text \<open>
  The WebRTC encoder and decoder of \<^verbatim>\<open>FEC_Encode/include/modules/rtp_rtcp/source/forward_error_correction.cc\<close>.
  The header format is the virtual interface of \<^verbatim>\<open>Fec_Packets\<close>. The header file beside it declares the
  simplified class of the simulator, so that the members of the codec are read off their uses here. Media
  packets are byte lists, packets under construction are buffers; a decoder takes over the packets it
  receives. The count of important packets is a natural number (its check for a negative one is void).
\<close>

section \<open>State\<close>

definition kTransportOverhead :: nat where "kTransportOverhead = 28"
definition kOldSequenceThreshold :: u16 where "kOldSequenceThreshold = 0x3fff"
definition kRtpHeaderSize :: nat where "kRtpHeaderSize = 12"
definition IP_PACKET_SIZE :: nat where "IP_PACKET_SIZE = 1500"

lemmas codec_constants = kTransportOverhead_def kOldSequenceThreshold_def kRtpHeaderSize_def IP_PACKET_SIZE_def

record fec_codec =
  codec_ssrc :: u32
  protected_media_ssrc :: u32
  fec_header_reader :: FecHeaderReader
  fec_header_writer :: FecHeaderWriter
  generated_fec_packets :: "CopyOnWriteBuffer list"
  received_fec_packets :: "ReceivedFecPacket list"
  codec_masks :: mem
  codec_tmp_masks :: mem
  codec_mask_size :: nat

definition new_ForwardErrorCorrection :: "FecHeaderReader \<Rightarrow> FecHeaderWriter \<Rightarrow> u32 \<Rightarrow> u32 \<Rightarrow> fec_codec" where
  "new_ForwardErrorCorrection reader writer s media_ssrc =
     \<lparr>codec_ssrc = s, protected_media_ssrc = media_ssrc, fec_header_reader = reader, fec_header_writer = writer,
      generated_fec_packets = replicate (writer_MaxFecPackets writer) empty_buffer, received_fec_packets = [],
      codec_masks = replicate kFECPacketMaskMaxSize None, codec_tmp_masks = replicate kFECPacketMaskMaxSize None,
      codec_mask_size = 0\<rparr>"

definition CreateUlpfec :: "u32 \<Rightarrow> fec_codec" where
  "CreateUlpfec s = new_ForwardErrorCorrection UlpfecHeaderReader UlpfecHeaderWriter s s"

definition CreateFlexfec :: "u32 \<Rightarrow> u32 \<Rightarrow> fec_codec" where
  "CreateFlexfec s media_ssrc = new_ForwardErrorCorrection Flexfec03HeaderReader Flexfec03HeaderWriter s media_ssrc"

section \<open>XOR of packets\<close>

definition xor_byte :: "nat \<Rightarrow> u8 \<Rightarrow> mem \<Rightarrow> mem res" where
  "xor_byte i v = modify_byte i (\<lambda>b. b XOR v)"

definition codec_XorHeaders :: "mem \<Rightarrow> CopyOnWriteBuffer \<Rightarrow> CopyOnWriteBuffer res" where
  "codec_XorHeaders src dst =
     bind_res (mem_read ''src_data'' 0 2 src) (\<lambda>h.
     bind_res (mem_read ''src_data'' 4 4 src) (\<lambda>ts.
       let len = WriteBigEndian 2 (word_of_int (int (length src) - int kRtpHeaderSize) :: u16) in
       change_data (\<lambda>d0.
         bind_res (xor_byte 0 (h ! 0) d0) (\<lambda>d1.
         bind_res (xor_byte 1 (h ! 1) d1) (\<lambda>d2.
         bind_res (xor_byte 2 (len ! 0) d2) (\<lambda>d3.
         bind_res (xor_byte 3 (len ! 1) d3) (\<lambda>d4.
         bind_res (xor_byte 4 (ts ! 0) d4) (\<lambda>d5.
         bind_res (xor_byte 5 (ts ! 1) d5) (\<lambda>d6.
         bind_res (xor_byte 6 (ts ! 2) d6) (\<lambda>d7.
           xor_byte 7 (ts ! 3) d7)))))))) dst))"

function codec_xor_loop :: "mem \<Rightarrow> nat \<Rightarrow> nat \<Rightarrow> nat \<Rightarrow> mem \<Rightarrow> mem res" where
  "codec_xor_loop src payload_length dst_offset i dst =
     (if i < payload_length then
        bind_res (mem_read ''src_data'' (int (kRtpHeaderSize + i)) 1 src) (\<lambda>v.
        bind_res (xor_byte (dst_offset + i) (hd v) dst) (\<lambda>dst'.
          codec_xor_loop src payload_length dst_offset (Suc i) dst'))
      else Inr dst)"
  by pat_completeness auto
termination by (relation "measure (\<lambda>(src, n, off, i, dst). n - i)") auto

declare codec_xor_loop.simps [simp del]

definition codec_XorPayloads :: "bool \<Rightarrow> mem \<Rightarrow> nat \<Rightarrow> nat \<Rightarrow> CopyOnWriteBuffer \<Rightarrow> CopyOnWriteBuffer res" where
  "codec_XorPayloads dchecks src payload_length dst_offset dst =
     RTC_DCHECK dchecks (size_t (int kRtpHeaderSize + int payload_length) \<le> length src)
       ''kRtpHeaderSize + payload_length <= src.data.size()''
       (RTC_DCHECK dchecks (size_t (int dst_offset + int payload_length) \<le> cow_capacity dst)
         ''dst_offset + payload_length <= dst->data.capacity()''
         (bind_res
           (if size_t (int dst_offset + int payload_length) > buffer_size dst
            then grow_zeroed (size_t (int dst_offset + int payload_length)) dst else Inr dst)
           (change_data (codec_xor_loop src payload_length dst_offset 0))))"

section \<open>Encoder\<close>

definition NumFecPackets :: "bool \<Rightarrow> int \<Rightarrow> int \<Rightarrow> int res" where
  "NumFecPackets dchecks num_media_packets protection_factor =
     (let n = drop_bit 8 (num_media_packets * protection_factor + push_bit 7 1);
          num_fec_packets = (if protection_factor > 0 \<and> n = 0 then 1 else n)
      in RTC_DCHECK dchecks (num_fec_packets \<le> num_media_packets) ''num_fec_packets <= num_media_packets''
           (Inr num_fec_packets))"

text \<open>
  The FEC packet of one row of the mask. The media packets are those still to come, with the sequence number of
  the first of them and its position in the mask.
\<close>

fun protect_media :: "bool \<Rightarrow> mem \<Rightarrow> nat \<Rightarrow> u8 list list \<Rightarrow> u16 \<Rightarrow> nat \<Rightarrow> nat \<Rightarrow> CopyOnWriteBuffer \<Rightarrow> CopyOnWriteBuffer res" where
  "protect_media dchecks masks header_size [] prev_seq_num pkt_mask_idx media_pkt_idx fec_packet = Inr fec_packet"
| "protect_media dchecks masks header_size (p # ps) prev_seq_num pkt_mask_idx media_pkt_idx fec_packet =
     bind_res (mem_read ''packet_masks_'' (int pkt_mask_idx) 1 masks) (\<lambda>v.
     bind_res
       (if bit (hd v) (7 - media_pkt_idx) then
          (let media_payload_length = length p - kRtpHeaderSize;
               fec_packet_length = header_size + media_payload_length
           in bind_res
                (if fec_packet_length > buffer_size fec_packet then grow_zeroed fec_packet_length fec_packet
                 else Inr fec_packet)
                (\<lambda>f1. bind_res (codec_XorHeaders (mem_of p) f1)
                  (\<lambda>f2. codec_XorPayloads dchecks (mem_of p) media_payload_length header_size f2)))
        else Inr fec_packet)
       (\<lambda>fec_packet'.
     bind_res
       (case ps of
          [] \<Rightarrow> Inr (prev_seq_num, media_pkt_idx)
        | q # _ \<Rightarrow> bind_res (ParseSequenceNumber q) (\<lambda>seq_num.
            Inr (seq_num, media_pkt_idx + unat (seq_num - prev_seq_num))))
       (\<lambda>(seq_num, idx).
         protect_media dchecks masks header_size ps seq_num (pkt_mask_idx + idx div 8) (idx mod 8) fec_packet')))"

definition generate_payload :: "bool \<Rightarrow> fec_codec \<Rightarrow> u8 list list \<Rightarrow> nat \<Rightarrow> CopyOnWriteBuffer \<Rightarrow> CopyOnWriteBuffer res" where
  "generate_payload dchecks c media i fec_packet =
     (let w = codec_mask_size c; writer = fec_header_writer c in
      bind_res (mem_load ''packet_masks_'' (int (i * w)) w (codec_masks c)) (\<lambda>row.
      bind_res (MinPacketMaskSize writer dchecks row) (\<lambda>min_packet_mask_size.
      bind_res (FecHeaderSize writer dchecks min_packet_mask_size) (\<lambda>header_size.
      bind_res (ParseSequenceNumber (hd media)) (\<lambda>prev_seq_num.
      bind_res (protect_media dchecks (codec_masks c) header_size media prev_seq_num (i * w) 0 fec_packet) (\<lambda>f.
        RTC_DCHECK dchecks (buffer_size f > 0) ''Packet mask is wrong or poorly designed.'' (Inr f)))))))"

text \<open>\<open>for (i = 0; i < n; ++i)\<close> over the generated packets, from \<open>i\<close> with \<open>n\<close> packets left.\<close>

fun for_generated :: "(nat \<Rightarrow> CopyOnWriteBuffer \<Rightarrow> CopyOnWriteBuffer res) \<Rightarrow> nat \<Rightarrow> nat \<Rightarrow> CopyOnWriteBuffer list \<Rightarrow> CopyOnWriteBuffer list res" where
  "for_generated f i 0 gs = Inr gs"
| "for_generated f i (Suc n) gs =
     (if i < length gs then bind_res (f i (gs ! i)) (\<lambda>g. for_generated f (Suc i) n (gs[i := g]))
      else Inl (Out_of_bounds ''generated_fec_packets_''))"

definition GenerateFecPayloads :: "bool \<Rightarrow> u8 list list \<Rightarrow> nat \<Rightarrow> fec_codec \<Rightarrow> fec_codec res" where
  "GenerateFecPayloads dchecks media num_fec_packets c =
     RTC_DCHECK dchecks (media \<noteq> []) ''!media_packets.empty()''
       (bind_res (for_generated (generate_payload dchecks c media) 0 num_fec_packets (generated_fec_packets c))
         (\<lambda>gs. Inr (c\<lparr>generated_fec_packets := gs\<rparr>)))"

definition FinalizeFecHeaders :: "bool \<Rightarrow> nat \<Rightarrow> u32 \<Rightarrow> u16 \<Rightarrow> fec_codec \<Rightarrow> fec_codec res" where
  "FinalizeFecHeaders dchecks num_fec_packets media_ssrc seq_num_base c =
     (let w = codec_mask_size c in
      bind_res
        (for_generated (\<lambda>i fec_packet.
           bind_res (mem_load ''packet_masks_'' (int (i * w)) w (codec_masks c)) (\<lambda>row.
             FinalizeFecHeader (fec_header_writer c) dchecks
               [\<lparr>written_ssrc = media_ssrc, written_seq_num_base = seq_num_base, written_mask = row\<rparr>] fec_packet))
           0 num_fec_packets (generated_fec_packets c))
        (\<lambda>gs. Inr (c\<lparr>generated_fec_packets := gs\<rparr>)))"

definition ParseSsrc :: "u8 list \<Rightarrow> u32 res" where
  "ParseSsrc packet =
     (if 11 < length packet
      then Inr (push_bit 24 (ucast (packet ! 8)) + push_bit 16 (ucast (packet ! 9)) +
                push_bit 8 (ucast (packet ! 10)) + ucast (packet ! 11))
      else Inl (Out_of_bounds ''packet''))"

text \<open>\<open>EnsureCapacity\<close>, the \<open>memset\<close> of the whole capacity asked for, and \<open>SetSize(0)\<close>.\<close>

definition prepare_packet :: "CopyOnWriteBuffer \<Rightarrow> CopyOnWriteBuffer res" where
  "prepare_packet g =
     (let g' = EnsureCapacity IP_PACKET_SIZE g in
      if IP_PACKET_SIZE \<le> cow_capacity g' then Inr (SetSize 0 g') else Inl (Out_of_bounds ''data''))"

text \<open>The result is the return value, the list \<open>fec_packets\<close> of positions in \<open>generated_fec_packets_\<close>, and the codec.\<close>

definition codec_EncodeFec ::
  "bool \<Rightarrow> u8 list list \<Rightarrow> u8 \<Rightarrow> nat \<Rightarrow> bool \<Rightarrow> FecMaskType \<Rightarrow> nat list \<Rightarrow> fec_codec \<Rightarrow> (int \<times> nat list \<times> fec_codec) res"
where
  "codec_EncodeFec dchecks media protection_factor num_important_packets use_unequal_protection fec_mask_type fec_packets c =
     (let num_media_packets = length media in
      RTC_DCHECK dchecks (num_media_packets > 0) ''num_media_packets > 0''
       (RTC_DCHECK dchecks (num_important_packets \<le> num_media_packets) ''num_important_packets <= num_media_packets''
        (RTC_DCHECK dchecks (fec_packets = []) ''fec_packets->empty()''
         (if num_media_packets > writer_MaxMediaPackets (fec_header_writer c) then Inr (- 1, fec_packets, c)
          else if \<exists>p \<in> set media. length p < kRtpHeaderSize then Inr (- 1, fec_packets, c)
          else
            bind_res (NumFecPackets dchecks (int num_media_packets) (uint protection_factor)) (\<lambda>n.
              if n = 0 then Inr (0, fec_packets, c)
              else
                let num_fec_packets = nat n in
                bind_res (for_generated (\<lambda>_. prepare_packet) 0 num_fec_packets (generated_fec_packets c)) (\<lambda>gs.
                bind_res (new_PacketMaskTable dchecks fec_mask_type (int num_media_packets)) (\<lambda>mask_table.
                bind_res (PacketMaskSize dchecks num_media_packets) (\<lambda>w.
                bind_res (mem_store ''packet_masks_'' 0 (replicate (num_fec_packets * w) (Some 0)) (codec_masks c)) (\<lambda>masks0.
                bind_res
                  (GeneratePacketMasks_uep dchecks num_media_packets num_fec_packets num_important_packets
                     use_unequal_protection mask_table masks0) (\<lambda>(_, masks1).
                bind_res
                  (InsertZerosInPacketMasks dchecks (writer_MaxMediaPackets (fec_header_writer c)) w media num_fec_packets
                     masks1 (codec_tmp_masks c)) (\<lambda>(num_mask_bits, masks2, tmp2).
                  let c1 = c\<lparr>generated_fec_packets := gs, codec_masks := masks2, codec_tmp_masks := tmp2\<rparr> in
                  if num_mask_bits < 0 then Inr (- 1, [], c1\<lparr>codec_mask_size := w\<rparr>)
                  else
                    bind_res (PacketMaskSize dchecks (nat num_mask_bits)) (\<lambda>w'.
                    bind_res (GenerateFecPayloads dchecks media num_fec_packets (c1\<lparr>codec_mask_size := w'\<rparr>)) (\<lambda>c2.
                    bind_res (ParseSsrc (hd media)) (\<lambda>media_ssrc.
                    bind_res (ParseSequenceNumber (hd media)) (\<lambda>seq_num_base.
                    bind_res (FinalizeFecHeaders dchecks num_fec_packets media_ssrc seq_num_base c2) (\<lambda>c3.
                      Inr (0, fec_packets @ [0..<num_fec_packets], c3)))))))))))))))))"

end
