(* ===== verification/Fec_Decoder.thy ===== *)
theory Fec_Decoder
  imports Fec_Codec
begin

text \<open>
  The decoder half of \<^verbatim>\<open>FEC_Encode/include/modules/rtp_rtcp/source/forward_error_correction.cc\<close>: the ordered lists
  of received media packets (\<open>recovered_packets\<close>, owned by the caller) and of FEC packets, and the recovery loop.
\<close>

section \<open>Ordered packet lists\<close>

definition LessThan :: "'a SortablePacket_scheme \<Rightarrow> 'b SortablePacket_scheme \<Rightarrow> bool" where
  "LessThan first second = IsNewerSequenceNumber (seq_num second) (seq_num first)"

text \<open>
  \<open>std::list::sort\<close> with this order, a stable sort. Every comparison first compares the SSRCs, and the comparisons
  of a sort connect all elements, so that its check holds exactly when all SSRCs agree.
\<close>

fun insert_packet :: "'a SortablePacket_scheme \<Rightarrow> 'a SortablePacket_scheme list \<Rightarrow> 'a SortablePacket_scheme list" where
  "insert_packet x [] = [x]"
| "insert_packet x (y # ys) = (if LessThan y x then y # insert_packet x ys else x # y # ys)"

definition sort_packets :: "bool \<Rightarrow> 'a SortablePacket_scheme list \<Rightarrow> 'a SortablePacket_scheme list res" where
  "sort_packets dchecks xs =
     RTC_DCHECK dchecks (\<forall>x \<in> set xs. ssrc x = ssrc (hd xs)) ''first->ssrc == second->ssrc''
       (Inr (foldr insert_packet xs []))"

text \<open>\<open>absl::c_lower_bound\<close>: the position in \<open>[first, first + len)\<close>, by bisection.\<close>

function lower_bound :: "bool \<Rightarrow> 'a SortablePacket_scheme list \<Rightarrow> 'b SortablePacket_scheme \<Rightarrow> nat \<Rightarrow> nat \<Rightarrow> nat res" where
  "lower_bound dchecks xs packet first len =
     (if len = 0 then Inr first
      else
        let half = len div 2; mid = first + half in
        RTC_DCHECK dchecks (ssrc (xs ! mid) = ssrc packet) ''first->ssrc == second->ssrc''
          (if LessThan (xs ! mid) packet then lower_bound dchecks xs packet (Suc mid) (len - half - 1)
           else lower_bound dchecks xs packet first half))"
  by pat_completeness auto
termination by (relation "measure (\<lambda>(dchecks, xs, packet, first, len). len)") auto

declare lower_bound.simps [simp del]

definition update_covering :: "bool \<Rightarrow> RecoveredPacket \<Rightarrow> ReceivedFecPacket \<Rightarrow> ReceivedFecPacket res" where
  "update_covering dchecks packet fec_packet =
     (let ps = protected_packets fec_packet in
      bind_res (lower_bound dchecks ps packet 0 (length ps)) (\<lambda>i.
        Inr (if i < length ps \<and> seq_num (ps ! i) = seq_num packet
             then fec_packet\<lparr>protected_packets := ps[i := (ps ! i)\<lparr>protected_pkt := Some (recovered_pkt packet)\<rparr>]\<rparr>
             else fec_packet)))"

fun UpdateCoveringFecPackets :: "bool \<Rightarrow> RecoveredPacket \<Rightarrow> ReceivedFecPacket list \<Rightarrow> ReceivedFecPacket list res" where
  "UpdateCoveringFecPackets dchecks packet [] = Inr []"
| "UpdateCoveringFecPackets dchecks packet (f # fs) =
     bind_res (update_covering dchecks packet f) (\<lambda>f'.
     bind_res (UpdateCoveringFecPackets dchecks packet fs) (\<lambda>fs'. Inr (f' # fs')))"

section \<open>Received packets\<close>

text \<open>The search for a duplicate, which checks the SSRC of every element it meets.\<close>

fun find_duplicate :: "bool \<Rightarrow> 'a SortablePacket_scheme list \<Rightarrow> ReceivedPacket \<Rightarrow> bool res" where
  "find_duplicate dchecks [] r = Inr False"
| "find_duplicate dchecks (x # xs) r =
     RTC_DCHECK dchecks (ssrc x = ssrc r) ''existing->ssrc == received_packet.ssrc''
       (if seq_num x = seq_num r then Inr True else find_duplicate dchecks xs r)"

definition InsertMediaPacket ::
  "bool \<Rightarrow> RecoveredPacket list \<Rightarrow> ReceivedPacket \<Rightarrow> fec_codec \<Rightarrow> (RecoveredPacket list \<times> fec_codec) res"
where
  "InsertMediaPacket dchecks recovered_packets r c =
     RTC_DCHECK dchecks (ssrc r = protected_media_ssrc c) ''received_packet.ssrc == protected_media_ssrc_''
       (bind_res (find_duplicate dchecks recovered_packets r) (\<lambda>dup.
         if dup then Inr (recovered_packets, c)
         else
           let packet = \<lparr>ssrc = ssrc r, seq_num = seq_num r, was_recovered = False, returned = True,
                         recovered_pkt = received_pkt r\<rparr>
           in bind_res (sort_packets dchecks (recovered_packets @ [packet])) (\<lambda>recovered'.
              bind_res (UpdateCoveringFecPackets dchecks packet (received_fec_packets c)) (\<lambda>fs.
                Inr (recovered', c\<lparr>received_fec_packets := fs\<rparr>)))))"

text \<open>The protected packets that a mask byte and a whole mask announce.\<close>

definition mask_byte_packets :: "u32 \<Rightarrow> u16 \<Rightarrow> nat \<Rightarrow> u8 \<Rightarrow> ProtectedPacket list" where
  "mask_byte_packets media_ssrc seq_num_base byte_idx packet_mask =
     map (\<lambda>bit_idx. \<lparr>ssrc = media_ssrc, seq_num = seq_num_base + of_nat (push_bit 3 byte_idx) + of_nat bit_idx,
                     protected_pkt = None\<rparr>)
       (filter (\<lambda>bit_idx. bit packet_mask (7 - bit_idx)) [0..<8])"

definition mask_packets :: "u32 \<Rightarrow> u16 \<Rightarrow> u8 list \<Rightarrow> ProtectedPacket list" where
  "mask_packets media_ssrc seq_num_base packet_mask =
     concat (map (\<lambda>byte_idx. mask_byte_packets media_ssrc seq_num_base byte_idx (packet_mask ! byte_idx)) [0..<length packet_mask])"

fun assign_recovered ::
  "bool \<Rightarrow> ProtectedPacket list \<Rightarrow> RecoveredPacket list \<Rightarrow> ProtectedPacket list res"
where
  "assign_recovered dchecks (p # ps) (r # rs) =
     RTC_DCHECK dchecks (ssrc p = ssrc r) ''first->ssrc == second->ssrc''
       (if LessThan p r then bind_res (assign_recovered dchecks ps (r # rs)) (\<lambda>ps'. Inr (p # ps'))
        else if LessThan r p then assign_recovered dchecks (p # ps) rs
        else bind_res (assign_recovered dchecks ps rs) (\<lambda>ps'. Inr (p\<lparr>protected_pkt := Some (recovered_pkt r)\<rparr> # ps')))"
| "assign_recovered dchecks ps rs = Inr ps"

definition AssignRecoveredPackets :: "bool \<Rightarrow> RecoveredPacket list \<Rightarrow> ReceivedFecPacket \<Rightarrow> ReceivedFecPacket res" where
  "AssignRecoveredPackets dchecks recovered_packets fec_packet =
     bind_res (assign_recovered dchecks (protected_packets fec_packet) recovered_packets)
       (\<lambda>ps. Inr (fec_packet\<lparr>protected_packets := ps\<rparr>))"

definition InsertFecPacket :: "bool \<Rightarrow> RecoveredPacket list \<Rightarrow> ReceivedPacket \<Rightarrow> fec_codec \<Rightarrow> fec_codec res" where
  "InsertFecPacket dchecks recovered_packets r c =
     RTC_DCHECK dchecks (ssrc r = codec_ssrc c) ''received_packet.ssrc == ssrc_''
       (bind_res (find_duplicate dchecks (received_fec_packets c) r) (\<lambda>dup.
         if dup then Inr c
         else
           bind_res
             (ReadFecHeader (fec_header_reader c) dchecks
                \<lparr>ssrc = ssrc r, seq_num = seq_num r, protected_packets = [], protected_streams = [],
                 fec_header_size = 0, protection_length = 0, fec_pkt = received_pkt r\<rparr>)
             (\<lambda>ret. case ret of
                 None \<Rightarrow> Inr c
               | Some f \<Rightarrow>
                   RTC_CHECK (length (protected_streams f) = 1) ''fec_packet->protected_streams.size() == 1''
                     (let stream = hd (protected_streams f) in
                      if stream_ssrc stream \<noteq> protected_media_ssrc c then Inr c
                      else if stream_mask_offset stream + stream_mask_size stream > buffer_size (fec_pkt f) then Inr c
                      else
                        bind_res
                          (mem_read ''data'' (int (stream_mask_offset stream)) (stream_mask_size stream) (cow_data (fec_pkt f)))
                          (\<lambda>packet_mask.
                            let ps = mask_packets (protected_media_ssrc c) (stream_seq_num_base stream) packet_mask in
                            if ps = [] then Inr c
                            else
                              bind_res (AssignRecoveredPackets dchecks recovered_packets (f\<lparr>protected_packets := ps\<rparr>)) (\<lambda>f'.
                              bind_res (sort_packets dchecks (received_fec_packets c @ [f'])) (\<lambda>fs.
                                let max_fec_packets = reader_MaxFecPackets (fec_header_reader c);
                                    fs' = (if length fs > max_fec_packets then tl fs else fs)
                                in RTC_DCHECK dchecks (length fs' \<le> max_fec_packets) ''received_fec_packets_.size() <= max_fec_packets''
                                     (Inr (c\<lparr>received_fec_packets := fs'\<rparr>)))))))))"

definition DiscardOldRecoveredPackets :: "fec_codec \<Rightarrow> RecoveredPacket list \<Rightarrow> RecoveredPacket list" where
  "DiscardOldRecoveredPackets c recovered_packets =
     drop (length recovered_packets - reader_MaxMediaPackets (fec_header_reader c)) recovered_packets"

definition InsertPacket ::
  "bool \<Rightarrow> ReceivedPacket \<Rightarrow> RecoveredPacket list \<Rightarrow> fec_codec \<Rightarrow> (RecoveredPacket list \<times> fec_codec) res"
where
  "InsertPacket dchecks r recovered_packets c =
     (let fs = received_fec_packets c;
          c1 = (if fs \<noteq> [] \<and> ssrc r = ssrc (hd fs)
                then c\<lparr>received_fec_packets := dropWhile (\<lambda>f. MinDiff (seq_num r) (seq_num f) > kOldSequenceThreshold) fs\<rparr>
                else c)
      in bind_res
           (if is_fec r then bind_res (InsertFecPacket dchecks recovered_packets r c1) (\<lambda>c2. Inr (recovered_packets, c2))
            else InsertMediaPacket dchecks recovered_packets r c1)
           (\<lambda>(recovered', c'). Inr (DiscardOldRecoveredPackets c' recovered', c')))"

section \<open>Recovery\<close>

text \<open>\<open>None\<close> stands for \<open>false\<close>; otherwise the packet under recovery.\<close>

definition StartPacketRecovery :: "ReceivedFecPacket \<Rightarrow> CopyOnWriteBuffer option res" where
  "StartPacketRecovery f =
     (let data = cow_data (fec_pkt f) in
      if length data < fec_header_size f + protection_length f then Inr None
      else if protection_length f > min (IP_PACKET_SIZE - kRtpHeaderSize) (size_t (int IP_PACKET_SIZE - int (fec_header_size f)))
      then Inr None
      else
        let pkt = SetSize (protection_length f + kRtpHeaderSize) (EnsureCapacity IP_PACKET_SIZE empty_buffer) in
        bind_res (mem_load ''data'' 0 kRtpHeaderSize data) (\<lambda>header.
        bind_res (change_data (mem_store ''data'' 0 header) pkt) (\<lambda>pkt1.
        bind_res
          (if protection_length f > 0 then
             bind_res (mem_load ''data'' (int (fec_header_size f)) (protection_length f) data) (\<lambda>payload.
               change_data (mem_store ''data'' (int kRtpHeaderSize) payload) pkt1)
           else Inr pkt1)
          (\<lambda>pkt2. Inr (Some pkt2)))))"

definition FinishPacketRecovery :: "u16 \<Rightarrow> u32 \<Rightarrow> CopyOnWriteBuffer \<Rightarrow> CopyOnWriteBuffer option res" where
  "FinishPacketRecovery sn media_ssrc pkt =
     bind_res (change_data (modify_byte 0 (\<lambda>b. b OR 0x80)) pkt) (\<lambda>p1.
     bind_res (change_data (modify_byte 0 (\<lambda>b. b AND 0xbf)) p1) (\<lambda>p2.
     bind_res (mem_read ''data'' 2 2 (cow_data p2)) (\<lambda>len.
       let new_size = unat (ReadBigEndian len :: u16) + kRtpHeaderSize; old_size = buffer_size p2 in
       if new_size > IP_PACKET_SIZE - kRtpHeaderSize then Inr None
       else
         bind_res (if new_size > old_size then grow_zeroed new_size p2 else Inr (SetSize new_size p2)) (\<lambda>p3.
         bind_res (change_data (mem_store ''data'' 2 (mem_of (WriteBigEndian 2 sn))) p3) (\<lambda>p4.
         bind_res (change_data (mem_store ''data'' 8 (mem_of (WriteBigEndian 4 media_ssrc))) p4) (\<lambda>p5.
           Inr (Some p5)))))))"

text \<open>The loop over the protected packets; the sequence number and SSRC of a missing one are those of the result.\<close>

fun recover_loop ::
  "bool \<Rightarrow> ProtectedPacket list \<Rightarrow> (u16 \<times> u32) option \<times> CopyOnWriteBuffer \<Rightarrow> ((u16 \<times> u32) option \<times> CopyOnWriteBuffer) res"
where
  "recover_loop dchecks [] (found, pkt) = Inr (found, pkt)"
| "recover_loop dchecks (p # ps) (found, pkt) =
     (case protected_pkt p of
        None \<Rightarrow> recover_loop dchecks ps (Some (seq_num p, ssrc p), pkt)
      | Some b \<Rightarrow>
          bind_res (codec_XorHeaders (cow_data b) pkt) (\<lambda>pkt1.
          bind_res (codec_XorPayloads dchecks (cow_data b) (size_t (int (buffer_size b) - int kRtpHeaderSize)) kRtpHeaderSize pkt1)
            (\<lambda>pkt2. recover_loop dchecks ps (found, pkt2))))"

definition RecoverPacket :: "bool \<Rightarrow> ReceivedFecPacket \<Rightarrow> RecoveredPacket option res" where
  "RecoverPacket dchecks f =
     bind_res (StartPacketRecovery f) (\<lambda>started. case started of
         None \<Rightarrow> Inr None
       | Some pkt \<Rightarrow>
           bind_res (recover_loop dchecks (protected_packets f) (None, pkt)) (\<lambda>(found, pkt'). case found of
               None \<Rightarrow> Inl (Indeterminate ''recovered_packet->seq_num'')
             | Some (sn, s) \<Rightarrow>
                 bind_res (FinishPacketRecovery sn s pkt') (\<lambda>finished. case finished of
                     None \<Rightarrow> Inr None
                   | Some b \<Rightarrow> Inr (Some \<lparr>ssrc = s, seq_num = sn, was_recovered = True, returned = False, recovered_pkt = b\<rparr>))))"

fun count_missing :: "nat \<Rightarrow> ProtectedPacket list \<Rightarrow> nat" where
  "count_missing packets_missing [] = packets_missing"
| "count_missing packets_missing (p # ps) =
     (if protected_pkt p = None then (if Suc packets_missing > 1 then Suc packets_missing else count_missing (Suc packets_missing) ps)
      else count_missing packets_missing ps)"

definition NumCoveredPacketsMissing :: "ReceivedFecPacket \<Rightarrow> nat" where
  "NumCoveredPacketsMissing f = count_missing 0 (protected_packets f)"

definition IsOldFecPacket :: "ReceivedFecPacket \<Rightarrow> RecoveredPacket list \<Rightarrow> bool res" where
  "IsOldFecPacket f recovered_packets =
     (if recovered_packets = [] then Inr False
      else if protected_packets f = [] then Inl (Out_of_bounds ''protected_packets'')
      else Inr (MinDiff (seq_num (last recovered_packets)) (seq_num (last (protected_packets f))) > kOldSequenceThreshold))"

lemma UpdateCovering_length:
  "UpdateCoveringFecPackets dchecks packet fs = Inr fs' \<Longrightarrow> length fs' = length fs"
  by (induction fs arbitrary: fs') (auto simp: bind_res_Inr_iff)

text \<open>
  \<open>AttemptRecovery\<close> with its iterator between the packets it has passed and those to come; the counter is the number
  of packets recovered so far.
\<close>

function attempt_loop ::
  "bool \<Rightarrow> fec_codec \<Rightarrow> ReceivedFecPacket list \<Rightarrow> ReceivedFecPacket list \<Rightarrow> RecoveredPacket list \<Rightarrow> nat \<Rightarrow>
   (nat \<times> RecoveredPacket list \<times> ReceivedFecPacket list) res"
where
  "attempt_loop dchecks c passed [] recovered_packets num = Inr (num, recovered_packets, passed)"
| "attempt_loop dchecks c passed (f # fs) recovered_packets num =
     (if NumCoveredPacketsMissing f = 1 then
        bind_res (RecoverPacket dchecks f) (\<lambda>result. case result of
            None \<Rightarrow> attempt_loop dchecks c passed fs recovered_packets num
          | Some packet \<Rightarrow>
              bind_res (sort_packets dchecks (recovered_packets @ [packet])) (\<lambda>recovered'.
              bind_res (UpdateCoveringFecPackets dchecks packet (passed @ f # fs)) (\<lambda>all.
                attempt_loop dchecks c [] (take (length passed) all @ drop (Suc (length passed)) all)
                  (DiscardOldRecoveredPackets c recovered') (Suc num))))
      else
        bind_res (if NumCoveredPacketsMissing f = 0 then Inr True else IsOldFecPacket f recovered_packets) (\<lambda>drop_it.
          if drop_it then attempt_loop dchecks c passed fs recovered_packets num
          else attempt_loop dchecks c (passed @ [f]) fs recovered_packets num))"
  by pat_completeness auto
termination
  by (relation "measures [\<lambda>(dchecks, c, passed, fs, rs, n). length passed + length fs, \<lambda>(dchecks, c, passed, fs, rs, n). length fs]")
    (auto dest!: UpdateCovering_length)

definition AttemptRecovery :: "bool \<Rightarrow> RecoveredPacket list \<Rightarrow> fec_codec \<Rightarrow> (nat \<times> RecoveredPacket list \<times> fec_codec) res" where
  "AttemptRecovery dchecks recovered_packets c =
     bind_res (attempt_loop dchecks c [] (received_fec_packets c) recovered_packets 0) (\<lambda>(num, recovered', fs).
       Inr (num, recovered', c\<lparr>received_fec_packets := fs\<rparr>))"

section \<open>Decoding\<close>

definition ResetState :: "fec_codec \<Rightarrow> RecoveredPacket list \<times> fec_codec" where
  "ResetState c = ([], c\<lparr>received_fec_packets := []\<rparr>)"

definition DecodeFec :: "bool \<Rightarrow> ReceivedPacket \<Rightarrow> RecoveredPacket list \<Rightarrow> fec_codec \<Rightarrow> (nat \<times> RecoveredPacket list \<times> fec_codec) res" where
  "DecodeFec dchecks r recovered_packets c =
     (let max_media_packets = reader_MaxMediaPackets (fec_header_reader c);
          gap = (length recovered_packets = max_media_packets \<and> recovered_packets \<noteq> [] \<and>
                 ssrc r = ssrc (last recovered_packets) \<and>
                 unat (MinDiff (seq_num r) (seq_num (last recovered_packets))) > max_media_packets);
          (recovered1, c1) = (if gap then ResetState c else (recovered_packets, c))
      in bind_res (InsertPacket dchecks r recovered1 c1) (\<lambda>(recovered2, c2). AttemptRecovery dchecks recovered2 c2))"

end
