(* ===== verification/Codec_Xor.thy ===== *)
theory Codec_Xor
  imports Fec_Decoder
begin

text \<open>
  The XOR of packets in the WebRTC codec (\<open>XorHeaders\<close>, \<open>XorPayloads\<close>), stated byte by byte: what a packet contributes
  to another one, and the XOR of several contributions.
\<close>

section \<open>Images\<close>

text \<open>
  What a media packet contributes to a FEC packet with \<open>hs\<close> header bytes: its first two bytes, its payload length, its
  time stamp, and its payload behind the header; zero elsewhere.
\<close>

definition fec_image :: "nat \<Rightarrow> u8 list \<Rightarrow> nat \<Rightarrow> u8" where
  "fec_image hs p i =
     (if i < 2 then p ! i
      else if i < 4 then WriteBigEndian 2 (of_nat (length p - 12) :: u16) ! (i - 2)
      else if i < 8 then p ! i
      else if i < hs then 0
      else if 12 + (i - hs) < length p then p ! (12 + (i - hs)) else 0)"

definition xors :: "nat \<Rightarrow> u8 list list \<Rightarrow> nat \<Rightarrow> u8" where
  "xors hs ps i = foldr (\<lambda>p a. fec_image hs p i XOR a) ps 0"

lemma xors_simps [simp]: "xors hs [] i = 0" "xors hs (p # ps) i = fec_image hs p i XOR xors hs ps i"
  by (simp_all add: xors_def)

lemma xors_append: "xors hs (ps @ qs) i = xors hs ps i XOR xors hs qs i"
  by (induction ps) (auto simp: xor.assoc)

text \<open>A list read beyond its end is zero.\<close>

definition at0 :: "u8 list \<Rightarrow> nat \<Rightarrow> u8" where
  "at0 bytes i = (if i < length bytes then bytes ! i else 0)"

section \<open>One packet\<close>

lemma grow_zeroed_eq:
  assumes "length bytes \<le> n"
  shows "grow_zeroed n \<lparr>cow_data = mem_of bytes, cow_capacity = c\<rparr> =
    Inr \<lparr>cow_data = mem_of (bytes @ replicate (n - length bytes) 0), cow_capacity = (if length bytes < n then max c n else c)\<rparr>"
  using assms
  by (auto simp: grow_zeroed_def change_data_def SetSize_def mem_store_nat mem_of_def)

lemma xor_byte_eq: "i < length bytes \<Longrightarrow> xor_byte i v (mem_of bytes) = Inr (mem_of (bytes[i := bytes ! i XOR v]))"
  by (simp add: xor_byte_def modify_byte_eq)

lemma XorHeaders_eq:
  assumes "12 \<le> length p" "8 \<le> length bytes"
  shows "\<exists>bytes'. codec_XorHeaders (mem_of p) \<lparr>cow_data = mem_of bytes, cow_capacity = c\<rparr> =
      Inr \<lparr>cow_data = mem_of bytes', cow_capacity = c\<rparr> \<and> length bytes' = length bytes \<and>
    (\<forall>i < length bytes. bytes' ! i = (if i < 8 then bytes ! i XOR fec_image hs p i else bytes ! i))"
proof -
  let ?len = "WriteBigEndian 2 (of_nat (length p - 12) :: u16)"
  have r: "mem_read w 0 2 (mem_of p) = Inr [p ! 0, p ! 1]" "mem_read w 4 4 (mem_of p) = Inr [p ! 4, p ! 5, p ! 6, p ! 7]" for w
    using assms(1) by (simp_all add: read_bytes upt_rec [of 0 2] upt_rec [of 0 4] upt_rec [of 1 4] upt_rec numeral_eq_Suc)
  have l: "word_of_int (int (length p) - int kRtpHeaderSize) = (of_nat (length p - 12) :: u16)"
    using assms(1) by (simp add: kRtpHeaderSize_def of_nat_diff)
  define bytes' where "bytes' = bytes[0 := bytes ! 0 XOR p ! 0, 1 := bytes ! 1 XOR p ! 1,
     2 := bytes ! 2 XOR ?len ! 0, 3 := bytes ! 3 XOR ?len ! 1, 4 := bytes ! 4 XOR p ! 4, 5 := bytes ! 5 XOR p ! 5,
     6 := bytes ! 6 XOR p ! 6, 7 := bytes ! 7 XOR p ! 7]"
  have ne: "bytes \<noteq> []" using assms(2) by auto
  have "codec_XorHeaders (mem_of p) \<lparr>cow_data = mem_of bytes, cow_capacity = c\<rparr> =
      Inr \<lparr>cow_data = mem_of bytes', cow_capacity = c\<rparr>"
    unfolding codec_XorHeaders_def r l length_mem_of bind_res.simps Let_def change_data_def bytes'_def
    using assms(2) ne by (simp add: xor_byte_eq)
  moreover have "bytes' ! i = (if i < 8 then bytes ! i XOR fec_image hs p i else bytes ! i)" if "i < length bytes" for i
  proof (cases "i < 8")
    case True
    then have "i \<in> {0, 1, 2, 3, 4, 5, 6, 7}" by auto
    then show ?thesis using that assms(2) unfolding bytes'_def fec_image_def by (auto simp: nth_list_update)
  qed (simp add: bytes'_def)
  ultimately show ?thesis by (intro exI [of _ bytes']) (simp add: bytes'_def)
qed

lemma codec_xor_loop_eq:
  assumes "12 + n = length p" "off + n \<le> length bytes" "i \<le> n"
  shows "\<exists>bytes'. codec_xor_loop (mem_of p) n off i (mem_of bytes) = Inr (mem_of bytes') \<and> length bytes' = length bytes \<and>
    (\<forall>k < length bytes. bytes' ! k = (if off + i \<le> k \<and> k < off + n then bytes ! k XOR p ! (12 + (k - off)) else bytes ! k))"
  using assms(2,3)
proof (induction "n - i" arbitrary: i bytes)
  case 0
  then show ?case by (intro exI [of _ bytes]) (subst codec_xor_loop.simps, auto)
next
  case (Suc m)
  then have i: "i < n" by simp
  let ?b1 = "bytes[off + i := bytes ! (off + i) XOR p ! (12 + i)]"
  have r: "mem_read w (int (kRtpHeaderSize + i)) 1 (mem_of p) = Inr [p ! (12 + i)]" for w
    using i assms(1) by (simp add: read_bytes kRtpHeaderSize_def nat_add_distrib)
  have x: "xor_byte (off + i) (p ! (12 + i)) (mem_of bytes) = Inr (mem_of ?b1)"
    using i Suc.prems by (intro xor_byte_eq) simp
  have "m = n - Suc i" "off + n \<le> length ?b1" "Suc i \<le> n" using Suc.hyps(2) Suc.prems i by simp_all
  from Suc.hyps(1) [OF this] obtain b2 where
    b2: "codec_xor_loop (mem_of p) n off (Suc i) (mem_of ?b1) = Inr (mem_of b2)" "length b2 = length bytes"
      "\<forall>k < length bytes. b2 ! k = (if off + Suc i \<le> k \<and> k < off + n then ?b1 ! k XOR p ! (12 + (k - off)) else ?b1 ! k)"
    by auto
  have "codec_xor_loop (mem_of p) n off i (mem_of bytes) = Inr (mem_of b2)"
    using i b2(1) x by (subst codec_xor_loop.simps) (simp add: r [unfolded One_nat_def] del: of_nat_add)
  moreover have "b2 ! k = (if off + i \<le> k \<and> k < off + n then bytes ! k XOR p ! (12 + (k - off)) else bytes ! k)"
    if "k < length bytes" for k
    using b2(3) that i by (cases "k = off + i") (auto simp: nth_list_update)
  ultimately show ?case using b2(2) by blast
qed

text \<open>The bytes after a packet has been combined into a FEC packet or a packet under recovery.\<close>

definition combined :: "nat \<Rightarrow> u8 list \<Rightarrow> u8 list \<Rightarrow> u8 list \<Rightarrow> bool" where
  "combined hs p bytes bytes' \<longleftrightarrow> length bytes' = max (length bytes) (hs + length p - 12) \<and>
     (\<forall>i < length bytes'. i < 8 \<or> hs \<le> i \<longrightarrow> bytes' ! i = at0 bytes i XOR fec_image hs p i)"

lemma XorPacket_eq:
  assumes p: "12 \<le> length p" "length p < 2 ^ 32" and hs: "8 \<le> hs" "hs \<le> length bytes" "hs < 2 ^ 32"
    and cap: "dchecks \<Longrightarrow> hs + length p - 12 \<le> c"
  shows "\<exists>bytes' c'. bind_res (codec_XorHeaders (mem_of p) \<lparr>cow_data = mem_of bytes, cow_capacity = c\<rparr>)
      (codec_XorPayloads dchecks (mem_of p) (length p - 12) hs) = Inr \<lparr>cow_data = mem_of bytes', cow_capacity = c'\<rparr> \<and>
    c \<le> c' \<and> (hs + length p - 12 \<le> c \<longrightarrow> c' = c) \<and> combined hs p bytes bytes'"
proof -
  let ?n = "length p - 12"
  from XorHeaders_eq [of p bytes c hs] p hs obtain b1 where
    b1: "codec_XorHeaders (mem_of p) \<lparr>cow_data = mem_of bytes, cow_capacity = c\<rparr> = Inr \<lparr>cow_data = mem_of b1, cow_capacity = c\<rparr>"
      "length b1 = length bytes" "\<forall>i < length bytes. b1 ! i = (if i < 8 then bytes ! i XOR fec_image hs p i else bytes ! i)"
    by auto
  have sz: "size_t (int kRtpHeaderSize + int ?n) = length p" "size_t (int hs + int ?n) = hs + ?n"
    using p hs by (simp_all add: size_t_small kRtpHeaderSize_def nat_add_distrib)
  define b2 where "b2 = b1 @ replicate (hs + ?n - length b1) 0"
  define c' where "c' = (if length b1 < hs + ?n then max c (hs + ?n) else c)"
  have grow: "(if hs + ?n > buffer_size \<lparr>cow_data = mem_of b1, cow_capacity = c\<rparr>
      then grow_zeroed (hs + ?n) \<lparr>cow_data = mem_of b1, cow_capacity = c\<rparr> else Inr \<lparr>cow_data = mem_of b1, cow_capacity = c\<rparr>) =
      Inr \<lparr>cow_data = mem_of b2, cow_capacity = c'\<rparr>"
    unfolding b2_def c'_def by (auto simp: grow_zeroed_eq)
  have l2: "length b2 = max (length bytes) (hs + ?n)" using b1(2) by (simp add: b2_def)
  have "12 + ?n = length p" "hs + ?n \<le> length b2" "0 \<le> ?n" using p l2 by simp_all
  from codec_xor_loop_eq [OF this] obtain b3 where
    b3: "codec_xor_loop (mem_of p) ?n hs 0 (mem_of b2) = Inr (mem_of b3)" "length b3 = length b2"
      "\<forall>k < length b2. b3 ! k = (if hs + 0 \<le> k \<and> k < hs + ?n then b2 ! k XOR p ! (12 + (k - hs)) else b2 ! k)" by auto
  have "codec_XorPayloads dchecks (mem_of p) ?n hs \<lparr>cow_data = mem_of b1, cow_capacity = c\<rparr> =
      Inr \<lparr>cow_data = mem_of b3, cow_capacity = c'\<rparr>"
    unfolding codec_XorPayloads_def sz grow bind_res.simps change_data_def
    using cap p(1) b3(1) by (cases dchecks) simp_all
  moreover have "combined hs p bytes b3"
  proof -
    have "b3 ! i = at0 bytes i XOR fec_image hs p i" if i: "i < length b3" "i < 8 \<or> hs \<le> i" for i
    proof -
      have "b2 ! i = (if i < 8 then bytes ! i XOR fec_image hs p i else at0 bytes i)"
        using i b1 hs b3(2) l2 by (auto simp: b2_def nth_append at0_def)
      moreover have "b3 ! i = (if hs \<le> i \<and> i < hs + ?n then b2 ! i XOR p ! (12 + (i - hs)) else b2 ! i)" using b3 i by simp
      moreover have "hs \<le> i \<Longrightarrow> fec_image hs p i = (if i < hs + ?n then p ! (12 + (i - hs)) else 0)"
        using hs(1) by (auto simp: fec_image_def)
      ultimately show ?thesis using i(2) hs by (auto simp: at0_def)
    qed
    then show ?thesis using b3(2) l2 p by (simp add: combined_def)
  qed
  moreover have "c \<le> c'" "hs + length p - 12 \<le> c \<longrightarrow> c' = c" using p by (auto simp: c'_def)
  ultimately show ?thesis using b1(1) by auto
qed

end
