(* ===== verification/Codec_Recover.thy ===== *)
theory Codec_Recover
  imports Codec_Xor
begin

text \<open>
  Recovery of one packet (\<open>StartPacketRecovery\<close>, the loop of \<open>RecoverPacket\<close>, \<open>FinishPacketRecovery\<close>): from a FEC packet
  and all but one of the media packets it covers, the decoder rebuilds the missing one byte by byte.
\<close>

section \<open>The loop over the protected packets\<close>

lemma recover_loop_append:
  "recover_loop dchecks (xs @ ys) st = bind_res (recover_loop dchecks xs st) (recover_loop dchecks ys)"
proof (induction xs arbitrary: st)
  case Nil
  then show ?case by (cases st) simp
next
  case (Cons x xs)
  then show ?case by (cases st) (auto simp: bind_res_assoc Cons.IH split: option.split)
qed

text \<open>A protected packet that has arrived.\<close>

definition has_packet :: "ProtectedPacket \<Rightarrow> u8 list \<Rightarrow> bool" where
  "has_packet pp p \<longleftrightarrow> (\<exists>b. protected_pkt pp = Some b \<and> cow_data b = mem_of p) \<and> 12 \<le> length p \<and> length p \<le> 1500"

lemma fec_image_beyond: "8 \<le> i \<Longrightarrow> 12 \<le> i \<Longrightarrow> length p \<le> i \<Longrightarrow> fec_image 12 p i = 0"
  by (simp add: fec_image_def)

lemma recover_loop_present:
  assumes "list_all2 has_packet pps ps" "12 \<le> length bytes" "length bytes \<le> 1500"
  shows "\<exists>bytes'. recover_loop dchecks pps (found, \<lparr>cow_data = mem_of bytes, cow_capacity = 1500\<rparr>) =
      Inr (found, \<lparr>cow_data = mem_of bytes', cow_capacity = 1500\<rparr>) \<and> length bytes \<le> length bytes' \<and> length bytes' \<le> 1500 \<and>
    ((\<forall>p \<in> set ps. length p \<le> length bytes) \<longrightarrow> length bytes' = length bytes) \<and>
    (\<forall>i < length bytes'. i < 8 \<or> 12 \<le> i \<longrightarrow> bytes' ! i = at0 bytes i XOR xors 12 ps i)"
  using assms
proof (induction arbitrary: bytes rule: list_all2_induct)
  case Nil
  then show ?case by (auto simp: at0_def)
next
  case (Cons pp pps p ps)
  from Cons.hyps(1) obtain b where b: "protected_pkt pp = Some b" "cow_data b = mem_of p" "12 \<le> length p" "length p \<le> 1500"
    by (auto simp: has_packet_def)
  have n: "size_t (int (buffer_size b) - int kRtpHeaderSize) = length p - 12"
    using b by (simp add: size_t_small kRtpHeaderSize_def nat_diff_distrib')
  have "dchecks \<Longrightarrow> 12 + length p - 12 \<le> 1500" "length p < 2 ^ 32" using b(4) by simp_all
  from XorPacket_eq [OF b(3) this(2) _ Cons.prems(1) _ this(1)] b(4) obtain b1 where
    b1: "bind_res (codec_XorHeaders (mem_of p) \<lparr>cow_data = mem_of bytes, cow_capacity = 1500\<rparr>)
        (codec_XorPayloads dchecks (mem_of p) (length p - 12) 12) = Inr \<lparr>cow_data = mem_of b1, cow_capacity = 1500\<rparr>"
      "combined 12 p bytes b1"
    by auto
  then have len1: "length b1 = max (length bytes) (length p)" by (simp add: combined_def)
  then have "12 \<le> length b1" "length b1 \<le> 1500" using Cons.prems b(4) by auto
  from Cons.IH [OF this] obtain b2 where
    b2: "recover_loop dchecks pps (found, \<lparr>cow_data = mem_of b1, cow_capacity = 1500\<rparr>) =
        Inr (found, \<lparr>cow_data = mem_of b2, cow_capacity = 1500\<rparr>)" "length b1 \<le> length b2" "length b2 \<le> 1500"
      "(\<forall>p \<in> set ps. length p \<le> length b1) \<longrightarrow> length b2 = length b1"
      "\<forall>i < length b2. i < 8 \<or> 12 \<le> i \<longrightarrow> b2 ! i = at0 b1 i XOR xors 12 ps i" by auto
  have "recover_loop dchecks (pp # pps) (found, \<lparr>cow_data = mem_of bytes, cow_capacity = 1500\<rparr>) =
      bind_res (bind_res (codec_XorHeaders (mem_of p) \<lparr>cow_data = mem_of bytes, cow_capacity = 1500\<rparr>)
        (codec_XorPayloads dchecks (mem_of p) (length p - 12) 12)) (\<lambda>pkt2. recover_loop dchecks pps (found, pkt2))"
    using b n by (simp add: bind_res_assoc kRtpHeaderSize_def)
  then have "recover_loop dchecks (pp # pps) (found, \<lparr>cow_data = mem_of bytes, cow_capacity = 1500\<rparr>) =
      Inr (found, \<lparr>cow_data = mem_of b2, cow_capacity = 1500\<rparr>)" unfolding b1(1) using b2(1) by simp
  moreover have "b2 ! i = at0 bytes i XOR xors 12 (p # ps) i" if i: "i < length b2" "i < 8 \<or> 12 \<le> i" for i
  proof -
    have "at0 b1 i = at0 bytes i XOR fec_image 12 p i"
    proof (cases "i < length b1")
      case True
      then show ?thesis using b1(2) i(2) by (auto simp: combined_def at0_def)
    next
      case False
      then show ?thesis using len1 i(2) Cons.prems by (auto simp: at0_def fec_image_beyond)
    qed
    then show ?thesis using b2(5) i by (auto simp: xor.assoc)
  qed
  ultimately show ?case using b2(2,3,4) len1 by auto
qed

section \<open>Start and finish\<close>

lemma StartPacketRecovery_eq:
  assumes f: "cow_data (fec_pkt f) = mem_of data" and hs: "12 \<le> fec_header_size f" "fec_header_size f \<le> 1488"
    and len: "fec_header_size f + protection_length f \<le> length data" "protection_length f \<le> 1500 - fec_header_size f"
  shows "StartPacketRecovery f = Inr (Some \<lparr>cow_data = mem_of (take 12 data @ take (protection_length f) (drop (fec_header_size f) data)),
      cow_capacity = 1500\<rparr>)"
proof -
  let ?n = "protection_length f" and ?hs = "fec_header_size f"
  have sz: "size_t (int IP_PACKET_SIZE - int ?hs) = 1500 - ?hs"
    using hs by (simp add: size_t_small IP_PACKET_SIZE_def nat_diff_distrib')
  have pkt: "SetSize (?n + kRtpHeaderSize) (EnsureCapacity IP_PACKET_SIZE empty_buffer) =
      \<lparr>cow_data = replicate (?n + 12) None, cow_capacity = 1500\<rparr>"
    using len hs by (simp add: SetSize_def EnsureCapacity_def empty_buffer_def codec_constants)
  have h: "mem_load w 0 kRtpHeaderSize (mem_of data) = Inr (mem_of (take 12 data))" for w
    using hs len by (simp add: mem_load_ok kRtpHeaderSize_def)
  have st: "change_data (mem_store w 0 (mem_of (take 12 data))) \<lparr>cow_data = replicate (?n + 12) None, cow_capacity = 1500\<rparr> =
      Inr \<lparr>cow_data = mem_of (take 12 data) @ replicate ?n None, cow_capacity = 1500\<rparr>" for w
    using hs len by (simp add: change_data_def mem_store_ok)
  have pl: "mem_load w (int ?hs) ?n (mem_of data) = Inr (mem_of (take ?n (drop ?hs data)))" for w
    using len by (simp add: mem_load_nat)
  have st2: "change_data (mem_store w (int kRtpHeaderSize) (mem_of (take ?n (drop ?hs data))))
      \<lparr>cow_data = mem_of (take 12 data) @ replicate ?n None, cow_capacity = 1500\<rparr> =
      Inr \<lparr>cow_data = mem_of (take 12 data @ take ?n (drop ?hs data)), cow_capacity = 1500\<rparr>" for w
    using hs len by (simp add: change_data_def mem_store_ok kRtpHeaderSize_def)
  have c: "(length (mem_of data) < ?hs + ?n) = False" "(min (IP_PACKET_SIZE - kRtpHeaderSize) (1500 - ?hs) < ?n) = False"
    using len hs by (auto simp: codec_constants)
  show ?thesis
    unfolding StartPacketRecovery_def Let_def f sz c if_False pkt h bind_res.simps st pl st2
    by (cases "?n = 0") simp_all
qed

text \<open>The result of a recovery: the two top bits of the first byte, the length, the sequence number and the SSRC are set.\<close>

definition finished :: "u16 \<Rightarrow> u32 \<Rightarrow> u8 list \<Rightarrow> u8 list" where
  "finished sn s bytes =
     (let n = unat (ReadBigEndian [bytes ! 2, bytes ! 3] :: u16) + 12;
          b = bytes[0 := (bytes ! 0 OR 0x80) AND 0xbf]
      in overwrite 8 (WriteBigEndian 4 s) (overwrite 2 (WriteBigEndian 2 sn) (take n b @ replicate (n - length b) 0)))"

lemma FinishPacketRecovery_eq:
  assumes "12 \<le> length bytes"
  shows "\<exists>c'. FinishPacketRecovery sn s \<lparr>cow_data = mem_of bytes, cow_capacity = c\<rparr> =
    Inr (if unat (ReadBigEndian [bytes ! 2, bytes ! 3] :: u16) + 12 > 1488 then None
         else Some \<lparr>cow_data = mem_of (finished sn s bytes), cow_capacity = c'\<rparr>) \<and> (1488 \<le> c \<longrightarrow> c' = c)"
proof -
  let ?n = "unat (ReadBigEndian [bytes ! 2, bytes ! 3] :: u16) + 12"
  define b where "b = bytes[0 := (bytes ! 0 OR 0x80) AND 0xbf]"
  have ne: "bytes \<noteq> []" and lb: "length b = length bytes" using assms by (auto simp: b_def)
  have m: "change_data (modify_byte 0 (\<lambda>b. b OR 0x80)) \<lparr>cow_data = mem_of bytes, cow_capacity = c\<rparr> =
        Inr \<lparr>cow_data = mem_of (bytes[0 := bytes ! 0 OR 0x80]), cow_capacity = c\<rparr>"
      "change_data (modify_byte 0 (\<lambda>b. b AND 0xbf)) \<lparr>cow_data = mem_of (bytes[0 := bytes ! 0 OR 0x80]), cow_capacity = c\<rparr> =
        Inr \<lparr>cow_data = mem_of b, cow_capacity = c\<rparr>"
    using ne by (simp_all add: change_data_def modify_byte_eq b_def)
  have r: "mem_read w 2 2 (mem_of b) = Inr [bytes ! 2, bytes ! 3]" for w
    using assms by (simp add: read_bytes b_def upt_rec numeral_2_eq_2 numeral_3_eq_3)
  define b3 where "b3 = take ?n b @ replicate (?n - length b) 0"
  define c' where "c' = (if length b < ?n then max c ?n else c)"
  have g: "(if ?n > length b then grow_zeroed ?n \<lparr>cow_data = mem_of b, cow_capacity = c\<rparr>
      else Inr (SetSize ?n \<lparr>cow_data = mem_of b, cow_capacity = c\<rparr>)) = Inr \<lparr>cow_data = mem_of b3, cow_capacity = c'\<rparr>"
    by (auto simp: grow_zeroed_eq SetSize_def b3_def c'_def)
  have l3: "length b3 = ?n" by (simp add: b3_def)
  have s: "change_data (mem_store w 2 (mem_of (WriteBigEndian 2 sn))) \<lparr>cow_data = mem_of b3, cow_capacity = c'\<rparr> =
        Inr \<lparr>cow_data = mem_of (overwrite 2 (WriteBigEndian 2 sn) b3), cow_capacity = c'\<rparr>"
      "change_data (mem_store w 8 (mem_of (WriteBigEndian 4 s))) \<lparr>cow_data = mem_of (overwrite 2 (WriteBigEndian 2 sn) b3), cow_capacity = c'\<rparr> =
        Inr \<lparr>cow_data = mem_of (overwrite 8 (WriteBigEndian 4 s) (overwrite 2 (WriteBigEndian 2 sn) b3)), cow_capacity = c'\<rparr>" for w
    using l3 by (simp_all add: change_data_def store_bytes)
  have "FinishPacketRecovery sn s \<lparr>cow_data = mem_of bytes, cow_capacity = c\<rparr> =
    Inr (if ?n > 1488 then None else Some \<lparr>cow_data = mem_of (finished sn s bytes), cow_capacity = c'\<rparr>)"
    unfolding FinishPacketRecovery_def m bind_res.simps Let_def CopyOnWriteBuffer.simps r length_mem_of kRtpHeaderSize_def g s IP_PACKET_SIZE_def
    by (simp add: finished_def Let_def b3_def b_def)
  moreover have "1488 \<le> c \<longrightarrow> ?n \<le> 1488 \<longrightarrow> c' = c" by (auto simp: c'_def lb)
  ultimately show ?thesis by (cases "?n > 1488") auto
qed

section \<open>The lost packet\<close>

text \<open>An RTP packet (version 2) with the given sequence number and SSRC.\<close>

definition rtp_packet :: "u16 \<Rightarrow> u32 \<Rightarrow> u8 list \<Rightarrow> bool" where
  "rtp_packet sn s p \<longleftrightarrow> 12 \<le> length p \<and> p ! 0 AND 0xc0 = 0x80 \<and>
     take 2 (drop 2 p) = WriteBigEndian 2 sn \<and> take 4 (drop 8 p) = WriteBigEndian 4 s"

text \<open>The bytes of a FEC packet for the media packets \<open>ps\<close>, as far as the recovery uses them.\<close>

definition fec_of :: "nat \<Rightarrow> u8 list list \<Rightarrow> u8 list \<Rightarrow> bool" where
  "fec_of hs ps data \<longleftrightarrow> hs \<le> length data \<and> (\<forall>p \<in> set ps. 12 \<le> length p \<and> hs + (length p - 12) \<le> length data) \<and>
     data ! 0 AND 0x3f = xors hs ps 0 AND 0x3f \<and>
     (\<forall>i. 0 < i \<and> i < 8 \<or> hs \<le> i \<and> i < length data \<longrightarrow> data ! i = xors hs ps i)"

lemma fec_image_move: "i < 8 \<Longrightarrow> fec_image hs p i = fec_image hs' p i"
  "8 \<le> hs \<Longrightarrow> 8 \<le> hs' \<Longrightarrow> fec_image hs p (hs + j) = fec_image hs' p (hs' + j)"
  by (simp_all add: fec_image_def)

lemma xors_move: "i < 8 \<Longrightarrow> xors hs ps i = xors hs' ps i"
  "8 \<le> hs \<Longrightarrow> 8 \<le> hs' \<Longrightarrow> xors hs ps (hs + j) = xors hs' ps (hs' + j)"
  by (induction ps) (auto simp: fec_image_move(1) [of _ hs _ hs'] fec_image_move(2) [of hs hs'])

lemma finished_eq:
  assumes p: "rtp_packet sn s p" "length p < 2 ^ 16" and len: "length p \<le> length b"
    and b0: "b ! 0 AND 0x3f = p ! 0 AND 0x3f"
    and b: "\<And>i. 0 < i \<and> i < 8 \<or> 12 \<le> i \<and> i < length p \<Longrightarrow> b ! i = fec_image 12 p i"
  shows "unat (ReadBigEndian [b ! 2, b ! 3] :: u16) + 12 = length p" "finished sn s b = p"
proof -
  have l: "12 \<le> length p" using p(1) by (simp add: rtp_packet_def)
  let ?w = "of_nat (length p - 12) :: u16"
  have "[b ! 2, b ! 3] = WriteBigEndian 2 ?w"
    using b [of 2] b [of 3] l by (simp add: fec_image_def WriteBigEndian_def numeral_2_eq_2)
  then have "ReadBigEndian [b ! 2, b ! 3] = ?w" by (simp add: ReadBigEndian_Write)
  then show n: "unat (ReadBigEndian [b ! 2, b ! 3] :: u16) + 12 = length p"
    using p(2) l by (simp only: unat_of_nat) simp
  have top: "(b ! 0 OR 0x80) AND 0xbf = p ! 0"
  proof (rule bit_word_eqI)
    fix k assume k: "k < LENGTH(8)"
    have low: "bit (b ! 0) k = bit (p ! 0) k" if "k < 6"
    proof -
      have m: "bit (0x3f :: u8) k" using that by (auto simp: less_Suc_eq numeral_eq_Suc)
      have "bit (b ! 0 AND 0x3f) k = bit (p ! 0 AND 0x3f) k" by (simp only: b0)
      then show ?thesis using m by (simp add: bit_and_iff)
    qed
    have c0: "p ! 0 AND 0xc0 = 0x80" using p(1) by (simp add: rtp_packet_def)
    have hi: "bit (p ! 0) 7" "\<not> bit (p ! 0) 6"
      using arg_cong [OF c0, of "\<lambda>w. bit w 7"] arg_cong [OF c0, of "\<lambda>w. bit w 6"] by (simp_all add: bit_and_iff)
    have "k \<in> {0, 1, 2, 3, 4, 5, 6, 7}" using k by auto
    then show "bit ((b ! 0 OR 0x80) AND 0xbf) k = bit (p ! 0) k" using low hi by (auto simp: bit_simps)
  qed
  have sl: "p ! j = WriteBigEndian 2 sn ! (j - 2)" if "2 \<le> j" "j < 4" for j
    using that l p(1) nth_take [of "j - 2" 2 "drop 2 p"] by (simp add: rtp_packet_def del: add_2_eq_Suc)
  have ss: "p ! j = WriteBigEndian 4 s ! (j - 8)" if "8 \<le> j" "j < 12" for j
    using that l p(1) nth_take [of "j - 8" 4 "drop 8 p"] by (simp add: rtp_packet_def)
  show "finished sn s b = p"
  proof (rule nth_equalityI)
    show "length (finished sn s b) = length p"
      using l len unfolding finished_def Let_def n by simp
  next
    fix k assume "k < length (finished sn s b)"
    then have k: "k < length p" using l len unfolding finished_def Let_def n by simp
    have "b \<noteq> []" using l len by auto
    let ?t = "take (length p) (b[0 := (b ! 0 OR 0x80) AND 0xbf])"
    have fin: "finished sn s b = overwrite 8 (WriteBigEndian 4 s) (overwrite 2 (WriteBigEndian 2 sn) ?t)"
      using len unfolding finished_def Let_def n by simp
    have "finished sn s b ! k = (if 8 \<le> k \<and> k < 12 then WriteBigEndian 4 s ! (k - 8)
        else if 2 \<le> k \<and> k < 4 then WriteBigEndian 2 sn ! (k - 2) else if k = 0 then p ! 0 else b ! k)"
      unfolding fin using k l len top \<open>b \<noteq> []\<close> by (auto simp: nth_overwrite nth_list_update)
    moreover have "b ! k = p ! k" if "0 < k" "\<not> (2 \<le> k \<and> k < 4)" "\<not> (8 \<le> k \<and> k < 12)"
      using b [of k] that k by (auto simp: fec_image_def)
    ultimately show "finished sn s b ! k = p ! k"
      using sl [of k] ss [of k] by (auto split: if_splits)
  qed
qed

lemma recover_restores:
  assumes f: "cow_data (fec_pkt f) = mem_of data" "fec_header_size f = hs" "protection_length f = length data - hs"
    and hs: "12 \<le> hs" "hs \<le> 1488" and len: "length data \<le> 1500" "length p \<le> 1488"
    and pps: "protected_packets f = xs @ q # ys" "list_all2 has_packet xs us" "list_all2 has_packet ys vs" "protected_pkt q = None"
    and p: "rtp_packet (seq_num q) (ssrc q) p" and fec: "fec_of hs (us @ p # vs) data"
  shows "RecoverPacket dchecks f = Inr (Some \<lparr>ssrc = ssrc q, seq_num = seq_num q, was_recovered = True, returned = False,
    recovered_pkt = \<lparr>cow_data = mem_of p, cow_capacity = 1500\<rparr>\<rparr>)"
proof -
  define d where "d = take 12 data @ drop hs data"
  have hd: "hs \<le> length data" using fec by (simp add: fec_of_def)
  have start: "StartPacketRecovery f = Inr (Some \<lparr>cow_data = mem_of d, cow_capacity = 1500\<rparr>)"
    using StartPacketRecovery_eq [OF f(1)] f hs len hd by (simp add: d_def)
  have ld: "length d = 12 + (length data - hs)" using hd hs by (simp add: d_def)
  have le: "length u \<le> length d" if "u \<in> set (us @ p # vs)" for u
  proof -
    have "hs + (length u - 12) \<le> length data" using fec that unfolding fec_of_def by blast
    then show ?thesis unfolding ld using hd by linarith
  qed
  have "12 \<le> length d" "length d \<le> 1500" using ld hs len hd by simp_all
  from recover_loop_present [OF pps(2) this, of dchecks None] le obtain b1 where
    b1: "recover_loop dchecks xs (None, \<lparr>cow_data = mem_of d, cow_capacity = 1500\<rparr>) = Inr (None, \<lparr>cow_data = mem_of b1, cow_capacity = 1500\<rparr>)"
      "length b1 = length d" "\<forall>i < length b1. i < 8 \<or> 12 \<le> i \<longrightarrow> b1 ! i = at0 d i XOR xors 12 us i" by auto
  have "12 \<le> length b1" "length b1 \<le> 1500" using ld hs len hd b1(2) by simp_all
  from recover_loop_present [OF pps(3) this, of dchecks "Some (seq_num q, ssrc q)"] le obtain b2 where
    b2: "recover_loop dchecks ys (Some (seq_num q, ssrc q), \<lparr>cow_data = mem_of b1, cow_capacity = 1500\<rparr>) =
        Inr (Some (seq_num q, ssrc q), \<lparr>cow_data = mem_of b2, cow_capacity = 1500\<rparr>)"
      "length b2 = length d" "\<forall>i < length b2. i < 8 \<or> 12 \<le> i \<longrightarrow> b2 ! i = at0 b1 i XOR xors 12 vs i"
    unfolding b1(2) by force
  have loop: "recover_loop dchecks (protected_packets f) (None, \<lparr>cow_data = mem_of d, cow_capacity = 1500\<rparr>) =
      Inr (Some (seq_num q, ssrc q), \<lparr>cow_data = mem_of b2, cow_capacity = 1500\<rparr>)"
    unfolding pps(1) recover_loop_append b1(1) using b2(1) pps(4) by simp
  have bits: "b2 ! i = (d ! i XOR xors 12 us i) XOR xors 12 vs i" if "i < length d" "i < 8 \<or> 12 \<le> i" for i
    using that b1(2,3) b2(2,3) by (auto simp: at0_def)
  have total: "(xors 12 (us @ p # vs) i XOR xors 12 us i) XOR xors 12 vs i = fec_image 12 p i" for i
    by (rule bit_word_eqI) (auto simp: xors_append bit_xor_iff)
  have dd: "d ! i = xors 12 (us @ p # vs) i" if "0 < i \<and> i < 8 \<or> 12 \<le> i \<and> i < length d" for i
  proof (cases "i < 8")
    case True
    then show ?thesis using that fec hd hs xors_move(1) [of i hs _ 12] by (simp add: nth_append fec_of_def d_def)
  next
    case False
    then have i: "12 \<le> i" "hs + (i - 12) < length data" using that ld hd hs by auto
    then have "d ! i = data ! (hs + (i - 12))" using hd hs by (simp add: nth_append d_def)
    also have "\<dots> = xors 12 (us @ p # vs) i"
      using fec i hs xors_move(2) [of hs 12 _ "i - 12"] by (simp add: fec_of_def)
    finally show ?thesis .
  qed
  have rest: "b2 ! i = fec_image 12 p i" if "0 < i \<and> i < 8 \<or> 12 \<le> i \<and> i < length p" for i
    using bits [of i] dd [of i] total [of i] le [of p] that hs ld by auto
  have first: "b2 ! 0 AND 0x3f = p ! 0 AND 0x3f"
  proof -
    have "d ! 0 AND 0x3f = xors 12 (us @ p # vs) 0 AND 0x3f"
      using fec hd hs xors_move(1) [of 0 hs _ 12] by (simp add: nth_append fec_of_def d_def)
    moreover have "b2 ! 0 AND 0x3f = ((d ! 0 AND 0x3f) XOR (xors 12 us 0 AND 0x3f)) XOR (xors 12 vs 0 AND 0x3f)"
      using bits [of 0] ld by (simp add: bit.conj_xor_distrib2)
    ultimately have "b2 ! 0 AND 0x3f = ((xors 12 (us @ p # vs) 0 XOR xors 12 us 0) XOR xors 12 vs 0) AND 0x3f"
      by (simp only: bit.conj_xor_distrib2)
    then show ?thesis unfolding total by (simp add: fec_image_def)
  qed
  have lp: "length p < 2 ^ 16" "length p \<le> length b2" using le [of p] b2(2) len by simp_all
  have fin: "unat (ReadBigEndian [b2 ! 2, b2 ! 3] :: u16) + 12 = length p" "finished (seq_num q) (ssrc q) b2 = p"
    using finished_eq [OF p lp first] rest by blast+
  have "12 \<le> length b2" using b2(2) ld by simp
  from FinishPacketRecovery_eq [OF this, of "seq_num q" "ssrc q" 1500] have
    "FinishPacketRecovery (seq_num q) (ssrc q) \<lparr>cow_data = mem_of b2, cow_capacity = 1500\<rparr> =
      Inr (Some \<lparr>cow_data = mem_of p, cow_capacity = 1500\<rparr>)"
    unfolding fin using len(2) by auto
  then show ?thesis unfolding RecoverPacket_def start bind_res.simps option.case loop prod.case by simp
qed

end
