(* ===== verification/Header_Contract.thy ===== *)
theory Header_Contract
  imports Fec_Headers
begin

text \<open>
  What the codec relies on of a FEC header format, as a locale, and the proof that the ULPFEC header
  (\<^verbatim>\<open>ulpfec_header_reader_writer.cc\<close>) meets it: a packet whose header \<open>FinalizeFecHeader\<close> has completed is
  understood by \<open>ReadFecHeader\<close>.
\<close>

section \<open>The contract\<close>

text \<open>
  What the decoder needs of the header of a received FEC packet: the header size, the covered
  stream with its first sequence number, the mask as a slice of the packet, and, besides the payload
  behind the header, the XOR of the first eight header bytes as the encoder computed it, except for
  the two top bits of the first byte.
\<close>

definition reads_back ::
  "nat \<Rightarrow> u32 \<Rightarrow> u16 \<Rightarrow> u8 list \<Rightarrow> u8 list \<Rightarrow> ReceivedFecPacket \<Rightarrow> ReceivedFecPacket \<Rightarrow> bool"
where
  "reads_back hs media_ssrc base packet_mask bytes p q \<longleftrightarrow>
     (\<exists>data off n.
        q = p\<lparr>protected_streams := [\<lparr>stream_ssrc = media_ssrc, stream_seq_num_base = base,
                stream_mask_offset = off, stream_mask_size = n\<rparr>],
              fec_header_size := hs, protection_length := length bytes - hs,
              fec_pkt := (fec_pkt p)\<lparr>cow_data := mem_of data\<rparr>\<rparr> \<and>
        length data = length bytes \<and> off + n \<le> hs \<and> length packet_mask \<le> n \<and>
        take n (drop off data) = packet_mask @ replicate (n - length packet_mask) 0 \<and>
        data ! 0 AND 0x3f = bytes ! 0 AND 0x3f \<and>
        (\<forall>i. 0 < i \<and> i < 8 \<or> hs \<le> i \<and> i < length bytes \<longrightarrow> data ! i = bytes ! i))"

text \<open>What reading an arbitrary header can do to a packet: one stream, a header of at least 12 bytes, no change of size.\<close>

definition header_parsed :: "ReceivedFecPacket \<Rightarrow> u8 list \<Rightarrow> ReceivedFecPacket \<Rightarrow> bool" where
  "header_parsed p data q \<longleftrightarrow>
     (\<exists>s hs l data'.
        q = p\<lparr>protected_streams := [s], fec_header_size := hs, protection_length := l,
              fec_pkt := (fec_pkt p)\<lparr>cow_data := mem_of data'\<rparr>\<rparr> \<and>
        length data' = length data \<and> 12 \<le> hs \<and> hs \<le> 32)"

lemma header_parsedI:
  "length data' = length data \<Longrightarrow> 12 \<le> hs \<Longrightarrow> hs \<le> 32 \<Longrightarrow>
   header_parsed p data (p\<lparr>protected_streams := [s], fec_header_size := hs, protection_length := l,
     fec_pkt := (fec_pkt p)\<lparr>cow_data := mem_of data'\<rparr>\<rparr>)"
  unfolding header_parsed_def by blast

locale fec_header_format =
  fixes writer :: FecHeaderWriter
    and reader :: FecHeaderReader
    and ssrcs :: "u32 \<Rightarrow> u32 \<Rightarrow> bool"
  assumes limits: "writer_MaxMediaPackets writer = 48" "writer_MaxFecPackets writer = 48"
      "reader_MaxMediaPackets reader = 192" "reader_MaxFecPackets reader = 48"
      "writer_MaxPacketOverhead writer \<le> 32"
    and header_size:
    "length packet_mask \<in> {2, 6} \<Longrightarrow>
     \<exists>n hs. MinPacketMaskSize writer dchecks (mem_of packet_mask) = Inr n \<and> FecHeaderSize writer dchecks n = Inr hs \<and>
       14 \<le> hs \<and> hs \<le> writer_MaxPacketOverhead writer"
    and finalized_reads_back:
    "length packet_mask \<in> {2, 6} \<Longrightarrow> MinPacketMaskSize writer dchecks (mem_of packet_mask) = Inr n \<Longrightarrow>
     FecHeaderSize writer dchecks n = Inr hs \<Longrightarrow> hs \<le> length bytes \<Longrightarrow> length bytes - hs < 2 ^ 16 \<Longrightarrow>
     \<exists>wire. FinalizeFecHeader writer dchecks
         [\<lparr>written_ssrc = media_ssrc, written_seq_num_base = base, written_mask = mem_of packet_mask\<rparr>]
         \<lparr>cow_data = mem_of bytes, cow_capacity = c\<rparr> = Inr \<lparr>cow_data = mem_of wire, cow_capacity = c\<rparr> \<and>
       length wire = length bytes \<and>
       (\<forall>p. cow_data (fec_pkt p) = mem_of wire \<longrightarrow> ssrcs (ssrc p) media_ssrc \<longrightarrow>
          (\<exists>q. ReadFecHeader reader dchecks p = Inr (Some q) \<and> reads_back hs media_ssrc base packet_mask bytes p q))"
    and reader_total:
    "cow_data (fec_pkt p) = mem_of data \<Longrightarrow>
     \<exists>ret. ReadFecHeader reader dchecks p = Inr ret \<and> (\<forall>q. ret = Some q \<longrightarrow> header_parsed p data q)"

section \<open>ULPFEC\<close>

lemma UlpfecHeaderSize_eq:
  "UlpfecHeaderSize dchecks 2 = Inr 14" "UlpfecHeaderSize dchecks 6 = Inr 18"
  by (simp_all add: UlpfecHeaderSize_def header_constants)

definition ulpfec_first :: "nat \<Rightarrow> u8 \<Rightarrow> u8" where
  "ulpfec_first w b = (if w = 6 then b AND 0x7f OR 0x40 else b AND 0x7f AND 0xbf)"

definition ulpfec_wire :: "u16 \<Rightarrow> u8 list \<Rightarrow> u8 list \<Rightarrow> u8 list" where
  "ulpfec_wire base packet_mask bytes =
     overwrite 12 packet_mask
       (overwrite 10 (WriteBigEndian 2 (word_of_int (int (length bytes) - int (12 + length packet_mask)) :: u16))
         (overwrite 2 (WriteBigEndian 2 base)
           (overwrite 8 (map (\<lambda>k. bytes ! (2 + k)) [0..<2]) (bytes[0 := ulpfec_first (length packet_mask) (bytes ! 0)]))))"

lemma ulpfec_finalize:
  assumes "length packet_mask \<in> {2, 6}" "12 + length packet_mask \<le> length bytes"
  shows "Ulpfec_FinalizeFecHeader dchecks
      [\<lparr>written_ssrc = media_ssrc, written_seq_num_base = base, written_mask = mem_of packet_mask\<rparr>]
      \<lparr>cow_data = mem_of bytes, cow_capacity = c\<rparr> =
    Inr \<lparr>cow_data = mem_of (ulpfec_wire base packet_mask bytes), cow_capacity = c\<rparr>"
proof -
  have ne: "bytes \<noteq> []" using assms by auto
  have s: "UlpfecHeaderSize dchecks (length packet_mask) = Inr (12 + length packet_mask)"
    using assms(1) by (auto simp: UlpfecHeaderSize_eq)
  show ?thesis
    using assms unfolding Ulpfec_FinalizeFecHeader_def change_data_def ulpfec_wire_def ulpfec_first_def
    by (auto simp: RTC_CHECK_def modify_byte_eq store_bytes load_bytes s header_constants ne nth_list_update and.assoc)
qed

lemma ulpfec_first_bits:
  "w = 2 \<or> w = 6 \<Longrightarrow> (ulpfec_first w b AND 0x40 \<noteq> 0) = (w = 6)"
  "ulpfec_first w b AND 0x3f = b AND 0x3f"
proof -
  have "bit (ulpfec_first w b) 6 = (w = 6)" by (simp add: ulpfec_first_def bit_simps)
  moreover have "(x AND 0x40 \<noteq> 0) = bit x 6" for x :: u8
    using and_exp_eq_0_iff_not_bit [of x 6] by simp
  ultimately show "(ulpfec_first w b AND 0x40 \<noteq> 0) = (w = 6)" by simp
  show "ulpfec_first w b AND 0x3f = b AND 0x3f" by (simp add: ulpfec_first_def and.assoc bit.conj_disj_distrib2)
qed

lemma ulpfec_reads_back:
  assumes mask: "length packet_mask \<in> {2, 6}" and len: "12 + length packet_mask \<le> length bytes"
    "length bytes - (12 + length packet_mask) < 2 ^ 16"
    and p: "cow_data (fec_pkt p) = mem_of (ulpfec_wire base packet_mask bytes)"
  shows "\<exists>q. Ulpfec_ReadFecHeader dchecks p = Inr (Some q) \<and>
    reads_back (12 + length packet_mask) (ssrc p) base packet_mask bytes p q"
proof -
  let ?w = "length packet_mask" and ?wire = "ulpfec_wire base packet_mask bytes"
  let ?len = "word_of_int (int (length bytes) - int (12 + ?w)) :: u16"
  have w: "?w = 2 \<or> ?w = 6" using mask by simp
  have [simp]: "length ?wire = length bytes" using len w by (auto simp: ulpfec_wire_def)
  have up: "[0..<2 :: nat] = [0, 1]" by (simp add: numeral_2_eq_2)
  have nth: "?wire ! k = (if 12 \<le> k \<and> k < 12 + ?w then packet_mask ! (k - 12)
      else if 10 \<le> k \<and> k < 12 then WriteBigEndian 2 ?len ! (k - 10)
      else if 2 \<le> k \<and> k < 4 then WriteBigEndian 2 base ! (k - 2)
      else if 8 \<le> k \<and> k < 10 then bytes ! (2 + (k - 8))
      else if k = 0 then ulpfec_first ?w (bytes ! 0) else bytes ! k)" if "k < length bytes" for k
    using that len(1) w unfolding ulpfec_wire_def
    by (auto simp: nth_overwrite nth_list_update)
  have two: "[WriteBigEndian 2 v ! 0, WriteBigEndian 2 v ! 1] = WriteBigEndian 2 v" for v :: u16
    by (simp add: WriteBigEndian_def up)
  have L: "length bytes \<ge> 14" "bytes \<noteq> []" using len(1) w by auto
  have reads: "mem_read what 0 1 (mem_of ?wire) = Inr [ulpfec_first ?w (bytes ! 0)]"
    "mem_read what 2 2 (mem_of ?wire) = Inr (WriteBigEndian 2 base)"
    "mem_read what 10 2 (mem_of ?wire) = Inr (WriteBigEndian 2 ?len)"
    "mem_load what 8 2 (mem_of ?wire) = Inr (mem_of (map (\<lambda>k. bytes ! (2 + k)) [0..<2]))" for what
    using L two [of base] two [of ?len] by (simp_all add: read_bytes load_bytes up nth flip: numeral_2_eq_2 numeral_3_eq_3)
  define data where "data = overwrite 2 (map (\<lambda>k. bytes ! (2 + k)) [0..<2]) ?wire"
  have store: "mem_store what 2 (mem_of (map (\<lambda>k. bytes ! (2 + k)) [0..<2])) (mem_of ?wire) = Inr (mem_of data)" for what
    using L unfolding data_def by (simp add: store_bytes)
  have plen: "unat ?len = length bytes - (12 + ?w)"
  proof -
    have "?len = of_nat (length bytes - (12 + ?w))" using len(1) by (simp only: of_nat_diff [symmetric] of_int_of_nat_eq)
    then show ?thesis using len(2) by (simp only: unat_of_nat) simp
  qed
  have lend: "length data = length bytes" using L unfolding data_def by simp
  have data: "data ! k = (if 2 \<le> k \<and> k < 4 then bytes ! k else ?wire ! k)" if "k < length bytes" for k
    using that L unfolding data_def by (auto simp: nth_overwrite intro!: arg_cong [where f = "(!) bytes"])
  have slice: "take ?w (drop 12 data) = packet_mask"
    using len by (intro nth_equalityI) (auto simp: data nth lend)
  have size: "(if hd [ulpfec_first ?w (bytes ! 0)] AND 0x40 \<noteq> 0 then kUlpfecPacketMaskSizeLBitSet
      else kUlpfecPacketMaskSizeLBitClear) = ?w"
    using w by (auto simp: ulpfec_first_bits header_constants)
  have hs: "UlpfecHeaderSize dchecks ?w = Inr (12 + ?w)" using w by (auto simp: UlpfecHeaderSize_eq)
  have long: "\<not> length (mem_of ?wire) < kPacketMaskOffset" using L by (simp add: header_constants)
  have be: "ReadBigEndian (WriteBigEndian 2 v) = v" for v :: u16 by (simp add: ReadBigEndian_Write)
  have "Ulpfec_ReadFecHeader dchecks p = Inr (Some (p\<lparr>
      protected_streams := [\<lparr>stream_ssrc = ssrc p, stream_seq_num_base = base,
        stream_mask_offset = 12, stream_mask_size = ?w\<rparr>],
      fec_header_size := 12 + ?w, protection_length := length bytes - (12 + ?w),
      fec_pkt := (fec_pkt p)\<lparr>cow_data := mem_of data\<rparr>\<rparr>))"
    unfolding Ulpfec_ReadFecHeader_def Let_def p reads bind_res.simps size hs store be plen
    using long by (simp add: header_constants)
  moreover have "reads_back (12 + ?w) (ssrc p) base packet_mask bytes p (p\<lparr>
      protected_streams := [\<lparr>stream_ssrc = ssrc p, stream_seq_num_base = base,
        stream_mask_offset = 12, stream_mask_size = ?w\<rparr>],
      fec_header_size := 12 + ?w, protection_length := length bytes - (12 + ?w),
      fec_pkt := (fec_pkt p)\<lparr>cow_data := mem_of data\<rparr>\<rparr>)"
    unfolding reads_back_def using slice L
    by (intro exI [of _ data] exI [of _ 12] exI [of _ ?w]) (auto simp: lend data nth ulpfec_first_bits)
  ultimately show ?thesis by blast
qed

lemma ulpfec_reader_total:
  assumes p: "cow_data (fec_pkt p) = mem_of data"
  shows "\<exists>ret. Ulpfec_ReadFecHeader dchecks p = Inr ret \<and> (\<forall>q. ret = Some q \<longrightarrow> header_parsed p data q)"
proof (cases "length data < 12")
  case True
  then show ?thesis by (simp add: Ulpfec_ReadFecHeader_def p header_constants)
next
  case False
  let ?w = "if data ! 0 AND 0x40 \<noteq> 0 then 6 else 2 :: nat"
  have r: "mem_read what 0 1 (mem_of data) = Inr [data ! 0]" for what
    using False by (simp add: read_bytes)
  have rs: "mem_read what off n (mem_of data) = Inr (map (\<lambda>k. data ! (nat off + k)) [0..<n])"
    "mem_load what off n (mem_of data) = Inr (mem_of (map (\<lambda>k. data ! (nat off + k)) [0..<n]))"
    if "0 \<le> off" "nat off + n \<le> 12" for what off n
    using False that by (simp_all add: read_bytes load_bytes)
  have hs: "12 \<le> 12 + ?w \<and> 12 + ?w \<le> 32" by simp
  let ?b = "map (\<lambda>k. data ! (8 + k)) [0..<2]"
  have st: "mem_store what 2 (mem_of ?b) (mem_of data) = Inr (mem_of (overwrite 2 ?b data))" for what
    using False by (simp add: store_bytes)
  have "\<exists>s l. Ulpfec_ReadFecHeader dchecks p = Inr (Some (p\<lparr>protected_streams := [s], fec_header_size := 12 + ?w,
      protection_length := l, fec_pkt := (fec_pkt p)\<lparr>cow_data := mem_of (overwrite 2 ?b data)\<rparr>\<rparr>))"
    unfolding Ulpfec_ReadFecHeader_def Let_def p r bind_res.simps list.sel
    using False rs [of 2 2] rs [of 10 2] rs(2) [of 8 2] st
    by (cases "data ! 0 AND 0x40 = 0") (simp_all add: header_constants UlpfecHeaderSize_eq, (intro exI, rule refl)+)
  then obtain s l where ret: "Ulpfec_ReadFecHeader dchecks p = Inr (Some (p\<lparr>protected_streams := [s], fec_header_size := 12 + ?w,
      protection_length := l, fec_pkt := (fec_pkt p)\<lparr>cow_data := mem_of (overwrite 2 ?b data)\<rparr>\<rparr>))" (is "_ = Inr (Some ?q)") by blast
  have "length (overwrite 2 ?b data) = length data" using False by simp
  then have "header_parsed p data ?q" using hs by (intro header_parsedI) auto
  then show ?thesis unfolding ret by (intro exI [of _ "Some ?q"]) simp
qed

interpretation ulpfec: fec_header_format UlpfecHeaderWriter UlpfecHeaderReader "(=)"
proof (unfold_locales, goal_cases)
  case 1
  show ?case by (simp add: UlpfecHeaderWriter_def header_constants)
next
  case 2
  show ?case by (simp add: UlpfecHeaderWriter_def header_constants)
next
  case 3
  show ?case by (simp add: UlpfecHeaderReader_def header_constants)
next
  case 4
  show ?case by (simp add: UlpfecHeaderReader_def header_constants)
next
  case 5
  show ?case by (simp add: UlpfecHeaderWriter_def header_constants)
next
  case (6 packet_mask dchecks)
  then show ?case
    by (auto simp: UlpfecHeaderWriter_def Ulpfec_MinPacketMaskSize_def UlpfecHeaderSize_eq header_constants)
next
  case (7 packet_mask dchecks n hs bytes media_ssrc base c)
  then have hs: "hs = 12 + length packet_mask"
    by (auto simp: UlpfecHeaderWriter_def Ulpfec_MinPacketMaskSize_def UlpfecHeaderSize_eq)
  with 7 have len: "12 + length packet_mask \<le> length bytes" "length bytes - (12 + length packet_mask) < 2 ^ 16" by simp_all
  have l: "length (ulpfec_wire base packet_mask bytes) = length bytes"
    using 7(1) len(1) by (auto simp: ulpfec_wire_def)
  show ?case
    unfolding hs UlpfecHeaderWriter_def UlpfecHeaderReader_def FecHeaderWriter.simps FecHeaderReader.simps
    using ulpfec_finalize [OF 7(1) len(1)] ulpfec_reads_back [OF 7(1) len] l by auto
next
  case (8 p data dchecks)
  then show ?case unfolding UlpfecHeaderReader_def FecHeaderReader.simps by (rule ulpfec_reader_total)
qed

end
