(* ===== verification/Flexfec_Header.thy ===== *)
theory Flexfec_Header
  imports Header_Contract
begin

text \<open>
  The FlexFEC header of draft 03 (\<^verbatim>\<open>flexfec_03_header_reader_writer.cc\<close>) meets the same contract. Its mask is interleaved
  with K-bits that say where it ends: the writer spreads the 16 or 48 mask bits around them, the reader
  packs the bits again, in place.
\<close>

section \<open>Bits of the mask parts\<close>

lemma u8_eqI:
  fixes a b :: u8
  assumes "bit a 0 = bit b 0" "bit a 1 = bit b 1" "bit a 2 = bit b 2" "bit a 3 = bit b 3"
    "bit a 4 = bit b 4" "bit a 5 = bit b 5" "bit a 6 = bit b 6" "bit a 7 = bit b 7"
  shows "a = b"
proof (rule bit_word_eqI)
  fix n assume "n < LENGTH(8)"
  then have "n \<in> {0, 1, 2, 3, 4, 5, 6, 7}" by auto
  then show "bit a n = bit b n" using assms by auto
qed

lemma WriteBigEndian_2: "WriteBigEndian 2 w = [ucast (drop_bit 8 w), ucast w]"
  by (simp add: WriteBigEndian_def numeral_2_eq_2)

lemma WriteBigEndian_4:
  "WriteBigEndian 4 w = [ucast (drop_bit 24 w), ucast (drop_bit 16 w), ucast (drop_bit 8 w), ucast w]"
proof -
  have "[0..<4 :: nat] = [0, 1, 2, 3]" by (simp add: upt_rec)
  then show ?thesis by (simp add: WriteBigEndian_def)
qed

lemma shift_2:
  assumes "WriteBigEndian 2 (drop_bit 1 (ReadBigEndian [a, b] :: u16)) = [p, q]" "\<And>n. n < 7 \<Longrightarrow> \<not> bit x n"
  shows "WriteBigEndian 2 (push_bit 1 (ReadBigEndian [p OR x, q] :: u16)) = [a, b AND 0xfe]" "\<not> bit p 7" 
proof -
  have pq: "p = ucast (drop_bit 8 (drop_bit 1 (ReadBigEndian [a, b] :: u16)))" "q = ucast (drop_bit 1 (ReadBigEndian [a, b] :: u16))"
    using assms(1) unfolding WriteBigEndian_2 by simp_all
  show "WriteBigEndian 2 (push_bit 1 (ReadBigEndian [p OR x, q] :: u16)) = [a, b AND 0xfe]"
    unfolding WriteBigEndian_2 pq list.inject
    by (intro conjI u8_eqI refl) (simp_all add: bit_simps bit_ReadBigEndian assms(2) del: push_bit_Suc flip: numeral_2_eq_2)
  show "\<not> bit p 7" unfolding pq by (simp add: bit_simps bit_ReadBigEndian)
qed

lemma shift_4:
  assumes "WriteBigEndian 4 (drop_bit 2 (ReadBigEndian [a, b, c, d] :: u32)) = [p, q, r, s]" "\<And>n. n < 6 \<Longrightarrow> \<not> bit x n"
  shows "WriteBigEndian 4 (push_bit 2 (ReadBigEndian [p OR x, q, r, s] :: u32)) = [a, b, c, d AND 0xfc]" "\<not> bit p 6" "\<not> bit p 7"
proof -
  let ?w = "drop_bit 2 (ReadBigEndian [a, b, c, d] :: u32)"
  have pq: "p = ucast (drop_bit 24 ?w)" "q = ucast (drop_bit 16 ?w)" "r = ucast (drop_bit 8 ?w)" "s = ucast ?w"
    using assms(1) unfolding WriteBigEndian_4 by simp_all
  show "WriteBigEndian 4 (push_bit 2 (ReadBigEndian [p OR x, q, r, s] :: u32)) = [a, b, c, d AND 0xfc]"
    unfolding WriteBigEndian_4 pq list.inject
    by (intro conjI u8_eqI refl) (simp_all add: bit_simps bit_ReadBigEndian assms(2) del: push_bit_Suc)
  show "\<not> bit p 6" "\<not> bit p 7" unfolding pq by (simp_all add: bit_simps bit_ReadBigEndian)
qed

section \<open>Statements on a part of the packet\<close>

lemma overwrite_read:
  assumes "o' + length L \<le> length bytes" "k + n \<le> length L"
  shows "mem_read what (int (o' + k)) n (mem_of (overwrite o' L bytes)) = Inr (take n (drop k L))"
proof -
  have "take n (drop (o' + k) (overwrite o' L bytes)) = take n (drop k L)"
    using assms by (simp add: overwrite_def)
  then show ?thesis using assms by (simp add: mem_read_mem_of del: of_nat_add)
qed

lemma overwrite_store:
  assumes "o' + length L \<le> length bytes" "k + length bs \<le> length L"
  shows "mem_store what (int (o' + k)) (mem_of bs) (mem_of (overwrite o' L bytes)) = Inr (mem_of (overwrite o' (overwrite k bs L) bytes))"
proof -
  have "overwrite (o' + k) bs (overwrite o' L bytes) = overwrite o' (overwrite k bs L) bytes"
    using assms by (simp add: overwrite_def add.assoc)
  then show ?thesis using assms by (simp add: store_bytes del: of_nat_add)
qed

lemma overwrite_modify:
  assumes "o' + length L \<le> length bytes" "k < length L"
  shows "modify_byte (o' + k) f (mem_of (overwrite o' L bytes)) = Inr (mem_of (overwrite o' (L[k := f (L ! k)]) bytes))"
  using assms by (simp add: modify_byte_eq nth_overwrite) (simp add: overwrite_def list_update_append)

lemma overwrite_shift:
  assumes "o' + length L \<le> length bytes" "k + n \<le> length L"
  shows "shift_field (o' + k) n f (mem_of (overwrite o' L bytes)) =
    Inr (mem_of (overwrite o' (overwrite k (WriteBigEndian n (f (ReadBigEndian (take n (drop k L))))) L) bytes))"
  using assms by (simp add: shift_field_def overwrite_read overwrite_store del: of_nat_add)

lemma overwrite_extend:
  "o' + length L + length bs \<le> length bytes \<Longrightarrow> overwrite (o' + length L) bs (overwrite o' L bytes) = overwrite o' (L @ bs) bytes"
  by (simp add: overwrite_def ac_simps)

lemma top_bit: "(x AND 0x80 \<noteq> 0) = bit (x :: u8) 7" "(x AND 0x40 \<noteq> 0) = bit x 6" "(x AND 0x01 \<noteq> 0) = bit x 0"
  using and_exp_eq_0_iff_not_bit [of x 7] and_exp_eq_0_iff_not_bit [of x 6] and_exp_eq_0_iff_not_bit [of x 0] by simp_all

text \<open>The mask as the writer lays it out.\<close>

definition flex_packed :: "u8 list \<Rightarrow> u8 list" where
  "flex_packed m =
     (let P = WriteBigEndian 2 (drop_bit 1 (ReadBigEndian (take 2 m) :: u16));
          Q = WriteBigEndian 4 (drop_bit 2 (ReadBigEndian (drop 2 m) :: u32));
          Q' = (if m ! 1 AND 0x01 \<noteq> 0 then Q[0 := Q ! 0 OR 0x40] else Q)
      in if length m = 2 then (if m ! 1 AND 0x01 = 0 then P[0 := P ! 0 OR 0x80] else P @ [0xc0, 0, 0, 0])
         else if m ! 5 AND 0x03 = 0 then P @ Q'[0 := Q' ! 0 OR 0x80]
         else P @ Q' @ [0x80 OR (if m ! 5 AND 0x02 \<noteq> 0 then 0x40 else 0) OR (if m ! 5 AND 0x01 \<noteq> 0 then 0x20 else 0),
                        0, 0, 0, 0, 0, 0, 0])"

section \<open>Unpacking\<close>

lemma two_bytes: obtains p q where "WriteBigEndian 2 w = [p, q]"
  by (metis WriteBigEndian_2)

lemma four_bytes: obtains p q r t where "WriteBigEndian 4 w = [p, q, r, t]"
  by (metis WriteBigEndian_4)

lemma overwrite_parts:
  "overwrite 0 [a, b] (x # y # r) = a # b # r"
  "overwrite 2 [a, b, c, d] (x # y # z1 # z2 # z3 # z4 # r) = x # y # a # b # c # d # r"
  "overwrite 6 (replicate 8 v) (x # y # z1 # z2 # z3 # z4 # replicate 8 u) = x # y # z1 # z2 # z3 # z4 # replicate 8 v"
  by (simp_all add: overwrite_def)

lemma unpack_2:
  assumes "19 < length bytes" "bit x 7" "WriteBigEndian 2 (push_bit 1 (ReadBigEndian [x, y] :: u16)) = [a, b]"
  shows "unpack_mask (length bytes) (mem_of (overwrite kFlexfecPacketMaskOffset [x, y] bytes)) =
    Inr (Some (2, mem_of (overwrite kFlexfecPacketMaskOffset [a, b] bytes)))"
proof -
  let ?o = kFlexfecPacketMaskOffset
  have fit: "?o + length [x, y] \<le> length bytes" using assms(1) by (simp add: header_constants)
  have 1: "mem_read ''data'' (int ?o) 1 (mem_of (overwrite ?o [x, y] bytes)) = Inr [x]"
    using overwrite_read [OF fit, of 0 1] by simp
  have 2: "shift_field ?o 2 (\<lambda>w :: u16. push_bit 1 w) (mem_of (overwrite ?o [x, y] bytes)) = Inr (mem_of (overwrite ?o [a, b] bytes))"
    using overwrite_shift [OF fit, of 0 2 "\<lambda>w :: u16. push_bit 1 w"] assms(3) by (simp add: overwrite_parts del: push_bit_Suc)
  show ?thesis unfolding unpack_mask_def Let_def 1 2 bind_res.simps list.sel top_bit
    using assms(2) by (simp add: kFlexfecPacketMaskSizes_def)
qed

text \<open>The second part of the mask.\<close>

lemma unpack_second:
  assumes "23 < length bytes" "\<not> bit x 7" "length r \<le> length bytes - 24"
    "WriteBigEndian 2 (push_bit 1 (ReadBigEndian [x, y] :: u16)) = [a, b]"
    "WriteBigEndian 4 (push_bit 2 (ReadBigEndian [z, u, v, w] :: u32)) = [c, d, e, f]"
  defines "data3 \<equiv> mem_of (overwrite kFlexfecPacketMaskOffset (a # (b OR (drop_bit 6 z AND 1)) # c # d # e # f # r) bytes)"
  shows "unpack_mask (length bytes) (mem_of (overwrite kFlexfecPacketMaskOffset (x # y # z # u # v # w # r) bytes)) =
    (if bit z 7 then Inr (Some (6, data3))
     else if length bytes < 32 then Inr None
     else bind_res (mem_read ''data'' (int (kFlexfecPacketMaskOffset + 6)) 1 data3) (\<lambda>m6.
       if hd m6 AND 0x80 = 0 then Inr None
       else bind_res (modify_byte (kFlexfecPacketMaskOffset + 5) (\<lambda>b. b OR (drop_bit 5 (hd m6) AND 0x03)) data3) (\<lambda>data4.
            bind_res (shift_field (kFlexfecPacketMaskOffset + 6) 8 (\<lambda>w :: 64 word. push_bit 3 w) data4) (\<lambda>data5.
              Inr (Some (14, data5))))))"
proof -
  let ?o = kFlexfecPacketMaskOffset
  have fit: "?o + length (x1 # x2 # x3 # x4 # x5 # x6 # r) \<le> length bytes" for x1 x2 x3 x4 x5 x6
    using assms(1,3) by (simp add: header_constants)
  have 1: "mem_read ''data'' (int ?o) 1 (mem_of (overwrite ?o (x # y # z # u # v # w # r) bytes)) = Inr [x]"
    using overwrite_read [OF fit [of x y z u v w], of 0 1] by simp
  have 2: "shift_field ?o 2 (\<lambda>w :: u16. push_bit 1 w) (mem_of (overwrite ?o (x # y # z # u # v # w # r) bytes)) =
      Inr (mem_of (overwrite ?o (a # b # z # u # v # w # r) bytes))"
    using overwrite_shift [OF fit [of x y z u v w], of 0 2 "\<lambda>w :: u16. push_bit 1 w"] assms(4) by (simp add: overwrite_parts del: push_bit_Suc)
  have 3: "mem_read ''data'' (int (?o + 2)) 1 (mem_of (overwrite ?o (a # b # z # u # v # w # r) bytes)) = Inr [z]"
    using overwrite_read [OF fit [of a b z u v w], of 2 1] by (simp del: of_nat_add)
  have 4: "modify_byte (?o + 1) g (mem_of (overwrite ?o (a # b # z # u # v # w # r) bytes)) =
      Inr (mem_of (overwrite ?o (a # g b # z # u # v # w # r) bytes))" for g
    using overwrite_modify [OF fit [of a b z u v w], of 1 g] by simp
  have 5: "shift_field (?o + 2) 4 (\<lambda>w :: u32. push_bit 2 w) (mem_of (overwrite ?o (a # b' # z # u # v # w # r) bytes)) =
      Inr (mem_of (overwrite ?o (a # b' # c # d # e # f # r) bytes))" for b'
    using overwrite_shift [OF fit [of a b' z u v w], of 2 4 "\<lambda>w :: u32. push_bit 2 w"] assms(5) by (simp add: overwrite_parts)
  have sizes: "kHeaderSizes ! 1 = 24" "kHeaderSizes ! 2 = 32" "kFlexfecPacketMaskSizes ! 1 = 6" "kFlexfecPacketMaskSizes ! 2 = 14"
    by (simp_all add: header_constants)
  show ?thesis unfolding data3_def unpack_mask_def Let_def 1 2 3 4 5 bind_res.simps list.sel top_bit sizes
    using assms(1,2) by simp
qed

lemma shift_8:
  assumes "\<And>n. n < 5 \<Longrightarrow> \<not> bit t n"
  shows "WriteBigEndian 8 (push_bit 3 (ReadBigEndian (t # replicate 7 0) :: 64 word)) = replicate 8 0"
proof -
  have "\<not> bit (ReadBigEndian (t # replicate 7 0) :: 64 word) n" if "n < 61" for n
  proof (cases "n < 56")
    case True
    then have "n div 8 < 7" by simp
    then have "(t # replicate 7 0) ! (7 - n div 8) = 0" by (simp add: nth_Cons')
    then show ?thesis by (simp add: bit_ReadBigEndian)
  next
    case False
    then have d: "n div 8 = 7" using that by linarith
    then have "n mod 8 < 5" using that mult_div_mod_eq [of 8 n] by simp
    with d have "n div 8 = 7" "n mod 8 < 5" by simp_all
    then show ?thesis using assms by (simp add: bit_ReadBigEndian)
  qed
  then have "(push_bit 3 (ReadBigEndian (t # replicate 7 0)) :: 64 word) = 0"
    by (intro bit_word_eqI) (auto simp: bit_push_bit_iff)
  then show ?thesis by (simp add: WriteBigEndian_def map_replicate_const)
qed

lemma third_part:
  fixes a b c d e f :: u8
  assumes "31 < length bytes" "bit t 7" "\<And>n. n < 5 \<Longrightarrow> \<not> bit t n"
  defines "data3 \<equiv> mem_of (overwrite kFlexfecPacketMaskOffset (a # b # c # d # e # f # t # replicate 7 0) bytes)"
  shows "bind_res (mem_read ''data'' (int (kFlexfecPacketMaskOffset + 6)) 1 data3) (\<lambda>m6.
       if hd m6 AND 0x80 = 0 then Inr None
       else bind_res (modify_byte (kFlexfecPacketMaskOffset + 5) (\<lambda>b. b OR (drop_bit 5 (hd m6) AND 0x03)) data3) (\<lambda>data4.
            bind_res (shift_field (kFlexfecPacketMaskOffset + 6) 8 (\<lambda>w :: 64 word. push_bit 3 w) data4) (\<lambda>data5.
              Inr (Some (14 :: nat, data5))))) =
    Inr (Some (14, mem_of (overwrite kFlexfecPacketMaskOffset
      (a # b # c # d # e # (f OR (drop_bit 5 t AND 0x03)) # replicate 8 0) bytes)))"
proof -
  let ?o = kFlexfecPacketMaskOffset
  have fit: "?o + length (a # b # c # d # e # f' # t # replicate 7 0) \<le> length bytes" for f'
    using assms(1) by (simp add: header_constants)
  have 1: "mem_read ''data'' (int (?o + 6)) 1 data3 = Inr [t]"
    unfolding data3_def using overwrite_read [OF fit [of f], of 6 1] by (simp del: of_nat_add)
  have 2: "modify_byte (?o + 5) g data3 = Inr (mem_of (overwrite ?o (a # b # c # d # e # g f # t # replicate 7 0) bytes))" for g
    unfolding data3_def using overwrite_modify [OF fit [of f], of 5 g] by simp
  have 3: "shift_field (?o + 6) 8 (\<lambda>w :: 64 word. push_bit 3 w) (mem_of (overwrite ?o (a # b # c # d # e # f' # t # replicate 7 0) bytes)) =
      Inr (mem_of (overwrite ?o (a # b # c # d # e # f' # replicate 8 0) bytes))" for f'
  proof -
    have "take 8 (drop 6 (a # b # c # d # e # f' # t # replicate 7 0)) = t # replicate 7 0" by simp
    moreover have "overwrite 6 (replicate 8 0) (a # b # c # d # e # f' # t # replicate 7 0) = a # b # c # d # e # f' # replicate 8 0"
      by (simp add: overwrite_def)
    ultimately show ?thesis
      using overwrite_shift [OF fit [of f'], of 6 8 "\<lambda>w :: 64 word. push_bit 3 w"] shift_8 [of t] assms(3) by simp
  qed
  show ?thesis unfolding 1 2 3 bind_res.simps list.sel using top_bit(1) [of t] assms(2) by simp
qed

lemma clear_low: "\<not> bit b 0 \<Longrightarrow> b AND 0xfe = (b :: u8)" "bit b 0 \<Longrightarrow> b AND 0xfe OR 1 = (b :: u8)"
  "\<not> bit f 0 \<Longrightarrow> \<not> bit f 1 \<Longrightarrow> f AND 0xfc = (f :: u8)"
  by (intro u8_eqI; simp add: bit_simps)+

lemma low_bits: "(f AND 0x03 = 0) = (\<not> bit (f :: u8) 0 \<and> \<not> bit f 1)" "(f AND 0x02 \<noteq> 0) = bit f 1"
proof -
  show "(f AND 0x02 \<noteq> 0) = bit f 1" using and_exp_eq_0_iff_not_bit [of f 1] by simp
  have bits: "bit (f AND 0x03) 0 = bit f 0" "bit (f AND 0x03) 1 = bit f 1" by (simp_all add: bit_simps)
  show "(f AND 0x03 = 0) = (\<not> bit f 0 \<and> \<not> bit f 1)"
  proof
    assume "f AND 0x03 = 0"
    then show "\<not> bit f 0 \<and> \<not> bit f 1" using bits by simp
  next
    assume "\<not> bit f 0 \<and> \<not> bit f 1"
    then show "f AND 0x03 = 0" by (intro u8_eqI) (simp_all add: bit_simps)
  qed
qed

lemma high_bits: "n < 7 \<Longrightarrow> \<not> bit (0x80 :: u8) n" "n < 6 \<Longrightarrow> \<not> bit (0xc0 :: u8) n"
  by (auto simp: bit_simps less_Suc_eq numeral_eq_Suc)

lemma unpack_mask_2:
  assumes "18 + length (flex_packed [a, b]) \<le> length bytes"
  shows "unpack_mask (length bytes) (mem_of (overwrite kFlexfecPacketMaskOffset (flex_packed [a, b]) bytes)) =
    Inr (Some (length (flex_packed [a, b]),
      mem_of (overwrite kFlexfecPacketMaskOffset ([a, b] @ replicate (length (flex_packed [a, b]) - length [a, b]) 0) bytes)))"
proof -
  obtain p q where pq: "WriteBigEndian 2 (drop_bit 1 (ReadBigEndian [a, b] :: u16)) = [p, q]" by (rule two_bytes)
  show ?thesis
  proof (cases "bit b 0")
    case False
    then have packed: "flex_packed [a, b] = [p OR 0x80, q]"
      using pq top_bit(3) [of b] by (simp add: flex_packed_def)
    have "WriteBigEndian 2 (push_bit 1 (ReadBigEndian [p OR 0x80, q] :: u16)) = [a, b]"
      using shift_2(1) [OF pq high_bits(1)] clear_low(1) [OF False] by simp
    then show ?thesis
      using assms unpack_2 [where bytes = bytes and x = "p OR 0x80" and y = q and a = a and b = b] unfolding packed by (simp add: bit_simps del: push_bit_Suc)
  next
    case True
    then have packed: "flex_packed [a, b] = [p, q, 0xc0, 0, 0, 0]"
      using pq top_bit(3) [of b] by (simp add: flex_packed_def)
    have 1: "WriteBigEndian 2 (push_bit 1 (ReadBigEndian [p, q] :: u16)) = [a, b AND 0xfe]"
      using shift_2(1) [OF pq, of 0] by (simp del: push_bit_Suc)
    have "WriteBigEndian 4 (drop_bit 2 (ReadBigEndian [0, 0, 0, 0] :: u32)) = [0, 0, 0, 0]"
      by (simp add: ReadBigEndian_def WriteBigEndian_4)
    from shift_4(1) [OF this high_bits(2)] have 2: "WriteBigEndian 4 (push_bit 2 (ReadBigEndian [0xc0, 0, 0, 0] :: u32)) = [0, 0, 0, 0]"
      by simp
    have np: "\<not> bit p 7" using shift_2(2) [OF pq, of 0] by simp
    have "b AND 0xfe OR (drop_bit 6 0xc0 AND 1) = b" using clear_low(2) [OF True] by simp
    then show ?thesis
      using assms unpack_second [OF _ np _ 1 2, where bytes = bytes and r = "[]"] unfolding packed by simp
  qed
qed

lemma unpack_mask_6:
  assumes len: "18 + length (flex_packed [a, b, c, d, e, f]) \<le> length bytes"
  shows "unpack_mask (length bytes) (mem_of (overwrite kFlexfecPacketMaskOffset (flex_packed [a, b, c, d, e, f]) bytes)) =
    Inr (Some (length (flex_packed [a, b, c, d, e, f]), mem_of (overwrite kFlexfecPacketMaskOffset
      ([a, b, c, d, e, f] @ replicate (length (flex_packed [a, b, c, d, e, f]) - length [a, b, c, d, e, f]) 0) bytes)))"
proof -
  obtain p q where pq: "WriteBigEndian 2 (drop_bit 1 (ReadBigEndian [a, b] :: u16)) = [p, q]" by (rule two_bytes)
  obtain r s t u where rs: "WriteBigEndian 4 (drop_bit 2 (ReadBigEndian [c, d, e, f] :: u32)) = [r, s, t, u]" by (rule four_bytes)
  define last where "last = (f AND 0x03 = 0)"
  define x where "x = (if bit b 0 then 0x40 else 0) OR (if last then 0x80 else 0 :: u8)"
  define k where "k = 0x80 OR (if bit f 1 then 0x40 else 0) OR (if bit f 0 then 0x20 else 0 :: u8)"
  have packed: "flex_packed [a, b, c, d, e, f] = [p, q, r OR x, s, t, u] @ (if last then [] else k # replicate 7 0)"
    using pq rs unfolding flex_packed_def x_def k_def last_def top_bit low_bits(2)
    by (simp add: or.assoc numeral_eq_Suc)
  have 1: "WriteBigEndian 2 (push_bit 1 (ReadBigEndian [p, q] :: u16)) = [a, b AND 0xfe]"
    using shift_2(1) [OF pq, of 0] by (simp del: push_bit_Suc)
  have np: "\<not> bit p 7" using shift_2(2) [OF pq, of 0] by simp
  have xbits: "\<not> bit x n" if "n < 6" for n
    using that by (auto simp: x_def bit_simps less_Suc_eq numeral_eq_Suc)
  have 2: "WriteBigEndian 4 (push_bit 2 (ReadBigEndian [r OR x, s, t, u] :: u32)) = [c, d, e, f AND 0xfc]"
    using shift_4(1) [OF rs xbits] by simp
  have bits: "bit (r OR x) 7 = last" "bit (r OR x) 6 = bit b 0"
    using shift_4(2,3) [OF rs xbits] by (auto simp: x_def bit_simps)
  have "drop_bit 6 (r OR x) AND 1 = (if bit b 0 then 1 else 0)"
    using bits by (intro u8_eqI) (simp_all add: bit_simps)
  then have second: "b AND 0xfe OR (drop_bit 6 (r OR x) AND 1) = b"
    using clear_low(1,2) [of b] by auto
  have k7: "bit k 7" by (simp add: k_def bit_simps)
  have kbits: "\<not> bit k n" if "n < 5" for n
    using that by (auto simp: k_def bit_simps less_Suc_eq numeral_eq_Suc)
  have tail: "f AND 0xfc OR (drop_bit 5 k AND 0x03) = f"
    by (intro u8_eqI) (simp_all add: k_def bit_simps)
  show ?thesis
  proof (cases last)
    case True
    then have "f AND 0xfc = f" using low_bits(1) [of f] clear_low(3) [of f] by (simp add: last_def)
    then show ?thesis
      using len unpack_second [OF _ np _ 1 2, where bytes = bytes and r = "[]"] bits True
      unfolding packed second by simp
  next
    case False
    then have long: "32 \<le> length bytes" using len unfolding packed by simp
    then show ?thesis
      using unpack_second [OF _ np _ 1 2, where bytes = bytes and r = "k # replicate 7 0", unfolded second]
        third_part [OF _ k7 kbits, of bytes a b c d e "f AND 0xfc", unfolded tail] bits False
      unfolding packed by simp
  qed
qed

section \<open>Packing\<close>

lemma store_extends:
  assumes "o' + length L + length bs \<le> length bytes" "k = length L"
  shows "mem_store what (int (o' + k)) (mem_of bs) (mem_of (overwrite o' L bytes)) = Inr (mem_of (overwrite o' (L @ bs) bytes))"
  using assms overwrite_extend [of o' L bs bytes] by (simp add: store_bytes del: of_nat_add)

lemma replicate_mem: "replicate n (Some v) = mem_of (replicate n v)"
  by (simp add: mem_of_def)

lemma pack_mask_2:
  assumes len: "18 + length (flex_packed [a, b]) \<le> length bytes"
  shows "pack_mask dchecks (mem_of [a, b]) (mem_of bytes) =
    Inr (mem_of (overwrite kFlexfecPacketMaskOffset (flex_packed [a, b]) bytes))"
proof -
  let ?o = kFlexfecPacketMaskOffset
  obtain p q where pq: "WriteBigEndian 2 (drop_bit 1 (ReadBigEndian [a, b] :: u16)) = [p, q]" by (rule two_bytes)
  have o: "?o = 18" by (simp add: header_constants)
  have size: "(length (mem_of [a, b]) = kUlpfecPacketMaskSizeLBitSet) = False"
    "(length (mem_of [a, b]) = kUlpfecPacketMaskSizeLBitClear) = True" by (simp_all add: header_constants)
  have 1: "mem_read ''packet_mask'' 0 2 (mem_of [a, b]) = Inr [a, b]" by (simp add: mem_read_mem_of)
  have fit: "?o + length [p, q] \<le> length bytes" using len o by (auto simp: flex_packed_def Let_def split: if_splits)
  have 2: "mem_store ''data'' (int ?o) (mem_of [p, q]) (mem_of bytes) = Inr (mem_of (overwrite ?o [p, q] bytes))"
    using fit by (simp add: store_bytes)
  have b: "([a, b] ! 1 AND 0x01 = 0) = (\<not> bit b 0)" using top_bit(3) [of b] by auto
  show ?thesis
  proof (cases "bit b 0")
    case False
    then have "flex_packed [a, b] = [p OR 0x80, q]" using pq top_bit(3) [of b] by (simp add: flex_packed_def)
    then show ?thesis unfolding pack_mask_def Let_def size if_False if_True 1 bind_res.simps pq 2 b
      using False overwrite_modify [OF fit, of 0 "\<lambda>b. b OR 0x80"] by simp
  next
    case True
    then have packed: "flex_packed [a, b] = [p, q, 0xc0, 0, 0, 0]" using pq top_bit(3) [of b] by (simp add: flex_packed_def)
    then have long: "?o + 6 \<le> length bytes" using len o by simp
    have 3: "mem_store ''data'' (int (?o + 2)) (replicate 4 (Some 0)) (mem_of (overwrite ?o [p, q] bytes)) =
        Inr (mem_of (overwrite ?o [p, q, 0, 0, 0, 0] bytes))"
      unfolding replicate_mem using long by (subst store_extends) (simp_all add: numeral_eq_Suc)
    have 4: "modify_byte (?o + 2) g (mem_of (overwrite ?o [p, q, x, 0, 0, 0] bytes)) =
        Inr (mem_of (overwrite ?o [p, q, g x, 0, 0, 0] bytes))" for g x
      using overwrite_modify [of ?o "[p, q, x, 0, 0, 0]" bytes 2 g] long by simp
    show ?thesis unfolding pack_mask_def Let_def size if_False if_True 1 bind_res.simps pq 2 b 3 4 packed
      using True by simp
  qed
qed

lemma pack_mask_6:
  assumes len: "18 + length (flex_packed [a, b, c, d, e, f]) \<le> length bytes"
  shows "pack_mask dchecks (mem_of [a, b, c, d, e, f]) (mem_of bytes) =
    Inr (mem_of (overwrite kFlexfecPacketMaskOffset (flex_packed [a, b, c, d, e, f]) bytes))"
proof -
  let ?o = kFlexfecPacketMaskOffset and ?m = "[a, b, c, d, e, f]"
  obtain p q where pq: "WriteBigEndian 2 (drop_bit 1 (ReadBigEndian (take 2 ?m) :: u16)) = [p, q]" by (rule two_bytes)
  obtain r s t u where rs: "WriteBigEndian 4 (drop_bit 2 (ReadBigEndian (drop 2 ?m) :: u32)) = [r, s, t, u]" by (rule four_bytes)
  define r' where "r' = (if bit b 0 then r OR 0x40 else r)"
  have o: "?o = 18" by (simp add: header_constants)
  have size: "(length (mem_of ?m) = kUlpfecPacketMaskSizeLBitSet) = True" by (simp add: header_constants)
  have m: "?m ! 1 = b" "?m ! 5 = f" by simp_all
  have packed: "flex_packed ?m = (if f AND 0x03 = 0 then [p, q, r' OR 0x80, s, t, u]
      else [p, q, r', s, t, u, 0x80 OR (if bit f 1 then 0x40 else 0) OR (if bit f 0 then 0x20 else 0), 0, 0, 0, 0, 0, 0, 0])"
    using pq rs unfolding flex_packed_def m top_bit low_bits(2) r'_def by simp
  have 1: "mem_read ''packet_mask'' 0 6 (mem_of ?m) = Inr ?m" by (simp add: mem_read_mem_of)
  have fit: "?o + length [x1, x2, x3, x4, x5, x6 :: u8] \<le> length bytes" for x1 x2 x3 x4 x5 x6
    using len o unfolding packed by (auto split: if_splits)
  have 2: "mem_store ''data'' (int ?o) (mem_of [p, q]) (mem_of bytes) = Inr (mem_of (overwrite ?o [p, q] bytes))"
    using fit by (simp add: store_bytes)
  have 3: "mem_store ''data'' (int (?o + 2)) (mem_of [r, s, t, u]) (mem_of (overwrite ?o [p, q] bytes)) =
      Inr (mem_of (overwrite ?o [p, q, r, s, t, u] bytes))"
    using fit by (subst store_extends) simp_all
  have 4: "modify_byte (?o + 2) g (mem_of (overwrite ?o [p, q, x, s, t, u] bytes)) =
      Inr (mem_of (overwrite ?o [p, q, g x, s, t, u] bytes))" for g x
    using overwrite_modify [OF fit [of p q x s t u], of 2 g] by simp
  have 5: "(if bit b 0 then modify_byte (?o + 2) (\<lambda>b. b OR 0x40) (mem_of (overwrite ?o [p, q, r, s, t, u] bytes))
      else Inr (mem_of (overwrite ?o [p, q, r, s, t, u] bytes))) = Inr (mem_of (overwrite ?o [p, q, r', s, t, u] bytes))"
    unfolding 4 r'_def by simp
  note steps = pack_mask_def Let_def size if_True 1 bind_res.simps pq 2 rs 3 m top_bit low_bits(2) 5 packed
  show ?thesis
  proof (cases "f AND 0x03 = 0")
    case True
    then show ?thesis unfolding steps unfolding 4 using low_bits(1) [of f] by simp
  next
    case False
    then have long: "?o + 14 \<le> length bytes" using len o unfolding packed by simp
    have 6: "mem_store ''data'' (int (?o + 6)) (replicate 8 (Some 0)) (mem_of (overwrite ?o [p, q, r', s, t, u] bytes)) =
        Inr (mem_of (overwrite ?o [p, q, r', s, t, u, 0, 0, 0, 0, 0, 0, 0, 0] bytes))"
      unfolding replicate_mem using long by (subst store_extends) (simp_all add: numeral_eq_Suc)
    have 7: "modify_byte (?o + 6) g (mem_of (overwrite ?o [p, q, r', s, t, u, x, 0, 0, 0, 0, 0, 0, 0] bytes)) =
        Inr (mem_of (overwrite ?o [p, q, r', s, t, u, g x, 0, 0, 0, 0, 0, 0, 0] bytes))" for g x
      using overwrite_modify [of ?o "[p, q, r', s, t, u, x, 0, 0, 0, 0, 0, 0, 0]" bytes 6 g] long by simp
    show ?thesis unfolding steps 6 7 using low_bits(1) [of f] False by (auto simp: 7 or.assoc)
  qed
qed

section \<open>The whole header\<close>

text \<open>The packet before the mask is packed into it, and the whole header.\<close>

definition flex_pre :: "u32 \<Rightarrow> u16 \<Rightarrow> u8 list \<Rightarrow> u8 list" where
  "flex_pre media_ssrc base bytes =
     overwrite 16 (WriteBigEndian 2 base) (overwrite 12 (WriteBigEndian 4 media_ssrc)
       (overwrite 9 [0, 0, 0] (overwrite 8 [1] (bytes[0 := bytes ! 0 AND 0x3f]))))"

lemma length_flex_pre: "18 \<le> length bytes \<Longrightarrow> length (flex_pre media_ssrc base bytes) = length bytes"
  by (simp add: flex_pre_def)

lemma nth_flex_pre:
  "18 \<le> length bytes \<Longrightarrow> k < length bytes \<Longrightarrow> flex_pre media_ssrc base bytes ! k =
    (if 16 \<le> k \<and> k < 18 then WriteBigEndian 2 base ! (k - 16)
     else if 12 \<le> k \<and> k < 16 then WriteBigEndian 4 media_ssrc ! (k - 12)
     else if 9 \<le> k \<and> k < 12 then [0, 0, 0] ! (k - 9)
     else if k = 8 then 1 else if k = 0 then bytes ! 0 AND 0x3f else bytes ! k)"
  unfolding flex_pre_def by (auto simp: nth_overwrite)

lemma mask_cases:
  assumes "length m \<in> {2, 6}"
  obtains a b where "m = [a, b]" | a b c d e f where "m = [a, b, c, d, e, f :: u8]"
  using assms by (auto simp: length_Suc_conv numeral_eq_Suc)

lemma length_flex_packed:
  "length m \<in> {2, 6} \<Longrightarrow> length (flex_packed m) =
     (if length m = 2 then if m ! 1 AND 0x01 = 0 then 2 else 6 else if m ! 5 AND 0x03 = 0 then 6 else 14)"
  by (auto simp: flex_packed_def Let_def)

lemma flex_sizes:
  assumes "length m \<in> {2, 6}"
  shows "Flexfec_MinPacketMaskSize dchecks (mem_of m) = Inr (length (flex_packed m))"
    "FlexfecHeaderSize dchecks (length (flex_packed m)) = Inr (18 + length (flex_packed m))"
    "length (flex_packed m) \<in> {2, 6, 14}" "length m \<le> length (flex_packed m)"
proof -
  have r: "mem_read w 1 1 (mem_of m) = Inr [m ! 1]" "length m = 6 \<Longrightarrow> mem_read w 5 1 (mem_of m) = Inr [m ! 5]" for w
    using assms by (auto simp: read_bytes)
  show l: "length (flex_packed m) \<in> {2, 6, 14}" "length m \<le> length (flex_packed m)"
    using assms by (auto simp: length_flex_packed)
  show "Flexfec_MinPacketMaskSize dchecks (mem_of m) = Inr (length (flex_packed m))"
    using assms unfolding Flexfec_MinPacketMaskSize_def length_flex_packed [OF assms]
    by (auto simp: r r [unfolded One_nat_def] header_constants)
  show "FlexfecHeaderSize dchecks (length (flex_packed m)) = Inr (18 + length (flex_packed m))"
    using l(1) by (auto simp: FlexfecHeaderSize_def header_constants)
qed

lemma flex_finalize:
  assumes "length m \<in> {2, 6}" "18 + length (flex_packed m) \<le> length bytes"
  shows "Flexfec_FinalizeFecHeader dchecks
      [\<lparr>written_ssrc = media_ssrc, written_seq_num_base = base, written_mask = mem_of m\<rparr>]
      \<lparr>cow_data = mem_of bytes, cow_capacity = c\<rparr> =
    Inr \<lparr>cow_data = mem_of (overwrite kFlexfecPacketMaskOffset (flex_packed m) (flex_pre media_ssrc base bytes)), cow_capacity = c\<rparr>"
proof -
  have ne: "bytes \<noteq> []" and long: "18 \<le> length bytes" using assms by auto
  have zero: "WriteBigEndian 3 (0 :: u32) = [0, 0, 0]" by (simp add: WriteBigEndian_def numeral_3_eq_3)
  have one: "[Some 1] = mem_of [1]" by (simp add: mem_of_def)
  have pack: "pack_mask dchecks (mem_of m) (mem_of (flex_pre media_ssrc base bytes)) =
      Inr (mem_of (overwrite kFlexfecPacketMaskOffset (flex_packed m) (flex_pre media_ssrc base bytes)))"
    using assms length_flex_pre [OF long, of media_ssrc base]
    by (cases rule: mask_cases [OF assms(1)]) (auto intro!: pack_mask_2 pack_mask_6)
  show ?thesis
    unfolding Flexfec_FinalizeFecHeader_def change_data_def zero one
    using ne long pack unfolding flex_pre_def
    by (simp add: RTC_CHECK_def modify_byte_eq store_bytes and.assoc)
qed

lemma flex_reads_back:
  assumes m: "length m \<in> {2, 6}" and len: "18 + length (flex_packed m) \<le> length bytes" "length bytes < 2 ^ 64"
    and p: "cow_data (fec_pkt p) = mem_of (overwrite kFlexfecPacketMaskOffset (flex_packed m) (flex_pre media_ssrc base bytes))"
  shows "\<exists>q. Flexfec_ReadFecHeader dchecks p = Inr (Some q) \<and>
    reads_back (18 + length (flex_packed m)) media_ssrc base m bytes p q"
proof -
  let ?pre = "flex_pre media_ssrc base bytes" and ?n = "length (flex_packed m)"
  have long: "20 \<le> length bytes" "bytes \<noteq> []" and n: "2 \<le> ?n" using len(1) flex_sizes(3) [OF m] by auto
  define wire where "wire = overwrite kFlexfecPacketMaskOffset (flex_packed m) ?pre"
  define data where "data = overwrite kFlexfecPacketMaskOffset (m @ replicate (?n - length m) 0) ?pre"
  have pre: "length ?pre = length bytes" using long by (simp add: length_flex_pre)
  have lenw: "length wire = length bytes" "length data = length bytes"
    unfolding wire_def data_def using len flex_sizes(4) [OF m] pre by (simp_all add: header_constants)
  have nth: "wire ! k = ?pre ! k" "data ! k = ?pre ! k" if "k < length bytes" "k < 18 \<or> 18 + ?n \<le> k" for k
    unfolding wire_def data_def using that len flex_sizes(4) [OF m] pre by (auto simp: nth_overwrite header_constants)
  have w: "WriteBigEndian 2 base = map (\<lambda>k. WriteBigEndian 2 base ! k) [0..<2]"
    "WriteBigEndian 4 media_ssrc = map (\<lambda>k. WriteBigEndian 4 media_ssrc ! k) [0..<4]"
    by (rule nth_equalityI; simp)+
  have pre_nth: "?pre ! 0 = bytes ! 0 AND 0x3f" "?pre ! 8 = 1" using long by (simp_all add: nth_flex_pre)
  have reads: "mem_read what 0 1 (mem_of wire) = Inr [bytes ! 0 AND 0x3f]" "mem_read what 8 1 (mem_of wire) = Inr [1]"
    "mem_read what 12 4 (mem_of wire) = Inr (WriteBigEndian 4 media_ssrc)"
    "mem_read what 16 2 (mem_of wire) = Inr (WriteBigEndian 2 base)" for what
  proof -
    show "mem_read what 0 1 (mem_of wire) = Inr [bytes ! 0 AND 0x3f]" "mem_read what 8 1 (mem_of wire) = Inr [1]"
      using long by (simp_all add: read_bytes lenw nth pre_nth)
    show "mem_read what 12 4 (mem_of wire) = Inr (WriteBigEndian 4 media_ssrc)"
      using long by (subst w(2)) (simp add: read_bytes lenw nth nth_flex_pre)
    show "mem_read what 16 2 (mem_of wire) = Inr (WriteBigEndian 2 base)"
      using long by (subst w(1)) (simp add: read_bytes lenw nth nth_flex_pre)
  qed
  have unpack: "unpack_mask (length bytes) (mem_of wire) = Inr (Some (?n, mem_of data))"
    using unpack_mask_2 [where bytes = ?pre] unpack_mask_6 [where bytes = ?pre] len(1) pre unfolding wire_def data_def
    by (cases rule: mask_cases [OF m]) auto
  have top: "\<not> bit (bytes ! 0 AND 0x3f) 7" "\<not> bit (bytes ! 0 AND 0x3f) 6" by (simp_all add: bit_simps)
  have sz: "size_t (int (length bytes) - int (18 + ?n)) = length bytes - (18 + ?n)"
    using len by (simp add: size_t_small nat_diff_distrib' del: of_nat_add)
  have be: "ReadBigEndian (WriteBigEndian 2 v) = v" "ReadBigEndian (WriteBigEndian 4 v') = v'" for v :: u16 and v' :: u32
    by (simp_all add: ReadBigEndian_Write)
  have "Flexfec_ReadFecHeader dchecks p = Inr (Some (p\<lparr>
      protected_streams := [\<lparr>stream_ssrc = media_ssrc, stream_seq_num_base = base,
        stream_mask_offset = 18, stream_mask_size = ?n\<rparr>],
      fec_header_size := 18 + ?n, protection_length := length bytes - (18 + ?n),
      fec_pkt := (fec_pkt p)\<lparr>cow_data := mem_of data\<rparr>\<rparr>))"
    unfolding Flexfec_ReadFecHeader_def Let_def p [folded wire_def] reads length_mem_of lenw bind_res.simps unpack option.case prod.case
      flex_sizes(2) [OF m] sz be list.sel top_bit
    using long top by (simp add: header_constants)
  moreover have "reads_back (18 + ?n) media_ssrc base m bytes p (p\<lparr>
      protected_streams := [\<lparr>stream_ssrc = media_ssrc, stream_seq_num_base = base,
        stream_mask_offset = 18, stream_mask_size = ?n\<rparr>],
      fec_header_size := 18 + ?n, protection_length := length bytes - (18 + ?n),
      fec_pkt := (fec_pkt p)\<lparr>cow_data := mem_of data\<rparr>\<rparr>)"
  proof -
    have "take ?n (drop 18 data) = m @ replicate (?n - length m) 0"
      unfolding data_def using len(1) flex_sizes(4) [OF m] pre by (simp add: overwrite_def header_constants)
    moreover have "data ! 0 AND 0x3f = bytes ! 0 AND 0x3f" using nth(2) [of 0] long pre_nth by (simp add: and.assoc)
    moreover have "data ! i = bytes ! i" if "0 < i \<and> i < 8 \<or> 18 + ?n \<le> i \<and> i < length bytes" for i
      using nth(2) [of i] that long by (auto simp: nth_flex_pre)
    ultimately show ?thesis
      unfolding reads_back_def using lenw(2) flex_sizes(4) [OF m]
      by (intro exI [of _ data] exI [of _ 18] exI [of _ ?n]) auto
  qed
  ultimately show ?thesis by blast
qed

text \<open>The reader on arbitrary bytes.\<close>

text \<open>A step that keeps the size of the packet, and what follows it.\<close>

definition resized :: "nat \<Rightarrow> mem res \<Rightarrow> bool" where
  "resized n r \<longleftrightarrow> (\<exists>data. r = Inr (mem_of data) \<and> length data = n)"

lemma resized_bind: "resized n r \<Longrightarrow> (\<And>data. length data = n \<Longrightarrow> Q (k (mem_of data))) \<Longrightarrow> Q (bind_res r k)"
  by (auto simp: resized_def)

lemma read_bind: "i < length data \<Longrightarrow> Q (k [data ! i]) \<Longrightarrow> Q (bind_res (mem_read what (int i) 1 (mem_of data)) k)"
  by (simp add: read_bytes)

lemma modify_resized: "i < length data \<Longrightarrow> resized (length data) (modify_byte i f (mem_of data))"
  by (simp add: modify_byte_eq resized_def)

lemma shift_resized: "off + n \<le> length data \<Longrightarrow> resized (length data) (shift_field off n f (mem_of data))"
  by (simp add: shift_field_def read_bytes store_bytes resized_def)

definition unpacked :: "nat \<Rightarrow> (nat \<times> mem) option res \<Rightarrow> bool" where
  "unpacked sz r \<longleftrightarrow> (\<exists>ret. r = Inr ret \<and>
     (\<forall>n d. ret = Some (n, d) \<longrightarrow> n \<in> {2, 6, 14} \<and> (\<exists>data. d = mem_of data \<and> length data = sz)))"

lemma unpacked_simps [simp]:
  "unpacked sz (Inr None)" "unpacked sz (Inr (Some (n, mem_of data))) \<longleftrightarrow> n \<in> {2, 6, 14} \<and> length data = sz"
  by (auto simp: unpacked_def)

lemma unpack_mask_total:
  assumes "20 \<le> length data"
  shows "unpacked (length data) (unpack_mask (length data) (mem_of data))"
proof -
  have m: "kFlexfecPacketMaskOffset = 18" "kHeaderSizes ! 1 = 24" "kHeaderSizes ! 2 = 32" "kFlexfecPacketMaskSizes ! 0 = 2"
    "kFlexfecPacketMaskSizes ! 1 = 6" "kFlexfecPacketMaskSizes ! 2 = 14"
    by (simp_all add: header_constants)
  let ?size = "length data"
  note read = read_bind [where Q = "unpacked ?size"]
  note modify = resized_bind [OF modify_resized, where Q = "unpacked ?size"]
  note shift = resized_bind [OF shift_resized, where Q = "unpacked ?size"]
  have third: "unpacked ?size (if ?size < 32 then Inr None else
      bind_res (mem_read ''data'' (int (18 + 6)) 1 (mem_of d)) (\<lambda>m6.
        if hd m6 AND 0x80 = 0 then Inr None
        else bind_res (modify_byte (18 + 5) (\<lambda>b. b OR (drop_bit 5 (hd m6) AND 0x03)) (mem_of d)) (\<lambda>data4.
          bind_res (shift_field (18 + 6) 8 (\<lambda>w :: 64 word. push_bit 3 w) data4) (\<lambda>data5. Inr (Some (14, data5))))))"
    if d: "length d = ?size" for d
  proof (cases "?size < 32")
    case False
    have "unpacked ?size (bind_res (modify_byte (18 + 5) f (mem_of d)) (\<lambda>data4.
        bind_res (shift_field (18 + 6) 8 (\<lambda>w :: 64 word. push_bit 3 w) data4) (\<lambda>data5. Inr (Some (14, data5)))))" for f
      using False d by (intro modify shift) auto
    then show ?thesis using False d by (subst if_not_P, simp) (rule read, auto)
  qed simp
  have second: "unpacked ?size (if ?size < 24 then Inr None else
      bind_res (mem_read ''data'' (int (18 + 2)) 1 (mem_of d)) (\<lambda>m2.
      bind_res (modify_byte (18 + 1) (\<lambda>b. b OR (drop_bit 6 (hd m2) AND 0x01)) (mem_of d)) (\<lambda>data2.
      bind_res (shift_field (18 + 2) 4 (\<lambda>w :: u32. push_bit 2 w) data2) (\<lambda>data3.
        if hd m2 AND 0x80 \<noteq> 0 then Inr (Some (6, data3)) else k data3))))"
    if d: "length d = ?size" and k: "\<And>d. length d = ?size \<Longrightarrow> unpacked ?size (k (mem_of d))" for d k
  proof (cases "?size < 24")
    case False
    have "unpacked ?size (bind_res (modify_byte (18 + 1) f (mem_of d)) (\<lambda>data2.
        bind_res (shift_field (18 + 2) 4 (\<lambda>w :: u32. push_bit 2 w) data2) (\<lambda>data3.
          if b then Inr (Some (6, data3)) else k data3)))" for f b
      using False d k by (intro modify shift) auto
    then show ?thesis using False d by (subst if_not_P, simp) (rule read, auto)
  qed simp
  have first: "unpacked ?size (bind_res (shift_field 18 2 (\<lambda>w :: u16. push_bit 1 w) (mem_of data)) (\<lambda>data1.
      if b then Inr (Some (2, data1)) else k data1))"
    if "\<And>d. length d = ?size \<Longrightarrow> unpacked ?size (k (mem_of d))" for b k
    using assms that by (intro shift) auto
  have "18 < ?size" using assms by simp
  then show ?thesis
    unfolding unpack_mask_def Let_def m
    by (rule read) (rule first, rule second, assumption, rule third, assumption)
qed

lemma flex_reader_total:
  assumes p: "cow_data (fec_pkt p) = mem_of data"
  shows "\<exists>ret. Flexfec_ReadFecHeader dchecks p = Inr ret \<and> (\<forall>q. ret = Some q \<longrightarrow> header_parsed p data q)"
proof (cases "length data < 20")
  case True
  then show ?thesis
    by (cases "length data \<le> 18") (auto simp: Flexfec_ReadFecHeader_def p header_constants read_bytes Let_def)
next
  case False
  then have l: "20 \<le> length data" by simp
  from unpack_mask_total [OF l] obtain ret where ret: "unpack_mask (length data) (mem_of data) = Inr ret"
    "\<And>n d. ret = Some (n, d) \<Longrightarrow> n \<in> {2, 6, 14} \<and> (\<exists>data'. d = mem_of data' \<and> length data' = length data)"
    unfolding unpacked_def by blast
  have hs: "n \<in> {2, 6, 14} \<Longrightarrow> FlexfecHeaderSize dchecks n = Inr (18 + n)" for n
    by (auto simp: FlexfecHeaderSize_def header_constants)
  show ?thesis
  proof (cases ret)
    case None
    then show ?thesis using l ret(1) by (auto simp: Flexfec_ReadFecHeader_def p header_constants read_bytes Let_def)
  next
    case (Some a)
    then obtain n data' where a: "a = (n, mem_of data')" "n \<in> {2, 6, 14}" "length data' = length data"
      using ret(2) by (cases a) blast
    then show ?thesis
      using l ret(1) Some hs [OF a(2)]
      by (auto simp: Flexfec_ReadFecHeader_def p header_constants read_bytes Let_def intro!: header_parsedI)
  qed
qed

interpretation flexfec: fec_header_format Flexfec03HeaderWriter Flexfec03HeaderReader "\<lambda>_ _. True"
proof (unfold_locales, goal_cases)
  case 1
  show ?case by (simp add: Flexfec03HeaderWriter_def header_constants)
next
  case 2
  show ?case by (simp add: Flexfec03HeaderWriter_def header_constants)
next
  case 3
  show ?case by (simp add: Flexfec03HeaderReader_def header_constants)
next
  case 4
  show ?case by (simp add: Flexfec03HeaderReader_def header_constants)
next
  case 5
  show ?case by (simp add: Flexfec03HeaderWriter_def header_constants)
next
  case (6 packet_mask dchecks)
  then show ?case
    using flex_sizes [OF 6] by (auto simp: Flexfec03HeaderWriter_def header_constants)
next
  case (7 packet_mask dchecks n hs bytes media_ssrc base c)
  then have hs: "hs = 18 + length (flex_packed packet_mask)"
    using flex_sizes(1,2) [OF 7(1), of dchecks] by (simp add: Flexfec03HeaderWriter_def)
  then have len: "18 + length (flex_packed packet_mask) \<le> length bytes" "length bytes < 2 ^ 64"
    using 7(4,5) flex_sizes(3) [OF 7(1)] by auto
  have l: "length (overwrite kFlexfecPacketMaskOffset (flex_packed packet_mask) (flex_pre media_ssrc base bytes)) = length bytes"
    using len length_flex_pre [of bytes media_ssrc base] by (simp add: header_constants)
  show ?case
    unfolding hs Flexfec03HeaderWriter_def Flexfec03HeaderReader_def FecHeaderWriter.simps FecHeaderReader.simps
    using flex_finalize [OF 7(1) len(1)] flex_reads_back [OF 7(1) len] l by auto
next
  case (8 p data dchecks)
  then show ?case unfolding Flexfec03HeaderReader_def FecHeaderReader.simps by (rule flex_reader_total)
qed

text \<open>
  Claim C33. The FlexFEC header survives the wire: what the writer puts in front of a FEC packet, the reader of a received packet with
  these bytes finds again, namely the protected stream, the first sequence number, the mask, the size of the header and the
  protected bytes behind it. This holds for every mask of 16 or 48 bits, whether or not its last bits force the longer form with more
  K-bits, and for every pair of stream identifiers.
\<close>

theorem flexfec_header_roundtrip:
  assumes "length packet_mask \<in> {2, 6}" "Flexfec_MinPacketMaskSize dchecks (mem_of packet_mask) = Inr n"
    "18 + n \<le> length bytes" "length bytes - (18 + n) < 2 ^ 16"
  shows "\<exists>wire. Flexfec_FinalizeFecHeader dchecks
      [\<lparr>written_ssrc = media_ssrc, written_seq_num_base = base, written_mask = mem_of packet_mask\<rparr>]
      \<lparr>cow_data = mem_of bytes, cow_capacity = c\<rparr> = Inr \<lparr>cow_data = mem_of wire, cow_capacity = c\<rparr> \<and>
    length wire = length bytes \<and>
    (\<forall>p. cow_data (fec_pkt p) = mem_of wire \<longrightarrow>
       (\<exists>q. Flexfec_ReadFecHeader dchecks p = Inr (Some q) \<and> reads_back (18 + n) media_ssrc base packet_mask bytes p q))"
proof -
  have n: "MinPacketMaskSize Flexfec03HeaderWriter dchecks (mem_of packet_mask) = Inr n" "n = length (flex_packed packet_mask)"
    using assms(2) flex_sizes(1) [OF assms(1), of dchecks] by (simp_all add: Flexfec03HeaderWriter_def)
  have "FecHeaderSize Flexfec03HeaderWriter dchecks n = Inr (18 + n)"
    using flex_sizes(2) [OF assms(1)] n(2) by (simp add: Flexfec03HeaderWriter_def)
  from flexfec.finalized_reads_back [OF assms(1) n(1) this assms(3,4), where media_ssrc = media_ssrc and base = base and c = c]
  show ?thesis by (auto simp: Flexfec03HeaderWriter_def Flexfec03HeaderReader_def)
qed

theorem flexfec_header_roundtrip_witness:
  "\<exists>wire q. Flexfec_FinalizeFecHeader True
      [\<lparr>written_ssrc = 7, written_seq_num_base = 0xfffe, written_mask = mem_of [0xa0, 1]\<rparr>]
      \<lparr>cow_data = mem_of (replicate 30 9), cow_capacity = 1500\<rparr> = Inr \<lparr>cow_data = mem_of wire, cow_capacity = 1500\<rparr> \<and>
    Flexfec_ReadFecHeader True
      \<lparr>ssrc = 8, seq_num = 3, protected_packets = [], protected_streams = [], fec_header_size = 0,
       protection_length = 0, fec_pkt = buffer_of wire\<rparr> = Inr (Some q) \<and>
    fec_header_size q = 24 \<and> protection_length q = 6 \<and> map stream_ssrc (protected_streams q) = [7]"
proof -
  have "Flexfec_MinPacketMaskSize True (mem_of [0xa0, 1]) = Inr 6"
    by (simp add: Flexfec_MinPacketMaskSize_def read_bytes header_constants)
  from flexfec_header_roundtrip [OF _ this, of "replicate 30 9" 7 "0xfffe" 1500] obtain wire where
    w: "Flexfec_FinalizeFecHeader True [\<lparr>written_ssrc = 7, written_seq_num_base = 0xfffe, written_mask = mem_of [0xa0, 1]\<rparr>]
      \<lparr>cow_data = mem_of (replicate 30 9), cow_capacity = 1500\<rparr> = Inr \<lparr>cow_data = mem_of wire, cow_capacity = 1500\<rparr>"
    and all: "\<forall>p. cow_data (fec_pkt p) = mem_of wire \<longrightarrow>
       (\<exists>q. Flexfec_ReadFecHeader True p = Inr (Some q) \<and> reads_back 24 7 0xfffe [0xa0, 1] (replicate 30 9) p q)"
    by auto
  let ?p = "\<lparr>ssrc = 8, seq_num = 3, protected_packets = [], protected_streams = [], fec_header_size = 0,
       protection_length = 0, fec_pkt = buffer_of wire\<rparr>"
  have "cow_data (fec_pkt ?p) = mem_of wire" by (simp add: buffer_of_def)
  with all obtain q where q: "Flexfec_ReadFecHeader True ?p = Inr (Some q)"
    and rb: "reads_back 24 7 0xfffe [0xa0, 1] (replicate 30 9) ?p q" by blast
  from rb have r: "fec_header_size q = 24 \<and> protection_length q = 6 \<and> map stream_ssrc (protected_streams q) = [7]"
    unfolding reads_back_def by (elim exE conjE) simp
  show ?thesis by (rule exI [of _ wire], rule exI [of _ q], rule conjI [OF w conjI [OF q r]])
qed

end
