(* ===== verification/Codec_Encode.thy ===== *)
theory Codec_Encode
  imports Uep_Coverage Codec_Recover Flexfec_Header
begin

text \<open>
  The encoder of the WebRTC codec (\<open>EncodeFec\<close>, \<open>NumFecPackets\<close>, \<open>GenerateFecPayloads\<close>, \<open>FinalizeFecHeaders\<close> of
  \<^verbatim>\<open>forward_error_correction.cc\<close>) for any header format: what it puts on the wire is, for every FEC packet, the XOR of
  the media packets that its row of the mask selects, under a header that names them.
\<close>

section \<open>The number of FEC packets\<close>

definition fec_count :: "nat \<Rightarrow> nat \<Rightarrow> nat" where
  "fec_count n factor = (if 0 < factor then max 1 ((n * factor + 128) div 256) else 0)"

lemma fec_count_le: "0 < n \<Longrightarrow> factor \<le> 255 \<Longrightarrow> fec_count n factor \<le> n"
proof -
  assume n: "0 < n" and "factor \<le> 255"
  define x where "x = n * factor"
  have "x \<le> n * 255" unfolding x_def by (intro mult_le_mono2 \<open>factor \<le> 255\<close>)
  then have "n * factor + 128 < 256 * Suc n" unfolding x_def [symmetric] by simp
  then have "(n * factor + 128) div 256 < Suc n" by (simp add: div_less_iff_less_mult mult.commute)
  then show ?thesis using n by (simp add: fec_count_def)
qed

lemma NumFecPackets_eq:
  assumes "0 < n" "factor \<le> 255"
  shows "NumFecPackets dchecks (int n) (int factor) = Inr (int (fec_count n factor))"
proof -
  have d: "drop_bit 8 (int n * int factor + push_bit 7 1) = int ((n * factor + 128) div 256)"
    by (simp add: drop_bit_eq_div push_bit_eq_mult zdiv_int)
  have "(n * factor + 128) div 256 = 0" if "factor = 0" using that by simp
  then have "(if int factor > 0 \<and> int ((n * factor + 128) div 256) = 0 then 1 else int ((n * factor + 128) div 256)) = int (fec_count n factor)"
    by (auto simp: fec_count_def)
  then show ?thesis unfolding NumFecPackets_def Let_def d using fec_count_le [OF assms] by simp
qed

section \<open>One FEC packet\<close>

text \<open>The bytes of a FEC packet under construction that holds the packets \<open>ps\<close>.\<close>

definition fec_parity :: "nat \<Rightarrow> u8 list list \<Rightarrow> u8 list \<Rightarrow> bool" where
  "fec_parity hs ps bytes \<longleftrightarrow> length bytes = foldr (\<lambda>p n. max (hs + (length p - 12)) n) ps 0 \<and>
     (\<forall>i. i < 8 \<or> hs \<le> i \<longrightarrow> at0 bytes i = xors hs ps i)"

lemma max_foldr: "foldr (\<lambda>p n. max (f p) n) ps (a :: nat) = max a (foldr (\<lambda>p n. max (f p) n) ps 0)"
  by (induction ps) auto

lemma fec_parity_snoc:
  "foldr (\<lambda>p n. max (hs + (length p - 12)) n) (ps @ [p]) 0 =
   max (foldr (\<lambda>p n. max (hs + (length p - 12)) n) ps 0) (hs + (length p - 12))"
  using max_foldr [of "\<lambda>p. hs + (length p - 12)" ps "hs + (length p - 12)"] by simp

lemma parity_step:
  assumes "fec_parity hs ps bytes" "combined hs p (bytes @ replicate (hs + (length p - 12) - length bytes) 0) bytes'"
    "12 \<le> length p" "8 \<le> hs"
  shows "fec_parity hs (ps @ [p]) bytes'"
proof -
  let ?g = "bytes @ replicate (hs + (length p - 12) - length bytes) 0"
  have g: "length ?g = max (length bytes) (hs + (length p - 12))" by simp
  have len: "length bytes' = max (length bytes) (hs + (length p - 12))"
    using assms(2,3) g by (simp add: combined_def)
  have at: "at0 ?g i = at0 bytes i" for i by (simp add: at0_def nth_append)
  have "at0 bytes' i = xors hs (ps @ [p]) i" if i: "i < 8 \<or> hs \<le> i" for i
  proof (cases "i < length bytes'")
    case True
    then have "bytes' ! i = at0 bytes i XOR fec_image hs p i" using assms(2) i at unfolding combined_def by metis
    moreover have "at0 bytes i = xors hs ps i" using assms(1) i by (auto simp: fec_parity_def)
    ultimately show ?thesis using True by (simp add: at0_def [of bytes'] xors_append)
  next
    case False
    then have "fec_image hs p i = 0" "at0 bytes i = 0" using len assms(4) by (auto simp: fec_image_def at0_def)
    moreover from this have "xors hs ps i = 0" using assms(1) i by (auto simp: fec_parity_def)
    ultimately show ?thesis using False by (simp add: at0_def [of bytes'] xors_append)
  qed
  then show ?thesis using assms(1) len fec_parity_snoc [of hs ps p] by (simp add: fec_parity_def)
qed

lemma protect_one:
  assumes p: "12 \<le> length p" "length p < 2 ^ 16" and hs: "8 \<le> hs" "hs < 2 ^ 16"
    and b: "fec_parity hs ps bytes" "length bytes \<le> c"
  shows "\<exists>bytes' c'. bind_res
      (if hs + (length p - 12) > buffer_size \<lparr>cow_data = mem_of bytes, cow_capacity = c\<rparr>
       then grow_zeroed (hs + (length p - 12)) \<lparr>cow_data = mem_of bytes, cow_capacity = c\<rparr>
       else Inr \<lparr>cow_data = mem_of bytes, cow_capacity = c\<rparr>)
      (\<lambda>f1. bind_res (codec_XorHeaders (mem_of p) f1) (\<lambda>f2. codec_XorPayloads dchecks (mem_of p) (length p - 12) hs f2)) =
    Inr \<lparr>cow_data = mem_of bytes', cow_capacity = c'\<rparr> \<and> fec_parity hs (ps @ [p]) bytes' \<and> length bytes' \<le> c'"
proof -
  let ?n = "hs + (length p - 12)" and ?g = "bytes @ replicate (hs + (length p - 12) - length bytes) 0"
  define c1 where "c1 = (if length bytes < ?n then max c ?n else c)"
  have grow: "(if ?n > buffer_size \<lparr>cow_data = mem_of bytes, cow_capacity = c\<rparr>
       then grow_zeroed ?n \<lparr>cow_data = mem_of bytes, cow_capacity = c\<rparr> else Inr \<lparr>cow_data = mem_of bytes, cow_capacity = c\<rparr>) =
      Inr \<lparr>cow_data = mem_of ?g, cow_capacity = c1\<rparr>"
    by (auto simp: grow_zeroed_eq c1_def)
  have c1: "hs + length p - 12 \<le> c1" using b(2) p by (auto simp: c1_def)
  have "length p < 2 ^ 32" "hs \<le> length ?g" "hs < 2 ^ 32" using p hs by auto
  from XorPacket_eq [OF p(1) this(1) hs(1) this(2,3) c1, of dchecks] obtain bytes' c' where
    b': "bind_res (codec_XorHeaders (mem_of p) \<lparr>cow_data = mem_of ?g, cow_capacity = c1\<rparr>)
        (codec_XorPayloads dchecks (mem_of p) (length p - 12) hs) = Inr \<lparr>cow_data = mem_of bytes', cow_capacity = c'\<rparr>"
      "c1 \<le> c'" "combined hs p ?g bytes'"
    by auto
  have "fec_parity hs (ps @ [p]) bytes'" using b(1) b'(3) p(1) hs(1) by (rule parity_step)
  moreover have "length bytes' \<le> c'" using b'(2,3) b(2) c1 p(1) by (auto simp: combined_def c1_def split: if_splits)
  ultimately show ?thesis using b'(1) by (simp only: grow bind_res.simps) blast
qed

section \<open>One row of the mask\<close>

lemma advance_column:
  assumes "b \<le> (a :: nat)"
  shows "b div 8 + (b mod 8 + (a - b)) div 8 = a div 8" "(b mod 8 + (a - b)) mod 8 = a mod 8"
proof -
  define q r where "q = b div 8" and "r = b mod 8 + (a - b)"
  have "a = 8 * q + r" using assms mult_div_mod_eq [of 8 b] unfolding q_def r_def by linarith
  then have "q + r div 8 = a div 8" "r mod 8 = a mod 8" by simp_all
  then show "b div 8 + (b mod 8 + (a - b)) div 8 = a div 8" "(b mod 8 + (a - b)) mod 8 = a mod 8" by (simp_all add: q_def r_def)
qed

lemma protect_media_row:
  assumes num: "numbered s0 d media" and n: "n = length media"
    and media: "\<And>p. p \<in> set media \<Longrightarrow> 12 \<le> length p \<and> length p < 2 ^ 16"
    and hs: "8 \<le> hs" "hs < 2 ^ 16"
    and masks: "masks = mem_of B @ rest" "length B = rows * w" "r < rows" "d (n - 1) < 8 * w"
  shows "j \<le> n \<Longrightarrow> fec_parity hs (map ((!) media) (filter (\<lambda>j. protects B w r (d j)) [0..<j])) bytes \<Longrightarrow> length bytes \<le> c \<Longrightarrow>
    \<exists>bytes' c'. protect_media dchecks masks hs (drop j media) (s0 + of_nat (d j)) (r * w + d j div 8) (d j mod 8)
        \<lparr>cow_data = mem_of bytes, cow_capacity = c\<rparr> = Inr \<lparr>cow_data = mem_of bytes', cow_capacity = c'\<rparr> \<and>
      fec_parity hs (map ((!) media) (filter (\<lambda>j. protects B w r (d j)) [0..<n])) bytes'"
proof (induction "n - j" arbitrary: j bytes c)
  case 0
  then show ?case using n by (intro exI [of _ bytes] exI [of _ c]) auto
next
  case (Suc m)
  then have j: "j < n" by simp
  let ?f = "\<lparr>cow_data = mem_of bytes, cow_capacity = c\<rparr>" and ?p = "media ! j"
  have drop: "drop j media = ?p # drop (Suc j) media" using j n by (simp add: Cons_nth_drop_Suc)
  have "d j \<le> d (n - 1)" using numbered_mono [OF num, of j "n - 1"] j n by simp
  then have "d j div 8 < w" using masks(4) by (simp add: less_mult_imp_div_less mult.commute)
  then have cell: "r * w + d j div 8 < length B" using row_cell_less [OF masks(3)] masks(2) by simp
  then have read: "mem_read what (int (r * w + d j div 8)) 1 masks = Inr [B ! (r * w + d j div 8)]" for what
    by (intro mem_read_one) (auto simp: masks(1) mem_of_def nth_append)
  have bit: "bit (B ! (r * w + d j div 8)) (7 - d j mod 8) = protects B w r (d j)" by (simp add: protects_def)
  have pl: "12 \<le> length ?p" "length ?p < 2 ^ 16" using media [of ?p] j n by auto
  have "\<exists>bytes1 c1. (if protects B w r (d j) then
      (let media_payload_length = length ?p - kRtpHeaderSize; fec_packet_length = hs + media_payload_length
       in bind_res (if fec_packet_length > buffer_size ?f then grow_zeroed fec_packet_length ?f else Inr ?f)
            (\<lambda>f1. bind_res (codec_XorHeaders (mem_of ?p) f1) (\<lambda>f2. codec_XorPayloads dchecks (mem_of ?p) media_payload_length hs f2)))
      else Inr ?f) = Inr \<lparr>cow_data = mem_of bytes1, cow_capacity = c1\<rparr> \<and>
      fec_parity hs (map ((!) media) (filter (\<lambda>j. protects B w r (d j)) [0..<Suc j])) bytes1 \<and> length bytes1 \<le> c1"
    using protect_one [OF pl hs Suc.prems(2,3), of dchecks] Suc.prems(2,3)
    by (cases "protects B w r (d j)") (auto simp: kRtpHeaderSize_def Let_def)
  then obtain bytes1 c1 where b1: "(if protects B w r (d j) then
      (let media_payload_length = length ?p - kRtpHeaderSize; fec_packet_length = hs + media_payload_length
       in bind_res (if fec_packet_length > buffer_size ?f then grow_zeroed fec_packet_length ?f else Inr ?f)
            (\<lambda>f1. bind_res (codec_XorHeaders (mem_of ?p) f1) (\<lambda>f2. codec_XorPayloads dchecks (mem_of ?p) media_payload_length hs f2)))
      else Inr ?f) = Inr \<lparr>cow_data = mem_of bytes1, cow_capacity = c1\<rparr>"
      "fec_parity hs (map ((!) media) (filter (\<lambda>j. protects B w r (d j)) [0..<Suc j])) bytes1" "length bytes1 \<le> c1" by blast
  have "m = n - Suc j" "Suc j \<le> n" using Suc.hyps(2) j by simp_all
  from Suc.hyps(1) [OF this b1(2,3)] obtain bytes2 c2 where
    b2: "protect_media dchecks masks hs (drop (Suc j) media) (s0 + of_nat (d (Suc j))) (r * w + d (Suc j) div 8) (d (Suc j) mod 8)
        \<lparr>cow_data = mem_of bytes1, cow_capacity = c1\<rparr> = Inr \<lparr>cow_data = mem_of bytes2, cow_capacity = c2\<rparr>"
      "fec_parity hs (map ((!) media) (filter (\<lambda>j. protects B w r (d j)) [0..<n])) bytes2" by blast
  have "protect_media dchecks masks hs (drop j media) (s0 + of_nat (d j)) (r * w + d j div 8) (d j mod 8) ?f =
      Inr \<lparr>cow_data = mem_of bytes2, cow_capacity = c2\<rparr>"
  proof (cases "Suc j < n")
    case True
    let ?q = "media ! Suc j"
    have next_: "drop (Suc j) media = ?q # drop (Suc (Suc j)) media" using True n by (simp add: Cons_nth_drop_Suc)
    have "d (Suc j) \<le> d (n - 1)" using numbered_mono [OF num, of "Suc j" "n - 1"] True n by simp
    then have "d j < d (Suc j)" "d (Suc j) < 48" using num True n by (auto simp: numbered_def)
    then have "unat (of_nat (d (Suc j) - d j) :: u16) = d (Suc j) - d j" "d j \<le> d (Suc j)"
      by (simp_all only: unat_of_nat) simp_all
    then have u: "unat (of_nat (d (Suc j)) - of_nat (d j) :: u16) = d (Suc j) - d j" "d j \<le> d (Suc j)" by simp_all
    have parse: "ParseSequenceNumber ?q = Inr (s0 + of_nat (d (Suc j)))" using num True n by (simp add: numbered_def)
    show ?thesis
      unfolding drop protect_media.simps read bind_res.simps list.sel bit b1(1)
      using b2(1) by (simp add: next_ parse u(1) advance_column [OF u(2)] add.assoc del: protect_media.simps)
  next
    case False
    then have "drop (Suc j) media = []" using n by simp
    then show ?thesis
      unfolding drop protect_media.simps read bind_res.simps list.sel bit b1(1) using b2(1) by simp
  qed
  then show ?case using b2(2) by blast
qed

section \<open>Masks on the wire\<close>

lemma upt_bytes: "[0..<8 * Suc n] = [0..<8 * n] @ map (\<lambda>i. 8 * n + i) [0..<8]"
proof -
  have "[0..<8 * n + 8] = [0..<8 * n] @ [8 * n..<8 * n + 8]" by (rule upt_add_eq_append) simp
  moreover have "[8 * n..<8 * n + 8] = map (\<lambda>i. 8 * n + i) [0..<8]" by (simp add: map_add_upt add.commute)
  ultimately show ?thesis by (simp add: add.commute)
qed

text \<open>The protected packets of a mask, column by column.\<close>

lemma mask_packets_eq:
  "mask_packets s base m = map (\<lambda>c. \<lparr>ssrc = s, seq_num = base + of_nat c, protected_pkt = None\<rparr>)
     (filter (\<lambda>c. bit (m ! (c div 8)) (7 - c mod 8)) [0..<8 * length m])"
proof -
  have byte: "mask_byte_packets s base b v = map (\<lambda>c. \<lparr>ssrc = s, seq_num = base + of_nat c, protected_pkt = None\<rparr>)
      (map (\<lambda>i. 8 * b + i) (filter (\<lambda>i. bit v (7 - i)) [0..<8]))" for b v
    by (simp add: mask_byte_packets_def push_bit_eq_mult mult.commute add.assoc)
  have "concat (map (\<lambda>b. mask_byte_packets s base b (m ! b)) [0..<n]) =
      map (\<lambda>c. \<lparr>ssrc = s, seq_num = base + of_nat c, protected_pkt = None\<rparr>)
        (filter (\<lambda>c. bit (m ! (c div 8)) (7 - c mod 8)) [0..<8 * n])" for n
  proof (induction n)
    case (Suc n)
    have "filter (\<lambda>c. bit (m ! (c div 8)) (7 - c mod 8)) (map (\<lambda>i. 8 * n + i) [0..<8]) =
        map (\<lambda>i. 8 * n + i) (filter (\<lambda>i. bit (m ! n) (7 - i)) [0..<8])"
      unfolding filter_map by (intro arg_cong [where f = "map _"] filter_cong) auto
    then show ?case unfolding upt_bytes filter_append map_append using Suc by (simp only: upt_Suc_append [OF le0] map_append concat_append byte) simp
  qed simp
  then show ?thesis by (simp add: mask_packets_def)
qed

definition mask_row :: "u8 list \<Rightarrow> nat \<Rightarrow> nat \<Rightarrow> u8 list" where
  "mask_row B w r = take w (drop (r * w) B)"

lemma mask_row_nth: "length B = rows * w \<Longrightarrow> r < rows \<Longrightarrow> length (mask_row B w r) = w"
  "length B = rows * w \<Longrightarrow> r < rows \<Longrightarrow> i < w \<Longrightarrow> mask_row B w r ! i = B ! (r * w + i)"
  using mult_le_mono1 [of "Suc r" rows w] by (auto simp: mask_row_def)

lemma spread_protects:
  assumes "spread_masks n rows d B B'" "numbered s0 d media" "n = length media" "r < rows" "j < n"
  shows "protects B' (mask_width (d (n - 1) + 1)) r (d j) = protects B (mask_width n) r j" "d j < 8 * mask_width (d (n - 1) + 1)"
proof -
  have "d j \<le> d (n - 1)" using numbered_mono [OF assms(2), of j "n - 1"] assms(3,5) by simp
  moreover have "d (n - 1) < 48" using assms(2,3) by (simp add: numbered_def)
  ultimately show lt: "d j < 8 * mask_width (d (n - 1) + 1)" by (auto simp: mask_width_def)
  have "(\<exists>i < n. d i = d j \<and> protects B (mask_width n) r i) = protects B (mask_width n) r j"
    using numbered_inj [OF assms(2)] assms(3,5) by auto
  then show "protects B' (mask_width (d (n - 1) + 1)) r (d j) = protects B (mask_width n) r j"
    using assms(1,4) lt by (simp add: spread_masks_def Let_def)
qed

lemma selected_columns:
  assumes B: "spread_masks n rows d B B'" and num: "numbered s0 d media" "n = length media" and r: "r < rows"
    and m: "m = mask_row B' (mask_width (d (n - 1) + 1)) r @ replicate z 0"
  shows "filter (\<lambda>c. bit (m ! (c div 8)) (7 - c mod 8)) [0..<8 * length m] =
    map d (filter (protects B (mask_width n) r) [0..<n])"
proof (rule sorted_distinct_set_unique)
  let ?w = "mask_width (d (n - 1) + 1)"
  have B': "length B' = rows * ?w" using B by (simp add: spread_masks_def Let_def)
  note row = mask_row_nth [OF B' r]
  have lt: "d i < d j" if "i < j" "j < n" for i j using num that by (simp add: numbered_def)
  show "sorted (map d (filter (protects B (mask_width n) r) [0..<n]))"
    unfolding sorted_map using lt
    by (intro sorted_wrt_filter sorted_wrt_mono_rel [OF _ sorted_wrt_upt]) (auto intro: less_imp_le)
  show "distinct (map d (filter (protects B (mask_width n) r) [0..<n]))"
    using numbered_inj [OF num(1)] num(2) by (auto simp: distinct_map inj_on_def)
  have bit: "bit (m ! (c div 8)) (7 - c mod 8) \<longleftrightarrow> c < 8 * ?w \<and> protects B' ?w r c" if "c < 8 * length m" for c
  proof (cases "c < 8 * ?w")
    case True
    then have "c div 8 < ?w" by (simp add: less_mult_imp_div_less mult.commute)
    then show ?thesis using True row by (simp add: m nth_append protects_def)
  next
    case False
    then have "\<not> c div 8 < ?w" "c div 8 < length m" using that by (auto simp: div_less_iff_less_mult mult.commute)
    then have "m ! (c div 8) = 0" using row by (auto simp: m nth_append)
    then show ?thesis using False by simp
  qed
  have len: "?w \<le> length m" using row by (simp add: m)
  have "protects B' ?w r c \<longleftrightarrow> (\<exists>j < n. d j = c \<and> protects B (mask_width n) r j)" if "c < 8 * ?w" for c
    using B r that by (simp add: spread_masks_def Let_def)
  moreover have "d j < 8 * ?w" if "j < n" for j using spread_protects(2) [OF B num r that] .
  ultimately show "set (filter (\<lambda>c. bit (m ! (c div 8)) (7 - c mod 8)) [0..<8 * length m]) =
      set (map d (filter (protects B (mask_width n) r) [0..<n]))"
    using bit len by (auto simp: image_iff) (metis (no_types, opaque_lifting) mult_le_mono2 order_less_le_trans)+
qed (simp_all add: sorted_wrt_filter)

section \<open>Loops over the generated packets\<close>

lemma for_generated_ok:
  assumes "i + n \<le> length gs" "\<And>j. i \<le> j \<Longrightarrow> j < i + n \<Longrightarrow> \<exists>g. f j (gs ! j) = Inr g \<and> Q j g"
  shows "\<exists>gs'. for_generated f i n gs = Inr gs' \<and> length gs' = length gs \<and> (\<forall>j. i \<le> j \<and> j < i + n \<longrightarrow> Q j (gs' ! j)) \<and>
    (\<forall>j. \<not> (i \<le> j \<and> j < i + n) \<longrightarrow> gs' ! j = gs ! j)"
  using assms
proof (induction n arbitrary: i gs)
  case (Suc n)
  from Suc.prems(2) [of i] obtain g where g: "f i (gs ! i) = Inr g" "Q i g" by auto
  have "\<exists>g'. f j (gs[i := g] ! j) = Inr g' \<and> Q j g'" if "Suc i \<le> j" "j < Suc i + n" for j
    using Suc.prems(2) [of j] that by auto
  with Suc.IH [of "Suc i" "gs[i := g]"] Suc.prems(1) obtain gs' where
    gs': "for_generated f (Suc i) n (gs[i := g]) = Inr gs'" "length gs' = length gs"
      "\<forall>j. Suc i \<le> j \<and> j < Suc i + n \<longrightarrow> Q j (gs' ! j)" "\<forall>j. \<not> (Suc i \<le> j \<and> j < Suc i + n) \<longrightarrow> gs' ! j = gs[i := g] ! j"
    by auto
  have "gs' ! i = g" using gs'(4) Suc.prems(1) by auto
  then have "Q j (gs' ! j)" if "i \<le> j" "j < i + Suc n" for j
    using gs'(3) g(2) that by (cases "j = i") auto
  moreover have "gs' ! j = gs ! j" if "\<not> (i \<le> j \<and> j < i + Suc n)" for j using gs'(4) that by auto
  ultimately show ?case using gs' g Suc.prems(1) by (intro exI [of _ gs']) auto
qed auto

lemma prepare_packet_eq:
  "prepare_packet g = Inr \<lparr>cow_data = [], cow_capacity = max (cow_capacity g) 1500\<rparr>"
  by (cases g) (simp add: prepare_packet_def EnsureCapacity_def SetSize_def IP_PACKET_SIZE_def Let_def)

section \<open>The masks of the encoder\<close>

lemma GeneratePacketMasks_encoder:
  assumes "0 < m" "m \<le> k" "k \<le> 48" "imp \<le> k" "new_PacketMaskTable dchecks ty (int k) = Inr t"
    and pm: "packet_mask = replicate (m * mask_width k) (Some 0) @ post"
  shows "\<exists>t'. GeneratePacketMasks_uep dchecks k m imp uep t packet_mask =
    Inr (t', mem_of (encoder_mask (picked_type ty k) k m imp uep) @ post)"
proof (cases "uep \<and> 0 < imp")
  case True
  then show ?thesis
    using GeneratePacketMasks_uep_eq [OF assms(1-3) _ assms(4,5) pm] by (simp add: encoder_mask_def)
next
  case False
  then have c: "(\<not> uep \<or> imp = 0) = True" by auto
  have k: "0 < k" using assms by simp
  from LookUp_ready [OF assms(1-3) new_table_ready [OF k assms(3,5)], of dchecks] obtain v t' where
    v: "LookUp dchecks t (int k) (int m) = Inr (v, t')" "av_start v + m * mask_width k \<le> length (av_object v)"
      "take (m * mask_width k) (drop (av_start v) (av_object v)) = mem_of (mask_spec (picked_type ty k) k m)"
      "av_size v = m * mask_width k" by blast
  have w: "0 < m * mask_width k" using assms(1) by (simp add: mask_width_def)
  have ld: "mem_load what (int (av_start v)) (av_size v) (av_object v) = Inr (mem_of (mask_spec (picked_type ty k) k m))" for what
    using v(2,3) unfolding v(4) by (simp add: mem_load_nat)
  have st: "mem_store what 0 (mem_of (mask_spec (picked_type ty k) k m)) packet_mask =
      Inr (mem_of (mask_spec (picked_type ty k) k m) @ post)" for what
    using length_mask_spec [OF assms(1-3), of "picked_type ty k"] by (simp add: mem_store_def pm)
  show ?thesis
    unfolding GeneratePacketMasks_uep_def PacketMaskSize_ok [OF assms(3)] bind_res.simps c if_True v(1) prod.case ld st
    using False assms w k by (auto simp: encoder_mask_def v(4))
qed

lemma new_table_exists: "0 < k \<Longrightarrow> k \<le> 48 \<Longrightarrow> \<exists>t. new_PacketMaskTable dchecks ty (int k) = Inr t"
  by (auto simp: new_PacketMaskTable_def PickTable_def size_t_of_nat mask_constants split: FecMaskType.splits)

section \<open>Every header format\<close>

text \<open>
  A FEC packet that the decoder has read, for the packets \<open>sel\<close> with their sequence numbers: its mask names exactly
  these packets, and its bytes are their XOR.
\<close>

definition fec_packet_for :: "u32 \<Rightarrow> (u16 \<times> u8 list) list \<Rightarrow> ReceivedFecPacket \<Rightarrow> bool" where
  "fec_packet_for s sel q \<longleftrightarrow>
     (\<exists>data base off n. cow_data (fec_pkt q) = mem_of data \<and>
        protected_streams q = [\<lparr>stream_ssrc = s, stream_seq_num_base = base, stream_mask_offset = off, stream_mask_size = n\<rparr>] \<and>
        off + n \<le> length data \<and>
        mask_packets s base (take n (drop off data)) = map (\<lambda>(sn, p). \<lparr>ssrc = s, seq_num = sn, protected_pkt = None\<rparr>) sel \<and>
        12 \<le> fec_header_size q \<and> fec_header_size q \<le> 32 \<and> protection_length q = length data - fec_header_size q \<and>
        (\<exists>(sn, p) \<in> set sel. length data = fec_header_size q + (length p - 12)) \<and>
        fec_of (fec_header_size q) (map snd sel) data)"

lemma fec_parity_bounds:
  assumes "fec_parity hs ps bytes"
  shows "p \<in> set ps \<Longrightarrow> hs + (length p - 12) \<le> length bytes" "ps \<noteq> [] \<Longrightarrow> hs \<le> length bytes"
    "(\<And>p. p \<in> set ps \<Longrightarrow> length p < 2 ^ 16) \<Longrightarrow> length bytes - hs < 2 ^ 16"
    "ps \<noteq> [] \<Longrightarrow> \<exists>p \<in> set ps. length bytes = hs + (length p - 12)"
proof -
  have len: "length bytes = foldr (\<lambda>p n. max (hs + (length p - 12)) n) ps 0" using assms by (simp add: fec_parity_def)
  show "p \<in> set ps \<Longrightarrow> hs + (length p - 12) \<le> length bytes" unfolding len by (induction ps) auto
  show "ps \<noteq> [] \<Longrightarrow> hs \<le> length bytes" unfolding len by (cases ps) auto
  show "ps \<noteq> [] \<Longrightarrow> \<exists>p \<in> set ps. length bytes = hs + (length p - 12)"
    unfolding len
  proof (induction ps)
    case (Cons p ps)
    then show ?case by (cases "ps = []") (auto simp: max_def)
  qed simp
  have "\<forall>p \<in> set ps. length p < 65536 \<Longrightarrow> foldr (\<lambda>p n. max (hs + (length p - 12)) n) ps 0 \<le> hs + 65535"
    by (induction ps) auto
  then show "length bytes - hs < 2 ^ 16" if "\<And>p. p \<in> set ps \<Longrightarrow> length p < 2 ^ 16" using that len by fastforce
qed

lemma reads_back_fec_packet_for:
  assumes rb: "reads_back hs s base row bytes p q" and par: "fec_parity hs (map snd sel) bytes"
    and sel: "sel \<noteq> []" "\<And>p. p \<in> snd ` set sel \<Longrightarrow> 12 \<le> length p" and hs: "12 \<le> hs" "hs \<le> 32"
    and mask: "\<And>z. mask_packets s base (row @ replicate z 0) = map (\<lambda>(sn, p). \<lparr>ssrc = s, seq_num = sn, protected_pkt = None\<rparr>) sel"
  shows "fec_packet_for s sel q"
proof -
  from rb obtain data off n where
    q: "q = p\<lparr>protected_streams := [\<lparr>stream_ssrc = s, stream_seq_num_base = base, stream_mask_offset = off, stream_mask_size = n\<rparr>],
              fec_header_size := hs, protection_length := length bytes - hs, fec_pkt := (fec_pkt p)\<lparr>cow_data := mem_of data\<rparr>\<rparr>"
    and d: "length data = length bytes" "off + n \<le> hs" "take n (drop off data) = row @ replicate (n - length row) 0"
      "data ! 0 AND 0x3f = bytes ! 0 AND 0x3f"
      "\<forall>i. 0 < i \<and> i < 8 \<or> hs \<le> i \<and> i < length bytes \<longrightarrow> data ! i = bytes ! i"
    unfolding reads_back_def by blast
  have len: "hs \<le> length bytes" using fec_parity_bounds(2) [OF par] sel(1) by simp
  have b: "bytes ! i = xors hs (map snd sel) i" if "i < 8 \<or> hs \<le> i" "i < length bytes" for i
    using par that by (auto simp: fec_parity_def at0_def)
  have "\<forall>p \<in> set (map snd sel). 12 \<le> length p \<and> hs + (length p - 12) \<le> length data"
    using fec_parity_bounds(1) [OF par] sel(2) d(1) by simp
  moreover have "data ! 0 AND 0x3f = xors hs (map snd sel) 0 AND 0x3f" using d(4) b [of 0] len hs by force
  moreover have "data ! i = xors hs (map snd sel) i" if "0 < i \<and> i < 8 \<or> hs \<le> i \<and> i < length data" for i
    using d(1,5) b [of i] that len hs by auto
  ultimately have "fec_of hs (map snd sel) data" using len d(1) by (simp only: fec_of_def) blast
  moreover have "\<exists>(sn, p) \<in> set sel. length data = hs + (length p - 12)"
    using fec_parity_bounds(4) [OF par] sel(1) d(1) by auto
  ultimately show ?thesis
    unfolding fec_packet_for_def using d len hs mask [of "n - length row"]
    by (intro exI [of _ data] exI [of _ base] exI [of _ off] exI [of _ n]) (simp add: q)
qed

text \<open>The state of a codec between two groups.\<close>

definition codec_ready :: "FecHeaderWriter \<Rightarrow> fec_codec \<Rightarrow> bool" where
  "codec_ready writer c \<longleftrightarrow> fec_header_writer c = writer \<and> 48 \<le> length (generated_fec_packets c) \<and>
     length (codec_masks c) = 288 \<and> length (codec_tmp_masks c) = 288"

text \<open>The media packets that row \<open>r\<close> of a mask selects, with their sequence numbers.\<close>

definition selected :: "u8 list \<Rightarrow> nat \<Rightarrow> u16 \<Rightarrow> (nat \<Rightarrow> nat) \<Rightarrow> u8 list list \<Rightarrow> (u16 \<times> u8 list) list" where
  "selected B r s0 d media =
     map (\<lambda>j. (s0 + of_nat (d j), media ! j)) (filter (protects B (mask_width (length media)) r) [0..<length media])"

context fec_header_format
begin

lemma generate_row:
  assumes c: "fec_header_writer c = writer" "codec_mask_size c = mask_width (d (n - 1) + 1)" "codec_masks c = mem_of B' @ rest"
    and num: "numbered s0 d media" "n = length media" "0 < n"
    and media: "\<And>p. p \<in> set media \<Longrightarrow> 12 \<le> length p \<and> length p < 2 ^ 16"
    and B: "spread_masks n rows d B B'" and r: "r < rows" and ne: "selected B r s0 d media \<noteq> []"
  shows "\<exists>bytes cap k hs. generate_payload dchecks c media r \<lparr>cow_data = [], cow_capacity = cap0\<rparr> =
      Inr \<lparr>cow_data = mem_of bytes, cow_capacity = cap\<rparr> \<and>
    MinPacketMaskSize writer dchecks (mem_of (mask_row B' (mask_width (d (n - 1) + 1)) r)) = Inr k \<and>
    FecHeaderSize writer dchecks k = Inr hs \<and> 14 \<le> hs \<and> hs \<le> 32 \<and>
    fec_parity hs (map snd (selected B r s0 d media)) bytes"
proof -
  let ?w = "mask_width (d (n - 1) + 1)"
  let ?row = "mask_row B' ?w r"
  have B': "length B' = rows * ?w" using B by (simp add: spread_masks_def Let_def)
  note row = mask_row_nth(1) [OF B' r]
  then have "length ?row \<in> {2, 6}" by (simp add: mask_width_def)
  from header_size [OF this, of dchecks] limits(5) obtain k hs where
    k: "MinPacketMaskSize writer dchecks (mem_of ?row) = Inr k" "FecHeaderSize writer dchecks k = Inr hs" "14 \<le> hs" "hs \<le> 32" by auto
  have "r * ?w + ?w \<le> length B'" using B' r mult_le_mono1 [of "Suc r" rows ?w] by simp
  then have ld: "mem_load what (int (r * ?w)) ?w (codec_masks c) = Inr (mem_of ?row)" for what
    unfolding c(3) mask_row_def by (simp add: mem_load_nat del: of_nat_mult)
  have s0: "ParseSequenceNumber (hd media) = Inr s0" "d 0 = 0"
    using num by (auto simp: numbered_def hd_conv_nth)
  have dw: "d (n - 1) < 8 * ?w" using num by (auto simp: numbered_def mask_width_def)
  have hs: "8 \<le> hs" "hs < 2 ^ 16" using k by simp_all
  have "fec_parity hs (map ((!) media) (filter (\<lambda>j. protects B' ?w r (d j)) [0..<0])) []" by (simp add: fec_parity_def at0_def)
  from protect_media_row [OF num(1,2) media hs c(3) B' r dw _ this, of cap0 dchecks] obtain bytes cap where
    b: "protect_media dchecks (codec_masks c) hs media s0 (r * ?w) 0 \<lparr>cow_data = [], cow_capacity = cap0\<rparr> =
        Inr \<lparr>cow_data = mem_of bytes, cow_capacity = cap\<rparr>"
      "fec_parity hs (map ((!) media) (filter (\<lambda>j. protects B' ?w r (d j)) [0..<n])) bytes"
    by (auto simp: s0(2))
  have "filter (\<lambda>j. protects B' ?w r (d j)) [0..<n] = filter (protects B (mask_width n) r) [0..<n]"
    using spread_protects(1) [OF B num(1,2) r] by (intro filter_cong) auto
  then have "map ((!) media) (filter (\<lambda>j. protects B' ?w r (d j)) [0..<n]) = map snd (selected B r s0 d media)"
    using num(2) by (simp add: selected_def comp_def)
  with b(2) have par: "fec_parity hs (map snd (selected B r s0 d media)) bytes" by simp
  then have "0 < length bytes" using fec_parity_bounds(2) [OF par] ne k(3) by auto
  then show ?thesis
    unfolding generate_payload_def Let_def c(1,2) ld bind_res.simps k(1,2) s0(1) b(1)
    using k(3,4) par by (auto simp: k(2))
qed

lemma finalize_row:
  assumes row: "length row \<in> {2, 6}" "MinPacketMaskSize writer dchecks (mem_of row) = Inr k" "FecHeaderSize writer dchecks k = Inr hs"
    and hs: "12 \<le> hs" "hs \<le> 32" and par: "fec_parity hs (map snd sel) bytes" and sel: "sel \<noteq> []"
    and media: "\<And>p. p \<in> snd ` set sel \<Longrightarrow> 12 \<le> length p \<and> length p < 2 ^ 16"
    and mask: "\<And>z. mask_packets s base (row @ replicate z 0) = map (\<lambda>(sn, p). \<lparr>ssrc = s, seq_num = sn, protected_pkt = None\<rparr>) sel"
  shows "\<exists>wire. FinalizeFecHeader writer dchecks
      [\<lparr>written_ssrc = s, written_seq_num_base = base, written_mask = mem_of row\<rparr>]
      \<lparr>cow_data = mem_of bytes, cow_capacity = cap\<rparr> = Inr \<lparr>cow_data = mem_of wire, cow_capacity = cap\<rparr> \<and>
    length wire = length bytes \<and>
    (\<forall>p. cow_data (fec_pkt p) = mem_of wire \<longrightarrow> ssrcs (ssrc p) s \<longrightarrow>
       (\<exists>q. ReadFecHeader reader dchecks p = Inr (Some q) \<and> fec_packet_for s sel q))"
proof -
  have "hs \<le> length bytes" "length bytes - hs < 2 ^ 16"
    using fec_parity_bounds(2,3) [OF par] sel media by auto
  from finalized_reads_back [OF row this, of s base cap] obtain wire where
    w: "FinalizeFecHeader writer dchecks [\<lparr>written_ssrc = s, written_seq_num_base = base, written_mask = mem_of row\<rparr>]
        \<lparr>cow_data = mem_of bytes, cow_capacity = cap\<rparr> = Inr \<lparr>cow_data = mem_of wire, cow_capacity = cap\<rparr>"
      "length wire = length bytes"
      "\<And>p. cow_data (fec_pkt p) = mem_of wire \<Longrightarrow> ssrcs (ssrc p) s \<Longrightarrow>
        \<exists>q. ReadFecHeader reader dchecks p = Inr (Some q) \<and> reads_back hs s base row bytes p q" by blast
  have "fec_packet_for s sel q" if "reads_back hs s base row bytes p q" for p q
    by (rule reads_back_fec_packet_for [OF that par sel _ hs mask]) (use media in auto)
  then show ?thesis using w by meson
qed

text \<open>All rows: \<open>GenerateFecPayloads\<close> and \<open>FinalizeFecHeaders\<close>.\<close>

lemma generate_and_finalize:
  assumes c: "fec_header_writer c = writer" "codec_mask_size c = mask_width (d (n - 1) + 1)" "codec_masks c = mem_of B' @ rest"
    and gs: "rows \<le> length (generated_fec_packets c)" "\<And>r. r < rows \<Longrightarrow> cow_data (generated_fec_packets c ! r) = []"
    and num: "numbered s0 d media" "n = length media" "0 < n"
    and media: "\<And>p. p \<in> set media \<Longrightarrow> 12 \<le> length p \<and> length p < 2 ^ 16"
    and B: "spread_masks n rows d B B'" and ne: "\<And>r. r < rows \<Longrightarrow> selected B r s0 d media \<noteq> []"
  shows "\<exists>c1 gs'. GenerateFecPayloads dchecks media rows c = Inr c1 \<and>
    FinalizeFecHeaders dchecks rows s s0 c1 = Inr (c\<lparr>generated_fec_packets := gs'\<rparr>) \<and> length gs' = length (generated_fec_packets c) \<and>
    (\<forall>r < rows. \<exists>wire cap. gs' ! r = \<lparr>cow_data = mem_of wire, cow_capacity = cap\<rparr> \<and>
       (\<forall>p. cow_data (fec_pkt p) = mem_of wire \<longrightarrow> ssrcs (ssrc p) s \<longrightarrow>
         (\<exists>q. ReadFecHeader reader dchecks p = Inr (Some q) \<and> fec_packet_for s (selected B r s0 d media) q)))"
proof -
  let ?w = "mask_width (d (n - 1) + 1)"
  let ?row = "mask_row B' ?w" and ?sel = "\<lambda>r. selected B r s0 d media"
  have B': "length B' = rows * ?w" using B by (simp add: spread_masks_def Let_def)
  define G where "G = (\<lambda>r g. \<exists>bytes cap k hs. g = \<lparr>cow_data = mem_of bytes, cow_capacity = cap\<rparr> \<and>
    MinPacketMaskSize writer dchecks (mem_of (?row r)) = Inr k \<and> FecHeaderSize writer dchecks k = Inr hs \<and> 14 \<le> hs \<and> hs \<le> 32 \<and>
    fec_parity hs (map snd (?sel r)) bytes)"
  have "\<exists>g. generate_payload dchecks c media r (generated_fec_packets c ! r) = Inr g \<and> G r g" if r: "r < rows" for r
  proof -
    obtain cap0 where "generated_fec_packets c ! r = \<lparr>cow_data = [], cow_capacity = cap0\<rparr>"
      using gs(2) [OF r] by (cases "generated_fec_packets c ! r") auto
    then show ?thesis using generate_row [OF c num media B r ne [OF r], of dchecks cap0] unfolding G_def by auto
  qed
  with for_generated_ok [of 0 rows "generated_fec_packets c" "generate_payload dchecks c media" G] gs(1) obtain gs1 where
    gs1: "for_generated (generate_payload dchecks c media) 0 rows (generated_fec_packets c) = Inr gs1"
      "length gs1 = length (generated_fec_packets c)" "\<And>r. r < rows \<Longrightarrow> G r (gs1 ! r)"
    by auto
  define F where "F = (\<lambda>r g. \<exists>wire cap. g = \<lparr>cow_data = mem_of wire, cow_capacity = cap\<rparr> \<and>
       (\<forall>p. cow_data (fec_pkt p) = mem_of wire \<longrightarrow> ssrcs (ssrc p) s \<longrightarrow>
         (\<exists>q. ReadFecHeader reader dchecks p = Inr (Some q) \<and> fec_packet_for s (?sel r) q)))"
  have "\<exists>g. bind_res (mem_load ''packet_masks_'' (int (r * ?w)) ?w (mem_of B' @ rest)) (\<lambda>row.
      FinalizeFecHeader writer dchecks [\<lparr>written_ssrc = s, written_seq_num_base = s0, written_mask = row\<rparr>] (gs1 ! r)) = Inr g \<and> F r g"
    if r: "r < rows" for r
  proof -
    from gs1(3) [OF r] obtain bytes cap k hs where g: "gs1 ! r = \<lparr>cow_data = mem_of bytes, cow_capacity = cap\<rparr>"
      "MinPacketMaskSize writer dchecks (mem_of (?row r)) = Inr k" "FecHeaderSize writer dchecks k = Inr hs" "14 \<le> hs" "hs \<le> 32"
      "fec_parity hs (map snd (?sel r)) bytes" unfolding G_def by blast
    have "r * ?w + ?w \<le> length B'" using B' r mult_le_mono1 [of "Suc r" rows ?w] by simp
    then have ld: "mem_load what (int (r * ?w)) ?w (mem_of B' @ rest) = Inr (mem_of (?row r))" for what
      unfolding mask_row_def by (simp add: mem_load_nat del: of_nat_mult)
    have len: "length (?row r) \<in> {2, 6}" using mask_row_nth(1) [OF B' r] by (simp add: mask_width_def)
    have sel: "12 \<le> length p \<and> length p < 2 ^ 16" if "p \<in> snd ` set (?sel r)" for p
      using media that by (auto simp: selected_def)
    have mask: "mask_packets s s0 (?row r @ replicate z 0) =
        map (\<lambda>(sn, p). \<lparr>ssrc = s, seq_num = sn, protected_pkt = None\<rparr>) (?sel r)" for z
      using selected_columns [OF B num(1,2) r refl, of z] num(2) unfolding mask_packets_eq by (simp add: selected_def comp_def)
    have hs: "12 \<le> hs" using g(4) by simp
    from finalize_row [OF len g(2,3) hs g(5,6) ne [OF r] sel mask, of cap] show ?thesis
      unfolding ld bind_res.simps g(1) F_def by blast
  qed
  with for_generated_ok [of 0 rows gs1 "\<lambda>i g. bind_res (mem_load ''packet_masks_'' (int (i * ?w)) ?w (mem_of B' @ rest)) (\<lambda>row.
      FinalizeFecHeader writer dchecks [\<lparr>written_ssrc = s, written_seq_num_base = s0, written_mask = row\<rparr>] g)" F] gs(1) gs1(2)
  obtain gs2 where
    gs2: "for_generated (\<lambda>i g. bind_res (mem_load ''packet_masks_'' (int (i * ?w)) ?w (mem_of B' @ rest)) (\<lambda>row.
      FinalizeFecHeader writer dchecks [\<lparr>written_ssrc = s, written_seq_num_base = s0, written_mask = row\<rparr>] g)) 0 rows gs1 = Inr gs2"
      "length gs2 = length gs1" "\<And>r. r < rows \<Longrightarrow> F r (gs2 ! r)"
    by auto
  have "GenerateFecPayloads dchecks media rows c = Inr (c\<lparr>generated_fec_packets := gs1\<rparr>)"
    using num gs1(1) by (auto simp: GenerateFecPayloads_def)
  moreover have "FinalizeFecHeaders dchecks rows s s0 (c\<lparr>generated_fec_packets := gs1\<rparr>) = Inr (c\<lparr>generated_fec_packets := gs2\<rparr>)"
    using gs2(1) c by (simp add: FinalizeFecHeaders_def)
  ultimately show ?thesis
    using gs2(2,3) gs1(2) unfolding F_def by (intro exI [of _ "c\<lparr>generated_fec_packets := gs1\<rparr>"] exI [of _ gs2]) simp
qed

lemma EncodeFec_correct:
  fixes uep :: bool and ty :: FecMaskType
  assumes c: "codec_ready writer c" and num: "numbered s0 d media" and n: "n = length media" "0 < n" "n \<le> 48"
    and media: "\<And>p. p \<in> set media \<Longrightarrow> 12 \<le> length p \<and> length p < 2 ^ 16"
    and imp: "imp \<le> n" and factor: "0 < factor" and m: "m = fec_count n (unat factor)"
    and s: "ParseSsrc (hd media) = Inr s"
  defines "B \<equiv> encoder_mask (picked_type ty n) n m imp uep"
  shows "\<exists>c'. codec_EncodeFec dchecks media factor imp uep ty [] c = Inr (0, [0..<m], c') \<and> codec_ready writer c' \<and>
    codec_ssrc c' = codec_ssrc c \<and> protected_media_ssrc c' = protected_media_ssrc c \<and>
    fec_header_reader c' = fec_header_reader c \<and> received_fec_packets c' = received_fec_packets c \<and>
    (\<forall>r < m. \<exists>wire cap. generated_fec_packets c' ! r = \<lparr>cow_data = mem_of wire, cow_capacity = cap\<rparr> \<and>
       (\<forall>p. cow_data (fec_pkt p) = mem_of wire \<longrightarrow> ssrcs (ssrc p) s \<longrightarrow>
         (\<exists>q. ReadFecHeader reader dchecks p = Inr (Some q) \<and> fec_packet_for s (selected B r s0 d media) q)))"
proof -
  let ?w = "mask_width n" and ?w' = "mask_width (d (n - 1) + 1)"
  have f: "0 < unat factor" "unat factor \<le> 255"
    using factor unsigned_less [of factor, where 'a = nat] by (auto simp: unat_gt_0)
  have mm: "0 < m" "m \<le> n" using f fec_count_le [OF n(2) f(2)] by (auto simp: m fec_count_def)
  have nf: "NumFecPackets dchecks (int n) (uint factor) = Inr (int m)"
    using NumFecPackets_eq [OF n(2) f(2), of dchecks] by (simp add: m)
  from c have w: "fec_header_writer c = writer" "48 \<le> length (generated_fec_packets c)"
    "length (codec_masks c) = 288" "length (codec_tmp_masks c) = 288" by (simp_all add: codec_ready_def)
  from for_generated_ok [of 0 m "generated_fec_packets c" "\<lambda>_. prepare_packet" "\<lambda>_ g. cow_data g = []"] w(2) mm n(3) obtain gs where
    gs: "for_generated (\<lambda>_. prepare_packet) 0 m (generated_fec_packets c) = Inr gs" "length gs = length (generated_fec_packets c)"
      "\<And>r. r < m \<Longrightarrow> cow_data (gs ! r) = []" by (auto simp: prepare_packet_eq)
  obtain t where t: "new_PacketMaskTable dchecks ty (int n) = Inr t" using new_table_exists [OF n(2,3)] by blast
  have mw: "m * ?w \<le> 288" "m * 6 \<le> 288" using mm n(3) mult_le_mono [of m 48 ?w 6] by (auto simp: mask_width_def)
  let ?post = "drop (m * ?w) (codec_masks c)"
  have st: "mem_store what 0 (replicate (m * ?w) (Some 0)) (codec_masks c) = Inr (replicate (m * ?w) (Some 0) @ ?post)" for what
    using mw w(3) by (simp add: mem_store_def)
  from GeneratePacketMasks_encoder [OF mm n(3) imp t refl, of uep ?post] obtain t' where
    t': "GeneratePacketMasks_uep dchecks n m imp uep t (replicate (m * ?w) (Some 0) @ ?post) = Inr (t', mem_of B @ ?post)"
    unfolding B_def by blast
  note facts = encoder_mask_facts [OF mm n(3) imp, where ty = "picked_type ty n" and uep = uep, folded B_def]
  have lens: "m * 6 \<le> length (mem_of B @ ?post)" "m * 6 \<le> length (codec_tmp_masks c)" using mw w(3,4) facts(1) by simp_all
  from InsertZeros_spread [OF num n refl facts(1) lens facts(4), of dchecks] obtain B' rest tmp' where
    z: "InsertZerosInPacketMasks dchecks 48 ?w media m (mem_of B @ ?post) (codec_tmp_masks c) =
        Inr (int (d (n - 1) + 1), mem_of B' @ rest, tmp')" "spread_masks n m d B B'"
      "length B' + length rest = 288" "length tmp' = 288"
    using mw w(3,4) facts(1) by auto
  let ?c1 = "c\<lparr>generated_fec_packets := gs, codec_masks := mem_of B' @ rest, codec_tmp_masks := tmp', codec_mask_size := ?w'\<rparr>"
  have ne: "selected B r s0 d media \<noteq> []" if "r < m" for r
    using facts(3) [OF that] n(1) by (auto simp: selected_def filter_empty_conv)
  from generate_and_finalize [of ?c1 d n B' rest m s0 media B dchecks s] gs w num n media z(2) ne mm obtain c2 gs' where
    g: "GenerateFecPayloads dchecks media m ?c1 = Inr c2" "FinalizeFecHeaders dchecks m s s0 c2 = Inr (?c1\<lparr>generated_fec_packets := gs'\<rparr>)"
      "length gs' = length gs" and wires: "\<forall>r < m. \<exists>wire cap. gs' ! r = \<lparr>cow_data = mem_of wire, cow_capacity = cap\<rparr> \<and>
       (\<forall>p. cow_data (fec_pkt p) = mem_of wire \<longrightarrow> ssrcs (ssrc p) s \<longrightarrow>
         (\<exists>q. ReadFecHeader reader dchecks p = Inr (Some q) \<and> fec_packet_for s (selected B r s0 d media) q))" by auto
  have s0: "ParseSequenceNumber (hd media) = Inr s0" using gap_counts(2) [OF num n] .
  have d48: "d (n - 1) < 48" using num n by (simp add: numbered_def)
  have ps: "PacketMaskSize dchecks n = Inr ?w" "PacketMaskSize dchecks (d (n - 1) + 1) = Inr ?w'"
    using d48 n(3) PacketMaskSize_ok [of n] PacketMaskSize_ok [of "d (n - 1) + 1"] by simp_all
  have conds: "(48 < n) = False" "(\<exists>p \<in> set media. length p < kRtpHeaderSize) = False" "(int m = 0) = False"
      "(int (d (n - 1) + 1) < 0) = False"
    using n(3) mm media by (auto simp: kRtpHeaderSize_def dest!: media)
  have "codec_EncodeFec dchecks media factor imp uep ty [] c = Inr (0, [0..<m], ?c1\<lparr>generated_fec_packets := gs'\<rparr>)"
    unfolding codec_EncodeFec_def Let_def n(1) [symmetric] w(1) limits(1) conds if_False nf bind_res.simps nat_int gs(1) t ps(1) st t' prod.case z(1)
      ps(2)
    using g(1,2) s s0 n(2) imp by simp
  then show ?thesis using wires w gs(2) g(3) z(3,4) by (intro exI [of _ "?c1\<lparr>generated_fec_packets := gs'\<rparr>"]) (simp add: codec_ready_def)
qed

end

section \<open>Results\<close>

text \<open>
  \<open>NumFecPackets\<close> keeps the overhead that is asked for: for 1 to 48 media packets and a protection factor from 0 to
  255, the number of FEC packets is the nearest integer to the media packets times the factor over 256, but at least 1
  for a factor above 0; it is 0 exactly for the factor 0, it is never above the number of media packets, and the check of
  this bound holds.
\<close>

lemma num_fec_packets_bounds:
  assumes "0 < n" "n \<le> 48" "factor \<le> 255"
  shows "\<exists>m. NumFecPackets dchecks (int n) (int factor) = Inr (int m) \<and> m \<le> n \<and> (m = 0 \<longleftrightarrow> factor = 0) \<and>
    n * factor < 256 * m + 128 \<and> (m \<noteq> 1 \<longrightarrow> 256 * m \<le> n * factor + 128)"
proof (intro exI conjI)
  let ?m = "fec_count n factor"
  define x where "x = n * factor"
  show "NumFecPackets dchecks (int n) (int factor) = Inr (int ?m)" using assms by (intro NumFecPackets_eq) auto
  show "?m \<le> n" using assms by (intro fec_count_le) auto
  show "?m = 0 \<longleftrightarrow> factor = 0" by (simp add: fec_count_def)
  have d: "256 * ((x + 128) div 256) \<le> x + 128" "x + 128 < 256 * ((x + 128) div 256) + 256"
    using mult_div_mod_eq [of 256 "x + 128"] mod_less_divisor [of 256 "x + 128"] by linarith+
  have m: "?m = max 1 ((x + 128) div 256)" if "0 < factor" using that by (simp add: fec_count_def x_def)
  show "n * factor < 256 * ?m + 128"
    unfolding x_def [symmetric] using m d(2) by (cases "factor = 0") (auto simp: fec_count_def x_def max_def)
  show "?m \<noteq> 1 \<longrightarrow> 256 * ?m \<le> n * factor + 128"
    unfolding x_def [symmetric] using m d(1) by (cases "factor = 0") (auto simp: fec_count_def x_def max_def)
qed

end
