(* ===== verification/Decoder_Safe.thy ===== *)
theory Decoder_Safe
  imports Codec_Recover Flexfec_Header
begin

text \<open>
  The decoder on arbitrary input (\<open>DecodeFec\<close> of \<^verbatim>\<open>forward_error_correction.cc\<close>): whatever bytes a received FEC packet
  holds, the decoder neither reads outside a buffer nor fails a check, and its lists keep their bounds. Proved once for
  all header formats.
\<close>

section \<open>The invariant\<close>

definition good_packet :: "CopyOnWriteBuffer \<Rightarrow> bool" where
  "good_packet b \<longleftrightarrow> (\<exists>p. cow_data b = mem_of p \<and> 12 \<le> length p \<and> length p \<le> 1500)"

definition good_recovered :: "u32 \<Rightarrow> RecoveredPacket \<Rightarrow> bool" where
  "good_recovered s r \<longleftrightarrow> ssrc r = s \<and> good_packet (recovered_pkt r)"

definition good_protected :: "u32 \<Rightarrow> ProtectedPacket \<Rightarrow> bool" where
  "good_protected s p \<longleftrightarrow> ssrc p = s \<and> (\<forall>b. protected_pkt p = Some b \<longrightarrow> good_packet b)"

definition good_fec :: "u32 \<Rightarrow> u32 \<Rightarrow> ReceivedFecPacket \<Rightarrow> bool" where
  "good_fec fs ms f \<longleftrightarrow> ssrc f = fs \<and> protected_packets f \<noteq> [] \<and> list_all (good_protected ms) (protected_packets f) \<and>
     (\<exists>data. cow_data (fec_pkt f) = mem_of data) \<and> 12 \<le> fec_header_size f \<and> fec_header_size f \<le> 32"

text \<open>The state of a decoder with the list of packets that its caller keeps.\<close>

definition decoder_ok :: "FecHeaderReader \<Rightarrow> fec_codec \<Rightarrow> RecoveredPacket list \<Rightarrow> bool" where
  "decoder_ok reader c rs \<longleftrightarrow> fec_header_reader c = reader \<and>
     list_all (good_fec (codec_ssrc c) (protected_media_ssrc c)) (received_fec_packets c) \<and>
     list_all (good_recovered (protected_media_ssrc c)) rs \<and> length (received_fec_packets c) \<le> 48 \<and> length rs \<le> 192"

text \<open>
  A received packet that the caller has attributed to the right stream: a media packet is an RTP packet, a FEC
  packet is any byte sequence.
\<close>

definition good_received :: "fec_codec \<Rightarrow> ReceivedPacket \<Rightarrow> bool" where
  "good_received c r \<longleftrightarrow>
     (if is_fec r then ssrc r = codec_ssrc c \<and> (\<exists>data. cow_data (received_pkt r) = mem_of data)
      else ssrc r = protected_media_ssrc c \<and> good_packet (received_pkt r))"

section \<open>Ordered lists\<close>

lemma set_insert_packet [simp]: "set (insert_packet x xs) = insert x (set xs)"
  by (induction xs) auto

lemma length_insert_packet [simp]: "length (insert_packet x xs) = Suc (length xs)"
  by (induction xs) auto

lemma sort_packets_ok:
  assumes "\<And>x. x \<in> set xs \<Longrightarrow> ssrc x = s"
  shows "\<exists>ys. sort_packets dchecks xs = Inr ys \<and> set ys = set xs \<and> length ys = length xs"
proof -
  have "\<forall>x \<in> set xs. ssrc x = ssrc (hd xs)" using assms by (cases xs) auto
  moreover have "set (foldr insert_packet xs []) = set xs" "length (foldr insert_packet xs []) = length xs"
    by (induction xs) simp_all
  ultimately show ?thesis by (auto simp: sort_packets_def)
qed

lemma lower_bound_ok:
  assumes "\<And>x. x \<in> set xs \<Longrightarrow> ssrc x = ssrc packet" "first + len \<le> length xs"
  shows "\<exists>i. lower_bound dchecks xs packet first len = Inr i \<and> first \<le> i \<and> i \<le> first + len"
  using assms(2)
proof (induction len arbitrary: first rule: less_induct)
  case (less len)
  show ?case
  proof (cases "len = 0")
    case True
    then show ?thesis by (subst lower_bound.simps) simp
  next
    case False
    let ?mid = "first + len div 2"
    have "?mid < length xs" using False less.prems by linarith
    then have s: "ssrc (xs ! ?mid) = ssrc packet" using assms(1) by simp
    have u: "\<exists>i. lower_bound dchecks xs packet (Suc ?mid) (len - len div 2 - 1) = Inr i \<and>
        Suc ?mid \<le> i \<and> i \<le> Suc ?mid + (len - len div 2 - 1)"
      using False less.prems by (intro less.IH) auto
    have l: "\<exists>i. lower_bound dchecks xs packet first (len div 2) = Inr i \<and> first \<le> i \<and> i \<le> first + len div 2"
      using False less.prems by (intro less.IH) auto
    have "len div 2 \<le> len" "Suc ?mid + (len - len div 2 - 1) = first + len" using False by auto
    then show ?thesis using False u l s by (subst lower_bound.simps) (fastforce simp: Let_def)
  qed
qed

lemma update_covering_ok:
  assumes f: "good_fec fs ms f" and r: "good_recovered ms r"
  shows "\<exists>f'. update_covering dchecks r f = Inr f' \<and> good_fec fs ms f'"
proof -
  let ?ps = "protected_packets f"
  have "\<And>x. x \<in> set ?ps \<Longrightarrow> ssrc x = ssrc r"
    using f r by (auto simp: good_fec_def good_protected_def good_recovered_def list_all_iff)
  with lower_bound_ok [of ?ps r 0 "length ?ps" dchecks] obtain i where
    i: "lower_bound dchecks ?ps r 0 (length ?ps) = Inr i" by auto
  have all: "list_all (good_protected ms) ?ps" using f by (simp add: good_fec_def)
  have "list_all (good_protected ms) (?ps[i := (?ps ! i)\<lparr>protected_pkt := Some (recovered_pkt r)\<rparr>])" if "i < length ?ps"
  proof -
    have "good_protected ms (?ps ! i)" using all that by (simp add: list_all_length)
    then have "good_protected ms ((?ps ! i)\<lparr>protected_pkt := Some (recovered_pkt r)\<rparr>)"
      using r by (simp add: good_protected_def good_recovered_def)
    then show ?thesis using all that by (simp add: list_all_length nth_list_update)
  qed
  then show ?thesis using f i unfolding update_covering_def Let_def by (auto simp: good_fec_def)
qed

lemma UpdateCovering_ok:
  assumes "good_recovered ms r"
  shows "list_all (good_fec fs ms) gs \<Longrightarrow>
    \<exists>gs'. UpdateCoveringFecPackets dchecks r gs = Inr gs' \<and> list_all (good_fec fs ms) gs' \<and> length gs' = length gs"
proof (induction gs)
  case (Cons g gs)
  then show ?case using update_covering_ok [OF _ assms, of fs g dchecks] by auto
qed simp

lemma find_duplicate_ok:
  "(\<And>x. x \<in> set xs \<Longrightarrow> ssrc x = ssrc r) \<Longrightarrow>
   find_duplicate dchecks xs r = Inr (\<exists>x \<in> set xs. seq_num x = seq_num r)"
  by (induction xs) auto

lemma assign_recovered_ok:
  assumes "list_all (good_protected s) ps" "list_all (good_recovered s) rs"
  shows "\<exists>ps'. assign_recovered dchecks ps rs = Inr ps' \<and> list_all (good_protected s) ps' \<and> length ps' = length ps"
  using assms
proof (induction dchecks ps rs rule: assign_recovered.induct)
  case (1 dchecks p ps r rs)
  then have s: "ssrc p = ssrc r" "good_protected s p" "good_recovered s r"
    by (auto simp: good_protected_def good_recovered_def)
  then have "good_protected s (p\<lparr>protected_pkt := Some (recovered_pkt r)\<rparr>)"
    by (auto simp: good_protected_def good_recovered_def)
  then show ?case using 1 s by auto
qed auto

section \<open>Recovery\<close>

lemma count_missing_bound: "n \<le> 1 \<Longrightarrow> n \<le> count_missing n ps \<and> (count_missing n ps = n \<longleftrightarrow> (\<forall>p \<in> set ps. protected_pkt p \<noteq> None))"
proof (induction ps arbitrary: n)
  case (Cons p ps)
  consider "n = 0" | "n = 1" using Cons.prems by linarith
  then show ?case using Cons.IH [of 0] Cons.IH [of 1] by cases auto
qed simp

lemma one_missing:
  "count_missing 0 ps = 1 \<Longrightarrow> \<exists>xs q ys. ps = xs @ q # ys \<and> protected_pkt q = None \<and>
    (\<forall>p \<in> set xs \<union> set ys. protected_pkt p \<noteq> None)"
proof (induction ps)
  case (Cons p ps)
  show ?case
  proof (cases "protected_pkt p")
    case None
    then have "\<forall>p \<in> set ps. protected_pkt p \<noteq> None" using Cons.prems count_missing_bound [of 1 ps] by auto
    then show ?thesis using None by (intro exI [of _ "[]"] exI [of _ p] exI [of _ ps]) simp
  next
    case (Some b)
    then have "count_missing 0 ps = 1" using Cons.prems by simp
    with Cons.IH obtain xs q ys where "ps = xs @ q # ys" "protected_pkt q = None"
      "\<forall>p \<in> set xs \<union> set ys. protected_pkt p \<noteq> None" by blast
    then show ?thesis using Some by (intro exI [of _ "p # xs"] exI [of _ q] exI [of _ ys]) simp
  qed
qed simp

lemma good_present:
  "list_all (good_protected s) ps \<Longrightarrow> \<forall>p \<in> set ps. protected_pkt p \<noteq> None \<Longrightarrow> \<exists>us. list_all2 has_packet ps us"
proof (induction ps)
  case (Cons p ps)
  then obtain us where "list_all2 has_packet ps us" by auto
  moreover have "\<exists>u. has_packet p u"
    using Cons.prems by (auto simp: good_protected_def good_packet_def has_packet_def)
  ultimately show ?case by (auto simp: list_all2_Cons1)
qed (auto intro: exI [of _ "[]"])

lemma length_finished:
  "12 \<le> length bytes \<Longrightarrow> length (finished sn s bytes) = unat (ReadBigEndian [bytes ! 2, bytes ! 3] :: u16) + 12"
  by (simp add: finished_def Let_def)

lemma RecoverPacket_ok:
  assumes f: "good_fec fs ms f" and one: "NumCoveredPacketsMissing f = 1"
  shows "\<exists>ret. RecoverPacket dchecks f = Inr ret \<and> (\<forall>r. ret = Some r \<longrightarrow> good_recovered ms r)"
proof -
  from f obtain data where data: "cow_data (fec_pkt f) = mem_of data" and hs: "12 \<le> fec_header_size f" "fec_header_size f \<le> 32"
    and good: "list_all (good_protected ms) (protected_packets f)" by (auto simp: good_fec_def)
  let ?n = "protection_length f" and ?hs = "fec_header_size f"
  have sz: "size_t (int IP_PACKET_SIZE - int ?hs) = 1500 - ?hs"
    using hs by (simp add: size_t_small IP_PACKET_SIZE_def nat_diff_distrib')
  show ?thesis
  proof (cases "?hs + ?n \<le> length data \<and> ?n \<le> 1500 - ?hs")
    case False
    then have "StartPacketRecovery f = Inr None"
      unfolding StartPacketRecovery_def Let_def data sz by (auto simp: codec_constants)
    then show ?thesis by (simp add: RecoverPacket_def)
  next
    case True
    define d where "d = take 12 data @ take ?n (drop ?hs data)"
    have start: "StartPacketRecovery f = Inr (Some \<lparr>cow_data = mem_of d, cow_capacity = 1500\<rparr>)"
      using StartPacketRecovery_eq [OF data] hs True by (simp add: d_def)
    have d: "12 \<le> length d" "length d \<le> 1500" using True hs by (auto simp: d_def)
    from one_missing [of "protected_packets f"] one obtain xs q ys where
      ps: "protected_packets f = xs @ q # ys" "protected_pkt q = None" "\<forall>p \<in> set xs \<union> set ys. protected_pkt p \<noteq> None"
      by (auto simp: NumCoveredPacketsMissing_def)
    have sq: "ssrc q = ms" using good ps(1) by (auto simp: good_protected_def)
    from good_present [of ms xs] good_present [of ms ys] good ps obtain us vs where
      uv: "list_all2 has_packet xs us" "list_all2 has_packet ys vs" by auto
    from recover_loop_present [OF uv(1) d, of dchecks None] obtain b1 where
      b1: "recover_loop dchecks xs (None, \<lparr>cow_data = mem_of d, cow_capacity = 1500\<rparr>) = Inr (None, \<lparr>cow_data = mem_of b1, cow_capacity = 1500\<rparr>)"
        "12 \<le> length b1" "length b1 \<le> 1500" using d by auto
    from recover_loop_present [OF uv(2) b1(2,3), of dchecks "Some (seq_num q, ssrc q)"] obtain b2 where
      b2: "recover_loop dchecks ys (Some (seq_num q, ssrc q), \<lparr>cow_data = mem_of b1, cow_capacity = 1500\<rparr>) =
          Inr (Some (seq_num q, ssrc q), \<lparr>cow_data = mem_of b2, cow_capacity = 1500\<rparr>)" "12 \<le> length b2" using b1 by auto
    have loop: "recover_loop dchecks (protected_packets f) (None, \<lparr>cow_data = mem_of d, cow_capacity = 1500\<rparr>) =
        Inr (Some (seq_num q, ssrc q), \<lparr>cow_data = mem_of b2, cow_capacity = 1500\<rparr>)"
      unfolding ps(1) recover_loop_append b1(1) using b2(1) ps(2) by simp
    from FinishPacketRecovery_eq [OF b2(2), of "seq_num q" "ssrc q" 1500] obtain c' where
      fin: "FinishPacketRecovery (seq_num q) (ssrc q) \<lparr>cow_data = mem_of b2, cow_capacity = 1500\<rparr> =
        Inr (if unat (ReadBigEndian [b2 ! 2, b2 ! 3] :: u16) + 12 > 1488 then None
             else Some \<lparr>cow_data = mem_of (finished (seq_num q) (ssrc q) b2), cow_capacity = c'\<rparr>)" by blast
    show ?thesis
      unfolding RecoverPacket_def start bind_res.simps option.case loop prod.case fin
      using length_finished [OF b2(2), of "seq_num q" "ssrc q"] sq by (auto simp: good_recovered_def good_packet_def)
  qed
qed

lemma IsOldFecPacket_ok: "good_fec fs ms f \<Longrightarrow> \<exists>b. IsOldFecPacket f rs = Inr b"
  by (cases "rs = []") (auto simp: IsOldFecPacket_def good_fec_def)

lemma DiscardOld_ok:
  "reader_MaxMediaPackets (fec_header_reader c) = 192 \<Longrightarrow> length (DiscardOldRecoveredPackets c rs) \<le> 192"
  "list_all P rs \<Longrightarrow> list_all P (DiscardOldRecoveredPackets c rs)"
  by (auto simp: DiscardOldRecoveredPackets_def list_all_iff dest: in_set_dropD)

lemma sort_recovered_ok:
  assumes "list_all (good_recovered ms) rs" "good_recovered ms r"
  shows "\<exists>rs'. sort_packets dchecks (rs @ [r]) = Inr rs' \<and> list_all (good_recovered ms) rs' \<and> length rs' = Suc (length rs)"
proof -
  have "ssrc x = ms" if "x \<in> set (rs @ [r])" for x using assms that by (auto simp: list_all_iff good_recovered_def)
  with sort_packets_ok [of "rs @ [r]" ms dchecks] obtain rs' where
    "sort_packets dchecks (rs @ [r]) = Inr rs'" "set rs' = set (rs @ [r])" "length rs' = length (rs @ [r])" by blast
  then show ?thesis using assms by (auto simp: list_all_iff)
qed

lemma list_all_erase: "list_all P xs \<Longrightarrow> list_all P (take n xs @ drop (Suc n) xs)"
  by (auto simp: list_all_iff dest: in_set_takeD in_set_dropD)

lemma attempt_loop_ok:
  assumes "reader_MaxMediaPackets (fec_header_reader c) = 192"
  shows "list_all (good_fec s ms) passed \<Longrightarrow> list_all (good_fec s ms) fs \<Longrightarrow> list_all (good_recovered ms) rs \<Longrightarrow> length rs \<le> 192 \<Longrightarrow>
    \<exists>num' rs' fs'. attempt_loop dchecks c passed fs rs num = Inr (num', rs', fs') \<and> list_all (good_fec s ms) fs' \<and>
      list_all (good_recovered ms) rs' \<and> length rs' \<le> 192 \<and> length fs' \<le> length passed + length fs"
  using assms
proof (induction dchecks c passed fs rs num rule: attempt_loop.induct)
  case (2 dchecks c passed f fs rs num)
  let ?G = "good_fec s ms" and ?R = "good_recovered ms"
  have f: "?G f" and fs: "list_all ?G fs" using "2.prems" by auto
  note IH = "2.IH"
  show ?case
  proof (cases "NumCoveredPacketsMissing f = 1")
    case True
    from RecoverPacket_ok [OF f True, of dchecks] obtain ret where
      ret: "RecoverPacket dchecks f = Inr ret" "\<And>r. ret = Some r \<Longrightarrow> ?R r" by blast
    show ?thesis
    proof (cases ret)
      case None
      have "\<exists>num' rs' fs'. attempt_loop dchecks c passed fs rs num = Inr (num', rs', fs') \<and> list_all ?G fs' \<and>
          list_all ?R rs' \<and> length rs' \<le> 192 \<and> length fs' \<le> length passed + length fs"
        using IH(1) [OF True ret(1) None] "2.prems" fs by blast
      then show ?thesis using True ret(1) None by (force simp: le_SucI)
    next
      case (Some r)
      from sort_recovered_ok [OF "2.prems"(3) ret(2) [OF Some], of dchecks] obtain rs1 where
        rs1: "sort_packets dchecks (rs @ [r]) = Inr rs1" "list_all ?R rs1" by blast
      from UpdateCovering_ok [OF ret(2) [OF Some], of s "passed @ f # fs" dchecks] "2.prems" obtain all where
        all: "UpdateCoveringFecPackets dchecks r (passed @ f # fs) = Inr all" "list_all ?G all"
          "length all = length (passed @ f # fs)" by auto
      let ?fs = "take (length passed) all @ drop (Suc (length passed)) all"
      have len: "length ?fs = length passed + length fs" using all(3) by simp
      have "\<exists>num' rs' fs'. attempt_loop dchecks c [] ?fs (DiscardOldRecoveredPackets c rs1) (Suc num) = Inr (num', rs', fs') \<and>
          list_all ?G fs' \<and> list_all ?R rs' \<and> length rs' \<le> 192 \<and> length fs' \<le> length ([] :: ReceivedFecPacket list) + length ?fs"
        by (rule IH(2) [OF True ret(1) Some rs1(1) all(1)])
          (use "2.prems"(5) rs1(2) DiscardOld_ok list_all_erase [OF all(2)] in auto)
      then show ?thesis using True ret(1) Some rs1(1) all(1) len by (force simp: le_SucI)
    qed
  next
    case False
    obtain b where b: "(if NumCoveredPacketsMissing f = 0 then Inr True else IsOldFecPacket f rs) = Inr b"
      using IsOldFecPacket_ok [OF f, of rs] by (cases "NumCoveredPacketsMissing f = 0") auto
    have eq: "attempt_loop dchecks c passed (f # fs) rs num =
        (if b then attempt_loop dchecks c passed fs rs num else attempt_loop dchecks c (passed @ [f]) fs rs num)"
      using False b by simp
    show ?thesis
    proof (cases b)
      case True
      have "\<exists>num' rs' fs'. attempt_loop dchecks c passed fs rs num = Inr (num', rs', fs') \<and> list_all ?G fs' \<and>
          list_all ?R rs' \<and> length rs' \<le> 192 \<and> length fs' \<le> length passed + length fs"
        using IH(3) [OF False b True] "2.prems" fs by blast
      then show ?thesis unfolding eq using True by force
    next
      case F: False
      have "\<exists>num' rs' fs'. attempt_loop dchecks c (passed @ [f]) fs rs num = Inr (num', rs', fs') \<and> list_all ?G fs' \<and>
          list_all ?R rs' \<and> length rs' \<le> 192 \<and> length fs' \<le> length (passed @ [f]) + length fs"
        by (rule IH(4) [OF False b F]) (use "2.prems" fs f in auto)
      then show ?thesis unfolding eq using F by force
    qed
  qed
qed auto

section \<open>Received packets\<close>

lemma InsertMediaPacket_ok:
  assumes ok: "decoder_ok reader c rs" and r: "ssrc r = protected_media_ssrc c" "good_packet (received_pkt r)"
  shows "\<exists>rs' fs. InsertMediaPacket dchecks rs r c = Inr (rs', c\<lparr>received_fec_packets := fs\<rparr>) \<and>
    list_all (good_recovered (protected_media_ssrc c)) rs' \<and>
    list_all (good_fec (codec_ssrc c) (protected_media_ssrc c)) fs \<and> length fs \<le> 48"
proof -
  let ?R = "good_recovered (protected_media_ssrc c)" and ?G = "good_fec (codec_ssrc c) (protected_media_ssrc c)"
  have rs: "list_all ?R rs" "list_all ?G (received_fec_packets c)" "length (received_fec_packets c) \<le> 48"
    using ok by (auto simp: decoder_ok_def)
  have "find_duplicate dchecks rs r = Inr (\<exists>x \<in> set rs. seq_num x = seq_num r)"
    using rs r by (intro find_duplicate_ok) (auto simp: list_all_iff good_recovered_def)
  moreover define p where "p = \<lparr>ssrc = ssrc r, seq_num = seq_num r, was_recovered = False, returned = True, recovered_pkt = received_pkt r\<rparr>"
  have p: "?R p" using r by (simp add: p_def good_recovered_def)
  from sort_recovered_ok [OF rs(1) p, of dchecks] obtain rs' where
    rs': "sort_packets dchecks (rs @ [p]) = Inr rs'" "list_all ?R rs'" by blast
  from UpdateCovering_ok [OF p rs(2), of dchecks] obtain fs where
    fs: "UpdateCoveringFecPackets dchecks p (received_fec_packets c) = Inr fs" "list_all ?G fs"
      "length fs = length (received_fec_packets c)" by blast
  ultimately show ?thesis
    unfolding InsertMediaPacket_def p_def [symmetric] using r rs rs' fs
    by (cases "\<exists>x \<in> set rs. seq_num x = seq_num r") (auto intro: exI [of _ "received_fec_packets c"])
qed

context fec_header_format
begin

lemma InsertFecPacket_ok:
  assumes ok: "decoder_ok reader c rs" and r: "ssrc r = codec_ssrc c" "cow_data (received_pkt r) = mem_of data"
  shows "\<exists>fs. InsertFecPacket dchecks rs r c = Inr (c\<lparr>received_fec_packets := fs\<rparr>) \<and>
    list_all (good_fec (codec_ssrc c) (protected_media_ssrc c)) fs \<and> length fs \<le> 48"
proof -
  let ?R = "good_recovered (protected_media_ssrc c)" and ?G = "good_fec (codec_ssrc c) (protected_media_ssrc c)"
  have c: "fec_header_reader c = reader" "list_all ?R rs" "list_all ?G (received_fec_packets c)"
    "length (received_fec_packets c) \<le> 48"
    using ok by (auto simp: decoder_ok_def)
  then have same: "\<exists>fs. Inr c = Inr (c\<lparr>received_fec_packets := fs\<rparr>) \<and> list_all ?G fs \<and> length fs \<le> 48"
    by (intro exI [of _ "received_fec_packets c"]) simp
  have dup: "find_duplicate dchecks (received_fec_packets c) r = Inr (\<exists>x \<in> set (received_fec_packets c). seq_num x = seq_num r)"
    using c r by (intro find_duplicate_ok) (auto simp: list_all_iff good_fec_def)
  define p where "p = \<lparr>ssrc = ssrc r, seq_num = seq_num r, protected_packets = [], protected_streams = [],
                 fec_header_size = 0, protection_length = 0, fec_pkt = received_pkt r\<rparr>"
  have "cow_data (fec_pkt p) = mem_of data" using r by (simp add: p_def)
  from reader_total [OF this, of dchecks] obtain ret where
    ret: "ReadFecHeader reader dchecks p = Inr ret" "\<And>q. ret = Some q \<Longrightarrow> header_parsed p data q" by blast
  show ?thesis
  proof (cases "(\<exists>x \<in> set (received_fec_packets c). seq_num x = seq_num r) \<or> ret = None")
    case True
    then show ?thesis
      unfolding InsertFecPacket_def p_def [symmetric] dup bind_res.simps c(1) ret(1) using r same by auto
  next
    case False
    then obtain f where f: "ret = Some f" by auto
    from ret(2) [OF this] obtain s hs l data' where
      q: "f = p\<lparr>protected_streams := [s], fec_header_size := hs, protection_length := l,
            fec_pkt := (fec_pkt p)\<lparr>cow_data := mem_of data'\<rparr>\<rparr>" "12 \<le> hs" "hs \<le> 32"
      unfolding header_parsed_def by blast
    let ?off = "stream_mask_offset s" and ?n = "stream_mask_size s"
    define ps where "ps = mask_packets (protected_media_ssrc c) (stream_seq_num_base s) (take ?n (drop ?off data'))"
    have eq: "InsertFecPacket dchecks rs r c =
        (if stream_ssrc s \<noteq> protected_media_ssrc c then Inr c
         else if ?off + ?n > length data' then Inr c
         else if ps = [] then Inr c
         else
           bind_res (AssignRecoveredPackets dchecks rs (f\<lparr>protected_packets := ps\<rparr>)) (\<lambda>f'.
           bind_res (sort_packets dchecks (received_fec_packets c @ [f'])) (\<lambda>fs.
             let fs' = (if length fs > 48 then tl fs else fs)
             in RTC_DCHECK dchecks (length fs' \<le> 48) ''received_fec_packets_.size() <= max_fec_packets''
                  (Inr (c\<lparr>received_fec_packets := fs'\<rparr>)))))"
      unfolding InsertFecPacket_def p_def [symmetric] dup bind_res.simps c(1) ret(1) limits(4) f
      using False r(1) f by (simp add: q RTC_CHECK_def mem_read_mem_of ps_def Let_def)
    have good: "list_all (good_protected (protected_media_ssrc c)) ps"
      by (auto simp: ps_def mask_packets_def mask_byte_packets_def list_all_iff good_protected_def)
    from assign_recovered_ok [OF this c(2), of dchecks] obtain ps' where
      ps': "assign_recovered dchecks ps rs = Inr ps'" "list_all (good_protected (protected_media_ssrc c)) ps'" "length ps' = length ps"
      by blast
    define f' where "f' = f\<lparr>protected_packets := ps'\<rparr>"
    have a: "AssignRecoveredPackets dchecks rs (f\<lparr>protected_packets := ps\<rparr>) = Inr f'"
      using ps'(1) by (simp add: AssignRecoveredPackets_def f'_def)
    have gf: "?G f'" if "ps \<noteq> []"
      using that ps' q r by (auto simp: good_fec_def f'_def p_def)
    from sort_packets_ok [of "received_fec_packets c @ [f']" "codec_ssrc c" dchecks] obtain fs where
      fs: "sort_packets dchecks (received_fec_packets c @ [f']) = Inr fs" "set fs = set (received_fec_packets c @ [f'])"
        "length fs = Suc (length (received_fec_packets c))"
      using c(3) q r by (force simp: list_all_iff good_fec_def f'_def p_def)
    define fs' where "fs' = (if length fs > 48 then tl fs else fs)"
    have "set fs' \<subseteq> set fs" by (cases fs) (auto simp: fs'_def)
    then have "ps \<noteq> [] \<Longrightarrow> list_all ?G fs'" using gf fs(2) c(3) by (auto simp: list_all_iff)
    moreover have "length fs' \<le> 48" using fs(3) c(4) by (auto simp: fs'_def)
    ultimately show ?thesis
      unfolding eq a bind_res.simps fs(1) Let_def fs'_def [symmetric] using same by auto
  qed
qed

lemma InsertPacket_ok:
  assumes ok: "decoder_ok reader c rs" and r: "good_received c r"
  shows "\<exists>rs' fs. InsertPacket dchecks r rs c = Inr (rs', c\<lparr>received_fec_packets := fs\<rparr>) \<and>
    decoder_ok reader (c\<lparr>received_fec_packets := fs\<rparr>) rs'"
proof -
  define fs0 where "fs0 = (if received_fec_packets c \<noteq> [] \<and> ssrc r = ssrc (hd (received_fec_packets c))
    then dropWhile (\<lambda>f. MinDiff (seq_num r) (seq_num f) > kOldSequenceThreshold) (received_fec_packets c) else received_fec_packets c)"
  let ?c = "c\<lparr>received_fec_packets := fs0\<rparr>"
  have "set fs0 \<subseteq> set (received_fec_packets c)" "length fs0 \<le> length (received_fec_packets c)"
    by (auto simp: fs0_def length_dropWhile_le dest: set_dropWhileD)
  then have ok0: "decoder_ok reader ?c rs" using ok by (auto simp: decoder_ok_def list_all_iff)
  have c0: "(if received_fec_packets c \<noteq> [] \<and> ssrc r = ssrc (hd (received_fec_packets c))
      then c\<lparr>received_fec_packets := dropWhile (\<lambda>f. MinDiff (seq_num r) (seq_num f) > kOldSequenceThreshold) (received_fec_packets c)\<rparr>
      else c) = ?c" by (simp add: fs0_def)
  let ?R = "good_recovered (protected_media_ssrc c)" and ?G = "good_fec (codec_ssrc c) (protected_media_ssrc c)"
  have "\<exists>rs1 fs. (if is_fec r then bind_res (InsertFecPacket dchecks rs r ?c) (\<lambda>c2. Inr (rs, c2)) else InsertMediaPacket dchecks rs r ?c) =
      Inr (rs1, ?c\<lparr>received_fec_packets := fs\<rparr>) \<and> list_all ?R rs1 \<and> list_all ?G fs \<and> length fs \<le> 48"
  proof (cases "is_fec r")
    case True
    then obtain data where "ssrc r = codec_ssrc ?c" "cow_data (received_pkt r) = mem_of data" using r by (auto simp: good_received_def)
    from InsertFecPacket_ok [OF ok0 this, of dchecks] show ?thesis using True ok by (auto simp: decoder_ok_def)
  next
    case False
    then have "ssrc r = protected_media_ssrc ?c" "good_packet (received_pkt r)" using r by (auto simp: good_received_def)
    from InsertMediaPacket_ok [OF ok0 this, of dchecks] show ?thesis using False by auto
  qed
  then obtain rs1 fs where
    i: "(if is_fec r then bind_res (InsertFecPacket dchecks rs r ?c) (\<lambda>c2. Inr (rs, c2)) else InsertMediaPacket dchecks rs r ?c) =
        Inr (rs1, ?c\<lparr>received_fec_packets := fs\<rparr>)" "list_all ?R rs1" "list_all ?G fs" "length fs \<le> 48" by blast
  let ?c' = "c\<lparr>received_fec_packets := fs\<rparr>"
  have rd: "fec_header_reader c = reader" using ok by (simp add: decoder_ok_def)
  have "length (DiscardOldRecoveredPackets ?c' rs1) \<le> 192" by (rule DiscardOld_ok(1)) (simp add: rd limits)
  then have "decoder_ok reader ?c' (DiscardOldRecoveredPackets ?c' rs1)"
    using i DiscardOld_ok(2) [OF i(2)] rd by (simp add: decoder_ok_def)
  moreover have "InsertPacket dchecks r rs c = Inr (DiscardOldRecoveredPackets ?c' rs1, ?c')"
    unfolding InsertPacket_def Let_def c0 i(1) by simp
  ultimately show ?thesis by blast
qed

lemma DecodeFec_ok:
  assumes ok: "decoder_ok reader c rs" and r: "good_received c r"
  shows "\<exists>num rs' fs. DecodeFec dchecks r rs c = Inr (num, rs', c\<lparr>received_fec_packets := fs\<rparr>) \<and>
    decoder_ok reader (c\<lparr>received_fec_packets := fs\<rparr>) rs'"
proof -
  have step: "\<exists>num rs' fs. bind_res (InsertPacket dchecks r rs0 (c\<lparr>received_fec_packets := fs0\<rparr>))
      (\<lambda>(rs2, c2). AttemptRecovery dchecks rs2 c2) = Inr (num, rs', c\<lparr>received_fec_packets := fs\<rparr>) \<and>
      decoder_ok reader (c\<lparr>received_fec_packets := fs\<rparr>) rs'"
    if ok0: "decoder_ok reader (c\<lparr>received_fec_packets := fs0\<rparr>) rs0" for fs0 rs0
  proof -
    have "good_received (c\<lparr>received_fec_packets := fs0\<rparr>) r" using r by (simp add: good_received_def)
    from InsertPacket_ok [OF ok0 this, of dchecks] obtain rs1 fs1 where
      i: "InsertPacket dchecks r rs0 (c\<lparr>received_fec_packets := fs0\<rparr>) = Inr (rs1, c\<lparr>received_fec_packets := fs1\<rparr>)"
        "decoder_ok reader (c\<lparr>received_fec_packets := fs1\<rparr>) rs1" by auto
    let ?c = "c\<lparr>received_fec_packets := fs1\<rparr>"
    have m: "reader_MaxMediaPackets (fec_header_reader ?c) = 192" using i(2) limits by (simp add: decoder_ok_def)
    from attempt_loop_ok [OF m, of "codec_ssrc c" "protected_media_ssrc c" "[]" fs1 rs1 dchecks 0] i(2) obtain num rs' fs' where
      a: "attempt_loop dchecks ?c [] fs1 rs1 0 = Inr (num, rs', fs')" "list_all (good_fec (codec_ssrc c) (protected_media_ssrc c)) fs'"
        "list_all (good_recovered (protected_media_ssrc c)) rs'" "length rs' \<le> 192" "length fs' \<le> length fs1"
      by (auto simp: decoder_ok_def)
    then have "decoder_ok reader (c\<lparr>received_fec_packets := fs'\<rparr>) rs'" using i(2) by (simp add: decoder_ok_def)
    then show ?thesis using i(1) a(1) by (auto simp: AttemptRecovery_def)
  qed
  have "decoder_ok reader (c\<lparr>received_fec_packets := received_fec_packets c\<rparr>) rs" "decoder_ok reader (c\<lparr>received_fec_packets := []\<rparr>) []"
    using ok by (auto simp: decoder_ok_def)
  from step [OF this(1)] step [OF this(2)] show ?thesis unfolding DecodeFec_def Let_def by (simp add: ResetState_def)
qed

end

section \<open>A whole session\<close>

text \<open>The calls of \<open>DecodeFec\<close> for a sequence of received packets.\<close>

fun decode_all :: "bool \<Rightarrow> ReceivedPacket list \<Rightarrow> RecoveredPacket list \<Rightarrow> fec_codec \<Rightarrow> (RecoveredPacket list \<times> fec_codec) res" where
  "decode_all dchecks [] rs c = Inr (rs, c)"
| "decode_all dchecks (r # rest) rs c =
     bind_res (DecodeFec dchecks r rs c) (\<lambda>(_, rs', c'). decode_all dchecks rest rs' c')"

context fec_header_format
begin

lemma decode_all_ok:
  "decoder_ok reader c rs \<Longrightarrow> \<forall>r \<in> set packets. good_received c r \<Longrightarrow>
   \<exists>rs' c'. decode_all dchecks packets rs c = Inr (rs', c') \<and> decoder_ok reader c' rs'"
proof (induction packets arbitrary: rs c)
  case (Cons r packets)
  from DecodeFec_ok [OF Cons.prems(1), of r dchecks] Cons.prems(2) obtain num rs1 fs where
    d: "DecodeFec dchecks r rs c = Inr (num, rs1, c\<lparr>received_fec_packets := fs\<rparr>)"
      "decoder_ok reader (c\<lparr>received_fec_packets := fs\<rparr>) rs1" by auto
  have "\<forall>r \<in> set packets. good_received (c\<lparr>received_fec_packets := fs\<rparr>) r" using Cons.prems(2) by (simp add: good_received_def)
  from Cons.IH [OF d(2) this] show ?case using d(1) by simp
qed simp

end

text \<open>
  Claim C11. The WebRTC decoder is safe on arbitrary input: fed with any sequence of packets that belong to its two streams,
  media packets being RTP packets of 12 to 1500 bytes and FEC packets being arbitrary bytes, a decoder for ULPFEC or FlexFEC
  never accesses memory outside a buffer, uses an indeterminate byte or fails a check, with the debug checks
  compiled in or not, and at every end it holds at most 192 media and 48 FEC packets, every
  media packet, received or recovered, with 12 to 1500 bytes.
\<close>

theorem decoder_safe_on_any_input:
  assumes "c \<in> {CreateUlpfec s, CreateFlexfec s ms}" "\<forall>r \<in> set packets. good_received c r"
  shows "\<exists>rs c'. decode_all dchecks packets [] c = Inr (rs, c') \<and> length rs \<le> 192 \<and> length (received_fec_packets c') \<le> 48 \<and>
    (\<forall>r \<in> set rs. good_packet (recovered_pkt r))"
proof -
  have "decoder_ok UlpfecHeaderReader (CreateUlpfec s) []" "decoder_ok Flexfec03HeaderReader (CreateFlexfec s ms) []"
    by (simp_all add: decoder_ok_def CreateUlpfec_def CreateFlexfec_def new_ForwardErrorCorrection_def)
  with ulpfec.decode_all_ok [of c "[]" packets dchecks] flexfec.decode_all_ok [of c "[]" packets dchecks] assms
  obtain reader rs c' where "decode_all dchecks packets [] c = Inr (rs, c')" "decoder_ok reader c' rs" by auto
  then show ?thesis by (auto simp: decoder_ok_def list_all_iff good_recovered_def)
qed

theorem decoder_safe_on_any_input_witness:
  "\<exists>rs c'. decode_all True
     [\<lparr>ssrc = 7, seq_num = 1, is_fec = True, received_pkt = buffer_of [0x40, 1, 2, 3]\<rparr>,
      \<lparr>ssrc = 7, seq_num = 2, is_fec = False, received_pkt = buffer_of (replicate 12 0x80)\<rparr>,
      \<lparr>ssrc = 7, seq_num = 3, is_fec = True, received_pkt = buffer_of (replicate 40 0xff)\<rparr>] [] (CreateUlpfec 7) = Inr (rs, c') \<and>
     length rs \<le> 192"
proof -
  let ?ps = "[\<lparr>ssrc = 7, seq_num = 1, is_fec = True, received_pkt = buffer_of [0x40, 1, 2, 3]\<rparr>,
      \<lparr>ssrc = 7, seq_num = 2, is_fec = False, received_pkt = buffer_of (replicate 12 0x80)\<rparr>,
      \<lparr>ssrc = 7, seq_num = 3, is_fec = True, received_pkt = buffer_of (replicate 40 0xff)\<rparr>] :: ReceivedPacket list"
  have "good_packet (buffer_of (replicate 12 0x80))"
    unfolding good_packet_def buffer_of_def by (intro exI [of _ "replicate 12 0x80"]) simp
  then have "\<forall>r \<in> set ?ps. good_received (CreateUlpfec 7) r"
    by (auto simp: good_received_def CreateUlpfec_def new_ForwardErrorCorrection_def buffer_of_def)
  then show ?thesis using decoder_safe_on_any_input [of "CreateUlpfec 7" 7 0 ?ps True] by auto
qed

end
