(* ===== verification/Codec_Roundtrip.thy ===== *)
theory Codec_Roundtrip
  imports Codec_Encode Decoder_Safe "HOL-Library.Multiset"
begin

text \<open>
  Encoder and decoder together: the media packets of a group arrive in any order, one of them is lost, and a FEC packet
  that protects it restores it.
\<close>

section \<open>Order of sequence numbers\<close>

lemma newer_offsets:
  assumes "a < 2 ^ 15" "b < 2 ^ 15"
  shows "IsNewerSequenceNumber (s0 + of_nat b) (s0 + of_nat a) \<longleftrightarrow> a < b"
proof -
  define x y v where "x = s0 + of_nat a" and "y = s0 + of_nat b" and "v = y - x"
  have "v = word_of_int (int b - int a)" by (simp add: v_def x_def y_def)
  moreover have "uint (word_of_int z :: u16) = z mod 65536" for z by (simp add: unsigned_of_int take_bit_eq_mod)
  ultimately have "uint v = (int b - int a) mod 65536" by (simp only:)
  moreover have "(int b - int a) mod 65536 = (if a \<le> b then int b - int a else int b - int a + 65536)"
  proof (cases "a \<le> b")
    case False
    have "(int b - int a) mod 65536 = (int b - int a + 65536) mod 65536" by simp
    also have "\<dots> = int b - int a + 65536" using False assms by (intro mod_pos_pos_trivial) auto
    finally show ?thesis using False by simp
  qed (use assms in \<open>simp add: mod_pos_pos_trivial\<close>)
  ultimately have v: "uint v = (if a \<le> b then int b - int a else int b - int a + 65536)" by simp
  have half: "uint y - uint x \<noteq> 0x8000"
  proof
    assume *: "uint y - uint x = 0x8000"
    have "v = word_of_int (uint y - uint x)" by (simp add: v_def)
    then have "uint v = 0x8000" unfolding * by simp
    then show False using v assms by (auto split: if_splits)
  qed
  have "y \<noteq> x \<longleftrightarrow> uint v \<noteq> 0" by (simp add: v_def uint_0_iff)
  moreover have "v < 0x8000 \<longleftrightarrow> uint v < 0x8000" by (simp add: word_less_def)
  ultimately show ?thesis
    unfolding IsNewerSequenceNumber_def x_def [symmetric] y_def [symmetric] v_def [symmetric]
    using half v assms by (auto split: if_splits)
qed

lemma numbered_small:
  assumes "numbered s0 d media" "k < length media"
  shows "d k < 48"
proof -
  have "d k \<le> d (length media - 1)" using numbered_mono [OF assms(1), of k "length media - 1"] assms(2) by simp
  then show ?thesis using assms(1) by (simp add: numbered_def)
qed

text \<open>Packets numbered by their index in the group.\<close>

definition indexed :: "u32 \<Rightarrow> u16 \<Rightarrow> (nat \<Rightarrow> nat) \<Rightarrow> nat \<Rightarrow> (nat \<Rightarrow> 'a SortablePacket_scheme) \<Rightarrow> bool" where
  "indexed s s0 d n R \<longleftrightarrow> (\<forall>j < n. ssrc (R j) = s \<and> seq_num (R j) = s0 + of_nat (d j))"

lemma indexed_less:
  assumes "numbered s0 d media" "n = length media" "indexed s s0 d n R" "indexed s s0 d n R'" "i < n" "j < n"
  shows "LessThan (R i) (R' j) \<longleftrightarrow> i < j"
proof -
  have "d k < 2 ^ 15" if "k < n" for k
    using numbered_small [OF assms(1), of k] assms(2) that by simp
  then have "LessThan (R i) (R' j) \<longleftrightarrow> d i < d j"
    using assms(3-6) newer_offsets by (simp add: LessThan_def indexed_def)
  also have "\<dots> \<longleftrightarrow> i < j"
    using assms(1,2,5,6) by (metis numbered_def linorder_neqE_nat order_less_imp_not_less order_less_irrefl)
  finally show ?thesis .
qed

lemma indexed_seq: 
  assumes "numbered s0 d media" "n = length media" "indexed s s0 d n R" "indexed s s0 d n R'" "i < n" "j < n"
  shows "seq_num (R i) = seq_num (R' j) \<longleftrightarrow> i = j"
  using indexed_less [OF assms] indexed_less [OF assms(1,2,4,3,6,5)] assms(3-6)
  by (auto simp: LessThan_def IsNewerSequenceNumber_def indexed_def)

lemma insert_packet_indexed:
  assumes "numbered s0 d media" "n = length media" "indexed s s0 d n R" "x < n"
  shows "\<forall>j \<in> set js. j < n \<Longrightarrow> insert_packet (R x) (map R js) = map R (insort x js)"
  using indexed_less [OF assms(1-3) assms(3) _ assms(4)] by (induction js) auto

lemma sort_packets_indexed:
  assumes "numbered s0 d media" "n = length media" "indexed s s0 d n R" "\<forall>j \<in> set js. j < n"
  shows "sort_packets dchecks (map R js) = Inr (map R (sort js))"
proof -
  have "\<forall>x \<in> set (map R js). ssrc x = ssrc (hd (map R js))"
    using assms(3,4) by (cases js) (auto simp: indexed_def)
  moreover have "foldr insert_packet (map R js) [] = map R (sort js)"
    using assms(4)
  proof (induction js)
    case (Cons j js)
    then show ?case using insert_packet_indexed [OF assms(1-3), of j "sort js"] by simp
  qed simp
  ultimately show ?thesis by (simp add: sort_packets_def)
qed

section \<open>Media packets\<close>

text \<open>The received packet \<open>j\<close> of the group and its copy in the list of the decoder.\<close>

definition media_arrival :: "u32 \<Rightarrow> u16 \<Rightarrow> (nat \<Rightarrow> nat) \<Rightarrow> u8 list list \<Rightarrow> nat \<Rightarrow> ReceivedPacket" where
  "media_arrival s s0 d media j =
     \<lparr>ssrc = s, seq_num = s0 + of_nat (d j), is_fec = False, received_pkt = buffer_of (media ! j)\<rparr>"

definition media_kept :: "u32 \<Rightarrow> u16 \<Rightarrow> (nat \<Rightarrow> nat) \<Rightarrow> u8 list list \<Rightarrow> nat \<Rightarrow> RecoveredPacket" where
  "media_kept s s0 d media j =
     \<lparr>ssrc = s, seq_num = s0 + of_nat (d j), was_recovered = False, returned = True, recovered_pkt = buffer_of (media ! j)\<rparr>"

lemma indexed_packets [simp]:
  "indexed s s0 d n (media_arrival s s0 d media)" "indexed s s0 d n (media_kept s s0 d media)"
  by (simp_all add: indexed_def media_arrival_def media_kept_def)

lemma Discard_small: "length rs \<le> reader_MaxMediaPackets (fec_header_reader c) \<Longrightarrow> DiscardOldRecoveredPackets c rs = rs"
  by (simp add: DiscardOldRecoveredPackets_def)

lemma sort_append_one: "sort (js @ [j :: nat]) = insort j (sort js)"
  by (rule properties_for_sort) (simp_all add: sorted_insort)

text \<open>A media packet that arrives at a decoder without FEC packets is filed at its place.\<close>

lemma DecodeFec_media:
  assumes num: "numbered s0 d media" and n: "n = length media" "n \<le> 48"
    and c: "received_fec_packets c = []" "protected_media_ssrc c = s" "reader_MaxMediaPackets (fec_header_reader c) = 192"
    and js: "distinct (j # js)" "\<forall>i \<in> set (j # js). i < n"
  shows "DecodeFec dchecks (media_arrival s s0 d media j) (map (media_kept s s0 d media) (sort js)) c =
    Inr (0, map (media_kept s s0 d media) (sort (js @ [j])), c)"
proof -
  let ?K = "media_kept s s0 d media" and ?r = "media_arrival s s0 d media j"
  have "set (j # js) \<subseteq> {..<n}" using js(2) by auto
  then have len: "length (j # js) \<le> 48" using n(2) card_mono [of "{..<n}" "set (j # js)"] distinct_card [OF js(1)] by simp
  have kept: "\<lparr>ssrc = ssrc ?r, seq_num = seq_num ?r, was_recovered = False, returned = True, recovered_pkt = received_pkt ?r\<rparr> = ?K j"
    by (simp add: media_arrival_def media_kept_def)
  have nodup: "find_duplicate dchecks (map ?K (sort js)) ?r = Inr False"
  proof -
    have "find_duplicate dchecks (map ?K (sort js)) ?r = Inr (\<exists>x \<in> set (map ?K (sort js)). seq_num x = seq_num ?r)"
      by (rule find_duplicate_ok) (auto simp: media_arrival_def media_kept_def)
    moreover have "seq_num (?K i) \<noteq> seq_num ?r" if "i \<in> set js" for i
      using that js indexed_seq [OF num n(1) indexed_packets(2,1), of i j] by auto
    ultimately show ?thesis by auto
  qed
  have sorted: "sort_packets dchecks (map ?K (sort js) @ [?K j]) = Inr (map ?K (sort (js @ [j])))"
    using sort_packets_indexed [OF num n(1), of s ?K "sort js @ [j]" dchecks] js(2)
    by (simp add: sort_append_one sorted_sort_id)
  have small: "length (map ?K (sort js)) \<noteq> 192" "DiscardOldRecoveredPackets (c\<lparr>received_fec_packets := []\<rparr>) (map ?K (sort (js @ [j]))) = map ?K (sort (js @ [j]))"
    using len c(3) by (simp_all add: Discard_small)
  have cc: "c\<lparr>received_fec_packets := []\<rparr> = c" using c(1) by (cases c) simp
  have m: "\<not> is_fec ?r" "ssrc ?r = protected_media_ssrc c" using c(2) by (simp_all add: media_arrival_def)
  have "InsertPacket dchecks ?r (map ?K (sort js)) c = Inr (map ?K (sort (js @ [j])), c)"
    unfolding InsertPacket_def InsertMediaPacket_def kept nodup using c(1) m sorted by (simp add: small [unfolded cc] cc)
  moreover have "AttemptRecovery dchecks (map ?K (sort (js @ [j]))) c = Inr (0, map ?K (sort (js @ [j])), c)"
    using c(1) by (simp add: AttemptRecovery_def)
  ultimately show ?thesis unfolding DecodeFec_def using small(1) c(3) by (simp add: Let_def)
qed

lemma decode_all_append:
  "decode_all dchecks (xs @ ys) rs c = bind_res (decode_all dchecks xs rs c) (\<lambda>(rs', c'). decode_all dchecks ys rs' c')"
proof (induction xs arbitrary: rs c)
  case (Cons x xs)
  then show ?case by (cases "DecodeFec dchecks x rs c") (auto split: prod.split)
qed simp

lemma decode_all_media:
  assumes "numbered s0 d media" "n = length media" "n \<le> 48"
    "received_fec_packets c = []" "protected_media_ssrc c = s" "reader_MaxMediaPackets (fec_header_reader c) = 192"
  shows "distinct js \<Longrightarrow> \<forall>i \<in> set js. i < n \<Longrightarrow>
    decode_all dchecks (map (media_arrival s s0 d media) js) [] c = Inr (map (media_kept s s0 d media) (sort js), c)"
proof (induction js rule: rev_induct)
  case (snoc j js)
  then show ?case
    using DecodeFec_media [OF assms, of j js dchecks] by (simp add: decode_all_append)
qed simp

section \<open>The FEC packet\<close>

text \<open>The packets that a FEC packet names, with the ones that have arrived.\<close>

definition covered :: "u32 \<Rightarrow> u16 \<Rightarrow> (nat \<Rightarrow> nat) \<Rightarrow> u8 list list \<Rightarrow> nat set \<Rightarrow> nat \<Rightarrow> ProtectedPacket" where
  "covered s s0 d media A j =
     \<lparr>ssrc = s, seq_num = s0 + of_nat (d j), protected_pkt = (if j \<in> A then Some (buffer_of (media ! j)) else None)\<rparr>"

lemma indexed_covered [simp]: "indexed s s0 d n (covered s s0 d media A)"
  by (simp add: indexed_def covered_def)

lemma assign_recovered_indexed:
  assumes num: "numbered s0 d media" "n = length media"
  shows "sorted_wrt (<) ks \<Longrightarrow> sorted_wrt (<) js \<Longrightarrow> \<forall>i \<in> set ks \<union> set js. i < n \<Longrightarrow>
    assign_recovered dchecks (map (covered s s0 d media {}) ks) (map (media_kept s s0 d media) js) =
    Inr (map (covered s s0 d media (set js)) ks)"
proof (induction "length ks + length js" arbitrary: ks js rule: less_induct)
  case less
  let ?C = "covered s s0 d media" and ?K = "media_kept s s0 d media"
  show ?case
  proof (cases ks)
    case (Cons k ks')
    show ?thesis
    proof (cases js)
      case Nil
      then show ?thesis by (simp add: Cons)
    next
      case js: (Cons j js')
      have b: "k < n" "j < n" using less.prems by (auto simp: Cons js)
      have lt: "LessThan (?C {} k) (?K j) \<longleftrightarrow> k < j" "LessThan (?K j) (?C {} k) \<longleftrightarrow> j < k"
        using indexed_less [OF num indexed_covered indexed_packets(2) b] indexed_less [OF num indexed_packets(2) indexed_covered b(2,1)] by auto
      have ss: "ssrc (?C {} k) = ssrc (?K j)" by (simp add: covered_def media_kept_def)
      consider "k < j" | "j < k" | "k = j" by linarith
      then show ?thesis
      proof cases
        case 1
        then have "k \<notin> set js" using less.prems(2) by (auto simp: js)
        moreover have "assign_recovered dchecks (map (?C {}) ks') (map ?K js) = Inr (map (?C (set js)) ks')"
          using less.prems by (intro less.hyps) (auto simp: Cons)
        ultimately show ?thesis using lt 1 ss by (simp add: Cons js covered_def)
      next
        case 2
        then have "j \<notin> set ks" using less.prems(1) by (auto simp: Cons)
        then have "map (?C (set js')) ks = map (?C (set js)) ks" by (auto simp: js covered_def)
        moreover have "assign_recovered dchecks (map (?C {}) ks) (map ?K js') = Inr (map (?C (set js')) ks)"
          using less.prems by (intro less.hyps) (auto simp: js)
        ultimately show ?thesis using lt 2 ss by (simp add: Cons js)
      next
        case 3
        then have "j \<notin> set ks'" using less.prems(1) by (auto simp: Cons)
        then have "map (?C (set js')) ks' = map (?C (set js)) ks'" by (auto simp: js covered_def)
        moreover have "assign_recovered dchecks (map (?C {}) ks') (map ?K js') = Inr (map (?C (set js')) ks')"
          using less.prems by (intro less.hyps) (auto simp: Cons js)
        moreover have "(?C {} k)\<lparr>protected_pkt := Some (recovered_pkt (?K j))\<rparr> = ?C (set js) k"
          using 3 by (simp add: covered_def media_kept_def js)
        ultimately show ?thesis using lt 3 ss by (simp add: Cons js)
      qed
    qed
  qed simp
qed

lemma count_one_missing:
  assumes "protected_pkt q = None" "\<forall>p \<in> set xs \<union> set ys. protected_pkt p \<noteq> None"
  shows "count_missing 0 (xs @ q # ys) = 1"
  using assms(2)
proof (induction xs)
  case Nil
  then show ?case using assms(1) count_missing_bound [of 1 ys] by auto
qed auto

definition media_restored :: "u32 \<Rightarrow> u16 \<Rightarrow> (nat \<Rightarrow> nat) \<Rightarrow> u8 list list \<Rightarrow> nat \<Rightarrow> RecoveredPacket" where
  "media_restored s s0 d media j =
     \<lparr>ssrc = s, seq_num = s0 + of_nat (d j), was_recovered = True, returned = False,
      recovered_pkt = \<lparr>cow_data = mem_of (media ! j), cow_capacity = 1500\<rparr>\<rparr>"

text \<open>The packets of a group as the decoder needs them: RTP packets of at most 1480 bytes with their numbers.\<close>

definition rtp_group :: "u32 \<Rightarrow> u16 \<Rightarrow> (nat \<Rightarrow> nat) \<Rightarrow> u8 list list \<Rightarrow> bool" where
  "rtp_group s s0 d media \<longleftrightarrow>
     (\<forall>j < length media. rtp_packet (s0 + of_nat (d j)) s (media ! j) \<and> length (media ! j) \<le> 1480)"

lemma recover_covered:
  assumes media: "rtp_group s s0 d media" and f: "fec_packet_for s (map (\<lambda>j. (s0 + of_nat (d j), media ! j)) ks) f"
    and ks: "ks = xs @ l # ys" "\<forall>j \<in> set ks. j < length media" and J: "l \<notin> J" "set xs \<union> set ys \<subseteq> J"
  defines "f' \<equiv> f\<lparr>protected_packets := map (covered s s0 d media J) ks\<rparr>"
  shows "NumCoveredPacketsMissing f' = 1" "RecoverPacket dchecks f' = Inr (Some (media_restored s s0 d media l))"
proof -
  let ?C = "covered s s0 d media J"
  have pp: "protected_packets f' = map ?C xs @ ?C l # map ?C ys" by (simp add: f'_def ks(1))
  have l: "protected_pkt (?C l) = None" "seq_num (?C l) = s0 + of_nat (d l)" "ssrc (?C l) = s" using J by (simp_all add: covered_def)
  show "NumCoveredPacketsMissing f' = 1"
    unfolding NumCoveredPacketsMissing_def pp using J l(1) by (intro count_one_missing) (auto simp: covered_def)
  from f obtain data where data: "cow_data (fec_pkt f) = mem_of data" "12 \<le> fec_header_size f" "fec_header_size f \<le> 32"
    "protection_length f = length data - fec_header_size f"
    "fec_of (fec_header_size f) (map ((!) media) xs @ media ! l # map ((!) media) ys) data"
    and len: "\<exists>j \<in> set ks. length data = fec_header_size f + (length (media ! j) - 12)"
    by (auto simp: fec_packet_for_def ks(1) comp_def)
  have rtp: "rtp_packet (s0 + of_nat (d j)) s (media ! j)" "length (media ! j) \<le> 1480" "12 \<le> length (media ! j)" if "j \<in> set ks" for j
    using media ks(2) that by (auto simp: rtp_group_def rtp_packet_def)
  from len obtain j where "j \<in> set ks" "length data = fec_header_size f + (length (media ! j) - 12)" by blast
  then have d: "length data \<le> 1500" using rtp(2) [of j] data(3) by linarith
  have "has_packet (?C j) (media ! j)" if "j \<in> J" "j \<in> set ks" for j
    using that(1) rtp(2,3) [OF that(2)] by (simp add: has_packet_def covered_def buffer_of_def)
  then have has: "list_all2 has_packet (map ?C zs) (map ((!) media) zs)" if "set zs \<subseteq> J" "set zs \<subseteq> set ks" for zs
    using that by (auto simp: list.rel_map intro!: list.rel_refl_strong)
  have lk: "l \<in> set ks" "set xs \<subseteq> set ks" "set ys \<subseteq> set ks" by (auto simp: ks(1))
  have "RecoverPacket dchecks f' = Inr (Some \<lparr>ssrc = ssrc (?C l), seq_num = seq_num (?C l), was_recovered = True, returned = False,
    recovered_pkt = \<lparr>cow_data = mem_of (media ! l), cow_capacity = 1500\<rparr>\<rparr>)"
    by (rule recover_restores [OF _ refl _ _ _ d _ pp has [OF _ lk(2)] has [OF _ lk(3)] l(1)])
      (use data rtp(1,2) [OF lk(1)] J l in \<open>simp_all add: f'_def\<close>)
  then show "RecoverPacket dchecks f' = Inr (Some (media_restored s s0 d media l))"
    using l by (simp add: media_restored_def)
qed

lemma sort_packets_one: "sort_packets dchecks [x] = Inr [x]"
  by (simp add: sort_packets_def)

lemma sorted_split:
  assumes "sorted_wrt (<) (xs @ (l :: nat) # ys)"
  shows "l \<notin> set xs" "l \<notin> set ys"
  using assms by (auto simp: sorted_wrt_append)

text \<open>\<open>AttemptRecovery\<close> with a single FEC packet, of which one packet is missing.\<close>

lemma AttemptRecovery_one:
  assumes c: "received_fec_packets c = [f]" "reader_MaxMediaPackets (fec_header_reader c) = 192"
    and f: "NumCoveredPacketsMissing f = 1" "RecoverPacket dchecks f = Inr (Some r)" "good_fec fs ms f" "good_recovered ms r"
    and rs: "sort_packets dchecks (rs @ [r]) = Inr rs'" "length rs' \<le> 192"
  shows "AttemptRecovery dchecks rs c = Inr (1, rs', c\<lparr>received_fec_packets := []\<rparr>)"
proof -
  from UpdateCovering_ok [OF f(4), of fs "[f]" dchecks] f(3) obtain gs where
    "UpdateCoveringFecPackets dchecks r [f] = Inr gs" "length gs = 1" by auto
  then show ?thesis
    using c f(1,2) rs by (auto simp: AttemptRecovery_def Discard_small length_Suc_conv)
qed

context fec_header_format
begin

lemma DecodeFec_restores:
  assumes num: "numbered s0 d media" "n = length media" "n \<le> 48" and media: "rtp_group s s0 d media"
    and c: "decoder_ok reader c []" "received_fec_packets c = []" "protected_media_ssrc c = s" "codec_ssrc c = ssrc r"
    and r: "is_fec r" "cow_data (received_pkt r) = mem_of wire"
    and read: "\<And>p. cow_data (fec_pkt p) = mem_of wire \<Longrightarrow> ssrc p = ssrc r \<Longrightarrow>
       \<exists>q. ReadFecHeader reader dchecks p = Inr (Some q) \<and> fec_packet_for s (map (\<lambda>j. (s0 + of_nat (d j), media ! j)) ks) q"
    and ks: "sorted_wrt (<) ks" "\<forall>j \<in> set ks. j < n" "l \<in> set ks"
    and js: "distinct (l # js)" "\<forall>j \<in> set js. j < n" "set ks \<subseteq> set (l # js)"
  shows "DecodeFec dchecks r (map (media_kept s s0 d media) (sort js)) c =
    Inr (1, map ((media_kept s s0 d media)(l := media_restored s s0 d media l)) (sort (js @ [l])), c)"
proof -
  let ?K = "media_kept s s0 d media" and ?M = "media_restored s s0 d media l" and ?C = "covered s s0 d media"
  let ?rs = "map ?K (sort js)"
  define R where "R = ?K(l := ?M)"
  have iR: "indexed s s0 d n R" by (simp add: R_def indexed_def media_kept_def media_restored_def)
  have rd: "fec_header_reader c = reader" using c(1) by (simp add: decoder_ok_def)
  from ks(3) obtain xs ys where xy: "ks = xs @ l # ys" by (meson split_list)
  have J: "l \<notin> set js" "set xs \<union> set ys \<subseteq> set js"
    using js sorted_split [of xs l ys] ks(1) by (auto simp: xy)
  define p where "p = \<lparr>ssrc = ssrc r, seq_num = seq_num r, protected_packets = [], protected_streams = [],
                 fec_header_size = 0, protection_length = 0, fec_pkt = received_pkt r\<rparr>"
  have "cow_data (fec_pkt p) = mem_of wire" "ssrc p = ssrc r" using r by (simp_all add: p_def)
  with read [of p] reader_total [of p wire dchecks] obtain q where
    q: "ReadFecHeader reader dchecks p = Inr (Some q)" "fec_packet_for s (map (\<lambda>j. (s0 + of_nat (d j), media ! j)) ks) q"
      "header_parsed p wire q" by auto
  then have sq: "ssrc q = ssrc r" by (auto simp: header_parsed_def p_def)
  from q(2) obtain data base off k where
    d: "cow_data (fec_pkt q) = mem_of data"
      "protected_streams q = [\<lparr>stream_ssrc = s, stream_seq_num_base = base, stream_mask_offset = off, stream_mask_size = k\<rparr>]"
      "off + k \<le> length data" "mask_packets s base (take k (drop off data)) = map (?C {}) ks"
      "12 \<le> fec_header_size q" "fec_header_size q \<le> 32"
    by (auto simp: fec_packet_for_def comp_def covered_def)
  define f where "f = q\<lparr>protected_packets := map (?C (set js)) ks\<rparr>"
  have "assign_recovered dchecks (map (?C {}) ks) ?rs = Inr (map (?C (set (sort js))) ks)"
    using js ks by (intro assign_recovered_indexed [OF num(1,2)]) (auto simp: strict_sorted_iff)
  then have "AssignRecoveredPackets dchecks ?rs (q\<lparr>protected_packets := map (?C {}) ks\<rparr>) = Inr f"
    by (simp add: AssignRecoveredPackets_def f_def)
  then have ins: "InsertFecPacket dchecks ?rs r c = Inr (c\<lparr>received_fec_packets := [f]\<rparr>)"
    unfolding InsertFecPacket_def p_def [symmetric] rd q(1) limits(4) c(2)
    using c(3,4) d ks(3) by (auto simp: RTC_CHECK_def mem_read_mem_of sort_packets_one Let_def)
  have "set (l # js) \<subseteq> {..<n}" using js(2) ks by auto
  then have len: "length (l # js) \<le> 48" using num(3) card_mono [of "{..<n}" "set (l # js)"] distinct_card [OF js(1)] by simp
  let ?c = "c\<lparr>received_fec_packets := [f]\<rparr>"
  have "InsertPacket dchecks r ?rs c = Inr (?rs, ?c)"
    unfolding InsertPacket_def using r(1) c(2) ins rd limits len by (simp add: Discard_small)
  moreover have "AttemptRecovery dchecks ?rs ?c = Inr (1, map R (sort (js @ [l])), ?c\<lparr>received_fec_packets := []\<rparr>)"
  proof (rule AttemptRecovery_one)
    have *: "\<forall>j \<in> set ks. j < length media" using ks(2) num(2) by simp
    show "NumCoveredPacketsMissing f = 1" "RecoverPacket dchecks f = Inr (Some ?M)"
      unfolding f_def by (rule recover_covered [OF media q(2) xy * J])+
    show "good_fec (ssrc r) s f" using sq d ks(3) media num(2) ks(2)
      by (force simp: good_fec_def f_def list_all_iff good_protected_def covered_def good_packet_def buffer_of_def rtp_group_def rtp_packet_def)
    show "good_recovered s ?M" using media ks(2,3) num(2)
      by (force simp: good_recovered_def media_restored_def good_packet_def rtp_group_def rtp_packet_def)
    have eq: "?rs @ [?M] = map R (sort js @ [l])" using J(1) by (auto simp: R_def)
    have "\<forall>j \<in> set (sort js @ [l]). j < n" using js(2) ks by auto
    then show "sort_packets dchecks (?rs @ [?M]) = Inr (map R (sort (js @ [l])))"
      unfolding eq sort_packets_indexed [OF num(1,2) iR] by (simp add: sort_append_one sorted_sort_id sort_packets_indexed [OF num(1,2) iR] del: map_append)
  qed (use rd limits len in simp_all)
  moreover have "?c\<lparr>received_fec_packets := []\<rparr> = c" using c(2) by (cases c) simp
  moreover have "length ?rs \<noteq> 192" using len by simp
  ultimately show ?thesis unfolding DecodeFec_def R_def using rd limits by (simp add: Let_def)
qed

text \<open>The encoder, the losses and the decoder.\<close>

lemma encode_lose_decode:
  assumes c: "codec_ready writer c" and num: "numbered s0 d media" and n: "n = length media" "0 < n" "n \<le> 48"
    and media: "rtp_group s s0 d media"
    and imp: "imp \<le> n" and factor: "0 < factor" and m: "m = fec_count n (unat factor)"
    and s: "ParseSsrc (hd media) = Inr s"
    and ks: "r < m" "ks = filter (protects (encoder_mask (picked_type ty n) n m imp uep) (mask_width n) r) [0..<n]" "l \<in> set ks"
    and js: "distinct (l # js)" "\<forall>j \<in> set js. j < n" "set ks \<subseteq> set (l # js)"
    and dec: "decoder_ok reader dec []" "received_fec_packets dec = []" "protected_media_ssrc dec = s" "ssrcs (codec_ssrc dec) s"
  shows "\<exists>c'. codec_EncodeFec dchecks media factor imp uep ty [] c = Inr (0, [0..<m], c') \<and>
    (\<forall>sn. decode_all dchecks (map (media_arrival s s0 d media) js @
        [\<lparr>ssrc = codec_ssrc dec, seq_num = sn, is_fec = True, received_pkt = generated_fec_packets c' ! r\<rparr>]) [] dec =
      Inr (map ((media_kept s s0 d media)(l := media_restored s s0 d media l)) (sort (js @ [l])), dec))"
proof -
  let ?B = "encoder_mask (picked_type ty n) n m imp uep"
  have lens: "12 \<le> length p \<and> length p < 2 ^ 16" if "p \<in> set media" for p
    using media that by (force simp: rtp_group_def rtp_packet_def in_set_conv_nth)
  from EncodeFec_correct [OF c num n lens imp factor m s, where ty = ty and uep = uep and dchecks = dchecks] ks(1) obtain c' wire cap where
    e: "codec_EncodeFec dchecks media factor imp uep ty [] c = Inr (0, [0..<m], c')"
      "generated_fec_packets c' ! r = \<lparr>cow_data = mem_of wire, cow_capacity = cap\<rparr>"
    and read: "\<And>p. cow_data (fec_pkt p) = mem_of wire \<Longrightarrow> ssrcs (ssrc p) s \<Longrightarrow>
         \<exists>q. ReadFecHeader reader dchecks p = Inr (Some q) \<and> fec_packet_for s (selected ?B r s0 d media) q"
    by blast
  have sel: "selected ?B r s0 d media = map (\<lambda>j. (s0 + of_nat (d j), media ! j)) ks"
    using n(1) by (simp add: selected_def ks(2))
  have rd: "reader_MaxMediaPackets (fec_header_reader dec) = 192" using dec(1) limits by (simp add: decoder_ok_def)
  have sorted: "sorted_wrt (<) ks" "\<forall>j \<in> set ks. j < n" using ks(2) by (auto simp: sorted_wrt_filter)
  have "decode_all dchecks (map (media_arrival s s0 d media) js @
        [\<lparr>ssrc = codec_ssrc dec, seq_num = sn, is_fec = True, received_pkt = generated_fec_packets c' ! r\<rparr>]) [] dec =
      Inr (map ((media_kept s s0 d media)(l := media_restored s s0 d media l)) (sort (js @ [l])), dec)" for sn
  proof -
    let ?r = "\<lparr>ssrc = codec_ssrc dec, seq_num = sn, is_fec = True, received_pkt = generated_fec_packets c' ! r\<rparr> :: ReceivedPacket"
    have "\<exists>q. ReadFecHeader reader dchecks p = Inr (Some q) \<and> fec_packet_for s (map (\<lambda>j. (s0 + of_nat (d j), media ! j)) ks) q"
      if "cow_data (fec_pkt p) = mem_of wire" "ssrc p = ssrc ?r" for p
      using read [of p] that dec(4) by (simp add: sel)
    then have "DecodeFec dchecks ?r (map (media_kept s s0 d media) (sort js)) dec =
        Inr (1, map ((media_kept s s0 d media)(l := media_restored s s0 d media l)) (sort (js @ [l])), dec)"
      using e(2) dec js sorted ks(3) by (intro DecodeFec_restores [OF num n(1,3) media, where wire = wire and ks = ks]) auto
    moreover have "decode_all dchecks (map (media_arrival s s0 d media) js) [] dec = Inr (map (media_kept s s0 d media) (sort js), dec)"
      using js by (intro decode_all_media [OF num n(1,3) dec(2,3) rd]) auto
    ultimately show ?thesis by (simp add: decode_all_append)
  qed
  then show ?thesis using e(1) by blast
qed

end

text \<open>
  Claim C7. A lost packet is restored end to end, in ULPFEC and in FlexFEC: a group of 1 to 48 RTP packets of at most 1480
  bytes, in the order of their sequence numbers and spanning fewer than 48 of them, is encoded; any of the media
  packets arrive at a new decoder in any order, then FEC packet \<open>r\<close>, and all packets that row \<open>r\<close> of the mask selects have
  arrived except packet \<open>l\<close>. Then the decoder holds all packets that have arrived and packet \<open>l\<close>, byte for byte, marked
  as recovered and not yet returned, in the order of the sequence numbers, and no FEC packet.
\<close>

theorem lost_packet_restored:
  assumes "(writer, dec) \<in> {(UlpfecHeaderWriter, CreateUlpfec s), (Flexfec03HeaderWriter, CreateFlexfec fs s)}"
    and "codec_ready writer c" "numbered s0 d media" "n = length media" "0 < n" "n \<le> 48" "rtp_group s s0 d media"
    and "imp \<le> n" "0 < factor" "m = fec_count n (unat factor)" "ParseSsrc (hd media) = Inr s"
    and "r < m" "ks = filter (protects (encoder_mask (picked_type ty n) n m imp uep) (mask_width n) r) [0..<n]" "l \<in> set ks"
    and "distinct (l # js)" "\<forall>j \<in> set js. j < n" "set ks \<subseteq> set (l # js)"
  shows "\<exists>c'. codec_EncodeFec dchecks media factor imp uep ty [] c = Inr (0, [0..<m], c') \<and>
    (\<forall>sn. decode_all dchecks (map (media_arrival s s0 d media) js @
        [\<lparr>ssrc = codec_ssrc dec, seq_num = sn, is_fec = True, received_pkt = generated_fec_packets c' ! r\<rparr>]) [] dec =
      Inr (map ((media_kept s s0 d media)(l := media_restored s s0 d media l)) (sort (js @ [l])), dec))"
proof -
  note create = CreateUlpfec_def CreateFlexfec_def new_ForwardErrorCorrection_def decoder_ok_def
  from assms(1) consider "writer = UlpfecHeaderWriter" "dec = CreateUlpfec s" | "writer = Flexfec03HeaderWriter" "dec = CreateFlexfec fs s" by auto
  then show ?thesis
  proof cases
    case 1
    then show ?thesis
      by (intro ulpfec.encode_lose_decode [OF assms(2) [unfolded 1] assms(3-17)]) (simp_all add: create)
  next
    case 2
    then show ?thesis
      by (intro flexfec.encode_lose_decode [OF assms(2) [unfolded 2] assms(3-17)]) (simp_all add: create)
  qed
qed

theorem lost_packet_restored_witness:
  "\<exists>c' rs. codec_EncodeFec True [[0x80, 96, 0xff, 0xff, 0, 0, 0, 1, 0, 0, 0, 7, 42], [0x80, 96, 0, 1, 0, 0, 0, 1, 0, 0, 0, 7]]
      128 0 False kFecMaskRandom [] (CreateUlpfec 7) = Inr (0, [0..<1], c') \<and>
    decode_all True
      [\<lparr>ssrc = 7, seq_num = 1, is_fec = False, received_pkt = buffer_of [0x80, 96, 0, 1, 0, 0, 0, 1, 0, 0, 0, 7]\<rparr>,
       \<lparr>ssrc = 7, seq_num = 99, is_fec = True, received_pkt = generated_fec_packets c' ! 0\<rparr>] [] (CreateUlpfec 7) =
      Inr (rs, CreateUlpfec 7) \<and>
    map (cow_data \<circ> recovered_pkt) rs =
      [mem_of [0x80, 96, 0xff, 0xff, 0, 0, 0, 1, 0, 0, 0, 7, 42], mem_of [0x80, 96, 0, 1, 0, 0, 0, 1, 0, 0, 0, 7]]"
proof -
  let ?media = "[[0x80, 96, 0xff, 0xff, 0, 0, 0, 1, 0, 0, 0, 7, 42], [0x80, 96, 0, 1, 0, 0, 0, 1, 0, 0, 0, 7]] :: u8 list list"
  let ?d = "\<lambda>j. 2 * j" and ?B = "encoder_mask (picked_type kFecMaskRandom (length ?media)) (length ?media) 1 0 False"
  have two: "j = 0 \<or> j = 1" if "j < length ?media" for j using that by auto
  have ready: "codec_ready UlpfecHeaderWriter (CreateUlpfec 7)"
    by (simp add: codec_ready_def CreateUlpfec_def new_ForwardErrorCorrection_def UlpfecHeaderWriter_def header_constants mask_constants)
  have "ParseSequenceNumber (?media ! j) = Inr (0xffff + of_nat (?d j))" if "j < length ?media" for j
    using two [OF that] by (elim disjE) (simp_all add: ParseSequenceNumber_def)
  then have num: "numbered 0xffff ?d ?media" unfolding numbered_def by simp
  have "rtp_packet (0xffff + of_nat (?d j)) 7 (?media ! j) \<and> length (?media ! j) \<le> 1480" if "j < length ?media" for j
    using two [OF that] by (elim disjE) (simp_all add: rtp_packet_def WriteBigEndian_def upt_rec)
  then have rtp: "rtp_group 7 0xffff ?d ?media" unfolding rtp_group_def by blast
  have m: "1 = fec_count (length ?media) (unat (128 :: u8))" by (simp add: fec_count_def)
  have s: "ParseSsrc (hd ?media) = Inr 7" by (simp add: ParseSsrc_def)
  have "\<exists>r < 1. protects ?B (mask_width (length ?media)) r 0"
    by (rule encoder_mask_facts(2)) simp_all
  then have l: "0 \<in> set (filter (protects ?B (mask_width (length ?media)) 0) [0..<length ?media])" by simp
  have p: "0 < length ?media" "length ?media \<le> 48" "0 \<le> length ?media" "0 < (128 :: u8)" "0 < (1 :: nat)"
    "distinct (0 # [1 :: nat])" "\<forall>j \<in> set [1]. j < length ?media"
    "set (filter (protects ?B (mask_width (length ?media)) 0) [0..<length ?media]) \<subseteq> set (0 # [1])"
    by (auto simp: less_Suc_eq)
  from lost_packet_restored [OF insertI1 ready num refl p(1,2) rtp p(3,4) m s p(5) refl l p(6-8), of True] obtain c' where
    c': "codec_EncodeFec True ?media 128 0 False kFecMaskRandom [] (CreateUlpfec 7) = Inr (0, [0..<1], c')"
    and dec: "decode_all True (map (media_arrival 7 0xffff ?d ?media) [1] @
        [\<lparr>ssrc = codec_ssrc (CreateUlpfec 7), seq_num = 99, is_fec = True, received_pkt = generated_fec_packets c' ! 0\<rparr>]) [] (CreateUlpfec 7) =
      Inr (map ((media_kept 7 0xffff ?d ?media)(0 := media_restored 7 0xffff ?d ?media 0)) (sort ([1] @ [0])), CreateUlpfec 7)" by blast
  have ssrc: "codec_ssrc (CreateUlpfec 7) = 7" by (simp add: CreateUlpfec_def new_ForwardErrorCorrection_def)
  have wrap: "(65537 :: u16) = 1" by simp
  show ?thesis
    using c' dec unfolding ssrc
    by (intro exI [of _ c'] exI [of _ "map ((media_kept 7 0xffff ?d ?media)(0 := media_restored 7 0xffff ?d ?media 0)) (sort ([1] @ [0]))"])
      (simp add: media_arrival_def media_kept_def media_restored_def buffer_of_def wrap)
qed

end
