(* ===== verification/Rtp_Packet.thy ===== *)
theory Rtp_Packet
  imports Fec_Packets
begin

text \<open>
  RTP packets (\<^verbatim>\<open>rtp_packet.cc\<close>, \<^verbatim>\<open>rtp_packet.h\<close>, \<^verbatim>\<open>rtp_header_extension_map.cc\<close> under
  \<^verbatim>\<open>FEC_Encode/include/modules/rtp_rtcp\<close>), the input and output of the FEC sender and receiver: the parser with its
  header extensions, the setters, and the zeroing of the extensions that change after FEC encoding. The functions
  that add or remove header extensions and CSRCs are in \<open>Rtp_Extensions\<close>.
\<close>

section \<open>Header extensions\<close>

datatype RTPExtensionType =
    kRtpExtensionNone | kRtpExtensionTransmissionTimeOffset | kRtpExtensionAudioLevel | kRtpExtensionCsrcAudioLevel
  | kRtpExtensionInbandComfortNoise | kRtpExtensionAbsoluteSendTime | kRtpExtensionAbsoluteCaptureTime
  | kRtpExtensionVideoRotation | kRtpExtensionTransportSequenceNumber | kRtpExtensionTransportSequenceNumber02
  | kRtpExtensionPlayoutDelay | kRtpExtensionVideoContentType | kRtpExtensionVideoLayersAllocation
  | kRtpExtensionVideoTiming | kRtpExtensionRtpStreamId | kRtpExtensionRepairedRtpStreamId | kRtpExtensionMid
  | kRtpExtensionGenericFrameDescriptor | kRtpExtensionDependencyDescriptor | kRtpExtensionColorSpace
  | kRtpExtensionVideoFrameTrackingId | kRtpExtensionCorruptionDetection | kRtpExtensionNumberOfExtensions

text \<open>The types from \<open>kRtpExtensionNone + 1\<close> to below \<open>kRtpExtensionNumberOfExtensions\<close>, in the order of the enumeration.\<close>

definition extension_types :: "RTPExtensionType list" where
  "extension_types =
     [kRtpExtensionTransmissionTimeOffset, kRtpExtensionAudioLevel, kRtpExtensionCsrcAudioLevel,
      kRtpExtensionInbandComfortNoise, kRtpExtensionAbsoluteSendTime, kRtpExtensionAbsoluteCaptureTime,
      kRtpExtensionVideoRotation, kRtpExtensionTransportSequenceNumber, kRtpExtensionTransportSequenceNumber02,
      kRtpExtensionPlayoutDelay, kRtpExtensionVideoContentType, kRtpExtensionVideoLayersAllocation,
      kRtpExtensionVideoTiming, kRtpExtensionRtpStreamId, kRtpExtensionRepairedRtpStreamId, kRtpExtensionMid,
      kRtpExtensionGenericFrameDescriptor, kRtpExtensionDependencyDescriptor, kRtpExtensionColorSpace,
      kRtpExtensionVideoFrameTrackingId, kRtpExtensionCorruptionDetection]"

record RtpHeaderExtensionMap =
  extension_ids :: "RTPExtensionType \<Rightarrow> u8"
  extmap_allow_mixed :: bool

definition new_RtpHeaderExtensionMap :: "bool \<Rightarrow> RtpHeaderExtensionMap" where
  "new_RtpHeaderExtensionMap allow_mixed = \<lparr>extension_ids = (\<lambda>_. 0), extmap_allow_mixed = allow_mixed\<rparr>"

definition GetType :: "bool \<Rightarrow> int \<Rightarrow> RtpHeaderExtensionMap \<Rightarrow> RTPExtensionType res" where
  "GetType dchecks ext m =
     RTC_DCHECK dchecks (1 \<le> ext) ''id >= RtpExtension::kMinId''
       (RTC_DCHECK dchecks (ext \<le> 255) ''id <= RtpExtension::kMaxId''
         (case find (\<lambda>type. uint (extension_ids m type) = ext) extension_types of
            Some type \<Rightarrow> Inr type
          | None \<Rightarrow> Inr kRtpExtensionNone))"

definition type_checks :: "bool \<Rightarrow> RTPExtensionType \<Rightarrow> 'a res \<Rightarrow> 'a res" where
  "type_checks dchecks type rest =
     RTC_DCHECK dchecks (type \<noteq> kRtpExtensionNone) ''type > kRtpExtensionNone''
       (RTC_DCHECK dchecks (type \<noteq> kRtpExtensionNumberOfExtensions) ''type < kRtpExtensionNumberOfExtensions'' rest)"

definition GetId :: "bool \<Rightarrow> RTPExtensionType \<Rightarrow> RtpHeaderExtensionMap \<Rightarrow> u8 res" where
  "GetId dchecks type m = type_checks dchecks type (Inr (extension_ids m type))"

definition IsRegistered :: "bool \<Rightarrow> RTPExtensionType \<Rightarrow> RtpHeaderExtensionMap \<Rightarrow> bool res" where
  "IsRegistered dchecks type m = bind_res (GetId dchecks type m) (\<lambda>x. Inr (x \<noteq> 0))"

definition Register :: "bool \<Rightarrow> int \<Rightarrow> RTPExtensionType \<Rightarrow> RtpHeaderExtensionMap \<Rightarrow> (bool \<times> RtpHeaderExtensionMap) res" where
  "Register dchecks ext type m =
     type_checks dchecks type
       (if ext < 1 \<or> ext > 255 then Inr (False, m)
        else
          bind_res (GetType dchecks ext m) (\<lambda>registered_type.
            if registered_type = type then Inr (True, m)
            else if registered_type \<noteq> kRtpExtensionNone then Inr (False, m)
            else
              bind_res (IsRegistered dchecks type m) (\<lambda>reg.
                if reg then Inr (False, m)
                else Inr (True, m\<lparr>extension_ids := (extension_ids m)(type := word_of_int ext)\<rparr>))))"

definition RegisterByType :: "bool \<Rightarrow> int \<Rightarrow> RTPExtensionType \<Rightarrow> RtpHeaderExtensionMap \<Rightarrow> (bool \<times> RtpHeaderExtensionMap) res" where
  "RegisterByType dchecks ext type m =
     (if type \<in> set extension_types then Register dchecks ext type m
      else RTC_DCHECK dchecks False ''RTC_DCHECK_NOTREACHED'' (Inr (False, m)))"

record ExtensionInfo =
  ext_id :: u8
  ext_length :: u8
  ext_offset :: u16

section \<open>The packet\<close>

definition kFixedHeaderSize :: nat where "kFixedHeaderSize = 12"
definition kRtpVersion :: u8 where "kRtpVersion = 2"
definition kOneByteExtensionProfileId :: u16 where "kOneByteExtensionProfileId = 0xBEDE"
definition kTwoByteExtensionProfileId :: u16 where "kTwoByteExtensionProfileId = 0x1000"
definition kTwobyteExtensionProfileIdAppBitsFilter :: u16 where "kTwobyteExtensionProfileIdAppBitsFilter = 0xfff0"
definition kOneByteExtensionHeaderLength :: nat where "kOneByteExtensionHeaderLength = 1"
definition kTwoByteExtensionHeaderLength :: nat where "kTwoByteExtensionHeaderLength = 2"
definition kDefaultPacketSize :: nat where "kDefaultPacketSize = 1500"
definition kPacerExitDeltaOffset :: nat where "kPacerExitDeltaOffset = 7"

lemmas rtp_constants = kFixedHeaderSize_def kRtpVersion_def kOneByteExtensionProfileId_def kTwoByteExtensionProfileId_def
  kTwobyteExtensionProfileIdAppBitsFilter_def kOneByteExtensionHeaderLength_def kTwoByteExtensionHeaderLength_def
  kDefaultPacketSize_def kPacerExitDeltaOffset_def

record RtpPacket =
  rtp_marker :: bool
  rtp_payload_type :: u8
  rtp_padding_size :: u8
  rtp_sequence_number :: u16
  rtp_timestamp :: u32
  rtp_ssrc :: u32
  rtp_payload_offset :: nat
  rtp_payload_size :: nat
  rtp_extensions :: RtpHeaderExtensionMap
  rtp_extension_entries :: "ExtensionInfo list"
  rtp_extensions_size :: nat
  rtp_buffer :: CopyOnWriteBuffer

definition rtp_size :: "'a RtpPacket_scheme \<Rightarrow> nat" where
  "rtp_size p = rtp_payload_offset p + rtp_payload_size p + unat (rtp_padding_size p)"

text \<open>A statement on the bytes of the packet.\<close>

definition write_buffer :: "(mem \<Rightarrow> mem res) \<Rightarrow> 'a RtpPacket_scheme \<Rightarrow> 'a RtpPacket_scheme res" where
  "write_buffer f p = bind_res (change_data f (rtp_buffer p)) (\<lambda>b. Inr (p\<lparr>rtp_buffer := b\<rparr>))"

definition rtp_Clear :: "'a RtpPacket_scheme \<Rightarrow> 'a RtpPacket_scheme res" where
  "rtp_Clear p =
     (let p1 = p\<lparr>rtp_marker := False, rtp_payload_type := 0, rtp_sequence_number := 0, rtp_timestamp := 0, rtp_ssrc := 0,
                 rtp_payload_offset := kFixedHeaderSize, rtp_payload_size := 0, rtp_padding_size := 0,
                 rtp_extensions_size := 0, rtp_extension_entries := []\<rparr>
      in bind_res (write_buffer (mem_store ''buffer_'' 0 (replicate kFixedHeaderSize (Some 0))) p1) (\<lambda>p2.
           write_buffer (modify_byte 0 (\<lambda>_. push_bit 6 kRtpVersion)) (p2\<lparr>rtp_buffer := SetSize kFixedHeaderSize (rtp_buffer p2)\<rparr>)))"

text \<open>The constructor; the fields that \<open>Clear\<close> does not set are the extension map and a buffer of the given size.\<close>

definition new_RtpPacket :: "bool \<Rightarrow> RtpHeaderExtensionMap \<Rightarrow> nat \<Rightarrow> RtpPacket res" where
  "new_RtpPacket dchecks exts capacity =
     RTC_DCHECK dchecks (capacity \<ge> kFixedHeaderSize) ''capacity >= kFixedHeaderSize''
       (rtp_Clear
         \<lparr>rtp_marker = False, rtp_payload_type = 0, rtp_padding_size = 0, rtp_sequence_number = 0, rtp_timestamp = 0,
          rtp_ssrc = 0, rtp_payload_offset = 0, rtp_payload_size = 0, rtp_extensions = exts, rtp_extension_entries = [],
          rtp_extensions_size = 0, rtp_buffer = \<lparr>cow_data = replicate capacity None, cow_capacity = capacity\<rparr>\<rparr>)"

section \<open>Parsing\<close>

fun update_extension :: "u8 \<Rightarrow> (ExtensionInfo \<Rightarrow> ExtensionInfo) \<Rightarrow> ExtensionInfo list \<Rightarrow> ExtensionInfo list" where
  "update_extension ext f [] = []"
| "update_extension ext f (e # es) = (if ext_id e = ext then f e # es else e # update_extension ext f es)"

definition FindExtensionInfo :: "u8 \<Rightarrow> ExtensionInfo list \<Rightarrow> ExtensionInfo option" where
  "FindExtensionInfo ext es = find (\<lambda>e. ext_id e = ext) es"

text \<open>The list after \<open>FindOrCreateExtensionInfo\<close>; the reference it returns is the first entry with the id.\<close>

definition FindOrCreateExtensionInfo :: "u8 \<Rightarrow> ExtensionInfo list \<Rightarrow> ExtensionInfo list" where
  "FindOrCreateExtensionInfo ext es =
     (if FindExtensionInfo ext es = None then es @ [\<lparr>ext_id = ext, ext_length = 0, ext_offset = 0\<rparr>] else es)"

definition FindExtension :: "bool \<Rightarrow> RTPExtensionType \<Rightarrow> 'a RtpPacket_scheme \<Rightarrow> mem option res" where
  "FindExtension dchecks type p =
     bind_res (GetId dchecks type (rtp_extensions p)) (\<lambda>x.
       if x = 0 then Inr None
       else case FindExtensionInfo x (rtp_extension_entries p) of
              None \<Rightarrow> Inr None
            | Some e \<Rightarrow>
                bind_res (mem_load ''data'' (int (unat (ext_offset e))) (unat (ext_length e)) (cow_data (rtp_buffer p))) (\<lambda>v. Inr (Some v)))"

definition HasExtension :: "bool \<Rightarrow> RTPExtensionType \<Rightarrow> 'a RtpPacket_scheme \<Rightarrow> bool res" where
  "HasExtension dchecks type p =
     bind_res (GetId dchecks type (rtp_extensions p)) (\<lambda>x.
       if x = 0 then Inr False else Inr (FindExtensionInfo x (rtp_extension_entries p) \<noteq> None))"

definition extension_header_length :: "u16 \<Rightarrow> nat" where
  "extension_header_length profile =
     (if profile = kOneByteExtensionProfileId then kOneByteExtensionHeaderLength else kTwoByteExtensionHeaderLength)"

text \<open>
  The loop over the header extensions in a block of \<open>cap\<close> bytes at \<open>off\<close>: the size and the entries found.
\<close>

function parse_extensions :: "mem \<Rightarrow> u16 \<Rightarrow> nat \<Rightarrow> nat \<Rightarrow> nat \<Rightarrow> ExtensionInfo list \<Rightarrow> (nat \<times> ExtensionInfo list) res" where
  "parse_extensions buffer profile off cap n es =
     (let hlen = extension_header_length profile in
      if n + hlen < cap then
        bind_res (mem_read ''buffer'' (int (off + n)) 1 buffer) (\<lambda>b.
          if hd b = 0 then parse_extensions buffer profile off cap (n + 1) es
          else
            bind_res
              (if profile = kOneByteExtensionProfileId then Inr (drop_bit 4 (hd b), 1 + (hd b AND 0xf))
               else bind_res (mem_read ''buffer'' (int (off + n + 1)) 1 buffer) (\<lambda>l. Inr (hd b, hd l)))
              (\<lambda>(ext, len).
                if profile = kOneByteExtensionProfileId \<and> (ext = 15 \<or> ext = 0 \<and> len \<noteq> 1) then Inr (n, es)
                else if n + hlen + unat len > cap then Inr (n, es)
                else
                  let es1 = FindOrCreateExtensionInfo ext es; offset = off + n + hlen in
                  if offset \<ge> 2 ^ 16 then Inr (n, es1)
                  else
                    parse_extensions buffer profile off cap (n + hlen + unat len)
                      (update_extension ext (\<lambda>e. e\<lparr>ext_offset := of_nat offset, ext_length := len\<rparr>) es1)))
      else Inr (n, es))"
  by pat_completeness auto
termination
  by (relation "measure (\<lambda>(buffer, profile, off, cap, n, es). cap - n)")
    (auto simp: extension_header_length_def rtp_constants split: if_splits)

declare parse_extensions.simps [simp del]

text \<open>The block of header extensions, for a packet with the extension bit, and the padding at the end; \<open>False\<close> stands for \<open>return false\<close>.\<close>

definition parse_extension_block :: "mem \<Rightarrow> 'a RtpPacket_scheme \<Rightarrow> (bool \<times> 'a RtpPacket_scheme) res" where
  "parse_extension_block buffer p =
     (let off = rtp_payload_offset p + 4 in
      if off > length buffer then Inr (False, p)
      else
        bind_res (mem_read ''buffer'' (int (rtp_payload_offset p)) 4 buffer) (\<lambda>x.
          let profile = ReadBigEndian (take 2 x) :: u16;
              cap = unat (ReadBigEndian (drop 2 x) :: u16) * 4
          in if off + cap > length buffer then Inr (False, p)
             else
               bind_res
                 (if profile \<noteq> kOneByteExtensionProfileId \<and>
                     profile AND kTwobyteExtensionProfileIdAppBitsFilter \<noteq> kTwoByteExtensionProfileId
                  then Inr (0, [])
                  else parse_extensions buffer profile off cap 0 [])
                 (\<lambda>(n, es). Inr (True, p\<lparr>rtp_extensions_size := n, rtp_extension_entries := es, rtp_payload_offset := off + cap\<rparr>))))"

definition parse_padding :: "mem \<Rightarrow> bool \<Rightarrow> 'a RtpPacket_scheme \<Rightarrow> (bool \<times> 'a RtpPacket_scheme) res" where
  "parse_padding buffer has_padding p =
     bind_res
       (if has_padding \<and> rtp_payload_offset p < length buffer
        then bind_res (mem_read ''buffer'' (int (length buffer - 1)) 1 buffer) (\<lambda>l. Inr (hd l \<noteq> 0, p\<lparr>rtp_padding_size := hd l\<rparr>))
        else Inr (True, p\<lparr>rtp_padding_size := 0\<rparr>))
       (\<lambda>(ok, p').
         if \<not> ok \<or> rtp_payload_offset p' + unat (rtp_padding_size p') > length buffer then Inr (False, p')
         else Inr (True, p'\<lparr>rtp_payload_size := length buffer - rtp_payload_offset p' - unat (rtp_padding_size p')\<rparr>))"

definition ParseBuffer :: "mem \<Rightarrow> 'a RtpPacket_scheme \<Rightarrow> (bool \<times> 'a RtpPacket_scheme) res" where
  "ParseBuffer buffer p =
     (if length buffer < kFixedHeaderSize then Inr (False, p)
      else
        bind_res (mem_read ''buffer'' 0 1 buffer) (\<lambda>first.
          if drop_bit 6 (hd first) \<noteq> kRtpVersion then Inr (False, p)
          else bind_res (mem_read ''buffer'' 0 12 buffer) (\<lambda>h.
            let csrc_end = kFixedHeaderSize + unat (h ! 0 AND 0x0f) * 4;
                p1 = p\<lparr>rtp_marker := (h ! 1 AND 0x80 \<noteq> 0), rtp_payload_type := h ! 1 AND 0x7f,
                       rtp_sequence_number := ReadBigEndian (take 2 (drop 2 h)), rtp_timestamp := ReadBigEndian (take 4 (drop 4 h)),
                       rtp_ssrc := ReadBigEndian (take 4 (drop 8 h))\<rparr>;
                p2 = p1\<lparr>rtp_payload_offset := csrc_end, rtp_extensions_size := 0, rtp_extension_entries := []\<rparr>
            in if length buffer < csrc_end then Inr (False, p1)
               else
                 bind_res (if h ! 0 AND 0x10 \<noteq> 0 then parse_extension_block buffer p2 else Inr (True, p2)) (\<lambda>(ok, p3).
                   if ok then parse_padding buffer (h ! 0 AND 0x20 \<noteq> 0) p3 else Inr (False, p3)))))"

definition rtp_Parse :: "bool \<Rightarrow> CopyOnWriteBuffer \<Rightarrow> 'a RtpPacket_scheme \<Rightarrow> (bool \<times> 'a RtpPacket_scheme) res" where
  "rtp_Parse dchecks buffer p =
     bind_res (ParseBuffer (cow_data buffer) p) (\<lambda>(ok, p1).
       if \<not> ok then bind_res (rtp_Clear p1) (\<lambda>p2. Inr (False, p2))
       else
         let p2 = p1\<lparr>rtp_buffer := buffer\<rparr> in
         RTC_DCHECK dchecks (rtp_size p2 = buffer_size buffer) ''size() == buffer_size'' (Inr (True, p2)))"

section \<open>Header extensions that change after encoding\<close>

definition zero_extension :: "bool \<Rightarrow> RtpHeaderExtensionMap \<Rightarrow> ExtensionInfo \<Rightarrow> mem \<Rightarrow> mem res" where
  "zero_extension dchecks exts e data =
     bind_res (GetType dchecks (uint (ext_id e)) exts) (\<lambda>type.
       let off = unat (ext_offset e); len = unat (ext_length e) in
       if type = kRtpExtensionVideoTiming then
         (if kPacerExitDeltaOffset < len
          then mem_store ''buffer_'' (int (off + kPacerExitDeltaOffset)) (replicate (len - kPacerExitDeltaOffset) (Some 0)) data
          else Inr data)
       else if type \<in> {kRtpExtensionTransportSequenceNumber, kRtpExtensionTransportSequenceNumber02,
                       kRtpExtensionTransmissionTimeOffset, kRtpExtensionAbsoluteSendTime}
       then mem_store ''buffer_'' (int off) (replicate len (Some 0)) data
       else Inr data)"

fun zero_extensions :: "bool \<Rightarrow> RtpHeaderExtensionMap \<Rightarrow> ExtensionInfo list \<Rightarrow> mem \<Rightarrow> mem res" where
  "zero_extensions dchecks exts [] data = Inr data"
| "zero_extensions dchecks exts (e # es) data =
     bind_res (zero_extension dchecks exts e data) (zero_extensions dchecks exts es)"

definition ZeroMutableExtensions :: "bool \<Rightarrow> 'a RtpPacket_scheme \<Rightarrow> 'a RtpPacket_scheme res" where
  "ZeroMutableExtensions dchecks p = write_buffer (zero_extensions dchecks (rtp_extensions p) (rtp_extension_entries p)) p"

section \<open>Setters\<close>

definition SetMarker :: "bool \<Rightarrow> 'a RtpPacket_scheme \<Rightarrow> 'a RtpPacket_scheme res" where
  "SetMarker m p =
     write_buffer (modify_byte 1 (\<lambda>b. if m then b OR 0x80 else b AND 0x7F)) (p\<lparr>rtp_marker := m\<rparr>)"

definition SetPayloadType :: "bool \<Rightarrow> u8 \<Rightarrow> 'a RtpPacket_scheme \<Rightarrow> 'a RtpPacket_scheme res" where
  "SetPayloadType dchecks pt p =
     RTC_DCHECK dchecks (pt \<le> 0x7F) ''payload_type <= 0x7Fu''
       (write_buffer (modify_byte 1 (\<lambda>b. (b AND 0x80) OR pt)) (p\<lparr>rtp_payload_type := pt\<rparr>))"

definition SetSequenceNumber :: "u16 \<Rightarrow> 'a RtpPacket_scheme \<Rightarrow> 'a RtpPacket_scheme res" where
  "SetSequenceNumber sn p =
     write_buffer (mem_store ''buffer_'' 2 (mem_of (WriteBigEndian 2 sn))) (p\<lparr>rtp_sequence_number := sn\<rparr>)"

definition SetTimestamp :: "u32 \<Rightarrow> 'a RtpPacket_scheme \<Rightarrow> 'a RtpPacket_scheme res" where
  "SetTimestamp ts p =
     write_buffer (mem_store ''buffer_'' 4 (mem_of (WriteBigEndian 4 ts))) (p\<lparr>rtp_timestamp := ts\<rparr>)"

definition SetSsrc :: "u32 \<Rightarrow> 'a RtpPacket_scheme \<Rightarrow> 'a RtpPacket_scheme res" where
  "SetSsrc s p =
     write_buffer (mem_store ''buffer_'' 8 (mem_of (WriteBigEndian 4 s))) (p\<lparr>rtp_ssrc := s\<rparr>)"

text \<open>The pointer that \<open>SetPayloadSize\<close> returns is the payload offset.\<close>

definition SetPayloadSize :: "bool \<Rightarrow> nat \<Rightarrow> 'a RtpPacket_scheme \<Rightarrow> 'a RtpPacket_scheme res" where
  "SetPayloadSize dchecks n p =
     RTC_DCHECK dchecks (rtp_padding_size p = 0) ''padding_size_ == 0''
       (Inr (p\<lparr>rtp_payload_size := n, rtp_buffer := SetSize (rtp_payload_offset p + n) (rtp_buffer p)\<rparr>))"

definition AllocatePayload :: "bool \<Rightarrow> nat \<Rightarrow> 'a RtpPacket_scheme \<Rightarrow> 'a RtpPacket_scheme res" where
  "AllocatePayload dchecks n p = bind_res (SetPayloadSize dchecks 0 p) (SetPayloadSize dchecks n)"

definition SetPadding :: "bool \<Rightarrow> nat \<Rightarrow> 'a RtpPacket_scheme \<Rightarrow> (bool \<times> 'a RtpPacket_scheme) res" where
  "SetPadding dchecks padding_bytes p =
     (let start = rtp_payload_offset p + rtp_payload_size p in
      if start + padding_bytes > cow_capacity (rtp_buffer p) then Inr (False, p)
      else
        RTC_DCHECK dchecks (padding_bytes < 256) ''IsValueInRangeForNumericType<Dst>(value)''
          (let pad = word_of_int (int padding_bytes) :: u8;
               p1 = p\<lparr>rtp_padding_size := pad, rtp_buffer := SetSize (start + unat pad) (rtp_buffer p)\<rparr>
           in bind_res
                (if pad > 0 then
                   bind_res (write_buffer (mem_store ''buffer_'' (int start) (replicate (unat pad - 1) (Some 0))) p1) (\<lambda>p2.
                   bind_res (write_buffer (mem_store ''buffer_'' (int (start + unat pad - 1)) [Some pad]) p2) (\<lambda>p3.
                     write_buffer (modify_byte 0 (\<lambda>b. b OR 0x20)) p3))
                 else write_buffer (modify_byte 0 (\<lambda>b. b AND 0xdf)) p1)
                (\<lambda>p4. Inr (True, p4))))"

definition CopyHeaderFrom :: "'b RtpPacket_scheme \<Rightarrow> 'a RtpPacket_scheme \<Rightarrow> 'a RtpPacket_scheme" where
  "CopyHeaderFrom q p =
     p\<lparr>rtp_marker := rtp_marker q, rtp_payload_type := rtp_payload_type q, rtp_sequence_number := rtp_sequence_number q,
       rtp_timestamp := rtp_timestamp q, rtp_ssrc := rtp_ssrc q, rtp_payload_offset := rtp_payload_offset q,
       rtp_extensions := rtp_extensions q, rtp_extension_entries := rtp_extension_entries q,
       rtp_extensions_size := rtp_extensions_size q,
       rtp_buffer := (rtp_buffer q)\<lparr>cow_data := take (rtp_payload_offset q) (cow_data (rtp_buffer q))\<rparr>,
       rtp_payload_size := 0, rtp_padding_size := 0\<rparr>"

section \<open>Parsing arbitrary bytes\<close>

text \<open>
  An extension entry that may be used: its id is not 0, and its bytes, if it has any, lie between the fixed header
  and \<open>limit\<close>.
\<close>

definition entry_ok :: "nat \<Rightarrow> ExtensionInfo \<Rightarrow> bool" where
  "entry_ok limit e \<longleftrightarrow> ext_id e \<noteq> 0 \<and> (ext_length e = 0 \<or> 12 \<le> unat (ext_offset e)) \<and>
     unat (ext_offset e) + unat (ext_length e) \<le> limit"

lemma update_extension_all:
  "list_all P es \<Longrightarrow> (\<And>e. P e \<Longrightarrow> ext_id e = x \<Longrightarrow> P (f e)) \<Longrightarrow> list_all P (update_extension x f es)"
  by (induction es) auto

lemma one_byte_id: "b \<noteq> 0 \<Longrightarrow> drop_bit 4 b = 0 \<Longrightarrow> 1 + (b AND 0xf) \<noteq> (1 :: u8)"
proof
  assume b: "b \<noteq> 0" "drop_bit 4 b = 0" "1 + (b AND 0xf) = (1 :: u8)"
  then have "b AND 0xf = 0" by simp
  then have "take_bit 4 b = 0" by (simp add: take_bit_eq_mask mask_eq_exp_minus_1)
  then show False using bits_ident [of 4 b] b by simp
qed

lemma parse_extensions_ok:
  assumes "12 \<le> off" "off + cap \<le> length bytes"
  shows "n \<le> cap \<Longrightarrow> list_all (entry_ok (off + cap)) es \<Longrightarrow>
    \<exists>n' es'. parse_extensions (mem_of bytes) profile off cap n es = Inr (n', es') \<and> n' \<le> cap \<and> list_all (entry_ok (off + cap)) es'"
proof (induction "cap - n" arbitrary: n es rule: less_induct)
  case less
  define h where "h = extension_header_length profile"
  have h: "1 \<le> h" "profile \<noteq> kOneByteExtensionProfileId \<Longrightarrow> h = 2" by (auto simp: h_def extension_header_length_def rtp_constants)
  let ?ok = "\<lambda>r. \<exists>n' es'. r = Inr (n', es') \<and> n' \<le> cap \<and> list_all (entry_ok (off + cap)) es'"
  have "?ok (parse_extensions (mem_of bytes) profile off cap n es)"
  proof (cases "n + h < cap")
    case False
    then show ?thesis using less.prems by (subst parse_extensions.simps) (simp add: h_def)
  next
    case True
    define b where "b = bytes ! (off + n)"
    have r: "mem_read what (int (off + n)) 1 (mem_of bytes) = Inr [b]" for what
      using True h assms(2) by (simp add: read_bytes b_def nat_add_distrib)
    show ?thesis
    proof (cases "b = 0")
      case b: True
      have "?ok (parse_extensions (mem_of bytes) profile off cap (n + 1) es)" using True less.prems by (intro less.hyps) auto
      then show ?thesis
        using True b by (subst parse_extensions.simps) (simp add: h_def [symmetric] r [unfolded One_nat_def] del: of_nat_add)
    next
      case b: False
      obtain x len where
        xl: "(if profile = kOneByteExtensionProfileId then Inr (drop_bit 4 b, 1 + (b AND 0xf))
             else bind_res (mem_read ''buffer'' (int (off + n + 1)) 1 (mem_of bytes)) (\<lambda>l. Inr (b, hd l))) = Inr (x, len)"
        and x: "x = 0 \<Longrightarrow> profile = kOneByteExtensionProfileId \<and> len \<noteq> 1"
      proof (cases "profile = kOneByteExtensionProfileId")
        case one: True
        then show ?thesis using one_byte_id [OF b] by (intro that [of "drop_bit 4 b" "1 + (b AND 0xf)"]) auto
      next
        case two: False
        then have "mem_read what (int (off + n + 1)) 1 (mem_of bytes) = Inr [bytes ! (off + n + 1)]" for what
          using True h assms(2) by (simp add: read_bytes nat_add_distrib)
        then show ?thesis using b two by (intro that [of b "bytes ! (off + n + 1)"]) (simp_all del: of_nat_add)
      qed
      let ?es1 = "FindOrCreateExtensionInfo x es" and ?offset = "off + n + h"
      let ?es2 = "update_extension x (\<lambda>e. e\<lparr>ext_offset := of_nat ?offset, ext_length := len\<rparr>) ?es1"
      have eq: "parse_extensions (mem_of bytes) profile off cap n es =
          (if profile = kOneByteExtensionProfileId \<and> (x = 15 \<or> x = 0 \<and> len \<noteq> 1) then Inr (n, es)
           else if n + h + unat len > cap then Inr (n, es)
           else if ?offset \<ge> 2 ^ 16 then Inr (n, ?es1)
           else parse_extensions (mem_of bytes) profile off cap (n + h + unat len) ?es2)"
        unfolding parse_extensions.simps [of "mem_of bytes" profile off cap n es] Let_def h_def [symmetric] r bind_res.simps
          list.sel xl prod.case
        using True b by simp
      show ?thesis
      proof (cases "profile = kOneByteExtensionProfileId \<and> (x = 15 \<or> x = 0 \<and> len \<noteq> 1) \<or> n + h + unat len > cap")
        case stop: True
        then show ?thesis unfolding eq using less.prems by auto
      next
        case go: False
        then have "x \<noteq> 0" using x by auto
        then have es1: "list_all (entry_ok (off + cap)) ?es1"
          using less.prems(2) by (simp add: FindOrCreateExtensionInfo_def entry_ok_def)
        show ?thesis
        proof (cases "?offset \<ge> 2 ^ 16")
          case big: True
          then show ?thesis unfolding eq using go es1 less.prems by auto
        next
          case small: False
          have u: "unat (of_nat ?offset :: u16) = ?offset" using small by (simp only: unat_of_nat) simp
          have "list_all (entry_ok (off + cap)) ?es2"
            using es1 go assms(1) u by (intro update_extension_all) (auto simp: entry_ok_def simp del: of_nat_add)
          then have "?ok (parse_extensions (mem_of bytes) profile off cap (n + h + unat len) ?es2)"
            using go True h by (intro less.hyps) auto
          then show ?thesis unfolding eq using go small by auto
        qed
      qed
    qed
  qed
  then show ?case .
qed

text \<open>What a successful parse establishes of a packet over the bytes \<open>bytes\<close>.\<close>

definition rtp_layout :: "u8 list \<Rightarrow> 'a RtpPacket_scheme \<Rightarrow> bool" where
  "rtp_layout bytes p \<longleftrightarrow> 12 \<le> rtp_payload_offset p \<and> rtp_size p = length bytes \<and>
     list_all (entry_ok (rtp_payload_offset p)) (rtp_extension_entries p)"

definition rtp_fields :: "u8 list \<Rightarrow> 'a RtpPacket_scheme \<Rightarrow> bool" where
  "rtp_fields bytes p \<longleftrightarrow> rtp_marker p = bit (bytes ! 1) 7 \<and> rtp_payload_type p = bytes ! 1 AND 0x7f \<and>
     WriteBigEndian 2 (rtp_sequence_number p) = take 2 (drop 2 bytes) \<and>
     WriteBigEndian 4 (rtp_timestamp p) = take 4 (drop 4 bytes) \<and> WriteBigEndian 4 (rtp_ssrc p) = take 4 (drop 8 bytes)"

lemma rtp_fields_cong:
  "rtp_fields bytes (p\<lparr>rtp_extensions_size := a, rtp_extension_entries := b, rtp_payload_offset := c\<rparr>) = rtp_fields bytes p"
  "rtp_fields bytes (p\<lparr>rtp_padding_size := d\<rparr>) = rtp_fields bytes p" "rtp_fields bytes (p\<lparr>rtp_payload_size := e\<rparr>) = rtp_fields bytes p"
  by (simp_all add: rtp_fields_def)

text \<open>
  The end of the header of a packet with \<open>c\<close> CSRCs: after the fixed header and the CSRCs, and, when the extension
  bit is set, the four bytes and the words of the extension block. A packet is a valid RTP packet when it has version 2,
  the header fits, and the padding that the last byte counts fits behind it.
\<close>

definition csrc_end :: "u8 list \<Rightarrow> nat" where
  "csrc_end bytes = 12 + 4 * unat (bytes ! 0 AND 0x0f)"

definition extension_words :: "u8 list \<Rightarrow> nat" where
  "extension_words bytes = unat (ReadBigEndian (take 2 (drop (csrc_end bytes + 2) bytes)) :: u16)"

definition header_end :: "u8 list \<Rightarrow> nat" where
  "header_end bytes = (if bit (bytes ! 0) 4 then csrc_end bytes + 4 + 4 * extension_words bytes else csrc_end bytes)"

definition padding_length :: "u8 list \<Rightarrow> nat" where
  "padding_length bytes = (if bit (bytes ! 0) 5 \<and> header_end bytes < length bytes then unat (last bytes) else 0)"

definition valid_rtp :: "u8 list \<Rightarrow> bool" where
  "valid_rtp bytes \<longleftrightarrow> 12 \<le> length bytes \<and> drop_bit 6 (bytes ! 0) = 2 \<and> header_end bytes \<le> length bytes \<and>
     (bit (bytes ! 0) 4 \<longrightarrow> csrc_end bytes + 4 \<le> length bytes) \<and>
     header_end bytes + padding_length bytes \<le> length bytes \<and>
     \<not> (bit (bytes ! 0) 5 \<and> header_end bytes < length bytes \<and> last bytes = 0)"

text \<open>The results of the parse steps: the buffer and the extension map of the packet stay, and a success has a property.\<close>

definition parse_step :: "'a RtpPacket_scheme \<Rightarrow> bool \<Rightarrow> ('a RtpPacket_scheme \<Rightarrow> bool) \<Rightarrow> (bool \<times> 'a RtpPacket_scheme) res \<Rightarrow> bool" where
  "parse_step p ok Q r \<longleftrightarrow>
     (\<exists>p'. r = Inr (ok, p') \<and> rtp_buffer p' = rtp_buffer p \<and> rtp_extensions p' = rtp_extensions p \<and>
           RtpPacket.more p' = RtpPacket.more p \<and> (ok \<longrightarrow> Q p'))"

lemma parse_step_Inr [simp]:
  "parse_step p c Q (Inr (ok, p')) \<longleftrightarrow> ok = c \<and> rtp_buffer p' = rtp_buffer p \<and> rtp_extensions p' = rtp_extensions p \<and>
     RtpPacket.more p' = RtpPacket.more p \<and> (ok \<longrightarrow> Q p')"
  by (auto simp: parse_step_def)

lemma parse_step_bind:
  assumes "parse_step p c Q r"
    and "\<And>p'. rtp_buffer p' = rtp_buffer p \<Longrightarrow> rtp_extensions p' = rtp_extensions p \<Longrightarrow> RtpPacket.more p' = RtpPacket.more p \<Longrightarrow>
      Q p' \<Longrightarrow> parse_step p d R (f p')"
  shows "parse_step p (c \<and> d) R (bind_res r (\<lambda>(ok, p'). if ok then f p' else Inr (False, p')))"
  using assms by (cases c) (auto simp: parse_step_def)

lemma parse_step_start:
  "rtp_buffer q = rtp_buffer p \<Longrightarrow> rtp_extensions q = rtp_extensions p \<Longrightarrow> RtpPacket.more q = RtpPacket.more p \<Longrightarrow>
   parse_step q c Q r \<Longrightarrow> parse_step p c Q r"
  by (auto simp: parse_step_def)

definition header_ok :: "u8 list \<Rightarrow> 'a RtpPacket_scheme \<Rightarrow> bool" where
  "header_ok bytes p \<longleftrightarrow> rtp_fields bytes p \<and> rtp_payload_offset p = header_end bytes \<and> header_end bytes \<le> length bytes \<and>
     list_all (entry_ok (rtp_payload_offset p)) (rtp_extension_entries p)"

lemma header_end_12: "12 \<le> header_end bytes" "csrc_end bytes \<le> header_end bytes"
  by (simp_all add: header_end_def csrc_end_def)

lemma parse_extension_block_ok:
  assumes "rtp_fields bytes p" "rtp_payload_offset p = csrc_end bytes" "bit (bytes ! 0) 4"
  shows "parse_step p (csrc_end bytes + 4 \<le> length bytes \<and> header_end bytes \<le> length bytes) (header_ok bytes)
    (parse_extension_block (mem_of bytes) p)"
proof (cases "csrc_end bytes + 4 > length bytes")
  case False
  let ?off = "csrc_end bytes" and ?x = "take 4 (drop (csrc_end bytes) bytes)"
  let ?cap = "unat (ReadBigEndian (drop 2 ?x) :: u16) * 4" and ?profile = "ReadBigEndian (take 2 ?x) :: u16"
  have r: "mem_read what (int ?off) 4 (mem_of bytes) = Inr ?x" for what
    using False by (simp add: mem_read_mem_of)
  have e: "?off + 4 + ?cap = header_end bytes"
    using assms(3) by (simp add: header_end_def extension_words_def drop_take add.commute)
  show ?thesis
  proof (cases "header_end bytes > length bytes")
    case True
    then show ?thesis using False by (simp add: parse_extension_block_def Let_def assms(2) r e)
  next
    case False
    then have le: "?off + 4 + ?cap \<le> length bytes" "12 \<le> ?off + 4" unfolding e by (simp_all add: csrc_end_def)
    from parse_extensions_ok [OF le(2,1), of 0 "[]" ?profile] obtain n es where
      "(if ?profile \<noteq> kOneByteExtensionProfileId \<and> ?profile AND kTwobyteExtensionProfileIdAppBitsFilter \<noteq> kTwoByteExtensionProfileId
        then Inr (0, []) else parse_extensions (mem_of bytes) ?profile (?off + 4) ?cap 0 []) = Inr (n, es)"
      "list_all (entry_ok (header_end bytes)) es"
      unfolding e by (cases "?profile \<noteq> kOneByteExtensionProfileId \<and> ?profile AND kTwobyteExtensionProfileIdAppBitsFilter \<noteq> kTwoByteExtensionProfileId") auto
    then show ?thesis
      unfolding parse_extension_block_def Let_def length_mem_of assms(2) r bind_res.simps e
      using False \<open>\<not> csrc_end bytes + 4 > length bytes\<close> assms by (simp add: header_ok_def rtp_fields_cong)
  qed
qed (simp add: parse_extension_block_def Let_def assms(2))

lemma parse_padding_ok:
  assumes "header_ok bytes p" "has_padding = bit (bytes ! 0) 5"
  shows "parse_step p (header_end bytes + padding_length bytes \<le> length bytes \<and>
      \<not> (bit (bytes ! 0) 5 \<and> header_end bytes < length bytes \<and> last bytes = 0))
    (\<lambda>p'. rtp_layout bytes p' \<and> rtp_fields bytes p' \<and> rtp_payload_offset p' = header_end bytes \<and> unat (rtp_padding_size p') = padding_length bytes)
    (parse_padding (mem_of bytes) has_padding p)"
proof -
  have ne: "bytes \<noteq> []" using assms header_end_12 [of bytes] by (auto simp: header_ok_def)
  then have last: "mem_read what (int (length bytes - 1)) 1 (mem_of bytes) = Inr [last bytes]" for what
    by (simp add: read_bytes nat_diff_distrib' Suc_leI last_conv_nth)
  show ?thesis
    unfolding parse_padding_def length_mem_of last bind_res.simps list.sel
    using assms header_end_12 [of bytes]
    by (auto simp: header_ok_def rtp_layout_def rtp_size_def rtp_fields_cong padding_length_def)
qed

lemma WriteBigEndian_reread:
  "length bs = B \<Longrightarrow> 8 * B \<le> LENGTH('a) \<Longrightarrow> WriteBigEndian B (ReadBigEndian bs :: 'a :: len word) = bs"
  using WriteBigEndian_Read [of bs] by simp

lemma ParseBuffer_ok:
  "parse_step p (valid_rtp bytes)
     (\<lambda>p'. rtp_layout bytes p' \<and> rtp_fields bytes p' \<and> rtp_payload_offset p' = header_end bytes \<and> unat (rtp_padding_size p') = padding_length bytes) (ParseBuffer (mem_of bytes) p)"
proof (cases "length bytes < 12")
  case False
  let ?h = "take 12 bytes"
  have r: "mem_read what 0 12 (mem_of bytes) = Inr ?h" "mem_read what 0 1 (mem_of bytes) = Inr (take 1 bytes)" for what
    using False by (simp_all add: mem_read_mem_of [of 0, simplified])
  have h: "?h ! 0 = bytes ! 0" "hd (take 1 bytes) = bytes ! 0" "?h ! 1 = bytes ! 1" using False by (cases bytes; simp)+
  define q where "q = p\<lparr>rtp_marker := (bytes ! 1 AND 0x80 \<noteq> 0), rtp_payload_type := bytes ! 1 AND 0x7f,
    rtp_sequence_number := ReadBigEndian (take 2 (drop 2 ?h)), rtp_timestamp := ReadBigEndian (take 4 (drop 4 ?h)),
    rtp_ssrc := ReadBigEndian (take 4 (drop 8 ?h))\<rparr>"
  let ?q = "q\<lparr>rtp_payload_offset := csrc_end bytes, rtp_extensions_size := 0, rtp_extension_entries := []\<rparr>"
  have bits: "(bytes ! 0 AND 0x10 \<noteq> 0) = bit (bytes ! 0) 4" "(bytes ! 0 AND 0x20 \<noteq> 0) = bit (bytes ! 0) 5"
    using and_exp_eq_0_iff_not_bit [of "bytes ! 0" 4] and_exp_eq_0_iff_not_bit [of "bytes ! 0" 5] by simp_all
  have "rtp_fields bytes q"
    using False and_exp_eq_0_iff_not_bit [of "bytes ! 1" 7] by (simp add: q_def rtp_fields_def WriteBigEndian_reread drop_take)
  then have q: "rtp_fields bytes ?q" by (simp add: rtp_fields_def)
  have fits: "kFixedHeaderSize + unat (bytes ! 0 AND 0x0f) * 4 = csrc_end bytes" by (simp add: kFixedHeaderSize_def csrc_end_def)
  let ?c = "(bit (bytes ! 0) 4 \<longrightarrow> csrc_end bytes + 4 \<le> length bytes) \<and> header_end bytes \<le> length bytes"
  let ?d = "header_end bytes + padding_length bytes \<le> length bytes \<and>
      \<not> (bit (bytes ! 0) 5 \<and> header_end bytes < length bytes \<and> last bytes = 0)"
  have "parse_step ?q ?c (header_ok bytes) (if bit (bytes ! 0) 4 then parse_extension_block (mem_of bytes) ?q else Inr (True, ?q))"
    if "csrc_end bytes \<le> length bytes"
    using that parse_extension_block_ok [OF q] q by (auto simp: header_ok_def header_end_def)
  then have *: "parse_step ?q (?c \<and> ?d) (\<lambda>p'. rtp_layout bytes p' \<and> rtp_fields bytes p' \<and> rtp_payload_offset p' = header_end bytes \<and> unat (rtp_padding_size p') = padding_length bytes)
      (bind_res (if bit (bytes ! 0) 4 then parse_extension_block (mem_of bytes) ?q else Inr (True, ?q)) (\<lambda>(ok, p3).
        if ok then parse_padding (mem_of bytes) (bit (bytes ! 0) 5) p3 else Inr (False, p3)))"
    if "csrc_end bytes \<le> length bytes"
    using that by (intro parse_step_bind [where Q = "header_ok bytes"] parse_step_start [OF _ _ _ parse_padding_ok]) simp_all
  have v: "valid_rtp bytes \<longleftrightarrow> drop_bit 6 (bytes ! 0) = 2 \<and> csrc_end bytes \<le> length bytes \<and> ?c \<and> ?d"
    using False header_end_12 [of bytes] by (auto simp: valid_rtp_def)
  show ?thesis
  proof (cases "drop_bit 6 (bytes ! 0) = 2 \<and> csrc_end bytes \<le> length bytes")
    case True
    show ?thesis
      unfolding ParseBuffer_def r bind_res.simps Let_def length_mem_of h fits bits q_def [symmetric]
      using False True * v by (auto simp: parse_step_def q_def rtp_constants)
  next
    case no: False
    then have "\<not> valid_rtp bytes" using v by blast
    then show ?thesis
      unfolding ParseBuffer_def r bind_res.simps Let_def length_mem_of h fits bits q_def [symmetric]
      using False no by (auto simp: q_def rtp_constants)
  qed
qed (simp add: ParseBuffer_def kFixedHeaderSize_def valid_rtp_def)

text \<open>
  The invariant of a packet object: its buffer holds \<open>bytes\<close>, whose number is the size of the packet, and the header
  extensions it has found lie in the header.
\<close>

definition rtp_holds :: "u8 list \<Rightarrow> 'a RtpPacket_scheme \<Rightarrow> bool" where
  "rtp_holds bytes p \<longleftrightarrow> cow_data (rtp_buffer p) = mem_of bytes \<and> rtp_layout bytes p"

definition cleared :: "u8 list" where
  "cleared = 0x80 # replicate 11 0"

lemma rtp_Clear_eq:
  assumes "12 \<le> buffer_size (rtp_buffer p)"
  shows "rtp_Clear p = Inr (p\<lparr>rtp_marker := False, rtp_payload_type := 0, rtp_sequence_number := 0, rtp_timestamp := 0,
    rtp_ssrc := 0, rtp_payload_offset := 12, rtp_payload_size := 0, rtp_padding_size := 0, rtp_extensions_size := 0,
    rtp_extension_entries := [], rtp_buffer := (rtp_buffer p)\<lparr>cow_data := mem_of cleared\<rparr>\<rparr>)"
proof -
  have 1: "mem_store ''buffer_'' 0 (replicate 12 (Some 0)) (cow_data (rtp_buffer p)) =
      Inr (mem_of (replicate 12 0) @ drop 12 (cow_data (rtp_buffer p)))"
    using assms by (simp add: mem_store_def mem_of_def)
  have 2: "modify_byte 0 f (mem_of (replicate 12 0)) = Inr (mem_of (f 0 # replicate 11 0))" for f
    by (subst modify_byte_eq) (simp_all add: numeral_eq_Suc)
  show ?thesis
    using assms 1 2
    by (simp add: rtp_Clear_def write_buffer_def change_data_def Let_def kFixedHeaderSize_def SetSize_def cleared_def kRtpVersion_def)
qed

lemma rtp_Clear_ok:
  assumes "12 \<le> buffer_size (rtp_buffer p)"
  shows "\<exists>p'. rtp_Clear p = Inr p' \<and> rtp_holds cleared p' \<and> rtp_extensions p' = rtp_extensions p \<and> RtpPacket.more p' = RtpPacket.more p"
  using assms by (simp add: rtp_Clear_eq rtp_holds_def rtp_layout_def rtp_size_def cleared_def)

lemma rtp_layout_cong [simp]: "rtp_layout bytes (p\<lparr>rtp_buffer := b\<rparr>) = rtp_layout bytes p"
  by (simp add: rtp_layout_def rtp_size_def)

lemma rtp_fields_buffer [simp]: "rtp_fields bytes (p\<lparr>rtp_buffer := b\<rparr>) = rtp_fields bytes p"
  by (simp add: rtp_fields_def)

text \<open>What an object that has parsed a valid packet holds.\<close>

definition rtp_parsed :: "CopyOnWriteBuffer \<Rightarrow> u8 list \<Rightarrow> 'a RtpPacket_scheme \<Rightarrow> bool" where
  "rtp_parsed b bytes p \<longleftrightarrow> rtp_buffer p = b \<and> rtp_holds bytes p \<and> rtp_fields bytes p \<and>
     rtp_payload_offset p = header_end bytes \<and> unat (rtp_padding_size p) = padding_length bytes"

lemma rtp_Parse_ok:
  assumes "12 \<le> buffer_size (rtp_buffer p)" "cow_data b = mem_of bytes"
  shows "\<exists>p'. rtp_Parse dchecks b p = Inr (valid_rtp bytes, p') \<and> rtp_extensions p' = rtp_extensions p \<and>
    RtpPacket.more p' = RtpPacket.more p \<and> (if valid_rtp bytes then rtp_parsed b bytes p' else rtp_holds cleared p')"
proof -
  from ParseBuffer_ok [of p bytes] obtain q where
    q: "ParseBuffer (mem_of bytes) p = Inr (valid_rtp bytes, q)" "rtp_buffer q = rtp_buffer p" "rtp_extensions q = rtp_extensions p"
      "RtpPacket.more q = RtpPacket.more p"
      "valid_rtp bytes \<longrightarrow> rtp_layout bytes q \<and> rtp_fields bytes q \<and> rtp_payload_offset q = header_end bytes \<and> unat (rtp_padding_size q) = padding_length bytes"
    by (auto simp: parse_step_def)
  show ?thesis
  proof (cases "valid_rtp bytes")
    case True
    then have "rtp_size (q\<lparr>rtp_buffer := b\<rparr>) = buffer_size b" using q(5) assms(2) by (simp add: rtp_layout_def rtp_size_def)
    then show ?thesis
      using q True assms(2) by (auto simp: rtp_Parse_def Let_def rtp_parsed_def rtp_holds_def)
  next
    case False
    then show ?thesis using rtp_Clear_ok [of q] q assms by (auto simp: rtp_Parse_def)
  qed
qed

lemma new_RtpPacket_ok:
  assumes "12 \<le> capacity"
  shows "\<exists>p. new_RtpPacket dchecks exts capacity = Inr p \<and> rtp_holds cleared p \<and> rtp_extensions p = exts \<and>
    rtp_payload_offset p = 12 \<and> rtp_padding_size p = 0 \<and> rtp_payload_size p = 0 \<and> rtp_extension_entries p = [] \<and> cow_capacity (rtp_buffer p) = capacity"
  using assms by (simp add: new_RtpPacket_def kFixedHeaderSize_def rtp_Clear_eq rtp_holds_def rtp_layout_def rtp_size_def cleared_def)

section \<open>Zeroing the extensions that change\<close>

text \<open>The bytes of an extension that the sender may change after the FEC was computed.\<close>

definition mutable_bytes :: "RTPExtensionType \<Rightarrow> ExtensionInfo \<Rightarrow> nat set" where
  "mutable_bytes type e =
     (if type = kRtpExtensionVideoTiming then {unat (ext_offset e) + 7 ..< unat (ext_offset e) + unat (ext_length e)}
      else if type \<in> {kRtpExtensionTransportSequenceNumber, kRtpExtensionTransportSequenceNumber02,
                      kRtpExtensionTransmissionTimeOffset, kRtpExtensionAbsoluteSendTime}
      then {unat (ext_offset e) ..< unat (ext_offset e) + unat (ext_length e)} else {})"

definition registered_type :: "RtpHeaderExtensionMap \<Rightarrow> u8 \<Rightarrow> RTPExtensionType" where
  "registered_type m x =
     (case find (\<lambda>type. extension_ids m type = x) extension_types of Some type \<Rightarrow> type | None \<Rightarrow> kRtpExtensionNone)"

lemma GetType_registered: "x \<noteq> 0 \<Longrightarrow> GetType dchecks (uint x) m = Inr (registered_type m x)"
  using uint_bounded [of x] word_gt_0 [of x] unfolding GetType_def registered_type_def
  by (auto simp: word_less_def word_uint_eq_iff split: option.splits)

definition zeroed_at :: "nat set \<Rightarrow> u8 list \<Rightarrow> u8 list" where
  "zeroed_at S bytes = map (\<lambda>k. if k \<in> S then 0 else bytes ! k) [0..<length bytes]"

lemma zeroed_at_simps [simp]: "length (zeroed_at S bytes) = length bytes" "zeroed_at {} bytes = bytes"
  "zeroed_at S (zeroed_at T bytes) = zeroed_at (S \<union> T) bytes"
  by (auto simp: zeroed_at_def map_nth)

lemma store_zeros:
  assumes "i + n \<le> length bytes"
  shows "mem_store what (int i) (replicate n (Some 0)) (mem_of bytes) = Inr (mem_of (zeroed_at {i ..< i + n} bytes))"
proof -
  have "zeroed_at {i ..< i + n} bytes = overwrite i (replicate n 0) bytes"
    by (rule nth_equalityI) (use assms in \<open>auto simp: zeroed_at_def nth_overwrite\<close>)
  then show ?thesis
    using assms store_bytes [of "int i" "replicate n 0" bytes what] by (simp add: mem_of_def)
qed

lemma zero_extension_ok:
  assumes "entry_ok limit e" "limit \<le> length bytes"
  shows "zero_extension dchecks exts e (mem_of bytes) =
    Inr (mem_of (zeroed_at (mutable_bytes (registered_type exts (ext_id e)) e) bytes))"
  using assms store_zeros [of "unat (ext_offset e)" "unat (ext_length e)" bytes]
    store_zeros [of "unat (ext_offset e) + 7" "unat (ext_length e) - 7" bytes]
  by (auto simp: zero_extension_def GetType_registered entry_ok_def mutable_bytes_def Let_def kPacerExitDeltaOffset_def)

lemma zero_extensions_ok:
  "list_all (entry_ok limit) es \<Longrightarrow> limit \<le> length bytes \<Longrightarrow>
   zero_extensions dchecks exts es (mem_of bytes) =
     Inr (mem_of (zeroed_at (\<Union>e\<in>set es. mutable_bytes (registered_type exts (ext_id e)) e) bytes))"
  by (induction es arbitrary: bytes) (auto simp: zero_extension_ok [of limit] Un_commute)

definition with_bytes :: "u8 list \<Rightarrow> 'a RtpPacket_scheme \<Rightarrow> 'a RtpPacket_scheme" where
  "with_bytes bytes p = p\<lparr>rtp_buffer := (rtp_buffer p)\<lparr>cow_data := mem_of bytes\<rparr>\<rparr>"

lemma with_bytes_simps [simp]:
  "cow_data (rtp_buffer (with_bytes bytes p)) = mem_of bytes" "cow_capacity (rtp_buffer (with_bytes bytes p)) = cow_capacity (rtp_buffer p)"
  "rtp_marker (with_bytes bytes p) = rtp_marker p" "rtp_payload_type (with_bytes bytes p) = rtp_payload_type p"
  "rtp_padding_size (with_bytes bytes p) = rtp_padding_size p" "rtp_sequence_number (with_bytes bytes p) = rtp_sequence_number p"
  "rtp_timestamp (with_bytes bytes p) = rtp_timestamp p" "rtp_ssrc (with_bytes bytes p) = rtp_ssrc p"
  "rtp_payload_offset (with_bytes bytes p) = rtp_payload_offset p" "rtp_payload_size (with_bytes bytes p) = rtp_payload_size p"
  "rtp_extensions (with_bytes bytes p) = rtp_extensions p" "rtp_extension_entries (with_bytes bytes p) = rtp_extension_entries p"
  "RtpPacket.more (with_bytes bytes p) = RtpPacket.more p" "rtp_size (with_bytes bytes p) = rtp_size p"
  "rtp_layout bytes' (with_bytes bytes p) = rtp_layout bytes' p" "with_bytes bytes (with_bytes bytes' p) = with_bytes bytes p"
  by (simp_all add: with_bytes_def rtp_size_def)

lemma write_buffer_ok:
  "f (mem_of bytes) = Inr (mem_of bytes') \<Longrightarrow> cow_data (rtp_buffer p) = mem_of bytes \<Longrightarrow> write_buffer f p = Inr (with_bytes bytes' p)"
  by (simp add: write_buffer_def change_data_def with_bytes_def)

text \<open>The mutable bytes of the packet, all in the header behind the fixed part.\<close>

definition packet_mutable_bytes :: "'a RtpPacket_scheme \<Rightarrow> nat set" where
  "packet_mutable_bytes p = (\<Union>e\<in>set (rtp_extension_entries p). mutable_bytes (registered_type (rtp_extensions p) (ext_id e)) e)"

lemma packet_mutable_bytes_header:
  assumes "rtp_layout bytes p"
  shows "packet_mutable_bytes p \<subseteq> {12 ..< rtp_payload_offset p}"
proof -
  have "mutable_bytes type e \<subseteq> {12 ..< limit}" if "entry_ok limit e" for type e limit
    using that by (cases "ext_length e = 0") (auto simp: mutable_bytes_def entry_ok_def)
  then show ?thesis using assms by (force simp: packet_mutable_bytes_def rtp_layout_def list_all_iff)
qed

lemma ZeroMutableExtensions_ok:
  assumes "rtp_holds bytes p"
  shows "ZeroMutableExtensions dchecks p = Inr (with_bytes (zeroed_at (packet_mutable_bytes p) bytes) p)"
proof -
  have "list_all (entry_ok (rtp_payload_offset p)) (rtp_extension_entries p)" "rtp_payload_offset p \<le> length bytes"
    using assms by (auto simp: rtp_holds_def rtp_layout_def rtp_size_def)
  from zero_extensions_ok [OF this, of dchecks "rtp_extensions p"] show ?thesis
    unfolding ZeroMutableExtensions_def using assms by (intro write_buffer_ok) (auto simp: rtp_holds_def packet_mutable_bytes_def)
qed

section \<open>The setters\<close>

lemma SetMarker_ok:
  "cow_data (rtp_buffer p) = mem_of bytes \<Longrightarrow> 2 \<le> length bytes \<Longrightarrow>
   SetMarker m p = Inr (with_bytes (bytes[1 := if m then bytes ! 1 OR 0x80 else bytes ! 1 AND 0x7F]) (p\<lparr>rtp_marker := m\<rparr>))"
  unfolding SetMarker_def by (intro write_buffer_ok) (auto simp: modify_byte_eq)

lemma SetPayloadType_ok:
  "cow_data (rtp_buffer p) = mem_of bytes \<Longrightarrow> 2 \<le> length bytes \<Longrightarrow> pt \<le> 0x7F \<Longrightarrow>
   SetPayloadType dchecks pt p = Inr (with_bytes (bytes[1 := (bytes ! 1 AND 0x80) OR pt]) (p\<lparr>rtp_payload_type := pt\<rparr>))"
  by (simp add: SetPayloadType_def write_buffer_ok [where bytes = bytes] modify_byte_eq)

lemma SetSequenceNumber_ok:
  "cow_data (rtp_buffer p) = mem_of bytes \<Longrightarrow> 4 \<le> length bytes \<Longrightarrow>
   SetSequenceNumber sn p = Inr (with_bytes (overwrite 2 (WriteBigEndian 2 sn) bytes) (p\<lparr>rtp_sequence_number := sn\<rparr>))"
  unfolding SetSequenceNumber_def by (intro write_buffer_ok) (auto simp: store_bytes)

lemma SetTimestamp_ok:
  "cow_data (rtp_buffer p) = mem_of bytes \<Longrightarrow> 8 \<le> length bytes \<Longrightarrow>
   SetTimestamp ts p = Inr (with_bytes (overwrite 4 (WriteBigEndian 4 ts) bytes) (p\<lparr>rtp_timestamp := ts\<rparr>))"
  unfolding SetTimestamp_def by (intro write_buffer_ok) (auto simp: store_bytes)

lemma SetSsrc_ok:
  "cow_data (rtp_buffer p) = mem_of bytes \<Longrightarrow> 12 \<le> length bytes \<Longrightarrow>
   SetSsrc s p = Inr (with_bytes (overwrite 8 (WriteBigEndian 4 s) bytes) (p\<lparr>rtp_ssrc := s\<rparr>))"
  unfolding SetSsrc_def by (intro write_buffer_ok) (auto simp: store_bytes)


text \<open>The bytes of a packet without CSRCs and extensions.\<close>

definition rtp_bytes :: "bool \<Rightarrow> bool \<Rightarrow> u8 \<Rightarrow> u16 \<Rightarrow> u32 \<Rightarrow> u32 \<Rightarrow> u8 list \<Rightarrow> u8 list" where
  "rtp_bytes padded m pt sn ts s rest =
     [if padded then 0xA0 else 0x80, if m then 0x80 OR pt else pt] @ WriteBigEndian 2 sn @ WriteBigEndian 4 ts @ WriteBigEndian 4 s @ rest"

definition padding :: "nat \<Rightarrow> u8 list" where
  "padding n = (if n = 0 then [] else replicate (n - 1) 0 @ [of_nat n])"

lemma length_padding [simp]: "length (padding n) = n"
  by (simp add: padding_def)

lemma cleared_rtp_bytes: "cleared = rtp_bytes False False 0 0 0 0 []"
  by (simp add: cleared_def rtp_bytes_def WriteBigEndian_def upt_rec numeral_eq_Suc)

lemma rtp_bytes_set:
  "overwrite 2 (WriteBigEndian 2 sn') (rtp_bytes f m pt sn ts s rest) = rtp_bytes f m pt sn' ts s rest"
  "overwrite 4 (WriteBigEndian 4 ts') (rtp_bytes f m pt sn ts s rest) = rtp_bytes f m pt sn ts' s rest"
  "overwrite 8 (WriteBigEndian 4 s') (rtp_bytes f m pt sn ts s rest) = rtp_bytes f m pt sn ts s' rest"
  "(rtp_bytes f m 0 sn ts s rest)[1 := (if m' then rtp_bytes f m 0 sn ts s rest ! 1 OR 0x80 else rtp_bytes f m 0 sn ts s rest ! 1 AND 0x7F)] =
     rtp_bytes f m' 0 sn ts s rest"
  "(rtp_bytes f m 0 sn ts s rest)[1 := (rtp_bytes f m 0 sn ts s rest ! 1 AND 0x80) OR pt'] = rtp_bytes f m pt' sn ts s rest"
  by (simp_all add: rtp_bytes_def overwrite_def numeral_eq_Suc)

lemma length_rtp_bytes [simp]: "length (rtp_bytes f m pt sn ts s rest) = 12 + length rest"
  by (simp add: rtp_bytes_def)

lemma setters_rtp_bytes:
  "cow_data (rtp_buffer p) = mem_of (rtp_bytes f m 0 sn ts s rest) \<Longrightarrow>
     SetMarker m' p = Inr (with_bytes (rtp_bytes f m' 0 sn ts s rest) (p\<lparr>rtp_marker := m'\<rparr>))"
  "cow_data (rtp_buffer p) = mem_of (rtp_bytes f m 0 sn ts s rest) \<Longrightarrow> pt' \<le> 0x7F \<Longrightarrow>
     SetPayloadType dchecks pt' p = Inr (with_bytes (rtp_bytes f m pt' sn ts s rest) (p\<lparr>rtp_payload_type := pt'\<rparr>))"
  "cow_data (rtp_buffer p) = mem_of (rtp_bytes f m pt sn ts s rest) \<Longrightarrow>
     SetSequenceNumber sn' p = Inr (with_bytes (rtp_bytes f m pt sn' ts s rest) (p\<lparr>rtp_sequence_number := sn'\<rparr>))"
  "cow_data (rtp_buffer p) = mem_of (rtp_bytes f m pt sn ts s rest) \<Longrightarrow>
     SetTimestamp ts' p = Inr (with_bytes (rtp_bytes f m pt sn ts' s rest) (p\<lparr>rtp_timestamp := ts'\<rparr>))"
  "cow_data (rtp_buffer p) = mem_of (rtp_bytes f m pt sn ts s rest) \<Longrightarrow>
     SetSsrc s' p = Inr (with_bytes (rtp_bytes f m pt sn ts s' rest) (p\<lparr>rtp_ssrc := s'\<rparr>))"
  using SetMarker_ok [of p "rtp_bytes f m 0 sn ts s rest" m'] SetPayloadType_ok [of p "rtp_bytes f m 0 sn ts s rest" pt' dchecks]
    SetSequenceNumber_ok [of p "rtp_bytes f m pt sn ts s rest" sn'] SetTimestamp_ok [of p "rtp_bytes f m pt sn ts s rest" ts']
    SetSsrc_ok [of p "rtp_bytes f m pt sn ts s rest" s']
  unfolding rtp_bytes_set by simp_all

lemma store_fresh:
  "length bytes = i \<Longrightarrow> length bs \<le> n \<Longrightarrow>
   mem_store what (int i) (mem_of bs) (mem_of bytes @ replicate n None) = Inr (mem_of (bytes @ bs) @ replicate (n - length bs) None)"
  by (auto simp: mem_store_def)

lemma SetPayloadSize_ok:
  assumes "cow_data (rtp_buffer p) = mem_of bytes" "rtp_payload_offset p = length bytes" "rtp_padding_size p = 0"
  shows "\<exists>cap. SetPayloadSize dchecks n p =
    Inr (p\<lparr>rtp_payload_size := n, rtp_buffer := \<lparr>cow_data = mem_of bytes @ replicate n None, cow_capacity = cap\<rparr>\<rparr>) \<and>
    cap = (if n = 0 then cow_capacity (rtp_buffer p) else max (cow_capacity (rtp_buffer p)) (length bytes + n))"
  using assms by (auto simp: SetPayloadSize_def SetSize_def)

lemma SetPayloadSize_0_ok:
  assumes "cow_data (rtp_buffer p) = mem_of bytes" "rtp_payload_offset p \<le> length bytes" "rtp_padding_size p = 0"
  shows "SetPayloadSize dchecks 0 p = Inr (with_bytes (take (rtp_payload_offset p) bytes) (p\<lparr>rtp_payload_size := 0\<rparr>))"
  using assms by (simp add: SetPayloadSize_def SetSize_def with_bytes_def)

lemma SetPadding_ok:
  assumes "cow_data (rtp_buffer p) = mem_of bytes" "length bytes = rtp_payload_offset p + rtp_payload_size p"
    and "length bytes + n \<le> cow_capacity (rtp_buffer p)" "n < 256" "bytes \<noteq> []"
  shows "SetPadding dchecks n p = Inr (True, with_bytes
    (bytes[0 := if n > 0 then bytes ! 0 OR 0x20 else bytes ! 0 AND 0xdf] @ padding n) (p\<lparr>rtp_padding_size := of_nat n\<rparr>))"
proof -
  let ?pad = "of_nat n :: u8" and ?start = "rtp_payload_offset p + rtp_payload_size p"
  have u: "unat ?pad = n" "?pad > 0 \<longleftrightarrow> n > 0" using assms(4) by (simp_all add: unat_of_nat word_less_nat_alt)
  have fit: "?start + n > cow_capacity (rtp_buffer p) \<longleftrightarrow> False" using assms(2,3) by simp
  show ?thesis
  proof (cases "n = 0")
    case True
    have "write_buffer (modify_byte 0 (\<lambda>b. b AND 0xdf)) (p\<lparr>rtp_padding_size := ?pad, rtp_buffer := SetSize ?start (rtp_buffer p)\<rparr>) =
        Inr (with_bytes (bytes[0 := bytes ! 0 AND 0xdf]) (p\<lparr>rtp_padding_size := ?pad\<rparr>))"
      using assms(1,2) modify_byte_eq [of 0 bytes "\<lambda>b. b AND 0xdf"] assms(5)
      by (simp add: SetSize_def write_buffer_def change_data_def with_bytes_def flip: length_greater_0_conv)
    then show ?thesis using fit True by (simp add: SetPadding_def Let_def padding_def)
  next
    case False
    define b0 where "b0 = \<lparr>cow_data = mem_of bytes @ replicate n None, cow_capacity = cow_capacity (rtp_buffer p)\<rparr>"
    have b0: "SetSize (?start + n) (rtp_buffer p) = b0"
      using assms(1-3) False by (simp add: SetSize_def b0_def max_absorb1 flip: assms(2))
    have z: "replicate k (Some 0) = mem_of (replicate k (0 :: u8))" for k by (simp add: mem_of_def)
    have 1: "mem_store w (int ?start) (replicate (n - 1) (Some 0)) (cow_data b0) = Inr (mem_of (bytes @ replicate (n - 1) 0) @ [None])" for w
      unfolding z using store_fresh [OF assms(2), of "replicate (n - 1) 0" n w] False by (simp add: b0_def)
    have 2: "mem_store w (int (?start + n - 1)) [Some ?pad] (mem_of (bytes @ replicate (n - 1) 0) @ [None]) =
        Inr (mem_of (bytes @ padding n))" for w
      using store_fresh [of "bytes @ replicate (n - 1) 0" "?start + n - 1" "[?pad]" 1 w] assms(2) False
      by (simp add: padding_def mem_of_def)
    have 3: "modify_byte 0 f (mem_of (bytes @ padding n)) = Inr (mem_of (bytes[0 := f (bytes ! 0)] @ padding n))" for f
      using assms(5) by (subst modify_byte_eq) (simp_all add: list_update_append nth_append)
    show ?thesis
      unfolding SetPadding_def Let_def fit if_False using False assms(4) u b0 1 2 3
      by (simp add: write_buffer_def change_data_def with_bytes_def b0_def del: mem_of_append)
  qed
qed

lemma with_bytes_update [simp]:
  "with_bytes bs (with_bytes bs' p\<lparr>rtp_marker := a\<rparr>) = with_bytes bs (p\<lparr>rtp_marker := a\<rparr>)"
  "with_bytes bs (with_bytes bs' p\<lparr>rtp_payload_type := b\<rparr>) = with_bytes bs (p\<lparr>rtp_payload_type := b\<rparr>)"
  "with_bytes bs (with_bytes bs' p\<lparr>rtp_sequence_number := c\<rparr>) = with_bytes bs (p\<lparr>rtp_sequence_number := c\<rparr>)"
  "with_bytes bs (with_bytes bs' p\<lparr>rtp_timestamp := d\<rparr>) = with_bytes bs (p\<lparr>rtp_timestamp := d\<rparr>)"
  "with_bytes bs (with_bytes bs' p\<lparr>rtp_ssrc := d\<rparr>) = with_bytes bs (p\<lparr>rtp_ssrc := d\<rparr>)"
  by (simp_all add: with_bytes_def)

lemma WriteBigEndian_inj:
  "LENGTH('a) \<le> 8 * B \<Longrightarrow> WriteBigEndian B v = WriteBigEndian B w \<longleftrightarrow> v = (w :: 'a :: len word)"
  by (metis ReadBigEndian_Write)

lemma seven_bits: "pt \<le> 0x7f \<Longrightarrow> \<not> bit pt 7 \<and> pt AND 0x7f = (pt :: u8)"
proof -
  assume "pt \<le> 0x7f"
  then have "take_bit 7 pt = pt" by (simp add: word_uint_eq_iff unsigned_take_bit_eq take_bit_int_eq_self word_le_def)
  then show ?thesis using bit_take_bit_iff [of 7 pt 7] by (simp add: take_bit_eq_mask mask_eq_exp_minus_1)
qed

lemma rtp_bytes_fields:
  fixes f m pt sn ts s rest b p
  defines "b \<equiv> rtp_bytes f m pt sn ts s rest"
  assumes "rtp_fields b p" "pt \<le> 0x7f"
  shows "rtp_marker p = m \<and> rtp_payload_type p = pt \<and> rtp_sequence_number p = sn \<and> rtp_timestamp p = ts \<and> rtp_ssrc p = s"
proof -
  have "b ! 1 = (if m then 0x80 OR pt else pt)" "take 2 (drop 2 b) = WriteBigEndian 2 sn" "take 4 (drop 4 b) = WriteBigEndian 4 ts"
    "take 4 (drop 8 b) = WriteBigEndian 4 s"
    by (simp_all add: b_def rtp_bytes_def)
  moreover have "bit (0x80 OR pt) 7" "(0x80 OR pt) AND 0x7f = pt"
    using seven_bits [OF assms(3)] by (simp_all add: bit_or_iff bit.conj_disj_distrib2)
  ultimately show ?thesis
    using assms(2) seven_bits [OF assms(3)] by (auto simp: rtp_fields_def WriteBigEndian_inj)
qed

text \<open>The view \<open>payload()\<close>.\<close>

definition rtp_payload :: "'a RtpPacket_scheme \<Rightarrow> mem" where
  "rtp_payload p = take (rtp_payload_size p) (drop (rtp_payload_offset p) (cow_data (rtp_buffer p)))"

section \<open>The extension map\<close>

text \<open>No two types of a map have the same id.\<close>

definition ids_distinct :: "RtpHeaderExtensionMap \<Rightarrow> bool" where
  "ids_distinct m \<longleftrightarrow> (\<forall>t \<in> set extension_types. \<forall>u \<in> set extension_types.
     extension_ids m t = extension_ids m u \<longrightarrow> extension_ids m t \<noteq> 0 \<longrightarrow> t = u)"

lemma registered_type_cases:
  "if registered_type m x = kRtpExtensionNone then \<forall>t \<in> set extension_types. extension_ids m t \<noteq> x
   else registered_type m x \<in> set extension_types \<and> extension_ids m (registered_type m x) = x"
proof -
  have n: "kRtpExtensionNone \<notin> set extension_types" by (simp add: extension_types_def)
  show ?thesis
  proof (cases "find (\<lambda>type. extension_ids m type = x) extension_types")
    case None
    moreover from this have "\<forall>t \<in> set extension_types. extension_ids m t \<noteq> x" by (auto simp: find_None_iff)
    ultimately show ?thesis by (simp add: registered_type_def)
  next
    case (Some t)
    then have "t \<in> set extension_types" "extension_ids m t = x" by (auto simp: find_Some_iff)
    then show ?thesis using Some n by (auto simp: registered_type_def)
  qed
qed

lemma Register_ok:
  assumes "type \<in> set extension_types" "ids_distinct m"
  shows "\<exists>ok m'. Register dchecks ext type m = Inr (ok, m') \<and> ids_distinct m' \<and>
    ok = (1 \<le> ext \<and> ext \<le> 255 \<and> (extension_ids m type = word_of_int ext \<or>
      extension_ids m type = 0 \<and> registered_type m (word_of_int ext) = kRtpExtensionNone)) \<and>
    m' = (if ok then m\<lparr>extension_ids := (extension_ids m)(type := word_of_int ext)\<rparr> else m)"
proof (cases "1 \<le> ext \<and> ext \<le> 255")
  case True
  define x where "x = (word_of_int ext :: u8)"
  have x: "uint x = ext" "x \<noteq> 0" using True by (auto simp: x_def uint_word_of_int word_uint_eq_iff)
  have g: "GetType dchecks ext m = Inr (registered_type m x)" using GetType_registered [OF x(2), of dchecks m] x(1) by simp
  have t: "type \<noteq> kRtpExtensionNone" "type \<noteq> kRtpExtensionNumberOfExtensions" using assms(1) by (auto simp: extension_types_def)
  have "registered_type m x = type \<longleftrightarrow> extension_ids m type = x"
    using registered_type_cases [of m x] assms t(1) x(2) by (cases "registered_type m x = kRtpExtensionNone") (auto simp: ids_distinct_def)
  moreover have "ids_distinct (m\<lparr>extension_ids := (extension_ids m)(type := x)\<rparr>)"
    if "registered_type m x = kRtpExtensionNone \<or> extension_ids m type = x"
    using that registered_type_cases [of m x] assms t(1) by (auto simp: ids_distinct_def split: if_splits)
  moreover have "m\<lparr>extension_ids := (extension_ids m)(type := x)\<rparr> = m" if "extension_ids m type = x"
    using that by (metis (no_types) RtpHeaderExtensionMap.surjective RtpHeaderExtensionMap.update_convs(1) fun_upd_triv)
  ultimately show ?thesis
    using True t g assms(2) x(2)
    by (cases "registered_type m x = type"; cases "registered_type m x = kRtpExtensionNone")
      (auto simp: Register_def type_checks_def IsRegistered_def GetId_def simp flip: x_def)
qed (use assms in \<open>auto simp: Register_def type_checks_def extension_types_def\<close>)

section \<open>Properties\<close>

text \<open>
  Claim C35. Any bytes whatever can be parsed: the parser never reads outside the buffer, all its checks hold, it
  accepts exactly the valid RTP packets, and the object it leaves is well formed in both cases: its size is that of its
  buffer, the header extensions it lists have ids and lie in the header, and on acceptance the fields are those of the bytes.
\<close>

theorem rtp_parse_total:
  "\<exists>p0 p. new_RtpPacket dchecks exts kDefaultPacketSize = Inr p0 \<and>
     rtp_Parse dchecks (buffer_of bytes) p0 = Inr (valid_rtp bytes, p) \<and>
     (if valid_rtp bytes then rtp_parsed (buffer_of bytes) bytes p else rtp_holds cleared p)"
proof -
  obtain p0 where p0: "new_RtpPacket dchecks exts kDefaultPacketSize = Inr p0" "rtp_holds cleared p0"
    using new_RtpPacket_ok [of kDefaultPacketSize dchecks exts] by (auto simp: kDefaultPacketSize_def)
  then show ?thesis
    using rtp_Parse_ok [of p0 "buffer_of bytes" bytes dchecks] by (auto simp: rtp_holds_def cleared_def buffer_of_def)
qed

end
