(* ===== verification/Ulpfec_Generator.thy ===== *)
theory Ulpfec_Generator
  imports Rtp_Packet Codec_Encode
begin

text \<open>
  The ULPFEC generator (\<^verbatim>\<open>ulpfec_generator.cc\<close>) and the RED encapsulation of media packets (\<open>BuildRedPayload\<close> of
  \<^verbatim>\<open>rtp_sender_video.cc\<close>, and its reversal before FEC in \<^verbatim>\<open>rtp_sender_egress.cc\<close>): media packets are collected until a
  group of frames is complete, encoded, and the FEC packets are handed out in RED packets.
\<close>

section \<open>Packets to send\<close>

datatype RtpPacketMediaType = kAudio | kVideo | kRetransmission | kForwardErrorCorrection | kPadding

datatype OriginalType = OriginalType_kAudio | OriginalType_kVideo

record RtpPacketToSend = RtpPacket +
  capture_time :: int
  packet_type :: "RtpPacketMediaType option"
  original_packet_type :: "OriginalType option"
  allow_retransmission :: bool
  is_key_frame :: bool
  fec_protect_packet :: bool
  is_red :: bool

definition set_packet_type :: "RtpPacketMediaType \<Rightarrow> RtpPacketToSend \<Rightarrow> RtpPacketToSend" where
  "set_packet_type type p =
     (if packet_type p = Some kAudio then p\<lparr>original_packet_type := Some OriginalType_kAudio, packet_type := Some type\<rparr>
      else if packet_type p = Some kVideo then p\<lparr>original_packet_type := Some OriginalType_kVideo, packet_type := Some type\<rparr>
      else p\<lparr>packet_type := Some type\<rparr>)"

section \<open>RED\<close>

definition kRedForFecHeaderLength :: nat where "kRedForFecHeaderLength = 1"

text \<open>The payload that follows a one-byte RED header, written into a payload of that size.\<close>

definition write_red :: "u8 \<Rightarrow> mem \<Rightarrow> 'a RtpPacket_scheme \<Rightarrow> 'a RtpPacket_scheme res" where
  "write_red block_type payload p =
     bind_res (write_buffer (mem_store ''payload_buffer'' (int (rtp_payload_offset p)) [Some block_type]) p) (\<lambda>p1.
       write_buffer (mem_store ''payload_buffer'' (int (rtp_payload_offset p + kRedForFecHeaderLength)) payload) p1)"

definition BuildRedPayload :: "bool \<Rightarrow> RtpPacketToSend \<Rightarrow> RtpPacketToSend \<Rightarrow> RtpPacketToSend res" where
  "BuildRedPayload dchecks media_packet red_packet =
     bind_res (AllocatePayload dchecks (kRedForFecHeaderLength + rtp_payload_size media_packet) red_packet) (\<lambda>p.
       write_red (rtp_payload_type media_packet) (rtp_payload media_packet) p)"

definition make_red :: "bool \<Rightarrow> u8 \<Rightarrow> RtpPacketToSend \<Rightarrow> RtpPacketToSend res" where
  "make_red dchecks pt packet =
     bind_res (BuildRedPayload dchecks packet packet) (\<lambda>p.
     bind_res (SetPayloadType dchecks pt p) (\<lambda>p'.
       Inr ((set_packet_type kVideo (p'\<lparr>is_red := True\<rparr>))\<lparr>allow_retransmission := allow_retransmission packet\<rparr>)))"

text \<open>The media packet in a RED packet, rebuilt before it is given to the FEC generator.\<close>

definition unpack_red :: "bool \<Rightarrow> RtpPacketToSend \<Rightarrow> RtpPacketToSend res" where
  "unpack_red dchecks packet =
     bind_res (mem_read ''buffer'' (int (rtp_payload_offset packet)) 1 (cow_data (rtp_buffer packet))) (\<lambda>b.
     bind_res (SetPayloadType dchecks (hd b) packet) (\<lambda>p1.
     bind_res (SetPayloadSize dchecks (rtp_payload_size packet - 1) p1) (\<lambda>p2.
     bind_res (mem_load ''payload'' (int (rtp_payload_offset packet + 1)) (rtp_payload_size packet - 1) (cow_data (rtp_buffer packet))) (\<lambda>m.
       write_buffer (mem_store ''payload_buffer'' (int (rtp_payload_offset p2)) m) p2))))"

section \<open>The generator\<close>

record FecProtectionParams =
  fec_rate :: int
  max_fec_frames :: int
  fec_mask_type :: FecMaskType

record GeneratorParams =
  delta_params :: FecProtectionParams
  keyframe_params :: FecProtectionParams

text \<open>
  The generated packets are pointers into the codec. The bit-rate tracker is the list of its updates: the sizes with
  their times.
\<close>

record UlpfecGenerator =
  red_payload_type :: int
  gen_ulpfec_payload_type :: int
  gen_fec :: fec_codec
  gen_media_packets :: "CopyOnWriteBuffer list"
  last_media_packet :: "RtpPacketToSend option"
  gen_packets :: "nat list"
  num_protected_frames :: int
  min_num_media_packets :: int
  current_params :: GeneratorParams
  media_contains_keyframe :: bool
  pending_params :: "GeneratorParams option"
  fec_bitrate :: "(nat \<times> int) list"

definition kMaxExcessOverhead :: int where "kMaxExcessOverhead = 50"
definition kMinMediaPackets :: int where "kMinMediaPackets = 4"
definition kHighProtectionThreshold :: int where "kHighProtectionThreshold = 80"
definition kUnknownSsrc :: u32 where "kUnknownSsrc = 0"

lemmas generator_constants = kMaxExcessOverhead_def kMinMediaPackets_def kHighProtectionThreshold_def kUnknownSsrc_def
  kRedForFecHeaderLength_def

definition default_params :: FecProtectionParams where
  "default_params = \<lparr>fec_rate = 0, max_fec_frames = 0, fec_mask_type = kFecMaskRandom\<rparr>"

definition generator_with :: "fec_codec \<Rightarrow> int \<Rightarrow> int \<Rightarrow> UlpfecGenerator" where
  "generator_with fec red ulpfec =
     \<lparr>red_payload_type = red, gen_ulpfec_payload_type = ulpfec, gen_fec = fec, gen_media_packets = [], last_media_packet = None,
      gen_packets = [], num_protected_frames = 0, min_num_media_packets = 1,
      current_params = \<lparr>delta_params = default_params, keyframe_params = default_params\<rparr>,
      media_contains_keyframe = False, pending_params = None, fec_bitrate = []\<rparr>"

definition new_UlpfecGenerator :: "int \<Rightarrow> int \<Rightarrow> UlpfecGenerator" where
  "new_UlpfecGenerator = generator_with (CreateUlpfec kUnknownSsrc)"

definition SetProtectionParameters :: "bool \<Rightarrow> FecProtectionParams \<Rightarrow> FecProtectionParams \<Rightarrow> UlpfecGenerator \<Rightarrow> UlpfecGenerator res" where
  "SetProtectionParameters dchecks delta key g =
     RTC_DCHECK dchecks (fec_rate delta \<ge> 0) ''delta_params.fec_rate >= 0''
       (RTC_DCHECK dchecks (fec_rate delta \<le> 255) ''delta_params.fec_rate <= 255''
         (RTC_DCHECK dchecks (fec_rate key \<ge> 0) ''key_params.fec_rate >= 0''
           (RTC_DCHECK dchecks (fec_rate key \<le> 255) ''key_params.fec_rate <= 255''
             (Inr (g\<lparr>pending_params := Some \<lparr>delta_params = delta, keyframe_params = key\<rparr>\<rparr>)))))"

definition CurrentParams :: "UlpfecGenerator \<Rightarrow> FecProtectionParams" where
  "CurrentParams g =
     (if media_contains_keyframe g then keyframe_params (current_params g) else delta_params (current_params g))"

definition generator_ResetState :: "UlpfecGenerator \<Rightarrow> UlpfecGenerator" where
  "generator_ResetState g =
     g\<lparr>gen_media_packets := [], last_media_packet := None, gen_packets := [], num_protected_frames := 0,
       media_contains_keyframe := False\<rparr>"

definition Overhead :: "bool \<Rightarrow> UlpfecGenerator \<Rightarrow> int res" where
  "Overhead dchecks g =
     RTC_DCHECK dchecks (gen_media_packets g \<noteq> []) ''!media_packets_.empty()''
       (bind_res (NumFecPackets dchecks (int (length (gen_media_packets g))) (fec_rate (CurrentParams g))) (\<lambda>num_fec_packets.
         Inr (push_bit 8 num_fec_packets div int (length (gen_media_packets g)))))"

definition ExcessOverheadBelowMax :: "bool \<Rightarrow> UlpfecGenerator \<Rightarrow> bool res" where
  "ExcessOverheadBelowMax dchecks g =
     bind_res (Overhead dchecks g) (\<lambda>overhead. Inr (overhead - fec_rate (CurrentParams g) < kMaxExcessOverhead))"

text \<open>
  The average number of packets in a frame is compared as a float. With at most 48 packets the comparison with 2.0 is
  that of the exact quotient: a quotient below 2 is at most 2 - 1/24, or the number of frames is above 24 and it is below 1.92.
\<close>

definition MinimumMediaPacketsReached :: "UlpfecGenerator \<Rightarrow> bool" where
  "MinimumMediaPacketsReached g =
     (let num_media_packets = int (length (gen_media_packets g)) in
      if num_media_packets < 2 * num_protected_frames g then num_media_packets \<ge> min_num_media_packets g
      else num_media_packets \<ge> min_num_media_packets g + 1)"

text \<open>The new parameters take effect before the packet is looked at.\<close>

definition apply_pending :: "UlpfecGenerator \<Rightarrow> UlpfecGenerator" where
  "apply_pending g =
     (case pending_params g of
        None \<Rightarrow> g
      | Some ps \<Rightarrow>
          let g1 = g\<lparr>current_params := ps, pending_params := None\<rparr> in
          g1\<lparr>min_num_media_packets := (if fec_rate (CurrentParams g1) > kHighProtectionThreshold then kMinMediaPackets else 1)\<rparr>)"

definition buffer_packet :: "bool \<Rightarrow> RtpPacketToSend \<Rightarrow> UlpfecGenerator \<Rightarrow> UlpfecGenerator res" where
  "buffer_packet dchecks packet g =
     (if length (gen_media_packets g) < kUlpfecMaxMediaPackets then
        RTC_DCHECK dchecks (rtp_payload_offset packet \<ge> kRtpHeaderSize) ''packet.headers_size() >= kRtpHeaderSize''
          (Inr (g\<lparr>gen_media_packets := gen_media_packets g @ [rtp_buffer packet], last_media_packet := Some packet\<rparr>))
      else Inr g)"

text \<open>The bytes of the buffered packets, which the encoder reads.\<close>

fun read_packets :: "CopyOnWriteBuffer list \<Rightarrow> u8 list list res" where
  "read_packets [] = Inr []"
| "read_packets (b # bs) = bind_res (mem_values ''media_packet'' (cow_data b)) (\<lambda>m. bind_res (read_packets bs) (\<lambda>ms. Inr (m # ms)))"

definition generate :: "bool \<Rightarrow> UlpfecGenerator \<Rightarrow> UlpfecGenerator res" where
  "generate dchecks g =
     bind_res (read_packets (gen_media_packets g)) (\<lambda>media.
     bind_res
       (codec_EncodeFec dchecks media (word_of_int (fec_rate (CurrentParams g))) 0 False (fec_mask_type (CurrentParams g)) (gen_packets g) (gen_fec g))
       (\<lambda>(_, ps, fec).
         let g1 = g\<lparr>gen_packets := ps, gen_fec := fec\<rparr> in
         Inr (if ps = [] then generator_ResetState g1 else g1)))"

definition AddPacketAndGenerateFec :: "bool \<Rightarrow> RtpPacketToSend \<Rightarrow> UlpfecGenerator \<Rightarrow> UlpfecGenerator res" where
  "AddPacketAndGenerateFec dchecks packet g =
     RTC_DCHECK dchecks (gen_packets g = []) ''generated_fec_packets_.empty()''
       (let g1 = apply_pending g;
            g2 = (if is_key_frame packet then g1\<lparr>media_contains_keyframe := True\<rparr> else g1)
        in bind_res (buffer_packet dchecks packet g2) (\<lambda>g3.
             let g4 = (if rtp_marker packet then g3\<lparr>num_protected_frames := num_protected_frames g3 + 1\<rparr> else g3) in
             if \<not> rtp_marker packet then Inr g4
             else if num_protected_frames g4 \<ge> max_fec_frames (CurrentParams g4) then generate dchecks g4
             else bind_res (ExcessOverheadBelowMax dchecks g4) (\<lambda>below.
                    if below \<and> MinimumMediaPacketsReached g4 then generate dchecks g4 else Inr g4)))"

definition red_fec_packet :: "bool \<Rightarrow> UlpfecGenerator \<Rightarrow> RtpPacketToSend \<Rightarrow> CopyOnWriteBuffer \<Rightarrow> RtpPacketToSend res" where
  "red_fec_packet dchecks g last_packet fec =
     bind_res (SetPayloadType dchecks (word_of_int (red_payload_type g)) last_packet) (\<lambda>p1.
     bind_res (SetMarker False p1) (\<lambda>p2.
     bind_res (SetPayloadSize dchecks (kRedForFecHeaderLength + buffer_size fec) p2) (\<lambda>p3.
     bind_res (write_red (word_of_int (gen_ulpfec_payload_type g)) (cow_data fec) p3) (\<lambda>p4.
       Inr ((set_packet_type kForwardErrorCorrection p4)\<lparr>allow_retransmission := False, is_red := True, fec_protect_packet := False\<rparr>)))))"

fun red_fec_packets :: "bool \<Rightarrow> UlpfecGenerator \<Rightarrow> RtpPacketToSend \<Rightarrow> nat list \<Rightarrow> RtpPacketToSend list res" where
  "red_fec_packets dchecks g last_packet [] = Inr []"
| "red_fec_packets dchecks g last_packet (i # ixs) =
     bind_res (red_fec_packet dchecks g last_packet (generated_fec_packets (gen_fec g) ! i)) (\<lambda>p.
     bind_res (red_fec_packets dchecks g last_packet ixs) (\<lambda>ps. Inr (p # ps)))"

definition GetFecPackets :: "bool \<Rightarrow> int \<Rightarrow> UlpfecGenerator \<Rightarrow> (RtpPacketToSend list \<times> UlpfecGenerator) res" where
  "GetFecPackets dchecks now g =
     (if gen_packets g = [] then Inr ([], g)
      else
        RTC_CHECK (last_media_packet g \<noteq> None) ''last_media_packet_.has_value()''
          (bind_res (SetPayloadSize dchecks 0 (the (last_media_packet g))) (\<lambda>last_packet.
           bind_res (red_fec_packets dchecks g last_packet (gen_packets g)) (\<lambda>ps.
             let g1 = generator_ResetState g in
             Inr (ps, g1\<lparr>fec_bitrate := fec_bitrate g1 @ [(sum_list (map rtp_size ps), now)]\<rparr>)))))"

definition MaxPacketOverhead :: "UlpfecGenerator \<Rightarrow> nat" where
  "MaxPacketOverhead g = writer_MaxPacketOverhead (fec_header_writer (gen_fec g))"

section \<open>RED packets\<close>

lemma fill_red:
  assumes "cow_data (rtp_buffer p) = mem_of h" "rtp_payload_offset p = length h" "rtp_padding_size p = 0"
  shows "\<exists>cap. bind_res (SetPayloadSize dchecks (1 + length payload) p) (write_red bt (mem_of payload)) =
    Inr (p\<lparr>rtp_payload_size := 1 + length payload, rtp_buffer := \<lparr>cow_data = mem_of (h @ bt # payload), cow_capacity = cap\<rparr>\<rparr>)"
proof -
  let ?n = "length payload"
  obtain cap where p: "SetPayloadSize dchecks (1 + ?n) p = Inr (p\<lparr>rtp_payload_size := 1 + ?n,
      rtp_buffer := \<lparr>cow_data = mem_of h @ replicate (1 + ?n) None, cow_capacity = cap\<rparr>\<rparr>)"
    using SetPayloadSize_ok [OF assms, of dchecks "1 + ?n"] by blast
  have 1: "mem_store w (int (length h)) [Some bt] (mem_of h @ replicate (1 + ?n) None) = Inr (mem_of (h @ [bt]) @ replicate ?n None)" for w
    using store_fresh [OF refl, where bs = "[bt]" and n = "1 + ?n" and bytes = h and what = w] by (simp add: mem_of_def)
  have 2: "mem_store w (int (length h + 1)) (mem_of payload) (mem_of (h @ [bt]) @ replicate ?n None) = Inr (mem_of (h @ bt # payload))" for w
    using store_fresh [where bs = payload and n = ?n and bytes = "h @ [bt]" and what = w and i = "length h + 1"]
    by (simp add: mem_of_def del: of_nat_Suc)
  have "write_buffer (mem_store w (int (length h)) [Some bt]) (p\<lparr>rtp_payload_size := 1 + ?n,
      rtp_buffer := \<lparr>cow_data = mem_of h @ replicate (1 + ?n) None, cow_capacity = cap\<rparr>\<rparr>) =
      Inr (p\<lparr>rtp_payload_size := 1 + ?n, rtp_buffer := \<lparr>cow_data = mem_of (h @ [bt]) @ replicate ?n None, cow_capacity = cap\<rparr>\<rparr>)"
    "write_buffer (mem_store w (int (length h + 1)) (mem_of payload)) (p\<lparr>rtp_payload_size := 1 + ?n,
      rtp_buffer := \<lparr>cow_data = mem_of (h @ [bt]) @ replicate ?n None, cow_capacity = cap\<rparr>\<rparr>) =
      Inr (p\<lparr>rtp_payload_size := 1 + ?n, rtp_buffer := \<lparr>cow_data = mem_of (h @ bt # payload), cow_capacity = cap\<rparr>\<rparr>)" for w
    using 1 [of w] 2 [of w] by (simp_all add: write_buffer_def change_data_def)
  then show ?thesis
    unfolding p bind_res.simps write_red_def kRedForFecHeaderLength_def using assms(2) by auto
qed

text \<open>The bytes of the RED packet for the media packet \<open>bytes\<close> with a header of \<open>hs\<close> bytes.\<close>

definition red_bytes :: "nat \<Rightarrow> u8 \<Rightarrow> u8 list \<Rightarrow> u8 list" where
  "red_bytes hs pt bytes = (take hs bytes)[1 := (bytes ! 1 AND 0x80) OR pt] @ (bytes ! 1 AND 0x7f) # drop hs bytes"

text \<open>A packet without padding that holds its bytes.\<close>

definition media_packet :: "u8 list \<Rightarrow> 'a RtpPacket_scheme \<Rightarrow> bool" where
  "media_packet bytes p \<longleftrightarrow> rtp_holds bytes p \<and> rtp_payload_type p = bytes ! 1 AND 0x7f \<and> rtp_padding_size p = 0"

lemma media_packet_facts:
  assumes "media_packet bytes p"
  shows "cow_data (rtp_buffer p) = mem_of bytes" "12 \<le> rtp_payload_offset p" "rtp_payload_offset p + rtp_payload_size p = length bytes"
    "rtp_payload_offset p \<le> length bytes" "rtp_payload p = mem_of (drop (rtp_payload_offset p) bytes)"
    "list_all (entry_ok (rtp_payload_offset p)) (rtp_extension_entries p)"
  using assms by (auto simp: media_packet_def rtp_holds_def rtp_layout_def rtp_size_def rtp_payload_def)

text \<open>The packet with another payload and payload type.\<close>

lemma fill_payload:
  assumes "cow_data (rtp_buffer p) = mem_of bytes" "rtp_payload_offset p \<le> length bytes" "rtp_padding_size p = 0"
  shows "\<exists>cap. bind_res (AllocatePayload dchecks (1 + length payload) p) (write_red bt (mem_of payload)) =
    Inr (p\<lparr>rtp_payload_size := 1 + length payload,
      rtp_buffer := \<lparr>cow_data = mem_of (take (rtp_payload_offset p) bytes @ bt # payload), cow_capacity = cap\<rparr>\<rparr>)"
proof -
  let ?p = "with_bytes (take (rtp_payload_offset p) bytes) (p\<lparr>rtp_payload_size := 0\<rparr>)"
  have "\<exists>cap. bind_res (SetPayloadSize dchecks (1 + length payload) ?p) (write_red bt (mem_of payload)) =
      Inr (?p\<lparr>rtp_payload_size := 1 + length payload,
        rtp_buffer := \<lparr>cow_data = mem_of (take (rtp_payload_offset p) bytes @ bt # payload), cow_capacity = cap\<rparr>\<rparr>)"
    using assms by (intro fill_red) simp_all
  then show ?thesis
    using SetPayloadSize_0_ok [OF assms, of dchecks] by (simp add: AllocatePayload_def with_bytes_def)
qed

lemma make_red_ok:
  assumes p: "media_packet bytes p" and pt: "pt \<le> 0x7f"
  shows "\<exists>q. make_red dchecks pt p = Inr q \<and> rtp_holds (red_bytes (rtp_payload_offset p) pt bytes) q \<and> is_red q \<and>
    rtp_payload_type q = pt \<and> rtp_payload_offset q = rtp_payload_offset p \<and> rtp_payload_size q = rtp_payload_size p + 1 \<and> rtp_padding_size q = 0"
proof -
  note f = media_packet_facts [OF p]
  let ?hs = "rtp_payload_offset p" and ?b = "bytes ! 1 AND 0x7f"
  let ?rest = "?b # drop (rtp_payload_offset p) bytes"
  have len: "length (drop ?hs bytes) = rtp_payload_size p" using f(3) by simp
  have pad: "rtp_padding_size p = 0" and ty: "rtp_payload_type p = ?b" using p by (auto simp: media_packet_def)
  obtain cap where b: "BuildRedPayload dchecks p p = Inr (p\<lparr>rtp_payload_size := 1 + rtp_payload_size p,
      rtp_buffer := \<lparr>cow_data = mem_of (take ?hs bytes @ ?rest), cow_capacity = cap\<rparr>\<rparr>)"
    using fill_payload [OF f(1,4) pad, of dchecks "drop ?hs bytes" ?b] unfolding len BuildRedPayload_def kRedForFecHeaderLength_def f(5) ty
    by blast
  let ?q = "p\<lparr>rtp_payload_size := 1 + rtp_payload_size p, rtp_buffer := \<lparr>cow_data = mem_of (take ?hs bytes @ ?rest), cow_capacity = cap\<rparr>\<rparr>"
  have "(take ?hs bytes @ ?rest)[1 := ((take ?hs bytes @ ?rest) ! 1 AND 0x80) OR pt] = red_bytes ?hs pt bytes"
    using f(2,4) by (simp add: red_bytes_def list_update_append nth_append)
  then have "SetPayloadType dchecks pt ?q = Inr (with_bytes (red_bytes ?hs pt bytes) (?q\<lparr>rtp_payload_type := pt\<rparr>))"
    using SetPayloadType_ok [of ?q "take ?hs bytes @ ?rest" pt dchecks] pt f(2,4) by simp
  then show ?thesis
    unfolding make_red_def b bind_res.simps
    using f(2,3,6) pad
    by (auto simp: set_packet_type_def rtp_holds_def rtp_layout_def rtp_size_def red_bytes_def)
qed

lemma seven_and_one: "(b AND 0x80) OR (b AND 0x7f) = (b :: u8)" "(b AND 0x80) + (b AND 0x7f) = b"
proof -
  have "(0x80 OR 0x7f :: u8) = - 1" by simp
  then show or: "(b AND 0x80) OR (b AND 0x7f) = b" by (metis bit.conj_disj_distrib bit.conj_one_right)
  have "(b AND 0x80) AND (b AND 0x7f) = 0" by (simp add: and.assoc and.left_commute)
  then show "(b AND 0x80) + (b AND 0x7f) = b" using or by (simp add: disjunctive_add_eq_or)
qed

lemma high_bit_kept: "pt \<le> 0x7f \<Longrightarrow> ((b AND 0x80) OR pt) AND 0x80 = b AND (0x80 :: u8)"
proof -
  assume "pt \<le> 0x7f"
  then have "pt AND 0x7f = pt" using seven_bits by blast
  then have "pt AND 0x80 = (pt AND 0x7f) AND 0x80" by (rule subst) (rule refl)
  then have "pt AND 0x80 = 0" by (simp add: and.assoc)
  then show ?thesis by (simp add: bit.conj_disj_distrib2)
qed

lemma SetPayloadSize_shrink:
  assumes "cow_data (rtp_buffer p) = mem_of bytes" "rtp_payload_offset p + n \<le> length bytes" "rtp_padding_size p = 0"
  shows "SetPayloadSize dchecks n p = Inr (with_bytes (take (rtp_payload_offset p + n) bytes) (p\<lparr>rtp_payload_size := n\<rparr>))"
  using assms by (simp add: SetPayloadSize_def SetSize_def with_bytes_def)

text \<open>The media packet is found again in the RED packet.\<close>

lemma unpack_red_ok:
  assumes q: "rtp_holds (red_bytes hs pt bytes) q" "rtp_payload_offset q = hs" "rtp_padding_size q = 0"
    and hs: "12 \<le> hs" "hs \<le> length bytes" "pt \<le> 0x7f"
  shows "\<exists>p. unpack_red dchecks q = Inr p \<and> media_packet bytes p"
proof -
  let ?red = "red_bytes hs pt bytes" and ?b = "bytes ! 1 AND 0x7f"
  have red: "length ?red = length bytes + 1" "?red ! hs = ?b" "?red ! 1 = (bytes ! 1 AND 0x80) OR pt"
    "take hs ?red = (take hs bytes)[1 := (bytes ! 1 AND 0x80) OR pt]" "drop (hs + 1) ?red = drop hs bytes"
    using hs by (auto simp: red_bytes_def nth_append)
  have f: "cow_data (rtp_buffer q) = mem_of ?red" "rtp_payload_size q - 1 = length bytes - hs" "rtp_payload_size q = length bytes - hs + 1"
      "list_all (entry_ok hs) (rtp_extension_entries q)"
    using q hs red(1) by (auto simp: rtp_holds_def rtp_layout_def rtp_size_def)
  have b: "?b \<le> 0x7f" by (simp add: word_and_le1)
  have rd: "mem_read w (int hs) 1 (mem_of ?red) = Inr [?b]" "mem_load w (int (hs + 1)) (length bytes - hs) (mem_of ?red) = Inr (mem_of (drop hs bytes))" for w
  proof -
    show "mem_read w (int hs) 1 (mem_of ?red) = Inr [?b]" using hs red by (simp add: read_bytes)
    have "hs + 1 + (length bytes - hs) \<le> length (mem_of ?red)" using hs red(1) by simp
    from mem_load_nat [OF this, of w] show "mem_load w (int (hs + 1)) (length bytes - hs) (mem_of ?red) = Inr (mem_of (drop hs bytes))"
      using red(5) by simp
  qed
  define B where "B = ?red[1 := (?red ! 1 AND 0x80) OR ?b]"
  have B: "length B = length bytes + 1" "take hs B = take hs bytes"
    using hs red by (simp_all add: B_def high_bit_kept seven_and_one take_update_swap list_update_same_conv)
  have 1: "SetPayloadType dchecks ?b q = Inr (with_bytes B (q\<lparr>rtp_payload_type := ?b\<rparr>))"
    unfolding B_def using SetPayloadType_ok [OF f(1) _ b, of dchecks] hs red(1) by simp
  let ?q2 = "with_bytes (take (length bytes) B) (with_bytes B (q\<lparr>rtp_payload_type := ?b\<rparr>)\<lparr>rtp_payload_size := length bytes - hs\<rparr>)"
  have 2: "SetPayloadSize dchecks (length bytes - hs) (with_bytes B (q\<lparr>rtp_payload_type := ?b\<rparr>)) = Inr ?q2"
    using SetPayloadSize_shrink [of "with_bytes B (q\<lparr>rtp_payload_type := ?b\<rparr>)" B "length bytes - hs" dchecks] q hs B by simp
  have 3: "write_buffer (mem_store w (int hs) (mem_of (drop hs bytes))) ?q2 = Inr (with_bytes bytes ?q2)" for w
  proof (rule write_buffer_ok)
    have "overwrite hs (drop hs bytes) (take (length bytes) B) = bytes" using hs B by (simp add: overwrite_def)
    then show "mem_store w (int hs) (mem_of (drop hs bytes)) (mem_of (take (length bytes) B)) = Inr (mem_of bytes)"
      using hs B(1) store_bytes [of "int hs" "drop hs bytes" "take (length bytes) B" w] by simp
  qed simp
  have "unpack_red dchecks q = Inr (with_bytes bytes ?q2)"
    unfolding unpack_red_def f(1,2) q(2) rd(1) bind_res.simps list.sel 1 2 rd(2) using 3 q(2) by simp
  moreover have "media_packet bytes (with_bytes bytes ?q2)"
    using q f hs by (simp add: media_packet_def rtp_holds_def rtp_layout_def rtp_size_def)
  ultimately show ?thesis by blast
qed

section \<open>The FEC packets in RED packets\<close>

text \<open>The RED packet for the FEC packet \<open>wire\<close> behind the header \<open>h\<close> of the last media packet.\<close>

definition fec_red_bytes :: "u8 list \<Rightarrow> u8 \<Rightarrow> u8 \<Rightarrow> u8 list \<Rightarrow> u8 list" where
  "fec_red_bytes h red ulp wire = h[1 := red] @ ulp # wire"

definition red_types_ok :: "UlpfecGenerator \<Rightarrow> bool" where
  "red_types_ok g \<longleftrightarrow> 0 \<le> red_payload_type g \<and> red_payload_type g \<le> 127"

lemma seven_bit_int: "0 \<le> i \<Longrightarrow> i \<le> 127 \<Longrightarrow> (word_of_int i :: u8) \<le> 0x7f"
  by (simp add: word_le_def uint_word_of_int)

lemma red_fec_packet_ok:
  assumes p: "cow_data (rtp_buffer p) = mem_of h" "rtp_payload_offset p = length h" "rtp_padding_size p = 0" "12 \<le> length h"
      "list_all (entry_ok (length h)) (rtp_extension_entries p)"
    and g: "red_types_ok g" and fec: "cow_data fec = mem_of wire"
  shows "\<exists>q. red_fec_packet dchecks g p fec = Inr q \<and>
    rtp_holds (fec_red_bytes h (word_of_int (red_payload_type g)) (word_of_int (gen_ulpfec_payload_type g)) wire) q \<and>
    rtp_payload_offset q = length h \<and> rtp_ssrc q = rtp_ssrc p \<and> rtp_padding_size q = 0 \<and> \<not> rtp_marker q \<and>
    rtp_payload_type q = word_of_int (red_payload_type g) \<and> is_red q \<and> \<not> fec_protect_packet q \<and> \<not> allow_retransmission q"
proof -
  let ?pt = "word_of_int (red_payload_type g) :: u8" and ?ulp = "word_of_int (gen_ulpfec_payload_type g) :: u8"
  have pt: "?pt \<le> 0x7f" using g by (auto simp: red_types_ok_def seven_bit_int)
  let ?h1 = "h[1 := (h ! 1 AND 0x80) OR ?pt]"
  let ?p1 = "with_bytes ?h1 (p\<lparr>rtp_payload_type := ?pt\<rparr>)"
  have 1: "SetPayloadType dchecks ?pt p = Inr ?p1" using SetPayloadType_ok [OF p(1) _ pt, of dchecks] p(4) by simp
  have "((h ! 1 AND 0x80) OR ?pt) AND 0x7F = ?pt" using seven_bits [OF pt] by (simp add: bit.conj_disj_distrib2 and.assoc)
  then have "?h1[1 := ?h1 ! 1 AND 0x7F] = h[1 := ?pt]" using p(4) by simp
  then have 2: "SetMarker False ?p1 = Inr (with_bytes (h[1 := ?pt]) (?p1\<lparr>rtp_marker := False\<rparr>))" (is "_ = Inr ?p2")
    using SetMarker_ok [of ?p1 ?h1 False] p(4) by simp
  have "\<exists>cap. bind_res (SetPayloadSize dchecks (1 + length wire) ?p2) (write_red ?ulp (mem_of wire)) =
      Inr (?p2\<lparr>rtp_payload_size := 1 + length wire, rtp_buffer := \<lparr>cow_data = mem_of (h[1 := ?pt] @ ?ulp # wire), cow_capacity = cap\<rparr>\<rparr>)"
    using p by (intro fill_red) simp_all
  then obtain cap where 3: "bind_res (SetPayloadSize dchecks (1 + length wire) ?p2) (write_red ?ulp (mem_of wire)) =
      Inr (?p2\<lparr>rtp_payload_size := 1 + length wire, rtp_buffer := \<lparr>cow_data = mem_of (h[1 := ?pt] @ ?ulp # wire), cow_capacity = cap\<rparr>\<rparr>)"
    (is "_ = Inr ?p4") by blast
  have "red_fec_packet dchecks g p fec =
      Inr ((set_packet_type kForwardErrorCorrection ?p4)\<lparr>allow_retransmission := False, is_red := True, fec_protect_packet := False\<rparr>)"
    unfolding red_fec_packet_def 1 2 bind_res.simps fec length_mem_of kRedForFecHeaderLength_def bind_res_assoc [symmetric] 3 by simp
  then show ?thesis
    using p by (simp add: set_packet_type_def rtp_holds_def rtp_layout_def rtp_size_def fec_red_bytes_def)
qed

lemma red_fec_packets_ok:
  assumes p: "cow_data (rtp_buffer p) = mem_of h" "rtp_payload_offset p = length h" "rtp_padding_size p = 0" "12 \<le> length h"
      "list_all (entry_ok (length h)) (rtp_extension_entries p)"
    and g: "red_types_ok g" and fec: "\<And>i. i \<in> set ixs \<Longrightarrow> cow_data (generated_fec_packets (gen_fec g) ! i) = mem_of (wire i)"
  shows "\<exists>qs. red_fec_packets dchecks g p ixs = Inr qs \<and> list_all2 (\<lambda>i q.
    rtp_holds (fec_red_bytes h (word_of_int (red_payload_type g)) (word_of_int (gen_ulpfec_payload_type g)) (wire i)) q \<and>
    rtp_ssrc q = rtp_ssrc p \<and> is_red q) ixs qs"
  using fec
proof (induction ixs)
  case (Cons i ixs)
  from red_fec_packet_ok [OF p g Cons.prems [of i], of dchecks] obtain q where
    "red_fec_packet dchecks g p (generated_fec_packets (gen_fec g) ! i) = Inr q"
    "rtp_holds (fec_red_bytes h (word_of_int (red_payload_type g)) (word_of_int (gen_ulpfec_payload_type g)) (wire i)) q"
    "rtp_ssrc q = rtp_ssrc p" "is_red q" by auto
  then show ?case using Cons by auto
qed simp

section \<open>A frame through the generator\<close>

fun add_packets :: "bool \<Rightarrow> RtpPacketToSend list \<Rightarrow> UlpfecGenerator \<Rightarrow> UlpfecGenerator res" where
  "add_packets dchecks [] g = Inr g"
| "add_packets dchecks (p # ps) g = bind_res (AddPacketAndGenerateFec dchecks p g) (add_packets dchecks ps)"

text \<open>The generator with more packets in its group.\<close>

definition collected :: "RtpPacketToSend list \<Rightarrow> UlpfecGenerator \<Rightarrow> UlpfecGenerator" where
  "collected ps g =
     g\<lparr>gen_media_packets := gen_media_packets g @ map rtp_buffer ps,
       last_media_packet := (if ps = [] then last_media_packet g else Some (last ps)),
       media_contains_keyframe := (media_contains_keyframe g \<or> (\<exists>p \<in> set ps. is_key_frame p))\<rparr>"

lemma collected_simps:
  "collected [] g = g"
  "gen_packets (collected ps g) = gen_packets g" "pending_params (collected ps g) = pending_params g"
  "length (gen_media_packets (collected ps g)) = length (gen_media_packets g) + length ps"
  by (auto simp: collected_def)

lemma collected_append: "collected qs (collected ps g) = collected (ps @ qs) g"
  by (simp add: collected_def bex_Un disj_assoc)

lemma buffer_packet_ok:
  assumes "12 \<le> rtp_payload_offset p" "gen_packets g = []" "pending_params g = None" "length (gen_media_packets g) < 48"
  shows "AddPacketAndGenerateFec dchecks p g =
    (let g4 = (if rtp_marker p then (collected [p] g)\<lparr>num_protected_frames := num_protected_frames g + 1\<rparr> else collected [p] g) in
     if \<not> rtp_marker p then Inr g4
     else if num_protected_frames g4 \<ge> max_fec_frames (CurrentParams g4) then generate dchecks g4
     else bind_res (ExcessOverheadBelowMax dchecks g4) (\<lambda>below.
            if below \<and> MinimumMediaPacketsReached g4 then generate dchecks g4 else Inr g4))"
proof -
  have "buffer_packet dchecks p (if is_key_frame p then g\<lparr>media_contains_keyframe := True\<rparr> else g) = Inr (collected [p] g)"
    using assms by (auto simp: buffer_packet_def collected_def kUlpfecMaxMediaPackets_def kRtpHeaderSize_def)
  moreover have "num_protected_frames (collected [p] g) = num_protected_frames g" by (simp add: collected_def)
  ultimately show ?thesis
    using assms by (simp add: AddPacketAndGenerateFec_def apply_pending_def Let_def cong: if_cong)
qed

lemma add_open_packets:
  "\<forall>p \<in> set ps. 12 \<le> rtp_payload_offset p \<and> \<not> rtp_marker p \<Longrightarrow> gen_packets g = [] \<Longrightarrow> pending_params g = None \<Longrightarrow>
   length (gen_media_packets g) + length ps \<le> 48 \<Longrightarrow> add_packets dchecks ps g = Inr (collected ps g)"
proof (induction ps arbitrary: g)
  case (Cons p ps)
  have "AddPacketAndGenerateFec dchecks p g = Inr (collected [p] g)"
    using Cons.prems by (subst buffer_packet_ok) auto
  then show ?case using Cons by (simp add: collected_simps collected_append)
qed (simp add: collected_simps)

text \<open>A generator between two groups, and the parameters for a frame.\<close>

definition idle :: "UlpfecGenerator \<Rightarrow> bool" where
  "idle g \<longleftrightarrow> gen_media_packets g = [] \<and> gen_packets g = [] \<and> num_protected_frames g = 0 \<and> \<not> media_contains_keyframe g \<and> pending_params g = None"

definition params_for :: "UlpfecGenerator \<Rightarrow> RtpPacketToSend list \<Rightarrow> FecProtectionParams" where
  "params_for g ps = (if \<exists>p \<in> set ps. is_key_frame p then keyframe_params (current_params g) else delta_params (current_params g))"

text \<open>The packets of one frame, with their bytes: the marker is on the last packet only.\<close>

definition frame_of :: "u8 list list \<Rightarrow> RtpPacketToSend list \<Rightarrow> bool" where
  "frame_of media ps \<longleftrightarrow> ps \<noteq> [] \<and> list_all2 media_packet media ps \<and> rtp_marker (last ps) \<and> (\<forall>p \<in> set (butlast ps). \<not> rtp_marker p)"

text \<open>
  A frame of \<open>n\<close> packets ends the group if groups have one frame, or if the overhead in 1/256 is less than 50 above the
  rate and there are enough packets: one more than the minimum from two packets on.
\<close>

definition frame_ends_group :: "int \<Rightarrow> FecProtectionParams \<Rightarrow> nat \<Rightarrow> bool" where
  "frame_ends_group min_packets prm n \<longleftrightarrow> max_fec_frames prm \<le> 1 \<or>
     (256 * int (fec_count n (nat (fec_rate prm))) div int n < fec_rate prm + 50 \<and>
      min_packets + (if n < 2 then 0 else 1) \<le> int n)"

lemma read_packets_ok: "list_all2 media_packet media ps \<Longrightarrow> read_packets (map rtp_buffer ps) = Inr media"
  by (induction rule: list_all2_induct) (simp_all add: media_packet_facts(1))

lemma add_packets_append: "add_packets dchecks (ps @ qs) g = bind_res (add_packets dchecks ps g) (add_packets dchecks qs)"
proof (induction ps arbitrary: g)
  case (Cons p ps)
  then show ?case by (cases "AddPacketAndGenerateFec dchecks p g") simp_all
qed simp

lemma frame_collected:
  assumes g: "idle g" and ps: "frame_of media ps" "length ps \<le> 48"
    and rate: "0 \<le> fec_rate (params_for g ps)" "fec_rate (params_for g ps) \<le> 255"
    and ends: "frame_ends_group (min_num_media_packets g) (params_for g ps) (length ps)"
  shows "add_packets dchecks ps g = generate dchecks ((collected ps g)\<lparr>num_protected_frames := 1\<rparr>)"
proof -
  let ?g4 = "(collected ps g)\<lparr>num_protected_frames := 1\<rparr>" and ?n = "length ps" and ?prm = "params_for g ps"
  have ne: "ps \<noteq> []" "0 < ?n" using ps(1) by (auto simp: frame_of_def)
  have off: "\<forall>p \<in> set ps. 12 \<le> rtp_payload_offset p"
  proof
    fix p assume "p \<in> set ps"
    then obtain i where "i < length ps" "p = ps ! i" by (auto simp: in_set_conv_nth)
    then show "12 \<le> rtp_payload_offset p"
      using ps(1) media_packet_facts(2) list_all2_nthD2 unfolding frame_of_def by blast
  qed
  have idle: "gen_packets g = []" "pending_params g = None" "gen_media_packets g = []" "num_protected_frames g = 0" "\<not> media_contains_keyframe g"
    using g by (auto simp: idle_def)
  let ?a = "butlast ps" and ?z = "last ps"
  have "add_packets dchecks ?a g = Inr (collected ?a g)"
    using ps off ne idle by (intro add_open_packets) (auto simp: frame_of_def in_set_butlastD)
  moreover have "add_packets dchecks [?z] (collected ?a g) = AddPacketAndGenerateFec dchecks ?z (collected ?a g)"
    by (cases "AddPacketAndGenerateFec dchecks ?z (collected ?a g)") simp_all
  moreover have "?a @ [?z] = ps" using ne by simp
  ultimately have "add_packets dchecks ps g = AddPacketAndGenerateFec dchecks ?z (collected ?a g)"
    using add_packets_append [of dchecks ?a "[?z]" g] by simp
  moreover have "AddPacketAndGenerateFec dchecks ?z (collected ?a g) =
      (if 1 \<ge> max_fec_frames (CurrentParams ?g4) then generate dchecks ?g4
       else bind_res (ExcessOverheadBelowMax dchecks ?g4) (\<lambda>below.
            if below \<and> MinimumMediaPacketsReached ?g4 then generate dchecks ?g4 else Inr ?g4))"
  proof -
    have "collected [?z] (collected ?a g) = collected ps g"
      using collected_append [of "[?z]" ?a g] ne by simp
    moreover have "num_protected_frames (collected ?a g) = 0" by (simp add: collected_def idle)
    ultimately show ?thesis
      using ps ne off idle by (subst buffer_packet_ok) (simp_all add: frame_of_def collected_simps Let_def)
  qed
  moreover have prm: "CurrentParams ?g4 = ?prm" by (auto simp: CurrentParams_def params_for_def collected_def idle)
  moreover have "ExcessOverheadBelowMax dchecks ?g4 = Inr (256 * int (fec_count ?n (nat (fec_rate ?prm))) div int ?n < fec_rate ?prm + 50)"
  proof -
    have "gen_media_packets ?g4 = map rtp_buffer ps" by (simp add: collected_def idle)
    then show ?thesis
      using NumFecPackets_eq [of ?n "nat (fec_rate ?prm)" dchecks] ne rate
      by (simp add: ExcessOverheadBelowMax_def Overhead_def prm push_bit_eq_mult mult.commute kMaxExcessOverhead_def diff_less_eq add.commute)
  qed
  moreover have "MinimumMediaPacketsReached ?g4 \<longleftrightarrow> min_num_media_packets g + (if ?n < 2 then 0 else 1) \<le> int ?n"
    by (auto simp: MinimumMediaPacketsReached_def Let_def collected_def idle)
  ultimately show ?thesis using ends by (auto simp: frame_ends_group_def)
qed

text \<open>What a FEC packet \<open>wire\<close> of the stream \<open>fs\<close> for row \<open>r\<close> of the mask says to a reader.\<close>

definition reads_as_row :: "FecHeaderReader \<Rightarrow> bool \<Rightarrow> u32 \<Rightarrow> u32 \<Rightarrow> u16 \<Rightarrow> (nat \<Rightarrow> nat) \<Rightarrow> u8 list list \<Rightarrow> nat \<Rightarrow> FecMaskType \<Rightarrow> nat \<Rightarrow> u8 list \<Rightarrow> bool" where
  "reads_as_row reader dchecks fs s s0 d media m ty r wire \<longleftrightarrow>
     (\<forall>p. cow_data (fec_pkt p) = mem_of wire \<longrightarrow> ssrc p = fs \<longrightarrow>
       (\<exists>f. ReadFecHeader reader dchecks p = Inr (Some f) \<and>
         fec_packet_for s (selected (encoder_mask (picked_type ty (length media)) (length media) m 0 False) r s0 d media) f))"

lemma frame_bytes:
  assumes "frame_of media ps" "p \<in> set media"
  shows "12 \<le> length p"
proof -
  from assms(2) obtain i where "i < length media" "p = media ! i" by (auto simp: in_set_conv_nth)
  then have "media_packet p (ps ! i)" using assms(1) by (auto simp: frame_of_def list_all2_conv_all_nth)
  then show ?thesis using media_packet_facts(2,4) le_trans by blast
qed

context fec_header_format
begin

lemma frame_encoded:
  assumes g: "idle g" "codec_ready writer (gen_fec g)"
    and ps: "frame_of media ps" "n = length media" "n \<le> 48"
    and num: "numbered s0 d media" and lens: "\<And>p. p \<in> set media \<Longrightarrow> length p < 2 ^ 16" and s: "ParseSsrc (hd media) = Inr s" "ssrcs fs s"
    and prm: "prm = params_for g ps" "0 < fec_rate prm" "fec_rate prm \<le> 255"
    and ends: "frame_ends_group (min_num_media_packets g) prm n" and m: "m = fec_count n (nat (fec_rate prm))"
  shows "\<exists>c' wire. add_packets dchecks ps g = Inr ((collected ps g)\<lparr>num_protected_frames := 1, gen_packets := [0..<m], gen_fec := c'\<rparr>) \<and>
    codec_ready writer c' \<and> (\<forall>r < m. cow_data (generated_fec_packets c' ! r) = mem_of (wire r) \<and>
      reads_as_row reader dchecks fs s s0 d media m (fec_mask_type prm) r (wire r))"
proof -
  let ?rate = "word_of_int (fec_rate prm) :: u8" and ?g4 = "(collected ps g)\<lparr>num_protected_frames := 1\<rparr>"
  have lps: "length ps = n" "0 < n" using ps(1,2) by (auto simp: frame_of_def dest: list_all2_lengthD)
  have m12: "12 \<le> length p \<and> length p < 2 ^ 16" if "p \<in> set media" for p using that frame_bytes [OF ps(1)] lens by blast
  have u: "unat ?rate = nat (fec_rate prm)" "0 < ?rate"
    using prm(2,3) by (auto simp: unat_eq_nat_uint uint_word_of_int word_less_def)
  have mu: "m = fec_count n (unat ?rate)" by (simp add: m u)
  let ?sel = "\<lambda>r. selected (encoder_mask (picked_type (fec_mask_type prm) (length media)) (length media) m 0 False) r s0 d media"
  from EncodeFec_correct [OF g(2) num ps(2) lps(2) ps(3) m12 _ u(2) mu s(1), where uep = False and imp = 0 and ty = "fec_mask_type prm" and dchecks = dchecks]
  obtain c' where e: "codec_EncodeFec dchecks media ?rate 0 False (fec_mask_type prm) [] (gen_fec g) = Inr (0, [0..<m], c')" "codec_ready writer c'"
    and w0: "\<forall>r < m. \<exists>wire cap. generated_fec_packets c' ! r = \<lparr>cow_data = mem_of wire, cow_capacity = cap\<rparr> \<and>
      (\<forall>p. cow_data (fec_pkt p) = mem_of wire \<longrightarrow> ssrcs (ssrc p) s \<longrightarrow>
        (\<exists>q. ReadFecHeader reader dchecks p = Inr (Some q) \<and> fec_packet_for s (?sel r) q))"
    unfolding ps(2) by auto
  have w: "\<forall>r < m. \<exists>wire cap. generated_fec_packets c' ! r = \<lparr>cow_data = mem_of wire, cow_capacity = cap\<rparr> \<and>
      reads_as_row reader dchecks fs s s0 d media m (fec_mask_type prm) r wire"
  proof (intro allI impI)
    fix r assume "r < m"
    with w0 obtain wire cap where "generated_fec_packets c' ! r = \<lparr>cow_data = mem_of wire, cow_capacity = cap\<rparr>"
      "\<And>p. cow_data (fec_pkt p) = mem_of wire \<Longrightarrow> ssrcs (ssrc p) s \<Longrightarrow> \<exists>q. ReadFecHeader reader dchecks p = Inr (Some q) \<and> fec_packet_for s (?sel r) q"
      by blast
    then show "\<exists>wire cap. generated_fec_packets c' ! r = \<lparr>cow_data = mem_of wire, cow_capacity = cap\<rparr> \<and>
        reads_as_row reader dchecks fs s s0 d media m (fec_mask_type prm) r wire"
      unfolding reads_as_row_def using s(2) by (intro exI [of _ wire] exI [of _ cap]) simp
  qed
  from w have "\<forall>r. \<exists>wire. r < m \<longrightarrow> cow_data (generated_fec_packets c' ! r) = mem_of wire \<and>
      reads_as_row reader dchecks fs s s0 d media m (fec_mask_type prm) r wire" by (metis CopyOnWriteBuffer.select_convs(1))
  then obtain wire where wire: "\<forall>r < m. cow_data (generated_fec_packets c' ! r) = mem_of (wire r) \<and>
      reads_as_row reader dchecks fs s s0 d media m (fec_mask_type prm) r (wire r)" by metis
  have idle: "gen_packets g = []" "gen_media_packets g = []" "\<not> media_contains_keyframe g" using g(1) by (auto simp: idle_def)
  have "0 < m" using prm(2) by (simp add: m fec_count_def)
  moreover have "CurrentParams ?g4 = prm" by (auto simp: prm CurrentParams_def params_for_def collected_def idle)
  moreover have "read_packets (gen_media_packets ?g4) = Inr media"
    using ps(1) read_packets_ok [of media ps] by (simp add: collected_def idle frame_of_def)
  moreover have "gen_packets ?g4 = []" "gen_fec ?g4 = gen_fec g" by (simp_all add: collected_def idle)
  ultimately have "generate dchecks ?g4 = Inr ((collected ps g)\<lparr>num_protected_frames := 1, gen_packets := [0..<m], gen_fec := c'\<rparr>)"
    unfolding generate_def using e(1) by (simp add: Let_def)
  moreover have "add_packets dchecks ps g = generate dchecks ?g4"
    using g(1) ps lps prm ends by (intro frame_collected) auto
  ultimately show ?thesis using e(2) wire by auto
qed

text \<open>A FEC packet that names a known packet has at least a header and at most 32 bytes more than that packet's payload.\<close>

lemma wire_length:
  assumes "reads_as_row reader dchecks fs s s0 d media m ty r wire" "\<And>p. p \<in> set media \<Longrightarrow> length p \<le> k"
  shows "12 \<le> length wire \<and> length wire \<le> 32 + (k - 12)"
proof -
  define p where "p = \<lparr>ssrc = fs, seq_num = 0, protected_packets = [], protected_streams = [], fec_header_size = 0, protection_length = 0,
    fec_pkt = buffer_of wire\<rparr>"
  have "cow_data (fec_pkt p) = mem_of wire" "ssrc p = fs" by (simp_all add: p_def buffer_of_def)
  with assms(1) reader_total [of p wire dchecks] obtain f where
    f: "header_parsed p wire f" "fec_packet_for s (selected (encoder_mask (picked_type ty (length media)) (length media) m 0 False) r s0 d media) f"
    unfolding reads_as_row_def by fastforce
  from f(2) obtain data sn q where q: "cow_data (fec_pkt f) = mem_of data" "12 \<le> fec_header_size f" "fec_header_size f \<le> 32"
    "(sn, q) \<in> set (selected (encoder_mask (picked_type ty (length media)) (length media) m 0 False) r s0 d media)"
    "length data = fec_header_size f + (length q - 12)"
    unfolding fec_packet_for_def by blast
  moreover have "length data = length wire" using f(1) q(1) by (auto simp: header_parsed_def)
  moreover have "q \<in> set media" using q(4) by (auto simp: selected_def)
  ultimately show ?thesis using assms(2) [of q] by auto
qed

end

lemma fec_handed_out:
  assumes g1: "gen_packets g1 = [0..<m]" "0 < m" "last_media_packet g1 = Some z" "pending_params g1 = None" "red_types_ok g1"
    and z: "media_packet b z" "h = take (rtp_payload_offset z) b"
    and wire: "\<forall>r < m. cow_data (generated_fec_packets (gen_fec g1) ! r) = mem_of (wire r)"
  shows "\<exists>fs g2. GetFecPackets dchecks now g1 = Inr (fs, g2) \<and> idle g2 \<and> gen_fec g2 = gen_fec g1 \<and> length fs = m \<and>
    (\<forall>r < m. is_red (fs ! r) \<and>
      rtp_holds (fec_red_bytes h (word_of_int (red_payload_type g1)) (word_of_int (gen_ulpfec_payload_type g1)) (wire r)) (fs ! r))"
proof -
  note zf = media_packet_facts [OF z(1)]
  have pad: "rtp_padding_size z = 0" using z(1) by (simp add: media_packet_def)
  define p where "p = with_bytes h (z\<lparr>rtp_payload_size := 0\<rparr>)"
  have p0: "SetPayloadSize dchecks 0 z = Inr p" unfolding p_def z(2) using SetPayloadSize_0_ok [OF zf(1,4) pad] .
  have p: "cow_data (rtp_buffer p) = mem_of h" "rtp_payload_offset p = length h" "rtp_padding_size p = 0" "12 \<le> length h"
      "list_all (entry_ok (length h)) (rtp_extension_entries p)"
    using zf pad z(2) by (simp_all add: p_def min_absorb2)
  have "\<And>i. i \<in> set [0..<m] \<Longrightarrow> cow_data (generated_fec_packets (gen_fec g1) ! i) = mem_of (wire i)" using wire by auto
  from red_fec_packets_ok [OF p g1(5), where dchecks = dchecks and wire = wire and ixs = "[0..<m]", OF this] obtain fs where
    fs: "red_fec_packets dchecks g1 p [0..<m] = Inr fs" "list_all2 (\<lambda>i q.
      rtp_holds (fec_red_bytes h (word_of_int (red_payload_type g1)) (word_of_int (gen_ulpfec_payload_type g1)) (wire i)) q \<and>
      rtp_ssrc q = rtp_ssrc p \<and> is_red q) [0..<m] fs" by blast
  let ?g2 = "(generator_ResetState g1)\<lparr>fec_bitrate := fec_bitrate (generator_ResetState g1) @ [(sum_list (map rtp_size fs), now)]\<rparr>"
  have "GetFecPackets dchecks now g1 = Inr (fs, ?g2)"
    using g1 p0 fs(1) by (simp add: GetFecPackets_def RTC_CHECK_def Let_def)
  moreover have "idle ?g2" "gen_fec ?g2 = gen_fec g1" using g1(4) by (simp_all add: idle_def generator_ResetState_def)
  moreover have "length fs = m" using list_all2_lengthD [OF fs(2)] by simp
  moreover have "\<forall>r < m. is_red (fs ! r) \<and>
      rtp_holds (fec_red_bytes h (word_of_int (red_payload_type g1)) (word_of_int (gen_ulpfec_payload_type g1)) (wire r)) (fs ! r)"
    using list_all2_nthD [OF fs(2)] by auto
  ultimately show ?thesis by blast
qed

lemma generator_frame:
  assumes g: "idle g" "codec_ready UlpfecHeaderWriter (gen_fec g)" "red_types_ok g"
    and ps: "frame_of media ps" "n = length media" "n \<le> 48"
    and num: "numbered s0 d media" and lens: "\<And>p. p \<in> set media \<Longrightarrow> length p < 2 ^ 16" and s: "ParseSsrc (hd media) = Inr s"
    and prm: "prm = params_for g ps" "0 < fec_rate prm" "fec_rate prm \<le> 255"
    and ends: "frame_ends_group (min_num_media_packets g) prm n" and m: "m = fec_count n (nat (fec_rate prm))"
  shows "\<exists>g1 fs g2. add_packets dchecks ps g = Inr g1 \<and> GetFecPackets dchecks now g1 = Inr (fs, g2) \<and> idle g2 \<and>
    codec_ready UlpfecHeaderWriter (gen_fec g2) \<and> length fs = m \<and>
    (\<forall>r < m. \<exists>wire. is_red (fs ! r) \<and> rtp_holds (fec_red_bytes (take (rtp_payload_offset (last ps)) (last media))
        (word_of_int (red_payload_type g)) (word_of_int (gen_ulpfec_payload_type g)) wire) (fs ! r) \<and>
      reads_as_row UlpfecHeaderReader dchecks s s s0 d media m (fec_mask_type prm) r wire)"
proof -
  from ulpfec.frame_encoded [OF g(1,2) ps num lens s refl prm ends m, of dchecks] obtain c' wire where
    e: "add_packets dchecks ps g = Inr ((collected ps g)\<lparr>num_protected_frames := 1, gen_packets := [0..<m], gen_fec := c'\<rparr>)"
      "codec_ready UlpfecHeaderWriter c'" "\<forall>r < m. cow_data (generated_fec_packets c' ! r) = mem_of (wire r) \<and>
      reads_as_row UlpfecHeaderReader dchecks s s s0 d media m (fec_mask_type prm) r (wire r)" by blast
  define g1 where "g1 = (collected ps g)\<lparr>num_protected_frames := 1, gen_packets := [0..<m], gen_fec := c'\<rparr>"
  have "ps \<noteq> []" "media \<noteq> []" "length ps = length media" using ps(1) by (auto simp: frame_of_def dest: list_all2_lengthD)
  then have z: "media_packet (last media) (last ps)" "last_media_packet g1 = Some (last ps)"
    using ps(1) by (auto simp: frame_of_def last_conv_nth list_all2_conv_all_nth g1_def collected_def)
  have g1: "gen_packets g1 = [0..<m]" "0 < m" "pending_params g1 = None" "red_types_ok g1" "gen_fec g1 = c'"
      "red_payload_type g1 = red_payload_type g" "gen_ulpfec_payload_type g1 = gen_ulpfec_payload_type g"
    using g prm(2) m by (auto simp: g1_def collected_def idle_def red_types_ok_def fec_count_def)
  have "\<forall>r < m. cow_data (generated_fec_packets (gen_fec g1) ! r) = mem_of (wire r)" using e(3) g1(5) by simp
  from fec_handed_out [OF g1(1,2) z(2) g1(3,4) z(1) refl this, of dchecks now] obtain fs g2 where
    "GetFecPackets dchecks now g1 = Inr (fs, g2)" "idle g2" "gen_fec g2 = c'" "length fs = m"
    "\<forall>r < m. is_red (fs ! r) \<and> rtp_holds (fec_red_bytes (take (rtp_payload_offset (last ps)) (last media))
        (word_of_int (red_payload_type g)) (word_of_int (gen_ulpfec_payload_type g)) (wire r)) (fs ! r)"
    unfolding g1(5,6,7) by blast
  then show ?thesis using e by (intro exI [of _ g1] exI [of _ fs] exI [of _ g2]) (auto simp: g1_def)
qed

end
