(* ===== verification/Ulpfec_Receiver.thy ===== *)
theory Ulpfec_Receiver
  imports Rtp_Packet Decoder_Safe
begin

text \<open>
  The ULPFEC receiver (\<^verbatim>\<open>ulpfec_receiver.cc\<close>, \<^verbatim>\<open>ulpfec_receiver.h\<close>): it strips the RED header off received RTP packets,
  passes the media packets on, feeds media and FEC packets to the decoder and passes on what the decoder recovers.
  The packets given to \<open>OnRecoveredPacket\<close> are the output of the model, in order; a callback that calls back into the
  receiver is not modelled. The counters are unbounded here.
\<close>

section \<open>Received packets\<close>

record RtpPacketReceived = RtpPacket +
  rtp_recovered :: bool

definition new_RtpPacketReceived :: "bool \<Rightarrow> RtpHeaderExtensionMap option \<Rightarrow> RtpPacketReceived res" where
  "new_RtpPacketReceived dchecks exts =
     bind_res (new_RtpPacket dchecks (case exts of Some e \<Rightarrow> e | None \<Rightarrow> new_RtpHeaderExtensionMap False) kDefaultPacketSize) (\<lambda>p.
       Inr (RtpPacket.extend p (RtpPacketReceived.fields False)))"

text \<open>The fields of \<open>ReceivedPacket\<close> that the decoder does not read.\<close>

record UlpfecReceivedPacket = ReceivedPacket +
  is_recovered :: bool
  received_extensions :: RtpHeaderExtensionMap

section \<open>Buffers\<close>

definition Slice :: "bool \<Rightarrow> nat \<Rightarrow> nat \<Rightarrow> CopyOnWriteBuffer \<Rightarrow> CopyOnWriteBuffer res" where
  "Slice dchecks offset len b =
     RTC_DCHECK dchecks (offset \<le> buffer_size b) ''offset <= size_''
       (RTC_DCHECK dchecks (len + offset \<le> buffer_size b) ''length + offset <= size_''
         (bind_res (mem_load ''buffer_'' (int offset) len (cow_data b)) (\<lambda>d.
           Inr \<lparr>cow_data = d, cow_capacity = cow_capacity b - offset\<rparr>)))"

definition AppendData :: "mem \<Rightarrow> CopyOnWriteBuffer \<Rightarrow> CopyOnWriteBuffer" where
  "AppendData d b = \<lparr>cow_data = cow_data b @ d, cow_capacity = max (cow_capacity b) (buffer_size b + length d)\<rparr>"

section \<open>The receiver\<close>

record FecPacketCounter =
  num_packets :: nat
  num_bytes :: nat
  num_fec_packets :: nat
  num_recovered_packets :: nat
  first_packet_time :: "int option"

record UlpfecReceiver =
  ulp_ssrc :: u32
  ulp_payload_type :: int
  ulp_fec :: fec_codec
  ulp_received_packets :: "UlpfecReceivedPacket list"
  ulp_recovered_packets :: "RecoveredPacket list"
  packet_counter :: FecPacketCounter

definition new_UlpfecReceiver :: "bool \<Rightarrow> u32 \<Rightarrow> int \<Rightarrow> UlpfecReceiver res" where
  "new_UlpfecReceiver dchecks s payload_type =
     RTC_DCHECK dchecks (payload_type \<ge> -1) ''ulpfec_payload_type_ >= -1''
       (Inr \<lparr>ulp_ssrc = s, ulp_payload_type = payload_type, ulp_fec = CreateUlpfec s, ulp_received_packets = [],
             ulp_recovered_packets = [],
             packet_counter = \<lparr>num_packets = 0, num_bytes = 0, num_fec_packets = 0, num_recovered_packets = 0, first_packet_time = None\<rparr>\<rparr>)"

definition GetPacketCounter :: "UlpfecReceiver \<Rightarrow> FecPacketCounter" where
  "GetPacketCounter r = packet_counter r"

definition kRedHeaderLength :: nat where "kRedHeaderLength = 1"

text \<open>The bytes of a media packet without the RED header, with the payload type of the block.\<close>

definition strip_red :: "RtpPacketReceived \<Rightarrow> u8 \<Rightarrow> CopyOnWriteBuffer res" where
  "strip_red p payload_type =
     (let data0 = EnsureCapacity (rtp_size p - kRedHeaderLength) empty_buffer; hs = rtp_payload_offset p in
      bind_res (mem_load ''data'' 0 hs (cow_data (rtp_buffer p))) (\<lambda>h.
      bind_res (change_data (modify_byte 1 (\<lambda>b. (b AND 0x80) + payload_type)) (SetData h data0)) (\<lambda>data1.
      bind_res (mem_load ''data'' (int (hs + kRedHeaderLength)) (rtp_size p - hs - kRedHeaderLength) (cow_data (rtp_buffer p))) (\<lambda>rest.
        Inr (AppendData rest data1)))))"

definition AddReceivedRedPacket :: "bool \<Rightarrow> int \<Rightarrow> RtpPacketReceived \<Rightarrow> UlpfecReceiver \<Rightarrow> (bool \<times> UlpfecReceiver) res" where
  "AddReceivedRedPacket dchecks now p r =
     (if rtp_ssrc p \<noteq> ulp_ssrc r then Inr (False, r)
      else if rtp_size p > IP_PACKET_SIZE then Inr (False, r)
      else if rtp_payload_size p = 0 then Inr (False, r)
      else
        bind_res (mem_read ''payload'' (int (rtp_payload_offset p)) 1 (cow_data (rtp_buffer p))) (\<lambda>red.
          let payload_type = hd red AND 0x7f; fec = (uint payload_type = ulp_payload_type r) in
          if hd red AND 0x80 \<noteq> 0 then Inr (False, r)
          else
            let cnt = packet_counter r;
                cnt1 = cnt\<lparr>num_packets := num_packets cnt + 1, num_bytes := num_bytes cnt + rtp_size p,
                           first_packet_time := (case first_packet_time cnt of None \<Rightarrow> Some now | Some t \<Rightarrow> Some t),
                           num_fec_packets := num_fec_packets cnt + (if fec then 1 else 0)\<rparr>
            in bind_res
                 (if fec then Slice dchecks (rtp_payload_offset p + kRedHeaderLength) (rtp_payload_size p - kRedHeaderLength) (rtp_buffer p)
                  else strip_red p payload_type)
                 (\<lambda>data.
                   let received = \<lparr>ssrc = rtp_ssrc p, seq_num = rtp_sequence_number p, is_fec = fec, received_pkt = data,
                                   is_recovered = rtp_recovered p, received_extensions = rtp_extensions p\<rparr>
                   in Inr (True, r\<lparr>packet_counter := cnt1,
                                   ulp_received_packets := (if buffer_size data > 0 then ulp_received_packets r @ [received]
                                                            else ulp_received_packets r)\<rparr>))))"

text \<open>
  The loop over the received packets. Its state is the receiver, the packets given to the callback, the extension
  map of the last packet that was decoded and the number of recovered packets.
\<close>

type_synonym process_state =
  "UlpfecReceiver \<times> RtpPacketReceived list \<times> RtpHeaderExtensionMap option \<times> nat"

definition decode_received :: "bool \<Rightarrow> UlpfecReceivedPacket \<Rightarrow> process_state \<Rightarrow> process_state res" where
  "decode_received dchecks p = (\<lambda>(r, out, last_map, num).
     if is_recovered p then Inr (r, out, last_map, num)
     else
       bind_res (DecodeFec dchecks (ReceivedPacket.truncate p) (ulp_recovered_packets r) (ulp_fec r)) (\<lambda>(n, rs, fec).
         Inr (r\<lparr>ulp_recovered_packets := rs, ulp_fec := fec\<rparr>, out, Some (received_extensions p), num + n)))"

definition process_received :: "bool \<Rightarrow> UlpfecReceivedPacket \<Rightarrow> process_state \<Rightarrow> process_state res" where
  "process_received dchecks p = (\<lambda>(r, out, last_map, num).
     if is_fec p then decode_received dchecks p (r, out, last_map, num)
     else
       bind_res (new_RtpPacketReceived dchecks (Some (received_extensions p))) (\<lambda>p0.
       bind_res (rtp_Parse dchecks (received_pkt p) p0) (\<lambda>(ok, rtp).
         if \<not> ok then Inr (r, out, last_map, num)
         else
           bind_res (ZeroMutableExtensions dchecks rtp) (\<lambda>rtp'.
             decode_received dchecks (p\<lparr>received_pkt := rtp_buffer rtp'\<rparr>) (r, out @ [rtp], last_map, num)))))"

fun process_all :: "bool \<Rightarrow> UlpfecReceivedPacket list \<Rightarrow> process_state \<Rightarrow> process_state res" where
  "process_all dchecks [] st = Inr st"
| "process_all dchecks (p # ps) st = bind_res (process_received dchecks p st) (process_all dchecks ps)"

text \<open>The loop over the packets of the decoder: the packets, all marked as returned, the packets given to the callback, and how many were new.\<close>

fun return_recovered ::
    "bool \<Rightarrow> RtpHeaderExtensionMap option \<Rightarrow> RecoveredPacket list \<Rightarrow> (RecoveredPacket list \<times> RtpPacketReceived list \<times> nat) res" where
  "return_recovered dchecks last_map [] = Inr ([], [], 0)"
| "return_recovered dchecks last_map (p # ps) =
     (if returned p then
        bind_res (return_recovered dchecks last_map ps) (\<lambda>(rs, out, n). Inr (p # rs, out, n))
      else
        bind_res (new_RtpPacketReceived dchecks last_map) (\<lambda>p0.
        bind_res (rtp_Parse dchecks (recovered_pkt p) p0) (\<lambda>(ok, rtp).
        bind_res (return_recovered dchecks last_map ps) (\<lambda>(rs, out, n).
          Inr (p\<lparr>returned := True\<rparr> # rs, (if ok then [rtp\<lparr>rtp_recovered := True\<rparr>] else []) @ out, Suc n)))))"

definition ProcessReceivedFec :: "bool \<Rightarrow> UlpfecReceiver \<Rightarrow> (RtpPacketReceived list \<times> UlpfecReceiver) res" where
  "ProcessReceivedFec dchecks r =
     bind_res (process_all dchecks (ulp_received_packets r) (r\<lparr>ulp_received_packets := []\<rparr>, [], None, 0)) (\<lambda>(r1, out, last_map, num).
       if num = 0 then Inr (out, r1)
       else
         bind_res (return_recovered dchecks last_map (ulp_recovered_packets r1)) (\<lambda>(rs, out', n).
           let cnt = packet_counter r1 in
           Inr (out @ out', r1\<lparr>ulp_recovered_packets := rs,
                               packet_counter := cnt\<lparr>num_recovered_packets := num_recovered_packets cnt + n\<rparr>\<rparr>)))"

section \<open>The invariant\<close>

definition received_ok :: "u32 \<Rightarrow> UlpfecReceivedPacket \<Rightarrow> bool" where
  "received_ok s p \<longleftrightarrow> ssrc p = s \<and> (if is_fec p then \<exists>d. cow_data (received_pkt p) = mem_of d else good_packet (received_pkt p))"

definition ulp_ok :: "UlpfecReceiver \<Rightarrow> bool" where
  "ulp_ok r \<longleftrightarrow> decoder_ok UlpfecHeaderReader (ulp_fec r) (ulp_recovered_packets r) \<and> codec_ssrc (ulp_fec r) = ulp_ssrc r \<and>
     protected_media_ssrc (ulp_fec r) = ulp_ssrc r \<and> list_all (received_ok (ulp_ssrc r)) (ulp_received_packets r) \<and>
     num_fec_packets (packet_counter r) \<le> num_packets (packet_counter r)"

text \<open>A packet given to the callback holds a valid RTP packet.\<close>

definition delivered_ok :: "RtpPacketReceived \<Rightarrow> bool" where
  "delivered_ok p \<longleftrightarrow> (\<exists>bytes. valid_rtp bytes \<and> rtp_parsed (rtp_buffer p) bytes p)"

lemma more_recovered: "RtpPacket.more p = RtpPacket.more q \<Longrightarrow> rtp_recovered p = rtp_recovered q"
  by (cases p; cases q) simp

lemma new_RtpPacketReceived_ok:
  "\<exists>p. new_RtpPacketReceived dchecks exts = Inr p \<and> rtp_holds cleared p \<and> \<not> rtp_recovered p \<and>
     rtp_extensions p = (case exts of Some e \<Rightarrow> e | None \<Rightarrow> new_RtpHeaderExtensionMap False)"
proof -
  let ?e = "case exts of Some e \<Rightarrow> e | None \<Rightarrow> new_RtpHeaderExtensionMap False"
  obtain p where p: "new_RtpPacket dchecks ?e kDefaultPacketSize = Inr p" "rtp_holds cleared p" "rtp_extensions p = ?e"
    using new_RtpPacket_ok [of kDefaultPacketSize dchecks ?e] by (auto simp: kDefaultPacketSize_def)
  then have "rtp_holds cleared (RtpPacket.extend p (RtpPacketReceived.fields False))"
    by (simp add: rtp_holds_def rtp_layout_def rtp_size_def RtpPacket.defs)
  then show ?thesis using p by (simp add: new_RtpPacketReceived_def RtpPacket.defs RtpPacketReceived.defs)
qed

text \<open>Parsing with a new object.\<close>

lemma parse_received_ok:
  assumes "cow_data b = mem_of bytes"
  obtains p0 p where "new_RtpPacketReceived dchecks exts = Inr p0" "rtp_Parse dchecks b p0 = Inr (valid_rtp bytes, p)"
    "\<not> rtp_recovered p" "rtp_extensions p = (case exts of Some e \<Rightarrow> e | None \<Rightarrow> new_RtpHeaderExtensionMap False)"
    "if valid_rtp bytes then rtp_parsed b bytes p else rtp_holds cleared p"
proof -
  obtain p0 where p0: "new_RtpPacketReceived dchecks exts = Inr p0" "rtp_holds cleared p0" "\<not> rtp_recovered p0"
    "rtp_extensions p0 = (case exts of Some e \<Rightarrow> e | None \<Rightarrow> new_RtpHeaderExtensionMap False)"
    using new_RtpPacketReceived_ok by blast
  then have "12 \<le> buffer_size (rtp_buffer p0)" by (simp add: rtp_holds_def cleared_def)
  from rtp_Parse_ok [OF this assms, of dchecks] p0 show ?thesis using that by (auto dest: more_recovered)
qed

definition stripped :: "nat \<Rightarrow> u8 \<Rightarrow> u8 list \<Rightarrow> u8 list" where
  "stripped hs pt bytes = (take hs bytes)[1 := (bytes ! 1 AND 0x80) + pt] @ drop (hs + 1) bytes"

lemma strip_red_ok:
  assumes "rtp_holds bytes p" "rtp_payload_size p > 0"
  shows "strip_red p pt = Inr (buffer_of (stripped (rtp_payload_offset p) pt bytes))"
proof -
  let ?hs = "rtp_payload_offset p"
  have len: "12 \<le> ?hs" "?hs + 1 \<le> length bytes" "rtp_size p = length bytes" "cow_data (rtp_buffer p) = mem_of bytes"
    using assms by (auto simp: rtp_holds_def rtp_layout_def rtp_size_def)
  have 1: "mem_load w 0 ?hs (mem_of bytes) = Inr (mem_of (take ?hs bytes))" for w
    using len by (simp add: mem_load_ok)
  have 2: "mem_load w (int (?hs + 1)) (length bytes - ?hs - 1) (mem_of bytes) = Inr (mem_of (drop (?hs + 1) bytes))" for w
    using len by (subst mem_load_nat) auto
  have 3: "modify_byte 1 f (mem_of (take ?hs bytes)) = Inr (mem_of ((take ?hs bytes)[1 := f (bytes ! 1)]))" for f
    using len by (simp add: modify_byte_eq)
  show ?thesis
    unfolding strip_red_def Let_def len(3,4) kRedHeaderLength_def 1 2 bind_res.simps
    using len(1,2)
    by (simp add: SetData_def change_data_def 3 [unfolded One_nat_def] AppendData_def stripped_def buffer_of_def EnsureCapacity_def
        empty_buffer_def)
qed

lemma stripped_good:
  "12 \<le> hs \<Longrightarrow> hs < length bytes \<Longrightarrow> length bytes \<le> 1500 \<Longrightarrow> good_packet (buffer_of (stripped hs pt bytes))"
  unfolding good_packet_def buffer_of_def by (intro exI [of _ "stripped hs pt bytes"]) (auto simp: stripped_def)

text \<open>The packet that is stored for the RED packet \<open>p\<close> with the bytes \<open>bytes\<close>, up to the capacity of its buffer.\<close>

definition stored_for :: "UlpfecReceiver \<Rightarrow> u8 list \<Rightarrow> RtpPacketReceived \<Rightarrow> UlpfecReceivedPacket \<Rightarrow> bool" where
  "stored_for r bytes p q \<longleftrightarrow> (let hs = rtp_payload_offset p; pt = bytes ! hs AND 0x7f in
     ssrc q = rtp_ssrc p \<and> seq_num q = rtp_sequence_number p \<and> is_recovered q = rtp_recovered p \<and>
     received_extensions q = rtp_extensions p \<and> is_fec q = (uint pt = ulp_payload_type r) \<and>
     (if is_fec q then cow_data (received_pkt q) = mem_of (take (rtp_payload_size p - 1) (drop (hs + 1) bytes))
      else received_pkt q = buffer_of (stripped hs pt bytes)))"

definition accepted :: "UlpfecReceiver \<Rightarrow> u8 list \<Rightarrow> RtpPacketReceived \<Rightarrow> bool" where
  "accepted r bytes p \<longleftrightarrow> rtp_ssrc p = ulp_ssrc r \<and> length bytes \<le> 1500 \<and> rtp_payload_size p > 0 \<and>
     \<not> bit (bytes ! rtp_payload_offset p) 7"

lemma AddReceivedRedPacket_cases:
  assumes "rtp_holds bytes p"
  shows "if accepted r bytes p
    then \<exists>q cnt. stored_for r bytes p q \<and> num_packets cnt = num_packets (packet_counter r) + 1 \<and>
      num_fec_packets cnt = num_fec_packets (packet_counter r) + (if is_fec q then 1 else 0) \<and>
      num_recovered_packets cnt = num_recovered_packets (packet_counter r) \<and>
      AddReceivedRedPacket dchecks now p r = Inr (True, r\<lparr>packet_counter := cnt,
        ulp_received_packets := ulp_received_packets r @ (if buffer_size (received_pkt q) > 0 then [q] else [])\<rparr>)
    else AddReceivedRedPacket dchecks now p r = Inr (False, r)"
proof (cases "rtp_ssrc p = ulp_ssrc r \<and> length bytes \<le> 1500 \<and> rtp_payload_size p > 0")
  case True
  let ?hs = "rtp_payload_offset p"
  define b where "b = bytes ! ?hs"
  let ?pt = "b AND 0x7f"
  let ?fec = "uint ?pt = ulp_payload_type r"
  have len: "rtp_size p = length bytes" "?hs + rtp_payload_size p \<le> length bytes" "cow_data (rtp_buffer p) = mem_of bytes"
    using assms by (auto simp: rtp_holds_def rtp_layout_def rtp_size_def)
  have rd: "mem_read w (int ?hs) 1 (mem_of bytes) = Inr [b]" for w
    using len True by (simp add: read_bytes b_def)
  have b7: "b AND 0x80 \<noteq> 0 \<longleftrightarrow> bit b 7" using and_exp_eq_0_iff_not_bit [of b 7] by simp
  show ?thesis
  proof (cases "bit b 7")
    case True
    then show ?thesis
      using \<open>rtp_ssrc p = ulp_ssrc r \<and> _\<close> len rd
      by (simp add: AddReceivedRedPacket_def accepted_def IP_PACKET_SIZE_def b7 flip: b_def One_nat_def)
  next
    case False
    have sl: "Slice dchecks (?hs + 1) (rtp_payload_size p - 1) (rtp_buffer p) =
        Inr \<lparr>cow_data = mem_of (take (rtp_payload_size p - 1) (drop (?hs + 1) bytes)), cow_capacity = cow_capacity (rtp_buffer p) - (?hs + 1)\<rparr>"
      using len True by (simp add: Slice_def, subst mem_load_nat [of "?hs + 1", simplified]) auto
    have st: "strip_red p ?pt = Inr (buffer_of (stripped ?hs ?pt bytes))" using strip_red_ok [OF assms] True by blast
    define data where "data = (if ?fec then \<lparr>cow_data = mem_of (take (rtp_payload_size p - 1) (drop (?hs + 1) bytes)), cow_capacity = cow_capacity (rtp_buffer p) - (?hs + 1)\<rparr>
      else buffer_of (stripped ?hs ?pt bytes))"
    have d: "(if ?fec then Slice dchecks (?hs + kRedHeaderLength) (rtp_payload_size p - kRedHeaderLength) (rtp_buffer p)
        else strip_red p ?pt) = Inr data"
      unfolding kRedHeaderLength_def sl st by (simp add: data_def)
    let ?q = "\<lparr>ssrc = rtp_ssrc p, seq_num = rtp_sequence_number p, is_fec = ?fec, received_pkt = data,
      is_recovered = rtp_recovered p, received_extensions = rtp_extensions p\<rparr>"
    have "stored_for r bytes p ?q" by (simp add: stored_for_def data_def Let_def b_def)
    moreover have "accepted r bytes p" using True False by (simp add: accepted_def b_def)
    moreover define cnt where "cnt = packet_counter r"
    moreover define cnt' where "cnt' = cnt\<lparr>num_packets := num_packets cnt + 1, num_bytes := num_bytes cnt + length bytes,
      first_packet_time := (case first_packet_time cnt of None \<Rightarrow> Some now | Some t \<Rightarrow> Some t),
      num_fec_packets := num_fec_packets cnt + (if ?fec then 1 else 0)\<rparr>"
    moreover have "AddReceivedRedPacket dchecks now p r = Inr (True, r\<lparr>packet_counter := cnt',
        ulp_received_packets := ulp_received_packets r @ (if buffer_size (received_pkt ?q) > 0 then [?q] else [])\<rparr>)"
      unfolding AddReceivedRedPacket_def len(1,3) rd bind_res.simps list.sel b7 Let_def d
      using True False by (simp add: IP_PACKET_SIZE_def cnt'_def cnt_def)
    ultimately show ?thesis by (simp only: if_True) (intro exI [of _ ?q] exI [of _ cnt'], simp)
  qed
qed (use assms in \<open>auto simp: AddReceivedRedPacket_def accepted_def IP_PACKET_SIZE_def rtp_holds_def rtp_layout_def\<close>)

lemma AddReceivedRedPacket_ok:
  assumes "rtp_holds bytes p" "ulp_ok r"
  shows "\<exists>ok r'. AddReceivedRedPacket dchecks now p r = Inr (ok, r') \<and> ulp_ok r'"
proof (cases "accepted r bytes p")
  case True
  then obtain q cnt where q: "stored_for r bytes p q" "num_packets cnt = num_packets (packet_counter r) + 1"
    "num_fec_packets cnt = num_fec_packets (packet_counter r) + (if is_fec q then 1 else 0)"
    "AddReceivedRedPacket dchecks now p r = Inr (True, r\<lparr>packet_counter := cnt,
        ulp_received_packets := ulp_received_packets r @ (if buffer_size (received_pkt q) > 0 then [q] else [])\<rparr>)"
    using AddReceivedRedPacket_cases [OF assms(1), of r dchecks now] by auto
  have hs: "12 \<le> rtp_payload_offset p" "rtp_payload_offset p < length bytes"
    using assms(1) True by (auto simp: rtp_holds_def rtp_layout_def rtp_size_def accepted_def)
  have "received_ok (ulp_ssrc r) q"
    using q(1) True stripped_good [OF hs] by (auto simp: received_ok_def stored_for_def Let_def accepted_def split: if_splits)
  then show ?thesis using q assms(2) by (auto simp: ulp_ok_def)
qed (use AddReceivedRedPacket_cases [OF assms(1), of r dchecks now] assms(2) in auto)

text \<open>The loop changes only the decoder and its list.\<close>

definition decoder_step :: "UlpfecReceiver \<Rightarrow> UlpfecReceiver \<Rightarrow> bool" where
  "decoder_step r r' \<longleftrightarrow> ulp_ok r' \<and> ulp_ssrc r' = ulp_ssrc r \<and> ulp_payload_type r' = ulp_payload_type r \<and>
     ulp_received_packets r' = ulp_received_packets r \<and> packet_counter r' = packet_counter r"

lemma decoder_step_trans: "decoder_step r r' \<Longrightarrow> decoder_step r' r'' \<Longrightarrow> decoder_step r r''"
  by (simp add: decoder_step_def)

lemma decode_received_ok:
  assumes "ulp_ok r" "received_ok (ulp_ssrc r) p"
  shows "\<exists>r' m n. decode_received dchecks p (r, out, last_map, num) = Inr (r', out, m, n) \<and> decoder_step r r'"
proof (cases "is_recovered p")
  case False
  have "good_received (ulp_fec r) (ReceivedPacket.truncate p)"
    using assms by (auto simp: good_received_def received_ok_def ulp_ok_def ReceivedPacket.defs)
  with ulpfec.DecodeFec_ok assms(1) obtain num rs fs where
    "DecodeFec dchecks (ReceivedPacket.truncate p) (ulp_recovered_packets r) (ulp_fec r) = Inr (num, rs, (ulp_fec r)\<lparr>received_fec_packets := fs\<rparr>)"
    "decoder_ok UlpfecHeaderReader ((ulp_fec r)\<lparr>received_fec_packets := fs\<rparr>) rs"
    unfolding ulp_ok_def by blast
  then show ?thesis using False assms(1) by (simp add: decode_received_def ulp_ok_def decoder_step_def)
qed (use assms(1) in \<open>simp add: decode_received_def decoder_step_def\<close>)

lemma process_received_ok:
  assumes "ulp_ok r" "received_ok (ulp_ssrc r) p" "list_all delivered_ok out"
  shows "\<exists>r' out' m n. process_received dchecks p (r, out, last_map, num) = Inr (r', out', m, n) \<and> decoder_step r r' \<and>
    list_all delivered_ok out'"
proof (cases "is_fec p")
  case True
  then show ?thesis using decode_received_ok [OF assms(1,2)] assms(3) by (fastforce simp: process_received_def)
next
  case False
  then obtain bytes where b: "cow_data (received_pkt p) = mem_of bytes" "12 \<le> length bytes" "length bytes \<le> 1500"
    using assms(2) by (auto simp: received_ok_def good_packet_def)
  from parse_received_ok [OF b(1)] obtain p0 rtp where
    p0: "new_RtpPacketReceived dchecks (Some (received_extensions p)) = Inr p0" "rtp_Parse dchecks (received_pkt p) p0 = Inr (valid_rtp bytes, rtp)"
      "if valid_rtp bytes then rtp_parsed (received_pkt p) bytes rtp else rtp_holds cleared rtp" by blast
  show ?thesis
  proof (cases "valid_rtp bytes")
    case True
    then have rtp: "rtp_holds bytes rtp" "delivered_ok rtp"
      using p0(3) by (auto simp: delivered_ok_def rtp_parsed_def)
    let ?z = "with_bytes (zeroed_at (packet_mutable_bytes rtp) bytes) rtp"
    have "received_ok (ulp_ssrc r) (p\<lparr>received_pkt := rtp_buffer ?z\<rparr>)"
      using assms(2) False b(2,3) by (auto simp: received_ok_def good_packet_def)
    from decode_received_ok [OF assms(1) this, of dchecks "out @ [rtp]" last_map num] show ?thesis
      using False p0 True rtp assms(3) ZeroMutableExtensions_ok [OF rtp(1)] by (auto simp: process_received_def)
  next
    case bad: False
    then show ?thesis using False p0 assms(1,3) by (auto simp: process_received_def decoder_step_def)
  qed
qed

lemma process_all_ok:
  assumes "ulp_ok r" "list_all (received_ok (ulp_ssrc r)) ps" "list_all delivered_ok out"
  shows "\<exists>r' out' m n. process_all dchecks ps (r, out, last_map, num) = Inr (r', out', m, n) \<and> decoder_step r r' \<and>
    list_all delivered_ok out'"
  using assms
proof (induction ps arbitrary: r out last_map num)
  case (Cons p ps)
  from process_received_ok [of r p out dchecks last_map num] Cons.prems obtain r1 out1 m1 n1 where
    1: "process_received dchecks p (r, out, last_map, num) = Inr (r1, out1, m1, n1)" "decoder_step r r1" "list_all delivered_ok out1"
    by auto
  from Cons.IH [of r1 out1 m1 n1] 1 Cons.prems obtain r2 out2 m2 n2 where
    "process_all dchecks ps (r1, out1, m1, n1) = Inr (r2, out2, m2, n2)" "decoder_step r1 r2" "list_all delivered_ok out2"
    by (auto simp: decoder_step_def)
  then show ?case using 1 decoder_step_trans by auto
qed (simp add: decoder_step_def)

lemma return_recovered_ok:
  "list_all (good_recovered s) ps \<Longrightarrow>
   \<exists>out n. return_recovered dchecks last_map ps = Inr (map (\<lambda>p. p\<lparr>returned := True\<rparr>) ps, out, n) \<and>
     list_all (\<lambda>p. delivered_ok p \<and> rtp_recovered p) out"
proof (induction ps)
  case (Cons p ps)
  then obtain out n where IH: "return_recovered dchecks last_map ps = Inr (map (\<lambda>p. p\<lparr>returned := True\<rparr>) ps, out, n)"
    "list_all (\<lambda>p. delivered_ok p \<and> rtp_recovered p) out" by auto
  obtain bytes where "cow_data (recovered_pkt p) = mem_of bytes" using Cons.prems by (auto simp: good_recovered_def good_packet_def)
  from parse_received_ok [OF this, of dchecks last_map] obtain p0 rtp where
    p0: "new_RtpPacketReceived dchecks last_map = Inr p0" "rtp_Parse dchecks (recovered_pkt p) p0 = Inr (valid_rtp bytes, rtp)"
      "if valid_rtp bytes then rtp_parsed (recovered_pkt p) bytes rtp else rtp_holds cleared rtp" by blast
  have "valid_rtp bytes \<Longrightarrow> delivered_ok (rtp\<lparr>rtp_recovered := True\<rparr>)"
    using p0(3) by (auto simp: delivered_ok_def rtp_parsed_def rtp_holds_def rtp_layout_def rtp_fields_def rtp_size_def)
  then show ?case using IH p0 by auto
qed simp

lemma ProcessReceivedFec_ok:
  assumes "ulp_ok r"
  shows "\<exists>out r'. ProcessReceivedFec dchecks r = Inr (out, r') \<and> ulp_ok r' \<and> ulp_ssrc r' = ulp_ssrc r \<and> ulp_received_packets r' = [] \<and>
    list_all delivered_ok out"
proof -
  have ps: "ulp_ok (r\<lparr>ulp_received_packets := []\<rparr>)" "list_all (received_ok (ulp_ssrc (r\<lparr>ulp_received_packets := []\<rparr>))) (ulp_received_packets r)"
    using assms by (auto simp: ulp_ok_def)
  from process_all_ok [OF ps, of "[]" dchecks None 0] obtain r1 out m n where
    1: "process_all dchecks (ulp_received_packets r) (r\<lparr>ulp_received_packets := []\<rparr>, [], None, 0) = Inr (r1, out, m, n)"
      "decoder_step (r\<lparr>ulp_received_packets := []\<rparr>) r1" "list_all delivered_ok out" by auto
  have g: "list_all (good_recovered (ulp_ssrc r1)) (ulp_recovered_packets r1)"
    using 1(2) by (auto simp: decoder_step_def ulp_ok_def decoder_ok_def)
  from return_recovered_ok [OF g, of dchecks m] obtain out' k where
    2: "return_recovered dchecks m (ulp_recovered_packets r1) = Inr (map (\<lambda>p. p\<lparr>returned := True\<rparr>) (ulp_recovered_packets r1), out', k)"
      "list_all (\<lambda>p. delivered_ok p \<and> rtp_recovered p) out'" by blast
  let ?cnt = "packet_counter r1"
  have "ulp_ok (r1\<lparr>ulp_recovered_packets := map (\<lambda>p. p\<lparr>returned := True\<rparr>) (ulp_recovered_packets r1),
      packet_counter := ?cnt\<lparr>num_recovered_packets := num_recovered_packets ?cnt + k\<rparr>\<rparr>)"
    using 1(2) by (auto simp: decoder_step_def ulp_ok_def decoder_ok_def list_all_iff good_recovered_def)
  moreover have "list_all delivered_ok out'" using 2(2) by (auto simp: list_all_iff)
  ultimately show ?thesis using 1 2 by (auto simp: ProcessReceivedFec_def decoder_step_def Let_def)
qed

text \<open>
  A receiver at work: each datagram, with its time of arrival, is parsed as an RTP packet; one that is not is dropped,
  the others go to \<open>AddReceivedRedPacket\<close> and \<open>ProcessReceivedFec\<close>.
\<close>

definition receive_datagram ::
    "bool \<Rightarrow> RtpHeaderExtensionMap option \<Rightarrow> int \<times> u8 list \<Rightarrow> UlpfecReceiver \<Rightarrow> (RtpPacketReceived list \<times> UlpfecReceiver) res" where
  "receive_datagram dchecks exts d r =
     bind_res (new_RtpPacketReceived dchecks exts) (\<lambda>p0.
     bind_res (rtp_Parse dchecks (buffer_of (snd d)) p0) (\<lambda>(ok, p).
       if ok then bind_res (AddReceivedRedPacket dchecks (fst d) p r) (\<lambda>(_, r'). ProcessReceivedFec dchecks r') else Inr ([], r)))"

fun receive_all ::
    "bool \<Rightarrow> RtpHeaderExtensionMap option \<Rightarrow> (int \<times> u8 list) list \<Rightarrow> UlpfecReceiver \<Rightarrow> (RtpPacketReceived list \<times> UlpfecReceiver) res" where
  "receive_all dchecks exts [] r = Inr ([], r)"
| "receive_all dchecks exts (d # ds) r =
     bind_res (receive_datagram dchecks exts d r) (\<lambda>(out, r').
     bind_res (receive_all dchecks exts ds r') (\<lambda>(out', r''). Inr (out @ out', r'')))"

lemma receive_datagram_ok:
  assumes "ulp_ok r"
  shows "\<exists>out r'. receive_datagram dchecks exts d r = Inr (out, r') \<and> ulp_ok r' \<and> list_all delivered_ok out"
proof -
  have "cow_data (buffer_of (snd d)) = mem_of (snd d)" by (simp add: buffer_of_def)
  from parse_received_ok [OF this, of dchecks exts] obtain p0 p where
    p: "new_RtpPacketReceived dchecks exts = Inr p0" "rtp_Parse dchecks (buffer_of (snd d)) p0 = Inr (valid_rtp (snd d), p)"
      "if valid_rtp (snd d) then rtp_parsed (buffer_of (snd d)) (snd d) p else rtp_holds cleared p" by blast
  show ?thesis
  proof (cases "valid_rtp (snd d)")
    case True
    then have "rtp_holds (snd d) p" using p(3) by (simp add: rtp_parsed_def)
    from AddReceivedRedPacket_ok [OF this assms, of dchecks "fst d"] obtain ok r1 where
      r1: "AddReceivedRedPacket dchecks (fst d) p r = Inr (ok, r1)" "ulp_ok r1" by blast
    from ProcessReceivedFec_ok [OF r1(2), of dchecks] show ?thesis using p r1 True by (auto simp: receive_datagram_def)
  qed (use p assms in \<open>simp add: receive_datagram_def\<close>)
qed

lemma receive_all_ok:
  "ulp_ok r \<Longrightarrow> \<exists>out r'. receive_all dchecks exts ds r = Inr (out, r') \<and> ulp_ok r' \<and> list_all delivered_ok out"
proof (induction ds arbitrary: r)
  case (Cons d ds)
  from receive_datagram_ok [OF Cons.prems, of dchecks exts d] obtain out r1 where
    1: "receive_datagram dchecks exts d r = Inr (out, r1)" "ulp_ok r1" "list_all delivered_ok out" by blast
  from Cons.IH [OF 1(2)] show ?case using 1 by auto
qed simp

text \<open>
  Claim C36. Whatever datagrams arrive, the receiver never reads or writes outside a buffer and fails no check, keeps at
  most 192 media and 48 FEC packets, and gives the callback only valid RTP packets.
\<close>

theorem ulpfec_receiver_safe:
  assumes "payload_type \<ge> -1"
  shows "\<exists>r0 out r. new_UlpfecReceiver dchecks s payload_type = Inr r0 \<and> receive_all dchecks exts datagrams r0 = Inr (out, r) \<and>
    length (ulp_recovered_packets r) \<le> 192 \<and> length (received_fec_packets (ulp_fec r)) \<le> 48 \<and>
    num_fec_packets (packet_counter r) \<le> num_packets (packet_counter r) \<and> (\<forall>p \<in> set out. delivered_ok p)"
proof -
  obtain r0 where r0: "new_UlpfecReceiver dchecks s payload_type = Inr r0" "ulp_ok r0"
    using assms
    by (simp add: new_UlpfecReceiver_def ulp_ok_def decoder_ok_def CreateUlpfec_def new_ForwardErrorCorrection_def)
  from receive_all_ok [OF r0(2), of dchecks exts datagrams] r0(1) show ?thesis
    by (auto simp: ulp_ok_def decoder_ok_def list_all_iff)
qed

theorem ulpfec_receiver_safe_witness:
  "\<exists>r0 out r. new_UlpfecReceiver True 7 97 = Inr r0 \<and>
     receive_all True None [(0, [0x80, 98]), (1, 0xB0 # replicate 40 0xff), (2, [0x80, 98, 0, 1, 0, 0, 0, 0, 0, 0, 0, 7, 97, 0xff])] r0 = Inr (out, r) \<and>
     length (ulp_recovered_packets r) \<le> 192"
proof -
  have "(97 :: int) \<ge> -1" by simp
  from ulpfec_receiver_safe [OF this] show ?thesis by blast
qed

end
