(* ===== verification/Ulpfec_Transport.thy ===== *)
theory Ulpfec_Transport
  imports Ulpfec_Generator Ulpfec_Receiver Codec_Roundtrip
begin

text \<open>
  The ULPFEC generator and receiver together: a frame goes through the generator, its media packets and FEC packets
  travel in RED packets, and the receiver delivers a packet that was lost.
\<close>

section \<open>Headers\<close>

text \<open>Where the header of an RTP packet ends depends on its first byte and the bytes behind the fixed header.\<close>

lemma header_end_cong:
  assumes x: "header_end x \<le> length x" "bit (x ! 0) 4 \<longrightarrow> csrc_end x + 4 \<le> length x"
    and y: "header_end x \<le> length y" "y ! 0 = x ! 0" "drop 12 (take (header_end x) y) = drop 12 (take (header_end x) x)"
  shows "header_end y = header_end x" "csrc_end y = csrc_end x"
proof -
  show c: "csrc_end y = csrc_end x" using y(2) by (simp add: csrc_end_def)
  show "header_end y = header_end x"
  proof (cases "bit (x ! 0) 4")
    case True
    let ?c = "csrc_end x" and ?e = "header_end x"
    have e: "12 \<le> ?c" "?c + 4 \<le> ?e" using True by (simp_all add: header_end_def csrc_end_def)
    have "take 2 (drop (?c + 2) z) = take 2 (drop (?c + 2 - 12) (drop 12 (take ?e z)))" for z :: "u8 list"
      using e by (simp add: drop_take min_def)
    then have "take 2 (drop (?c + 2) y) = take 2 (drop (?c + 2) x)" using y(3) by metis
    then show ?thesis using True y(2) c by (simp add: header_end_def extension_words_def)
  qed (use y(2) c in \<open>simp add: header_end_def\<close>)
qed

text \<open>Valid packets without padding.\<close>

definition plain_rtp :: "u8 list \<Rightarrow> bool" where
  "plain_rtp b \<longleftrightarrow> valid_rtp b \<and> \<not> bit (b ! 0) 5"

lemma plain_rtp_cong:
  assumes "plain_rtp x" "header_end x \<le> length y" "y ! 0 = x ! 0" "drop 12 (take (header_end x) y) = drop 12 (take (header_end x) x)"
  shows "plain_rtp y" "header_end y = header_end x"
proof -
  have x: "header_end x \<le> length x" "bit (x ! 0) 4 \<longrightarrow> csrc_end x + 4 \<le> length x" "drop_bit 6 (x ! 0) = 2" "\<not> bit (x ! 0) 5"
    using assms(1) by (auto simp: plain_rtp_def valid_rtp_def)
  note h = header_end_cong [OF x(1,2) assms(2-4)]
  show "header_end y = header_end x" by (rule h(1))
  have "bit (x ! 0) 4 \<longrightarrow> csrc_end x + 4 \<le> length y" using assms(2) by (auto simp: header_end_def)
  then show "plain_rtp y"
    using x assms(2,3) h header_end_12 [of x] by (simp add: plain_rtp_def valid_rtp_def padding_length_def)
qed

lemma red_bytes_plain:
  assumes "plain_rtp b"
  shows "plain_rtp (red_bytes (header_end b) pt b)" "header_end (red_bytes (header_end b) pt b) = header_end b"
proof -
  let ?y = "red_bytes (header_end b) pt b"
  have h: "12 \<le> header_end b" "header_end b \<le> length b" using assms header_end_12 [of b] by (auto simp: plain_rtp_def valid_rtp_def)
  have "header_end b \<le> length ?y" "?y ! 0 = b ! 0" "drop 12 (take (header_end b) ?y) = drop 12 (take (header_end b) b)"
    using h by (auto simp: red_bytes_def nth_append drop_update_cancel)
  from plain_rtp_cong [OF assms this] show "plain_rtp ?y" "header_end ?y = header_end b" .
qed

lemma fec_red_bytes_plain:
  assumes "plain_rtp b" "h = take (header_end b) b"
  shows "plain_rtp (overwrite 2 (WriteBigEndian 2 sn) (fec_red_bytes h red ulp wire))" (is "plain_rtp ?y")
    "header_end (overwrite 2 (WriteBigEndian 2 sn) (fec_red_bytes h red ulp wire)) = header_end b"
proof -
  let ?y = "overwrite 2 (WriteBigEndian 2 sn) (fec_red_bytes h red ulp wire)"
  have h: "12 \<le> header_end b" "header_end b \<le> length b" using assms header_end_12 [of b] by (auto simp: plain_rtp_def valid_rtp_def)
  have "header_end b \<le> length ?y" "?y ! 0 = b ! 0"
    using h assms(2) by (simp_all add: fec_red_bytes_def nth_overwrite nth_append)
  moreover have "drop 12 (take (header_end b) ?y) = drop 12 (take (header_end b) b)"
    using h assms(2) by (intro nth_equalityI) (auto simp: fec_red_bytes_def nth_overwrite nth_append less_diff_conv add.commute)
  ultimately show "plain_rtp ?y" "header_end ?y = header_end b" using plain_rtp_cong [OF assms(1)] by blast+
qed

section \<open>Arrivals\<close>

definition extension_map :: "RtpHeaderExtensionMap option \<Rightarrow> RtpHeaderExtensionMap" where
  "extension_map exts = (case exts of Some e \<Rightarrow> e | None \<Rightarrow> new_RtpHeaderExtensionMap False)"

lemma parse_plain:
  assumes "plain_rtp y" "cow_data b = mem_of y" "take 4 (drop 8 y) = WriteBigEndian 4 s" "take 2 (drop 2 y) = WriteBigEndian 2 sn"
  shows "\<exists>p0 p. new_RtpPacketReceived dchecks exts = Inr p0 \<and> rtp_Parse dchecks b p0 = Inr (True, p) \<and>
    \<not> rtp_recovered p \<and> rtp_extensions p = extension_map exts \<and> rtp_holds y p \<and> rtp_buffer p = b \<and>
    rtp_payload_offset p = header_end y \<and> rtp_payload_size p = length y - header_end y \<and> rtp_ssrc p = s \<and> rtp_sequence_number p = sn"
proof -
  have v: "valid_rtp y" "padding_length y = 0" using assms(1) by (auto simp: plain_rtp_def padding_length_def)
  from parse_received_ok [OF assms(2), of dchecks exts] v obtain p0 p where
    p: "new_RtpPacketReceived dchecks exts = Inr p0" "rtp_Parse dchecks b p0 = Inr (True, p)" "\<not> rtp_recovered p"
      "rtp_extensions p = extension_map exts" "rtp_parsed b y p" unfolding extension_map_def by auto
  then have f: "rtp_holds y p" "rtp_fields y p" "rtp_payload_offset p = header_end y" "unat (rtp_padding_size p) = 0" "rtp_buffer p = b"
    using v(2) by (auto simp: rtp_parsed_def)
  have "rtp_payload_size p = length y - header_end y" using f by (auto simp: rtp_holds_def rtp_layout_def rtp_size_def)
  moreover have "rtp_ssrc p = s" "rtp_sequence_number p = sn"
    using f(2) assms(3,4) by (auto simp: rtp_fields_def WriteBigEndian_inj)
  ultimately show ?thesis using p f by auto
qed

text \<open>The bytes of a packet that the receiver sets to zero.\<close>

definition mutable_positions :: "bool \<Rightarrow> RtpHeaderExtensionMap \<Rightarrow> u8 list \<Rightarrow> nat set" where
  "mutable_positions dchecks E b =
     (case bind_res (new_RtpPacketReceived dchecks (Some E)) (\<lambda>p0. rtp_Parse dchecks (buffer_of b) p0) of
        Inr (_, p) \<Rightarrow> packet_mutable_bytes p
      | Inl _ \<Rightarrow> {})"

text \<open>
  A receiver that has got the packets \<open>js\<close> of a group, whose zeroed bytes are \<open>media\<close>, and no FEC packet.
\<close>

definition holding :: "u32 \<Rightarrow> int \<Rightarrow> u16 \<Rightarrow> (nat \<Rightarrow> nat) \<Rightarrow> u8 list list \<Rightarrow> nat list \<Rightarrow> UlpfecReceiver \<Rightarrow> bool" where
  "holding s ulp s0 d media js r \<longleftrightarrow> ulp_ssrc r = s \<and> ulp_payload_type r = ulp \<and> ulp_fec r = CreateUlpfec s \<and>
     ulp_received_packets r = [] \<and> ulp_recovered_packets r = map (media_kept s s0 d media) (sort js) \<and>
     num_recovered_packets (packet_counter r) = 0"

lemma stripped_red:
  assumes "12 \<le> hs" "hs \<le> length b" "pt \<le> 0x7f"
  shows "stripped hs (b ! 1 AND 0x7f) (red_bytes hs pt b) = b"
proof -
  have "(take hs b)[1 := b ! 1] = take hs b" using assms by (simp add: list_update_same_conv)
  then show ?thesis
    using assms by (simp add: stripped_def red_bytes_def nth_append high_bit_kept seven_and_one)
qed

lemma ulpfec_codec_simps [simp]:
  "received_fec_packets (CreateUlpfec s) = []" "protected_media_ssrc (CreateUlpfec s) = s" "codec_ssrc (CreateUlpfec s) = s"
  "fec_header_reader (CreateUlpfec s) = UlpfecHeaderReader" "reader_MaxMediaPackets UlpfecHeaderReader = 192"
  by (simp_all add: CreateUlpfec_def new_ForwardErrorCorrection_def UlpfecHeaderReader_def header_constants)

text \<open>A RED packet with a media packet in it is stored as that media packet.\<close>

lemma add_red_media:
  assumes b: "plain_rtp b" "rtp_packet sn s b" "length b \<le> 1499" and pt: "pt \<le> 0x7f" "uint (b ! 1 AND 0x7f) \<noteq> ulp_payload_type r"
    and r: "ulp_ssrc r = s"
  shows "\<exists>p0 p cnt. new_RtpPacketReceived dchecks exts = Inr p0 \<and>
    rtp_Parse dchecks (buffer_of (red_bytes (header_end b) pt b)) p0 = Inr (True, p) \<and>
    num_recovered_packets cnt = num_recovered_packets (packet_counter r) \<and>
    AddReceivedRedPacket dchecks now p r = Inr (True, r\<lparr>packet_counter := cnt, ulp_received_packets := ulp_received_packets r @
      [\<lparr>ssrc = s, seq_num = sn, is_fec = False, received_pkt = buffer_of b, is_recovered = False, received_extensions = extension_map exts\<rparr>]\<rparr>)"
proof -
  let ?hs = "header_end b"
  let ?y = "red_bytes (header_end b) pt b"
  have hs: "12 \<le> ?hs" "?hs \<le> length b" using b(1) header_end_12 [of b] by (auto simp: plain_rtp_def valid_rtp_def)
  have y: "length ?y = length b + 1" "?y ! ?hs = b ! 1 AND 0x7f" using hs by (simp_all add: red_bytes_def nth_append)
  have fields: "take 4 (drop 8 ?y) = WriteBigEndian 4 s" "take 2 (drop 2 ?y) = WriteBigEndian 2 sn"
    using hs b(2) by (simp_all add: rtp_packet_def red_bytes_def drop_update_cancel take_drop min_def)
  have "cow_data (buffer_of ?y) = mem_of ?y" by (simp add: buffer_of_def)
  from parse_plain [OF red_bytes_plain(1) [OF b(1)] this fields, of dchecks exts] obtain p0 p where
    p: "new_RtpPacketReceived dchecks exts = Inr p0" "rtp_Parse dchecks (buffer_of ?y) p0 = Inr (True, p)"
      "\<not> rtp_recovered p" "rtp_extensions p = extension_map exts" "rtp_holds ?y p" "rtp_payload_offset p = ?hs"
      "rtp_payload_size p = length ?y - ?hs" "rtp_ssrc p = s" "rtp_sequence_number p = sn"
    unfolding red_bytes_plain(2) [OF b(1), of pt] by blast
  have no7: "\<not> bit (b ! 1 AND 0x7f) 7" "(b ! 1 AND 0x7f) AND 0x7f = b ! 1 AND 0x7f"
    using seven_bits [of "b ! 1 AND 0x7f"] by (simp_all add: word_and_le1)
  have "accepted r ?y p" using p y b(3) r hs no7 by (simp add: accepted_def)
  with AddReceivedRedPacket_cases [OF p(5), of r dchecks now] obtain q cnt where
    q: "stored_for r ?y p q" "num_recovered_packets cnt = num_recovered_packets (packet_counter r)"
      "AddReceivedRedPacket dchecks now p r = Inr (True, r\<lparr>packet_counter := cnt,
        ulp_received_packets := ulp_received_packets r @ (if buffer_size (received_pkt q) > 0 then [q] else [])\<rparr>)" by auto
  have st: "stripped ?hs (b ! 1 AND 0x7f) ?y = b" using stripped_red [OF hs pt(1)] .
  have "q = \<lparr>ssrc = s, seq_num = sn, is_fec = False, received_pkt = buffer_of b, is_recovered = False, received_extensions = extension_map exts\<rparr>"
    using q(1) p y pt(2) st no7(2) by (cases q) (auto simp: stored_for_def Let_def)
  moreover have "buffer_size (buffer_of b) > 0" using hs by (auto simp: buffer_of_def)
  ultimately have "AddReceivedRedPacket dchecks now p r = Inr (True, r\<lparr>packet_counter := cnt, ulp_received_packets := ulp_received_packets r @
      [\<lparr>ssrc = s, seq_num = sn, is_fec = False, received_pkt = buffer_of b, is_recovered = False, received_extensions = extension_map exts\<rparr>]\<rparr>)"
    using q(3) by simp
  then show ?thesis using p(1,2) q(2) by blast
qed

lemma rtp_packet_media:
  assumes "rtp_packet sn s (zeroed_at S b)" "S \<subseteq> {12..}"
  shows "rtp_packet sn s b"
proof -
  have "take 12 (zeroed_at S b) = take 12 b"
    using assms(2) by (intro nth_equalityI) (auto simp: zeroed_at_def)
  then have "take 4 (drop 8 (take 12 (zeroed_at S b))) = take 4 (drop 8 (take 12 b))" "take 2 (drop 2 (take 12 (zeroed_at S b))) = take 2 (drop 2 (take 12 b))"
      "take 12 (zeroed_at S b) ! 0 = take 12 b ! 0"
    by simp_all
  then show ?thesis using assms(1) by (simp add: rtp_packet_def drop_take)
qed

lemma receive_media:
  assumes num: "numbered s0 d media" "n = length media" "n \<le> 48"
    and js: "distinct (j # js)" "\<forall>i \<in> set (j # js). i < n"
    and b: "plain_rtp b" "rtp_packet (s0 + of_nat (d j)) s b" "length b \<le> 1499"
      "media ! j = zeroed_at (mutable_positions dchecks (extension_map exts) b) b"
    and pt: "pt \<le> 0x7f" "uint (b ! 1 AND 0x7f) \<noteq> ulp" and r: "holding s ulp s0 d media js r"
  shows "\<exists>p r'. receive_datagram dchecks exts (t, red_bytes (header_end b) pt b) r = Inr ([p], r') \<and>
    holding s ulp s0 d media (js @ [j]) r' \<and> cow_data (rtp_buffer p) = mem_of b \<and> \<not> rtp_recovered p"
proof -
  let ?sn = "s0 + of_nat (d j)" and ?E = "extension_map exts"
  define q where "q = \<lparr>ssrc = s, seq_num = ?sn, is_fec = False, received_pkt = buffer_of b, is_recovered = False, received_extensions = ?E\<rparr>"
  from r have r': "ulp_ssrc r = s" "ulp_payload_type r = ulp" "ulp_fec r = CreateUlpfec s" "ulp_received_packets r = []"
      "ulp_recovered_packets r = map (media_kept s s0 d media) (sort js)" "num_recovered_packets (packet_counter r) = 0"
    by (auto simp: holding_def)
  from add_red_media [OF b(1-3) pt(1) _ r'(1), of dchecks exts t] pt(2) r'(2,4) obtain p0 p cnt where
    a: "new_RtpPacketReceived dchecks exts = Inr p0" "rtp_Parse dchecks (buffer_of (red_bytes (header_end b) pt b)) p0 = Inr (True, p)"
      "num_recovered_packets cnt = 0" "AddReceivedRedPacket dchecks t p r = Inr (True, r\<lparr>packet_counter := cnt, ulp_received_packets := [q]\<rparr>)"
    by (auto simp: q_def r'(6))
  have "cow_data (buffer_of b) = mem_of b" "take 4 (drop 8 b) = WriteBigEndian 4 s" "take 2 (drop 2 b) = WriteBigEndian 2 ?sn"
    using b(2) by (simp_all add: buffer_of_def rtp_packet_def)
  from parse_plain [OF b(1) this, of dchecks "Some ?E"] obtain q0 z where
    z: "new_RtpPacketReceived dchecks (Some ?E) = Inr q0" "rtp_Parse dchecks (buffer_of b) q0 = Inr (True, z)"
      "rtp_holds b z" "rtp_buffer z = buffer_of b" "\<not> rtp_recovered z" by blast
  have mut: "packet_mutable_bytes z = mutable_positions dchecks ?E b" by (simp add: mutable_positions_def z(1,2))
  let ?z = "with_bytes (media ! j) z"
  have zero: "ZeroMutableExtensions dchecks z = Inr ?z" using ZeroMutableExtensions_ok [OF z(3)] b(4) mut by simp
  have buf: "rtp_buffer ?z = buffer_of (media ! j)" using z(4) b(4) by (simp add: with_bytes_def buffer_of_def)
  have arr: "ReceivedPacket.truncate (q\<lparr>received_pkt := buffer_of (media ! j)\<rparr>) = media_arrival s s0 d media j"
    by (simp add: q_def media_arrival_def ReceivedPacket.defs)
  let ?r1 = "r\<lparr>packet_counter := cnt, ulp_received_packets := []\<rparr>"
  let ?r2 = "?r1\<lparr>ulp_recovered_packets := map (media_kept s s0 d media) (sort (js @ [j])), ulp_fec := CreateUlpfec s\<rparr>"
  have "DecodeFec dchecks (media_arrival s s0 d media j) (map (media_kept s s0 d media) (sort js)) (CreateUlpfec s) =
      Inr (0, map (media_kept s s0 d media) (sort (js @ [j])), CreateUlpfec s)"
    by (rule DecodeFec_media [OF num _ _ _ js]) simp_all
  then have "process_received dchecks q (?r1, [], None, 0) = Inr (?r2, [z], Some ?E, 0)"
    using z(1,2) zero r' arr buf by (simp add: process_received_def decode_received_def q_def)
  then have "ProcessReceivedFec dchecks (r\<lparr>packet_counter := cnt, ulp_received_packets := [q]\<rparr>) = Inr ([z], ?r2)"
    by (simp add: ProcessReceivedFec_def)
  then have "receive_datagram dchecks exts (t, red_bytes (header_end b) pt b) r = Inr ([z], ?r2)"
    using a by (simp add: receive_datagram_def)
  moreover have "holding s ulp s0 d media (js @ [j]) ?r2" using r' a(3) by (simp add: holding_def)
  moreover have "cow_data (rtp_buffer z) = mem_of b" using z(4) by (simp add: buffer_of_def)
  ultimately show ?thesis using z(5) by blast
qed

lemma receive_all_append:
  "receive_all dchecks exts (xs @ ys) r =
     bind_res (receive_all dchecks exts xs r) (\<lambda>(out, r'). bind_res (receive_all dchecks exts ys r') (\<lambda>(out', r''). Inr (out @ out', r'')))"
proof (induction xs arbitrary: r)
  case Nil
  then show ?case by (cases "receive_all dchecks exts ys r") auto
next
  case (Cons x xs)
  then show ?case
    by (cases "receive_datagram dchecks exts x r"; simp add: bind_res_assoc split_def)
qed

text \<open>The RED packet for the media packet \<open>b\<close>, and one for a FEC packet with the sequence number the sender gives it.\<close>

definition red_datagram :: "u8 \<Rightarrow> u8 list \<Rightarrow> u8 list" where
  "red_datagram pt b = red_bytes (header_end b) pt b"

lemma receive_media_all:
  assumes num: "numbered s0 d media" "n = length media" "n \<le> 48"
    and b: "\<And>j. j < n \<Longrightarrow> plain_rtp (sent ! j) \<and> rtp_packet (s0 + of_nat (d j)) s (sent ! j) \<and> length (sent ! j) \<le> 1499 \<and>
      uint (sent ! j ! 1 AND 0x7f) \<noteq> ulp \<and> media ! j = zeroed_at (mutable_positions dchecks (extension_map exts) (sent ! j)) (sent ! j)"
    and pt: "pt \<le> 0x7f" and r: "holding s ulp s0 d media [] r"
  shows "distinct js \<Longrightarrow> \<forall>i \<in> set js. i < n \<Longrightarrow>
    \<exists>out r'. receive_all dchecks exts (map (\<lambda>j. (t j, red_datagram pt (sent ! j))) js) r = Inr (out, r') \<and>
      holding s ulp s0 d media js r' \<and> map (\<lambda>p. cow_data (rtp_buffer p)) out = map (\<lambda>j. mem_of (sent ! j)) js \<and> (\<forall>p \<in> set out. \<not> rtp_recovered p)"
proof (induction js rule: rev_induct)
  case (snoc j js)
  then obtain out r1 where
    1: "receive_all dchecks exts (map (\<lambda>j. (t j, red_datagram pt (sent ! j))) js) r = Inr (out, r1)" "holding s ulp s0 d media js r1"
      "map (\<lambda>p. cow_data (rtp_buffer p)) out = map (\<lambda>j. mem_of (sent ! j)) js" "\<forall>p \<in> set out. \<not> rtp_recovered p" by auto
  have j: "distinct (j # js)" "\<forall>i \<in> set (j # js). i < n" "j < n" using snoc.prems by auto
  from receive_media [OF num j(1,2) _ _ _ _ pt _ 1(2), of "sent ! j" dchecks exts "t j"] b [OF j(3)] obtain p r2 where
    "receive_datagram dchecks exts (t j, red_datagram pt (sent ! j)) r1 = Inr ([p], r2)" "holding s ulp s0 d media (js @ [j]) r2"
    "cow_data (rtp_buffer p) = mem_of (sent ! j)" "\<not> rtp_recovered p" unfolding red_datagram_def by blast
  then show ?case using 1 by (auto simp: receive_all_append)
qed (use r in simp)

lemma add_red_fec:
  fixes sn :: u16
  assumes b: "plain_rtp b" "rtp_packet sn' s b" "h = take (header_end b) b"
    and y: "y = overwrite 2 (WriteBigEndian 2 sn) (fec_red_bytes h red ulp wire)" "length y \<le> 1500" "wire \<noteq> []"
    and ulp: "ulp \<le> 0x7f" "uint ulp = ulp_payload_type r" and r: "ulp_ssrc r = s"
  shows "\<exists>p0 p cnt q. new_RtpPacketReceived dchecks exts = Inr p0 \<and> rtp_Parse dchecks (buffer_of y) p0 = Inr (True, p) \<and>
    num_recovered_packets cnt = num_recovered_packets (packet_counter r) \<and>
    AddReceivedRedPacket dchecks now p r = Inr (True, r\<lparr>packet_counter := cnt, ulp_received_packets := ulp_received_packets r @ [q]\<rparr>) \<and>
    ssrc q = s \<and> is_fec q \<and> cow_data (received_pkt q) = mem_of wire \<and> \<not> is_recovered q \<and> received_extensions q = extension_map exts"
proof -
  let ?hs = "header_end b"
  have hs: "12 \<le> ?hs" "?hs \<le> length b" using b(1) header_end_12 [of b] by (auto simp: plain_rtp_def valid_rtp_def)
  have lh: "length h = ?hs" using hs b(3) by simp
  have f: "length (fec_red_bytes h red ulp wire) = ?hs + 1 + length wire" by (simp add: fec_red_bytes_def lh)
  have ly: "length y = ?hs + 1 + length wire" using hs f by (simp add: y(1))
  have y': "y = take 2 (h[1 := red]) @ WriteBigEndian 2 sn @ drop 4 (h[1 := red]) @ ulp # wire"
    using hs lh by (simp add: y(1) overwrite_def fec_red_bytes_def)
  define hd' where "hd' = take 2 (h[1 := red]) @ WriteBigEndian 2 sn @ drop 4 (h[1 := red])"
  have "length hd' = ?hs" "y = hd' @ ulp # wire" using hs lh by (simp_all add: hd'_def y')
  then have yh: "y ! ?hs = ulp" "drop (?hs + 1) y = wire" by (simp_all add: nth_append)
  have "drop 8 h = take (?hs - 8) (drop 8 b)" "4 \<le> ?hs - 8" "4 \<le> length b - 8" using hs by (simp_all add: b(3) drop_take)
  then have fields: "take 4 (drop 8 y) = WriteBigEndian 4 s" "take 2 (drop 2 y) = WriteBigEndian 2 sn"
    using hs lh b(2) by (simp_all add: y' rtp_packet_def drop_update_cancel min_def)
  note plain = fec_red_bytes_plain [OF b(1,3), where sn = sn and red = red and ulp = ulp and wire = wire, folded y(1)]
  have "cow_data (buffer_of y) = mem_of y" by (simp add: buffer_of_def)
  from parse_plain [OF plain(1) this fields, of dchecks exts] obtain p0 p where
    p: "new_RtpPacketReceived dchecks exts = Inr p0" "rtp_Parse dchecks (buffer_of y) p0 = Inr (True, p)"
      "\<not> rtp_recovered p" "rtp_extensions p = extension_map exts" "rtp_holds y p" "rtp_payload_offset p = ?hs"
      "rtp_payload_size p = length y - ?hs" "rtp_ssrc p = s"
    unfolding plain(2) by blast
  have "accepted r y p" using p ly yh y(2) r seven_bits [OF ulp(1)] by (simp add: accepted_def)
  with AddReceivedRedPacket_cases [OF p(5), of r dchecks now] obtain q cnt where
    q: "stored_for r y p q" "num_recovered_packets cnt = num_recovered_packets (packet_counter r)"
      "AddReceivedRedPacket dchecks now p r = Inr (True, r\<lparr>packet_counter := cnt,
        ulp_received_packets := ulp_received_packets r @ (if buffer_size (received_pkt q) > 0 then [q] else [])\<rparr>)" by auto
  have "is_fec q" "cow_data (received_pkt q) = mem_of wire" "ssrc q = s" "\<not> is_recovered q" "received_extensions q = extension_map exts"
    using q(1) p yh ly seven_bits [OF ulp(1)] ulp(2) by (auto simp: stored_for_def Let_def)
  moreover have "buffer_size (received_pkt q) > 0" using calculation(2) y(3) by simp
  ultimately show ?thesis using p(1,2) q(2,3) by auto
qed

lemma return_none: "\<forall>p \<in> set ps. returned p \<Longrightarrow> return_recovered dchecks E ps = Inr (ps, [], 0)"
  by (induction ps) simp_all

lemma return_one:
  assumes "\<forall>p \<in> set (xs @ ys). returned p" "\<not> returned r" "new_RtpPacketReceived dchecks E = Inr p0" "rtp_Parse dchecks (recovered_pkt r) p0 = Inr (True, p)"
  shows "return_recovered dchecks E (xs @ r # ys) = Inr (xs @ r\<lparr>returned := True\<rparr> # ys, [p\<lparr>rtp_recovered := True\<rparr>], 1)"
  using assms by (induction xs) (simp_all add: return_none)

lemma receive_fec:
  fixes sn :: u16
  assumes num: "numbered s0 d media" "n = length media" "n \<le> 48" and media: "rtp_group s s0 d media" and l: "plain_rtp (media ! l)"
    and b: "plain_rtp b" "rtp_packet sn' s b" "h = take (header_end b) b"
    and y: "y = overwrite 2 (WriteBigEndian 2 sn) (fec_red_bytes h red ulpw wire)" "length y \<le> 1500" "wire \<noteq> []"
    and ulp: "ulpw \<le> 0x7f" "uint ulpw = ulp" and r: "holding s ulp s0 d media js r"
    and read: "reads_as_row UlpfecHeaderReader dchecks s s s0 d media m ty row wire"
    and ks: "ks = filter (protects (encoder_mask (picked_type ty n) n m 0 False) (mask_width n) row) [0..<n]" "l \<in> set ks"
    and js: "distinct (l # js)" "\<forall>j \<in> set js. j < n" "set ks \<subseteq> set (l # js)"
  shows "\<exists>p r'. receive_datagram dchecks exts (t, y) r = Inr ([p], r') \<and> cow_data (rtp_buffer p) = mem_of (media ! l) \<and>
    rtp_recovered p \<and> num_recovered_packets (packet_counter r') = 1"
proof -
  from r have r': "ulp_ssrc r = s" "ulp_payload_type r = ulp" "ulp_fec r = CreateUlpfec s" "ulp_received_packets r = []"
      "ulp_recovered_packets r = map (media_kept s s0 d media) (sort js)" "num_recovered_packets (packet_counter r) = 0"
    by (auto simp: holding_def)
  from add_red_fec [OF b y ulp(1) _ r'(1), of dchecks exts t] ulp(2) r'(2,4,6) obtain p0 p cnt q where
    a: "new_RtpPacketReceived dchecks exts = Inr p0" "rtp_Parse dchecks (buffer_of y) p0 = Inr (True, p)"
      "num_recovered_packets cnt = 0" "AddReceivedRedPacket dchecks t p r = Inr (True, r\<lparr>packet_counter := cnt, ulp_received_packets := [q]\<rparr>)"
      "ssrc q = s" "is_fec q" "cow_data (received_pkt q) = mem_of wire" "\<not> is_recovered q" by auto
  let ?E = "received_extensions q" and ?R = "(media_kept s s0 d media)(l := media_restored s s0 d media l)"
  let ?q = "ReceivedPacket.truncate q" and ?rs = "map ?R (sort (js @ [l]))"
  have q: "is_fec ?q" "cow_data (received_pkt ?q) = mem_of wire" "ssrc ?q = s" using a by (simp_all add: ReceivedPacket.defs)
  have sel: "selected (encoder_mask (picked_type ty n) n m 0 False) row s0 d media = map (\<lambda>j. (s0 + of_nat (d j), media ! j)) ks"
    using num(2) by (simp add: selected_def ks(1))
  have dec: "DecodeFec dchecks ?q (map (media_kept s s0 d media) (sort js)) (CreateUlpfec s) = Inr (1, ?rs, CreateUlpfec s)"
  proof (rule ulpfec.DecodeFec_restores [OF num media _ _ _ _ q(1,2), where ks = ks])
    show "decoder_ok UlpfecHeaderReader (CreateUlpfec s) []" by (simp add: decoder_ok_def)
    show "\<exists>f. ReadFecHeader UlpfecHeaderReader dchecks p = Inr (Some f) \<and> fec_packet_for s (map (\<lambda>j. (s0 + of_nat (d j), media ! j)) ks) f"
      if "cow_data (fec_pkt p) = mem_of wire" "ssrc p = ssrc ?q" for p
      using read that q(3) sel num(2) unfolding reads_as_row_def by simp
  qed (use ks js q(3) in \<open>auto simp: sorted_wrt_filter\<close>)
  have "media ! l = media ! l" "rtp_packet (s0 + of_nat (d l)) s (media ! l)" using ks media num(2) by (auto simp: rtp_group_def)
  then have "cow_data (recovered_pkt (?R l)) = mem_of (media ! l)" "take 4 (drop 8 (media ! l)) = WriteBigEndian 4 s"
      "take 2 (drop 2 (media ! l)) = WriteBigEndian 2 (s0 + of_nat (d l))"
    by (simp_all add: media_restored_def rtp_packet_def)
  from parse_plain [OF l this, of dchecks "Some ?E"] obtain z0 z where
    z: "new_RtpPacketReceived dchecks (Some ?E) = Inr z0" "rtp_Parse dchecks (recovered_pkt (?R l)) z0 = Inr (True, z)" "rtp_holds (media ! l) z" by blast
  obtain xs ys where xy: "sort (js @ [l]) = xs @ l # ys" by (metis in_set_conv_decomp set_sort in_set_conv_decomp_first)
  have "distinct (sort (js @ [l]))" using js(1) by simp
  then have "distinct (xs @ l # ys)" unfolding xy .
  then have "return_recovered dchecks (Some ?E) ?rs =
      Inr (map ?R xs @ (?R l)\<lparr>returned := True\<rparr> # map ?R ys, [z\<lparr>rtp_recovered := True\<rparr>], 1)"
    unfolding xy list.map map_append using z(1,2)
    by (intro return_one) (auto simp: media_kept_def media_restored_def)
  moreover have "process_received dchecks q (r\<lparr>packet_counter := cnt, ulp_received_packets := []\<rparr>, [], None, 0) =
      Inr (r\<lparr>packet_counter := cnt, ulp_received_packets := [], ulp_recovered_packets := ?rs, ulp_fec := CreateUlpfec s\<rparr>, [], Some ?E, 1)"
    using a(6,8) r'(3,5) dec by (simp add: process_received_def decode_received_def)
  ultimately obtain r2 where "ProcessReceivedFec dchecks (r\<lparr>packet_counter := cnt, ulp_received_packets := [q]\<rparr>) =
      Inr ([z\<lparr>rtp_recovered := True\<rparr>], r2)" "num_recovered_packets (packet_counter r2) = 1"
    using a(3) by (simp add: ProcessReceivedFec_def Let_def)
  moreover have "cow_data (rtp_buffer (z\<lparr>rtp_recovered := True\<rparr>)) = mem_of (media ! l)" using z(3) by (simp add: rtp_holds_def)
  ultimately show ?thesis using a by (intro exI [of _ "z\<lparr>rtp_recovered := True\<rparr>"] exI [of _ r2]) (simp add: receive_datagram_def)
qed

section \<open>A lost packet\<close>

lemma mutable_positions_header:
  assumes "plain_rtp b"
  shows "mutable_positions dchecks E b \<subseteq> {12..}"
proof -
  have "cow_data (buffer_of b) = mem_of b" by (simp add: buffer_of_def)
  from parse_received_ok [OF this, of dchecks "Some E"] obtain p0 p where
    "new_RtpPacketReceived dchecks (Some E) = Inr p0" "rtp_Parse dchecks (buffer_of b) p0 = Inr (valid_rtp b, p)"
    "if valid_rtp b then rtp_parsed (buffer_of b) b p else rtp_holds cleared p" by blast
  moreover from this have "rtp_layout b p" using assms by (simp add: plain_rtp_def rtp_parsed_def rtp_holds_def)
  ultimately show ?thesis using packet_mutable_bytes_header [of b p] by (auto simp: mutable_positions_def)
qed

text \<open>Without header extensions nothing is set to zero.\<close>

lemma parse_no_extensions:
  assumes "ParseBuffer (mem_of b) p = Inr (True, q)" "\<not> bit (b ! 0) 4"
  shows "rtp_extension_entries q = []"
proof (cases "length b < 12")
  case False
  then have r: "mem_read what 0 12 (mem_of b) = Inr (take 12 b)" "mem_read what 0 1 (mem_of b) = Inr (take 1 b)" "take 12 b ! 0 = b ! 0" for what
    by (simp_all add: mem_read_mem_of [of 0, simplified])
  have bit: "(b ! 0 AND 0x10 \<noteq> 0) = False" using and_exp_eq_0_iff_not_bit [of "b ! 0" 4] assms(2) by simp
  show ?thesis
    using assms(1) False unfolding ParseBuffer_def r bit if_False bind_res.simps Let_def prod.case if_True
    by (auto simp: parse_padding_def bind_res_Inr_iff kFixedHeaderSize_def split: if_splits)
qed (use assms in \<open>simp add: ParseBuffer_def kFixedHeaderSize_def\<close>)

lemma no_mutable_positions:
  assumes "valid_rtp b" "\<not> bit (b ! 0) 4"
  shows "mutable_positions dchecks E b = {}"
proof -
  have "cow_data (buffer_of b) = mem_of b" by (simp add: buffer_of_def)
  from parse_received_ok [OF this, of dchecks "Some E"] obtain p0 p where
    "new_RtpPacketReceived dchecks (Some E) = Inr p0" "rtp_Parse dchecks (buffer_of b) p0 = Inr (valid_rtp b, p)" by blast
  with assms(1) have p: "new_RtpPacketReceived dchecks (Some E) = Inr p0" "rtp_Parse dchecks (buffer_of b) p0 = Inr (True, p)" by simp_all
  then obtain q where q: "ParseBuffer (mem_of b) p0 = Inr (True, q)" "rtp_extension_entries p = rtp_extension_entries q"
    by (auto simp: rtp_Parse_def bind_res_Inr_iff Let_def buffer_of_def RTC_DCHECK_def RTC_CHECK_def split: if_splits)
  then show ?thesis using p parse_no_extensions [OF q(1) assms(2)] by (simp add: mutable_positions_def packet_mutable_bytes_def)
qed

text \<open>
  The packets as the network sees them: RTP packets without padding that may differ from the packets that were protected in the bytes that
  the receiver sets to zero; in a RED packet they must also not be taken for FEC packets.
\<close>

definition changed_to :: "bool \<Rightarrow> RtpHeaderExtensionMap \<Rightarrow> u8 list \<Rightarrow> u8 list \<Rightarrow> bool" where
  "changed_to dchecks E m b \<longleftrightarrow> plain_rtp m \<and> plain_rtp b \<and> m = zeroed_at (mutable_positions dchecks E b) b"

definition sent_as :: "bool \<Rightarrow> RtpHeaderExtensionMap \<Rightarrow> int \<Rightarrow> u8 list \<Rightarrow> u8 list \<Rightarrow> bool" where
  "sent_as dchecks E ulp m b \<longleftrightarrow> changed_to dchecks E m b \<and> uint (b ! 1 AND 0x7f) \<noteq> ulp"

lemma changed_to_rtp:
  assumes "changed_to dchecks E m b" "rtp_packet sn s m"
  shows "rtp_packet sn s b" "length b = length m"
proof -
  have m: "m = zeroed_at (mutable_positions dchecks E b) b" "plain_rtp b" using assms(1) by (auto simp: changed_to_def)
  show "rtp_packet sn s b" using rtp_packet_media assms(2) mutable_positions_header [OF m(2)] unfolding m(1) by blast
  show "length b = length m" unfolding m(1) by simp
qed

lemma frame_transported:
  fixes sn :: u16
  assumes g: "idle g" "codec_ready UlpfecHeaderWriter (gen_fec g)" "red_types_ok g"
      "ulp = gen_ulpfec_payload_type g" "0 \<le> ulp" "ulp \<le> 127"
    and ps: "frame_of media ps" "rtp_payload_offset (last ps) = header_end (last media)" "n = length media" "n \<le> 48"
    and num: "numbered s0 d media" and grp: "rtp_group s s0 d media" and s: "ParseSsrc (hd media) = Inr s"
    and prm: "prm = params_for g ps" "0 < fec_rate prm" "fec_rate prm \<le> 255"
    and ends: "frame_ends_group (min_num_media_packets g) prm n" and m: "m = fec_count n (nat (fec_rate prm))"
    and sent: "\<forall>j < n. sent_as dchecks (extension_map exts) ulp (media ! j) (sent ! j)" "pt \<le> 0x7f"
    and fit: "\<forall>p \<in> set media. header_end (last media) + length p \<le> 1479"
    and ks: "row < m" "ks = filter (protects (encoder_mask (picked_type (fec_mask_type prm) n) n m 0 False) (mask_width n) row) [0..<n]" "l \<in> set ks"
    and js: "distinct (l # js)" "\<forall>j \<in> set js. j < n" "set ks \<subseteq> set (l # js)"
  shows "\<exists>g1 fs g2 f y r0 out r. add_packets dchecks ps g = Inr g1 \<and> GetFecPackets dchecks now g1 = Inr (fs, g2) \<and> idle g2 \<and>
    SetSequenceNumber sn (fs ! row) = Inr f \<and> cow_data (rtp_buffer f) = mem_of y \<and> new_UlpfecReceiver dchecks s ulp = Inr r0 \<and>
    receive_all dchecks exts (map (\<lambda>j. (t j, red_datagram pt (sent ! j))) js @ [(t', y)]) r0 = Inr (out, r) \<and>
    map (\<lambda>p. cow_data (rtp_buffer p)) out = map (\<lambda>j. mem_of (sent ! j)) js @ [mem_of (media ! l)] \<and>
    map rtp_recovered out = replicate (length js) False @ [True] \<and> num_recovered_packets (packet_counter r) = 1"
proof -
  have lens: "length p < 2 ^ 16" "length p \<le> 1480" if "p \<in> set media" for p
    using grp that by (force simp: rtp_group_def in_set_conv_nth)+
  let ?b = "last media" and ?red = "word_of_int (red_payload_type g) :: u8" and ?ulp = "word_of_int ulp :: u8"
  have ne: "media \<noteq> []" "0 < n" using ps(1,3) by (auto simp: frame_of_def)
  have last: "?b = media ! (n - 1)" "n - 1 < n" "?b \<in> set media" using ne ps(3) by (simp_all add: last_conv_nth)
  have b: "plain_rtp ?b" "rtp_packet (s0 + of_nat (d (n - 1))) s ?b"
    using sent(1) grp last ps(3) by (auto simp: sent_as_def changed_to_def rtp_group_def)
  from generator_frame [OF g(1-3) ps(1,3,4) num lens(1) s prm ends m, of dchecks now] ks(1) obtain g1 fs g2 wire where
    G: "add_packets dchecks ps g = Inr g1" "GetFecPackets dchecks now g1 = Inr (fs, g2)" "idle g2"
      "rtp_holds (fec_red_bytes (take (header_end ?b) ?b) ?red ?ulp wire) (fs ! row)"
      "reads_as_row UlpfecHeaderReader dchecks s s s0 d media m (fec_mask_type prm) row wire"
    unfolding ps(2) g(4) by blast
  define h where "h = take (header_end ?b) ?b"
  define y where "y = overwrite 2 (WriteBigEndian 2 sn) (fec_red_bytes h ?red ?ulp wire)"
  have hb: "12 \<le> header_end ?b" "header_end ?b \<le> length ?b" using b(1) header_end_12 [of ?b] by (auto simp: plain_rtp_def valid_rtp_def)
  define k where "k = 1479 - header_end ?b"
  have "length p \<le> k" if "p \<in> set media" for p using fit that by (auto simp: k_def)
  with ulpfec.wire_length [OF G(5), of k] have w: "12 \<le> length wire" "length wire \<le> 32 + (k - 12)" by auto
  have lf: "length (fec_red_bytes h ?red ?ulp wire) = header_end ?b + 1 + length wire" using hb by (simp add: fec_red_bytes_def h_def)
  then have ly: "length y \<le> 1500" "wire \<noteq> []" using w hb fit last(3) by (auto simp: y_def k_def)
  obtain f where f: "SetSequenceNumber sn (fs ! row) = Inr f" "cow_data (rtp_buffer f) = mem_of y"
    using SetSequenceNumber_ok [of "fs ! row" "fec_red_bytes h ?red ?ulp wire" sn] G(4) lf hb by (auto simp: rtp_holds_def h_def y_def)
  obtain r0 where r0: "new_UlpfecReceiver dchecks s ulp = Inr r0" "holding s ulp s0 d media [] r0"
    using g(5) by (simp add: new_UlpfecReceiver_def holding_def)
  have S: "plain_rtp (sent ! j) \<and> rtp_packet (s0 + of_nat (d j)) s (sent ! j) \<and> length (sent ! j) \<le> 1499 \<and>
      uint (sent ! j ! 1 AND 0x7f) \<noteq> ulp \<and> media ! j = zeroed_at (mutable_positions dchecks (extension_map exts) (sent ! j)) (sent ! j)"
    if "j < n" for j
    using changed_to_rtp [of dchecks "extension_map exts" "media ! j" "sent ! j"] sent(1) grp that ps(3) lens(2) [of "media ! j"]
    by (force simp: sent_as_def changed_to_def rtp_group_def)
  have js': "distinct js" "\<forall>i \<in> set js. i < n" using js by auto
  from receive_media_all [OF num ps(3,4) S sent(2) r0(2) js', where t = t] obtain out r1 where
    R: "receive_all dchecks exts (map (\<lambda>j. (t j, red_datagram pt (sent ! j))) js) r0 = Inr (out, r1)" "holding s ulp s0 d media js r1"
      "map (\<lambda>p. cow_data (rtp_buffer p)) out = map (\<lambda>j. mem_of (sent ! j)) js" "\<forall>p \<in> set out. \<not> rtp_recovered p" by blast
  have l: "plain_rtp (media ! l)" using sent(1) ks(2,3) by (auto simp: sent_as_def changed_to_def)
  have u: "?ulp \<le> 0x7f" "uint ?ulp = ulp" using g(5,6) by (simp_all add: seven_bit_int uint_word_of_int)
  from receive_fec [OF num ps(3,4) grp l b h_def y_def ly u R(2) G(5) ks(2,3) js, of exts t'] obtain p r2 where
    P: "receive_datagram dchecks exts (t', y) r1 = Inr ([p], r2)" "cow_data (rtp_buffer p) = mem_of (media ! l)" "rtp_recovered p"
      "num_recovered_packets (packet_counter r2) = 1" by blast
  have "receive_all dchecks exts (map (\<lambda>j. (t j, red_datagram pt (sent ! j))) js @ [(t', y)]) r0 = Inr (out @ [p], r2)"
    using R(1) P(1) by (simp add: receive_all_append)
  moreover have "length out = length js" using map_eq_imp_length_eq [OF R(3)] .
  then have "map rtp_recovered out = replicate (length js) False" using R(4) by (intro nth_equalityI) auto
  ultimately show ?thesis using G(1-3) f r0(1) R(3) P by auto
qed


text \<open>
  Claim C5. A frame is protected from the sender's packets to the receiver's callback. A frame of 1 to 48 RTP packets
  with rising sequence numbers goes through an idle generator with a protection rate above 0 that lets the frame end a
  group; the FEC packets come out in RED packets and the generator is idle again. The media packets \<open>js\<close>, in any order, and FEC packet
  \<open>row\<close> with whatever sequence number reach a new receiver in RED packets; the sender may have changed the mutable header extensions
  in between. If the FEC packet protects packet \<open>l\<close> and otherwise only packets that arrived, the callback gets the packets
  that arrived, as they were sent, and then packet \<open>l\<close>, byte for byte as it was protected and marked as recovered.
\<close>

theorem lost_packet_delivered:
  fixes sn :: u16
  assumes "idle g" "codec_ready UlpfecHeaderWriter (gen_fec g)" "red_types_ok g" "ulp = gen_ulpfec_payload_type g" "0 \<le> ulp" "ulp \<le> 127"
    and "frame_of media ps" "rtp_payload_offset (last ps) = header_end (last media)" "n = length media" "n \<le> 48"
    and "numbered s0 d media" "rtp_group s s0 d media" "ParseSsrc (hd media) = Inr s"
    and "prm = params_for g ps" "0 < fec_rate prm" "fec_rate prm \<le> 255"
    and "frame_ends_group (min_num_media_packets g) prm n" "m = fec_count n (nat (fec_rate prm))"
    and "\<forall>j < n. sent_as dchecks (extension_map exts) ulp (media ! j) (sent ! j)" "pt \<le> 0x7f"
    and "\<forall>p \<in> set media. header_end (last media) + length p \<le> 1479"
    and "row < m" "ks = filter (protects (encoder_mask (picked_type (fec_mask_type prm) n) n m 0 False) (mask_width n) row) [0..<n]" "l \<in> set ks"
    and "distinct (l # js)" "\<forall>j \<in> set js. j < n" "set ks \<subseteq> set (l # js)"
  shows "\<exists>g1 fs g2 f y r0 out r. add_packets dchecks ps g = Inr g1 \<and> GetFecPackets dchecks now g1 = Inr (fs, g2) \<and> idle g2 \<and>
    SetSequenceNumber sn (fs ! row) = Inr f \<and> cow_data (rtp_buffer f) = mem_of y \<and> new_UlpfecReceiver dchecks s ulp = Inr r0 \<and>
    receive_all dchecks exts (map (\<lambda>j. (t j, red_datagram pt (sent ! j))) js @ [(t', y)]) r0 = Inr (out, r) \<and>
    map (\<lambda>p. cow_data (rtp_buffer p)) out = map (\<lambda>j. mem_of (sent ! j)) js @ [mem_of (media ! l)] \<and>
    map rtp_recovered out = replicate (length js) False @ [True] \<and> num_recovered_packets (packet_counter r) = 1"
  using assms by (rule frame_transported)

definition demo_packet :: "bool \<Rightarrow> u8 list \<Rightarrow> RtpPacketToSend" where
  "demo_packet m b =
     \<lparr>rtp_marker = m, rtp_payload_type = 96, rtp_padding_size = 0, rtp_sequence_number = 0, rtp_timestamp = 1, rtp_ssrc = 7,
      rtp_payload_offset = 12, rtp_payload_size = length b - 12, rtp_extensions = new_RtpHeaderExtensionMap False,
      rtp_extension_entries = [], rtp_extensions_size = 0, rtp_buffer = buffer_of b, capture_time = 0, packet_type = Some kVideo,
      original_packet_type = None, allow_retransmission = True, is_key_frame = False, fec_protect_packet = True, is_red = False\<rparr>"

definition demo_generator :: UlpfecGenerator where
  "demo_generator = (new_UlpfecGenerator 98 97)\<lparr>current_params :=
     \<lparr>delta_params = \<lparr>fec_rate = 128, max_fec_frames = 1, fec_mask_type = kFecMaskRandom\<rparr>, keyframe_params = default_params\<rparr>\<rparr>"

theorem lost_packet_delivered_witness:
  "\<exists>g1 fs g2 f y r0 out r. add_packets True
       [demo_packet False [0x80, 96, 0xff, 0xff, 0, 0, 0, 1, 0, 0, 0, 7, 42], demo_packet True [0x80, 0xe0, 0, 1, 0, 0, 0, 1, 0, 0, 0, 7]]
       demo_generator = Inr g1 \<and> GetFecPackets True 5 g1 = Inr (fs, g2) \<and>
     SetSequenceNumber 2 (fs ! 0) = Inr f \<and> cow_data (rtp_buffer f) = mem_of y \<and> new_UlpfecReceiver True 7 97 = Inr r0 \<and>
     receive_all True None [(8, red_datagram 98 [0x80, 0xe0, 0, 1, 0, 0, 0, 1, 0, 0, 0, 7]), (9, y)] r0 = Inr (out, r) \<and>
     map (\<lambda>p. cow_data (rtp_buffer p)) out =
       [mem_of [0x80, 0xe0, 0, 1, 0, 0, 0, 1, 0, 0, 0, 7], mem_of [0x80, 96, 0xff, 0xff, 0, 0, 0, 1, 0, 0, 0, 7, 42]] \<and>
     map rtp_recovered out = [False, True]"
proof -
  let ?m0 = "[0x80, 96, 0xff, 0xff, 0, 0, 0, 1, 0, 0, 0, 7, 42] :: u8 list" and ?m1 = "[0x80, 0xe0, 0, 1, 0, 0, 0, 1, 0, 0, 0, 7] :: u8 list"
  let ?media = "[?m0, ?m1]" and ?ps = "[demo_packet False ?m0, demo_packet True ?m1]" and ?g = demo_generator
  let ?prm = "\<lparr>fec_rate = 128, max_fec_frames = 1, fec_mask_type = kFecMaskRandom\<rparr>"
  let ?d = "\<lambda>j. 2 * j" and ?B = "encoder_mask (picked_type kFecMaskRandom (length ?media)) (length ?media) 1 0 False"
  let ?ks = "filter (protects ?B (mask_width (length ?media)) 0) [0..<length ?media]"
  have two: "j = 0 \<or> j = 1" if "j < length ?media" for j using that by auto
  have 1: "idle ?g" "codec_ready UlpfecHeaderWriter (gen_fec ?g)" "red_types_ok ?g" "97 = gen_ulpfec_payload_type ?g"
      "?prm = params_for ?g ?ps" "min_num_media_packets ?g = 1"
    by (simp_all add: demo_generator_def new_UlpfecGenerator_def generator_with_def idle_def red_types_ok_def params_for_def demo_packet_def
        codec_ready_def CreateUlpfec_def new_ForwardErrorCorrection_def UlpfecHeaderWriter_def header_constants mask_constants)
  have he: "header_end ?m0 = 12" "header_end ?m1 = 12" by (simp_all add: header_end_def csrc_end_def)
  have 2: "frame_of ?media ?ps" "rtp_payload_offset (last ?ps) = header_end (last ?media)"
    by (simp_all add: he frame_of_def media_packet_def rtp_holds_def rtp_layout_def rtp_size_def demo_packet_def buffer_of_def)
  have "ParseSequenceNumber (?media ! j) = Inr (0xffff + of_nat (?d j))" if "j < length ?media" for j
    using two [OF that] by (elim disjE) (simp_all add: ParseSequenceNumber_def)
  then have num: "numbered 0xffff ?d ?media" unfolding numbered_def by simp
  have "rtp_packet (0xffff + of_nat (?d j)) 7 (?media ! j) \<and> length (?media ! j) \<le> 1480" if "j < length ?media" for j
    using two [OF that] by (elim disjE) (simp_all add: rtp_packet_def WriteBigEndian_def upt_rec)
  then have rtp: "rtp_group 7 0xffff ?d ?media" unfolding rtp_group_def by blast
  have s: "ParseSsrc (hd ?media) = Inr 7" by (simp add: ParseSsrc_def)
  have mut: "mutable_positions True (new_RtpHeaderExtensionMap False) ?m0 = {}" "mutable_positions True (new_RtpHeaderExtensionMap False) ?m1 = {}"
    by (rule no_mutable_positions; simp add: valid_rtp_def he padding_length_def)+
  have "sent_as True (extension_map None) 97 (?media ! j) (?media ! j)" if "j < length ?media" for j
    using two [OF that] by (elim disjE) (simp_all add: sent_as_def changed_to_def plain_rtp_def valid_rtp_def he padding_length_def extension_map_def mut)
  then have 4: "\<forall>j < length ?media. sent_as True (extension_map None) 97 (?media ! j) (?media ! j)" by blast
  have 5: "frame_ends_group (min_num_media_packets ?g) ?prm (length ?media)" "1 = fec_count (length ?media) (nat (fec_rate ?prm))"
    by (simp_all add: frame_ends_group_def fec_count_def)
  have "\<exists>r < 1. protects ?B (mask_width (length ?media)) r 0" by (rule encoder_mask_facts(2)) simp_all
  then have l: "0 \<in> set ?ks" by simp
  have "length ?media \<le> 48" "(0 :: int) \<le> 97" "(97 :: int) \<le> 127" "0 < fec_rate ?prm" "fec_rate ?prm \<le> 255" "(98 :: u8) \<le> 0x7f"
    "\<forall>p \<in> set ?media. header_end (last ?media) + length p \<le> 1479" "0 < (1 :: nat)" "distinct (0 # [1 :: nat])"
    "\<forall>j \<in> set [1]. j < length ?media" "set ?ks \<subseteq> set (0 # [1])"
    by (auto simp: he less_Suc_eq)
  note p = this
  have ks: "?ks = filter (protects (encoder_mask (picked_type (fec_mask_type ?prm) (length ?media)) (length ?media) 1 0 False)
      (mask_width (length ?media)) 0) [0..<length ?media]" by simp
  have "\<exists>g1 fs g2 f y r0 out r. add_packets True ?ps ?g = Inr g1 \<and> GetFecPackets True 5 g1 = Inr (fs, g2) \<and> idle g2 \<and>
    SetSequenceNumber 2 (fs ! 0) = Inr f \<and> cow_data (rtp_buffer f) = mem_of y \<and> new_UlpfecReceiver True 7 97 = Inr r0 \<and>
    receive_all True None (map (\<lambda>j. (8, red_datagram 98 (?media ! j))) [1] @ [(9, y)]) r0 = Inr (out, r) \<and>
    map (\<lambda>p. cow_data (rtp_buffer p)) out = map (\<lambda>j. mem_of (?media ! j)) [1] @ [mem_of (?media ! 0)] \<and>
    map rtp_recovered out = replicate (length [1 :: nat]) False @ [True] \<and> num_recovered_packets (packet_counter r) = 1"
    by (rule lost_packet_delivered [where t = "\<lambda>_. 8" and ulp = 97 and n = "length ?media" and d = ?d and s = 7 and ks = ?ks and
        m = 1 and prm = ?prm]) (rule 1 2 4 5 p num rtp s ks l refl)+
  then obtain g1 fs g2 f y r0 out r where
    D: "add_packets True ?ps ?g = Inr g1" "GetFecPackets True 5 g1 = Inr (fs, g2)" "SetSequenceNumber 2 (fs ! 0) = Inr f"
      "cow_data (rtp_buffer f) = mem_of y" "new_UlpfecReceiver True 7 97 = Inr r0"
      "receive_all True None (map (\<lambda>j. (8, red_datagram 98 (?media ! j))) [1] @ [(9, y)]) r0 = Inr (out, r)"
      "map (\<lambda>p. cow_data (rtp_buffer p)) out = map (\<lambda>j. mem_of (?media ! j)) [1] @ [mem_of (?media ! 0)]"
      "map rtp_recovered out = replicate (length [1 :: nat]) False @ [True]" by (elim exE conjE)
  have "?media ! 1 = ?m1" "?media ! 0 = ?m0" "length [1 :: nat] = Suc 0" by simp_all
  note E = D(6-8) [unfolded this list.map append.simps replicate.simps]
  show ?thesis by (intro exI conjI) (rule D(1-5) E)+
qed

section \<open>The RED header\<close>

lemma red_sent_and_received:
  assumes p: "media_packet b p" "rtp_payload_offset p = header_end b" and pt: "pt \<le> 0x7f"
    and b: "plain_rtp b" "rtp_packet sn s b" "length b \<le> 1499"
    and r: "ulp_ssrc r = s" "uint (b ! 1 AND 0x7f) \<noteq> ulp_payload_type r"
  shows "\<exists>q u x0 x r'. make_red dchecks pt p = Inr q \<and> is_red q \<and> cow_data (rtp_buffer q) = mem_of (red_datagram pt b) \<and>
    unpack_red dchecks q = Inr u \<and> media_packet b u \<and>
    new_RtpPacketReceived dchecks exts = Inr x0 \<and> rtp_Parse dchecks (buffer_of (red_datagram pt b)) x0 = Inr (True, x) \<and>
    AddReceivedRedPacket dchecks now x r = Inr (True, r') \<and>
    ulp_received_packets r' = ulp_received_packets r @
      [\<lparr>ssrc = s, seq_num = sn, is_fec = False, received_pkt = buffer_of b, is_recovered = False, received_extensions = extension_map exts\<rparr>]"
proof -
  have hs: "12 \<le> header_end b" "header_end b \<le> length b" using b(1) header_end_12 [of b] by (auto simp: plain_rtp_def valid_rtp_def)
  from make_red_ok [OF p(1) pt, of dchecks] obtain q where
    q: "make_red dchecks pt p = Inr q" "rtp_holds (red_bytes (header_end b) pt b) q" "is_red q" "rtp_payload_offset q = header_end b"
      "rtp_padding_size q = 0"
    unfolding p(2) by blast
  from unpack_red_ok [OF q(2,4,5) hs pt, of dchecks] obtain u where u: "unpack_red dchecks q = Inr u" "media_packet b u" by blast
  from add_red_media [OF b pt r(2,1), of dchecks exts now] obtain x0 x cnt where
    "new_RtpPacketReceived dchecks exts = Inr x0" "rtp_Parse dchecks (buffer_of (red_datagram pt b)) x0 = Inr (True, x)"
    "AddReceivedRedPacket dchecks now x r = Inr (True, r\<lparr>packet_counter := cnt, ulp_received_packets := ulp_received_packets r @
      [\<lparr>ssrc = s, seq_num = sn, is_fec = False, received_pkt = buffer_of b, is_recovered = False, received_extensions = extension_map exts\<rparr>]\<rparr>)"
    unfolding red_datagram_def by blast
  then show ?thesis using q u by (auto simp: rtp_holds_def red_datagram_def)
qed

text \<open>
  Claim C37. The RED header is put in front of the payload and taken off again, twice. A media packet without padding is put
  into a RED packet with payload type \<open>pt\<close>; the bytes of that packet are the ones the theorem on lost packets sends. Before the
  FEC generator sees it, the sender takes the media packet out of the RED packet again, byte for byte with its payload type;
  and the receiver, when the RED packet reaches it and the media payload type is not the one of the FEC packets, keeps the same media packet
  with its sequence number for the decoder.
\<close>

theorem red_roundtrip:
  assumes "media_packet b p" "rtp_payload_offset p = header_end b" "pt \<le> 0x7f"
    and "plain_rtp b" "rtp_packet sn s b" "length b \<le> 1499"
    and "ulp_ssrc r = s" "uint (b ! 1 AND 0x7f) \<noteq> ulp_payload_type r"
  shows "\<exists>q u x0 x r'. make_red dchecks pt p = Inr q \<and> is_red q \<and> cow_data (rtp_buffer q) = mem_of (red_datagram pt b) \<and>
    unpack_red dchecks q = Inr u \<and> media_packet b u \<and>
    new_RtpPacketReceived dchecks exts = Inr x0 \<and> rtp_Parse dchecks (buffer_of (red_datagram pt b)) x0 = Inr (True, x) \<and>
    AddReceivedRedPacket dchecks now x r = Inr (True, r') \<and>
    ulp_received_packets r' = ulp_received_packets r @
      [\<lparr>ssrc = s, seq_num = sn, is_fec = False, received_pkt = buffer_of b, is_recovered = False, received_extensions = extension_map exts\<rparr>]"
  using assms by (rule red_sent_and_received)

theorem red_roundtrip_witness:
  "\<exists>q u x0 x r'. make_red True 98 (demo_packet True [0x80, 0xe0, 0, 1, 0, 0, 0, 1, 0, 0, 0, 7, 42]) = Inr q \<and> is_red q \<and>
    cow_data (rtp_buffer q) = mem_of [0x80, 0xe2, 0, 1, 0, 0, 0, 1, 0, 0, 0, 7, 96, 42] \<and>
    unpack_red True q = Inr u \<and> media_packet [0x80, 0xe0, 0, 1, 0, 0, 0, 1, 0, 0, 0, 7, 42] u \<and>
    new_RtpPacketReceived True None = Inr x0 \<and>
    rtp_Parse True (buffer_of [0x80, 0xe2, 0, 1, 0, 0, 0, 1, 0, 0, 0, 7, 96, 42]) x0 = Inr (True, x) \<and>
    AddReceivedRedPacket True 5 x
      \<lparr>ulp_ssrc = 7, ulp_payload_type = 97, ulp_fec = CreateUlpfec 7, ulp_received_packets = [], ulp_recovered_packets = [],
       packet_counter = \<lparr>num_packets = 0, num_bytes = 0, num_fec_packets = 0, num_recovered_packets = 0, first_packet_time = None\<rparr>\<rparr> =
      Inr (True, r') \<and>
    ulp_received_packets r' =
      [\<lparr>ssrc = 7, seq_num = 1, is_fec = False, received_pkt = buffer_of [0x80, 0xe0, 0, 1, 0, 0, 0, 1, 0, 0, 0, 7, 42], is_recovered = False,
        received_extensions = extension_map None\<rparr>]"
proof -
  let ?b = "[0x80, 0xe0, 0, 1, 0, 0, 0, 1, 0, 0, 0, 7, 42] :: u8 list" and ?p = "demo_packet True [0x80, 0xe0, 0, 1, 0, 0, 0, 1, 0, 0, 0, 7, 42]"
  have he: "header_end ?b = 12" by (simp add: header_end_def csrc_end_def)
  have 1: "media_packet ?b ?p" "rtp_payload_offset ?p = header_end ?b" "(98 :: u8) \<le> 0x7f"
    by (simp_all add: he media_packet_def rtp_holds_def rtp_layout_def rtp_size_def demo_packet_def buffer_of_def)
  have 2: "plain_rtp ?b" "rtp_packet 1 7 ?b" "length ?b \<le> 1499"
    by (simp_all add: plain_rtp_def valid_rtp_def he padding_length_def rtp_packet_def WriteBigEndian_def upt_rec)
  have red: "red_datagram 98 ?b = [0x80, 0xe2, 0, 1, 0, 0, 0, 1, 0, 0, 0, 7, 96, 42]"
    by (simp add: red_datagram_def red_bytes_def he)
  show ?thesis
    using red_roundtrip [OF 1 2, where dchecks = True and exts = None and now = 5 and
        r = "\<lparr>ulp_ssrc = 7, ulp_payload_type = 97, ulp_fec = CreateUlpfec 7, ulp_received_packets = [], ulp_recovered_packets = [],
          packet_counter = \<lparr>num_packets = 0, num_bytes = 0, num_fec_packets = 0, num_recovered_packets = 0, first_packet_time = None\<rparr>\<rparr>"]
    unfolding red by simp
qed

end
