(* ===== verification/Server_Fairness.thy ===== *)
theory Server_Fairness
  imports Server_Examples
begin

text \<open>
  Fair executions of the server: the GUI thread inside \<open>StopSending\<close>, the reader and the workers all take steps again and
  again. Every run can be continued to one, unless it has ended with a thread terminated by force. In all of them a
  \<open>StopSending\<close> that has begun returns after its threads have returned by themselves.
\<close>

section \<open>Threads\<close>

datatype server_thread = Gui_thread | Reader_thread | Worker_thread nat

fun thread_step :: "os_env \<Rightarrow> server_thread \<Rightarrow> server \<Rightarrow> (server \<times> event list) res" where
  "thread_step env Gui_thread s =
     (case gui s of
        G_idle \<Rightarrow> Inr (s, []) | G_notify i \<Rightarrow> Inr (notify_state s, [])
      | G_wake_state i b \<Rightarrow> Inr (stop_wake s, []) | G_wake_queue i b \<Rightarrow> Inr (stop_wake s, [])
      | G_join n b \<Rightarrow> if n = 0 then Inr (stop_finish env s) else Inr (stop_join s, [])
      | G_terminated \<Rightarrow> Inr (s, []))"
| "thread_step env Reader_thread s = reader_step env s"
| "thread_step env (Worker_thread i) s = worker_step env i s"

definition server_threads :: "server_thread set" where
  "server_threads = {Gui_thread, Reader_thread} \<union> Worker_thread ` {..<SOCKET_POOL_SIZE}"

definition moves :: "os_env \<Rightarrow> server_thread \<Rightarrow> server \<Rightarrow> server \<Rightarrow> bool" where
  "moves env t s s' \<longleftrightarrow> t = Gui_thread \<and> gui s = G_idle \<or> (\<exists>evs. thread_step env t s = Inr (s', evs))"

abbreviation fair_execution :: "os_env \<Rightarrow> (nat \<Rightarrow> server) \<Rightarrow> bool" where
  "fair_execution env f \<equiv> execution (server_step env) f \<and> fair (moves env) server_threads f"

text \<open>A forced termination ends an execution, and no thread makes such a step by itself.\<close>

lemma terminated_stuck: "server_step env s evs s' \<Longrightarrow> gui s \<noteq> G_terminated"
  by (induction rule: server_step.induct) auto

lemma start_rest_gui:
  assumes "start_rest env s = (s', evs)" "length (wk_pc s) = 3" "gui s = G_idle" "\<forall>i < 3. wk_pc s ! i = W_none"
  shows "gui s' = G_idle \<or> gui s' = G_wake_state 0 False"
  using start_rest_started [OF assms] assms(3) by (auto simp: started_def)

lemma thread_step_gui:
  assumes "thread_step env t s = Inr (s', evs)" "full_inv s" "gui s \<noteq> G_terminated"
  shows "gui s' \<noteq> G_terminated"
proof (cases t)
  case Gui_thread
  have len: "length (wk_pc s) = 3" using assms(2) by (simp add: full_inv_def server_inv_def)
  show ?thesis
  proof (cases "\<exists>b. gui s = G_join 0 b")
    case True
    then obtain b where b: "gui s = G_join 0 b" by blast
    then have "stop_finish env s = (s', evs)" using assms(1) Gui_thread by simp
    then show ?thesis
      using start_rest_gui [of env "stop_cleanup s" s' evs] len b by (cases rule: stop_finish_cases) auto
  qed (use assms(1,3) Gui_thread in \<open>auto simp: notify_state_def stop_wake_def stop_join_def SOCKET_POOL_SIZE_def
      split: gui_pc.splits if_splits nat.splits\<close>)
next
  case Reader_thread
  then show ?thesis using reader_step_frame [of env s s' evs] assms by (auto simp: full_inv_def)
next
  case (Worker_thread i)
  then show ?thesis using worker_step_frame [of env i s s' evs] assms(1,3) by (auto simp: worker_frame_def)
qed

lemma idle_step: "gui s = G_idle \<Longrightarrow> server_step env s [] s"
  using server_step.channel_state [of s env "- 1" True] by (simp add: channelStateChange_def)

lemma thread_step_ok:
  assumes "full_inv s" "t \<in> server_threads" "gui s \<noteq> G_terminated"
  shows "\<exists>s' evs. thread_step env t s = Inr (s', evs) \<and> server_step env s evs s' \<and> gui s' \<noteq> G_terminated"
proof -
  have "\<exists>s' evs. thread_step env t s = Inr (s', evs) \<and> server_step env s evs s'"
  proof (cases t)
    case Gui_thread
    obtain s1 evs where s1: "stop_finish env s = (s1, evs)" by fastforce
    show ?thesis
      using Gui_thread assms(3) idle_step [of s env] server_step.notify [of s _ env] server_step.stop_waking [of s env]
        server_step.stop_joining [of s env] server_step.stop_joined [OF _ s1] s1
      by (cases "gui s") auto
  next
    case Reader_thread
    then show ?thesis using assms(1,3) reader_step_inv [of s env] server_step.reader by (fastforce simp: full_inv_def)
  next
    case (Worker_thread i)
    then have "i < 3" "i < SOCKET_POOL_SIZE" using assms(2) by (auto simp: server_threads_def SOCKET_POOL_SIZE_def)
    then show ?thesis
      using Worker_thread assms(1,3) worker_step_inv [of s i env] server_step.worker by (fastforce simp: full_inv_def)
  qed
  then show ?thesis using thread_step_gui [of env t s] assms(1,3) by blast
qed

text \<open>Every run can be continued fairly: the threads take turns.\<close>

definition turn :: "nat \<Rightarrow> server_thread" where
  "turn k = [Gui_thread, Reader_thread, Worker_thread 0, Worker_thread 1, Worker_thread 2] ! (k mod 5)"

primrec round_robin :: "os_env \<Rightarrow> server \<Rightarrow> nat \<Rightarrow> server" where
  "round_robin env s 0 = s"
| "round_robin env s (Suc k) =
     (case thread_step env (turn k) (round_robin env s k) of Inl e \<Rightarrow> round_robin env s k | Inr (s', evs) \<Rightarrow> s')"

lemma turn_threads: "turn k \<in> server_threads"
proof -
  have "k mod 5 < 5" by simp
  then consider "k mod 5 = 0" | "k mod 5 = 1" | "k mod 5 = 2" | "k mod 5 = 3" | "k mod 5 = 4" by linarith
  then show ?thesis by cases (simp_all add: turn_def server_threads_def SOCKET_POOL_SIZE_def)
qed

lemma turn_comes:
  assumes "t \<in> server_threads"
  shows "\<exists>m \<ge> k. turn m = t"
proof -
  have at: "turn (5 * k + j) = [Gui_thread, Reader_thread, Worker_thread 0, Worker_thread 1, Worker_thread 2] ! j" if "j < 5" for j
    using that by (simp add: turn_def)
  have turns: "turn (5 * k) = Gui_thread" "turn (5 * k + 1) = Reader_thread" "turn (5 * k + 2) = Worker_thread 0"
      "turn (5 * k + 3) = Worker_thread 1" "turn (5 * k + 4) = Worker_thread 2"
    using at [of 0] at [of 1] at [of 2] at [of 3] at [of 4] by (simp_all del: add_2_eq_Suc')
  have "i = 0 \<or> i = 1 \<or> i = 2" if "i < 3" for i :: nat using that by linarith
  then have "t \<in> turn ` {5 * k, 5 * k + 1, 5 * k + 2, 5 * k + 3, 5 * k + 4}"
    unfolding image_insert turns using assms by (auto simp: server_threads_def SOCKET_POOL_SIZE_def)
  then obtain m where "m \<in> {5 * k, 5 * k + 1, 5 * k + 2, 5 * k + 3, 5 * k + 4}" "turn m = t" by blast
  then show ?thesis by (intro exI [of _ m]) auto
qed

lemma round_robin_step:
  assumes "full_inv s" "gui s \<noteq> G_terminated"
  shows "full_inv (round_robin env s k) \<and> gui (round_robin env s k) \<noteq> G_terminated \<and>
    (\<exists>evs. server_step env (round_robin env s k) evs (round_robin env s (Suc k)) \<and>
      thread_step env (turn k) (round_robin env s k) = Inr (round_robin env s (Suc k), evs))"
proof (induction k)
  case 0
  from thread_step_ok [OF assms(1) turn_threads assms(2), of env 0] show ?case using assms by auto
next
  case (Suc k)
  then obtain evs where "full_inv (round_robin env s k)" "gui (round_robin env s k) \<noteq> G_terminated"
    "server_step env (round_robin env s k) evs (round_robin env s (Suc k))"
    "thread_step env (turn k) (round_robin env s k) = Inr (round_robin env s (Suc k), evs)" by blast
  then have inv: "full_inv (round_robin env s (Suc k))" "gui (round_robin env s (Suc k)) \<noteq> G_terminated"
    using full_inv_step thread_step_gui by blast+
  with thread_step_ok [OF inv(1) turn_threads inv(2), of env "Suc k"] show ?case by auto
qed

lemma fair_continuation:
  assumes "runs (server_step env) s0 tr s" "full_inv s0" and live: "gui s \<noteq> G_terminated"
  shows "\<exists>f n. fair_execution env f \<and> f 0 = s0 \<and> f n = s"
proof -
  from runs_path [OF assms(1)] obtain f n where
    f: "f 0 = s0" "f n = s" "\<forall>k < n. \<exists>evs. server_step env (f k) evs (f (Suc k))" by blast
  have inv: "full_inv s" by (rule threads.runs_preserve [OF assms(1,2)])
  define g where "g k = (if k < n then f k else round_robin env s (k - n))" for k
  have g: "g n = s" "g 0 = s0" "g (n + k) = round_robin env s k" for k using f by (auto simp: g_def)
  have "\<exists>evs. server_step env (g k) evs (g (Suc k))" for k
  proof (cases "k < n")
    case True
    then show ?thesis using f by (cases "Suc k = n") (auto simp: g_def)
  next
    case False
    then obtain j where "k = n + j" using le_Suc_ex not_less by blast
    then show ?thesis using round_robin_step [OF inv live, of env j] g(3) [of j] g(3) [of "Suc j"] by auto
  qed
  moreover have "\<exists>m \<ge> k. moves env t (g m) (g (Suc m))" if "t \<in> server_threads" for t k
  proof -
    from turn_comes [OF that, of k] obtain m where m: "k \<le> m" "turn m = t" by blast
    then show ?thesis
      using round_robin_step [OF inv live, of env m] g(3) [of m] g(3) [of "Suc m"]
      by (intro exI [of _ "n + m"]) (auto simp: moves_def)
  qed
  ultimately show ?thesis using g(1,2) unfolding execution_def fair_def by blast
qed

section \<open>Stopping\<close>

definition stop_in_progress :: "bool \<Rightarrow> server \<Rightarrow> bool" where
  "stop_in_progress resume s \<longleftrightarrow>
     (\<exists>i. gui s = G_wake_state i resume) \<or> (\<exists>i. gui s = G_wake_queue i resume) \<or> (\<exists>n. gui s = G_join n resume)"

text \<open>
  A stop ends with the GUI thread idle and no threads; a restart may instead begin another stop, when a worker cannot
  be created.
\<close>

definition stop_reached :: "bool \<Rightarrow> server \<Rightarrow> server \<Rightarrow> bool" where
  "stop_reached resume s s' \<longleftrightarrow> gui s' = G_terminated \<or> gui s = G_join 0 resume \<and>
     (if resume then gui s' = G_idle \<or> stop_in_progress False s' else gui s' = G_idle \<and> workerThreads s' = 0)"

text \<open>
  What is still to do: the program point of the GUI thread, the packets and program point of the reader, the program points
  of the workers. Nothing of it grows again once the server is not running.
\<close>

fun gui_rank :: "gui_pc \<Rightarrow> nat" where
  "gui_rank (G_wake_state i b) = 6 + 2 * (3 - i)"
| "gui_rank (G_wake_queue i b) = 5 + 2 * (3 - i)"
| "gui_rank (G_join n b) = Suc n"
| "gui_rank g = 0"

fun reader_distance :: "reader_pc \<Rightarrow> nat \<Rightarrow> nat" where
  "reader_distance R_none n = 0"
| "reader_distance R_done n = 0"
| "reader_distance R_while n = 1"
| "reader_distance R_nochannel n = 2"
| "reader_distance R_search n = 3"
| "reader_distance R_open n = 2"
| "reader_distance R_read n = 9 + 2 * n"
| "reader_distance R_push n = 2 + 2 * n"
| "reader_distance R_wake n = 3 + 2 * n"

definition reader_rank :: "server \<Rightarrow> nat" where
  "reader_rank s = reader_distance (rd_pc s) (length (buffer_packets (fec s)))"

definition stop_rank :: "server \<Rightarrow> nat" where
  "stop_rank s = gui_rank (gui s) + reader_rank s + (\<Sum>i<3. worker_distance (wk_pc s ! i))"

text \<open>The reader waits for the mutex of the queue it pushes to.\<close>

definition reader_blocked :: "server \<Rightarrow> bool" where
  "reader_blocked s \<longleftrightarrow> rd_pc s = R_push \<and> buffer_packets (fec s) \<noteq> [] \<and> holds_queue (wk_pc s ! nat (target_channel s))"

definition thread_helper :: "nat \<Rightarrow> server \<Rightarrow> server_thread" where
  "thread_helper k s =
     (if thread_finished k s then Gui_thread
      else if k \<noteq> 0 then Worker_thread (k - 1)
      else if reader_blocked s then Worker_thread (nat (target_channel s)) else Reader_thread)"

definition stop_helper :: "server \<Rightarrow> server_thread" where
  "stop_helper s =
     (case gui s of
        G_wake_queue i b \<Rightarrow> if holds_queue (wk_pc s ! i) then Worker_thread i else Gui_thread
      | G_join n b \<Rightarrow> (case n of 0 \<Rightarrow> Gui_thread | Suc k \<Rightarrow> thread_helper k s)
      | _ \<Rightarrow> Gui_thread)"

subsection \<open>Each thread comes nearer to its end\<close>

lemma stop_rank_less:
  assumes "gui s' = gui s" "reader_rank s' \<le> reader_rank s"
    "\<And>i. i < 3 \<Longrightarrow> worker_distance (wk_pc s' ! i) \<le> worker_distance (wk_pc s ! i)"
    "reader_rank s' < reader_rank s \<or> (\<exists>i < 3. worker_distance (wk_pc s' ! i) < worker_distance (wk_pc s ! i))"
  shows "stop_rank s' < stop_rank s"
proof -
  let ?d = "\<lambda>s. \<Sum>i<3. worker_distance (wk_pc s ! i)"
  have le: "?d s' \<le> ?d s" using assms(3) by (intro sum_mono) simp
  moreover have "?d s' < ?d s" if "\<exists>i < 3. worker_distance (wk_pc s' ! i) < worker_distance (wk_pc s ! i)"
    using that assms(3) by (intro sum_strict_mono_ex1) auto
  ultimately have "reader_rank s' + ?d s' < reader_rank s + ?d s"
    using assms(2,4) by (meson add_le_less_mono add_less_le_mono)
  then show ?thesis using assms(1) by (simp add: stop_rank_def)
qed

lemma worker_nearer:
  assumes "server_inv s" "i < 3" "\<not> is_running s" "worker_step env i s = Inr (s', evs)"
  shows "s' = s \<and> (asleep (wk_pc s ! i) \<or> worker_ended (wk_pc s ! i)) \<or> stop_rank s' < stop_rank s"
proof (cases "asleep (wk_pc s ! i) \<or> worker_ended (wk_pc s ! i)")
  case True
  then show ?thesis using assms(4) by (auto simp: asleep_def worker_ended_def worker_step_def)
next
  case False
  then have "worker_distance (wk_pc s' ! i) < worker_distance (wk_pc s ! i)"
    using worker_step_distance [OF assms(1-3) _ assms(4)] worker_distance_0 [of "wk_pc s ! i"] by (auto simp: worker_ended_def)
  moreover from this have "worker_distance (wk_pc s' ! j) \<le> worker_distance (wk_pc s ! j)" for j
    using worker_step_frame [OF assms(4)] by (cases "j = i") (auto simp: worker_frame_def)
  ultimately show ?thesis
    using worker_step_frame [OF assms(4)] assms(2) by (intro disjI2 stop_rank_less) (auto simp: worker_frame_def reader_rank_def)
qed

lemma woken_distance:
  assumes "j < length (wk_pc s)"
  shows "wake_queue j s = s \<or> worker_distance (wk_pc (wake_queue j s) ! j) < worker_distance (wk_pc s ! j)"
    "wake_state j s = s \<or> worker_distance (wk_pc (wake_state j s) ! j) < worker_distance (wk_pc s ! j)"
    "worker_distance (wk_pc (wake_queue j s) ! i) \<le> worker_distance (wk_pc s ! i)"
    "worker_distance (wk_pc (wake_state j s) ! i) \<le> worker_distance (wk_pc s ! i)"
  using assms by (auto simp: wake_queue_def wake_state_def nth_list_update split: worker_pc.splits)

lemma woken_nearer:
  assumes "j < 3" "length (wk_pc s) = 3"
  shows "wake_queue j s = s \<or> stop_rank (wake_queue j s) < stop_rank s" "wake_state j s = s \<or> stop_rank (wake_state j s) < stop_rank s"
  using assms woken_distance [of j s]
  by (auto intro!: stop_rank_less simp: reader_rank_def)

lemma read_chunk_grows:
  assumes "server_inv s" "rd_pc s = R_read" "read_chunk env s = Inr (s', evs)"
  shows "rd_pc s' = R_done \<or> rd_pc s' = R_push \<and> length (buffer_packets (fec s')) \<le> length (buffer_packets (fec s)) + 3"
proof (cases "read_error env (n_reads s)")
  case False
  let ?c = "take readChunkSize (rd_file s)"
  from assms(1) obtain n g ds where rel: "fec_rel 10 2 n g ds (fec s)" "n \<le> 1024" "fec_first_use (fec s) \<longrightarrow> ds = []"
    by (auto simp: server_inv_def fec_ok_def)
  from read_chunk_eq [OF assms(1,2) False] obtain f where
    f: "PacketByFEC (dchecks_on env) (mem_of (flight_payload (sysword s) ?c) @ replicate (2000 - (15 + length ?c)) None)
        (int (15 + length ?c)) fec_k fec_r (fec s) = Inr f" "length ?c \<le> 1009" "rd_pc s' = R_push" "fec s' = f"
    using assms(3) by auto
  obtain xs where "buffer_packets f = buffer_packets (fec s) @ emitted 10 2 g ds xs"
    using PacketByFEC_chunk [OF rel f(2) refl, of "dchecks_on env" "sysword s"] f(1) by auto
  moreover have "length (emitted 10 2 g ds xs) \<le> 3" by (simp add: emitted_def group_fec_def)
  ultimately show ?thesis using f(3,4) by simp
qed (use assms(3) in \<open>auto simp: read_chunk_def Let_def\<close>)

lemma reader_nearer:
  assumes inv: "server_inv s" and run: "\<not> is_running s" and st: "reader_step env s = Inr (s', evs)"
  shows "s' = s \<and> (thread_finished 0 s \<or> reader_blocked s) \<or> stop_rank s' < stop_rank s"
proof (cases "thread_finished 0 s \<or> reader_blocked s")
  case True
  have "nat (target_channel s) < length (channels s)" if "rd_pc s = R_push"
    using inv that by (auto simp: server_inv_def reader_ok_def)
  then show ?thesis
    using True st by (auto simp: thread_finished_def reader_blocked_def reader_step_def Let_def split: list.splits)
next
  case False
  note fr = reader_step_frame [OF st inv]
  have "reader_rank s' < reader_rank s"
  proof (cases "rd_pc s")
    case R_read
    from read_chunk_grows [OF inv R_read, of env s' evs] st R_read show ?thesis by (auto simp: reader_step_def reader_rank_def)
  qed (use False st run in \<open>auto simp: reader_step_def reader_rank_def thread_finished_def reader_blocked_def Let_def
      split: option.splits list.splits if_splits\<close>)
  moreover have "rd_pc s = R_wake \<Longrightarrow> nat (target_channel s) < length (wk_pc s)"
    using inv by (auto simp: server_inv_def reader_ok_def)
  then have "worker_distance (wk_pc s' ! i) \<le> worker_distance (wk_pc s ! i)" for i
    using fr woken_distance(3) by (cases "rd_pc s = R_wake") auto
  moreover have "gui s' = gui s" using fr by blast
  ultimately have "stop_rank s' < stop_rank s" by (intro stop_rank_less) simp_all
  then show ?thesis ..
qed

subsection \<open>The GUI thread\<close>

lemma stop_wake_progress:
  assumes "full_inv s" "stop_in_progress b s"
  shows "stop_in_progress b (stop_wake s) \<and> (stop_wake s = s \<or> stop_rank (stop_wake s) < stop_rank s)"
proof -
  have len: "length (wk_pc s) = 3" and g: "gui_ok s (gui s)" "workerThreads s \<le> 4"
    using assms(1) by (simp_all add: full_inv_def server_inv_def threads_ok_def)
  have d: "(\<Sum>i<3. worker_distance (wk_pc (wake_queue j s) ! i)) \<le> (\<Sum>i<3. worker_distance (wk_pc s ! i))"
      "(\<Sum>i<3. worker_distance (wk_pc (wake_state j s) ! i)) \<le> (\<Sum>i<3. worker_distance (wk_pc s ! i))" if "j < 3" for j
    using that len woken_distance(3,4) [of j s] by (auto intro!: sum_mono)
  show ?thesis
  proof (cases "gui s")
    case (G_wake_state i c)
    then show ?thesis
      using assms(2) d(2) [of i] g by (auto simp: stop_wake_def SOCKET_POOL_SIZE_def stop_in_progress_def stop_rank_def reader_rank_def)
  next
    case (G_wake_queue i c)
    then show ?thesis
      using assms(2) d(1) [of i] g by (auto simp: stop_wake_def stop_in_progress_def stop_rank_def reader_rank_def)
  qed (use assms(2) in \<open>auto simp: stop_wake_def\<close>)
qed

lemma stop_join_progress:
  assumes "stop_in_progress b s"
  shows "stop_in_progress b (stop_join s) \<and> (stop_join s = s \<or> stop_rank (stop_join s) < stop_rank s)"
proof (cases "\<exists>k. gui s = G_join (Suc k) b \<and> thread_finished k s")
  case True
  then obtain k where k: "gui s = G_join (Suc k) b" "stop_join s = s\<lparr>gui := G_join k b\<rparr>" by (auto simp: stop_join_def)
  then show ?thesis by (simp add: stop_in_progress_def stop_rank_def reader_rank_def)
next
  case False
  then have "stop_join s = s" using assms by (auto simp: stop_join_def stop_in_progress_def split: nat.splits)
  then show ?thesis using assms by simp
qed

lemma stop_finish_progress:
  assumes "full_inv s" "stop_in_progress b s" "stop_finish env s = (s', evs)"
  shows "if gui s = G_join 0 b then stop_reached b s s' else s' = s"
proof (cases "gui s = G_join 0 b")
  case True
  have len: "length (wk_pc s) = 3" using assms(1) by (simp add: full_inv_def server_inv_def)
  show ?thesis
  proof (cases b)
    case True
    then have "start_rest env (stop_cleanup s) = (s', evs)" using \<open>gui s = G_join 0 b\<close> assms(3) by (simp add: stop_finish_def)
    from start_rest_gui [OF this] show ?thesis
      using len True \<open>gui s = G_join 0 b\<close> by (auto simp: stop_reached_def stop_in_progress_def)
  qed (use True assms(3) in \<open>auto simp: stop_finish_def stop_reached_def\<close>)
qed (use assms(2,3) in \<open>auto simp: stop_in_progress_def stop_finish_def split: if_splits\<close>)

subsection \<open>The end of a stop\<close>

lemma stop_not_undone:
  assumes inv: "full_inv s" and p: "stop_in_progress b s" and st: "server_step env s evs s'"
  shows "stop_reached b s s' \<or> stop_in_progress b s' \<and> (s' = s \<or> stop_rank s' < stop_rank s)"
proof -
  have srv: "server_inv s" "length (wk_pc s) = 3" using inv by (simp_all add: full_inv_def server_inv_def)
  have g: "in_stop (gui s)" using p by (auto simp: stop_in_progress_def)
  then have run: "\<not> is_running s" using inv stop_not_running [of s "gui s"] by (auto simp: full_inv_def threads_ok_def)
  have same: "stop_in_progress b s'" if "gui s' = gui s" using p that by (simp add: stop_in_progress_def)
  from st show ?thesis
  proof (cases rule: server_step.cases)
    case reader
    then show ?thesis using reader_nearer [OF srv(1) run reader(1)] reader_step_frame [OF reader(1) srv(1)] same by blast
  next
    case (worker j)
    then have "worker_frame j s s'" "j < 3" by (auto simp: worker_step_frame SOCKET_POOL_SIZE_def)
    then show ?thesis using worker_nearer [OF srv(1) _ run worker(2)] same by (auto simp: worker_frame_def)
  next
    case (spurious_queue i)
    then show ?thesis using woken_nearer(1) [of i s] srv(2) same by (auto simp: SOCKET_POOL_SIZE_def)
  next
    case (spurious_state i)
    then show ?thesis using woken_nearer(2) [of i s] srv(2) same by (auto simp: SOCKET_POOL_SIZE_def)
  next
    case stop_waking
    then show ?thesis using stop_wake_progress [OF inv p] by auto
  next
    case stop_joining
    then show ?thesis using stop_join_progress [OF p] by auto
  next
    case stop_joined
    from stop_finish_progress [OF inv p this(2)] show ?thesis using p by (cases "gui s = G_join 0 b") auto
  next
    case (stop_timeout k resume)
    then show ?thesis by (simp add: stop_reached_def)
  qed (use g in auto)
qed

lemma join_not_asleep: "full_inv s \<Longrightarrow> gui s = G_join n b \<Longrightarrow> i < 3 \<Longrightarrow> \<not> asleep (wk_pc s ! i)"
  by (auto simp: full_inv_def threads_ok_def wake_ok_def asleep_def)

lemma worker_helps:
  assumes "full_inv s" "in_stop (gui s)" "i < 3" "\<not> asleep (wk_pc s ! i)" "\<not> worker_ended (wk_pc s ! i)"
    "moves env (Worker_thread i) s s'"
  shows "stop_rank s' < stop_rank s"
proof -
  have "server_inv s" "\<not> is_running s"
    using assms(1,2) stop_not_running [of s "gui s"] by (auto simp: full_inv_def threads_ok_def)
  moreover obtain evs where "worker_step env i s = Inr (s', evs)" using assms(6) by (auto simp: moves_def)
  ultimately show ?thesis using worker_nearer [of s i env s' evs] assms(3-5) by blast
qed

lemma holds_queue_awake: "holds_queue pc \<Longrightarrow> \<not> asleep pc \<and> \<not> worker_ended pc"
  by (auto simp: holds_queue_def asleep_def worker_ended_def)

lemma thread_helps:
  assumes inv: "full_inv s" and g: "gui s = G_join (Suc k) b" and mv: "moves env (thread_helper k s) s s'"
  shows "stop_rank s' < stop_rank s"
proof -
  have k: "k < 4" and srv: "server_inv s" and run: "\<not> is_running s"
    using inv g by (simp_all add: full_inv_def threads_ok_def)
  note works = worker_helps [OF inv, of _ env s', unfolded g, simplified]
  consider (ended) "thread_finished k s" | (worker) "\<not> thread_finished k s" "k \<noteq> 0"
    | (blocked) "\<not> thread_finished k s" "k = 0" "reader_blocked s" | (reader) "\<not> thread_finished k s" "k = 0" "\<not> reader_blocked s"
    by blast
  then show ?thesis
  proof cases
    case ended
    then have "s' = s\<lparr>gui := G_join k b\<rparr>" using mv g by (auto simp: thread_helper_def moves_def stop_join_def)
    then show ?thesis using g by (simp add: stop_rank_def reader_rank_def)
  next
    case worker
    then show ?thesis
      using works [of "k - 1"] join_not_asleep [OF inv g, of "k - 1"] mv k by (auto simp: thread_helper_def thread_finished_def)
  next
    case blocked
    then have "nat (target_channel s) < 3" using srv by (auto simp: reader_blocked_def server_inv_def reader_ok_def)
    then show ?thesis
      using works [of "nat (target_channel s)"] blocked mv holds_queue_awake by (auto simp: thread_helper_def reader_blocked_def)
  next
    case reader
    then obtain evs where "reader_step env s = Inr (s', evs)" using mv by (auto simp: thread_helper_def moves_def)
    then show ?thesis using reader_nearer [OF srv run] reader by blast
  qed
qed

lemma stop_helps:
  assumes inv: "full_inv s" and p: "stop_in_progress b s" and mv: "moves env (stop_helper s) s s'"
  shows "stop_reached b s s' \<or> stop_rank s' < stop_rank s"
proof (cases "gui s")
  case (G_wake_state i c)
  then have "s' = stop_wake s" "stop_wake s \<noteq> s"
    using mv by (auto simp: moves_def stop_helper_def stop_wake_def dest!: arg_cong [where f = gui] split: if_splits)
  then show ?thesis using stop_wake_progress [OF inv p] by auto
next
  case (G_wake_queue i c)
  have i: "i < 3" using inv G_wake_queue by (simp add: full_inv_def threads_ok_def)
  show ?thesis
  proof (cases "holds_queue (wk_pc s ! i)")
    case True
    then show ?thesis
      using worker_helps [OF inv _ i _ _, of env s'] holds_queue_awake G_wake_queue mv by (simp add: stop_helper_def)
  next
    case False
    then have "s' = stop_wake s" "stop_wake s \<noteq> s"
      using mv G_wake_queue by (auto simp: moves_def stop_helper_def stop_wake_def dest: arg_cong [where f = gui])
    then show ?thesis using stop_wake_progress [OF inv p] by auto
  qed
next
  case (G_join n c)
  then have c: "c = b" using p by (simp add: stop_in_progress_def)
  show ?thesis
  proof (cases n)
    case 0
    then obtain evs where "stop_finish env s = (s', evs)" using mv G_join by (auto simp: moves_def stop_helper_def)
    then show ?thesis using stop_finish_progress [OF inv p] G_join 0 c by auto
  next
    case (Suc k)
    then show ?thesis using thread_helps [OF inv] G_join mv by (auto simp: stop_helper_def)
  qed
qed (use p in \<open>auto simp: stop_in_progress_def\<close>)

lemma stop_helper_fair:
  assumes "full_inv s" "stop_in_progress b s"
  shows "stop_helper s \<in> server_threads"
proof -
  have "gui_ok s (gui s)" and srv: "server_inv s" using assms(1) by (simp_all add: full_inv_def threads_ok_def)
  moreover have "reader_blocked s \<Longrightarrow> nat (target_channel s) < 3" using srv by (auto simp: reader_blocked_def server_inv_def reader_ok_def)
  ultimately show ?thesis
    by (cases "gui s") (auto simp: stop_helper_def thread_helper_def server_threads_def SOCKET_POOL_SIZE_def split: nat.splits)
qed

interpretation stops: fair_progress "server_step env" full_inv "moves env" server_threads "stop_in_progress b" "stop_reached b"
    stop_rank stop_helper for env b
proof
  show "full_inv s \<Longrightarrow> stop_in_progress b s \<Longrightarrow> server_step env s evs s' \<Longrightarrow> stop_reached b s s' \<or>
    stop_in_progress b s' \<and> (stop_rank s' < stop_rank s \<or> stop_rank s' = stop_rank s \<and> stop_helper s' = stop_helper s)" for s evs s'
    using stop_not_undone [of s b env evs s'] by auto
qed (use stop_helper_fair stop_helps in blast)+

lemma stop_ends:
  assumes "fair_execution env f" "full_inv (f 0)" "stop_in_progress b (f k)"
  shows "\<exists>j m. k \<le> j \<and> j < m \<and> gui (f j) = G_join 0 b \<and> gui (f m) = G_idle \<and> (\<not> b \<longrightarrow> workerThreads (f m) = 0)"
proof -
  have live: "gui (f m) \<noteq> G_terminated" for m
    using assms(1) terminated_stuck [of env "f m"] unfolding execution_def by blast
  have 1: "\<exists>m \<ge> k. gui (f m) = G_join 0 c \<and>
      (if c then gui (f (Suc m)) = G_idle \<or> stop_in_progress False (f (Suc m)) else gui (f (Suc m)) = G_idle \<and> workerThreads (f (Suc m)) = 0)"
    if "stop_in_progress c (f k)" for c k
    using stops.eventually_reached [of env f c k] assms(1,2) that live by (auto simp: stop_reached_def)
  show ?thesis
  proof (cases b)
    case True
    from 1 [OF assms(3)] True obtain m where m: "m \<ge> k" "gui (f m) = G_join 0 b" "gui (f (Suc m)) = G_idle \<or> stop_in_progress False (f (Suc m))"
      by auto
    show ?thesis
    proof (cases "gui (f (Suc m)) = G_idle")
      case False
      with m(3) 1 [of False "Suc m"] obtain j where "j \<ge> Suc m" "gui (f (Suc j)) = G_idle" by auto
      then show ?thesis using m(1,2) True by (intro exI [of _ m] exI [of _ "Suc j"]) simp
    qed (use m True in \<open>intro exI [of _ m] exI [of _ "Suc m"], simp\<close>)
  qed (use 1 [OF assms(3)] in \<open>auto intro: exI [of _ "Suc _"]\<close>)
qed

text \<open>
  Claim C10. A stop ends. In every fair execution of a new server, that is an infinite one in which the GUI thread inside
  \<open>StopSending\<close>, the reader and the three workers all take steps again and again in any order, a \<open>StopSending\<close> that has begun returns,
  and it returns after every one of its threads has returned from its own function: the worker that holds a mutex another thread waits for always gives it
  up and cannot take it again, no worker sleeps through the stop, and the reader empties its buffer and leaves its loops. Unless
  \<open>StartSending\<close> called it to start afresh, no thread is left and the server is not running when it returns. An execution in which
  a wait runs out of its five seconds and a thread is terminated by force ends there, so it is none of these; nothing is claimed about it.
\<close>

theorem stop_completes:
  assumes "fair_execution env f" "f 0 = new_Udpserver env host port" "stop_in_progress resume (f k)"
  shows "\<exists>j m. k \<le> j \<and> j < m \<and> gui (f j) = G_join 0 resume \<and> (\<forall>t < Suc SOCKET_POOL_SIZE. thread_finished t (f j)) \<and>
    gui (f m) = G_idle \<and> (\<not> resume \<longrightarrow>
      workerThreads (f m) = 0 \<and> \<not> is_running (f m) \<and> rd_pc (f m) = R_none \<and> (\<forall>i < SOCKET_POOL_SIZE. wk_pc (f m) ! i = W_none))"
proof -
  have inv: "full_inv (f 0)" by (simp add: assms(2) full_inv_new)
  then have all: "full_inv (f n)" for n using stops.execution_inv assms(1) by blast
  from stop_ends [OF assms(1) inv assms(3)] obtain j m where
    m: "k \<le> j" "j < m" "gui (f j) = G_join 0 resume" "gui (f m) = G_idle" "\<not> resume \<longrightarrow> workerThreads (f m) = 0" by blast
  have "thread_finished t (f j)" if "t < 4" for t using all [of j] m(3) that by (simp add: full_inv_def threads_ok_def)
  then show ?thesis
    using m all [of m] by (intro exI [of _ j] exI [of _ m]) (auto simp: full_inv_def threads_ok_def SOCKET_POOL_SIZE_def)
qed

theorem stop_completes_witness:
  "\<exists>f k j m. fair_execution demo_env f \<and> f 0 = new_Udpserver demo_env ''225.0.10.101'' 600 \<and> f k = demo_joined \<and>
     k \<le> j \<and> j < m \<and> thread_finished 0 (f j) \<and> gui (f m) = G_idle \<and> workerThreads (f m) = 0 \<and> rd_pc (f m) = R_none"
proof -
  have "gui demo_joined \<noteq> G_terminated" by (simp add: demo_joined_def)
  from fair_continuation [OF run_joined full_inv_new this] obtain f n where
    f: "fair_execution demo_env f" "f 0 = new_Udpserver demo_env ''225.0.10.101'' 600" "f n = demo_joined" by blast
  have "stop_in_progress False (f n)" by (simp add: f(3) stop_in_progress_def demo_joined_def)
  from stop_completes [OF f(1,2) this] f show ?thesis by blast
qed

end
