(* ===== verification/Server_Liveness.thy ===== *)
theory Server_Liveness
  imports Server_Fairness
begin

text \<open>
  The workers and the queues in fair executions: a packet that is queued on a channel that stays on is taken from the queue.
\<close>

section \<open>Queued packets\<close>

text \<open>While the server runs, it has its three workers.\<close>

definition working :: "server \<Rightarrow> bool" where
  "working s \<longleftrightarrow> (is_running s \<longrightarrow> (\<forall>i < 3. wk_pc s ! i \<noteq> W_none \<and> wk_pc s ! i \<noteq> W_done))"

definition live_inv :: "server \<Rightarrow> bool" where
  "live_inv s \<longleftrightarrow> full_inv s \<and> working s"

text \<open>A stop that begins because a worker could not be created resets \<open>is_running\<close>.\<close>

lemma start_workers_full: "is_running (start_workers env i n s) \<Longrightarrow> workerThreads (start_workers env i n s) = workerThreads s + n"
  by (induction n arbitrary: i s) (auto simp: Let_def stop_begin_def split: if_splits)

lemma start_rest_working:
  assumes "start_rest env s = (s', evs)" "length (wk_pc s) = 3" "gui s = G_idle" "\<forall>i < 3. wk_pc s ! i = W_none"
  shows "working s'"
  using start_rest_started [OF assms]
proof
  assume st: "started s'"
  have "workerThreads s' = 4" if "is_running s'"
    using assms(1) that start_workers_full by (auto simp: start_rest_def Let_def SOCKET_POOL_SIZE_def split: if_splits)
  then show ?thesis using st by (auto simp: working_def started_def)
qed (simp add: working_def)

lemma working_worker:
  assumes "worker_step env j s = Inr (s', evs)" "server_inv s" "j < 3" "working s"
  shows "working s'"
proof -
  have len: "j < length (wk_pc s)" and pc: "pc_ok j (wk_pc s ! j)" using assms by (simp_all add: server_inv_def)
  have fr: "is_running s' = is_running s" "i \<noteq> j \<Longrightarrow> wk_pc s' ! i = wk_pc s ! i" for i
    using worker_step_frame [OF assms(1)] by (simp_all add: worker_frame_def)
  have "wk_pc s' ! j \<noteq> W_none \<and> wk_pc s' ! j \<noteq> W_done" if run: "is_running s" "wk_pc s ! j \<noteq> W_none" "wk_pc s ! j \<noteq> W_done"
  proof (cases "wk_pc s ! j")
    case (W_out sp)
    then have "sp_ok j sp" using pc by simp
    from send_packet_out_eq [OF this, of env s] show ?thesis using W_out assms(1) len by (auto simp: worker_step_def Let_def)
  next
    case (W_send x)
    then show ?thesis using assms(1) len by (auto simp: worker_step_def Let_def stamp_packet_def split: if_splits option.splits)
  next
    case W_enabled
    then show ?thesis using assms(1) len by (auto simp: worker_step_def Let_def split: if_splits list.splits)
  qed (use run assms(1) len in \<open>auto simp: worker_step_def Let_def split: if_splits\<close>)
  then show ?thesis using assms(3,4) fr unfolding working_def by metis
qed

lemma working_same: "working s \<Longrightarrow> is_running s' \<longrightarrow> is_running s \<Longrightarrow> (\<And>i. i < 3 \<Longrightarrow> wk_pc s' ! i \<in> {W_none, W_done} \<Longrightarrow> wk_pc s ! i \<in> {W_none, W_done}) \<Longrightarrow> working s'"
  unfolding working_def by blast

lemma woken_working:
  assumes "j < length (wk_pc s)"
  shows "wk_pc (wake_queue j s) ! i \<in> {W_none, W_done} \<longleftrightarrow> wk_pc s ! i \<in> {W_none, W_done}"
    "wk_pc (wake_state j s) ! i \<in> {W_none, W_done} \<longleftrightarrow> wk_pc s ! i \<in> {W_none, W_done}"
  using assms by (auto simp: wake_queue_pc wake_state_pc split: worker_pc.splits if_splits)

lemma live_inv_step:
  assumes inv: "live_inv s" and st: "server_step env s evs s'"
  shows "live_inv s'"
proof -
  have srv: "server_inv s" "length (wk_pc s) = 3" "length (channels s) = 3" and w: "working s" and f: "full_inv s"
    using inv by (simp_all add: live_inv_def full_inv_def server_inv_def)
  note same = working_same [OF w]
  have stopping: "in_stop (gui s) \<Longrightarrow> \<not> is_running s" and gui: "gui_ok s (gui s)"
    using f stop_not_running [of s "gui s"] by (auto simp: full_inv_def threads_ok_def)
  have "working s'" using st
  proof cases
    case reader
    have "rd_pc s = R_wake \<Longrightarrow> nat (target_channel s) < length (wk_pc s)" using srv by (auto simp: server_inv_def reader_ok_def)
    then show ?thesis using reader_step_frame [OF reader(1) srv(1)] woken_working(1) by (intro same) (auto split: if_splits)
  next
    case (worker j)
    then show ?thesis using working_worker srv(1) w by (simp add: SOCKET_POOL_SIZE_def)
  next
    case (spurious_queue i)
    then show ?thesis using woken_working(1) [of i s] srv(2) by (intro same) (auto simp: SOCKET_POOL_SIZE_def)
  next
    case (spurious_state i)
    then show ?thesis using woken_working(2) [of i s] srv(2) by (intro same) (auto simp: SOCKET_POOL_SIZE_def)
  next
    case (channel_state c on)
    then show ?thesis by (intro same) (auto simp: channelStateChange_def Let_def split: if_splits)
  next
    case (loss_rate c r)
    then show ?thesis by (intro same) (auto simp: setLossRate_def split: if_splits)
  next
    case start
    have "\<forall>i < 3. wk_pc s ! i = W_none" if "workerThreads s = 0" using that f no_threads by (simp add: full_inv_def)
    then show ?thesis using start w start_rest_working [of env s s' evs] srv(2)
      by (auto simp: StartSending_def stop_begin_def working_def split: if_splits)
  next
    case (notify i)
    then show ?thesis using woken_working(2) [of i s] srv(2) gui by (intro same) (auto simp: notify_state_def)
  next
    case stop_waking
    then show ?thesis using stopping by (auto simp: working_def stop_wake_def split: gui_pc.splits)
  next
    case stop_joining
    then show ?thesis using stopping by (auto simp: working_def stop_join_def split: gui_pc.splits nat.splits)
  next
    case stop_joined
    from stop_joined(2) show ?thesis
    proof (cases rule: stop_finish_cases)
      case restarted
      then show ?thesis using start_rest_working [OF restarted(2)] srv(2) by simp
    qed (use w stopping stop_joined(1) in \<open>auto simp: working_def\<close>)
  qed (use w in \<open>auto simp: working_def SetFileName_def StopSending_def stop_begin_def\<close>)
  then show ?thesis using full_inv_step [OF f st] by (simp add: live_inv_def)
qed

lemma live_inv_new: "live_inv (new_Udpserver env host port)"
proof -
  have "working (new_Udpserver env host port)" by (simp add: working_def new_Udpserver_def initializeSockets_def)
  then show ?thesis by (simp add: live_inv_def full_inv_new)
qed

text \<open>
  The packets \<open>xs\<close> are at the head of the queue of channel \<open>i\<close>, which is on; what may keep the worker from taking the first one;
  and the steps that separate the worker from taking it.
\<close>

definition on_air :: "nat \<Rightarrow> server \<Rightarrow> bool" where
  "on_air i s \<longleftrightarrow> is_running s \<and> enabled (channels s ! i) = 1"

definition queued_first :: "nat \<Rightarrow> SendPacket list \<Rightarrow> server \<Rightarrow> bool" where
  "queued_first i xs s \<longleftrightarrow> on_air i s \<and> xs \<noteq> [] \<and> (\<exists>ys. packetQueue (channels s ! i) = xs @ ys)"

definition takes :: "os_env \<Rightarrow> nat \<Rightarrow> SendPacket \<Rightarrow> server \<Rightarrow> server \<Rightarrow> bool" where
  "takes env i sp s s' \<longleftrightarrow> worker_step env i s = Inr (s', [Dequeued i sp])"

definition first_taken :: "os_env \<Rightarrow> nat \<Rightarrow> SendPacket list \<Rightarrow> server \<Rightarrow> server \<Rightarrow> bool" where
  "first_taken env i xs s s' \<longleftrightarrow>
     \<not> on_air i s' \<or> takes env i (hd xs) s s' \<and> (tl xs = [] \<or> queued_first i (tl xs) s')"

fun take_distance :: "worker_pc \<Rightarrow> nat" where
  "take_distance W_none = 0"
| "take_distance W_done = 0"
| "take_distance W_enabled = 1"
| "take_distance W_run = 2"
| "take_distance W_inner = 3"
| "take_distance W_asleep = 4"
| "take_distance W_top = 4"
| "take_distance (W_out sp) = 5"
| "take_distance (W_send x) = 6"
| "take_distance (W_run2 x) = 7"
| "take_distance (W_state x) = 8"
| "take_distance (W_state_asleep x) = 9"

definition take_rank :: "nat \<Rightarrow> server \<Rightarrow> nat" where
  "take_rank i s = take_distance (wk_pc s ! i)"

definition take_helper :: "nat \<Rightarrow> server \<Rightarrow> server_thread" where
  "take_helper i s =
     (case wk_pc s ! i of W_asleep \<Rightarrow> Reader_thread | W_state_asleep x \<Rightarrow> Gui_thread | _ \<Rightarrow> Worker_thread i)"

lemmas take_defs = on_air_def queued_first_def first_taken_def take_rank_def take_helper_def

lemma woken_take:
  assumes "j < length (wk_pc s)"
  shows "wk_pc (wake_queue j s) ! i = wk_pc s ! i \<or> take_distance (wk_pc (wake_queue j s) ! i) < take_distance (wk_pc s ! i)"
    "wk_pc (wake_state j s) ! i = wk_pc s ! i \<or> take_distance (wk_pc (wake_state j s) ! i) < take_distance (wk_pc s ! i)"
  using assms by (auto simp: wake_queue_pc wake_state_pc split: worker_pc.splits)

lemma own_take:
  assumes st: "worker_step env i s = Inr (s', evs)" and inv: "server_inv s" "i < 3" and q: "queued_first i xs s"
  shows "first_taken env i xs s s' \<or> queued_first i xs s' \<and> (take_rank i s' < take_rank i s \<or>
    s' = s \<and> (asleep (wk_pc s ! i) \<or> wk_pc s ! i = W_none \<or> wk_pc s ! i = W_done))"
proof -
  have len: "i < length (wk_pc s)" "i < length (channels s)" and pc: "pc_ok i (wk_pc s ! i)" using inv by (simp_all add: server_inv_def)
  obtain x ys zs where xs: "xs = x # ys" "packetQueue (channels s ! i) = x # ys @ zs" "is_running s" "enabled (channels s ! i) = 1"
    using q by (cases xs) (auto simp: queued_first_def on_air_def)
  show ?thesis
  proof (cases "wk_pc s ! i")
    case (W_out sp)
    then have "sp_ok i sp" using pc by simp
    from send_packet_out_eq [OF this, of env s] show ?thesis
      using W_out st len xs by (auto simp: worker_step_def Let_def take_defs)
  next
    case (W_send y)
    then show ?thesis
      using st len xs by (auto simp: worker_step_def Let_def stamp_packet_def take_defs split: if_splits option.splits)
  next
    case W_enabled
    then have "s' = goto i (W_state (Some x)) (update_channel i (packetQueue_update (\<lambda>_. ys @ zs)) s)" "evs = [Dequeued i x]"
      using st len xs by (auto simp: worker_step_def Let_def)
    then show ?thesis using st len xs by (auto simp: take_defs takes_def update_channel_def)
  qed (use st len xs in \<open>auto simp: worker_step_def Let_def take_defs asleep_def\<close>)
qed

lemma take_waiting:
  assumes "queued_first i xs s" "is_running s'" "enabled (channels s' ! i) = enabled (channels s ! i)"
    "\<exists>zs. packetQueue (channels s' ! i) = packetQueue (channels s ! i) @ zs"
    "wk_pc s' ! i = wk_pc s ! i \<or> take_distance (wk_pc s' ! i) < take_distance (wk_pc s ! i)"
  shows "queued_first i xs s' \<and> (take_rank i s' < take_rank i s \<or> take_rank i s' = take_rank i s \<and> take_helper i s' = take_helper i s)"
  using assms by (auto simp: take_defs)

lemma reader_take:
  assumes st: "reader_step env s = Inr (s', evs)" and inv: "server_inv s" and q: "queued_first i xs s" "is_running s'"
  shows "queued_first i xs s' \<and> (take_rank i s' < take_rank i s \<or> take_rank i s' = take_rank i s \<and> take_helper i s' = take_helper i s)"
proof (rule take_waiting [OF q])
  note fr = reader_step_frame [OF st inv]
  have "rd_pc s = R_wake \<Longrightarrow> nat (target_channel s) < length (wk_pc s)" using inv by (auto simp: server_inv_def reader_ok_def)
  then show "wk_pc s' ! i = wk_pc s ! i \<or> take_distance (wk_pc s' ! i) < take_distance (wk_pc s ! i)"
    using fr woken_take(1) by (cases "rd_pc s = R_wake") auto
  show "enabled (channels s' ! i) = enabled (channels s ! i)"
    using fr by (cases "rd_pc s = R_push \<and> rd_pc s' = R_wake") auto
  have "\<exists>zs. packetQueue (cs[j := (cs ! j)\<lparr>packetQueue := packetQueue (cs ! j) @ [sp]\<rparr>] ! i) = packetQueue (cs ! i) @ zs" for cs j sp
    by (cases "i = j"; cases "j < length cs") (simp_all add: list_update_beyond)
  then show "\<exists>zs. packetQueue (channels s' ! i) = packetQueue (channels s ! i) @ zs"
    using fr by (cases "rd_pc s = R_push \<and> rd_pc s' = R_wake") (auto split: if_splits)
qed

lemma loss_update_fields:
  "enabled (cs[j := (cs ! j)\<lparr>lossRate := r\<rparr>] ! i) = enabled (cs ! i)"
  "packetQueue (cs[j := (cs ! j)\<lparr>lossRate := r\<rparr>] ! i) = packetQueue (cs ! i)"
  by (cases "i = j"; cases "j < length cs"; simp add: list_update_beyond)+

lemma channelStateChange_fields:
  "is_running (channelStateChange c on s) = is_running s" "wk_pc (channelStateChange c on s) = wk_pc s"
  "channels (channelStateChange c on s) = channels s \<or>
     channels (channelStateChange c on s) = (channels s)[nat c := (channels s ! nat c)\<lparr>enabled := if on then 1 else 0\<rparr>]"
  by (simp_all add: channelStateChange_def Let_def)

lemma channel_state_take:
  assumes q: "queued_first i xs s" and i: "i < length (channels s)"
  shows "first_taken env i xs s (channelStateChange c on s) \<or> queued_first i xs (channelStateChange c on s) \<and>
    (take_rank i (channelStateChange c on s) < take_rank i s \<or>
     take_rank i (channelStateChange c on s) = take_rank i s \<and> take_helper i (channelStateChange c on s) = take_helper i s)"
proof -
  let ?s = "channelStateChange c on s"
  have on: "is_running s" "enabled (channels s ! i) = 1" using q by (simp_all add: queued_first_def on_air_def)
  have "packetQueue (channels ?s ! i) = packetQueue (channels s ! i) \<and> (enabled (channels ?s ! i) = 0 \<or> enabled (channels ?s ! i) = 1)"
    using channelStateChange_fields(3) [of c on s] on(2) i by (cases "nat c = i") auto
  then consider "\<not> on_air i ?s" | "packetQueue (channels ?s ! i) = packetQueue (channels s ! i)" "enabled (channels ?s ! i) = enabled (channels s ! i)"
    using on by (auto simp: on_air_def)
  then show ?thesis
  proof cases
    case 2
    then show ?thesis using take_waiting [OF q, of ?s] on(1) by (simp add: channelStateChange_fields)
  qed (simp add: first_taken_def)
qed

lemma take_not_undone:
  assumes inv: "live_inv s" and i: "i < 3" and q: "queued_first i xs s" and st: "server_step env s evs s'"
  shows "first_taken env i xs s s' \<or> queued_first i xs s' \<and>
    (take_rank i s' < take_rank i s \<or> take_rank i s' = take_rank i s \<and> take_helper i s' = take_helper i s)"
proof -
  have srv: "server_inv s" "length (wk_pc s) = 3" "length (channels s) = 3" and f: "full_inv s"
    using inv by (simp_all add: live_inv_def full_inv_def server_inv_def)
  have run: "is_running s" using q by (simp add: queued_first_def on_air_def)
  then have idle: "\<not> in_stop (gui s)" using f stop_not_running [of s "gui s"] by (auto simp: full_inv_def threads_ok_def)
  have off: "first_taken env i xs s s'" if "\<not> is_running s'" using that by (simp add: first_taken_def on_air_def)
  note same = take_waiting [OF q]
  from st show ?thesis
  proof cases
    case reader
    then show ?thesis using reader_take [OF reader(1) srv(1) q] off by blast
  next
    case (worker j)
    show ?thesis
    proof (cases "j = i")
      case True
      then show ?thesis using own_take [OF worker(2) [unfolded True] srv(1) i q] by auto
    next
      case False
      then show ?thesis using worker_step_frame [OF worker(2)] run same [of s'] by (auto simp: worker_frame_def)
    qed
  next
    case (spurious_queue j)
    then show ?thesis using same [of s'] woken_take(1) [of j s] srv(2) run by (simp add: SOCKET_POOL_SIZE_def)
  next
    case (spurious_state j)
    then show ?thesis using same [of s'] woken_take(2) [of j s] srv(2) run by (simp add: SOCKET_POOL_SIZE_def)
  next
    case (set_file path)
    then show ?thesis using same [of s'] run by (simp add: SetFileName_def)
  next
    case (channel_state c on)
    then show ?thesis using channel_state_take [OF q, of env c on] i srv(3) by simp
  next
    case (loss_rate c r)
    then show ?thesis using same [of s'] run by (cases "0 \<le> c \<and> c < 3") (simp_all add: setLossRate_def SOCKET_POOL_SIZE_def loss_update_fields)
  next
    case start
    then show ?thesis using run q by (auto simp: StartSending_def split: if_splits)
  next
    case stop
    then show ?thesis using off by (simp add: StopSending_def stop_begin_def split: if_splits)
  next
    case (notify j)
    then have "j < 3" using f by (simp add: full_inv_def threads_ok_def)
    then show ?thesis using notify same [of s'] run woken_take(2) [of j s] srv(2) by (simp add: notify_state_def)
  qed (use idle in auto)
qed

lemma take_helps:
  assumes inv: "live_inv s" and i: "i < 3" and q: "queued_first i xs s" and mv: "moves env (take_helper i s) s s'"
  shows "first_taken env i xs s s' \<or> take_rank i s' < take_rank i s"
proof -
  have srv: "server_inv s" "length (wk_pc s) = 3" and w: "wake_ok s i" "working s"
    using inv i by (simp_all add: live_inv_def full_inv_def server_inv_def threads_ok_def)
  show ?thesis
  proof (cases "wk_pc s ! i = W_asleep")
    case True
    then obtain evs where st: "reader_step env s = Inr (s', evs)" using mv by (auto simp: take_helper_def moves_def)
    have "rd_pc s = R_wake" "nat (target_channel s) = i" using True w(1) q by (auto simp: wake_ok_def queued_first_def)
    then have "wk_pc s' = wk_pc (wake_queue i s)" using reader_step_frame [OF st srv(1)] by simp
    then show ?thesis using True i srv(2) by (simp add: take_rank_def wake_queue_pc)
  next
    case False
    show ?thesis
    proof (cases "\<exists>x. wk_pc s ! i = W_state_asleep x")
      case True
      then have g: "gui s = G_notify i" using w(1) q by (auto simp: wake_ok_def queued_first_def on_air_def)
      then have "s' = notify_state s" using mv True by (auto simp: take_helper_def moves_def)
      then have "wk_pc s' ! i = wk_pc (wake_state i s) ! i" using g by (simp add: notify_state_def)
      then show ?thesis using True i srv(2) by (auto simp: take_rank_def wake_state_pc)
    next
      case awake: False
      then obtain evs where st: "worker_step env i s = Inr (s', evs)" using False mv by (auto simp: take_helper_def moves_def split: worker_pc.splits)
      have "\<not> asleep (wk_pc s ! i)" "wk_pc s ! i \<noteq> W_none" "wk_pc s ! i \<noteq> W_done"
        using False awake w q i by (auto simp: asleep_def working_def queued_first_def on_air_def)
      then show ?thesis using own_take [OF st srv(1) i q] by blast
    qed
  qed
qed

interpretation takes: fair_progress "server_step env" live_inv "moves env" server_threads "\<lambda>s. i < SOCKET_POOL_SIZE \<and> queued_first i xs s"
    "first_taken env i xs" "take_rank i" "take_helper i" for env i xs
proof
  show "live_inv s \<Longrightarrow> server_step env s evs s' \<Longrightarrow> live_inv s'" for s evs s' by (rule live_inv_step)
  show "i < SOCKET_POOL_SIZE \<and> queued_first i xs s \<Longrightarrow> take_helper i s \<in> server_threads" for s
    by (simp add: take_helper_def server_threads_def split: worker_pc.split)
qed (use take_not_undone [of _ i xs env] take_helps [of _ i xs env] in \<open>auto simp: SOCKET_POOL_SIZE_def\<close>)

lemma last_taken:
  assumes ex: "fair_execution env f" "live_inv (f 0)" and i: "i < SOCKET_POOL_SIZE"
  shows "queued_first i xs (f k) \<Longrightarrow> \<exists>m \<ge> k. takes env i (last xs) (f m) (f (Suc m)) \<or> \<not> on_air i (f m)"
proof (induction xs arbitrary: k)
  case (Cons x xs)
  from takes.eventually_reached [of env f i "x # xs" k] ex i Cons.prems obtain m where
    m: "k \<le> m" "\<not> on_air i (f (Suc m)) \<or> takes env i x (f m) (f (Suc m)) \<and> (xs = [] \<or> queued_first i xs (f (Suc m)))"
    by (auto simp: first_taken_def)
  show ?case
  proof (cases "xs = [] \<or> \<not> on_air i (f (Suc m))")
    case True
    then show ?thesis using m exI [of _ m] exI [of _ "Suc m"] by (cases "on_air i (f (Suc m))") auto
  next
    case False
    then obtain j where "j \<ge> Suc m" "takes env i (last xs) (f j) (f (Suc j)) \<or> \<not> on_air i (f j)" using m(2) Cons.IH by blast
    then show ?thesis using False m(1) by (intro exI [of _ j]) auto
  qed
qed (simp add: queued_first_def)

text \<open>
  Claim C9. A queued packet does not stay in its queue. In every fair execution of a new server, a packet at any place in the queue of a channel
  that is on is taken out by the worker of the channel, whatever the worker is doing or waiting for and
  whatever the other threads do, unless the channel is switched off or the server stops before that. (An execution in which
  \<open>StopSending\<close> terminates a thread by force ends there and is not among these.)
\<close>

theorem queued_packet_is_taken:
  assumes "fair_execution env f" "f 0 = new_Udpserver env host port" "i < SOCKET_POOL_SIZE"
    and "is_running (f k)" "enabled (channels (f k) ! i) = 1"
    and "n < length (packetQueue (channels (f k) ! i))" "sp = packetQueue (channels (f k) ! i) ! n"
  shows "\<exists>m \<ge> k. worker_step env i (f m) = Inr (f (Suc m), [Dequeued i sp]) \<or> \<not> is_running (f m) \<or> enabled (channels (f m) ! i) = 0"
proof -
  let ?q = "packetQueue (channels (f k) ! i)"
  have inv: "live_inv (f 0)" by (simp add: assms(2) live_inv_new)
  have "?q = take (Suc n) ?q @ drop (Suc n) ?q" by simp
  then have "queued_first i (take (Suc n) ?q) (f k)" using assms(4-6) unfolding queued_first_def on_air_def by fastforce
  from last_taken [OF assms(1) inv assms(3) this] obtain m where
    m: "m \<ge> k" "takes env i sp (f m) (f (Suc m)) \<or> \<not> on_air i (f m)"
    using assms(6,7) by (auto simp: take_Suc_conv_app_nth)
  have "live_inv (f m)" using takes.execution_inv assms(1) inv by blast
  then have "enabled (channels (f m) ! i) = 0 \<or> enabled (channels (f m) ! i) = 1"
    using assms(3) by (simp add: live_inv_def full_inv_def server_inv_def chan_ok_def SOCKET_POOL_SIZE_def)
  then show ?thesis using m by (auto simp: takes_def on_air_def)
qed

theorem queued_packet_is_taken_witness:
  "\<exists>f k m sp. fair_execution demo_env f \<and> f 0 = new_Udpserver demo_env ''225.0.10.101'' 600 \<and>
     packetQueue (channels (f k) ! 0) = [sp] \<and> is_running (f k) \<and> m \<ge> k \<and>
     (worker_step demo_env 0 (f m) = Inr (f (Suc m), [Dequeued 0 sp]) \<or> \<not> is_running (f m) \<or> enabled (channels (f m) ! 0) = 0)"
proof -
  from reader_queues_chunk [OF run_started(2)] obtain sp s tr where
    s: "runs (server_step demo_env) demo_started tr s" "is_running s" "enabled (channels s ! 0) = 1" "packetQueue (channels s ! 0) = [sp]"
      "gui s \<noteq> G_terminated" by fastforce
  from fair_continuation [OF srv_trans [OF run_started(1) s(1)] full_inv_new s(5)] obtain f k where
    f: "fair_execution demo_env f" "f 0 = new_Udpserver demo_env ''225.0.10.101'' 600" "f k = s" by blast
  have q: "packetQueue (channels (f k) ! 0) = [sp]" "is_running (f k)" "enabled (channels (f k) ! 0) = 1" using s(2-4) f(3) by simp_all
  then have "0 < length (packetQueue (channels (f k) ! 0))" "sp = packetQueue (channels (f k) ! 0) ! 0" "0 < SOCKET_POOL_SIZE"
    by (simp_all add: SOCKET_POOL_SIZE_def)
  from queued_packet_is_taken [OF f(1,2) this(3) q(2,3) this(1,2)] obtain m where
    m: "m \<ge> k" "worker_step demo_env 0 (f m) = Inr (f (Suc m), [Dequeued 0 sp]) \<or> \<not> is_running (f m) \<or> enabled (channels (f m) ! 0) = 0"
    by blast
  note fair = conjunct1 [OF f(1)] conjunct2 [OF f(1)]
  show ?thesis by (intro exI conjI) (rule fair f(2) q m)+
qed

end
