(* ===== verification/Rtp_Extensions.thy ===== *)
theory Rtp_Extensions
  imports Rtp_Packet "HOL-Library.AList"
begin

text \<open>
  Adding and removing header extensions and CSRCs (\<^verbatim>\<open>rtp_packet.cc\<close>, \<^verbatim>\<open>rtp_packet.h\<close>). These functions write behind the size of
  the buffer, inside its capacity, and then set the size, which keeps what was written. A view that a function returns is
  the offset of its first byte.
\<close>

section \<open>Writing inside the capacity\<close>

text \<open>All bytes of the allocation; those behind the size are indeterminate. Setting the size afterwards.\<close>

definition raw_memory :: "'a RtpPacket_scheme \<Rightarrow> mem" where
  "raw_memory p = cow_data (rtp_buffer p) @ replicate (cow_capacity (rtp_buffer p) - buffer_size (rtp_buffer p)) None"

definition commit :: "nat \<Rightarrow> mem \<Rightarrow> 'a RtpPacket_scheme \<Rightarrow> 'a RtpPacket_scheme" where
  "commit n m p = p\<lparr>rtp_buffer := SetSize n ((rtp_buffer p)\<lparr>cow_data := m\<rparr>)\<rparr>"

definition dchecked_cast :: "bool \<Rightarrow> nat \<Rightarrow> ('w :: len word \<Rightarrow> 'a res) \<Rightarrow> 'a res" where
  "dchecked_cast dchecks n rest =
     RTC_DCHECK dchecks (n < 2 ^ LENGTH('w)) ''IsValueInRangeForNumericType<Dst>(value)'' (rest (word_of_int (int n)))"

section \<open>Parsing a view\<close>

text \<open>The bytes are copied into the buffer of the packet.\<close>

definition rtp_Parse_view :: "bool \<Rightarrow> mem \<Rightarrow> 'a RtpPacket_scheme \<Rightarrow> (bool \<times> 'a RtpPacket_scheme) res" where
  "rtp_Parse_view dchecks buffer p =
     bind_res (ParseBuffer buffer p) (\<lambda>(ok, p1).
       if \<not> ok then bind_res (rtp_Clear p1) (\<lambda>p2. Inr (False, p2))
       else
         let p2 = p1\<lparr>rtp_buffer := SetData buffer (rtp_buffer p1)\<rparr> in
         RTC_DCHECK dchecks (rtp_size p2 = length buffer) ''size() == buffer_size'' (Inr (True, p2)))"

lemma rtp_Parse_view_eq: "rtp_Parse_view dchecks (mem_of bytes) p = rtp_Parse dchecks (SetData (mem_of bytes) (rtp_buffer p)) p"
  using ParseBuffer_ok [of p bytes] by (auto simp: parse_step_def rtp_Parse_view_def rtp_Parse_def SetData_def)

section \<open>CSRCs\<close>

fun write_csrcs :: "nat \<Rightarrow> u32 list \<Rightarrow> mem \<Rightarrow> mem res" where
  "write_csrcs offset [] m = Inr m"
| "write_csrcs offset (c # cs) m =
     bind_res (mem_store ''buffer_'' (int offset) (mem_of (WriteBigEndian 4 c)) m) (write_csrcs (offset + 4) cs)"

definition SetCsrcs :: "bool \<Rightarrow> u32 list \<Rightarrow> 'a RtpPacket_scheme \<Rightarrow> 'a RtpPacket_scheme res" where
  "SetCsrcs dchecks csrcs p =
     RTC_DCHECK dchecks (rtp_extensions_size p = 0) ''extensions_size_ == 0''
       (RTC_DCHECK dchecks (rtp_payload_size p = 0) ''payload_size_ == 0''
         (RTC_DCHECK dchecks (rtp_padding_size p = 0) ''padding_size_ == 0''
           (RTC_DCHECK dchecks (length csrcs \<le> 15) ''csrcs.size() <= 0x0fu''
             (RTC_DCHECK dchecks (kFixedHeaderSize + 4 * length csrcs \<le> cow_capacity (rtp_buffer p))
                ''kFixedHeaderSize + 4 * csrcs.size() <= capacity()''
               (let n = kFixedHeaderSize + 4 * length csrcs in
                dchecked_cast dchecks (length csrcs) (\<lambda>count :: u8.
                  bind_res (modify_byte 0 (\<lambda>b. (b AND 0xF0) OR count) (raw_memory p)) (\<lambda>m.
                  bind_res (write_csrcs kFixedHeaderSize csrcs m) (\<lambda>m'.
                    Inr (commit n m' (p\<lparr>rtp_payload_offset := n\<rparr>))))))))))"

fun read_csrcs :: "nat \<Rightarrow> nat \<Rightarrow> mem \<Rightarrow> u32 list res" where
  "read_csrcs 0 offset m = Inr []"
| "read_csrcs (Suc n) offset m =
     bind_res (mem_read ''data'' (int offset) 4 m) (\<lambda>c. bind_res (read_csrcs n (offset + 4) m) (\<lambda>cs. Inr (ReadBigEndian c # cs)))"

definition Csrcs :: "bool \<Rightarrow> 'a RtpPacket_scheme \<Rightarrow> u32 list res" where
  "Csrcs dchecks p =
     bind_res (mem_read ''data'' 0 1 (cow_data (rtp_buffer p))) (\<lambda>b.
       let num_csrc = unat (hd b AND 0x0F) in
       RTC_DCHECK dchecks (cow_capacity (rtp_buffer p) \<ge> kFixedHeaderSize + num_csrc * 4) ''capacity() >= kFixedHeaderSize + num_csrc * 4''
         (read_csrcs num_csrc kFixedHeaderSize (cow_data (rtp_buffer p))))"

section \<open>The extension block\<close>

definition kMaxValueSize :: nat where "kMaxValueSize = 255"
definition kOneByteHeaderExtensionMaxId :: nat where "kOneByteHeaderExtensionMaxId = 14"
definition kOneByteHeaderExtensionMaxValueSize :: nat where "kOneByteHeaderExtensionMaxValueSize = 16"

lemmas extension_constants = kMaxValueSize_def kOneByteHeaderExtensionMaxId_def kOneByteHeaderExtensionMaxValueSize_def

text \<open>The length of the block in words and zeros up to the end of the last word; the result is a 16-bit integer.\<close>

definition SetExtensionLengthMaybeAddZeroPadding :: "bool \<Rightarrow> nat \<Rightarrow> nat \<Rightarrow> mem \<Rightarrow> (u16 \<times> mem) res" where
  "SetExtensionLengthMaybeAddZeroPadding dchecks extensions_offset extensions_size m =
     dchecked_cast dchecks ((extensions_size + 3) div 4) (\<lambda>extensions_words :: u16.
       bind_res (mem_store ''buffer_'' (int extensions_offset - 2) (mem_of (WriteBigEndian 2 extensions_words)) m) (\<lambda>m1.
         let extension_padding_size = size_t (int (4 * unat extensions_words) - int extensions_size) in
         bind_res (mem_store ''buffer_'' (int (extensions_offset + extensions_size)) (replicate extension_padding_size (Some 0)) m1) (\<lambda>m2.
           Inr (4 * extensions_words, m2))))"

text \<open>The end of both functions that write the block: the length, the zeros, and the size of the packet.\<close>

definition close_block :: "bool \<Rightarrow> nat \<Rightarrow> nat \<Rightarrow> mem \<Rightarrow> 'a RtpPacket_scheme \<Rightarrow> 'a RtpPacket_scheme res" where
  "close_block dchecks extensions_offset n m p =
     bind_res (SetExtensionLengthMaybeAddZeroPadding dchecks extensions_offset n m) (\<lambda>(padded, m2).
       let end = extensions_offset + unat padded in
       Inr (commit end m2 (p\<lparr>rtp_extensions_size := n, rtp_payload_offset := end\<rparr>)))"

text \<open>
  The loop over the entries from the last to the first: each value moves up by the number of entries up to its own, and its id and
  length are written in front of it. The list is reversed.
\<close>

fun promote_entries :: "bool \<Rightarrow> ExtensionInfo list \<Rightarrow> mem \<Rightarrow> (ExtensionInfo list \<times> mem) res" where
  "promote_entries dchecks [] m = Inr ([], m)"
| "promote_entries dchecks (e # es) m =
     (let read_index = unat (ext_offset e); write_index = read_index + length (e # es) in
      dchecked_cast dchecks write_index (\<lambda>offset :: u16.
        bind_res (mem_load ''data'' (int read_index) (unat (ext_length e)) m) (\<lambda>v.
        bind_res (mem_store ''buffer_'' (int write_index) v m) (\<lambda>m1.
        bind_res (mem_store ''buffer_'' (int write_index - 1) [Some (ext_length e)] m1) (\<lambda>m2.
        bind_res (mem_store ''buffer_'' (int write_index - 2) [Some (ext_id e)] m2) (\<lambda>m3.
        bind_res (promote_entries dchecks es m3) (\<lambda>(es', m4). Inr (e\<lparr>ext_offset := offset\<rparr> # es', m4))))))))"

text \<open>Where the extensions begin.\<close>

definition extensions_offset :: "mem \<Rightarrow> nat res" where
  "extensions_offset m =
     bind_res (mem_read ''data'' 0 1 m) (\<lambda>b. Inr (kFixedHeaderSize + unat (hd b AND 0x0F) * 4 + 4))"

definition PromoteToTwoByteHeaderExtension :: "bool \<Rightarrow> 'a RtpPacket_scheme \<Rightarrow> 'a RtpPacket_scheme res" where
  "PromoteToTwoByteHeaderExtension dchecks p =
     bind_res (extensions_offset (cow_data (rtp_buffer p))) (\<lambda>off.
       RTC_CHECK (length (rtp_extension_entries p) > 0) ''extension_entries_.size() > 0''
         (RTC_CHECK (rtp_payload_size p = 0) ''payload_size_ == 0''
           (bind_res (mem_read ''data'' (int off - 4) 2 (cow_data (rtp_buffer p))) (\<lambda>prof.
             RTC_CHECK (kOneByteExtensionProfileId = ReadBigEndian prof) ''kOneByteExtensionProfileId == ReadBigEndian''
               (bind_res (promote_entries dchecks (rev (rtp_extension_entries p)) (raw_memory p)) (\<lambda>(es, m).
                bind_res (mem_store ''buffer_'' (int off - 4) (mem_of (WriteBigEndian 2 kTwoByteExtensionProfileId)) m) (\<lambda>m1.
                  close_block dchecks off (rtp_extensions_size p + length (rtp_extension_entries p)) m1
                    (p\<lparr>rtp_extension_entries := rev es\<rparr>))))))))"

definition two_byte_required :: "u8 \<Rightarrow> nat \<Rightarrow> bool" where
  "two_byte_required x n \<longleftrightarrow> unat x > kOneByteHeaderExtensionMaxId \<or> n > kOneByteHeaderExtensionMaxValueSize \<or> n = 0"

text \<open>The last part of \<open>AllocateRawExtension\<close>, when the profile is known: the extension bit and the profile for the first
  extension, the header of the new one, and space for it.\<close>

definition open_block :: "bool \<Rightarrow> nat \<Rightarrow> u16 \<Rightarrow> 'a RtpPacket_scheme \<Rightarrow> mem res" where
  "open_block dchecks off profile_id p =
     (if rtp_extensions_size p = 0 then
        RTC_DCHECK dchecks (rtp_payload_offset p = off - 4) ''payload_offset_ == kFixedHeaderSize + (num_csrc * 4)''
          (bind_res (modify_byte 0 (\<lambda>b. b OR 0x10) (raw_memory p)) (\<lambda>m.
             mem_store ''buffer_'' (int off - 4) (mem_of (WriteBigEndian 2 profile_id)) m))
      else Inr (raw_memory p))"

definition write_extension_header :: "bool \<Rightarrow> u8 \<Rightarrow> nat \<Rightarrow> u16 \<Rightarrow> nat \<Rightarrow> mem \<Rightarrow> mem res" where
  "write_extension_header dchecks x n profile_id at m =
     (if profile_id = kOneByteExtensionProfileId then
        dchecked_cast dchecks (n - 1) (\<lambda>len :: u8. mem_store ''buffer_'' (int at) [Some (push_bit 4 x OR len)] m)
      else
        dchecked_cast dchecks n (\<lambda>len :: u8. mem_store ''buffer_'' (int at) [Some x, Some len] m))"

definition append_extension ::
    "bool \<Rightarrow> u8 \<Rightarrow> nat \<Rightarrow> nat \<Rightarrow> u16 \<Rightarrow> 'a RtpPacket_scheme \<Rightarrow> (nat option \<times> 'a RtpPacket_scheme) res" where
  "append_extension dchecks x n off profile_id p =
     (let hlen = extension_header_length profile_id; old = rtp_extensions_size p; new_extensions_size = old + hlen + n in
      if off + new_extensions_size > cow_capacity (rtp_buffer p) then Inr (None, p)
      else
        bind_res (open_block dchecks off profile_id p) (\<lambda>m.
        bind_res (write_extension_header dchecks x n profile_id (off + old) m) (\<lambda>m1.
        dchecked_cast dchecks (off + old + hlen) (\<lambda>info_offset :: u16.
        dchecked_cast dchecks n (\<lambda>info_length :: u8.
          bind_res
            (close_block dchecks off new_extensions_size m1
              (p\<lparr>rtp_extension_entries := rtp_extension_entries p @ [\<lparr>ext_id = x, ext_length = info_length, ext_offset = info_offset\<rparr>]\<rparr>))
            (\<lambda>p1. Inr (Some (unat info_offset), p1)))))))"

definition AllocateRawExtension ::
    "bool \<Rightarrow> u8 \<Rightarrow> nat \<Rightarrow> 'a RtpPacket_scheme \<Rightarrow> (nat option \<times> 'a RtpPacket_scheme) res" where
  "AllocateRawExtension dchecks x n p =
     RTC_DCHECK dchecks (x \<ge> 1) ''id >= RtpExtension::kMinId''
       (RTC_DCHECK dchecks (n \<ge> 1) ''length >= 1''
         (RTC_DCHECK dchecks (n \<le> kMaxValueSize) ''length <= RtpExtension::kMaxValueSize''
           (case FindExtensionInfo x (rtp_extension_entries p) of
              Some e \<Rightarrow> Inr (if unat (ext_length e) = n then Some (unat (ext_offset e)) else None, p)
            | None \<Rightarrow>
                if rtp_payload_size p > 0 then Inr (None, p)
                else if rtp_padding_size p > 0 then Inr (None, p)
                else
                  bind_res (extensions_offset (cow_data (rtp_buffer p))) (\<lambda>off.
                    RTC_CHECK (\<not> two_byte_required x n \<or> extmap_allow_mixed (rtp_extensions p))
                      ''!two_byte_header_required || extensions_.ExtmapAllowMixed()''
                      (if rtp_extensions_size p > 0 then
                         bind_res (mem_read ''data'' (int off - 4) 2 (cow_data (rtp_buffer p))) (\<lambda>prof.
                           if ReadBigEndian prof = kOneByteExtensionProfileId \<and> two_byte_required x n then
                             if off + (rtp_extensions_size p + length (rtp_extension_entries p) + kTwoByteExtensionHeaderLength + n)
                                > cow_capacity (rtp_buffer p)
                             then Inr (None, p)
                             else
                               bind_res (PromoteToTwoByteHeaderExtension dchecks p)
                                 (append_extension dchecks x n off kTwoByteExtensionProfileId)
                           else append_extension dchecks x n off (ReadBigEndian prof) p)
                       else
                         append_extension dchecks x n off
                           (if two_byte_required x n then kTwoByteExtensionProfileId else kOneByteExtensionProfileId) p)))))"

definition AllocateExtension ::
    "bool \<Rightarrow> RTPExtensionType \<Rightarrow> nat \<Rightarrow> 'a RtpPacket_scheme \<Rightarrow> (nat option \<times> 'a RtpPacket_scheme) res" where
  "AllocateExtension dchecks type n p =
     (if n = 0 \<or> n > kMaxValueSize \<or> \<not> extmap_allow_mixed (rtp_extensions p) \<and> n > kOneByteHeaderExtensionMaxValueSize
      then Inr (None, p)
      else
        bind_res (GetId dchecks type (rtp_extensions p)) (\<lambda>x.
          if x = 0 then Inr (None, p)
          else if \<not> extmap_allow_mixed (rtp_extensions p) \<and> unat x > kOneByteHeaderExtensionMaxId then Inr (None, p)
          else AllocateRawExtension dchecks x n p))"

text \<open>Writing a value into the view; \<open>ReserveExtension\<close> writes zeros. The size of the value is given by the extension's class.\<close>

definition SetRawExtension :: "bool \<Rightarrow> RTPExtensionType \<Rightarrow> u8 list \<Rightarrow> 'a RtpPacket_scheme \<Rightarrow> (bool \<times> 'a RtpPacket_scheme) res" where
  "SetRawExtension dchecks type data p =
     bind_res (AllocateExtension dchecks type (length data) p) (\<lambda>(view, p1).
       case view of
         None \<Rightarrow> Inr (False, p1)
       | Some off \<Rightarrow> bind_res (write_buffer (mem_store ''buffer'' (int off) (mem_of data)) p1) (\<lambda>p2. Inr (True, p2)))"

definition ReserveExtension :: "bool \<Rightarrow> RTPExtensionType \<Rightarrow> nat \<Rightarrow> 'a RtpPacket_scheme \<Rightarrow> (bool \<times> 'a RtpPacket_scheme) res" where
  "ReserveExtension dchecks type n = SetRawExtension dchecks type (replicate n 0)"

text \<open>
  The size of a value and the function that writes it, which the class of the extension gives, are arguments; the function gets the
  cells of the view.
\<close>

definition SetExtension ::
    "bool \<Rightarrow> RTPExtensionType \<Rightarrow> nat \<Rightarrow> (mem \<Rightarrow> (bool \<times> mem) res) \<Rightarrow> 'a RtpPacket_scheme \<Rightarrow> (bool \<times> 'a RtpPacket_scheme) res" where
  "SetExtension dchecks type value_size write p =
     bind_res (AllocateExtension dchecks type value_size p) (\<lambda>(view, p1).
       case view of
         None \<Rightarrow> Inr (False, p1)
       | Some off \<Rightarrow>
           bind_res (mem_load ''buffer'' (int off) value_size (cow_data (rtp_buffer p1))) (\<lambda>v.
           bind_res (write v) (\<lambda>(ok, v').
           bind_res (write_buffer (mem_store ''buffer'' (int off) v') p1) (\<lambda>p2. Inr (ok, p2)))))"

section \<open>Removing an extension\<close>

definition IdentifyExtensions :: "RtpHeaderExtensionMap \<Rightarrow> 'a RtpPacket_scheme \<Rightarrow> 'a RtpPacket_scheme" where
  "IdentifyExtensions exts p = p\<lparr>rtp_extensions := exts\<rparr>"

text \<open>The loop that copies all extensions but one; \<open>None\<close> when an extension does not fit.\<close>

fun copy_extensions ::
    "bool \<Rightarrow> u8 \<Rightarrow> mem \<Rightarrow> ExtensionInfo list \<Rightarrow> 'a RtpPacket_scheme \<Rightarrow> (bool \<times> 'a RtpPacket_scheme) option res" where
  "copy_extensions dchecks x data [] q = Inr (Some (False, q))"
| "copy_extensions dchecks x data (e # es) q =
     (if ext_id e = x then
        bind_res (copy_extensions dchecks x data es q) (\<lambda>r. Inr (map_option (\<lambda>(_, q'). (True, q')) r))
      else
        bind_res (AllocateRawExtension dchecks (ext_id e) (unat (ext_length e)) q) (\<lambda>(view, q1).
          case view of
            None \<Rightarrow> if ext_length e = 0 then copy_extensions dchecks x data es q1 else Inr None
          | Some off \<Rightarrow>
              bind_res (mem_load ''data'' (int (unat (ext_offset e))) (unat (ext_length e)) data) (\<lambda>v.
              bind_res (write_buffer (mem_store ''extension_data'' (int off) v) q1) (copy_extensions dchecks x data es))))"

text \<open>The part of \<open>RemoveExtension\<close> behind the fields: extensions, payload and padding are copied to the new packet \<open>q\<close>.\<close>

definition rebuild_packet :: "bool \<Rightarrow> u8 \<Rightarrow> 'a RtpPacket_scheme \<Rightarrow> RtpPacket \<Rightarrow> (bool \<times> 'a RtpPacket_scheme) res" where
  "rebuild_packet dchecks x p q =
     bind_res (copy_extensions dchecks x (cow_data (rtp_buffer p)) (rtp_extension_entries p) (IdentifyExtensions (rtp_extensions p) q)) (\<lambda>r.
       case r of
         None \<Rightarrow> Inr (False, p)
       | Some (found, q1) \<Rightarrow>
           if \<not> found then Inr (False, p)
           else
             bind_res
               (if rtp_payload_size p > 0 then
                  bind_res (AllocatePayload dchecks (rtp_payload_size p) q1) (\<lambda>q2.
                    write_buffer (mem_store ''buffer_'' (int (rtp_payload_offset q2)) (rtp_payload p)) q2)
                else SetPayloadSize dchecks 0 q1)
               (\<lambda>q3. bind_res (SetPadding dchecks (unat (rtp_padding_size p)) q3) (\<lambda>(_, q4).
                  Inr (True, RtpPacket.extend q4 (RtpPacket.more p)))))"

definition RemoveExtension :: "bool \<Rightarrow> RTPExtensionType \<Rightarrow> 'a RtpPacket_scheme \<Rightarrow> (bool \<times> 'a RtpPacket_scheme) res" where
  "RemoveExtension dchecks type p =
     bind_res (GetId dchecks type (rtp_extensions p)) (\<lambda>x.
       if x = 0 then Inr (False, p)
       else
         bind_res (new_RtpPacket dchecks (new_RtpHeaderExtensionMap False) kDefaultPacketSize) (\<lambda>q0.
         bind_res (SetMarker (rtp_marker p) q0) (\<lambda>q1.
         bind_res (SetPayloadType dchecks (rtp_payload_type p) q1) (\<lambda>q2.
         bind_res (SetSequenceNumber (rtp_sequence_number p) q2) (\<lambda>q3.
         bind_res (SetTimestamp (rtp_timestamp p) q3) (\<lambda>q4.
         bind_res (SetSsrc (rtp_ssrc p) q4) (rebuild_packet dchecks x p)))))))"

section \<open>What the block holds\<close>

text \<open>The block for a list of extensions, each an id and the cells of its value, with one- or two-byte headers.\<close>

definition profile_of :: "bool \<Rightarrow> u16" where
  "profile_of two = (if two then kTwoByteExtensionProfileId else kOneByteExtensionProfileId)"

definition ext_hlen :: "bool \<Rightarrow> nat" where "ext_hlen two = (if two then 2 else 1)"

definition ext_head :: "bool \<Rightarrow> u8 \<Rightarrow> nat \<Rightarrow> mem" where
  "ext_head two x n = (if two then [Some x, Some (of_nat n)] else [Some (push_bit 4 x OR of_nat (n - 1))])"

definition ext_mem :: "bool \<Rightarrow> (u8 \<times> mem) list \<Rightarrow> mem" where
  "ext_mem two es = concat (map (\<lambda>(x, v). ext_head two x (length v) @ v) es)"

fun ext_infos :: "nat \<Rightarrow> bool \<Rightarrow> (u8 \<times> mem) list \<Rightarrow> ExtensionInfo list" where
  "ext_infos off two [] = []"
| "ext_infos off two ((x, v) # es) =
     \<lparr>ext_id = x, ext_length = of_nat (length v), ext_offset = of_nat (off + ext_hlen two)\<rparr> # ext_infos (off + ext_hlen two + length v) two es"

definition ext_words :: "nat \<Rightarrow> nat" where "ext_words n = (n + 3) div 4"

definition ext_zeros :: "nat \<Rightarrow> mem" where "ext_zeros n = replicate (4 * ext_words n - n) (Some 0)"

definition ext_block :: "bool \<Rightarrow> (u8 \<times> mem) list \<Rightarrow> mem" where
  "ext_block two es =
     (if es = [] then []
      else mem_of (WriteBigEndian 2 (profile_of two)) @ mem_of (WriteBigEndian 2 (of_nat (ext_words (length (ext_mem two es))) :: u16)) @
           ext_mem two es @ ext_zeros (length (ext_mem two es)))"

text \<open>Whether the header has room for an id and a length, and the packet with these extensions behind the header \<open>hdr\<close>.\<close>

definition ext_fits :: "bool \<Rightarrow> u8 \<Rightarrow> nat \<Rightarrow> bool" where
  "ext_fits two x n \<longleftrightarrow> x \<noteq> 0 \<and> 1 \<le> n \<and> n \<le> 255 \<and> (two \<or> \<not> two_byte_required x n)"

definition mark_extension :: "bool \<Rightarrow> u8 list \<Rightarrow> u8 list" where
  "mark_extension b hdr = (if b then hdr[0 := hdr ! 0 OR 0x10] else hdr)"

definition ext_data :: "u8 list \<Rightarrow> bool \<Rightarrow> (u8 \<times> mem) list \<Rightarrow> mem" where
  "ext_data hdr two es = mem_of (mark_extension (es \<noteq> []) hdr) @ ext_block two es"

definition written :: "u8 list \<Rightarrow> bool \<Rightarrow> (u8 \<times> mem) list \<Rightarrow> 'a RtpPacket_scheme \<Rightarrow> 'a RtpPacket_scheme" where
  "written hdr two es p =
     p\<lparr>rtp_extension_entries := ext_infos (length hdr + 4) two es, rtp_extensions_size := length (ext_mem two es),
       rtp_payload_offset := length (ext_data hdr two es), rtp_buffer := (rtp_buffer p)\<lparr>cow_data := ext_data hdr two es\<rparr>\<rparr>"

text \<open>A packet without payload and padding, whose capacity is a multiple of 4 within the range of the offsets.\<close>

definition extendable :: "u8 list \<Rightarrow> 'a RtpPacket_scheme \<Rightarrow> bool" where
  "extendable hdr p \<longleftrightarrow> rtp_payload_size p = 0 \<and> rtp_padding_size p = 0 \<and> 4 dvd cow_capacity (rtp_buffer p) \<and>
     cow_capacity (rtp_buffer p) < 2 ^ 16 \<and> length hdr = csrc_end hdr \<and> length hdr \<le> cow_capacity (rtp_buffer p)"

lemma length_ext_head [simp]: "length (ext_head two x n) = ext_hlen two"
  by (simp add: ext_head_def ext_hlen_def)

lemma ext_mem_simps [simp]:
  "ext_mem two [] = []" "ext_mem two ((x, v) # es) = ext_head two x (length v) @ v @ ext_mem two es"
  "ext_mem two (es @ fs) = ext_mem two es @ ext_mem two fs"
  by (simp_all add: ext_mem_def)

lemma ext_mem_eq_Nil [simp]: "ext_mem two es = [] \<longleftrightarrow> es = []"
  by (cases es) (auto simp: ext_head_def split: if_splits)

lemma ext_infos_append [simp]:
  "ext_infos off two (es @ fs) = ext_infos off two es @ ext_infos (off + length (ext_mem two es)) two fs"
  by (induction es arbitrary: off) (auto simp: add.assoc)

lemma length_ext_infos [simp]: "length (ext_infos off two es) = length es"
  by (induction es arbitrary: off) auto

lemma length_mark_extension [simp]: "length (mark_extension b hdr) = length hdr"
  by (simp add: mark_extension_def)

lemma extension_header_length_profile [simp]: "extension_header_length (profile_of two) = ext_hlen two"
  by (simp add: extension_header_length_def profile_of_def ext_hlen_def rtp_constants)

lemma profile_of_one [simp]: "profile_of two = kOneByteExtensionProfileId \<longleftrightarrow> \<not> two"
  by (simp add: profile_of_def rtp_constants)

lemma ext_words_bounds: "n \<le> 4 * ext_words n" "4 * ext_words n \<le> n + 3" "n \<le> 4 * k \<Longrightarrow> ext_words n \<le> k"
  by (auto simp: ext_words_def)

lemma length_ext_zeros [simp]: "length (ext_zeros n) = 4 * ext_words n - n"
  by (simp add: ext_zeros_def)

lemma length_ext_block: "length (ext_block two es) = (if es = [] then 0 else 4 + 4 * ext_words (length (ext_mem two es)))"
  using ext_words_bounds(1) [of "length (ext_mem two es)"] by (simp add: ext_block_def)

lemma store_at: "length a = i \<Longrightarrow> length xs = length ys \<Longrightarrow> mem_store w (int i) ys (a @ xs @ b) = Inr (a @ ys @ b)"
  by (simp add: mem_store_nat)

lemma load_at: "length a = i \<Longrightarrow> length xs = n \<Longrightarrow> mem_load w (int i) n (a @ xs @ b) = Inr xs"
  by (simp add: mem_load_nat)

lemma dchecked_cast_ok [simp]:
  "n < 2 ^ LENGTH('w) \<Longrightarrow> dchecked_cast dchecks n (rest :: 'w :: len word \<Rightarrow> 'a res) = rest (of_nat n)"
  by (simp add: dchecked_cast_def)

lemma size_t_nat: "n \<le> 3 \<Longrightarrow> size_t (int n) = n"
  by (simp add: size_t_small)

section \<open>Adding an extension\<close>

lemma SetExtensionLength_ok:
  assumes "off = length a + 2" "length l = 2" "length M = n" "4 * ext_words n - n \<le> length R" "ext_words n < 2 ^ 14"
  shows "SetExtensionLengthMaybeAddZeroPadding dchecks off n (a @ l @ M @ R) =
    Inr (of_nat (4 * ext_words n), a @ mem_of (WriteBigEndian 2 (of_nat (ext_words n) :: u16)) @ M @ ext_zeros n @ drop (4 * ext_words n - n) R)"
proof -
  let ?w = "of_nat (ext_words n) :: u16" and ?k = "4 * ext_words n - n"
  have u: "unat ?w = ext_words n" using assms(5) by (simp add: unat_of_nat)
  have "int (4 * ext_words n) - int n = int ?k" using ext_words_bounds(1) [of n] by simp
  moreover have "?k \<le> 3" using ext_words_bounds(2) [of n] by simp
  ultimately have k: "size_t (int (4 * ext_words n) - int n) = ?k" using size_t_nat [of ?k] by (simp only: le_less_trans)
  have 1: "mem_store w (int off - 2) (mem_of (WriteBigEndian 2 ?w)) (a @ l @ M @ R) = Inr (a @ mem_of (WriteBigEndian 2 ?w) @ M @ R)" for w
    using store_at [of a "length a" l "mem_of (WriteBigEndian 2 ?w)" w "M @ R"] assms(1,2) by simp
  have 2: "mem_store w (int (off + n)) (ext_zeros n) (a @ mem_of (WriteBigEndian 2 ?w) @ M @ R) =
      Inr (a @ mem_of (WriteBigEndian 2 ?w) @ M @ ext_zeros n @ drop ?k R)" for w
  proof -
    have "length (a @ mem_of (WriteBigEndian 2 ?w) @ M) = off + n" "length (take ?k R) = length (ext_zeros n)"
      using assms(1-4) by simp_all
    from store_at [OF this, of w "drop ?k R"] show ?thesis by (simp only: append_assoc append_take_drop_id)
  qed
  show ?thesis
    unfolding SetExtensionLengthMaybeAddZeroPadding_def ext_words_def [symmetric] Let_def
    using assms(5) 1 2 by (simp add: u k flip: ext_zeros_def del: of_nat_add of_nat_mult, simp)
qed

lemma modify_byte_append:
  "i < length bytes \<Longrightarrow> modify_byte i f (mem_of bytes @ m) = Inr (mem_of (bytes[i := f (bytes ! i)]) @ m)"
  unfolding modify_byte_def
  by (simp add: mem_read_one [where v = "bytes ! i", unfolded One_nat_def] mem_store_one mem_of_def nth_append map_update list_update_append)

lemma extendable_room:
  assumes "extendable hdr p" "length hdr + 4 + n \<le> cow_capacity (rtp_buffer p)"
  shows "length hdr + 4 + 4 * ext_words n \<le> cow_capacity (rtp_buffer p)" "ext_words n < 2 ^ 14"
proof -
  from assms(1) obtain k where k: "cow_capacity (rtp_buffer p) = 4 * k" "k < 2 ^ 14"
    by (auto simp: extendable_def elim: dvdE)
  define c where "c = 4 + unat (hdr ! 0 AND 0x0f)"
  have c: "length hdr + 4 = 4 * c" using assms(1) by (simp add: extendable_def csrc_end_def c_def)
  have "ext_words n \<le> k - c" using assms(2) k c by (intro ext_words_bounds(3)) linarith
  then show "length hdr + 4 + 4 * ext_words n \<le> cow_capacity (rtp_buffer p)" "ext_words n < 2 ^ 14"
    using k c assms(2) by linarith+
qed

text \<open>The memory when the block is opened: header, profile, two bytes for the length, and the extensions there are.\<close>

lemma raw_memory_written:
  assumes "extendable hdr p" "length (ext_data hdr two es) \<le> cow_capacity (rtp_buffer p)" "es \<noteq> []"
  shows "\<exists>R. raw_memory (written hdr two es p) =
    (mem_of (mark_extension True hdr) @ mem_of (WriteBigEndian 2 (profile_of two))) @
      mem_of (WriteBigEndian 2 (of_nat (ext_words (length (ext_mem two es))) :: u16)) @ ext_mem two es @ R \<and>
    length R = cow_capacity (rtp_buffer p) - (length hdr + 4 + length (ext_mem two es))"
  using assms(2,3) ext_words_bounds(1) [of "length (ext_mem two es)"]
  by (auto simp: raw_memory_def written_def ext_data_def ext_block_def)

lemma open_block_first:
  assumes "extendable hdr p" "length hdr + 4 \<le> cow_capacity (rtp_buffer p)"
  shows "open_block dchecks (length hdr + 4) profile (written hdr two [] p) =
    Inr ((mem_of (mark_extension True hdr) @ mem_of (WriteBigEndian 2 profile)) @ [None, None] @
      replicate (cow_capacity (rtp_buffer p) - (length hdr + 4)) None)"
proof -
  let ?k = "cow_capacity (rtp_buffer p) - (length hdr + 4)"
  have w: "rtp_payload_offset (written hdr two [] p) = length hdr" "rtp_extensions_size (written hdr two [] p) = 0"
    by (simp_all add: written_def ext_data_def ext_block_def)
  have "cow_capacity (rtp_buffer p) - length hdr = 4 + ?k" using assms(2) by simp
  then have r: "raw_memory (written hdr two [] p) = mem_of hdr @ replicate 2 None @ [None, None] @ replicate ?k None"
    by (simp add: raw_memory_def written_def ext_data_def ext_block_def mark_extension_def replicate_add numeral_eq_Suc)
  have "hdr \<noteq> []" using assms(1) by (auto simp: extendable_def csrc_end_def)
  then have "modify_byte 0 (\<lambda>b. b OR 0x10) (mem_of hdr @ m) = Inr (mem_of (mark_extension True hdr) @ m)" for m
    by (simp add: modify_byte_append mark_extension_def)
  then show ?thesis
    unfolding open_block_def r w
    using store_at [of "mem_of (mark_extension True hdr)" "length hdr" "replicate 2 None" "mem_of (WriteBigEndian 2 profile)" "''buffer_''"]
    by simp
qed

lemma open_block_ok:
  fixes hdr two es p
  defines "a \<equiv> mem_of (mark_extension True hdr) @ mem_of (WriteBigEndian 2 (profile_of two))"
    and "k \<equiv> length hdr + 4 + length (ext_mem two es)"
  assumes "extendable hdr p" "k \<le> cow_capacity (rtp_buffer p)" "length (ext_data hdr two es) \<le> cow_capacity (rtp_buffer p)"
  shows "\<exists>l R. open_block dchecks (length hdr + 4) (profile_of two) (written hdr two es p) = Inr (a @ l @ ext_mem two es @ R) \<and>
    length l = 2 \<and> length R = cow_capacity (rtp_buffer p) - k"
proof (cases "es = []")
  case True
  then show ?thesis
    using open_block_first [OF assms(3), of dchecks "profile_of two" two] assms(4)
    by (intro exI [of _ "[None, None]"] exI [of _ "replicate (cow_capacity (rtp_buffer p) - k) None"]) (simp add: a_def k_def)
next
  case False
  from raw_memory_written [OF assms(3,5) this] obtain R where
    "raw_memory (written hdr two es p) = a @ mem_of (WriteBigEndian 2 (of_nat (ext_words (length (ext_mem two es))) :: u16)) @ ext_mem two es @ R"
    "length R = cow_capacity (rtp_buffer p) - k" unfolding a_def k_def by blast
  moreover have "rtp_extensions_size (written hdr two es p) \<noteq> 0" using False by (simp add: written_def)
  ultimately show ?thesis
    by (intro exI [of _ R] exI [of _ "mem_of (WriteBigEndian 2 (of_nat (ext_words (length (ext_mem two es))) :: u16))"]) (simp add: open_block_def)
qed

lemma write_extension_header_ok:
  assumes "ext_fits two x n" "length a = at" "ext_hlen two + n \<le> length R"
  shows "\<exists>v R'. write_extension_header dchecks x n (profile_of two) at (a @ R) = Inr (a @ ext_head two x n @ v @ R') \<and> length v = n \<and>
    length R = ext_hlen two + n + length R'"
proof -
  let ?h = "ext_hlen two"
  have "n - 1 < 2 ^ LENGTH(8)" "n < 2 ^ LENGTH(8)" using assms(1) by (auto simp: ext_fits_def)
  from this [THEN dchecked_cast_ok]
  have "write_extension_header dchecks x n (profile_of two) at (a @ R) = mem_store ''buffer_'' (int at) (ext_head two x n) (a @ R)"
    unfolding write_extension_header_def ext_head_def profile_of_one by (cases two) simp_all
  also have "\<dots> = Inr (a @ ext_head two x n @ take n (drop ?h R) @ drop (?h + n) R)"
    using store_at [OF assms(2), of "take ?h R" "ext_head two x n" "''buffer_''" "drop ?h R"] assms(3)
    by (simp add: add.commute flip: drop_drop)
  finally show ?thesis
    using assms(3) by (intro exI [of _ "take n (drop ?h R)"] exI [of _ "drop (?h + n) R"]) simp
qed

lemma close_block_ok:
  fixes hdr two es p
  defines "n \<equiv> length (ext_mem two es)"
  assumes "extendable hdr p" "es \<noteq> []" "length l = 2" "length hdr + 4 + n + length R = cow_capacity (rtp_buffer p)"
  shows "close_block dchecks (length hdr + 4) n
      ((mem_of (mark_extension True hdr) @ mem_of (WriteBigEndian 2 (profile_of two))) @ l @ ext_mem two es @ R)
      (p\<lparr>rtp_extension_entries := ext_infos (length hdr + 4) two es\<rparr>) =
    Inr (written hdr two es p)"
proof -
  let ?a = "mem_of (mark_extension True hdr) @ mem_of (WriteBigEndian 2 (profile_of two))"
  have room: "length hdr + 4 + 4 * ext_words n \<le> cow_capacity (rtp_buffer p)" "ext_words n < 2 ^ 14"
    using extendable_room [OF assms(2), of n] assms(5) by simp_all
  have u: "unat (of_nat (4 * ext_words n) :: u16) = 4 * ext_words n" using room(2) by (simp add: unat_of_nat del: of_nat_mult)
  have fit: "4 * ext_words n - n \<le> length R" using room(1) assms(5) by linarith
  have 1: "SetExtensionLengthMaybeAddZeroPadding dchecks (length hdr + 4) n (?a @ l @ ext_mem two es @ R) =
      Inr (of_nat (4 * ext_words n), ext_data hdr two es @ drop (4 * ext_words n - n) R)"
    using SetExtensionLength_ok [of "length hdr + 4" ?a l "ext_mem two es" n R dchecks, OF _ assms(4) _ fit room(2)] assms(3)
    by (simp add: n_def ext_data_def ext_block_def)
  have "length (ext_data hdr two es) = length hdr + 4 + 4 * ext_words n"
    using assms(3) by (simp add: ext_data_def length_ext_block n_def)
  then show ?thesis
    unfolding close_block_def 1 bind_res.simps prod.case u Let_def by (simp add: commit_def SetSize_def written_def n_def)
qed

lemma close_block_written:
  "close_block dchecks off n m ((written hdr two es p)\<lparr>rtp_extension_entries := a\<rparr>) = close_block dchecks off n m (p\<lparr>rtp_extension_entries := a\<rparr>)"
  by (simp add: close_block_def commit_def written_def Let_def)

lemma append_extension_ok:
  fixes hdr two es p n
  defines "off \<equiv> length hdr + 4" and "m \<equiv> length (ext_mem two es)"
  assumes e: "extendable hdr p" and x: "ext_fits two x n" and fit: "off + (m + ext_hlen two + n) \<le> cow_capacity (rtp_buffer p)"
    and old: "length (ext_data hdr two es) \<le> cow_capacity (rtp_buffer p)"
  shows "\<exists>v. length v = n \<and> append_extension dchecks x n off (profile_of two) (written hdr two es p) =
    Inr (Some (off + m + ext_hlen two), written hdr two (es @ [(x, v)]) p)"
proof -
  let ?w = "written hdr two es p" and ?cap = "cow_capacity (rtp_buffer p)"
  define a where "a = mem_of (mark_extension True hdr) @ mem_of (WriteBigEndian 2 (profile_of two))"
  have "length hdr + 4 + length (ext_mem two es) \<le> ?cap" using fit by (simp add: off_def m_def)
  from open_block_ok [OF e this old, of dchecks] obtain l R where
    1: "open_block dchecks off (profile_of two) ?w = Inr ((a @ l @ ext_mem two es) @ R)" and l: "length l = 2" "length R = ?cap - (off + m)"
    unfolding a_def off_def m_def by (auto simp del: append_assoc simp: append_assoc [symmetric])
  have "length (a @ l @ ext_mem two es) = off + m" "ext_hlen two + n \<le> length R" using l fit by (simp_all add: a_def off_def m_def)
  from write_extension_header_ok [OF x this, of dchecks] obtain v R' where
    2: "write_extension_header dchecks x n (profile_of two) (off + m) ((a @ l @ ext_mem two es) @ R) = Inr (a @ l @ ext_mem two (es @ [(x, v)]) @ R')"
    and R: "length v = n" "length R = ext_hlen two + n + length R'" by auto
  have c: "off + m + ext_hlen two < 2 ^ LENGTH(16)" "n < 2 ^ LENGTH(8)" using fit e x by (auto simp: extendable_def ext_fits_def)
  have i: "ext_infos off two es @ [\<lparr>ext_id = x, ext_length = of_nat n, ext_offset = of_nat (off + m + ext_hlen two)\<rparr>] =
      ext_infos off two (es @ [(x, v)])" using R(1) by (simp add: m_def)
  have len: "length (ext_mem two (es @ [(x, v)])) = m + ext_hlen two + n" using R(1) by (simp add: m_def)
  have "length hdr + 4 + length (ext_mem two (es @ [(x, v)])) + length R' = ?cap" using fit l R unfolding len by (simp add: off_def)
  from close_block_ok [OF e _ l(1) this, of dchecks]
  have 3: "close_block dchecks off (m + ext_hlen two + n) (a @ l @ ext_mem two (es @ [(x, v)]) @ R')
      (p\<lparr>rtp_extension_entries := ext_infos off two (es @ [(x, v)])\<rparr>) = Inr (written hdr two (es @ [(x, v)]) p)"
    unfolding len off_def a_def by simp
  have w: "rtp_extensions_size ?w = m" "cow_capacity (rtp_buffer ?w) = ?cap" "rtp_extension_entries ?w = ext_infos off two es"
    by (simp_all add: written_def m_def off_def)
  have u: "unat (of_nat (off + m + ext_hlen two) :: u16) = off + m + ext_hlen two" using c(1) by (simp add: unat_of_nat del: of_nat_add)
  have "append_extension dchecks x n off (profile_of two) ?w = Inr (Some (off + m + ext_hlen two), written hdr two (es @ [(x, v)]) p)"
    unfolding append_extension_def Let_def extension_header_length_profile w 1 2 bind_res.simps c [THEN dchecked_cast_ok] i close_block_written 3 u
    using fit by simp
  then show ?thesis using R(1) by blast
qed

section \<open>Changing to two-byte headers\<close>

lemma length_ext_mem_two: "length (ext_mem True es) = length (ext_mem False es) + length es"
  by (induction es) (auto simp: ext_hlen_def)

lemma split_gap:
  assumes "length X = n + 2 + k"
  shows "\<exists>Y y z Z. X = Y @ [y, z] @ Z \<and> length Y = n \<and> length Z = k"
proof -
  have "X = take n X @ [X ! n, X ! Suc n] @ drop (Suc (Suc n)) X" using assms by (simp add: Cons_nth_drop_Suc)
  then show ?thesis using assms by (intro exI conjI) (assumption, simp_all)
qed

lemma promote_entry:
  assumes v: "length v \<le> 255" and G: "length G = Suc n" and i: "i = length A + 1" "i + Suc n < 2 ^ 16" and h: "length hh = 1"
    and e: "e = \<lparr>ext_id = x, ext_length = of_nat (length v), ext_offset = of_nat i\<rparr>" and es: "length es = n"
  shows "\<exists>Y. length Y = n \<and> promote_entries dchecks (e # es) (A @ hh @ v @ G @ D) =
    bind_res (promote_entries dchecks es (A @ Y @ ext_head True x (length v) @ v @ D))
      (\<lambda>(es', m4). Inr (e\<lparr>ext_offset := of_nat (i + Suc n)\<rparr> # es', m4))"
proof -
  let ?len = "of_nat (length v) :: u8"
  have "length (hh @ v @ G) = n + 2 + length v" using G h by simp
  from split_gap [OF this] obtain Y y z Z where X: "hh @ v @ G = Y @ [y, z] @ Z" "length Y = n" "length Z = length v" by blast
  have m: "A @ hh @ v @ G @ D = (A @ Y @ [y, z]) @ Z @ D" using arg_cong [OF X(1), of "\<lambda>u. A @ u @ D"] by simp
  have u: "unat ?len = length v" "unat (of_nat i :: u16) = i" using v i(2) by (simp_all add: unat_of_nat)
  have load: "mem_load w (int i) (length v) (A @ hh @ v @ G @ D) = Inr v" for w
    using load_at [of "A @ hh" i v "length v" w "G @ D"] i h by simp
  have 1: "mem_store w (int (i + Suc n)) v (A @ hh @ v @ G @ D) = Inr ((A @ Y) @ [y] @ [z] @ v @ D)" for w
    unfolding m using store_at [of "A @ Y @ [y, z]" "i + Suc n" Z v w D] X i by simp
  have 2: "mem_store w (int (i + Suc n) - 1) [Some ?len] ((A @ Y) @ [y] @ [z] @ v @ D) = Inr ((A @ Y) @ [y] @ [Some ?len] @ v @ D)" for w
    using store_at [of "A @ Y @ [y]" "i + n" "[z]" "[Some ?len]" w "v @ D"] X i by simp
  have 3: "mem_store w (int (i + Suc n) - 2) [Some x] ((A @ Y) @ [y] @ [Some ?len] @ v @ D) = Inr (A @ Y @ ext_head True x (length v) @ v @ D)" for w
    using store_at [of "A @ Y" "length A + n" "[y]" "[Some x]" w "[Some ?len] @ v @ D"] X i by (simp add: ext_head_def)
  have c: "i + Suc n < 2 ^ LENGTH(16)" and l: "length (e # es) = Suc n" using i es by simp_all
  have "promote_entries dchecks (e # es) (A @ hh @ v @ G @ D) =
      bind_res (promote_entries dchecks es (A @ Y @ ext_head True x (length v) @ v @ D))
        (\<lambda>(es', m4). Inr (e\<lparr>ext_offset := of_nat (i + Suc n)\<rparr> # es', m4))"
    unfolding promote_entries.simps Let_def l unfolding e ExtensionInfo.simps u
    by (simp only: c [THEN dchecked_cast_ok] load bind_res.simps 1 2 3)
  then show ?thesis using X by (intro exI [of _ Y]) simp
qed

lemma promote_entries_ok:
  "\<forall>(x, v) \<in> set es. length v \<le> 255 \<Longrightarrow> length G = length es \<Longrightarrow> length A + length (ext_mem True es) < 2 ^ 16 \<Longrightarrow>
   promote_entries dchecks (rev (ext_infos (length A) False es)) (A @ ext_mem False es @ G @ D) =
     Inr (rev (ext_infos (length A) True es), A @ ext_mem True es @ D)"
proof (induction es arbitrary: G D rule: rev_induct)
  case (snoc e es)
  obtain x v where e: "e = (x, v)" by (cases e)
  let ?i = "length (A @ ext_mem False es) + 1"
  have b: "length v \<le> 255" "length G = Suc (length es)" "?i + Suc (length es) < 2 ^ 16"
    using snoc.prems by (auto simp: e length_ext_mem_two ext_hlen_def)
  have i: "ext_infos (length A) False (es @ [e]) = ext_infos (length A) False es @
      [\<lparr>ext_id = x, ext_length = of_nat (length v), ext_offset = of_nat ?i\<rparr>]"
    "ext_infos (length A) True (es @ [e]) = ext_infos (length A) True es @
      [\<lparr>ext_id = x, ext_length = of_nat (length v), ext_offset = of_nat (?i + Suc (length es))\<rparr>]"
    by (simp_all add: e ext_hlen_def length_ext_mem_two)
  from promote_entry [OF b(1,2) refl b(3) _ refl, where hh = "ext_head False x (length v)" and es = "rev (ext_infos (length A) False es)" and x = x and D = D]
  obtain Y where Y: "length Y = length es" "promote_entries dchecks (rev (ext_infos (length A) False (es @ [e])))
        ((A @ ext_mem False es) @ ext_head False x (length v) @ v @ G @ D) =
      bind_res (promote_entries dchecks (rev (ext_infos (length A) False es)) ((A @ ext_mem False es) @ Y @ ext_head True x (length v) @ v @ D))
        (\<lambda>(es', m4). Inr (\<lparr>ext_id = x, ext_length = of_nat (length v), ext_offset = of_nat (?i + Suc (length es))\<rparr> # es', m4))"
    unfolding i by (auto simp: ext_hlen_def)
  have "promote_entries dchecks (rev (ext_infos (length A) False es)) (A @ ext_mem False es @ Y @ ext_head True x (length v) @ v @ D) =
      Inr (rev (ext_infos (length A) True es), A @ ext_mem True es @ ext_head True x (length v) @ v @ D)"
    using snoc.prems Y(1) by (intro snoc.IH) auto
  then show ?case using Y(2) unfolding i by (simp add: e)
qed simp

lemma extensions_offset_ok:
  assumes "extendable hdr p"
  shows "extensions_offset (ext_data hdr two es) = Inr (length hdr + 4)"
proof -
  let ?h = "mark_extension (es \<noteq> []) hdr"
  have ne: "hdr \<noteq> []" using assms by (auto simp: extendable_def csrc_end_def)
  then have "mem_read w (int 0) 1 (ext_data hdr two es) = Inr [?h ! 0]" for w
    by (intro mem_read_one) (auto simp: ext_data_def mem_of_def nth_append)
  moreover have "?h ! 0 AND 0x0f = hdr ! 0 AND 0x0f" using ne by (simp add: mark_extension_def bit.conj_disj_distrib2)
  ultimately show ?thesis using assms by (simp add: extensions_offset_def extendable_def csrc_end_def kFixedHeaderSize_def)
qed

lemma read_profile:
  assumes "es \<noteq> []"
  shows "mem_read w (int (length hdr + 4) - 4) 2 (ext_data hdr two es) = Inr (WriteBigEndian 2 (profile_of two))"
  using load_at [of "mem_of (mark_extension True hdr)" "length hdr" "mem_of (WriteBigEndian 2 (profile_of two))" 2 w] assms
  by (simp add: mem_read_def ext_data_def ext_block_def)

lemma written_simps:
  "cow_data (rtp_buffer (written hdr two es p)) = ext_data hdr two es" "cow_capacity (rtp_buffer (written hdr two es p)) = cow_capacity (rtp_buffer p)"
  "rtp_extensions_size (written hdr two es p) = length (ext_mem two es)" "rtp_payload_size (written hdr two es p) = rtp_payload_size p"
  "rtp_padding_size (written hdr two es p) = rtp_padding_size p" "rtp_extensions (written hdr two es p) = rtp_extensions p"
  "rtp_extension_entries (written hdr two es p) = ext_infos (length hdr + 4) two es"
  by (simp_all add: written_def)

lemma Promote_ok:
  assumes e: "extendable hdr p" and es: "es \<noteq> []" "\<forall>(x, v) \<in> set es. length v \<le> 255"
    and fit: "length hdr + 4 + length (ext_mem True es) \<le> cow_capacity (rtp_buffer p)" "length (ext_data hdr False es) \<le> cow_capacity (rtp_buffer p)"
  shows "PromoteToTwoByteHeaderExtension dchecks (written hdr False es p) = Inr (written hdr True es p)"
proof -
  let ?off = "length hdr + 4" and ?cap = "cow_capacity (rtp_buffer p)" and ?n = "length (ext_mem False es)"
  define h where "h = mem_of (mark_extension True hdr)"
  define l where "l = mem_of (WriteBigEndian 2 (of_nat (ext_words ?n) :: u16))"
  define A where "A two = h @ mem_of (WriteBigEndian 2 (profile_of two)) @ l" for two
  from raw_memory_written [OF e fit(2) es(1)] obtain R where
    R: "raw_memory (written hdr False es p) = A False @ ext_mem False es @ R" "length R = ?cap - (?off + ?n)"
    by (auto simp: A_def h_def l_def)
  define G where "G = take (length es) R"
  define D where "D = drop (length es) R"
  have len: "length (A two) = ?off" "length l = 2" for two by (simp_all add: A_def h_def l_def)
  have GD: "R = G @ D" "length G = length es" "?off + length (ext_mem True es) + length D = ?cap"
    using fit(1) R(2) by (simp_all add: G_def D_def length_ext_mem_two)
  have 1: "promote_entries dchecks (rev (ext_infos ?off False es)) (A False @ ext_mem False es @ R) =
      Inr (rev (ext_infos ?off True es), A False @ ext_mem True es @ D)"
    unfolding GD(1) using promote_entries_ok [OF es(2) GD(2), of "A False" dchecks D] fit(1) e by (simp add: len extendable_def)
  have 2: "mem_store w (int ?off - 4) (mem_of (WriteBigEndian 2 kTwoByteExtensionProfileId)) (A False @ m) = Inr ((h @ mem_of (WriteBigEndian 2 (profile_of True))) @ l @ m)" for w m
    using store_at [of h "length hdr" "mem_of (WriteBigEndian 2 (profile_of False))" "mem_of (WriteBigEndian 2 kTwoByteExtensionProfileId)" w "l @ m"]
    by (simp add: A_def h_def profile_of_def)
  from close_block_ok [OF e es(1) len(2) GD(3), of dchecks]
  have 3: "close_block dchecks ?off (?n + length es) ((h @ mem_of (WriteBigEndian 2 (profile_of True))) @ l @ ext_mem True es @ D)
      (p\<lparr>rtp_extension_entries := ext_infos ?off True es\<rparr>) = Inr (written hdr True es p)"
    by (simp add: h_def length_ext_mem_two)
  have "ReadBigEndian (WriteBigEndian 2 (profile_of False)) = kOneByteExtensionProfileId"
    by (simp add: profile_of_def ReadBigEndian_Write)
  then show ?thesis
    unfolding PromoteToTwoByteHeaderExtension_def written_simps extensions_offset_ok [OF e]
      bind_res.simps read_profile [OF es(1)] R(1) 1 prod.case 2
    using 3 e es(1) by (simp add: RTC_CHECK_def extendable_def close_block_written)
qed

section \<open>The functions of the packet\<close>

text \<open>A list of extensions that the headers can hold, with distinct ids; no extensions need no two-byte headers.\<close>

definition exts_ok :: "bool \<Rightarrow> (u8 \<times> mem) list \<Rightarrow> bool" where
  "exts_ok two es \<longleftrightarrow> (\<forall>(x, v) \<in> set es. ext_fits two x (length v)) \<and> distinct (map fst es) \<and> (es = [] \<longrightarrow> \<not> two)"

lemma ext_fits_promote: "ext_fits two x n \<Longrightarrow> ext_fits True x n"
  by (auto simp: ext_fits_def)

lemma exts_ok_promote: "exts_ok two es \<Longrightarrow> es \<noteq> [] \<Longrightarrow> exts_ok True es"
  by (auto simp: exts_ok_def intro: ext_fits_promote)

lemma ids_ext_infos: "map ext_id (ext_infos off two es) = map fst es"
  by (induction es arbitrary: off) auto

lemma find_skip: "find P xs = None \<Longrightarrow> find P (xs @ ys) = find P ys"
  by (induction xs) (auto split: if_splits)

lemma FindExtensionInfo_infos:
  "FindExtensionInfo x (ext_infos off two es) = None \<longleftrightarrow> x \<notin> fst ` set es"
proof -
  have "fst ` set es = ext_id ` set (ext_infos off two es)" using arg_cong [OF ids_ext_infos, of set] by simp
  then show ?thesis by (auto simp: FindExtensionInfo_def find_None_iff)
qed

lemma FindExtensionInfo_split:
  "x \<notin> fst ` set es \<Longrightarrow> FindExtensionInfo x (ext_infos off two (es @ (x, v) # fs)) =
     Some \<lparr>ext_id = x, ext_length = of_nat (length v), ext_offset = of_nat (off + length (ext_mem two es) + ext_hlen two)\<rparr>"
  using FindExtensionInfo_infos [of x off two es] by (simp add: FindExtensionInfo_def find_skip)

definition ext_room :: "nat \<Rightarrow> bool \<Rightarrow> (u8 \<times> mem) list \<Rightarrow> nat \<Rightarrow> nat" where
  "ext_room hlen two es n = hlen + 4 + (length (ext_mem two es) + ext_hlen two + n)"

lemma AllocateRawExtension_new:
  fixes hdr two es p x n
  defines "two' \<equiv> two \<or> two_byte_required x n"
  assumes e: "extendable hdr p" and es: "exts_ok two es" "x \<notin> fst ` set es" and x: "x \<noteq> 0" "1 \<le> n" "n \<le> 255"
    and mixed: "two_byte_required x n \<longrightarrow> extmap_allow_mixed (rtp_extensions p)"
    and old: "length (ext_data hdr two es) \<le> cow_capacity (rtp_buffer p)"
  shows "if ext_room (length hdr) two' es n \<le> cow_capacity (rtp_buffer p)
    then \<exists>v. length v = n \<and> AllocateRawExtension dchecks x n (written hdr two es p) =
      Inr (Some (length hdr + 4 + length (ext_mem two' es) + ext_hlen two'), written hdr two' (es @ [(x, v)]) p)
    else AllocateRawExtension dchecks x n (written hdr two es p) = Inr (None, written hdr two es p)"
proof -
  let ?cap = "cow_capacity (rtp_buffer p)" and ?off = "length hdr + 4"
  have x1: "1 \<le> x" using x(1) by (simp add: word_le_nat_alt Suc_le_eq unat_gt_0)
  have p: "rtp_payload_size p = 0" "rtp_padding_size p = 0" "es = [] \<Longrightarrow> \<not> two" using e es(1) by (simp_all add: extendable_def exts_ok_def)
  have fits: "ext_fits two' x n" using x by (auto simp: ext_fits_def two'_def)
  have rb: "ReadBigEndian (WriteBigEndian 2 (profile_of t)) = profile_of t" for t by (simp add: ReadBigEndian_Write)
  have pr: "kTwoByteExtensionProfileId = profile_of True" "kOneByteExtensionProfileId = profile_of False" "profile_of a = profile_of b \<longleftrightarrow> a = b" for a b
    by (auto simp: profile_of_def rtp_constants)
  have none: "append_extension dchecks x n ?off (profile_of two) (written hdr two es p) = Inr (None, written hdr two es p)"
    if "\<not> ext_room (length hdr) two es n \<le> ?cap" for two es
    using that by (simp add: append_extension_def Let_def written_simps ext_room_def)
  have app: "\<exists>v. length v = n \<and> append_extension dchecks x n ?off (profile_of two') (written hdr two' es p) =
      Inr (Some (?off + length (ext_mem two' es) + ext_hlen two'), written hdr two' (es @ [(x, v)]) p)"
    if "ext_room (length hdr) two' es n \<le> ?cap" "length (ext_data hdr two' es) \<le> ?cap"
    using append_extension_ok [OF e fits _ that(2), of dchecks] that(1) by (simp add: ext_room_def)
  have start: "AllocateRawExtension dchecks x n (written hdr two es p) =
      (if es \<noteq> [] \<and> \<not> two \<and> two' then
         if ext_room (length hdr) True es n > ?cap then Inr (None, written hdr two es p)
         else bind_res (PromoteToTwoByteHeaderExtension dchecks (written hdr two es p)) (append_extension dchecks x n ?off (profile_of True))
       else append_extension dchecks x n ?off (profile_of two') (written hdr two es p))"
    using x x1 mixed es(2) FindExtensionInfo_infos [of x ?off two es] p
    by (cases "es = []"; cases two; cases "two_byte_required x n")
      (simp_all add: AllocateRawExtension_def extension_constants written_simps extensions_offset_ok [OF e] read_profile [simplified] RTC_CHECK_def rb pr
         two'_def ext_room_def ext_hlen_def length_ext_mem_two kTwoByteExtensionHeaderLength_def)
  consider "es = []" "\<not> two" | "es \<noteq> []" "\<not> two" "two'" | "es \<noteq> []" "two' = two" using p(3) by (auto simp: two'_def)
  then show ?thesis
  proof cases
    case 1
    have "written hdr two es p = written hdr two' es p" "length (ext_data hdr two' es) = length (ext_data hdr two es)"
      using 1 by (simp_all add: written_def ext_data_def ext_block_def)
    then show ?thesis using app none [of two' es] old 1 unfolding start by simp
  next
    case 2
    have "\<forall>(x, v) \<in> set es. length v \<le> 255" using es(1) by (auto simp: exts_ok_def ext_fits_def)
    from Promote_ok [OF e 2(1) this] have "PromoteToTwoByteHeaderExtension dchecks (written hdr two es p) = Inr (written hdr two' es p)"
      if "ext_room (length hdr) True es n \<le> ?cap" using that old 2 by (simp add: ext_room_def)
    moreover have "length (ext_data hdr two' es) \<le> ?cap" if "ext_room (length hdr) True es n \<le> ?cap"
      using extendable_room(1) [OF e, of "length (ext_mem True es)"] that 2 by (simp add: ext_room_def ext_data_def length_ext_block)
    ultimately show ?thesis using app 2 unfolding start by simp
  next
    case 3
    then show ?thesis using app none [of two' es] old unfolding start by simp
  qed
qed

section \<open>An association list of extensions\<close>

text \<open>
  What a packet promises of its extensions: setting one updates an association list from ids to values. It is refused
  when the type has no id, the value has no admissible length, the extension has another length already, or the block would not fit in
  the capacity; two-byte headers are used from the first extension on that needs them.
\<close>

definition byte_exts :: "(u8 \<times> u8 list) list \<Rightarrow> (u8 \<times> mem) list" where
  "byte_exts = map (\<lambda>(x, d). (x, mem_of d))"

definition put_extension ::
    "RtpHeaderExtensionMap \<Rightarrow> nat \<Rightarrow> nat \<Rightarrow> RTPExtensionType \<times> u8 list \<Rightarrow> bool \<times> (u8 \<times> u8 list) list \<Rightarrow> bool \<times> bool \<times> (u8 \<times> u8 list) list" where
  "put_extension exts hlen cap c s =
     (case (c, s) of ((type, d), (two, es)) \<Rightarrow>
        let x = extension_ids exts type; n = length d; two' = (two \<or> two_byte_required x n) in
        if x = 0 \<or> n = 0 \<or> n > 255 \<or> two_byte_required x n \<and> \<not> extmap_allow_mixed exts then (False, two, es)
        else
          case map_of es x of
            Some d' \<Rightarrow> if length d' = n then (True, two, AList.update x d es) else (False, two, es)
          | None \<Rightarrow> if ext_room hlen two' (byte_exts es) n \<le> cap then (True, two', AList.update x d es) else (False, two, es))"

lemma byte_exts_simps [simp]:
  "byte_exts [] = []" "byte_exts ((x, d) # es) = (x, mem_of d) # byte_exts es" "byte_exts (es @ fs) = byte_exts es @ byte_exts fs"
  "fst ` set (byte_exts es) = fst ` set es" "map fst (byte_exts es) = map fst es" "byte_exts es = [] \<longleftrightarrow> es = []"
  by (auto simp: byte_exts_def image_image case_prod_unfold comp_def)

lemma update_new: "x \<notin> fst ` set es \<Longrightarrow> AList.update x d es = es @ [(x, d)]"
  by (induction es) auto

lemma update_old: "x \<notin> fst ` set es \<Longrightarrow> AList.update x d (es @ (x, d') # fs) = es @ (x, d) # fs"
  by (induction es) auto

lemma map_of_split: "map_of es x = Some d \<Longrightarrow> \<exists>es1 es2. es = es1 @ (x, d) # es2 \<and> x \<notin> fst ` set es1"
proof (induction es)
  case (Cons e es)
  obtain y v where e: "e = (y, v)" by (cases e)
  show ?case
  proof (cases "y = x")
    case True
    then show ?thesis using Cons.prems e by (intro exI [of _ "[]"] exI [of _ es]) auto
  next
    case False
    then obtain es1 es2 where "es = es1 @ (x, d) # es2" "x \<notin> fst ` set es1" using Cons e by auto
    then show ?thesis using False e by (intro exI [of _ "e # es1"] exI [of _ es2]) auto
  qed
qed simp

lemma write_value:
  assumes "length u = length v"
  shows "write_buffer (mem_store w (int (length hdr + 4 + length (ext_mem two es) + ext_hlen two)) u) (written hdr two (es @ (x, v) # fs) p) =
    Inr (written hdr two (es @ (x, u) # fs) p)"
proof -
  define n where "n = length (ext_mem two (es @ (x, v) # fs))"
  define A where "A = mem_of (mark_extension True hdr) @ mem_of (WriteBigEndian 2 (profile_of two)) @
    mem_of (WriteBigEndian 2 (of_nat (ext_words n) :: u16)) @ ext_mem two es @ ext_head two x (length v)"
  have n: "length (ext_mem two (es @ (x, u) # fs)) = n" using assms by (simp add: n_def)
  have d: "ext_data hdr two (es @ (x, v') # fs) = A @ v' @ ext_mem two fs @ ext_zeros n" if "length v' = length v" for v'
  proof -
    have "length (ext_mem two (es @ (x, v') # fs)) = n" using that by (simp add: n_def)
    then show ?thesis unfolding ext_data_def ext_block_def A_def using that by simp
  qed
  have "length A = length hdr + 4 + length (ext_mem two es) + ext_hlen two" by (simp add: A_def)
  from store_at [OF this, of v u w] have "mem_store w (int (length hdr + 4 + length (ext_mem two es) + ext_hlen two)) u (ext_data hdr two (es @ (x, v) # fs)) =
      Inr (ext_data hdr two (es @ (x, u) # fs))" using assms by (simp add: d)
  moreover have "ext_infos (length hdr + 4) two (es @ (x, v) # fs) = ext_infos (length hdr + 4) two (es @ (x, u) # fs)" using assms by simp
  moreover have "length (ext_data hdr two (es @ (x, v) # fs)) = length (ext_data hdr two (es @ (x, u) # fs))" using assms by (simp add: d)
  ultimately show ?thesis unfolding written_def using n n_def by (simp add: write_buffer_def change_data_def del: ext_infos_append ext_mem_simps)
qed

definition ext_state :: "u8 list \<Rightarrow> 'a RtpPacket_scheme \<Rightarrow> bool \<times> (u8 \<times> u8 list) list \<Rightarrow> bool" where
  "ext_state hdr p s \<longleftrightarrow> exts_ok (fst s) (byte_exts (snd s)) \<and> length (ext_data hdr (fst s) (byte_exts (snd s))) \<le> cow_capacity (rtp_buffer p)"

lemma AllocateExtension_refused:
  fixes p :: "'a RtpPacket_scheme" and type x exts
  defines "exts \<equiv> rtp_extensions p" and "x \<equiv> extension_ids (rtp_extensions p) type"
  assumes "type \<in> set extension_types"
  shows "AllocateExtension dchecks type n p =
    (if x = 0 \<or> n = 0 \<or> n > 255 \<or> two_byte_required x n \<and> \<not> extmap_allow_mixed exts then Inr (None, p)
     else AllocateRawExtension dchecks x n p)"
proof -
  have "GetId dchecks type exts = Inr x" using assms(3) by (auto simp: GetId_def type_checks_def x_def exts_def extension_types_def)
  then show ?thesis by (auto simp: AllocateExtension_def exts_def [symmetric] extension_constants two_byte_required_def)
qed

lemma AllocateRawExtension_old:
  assumes e: "extendable hdr p" and x: "x \<notin> fst ` set es" "x \<noteq> 0" and n: "1 \<le> n" "n \<le> 255" "length v \<le> 255"
    and fit: "length (ext_data hdr two (es @ (x, v) # fs)) \<le> cow_capacity (rtp_buffer p)"
  shows "AllocateRawExtension dchecks x n (written hdr two (es @ (x, v) # fs) p) =
    Inr (if length v = n then Some (length hdr + 4 + length (ext_mem two es) + ext_hlen two) else None, written hdr two (es @ (x, v) # fs) p)"
proof -
  let ?k = "length hdr + 4 + length (ext_mem two es) + ext_hlen two"
  have "1 \<le> x" using x(2) by (simp add: word_le_nat_alt Suc_le_eq unat_gt_0)
  moreover have "?k < 2 ^ 16"
    using fit e ext_words_bounds(1) [of "length (ext_mem two (es @ (x, v) # fs))"] by (simp add: ext_data_def length_ext_block extendable_def)
  then have "unat (of_nat ?k :: u16) = ?k" by (simp add: unat_of_nat del: of_nat_add)
  moreover have "unat (of_nat (length v) :: u8) = length v" using n(3) by (simp add: unat_of_nat)
  ultimately show ?thesis
    using n by (simp add: AllocateRawExtension_def kMaxValueSize_def written_simps FindExtensionInfo_split [OF x(1)] del: of_nat_add ext_infos_append)
qed

lemma SetRawExtension_new:
  assumes e: "extendable hdr p" and s: "ext_state hdr p (two, es)" and x: "x \<noteq> 0" "1 \<le> length d" "length d \<le> 255" "x \<notin> fst ` set es"
    and mixed: "two_byte_required x (length d) \<longrightarrow> extmap_allow_mixed (rtp_extensions p)"
    and room: "ext_room (length hdr) two' (byte_exts es) (length d) \<le> cow_capacity (rtp_buffer p)" "two' = (two \<or> two_byte_required x (length d))"
  shows "\<exists>v. AllocateRawExtension dchecks x (length d) (written hdr two (byte_exts es) p) =
      Inr (Some (length hdr + 4 + length (ext_mem two' (byte_exts es)) + ext_hlen two'), written hdr two' (byte_exts es @ [(x, v)]) p) \<and> length v = length d"
    and "ext_state hdr p (two', es @ [(x, d)])"
proof -
  have ok: "exts_ok two (byte_exts es)" "length (ext_data hdr two (byte_exts es)) \<le> cow_capacity (rtp_buffer p)" using s by (simp_all add: ext_state_def)
  show "\<exists>v. AllocateRawExtension dchecks x (length d) (written hdr two (byte_exts es) p) =
      Inr (Some (length hdr + 4 + length (ext_mem two' (byte_exts es)) + ext_hlen two'), written hdr two' (byte_exts es @ [(x, v)]) p) \<and> length v = length d"
    using AllocateRawExtension_new [OF e ok(1) _ x(1-3) mixed ok(2), of dchecks] x(4) room(1) unfolding room(2) [symmetric] by auto
  have "exts_ok two' (byte_exts (es @ [(x, d)]))"
    using ok(1) x unfolding room(2) by (auto simp: exts_ok_def ext_fits_def)
  moreover have "length (ext_data hdr two' (byte_exts (es @ [(x, d)]))) \<le> cow_capacity (rtp_buffer p)"
    using extendable_room(1) [OF e, of "length (ext_mem two' (byte_exts (es @ [(x, d)])))"] room(1)
    by (simp add: ext_data_def length_ext_block ext_room_def)
  ultimately show "ext_state hdr p (two', es @ [(x, d)])" by (simp add: ext_state_def)
qed

lemma SetRawExtension_ok:
  assumes e: "extendable hdr p" and s: "ext_state hdr p (two, es)" and t: "type \<in> set extension_types"
    and put: "put_extension (rtp_extensions p) (length hdr) (cow_capacity (rtp_buffer p)) (type, d) (two, es) = (ok, two', es')"
  shows "SetRawExtension dchecks type d (written hdr two (byte_exts es) p) = Inr (ok, written hdr two' (byte_exts es') p) \<and>
    ext_state hdr p (two', es')"
proof -
  define x where "x = extension_ids (rtp_extensions p) type"
  let ?w = "written hdr two (byte_exts es) p" and ?refused = "x = 0 \<or> length d = 0 \<or> length d > 255 \<or>
    two_byte_required x (length d) \<and> \<not> extmap_allow_mixed (rtp_extensions p)"
  let ?t = "two \<or> two_byte_required x (length d)"
  note alloc = AllocateExtension_refused [OF t, where p = ?w and dchecks = dchecks and n = "length d", unfolded written_simps x_def [symmetric]]
  have put': "put_extension (rtp_extensions p) (length hdr) (cow_capacity (rtp_buffer p)) (type, d) (two, es) =
      (if ?refused then (False, two, es)
       else case map_of es x of
            Some d' \<Rightarrow> if length d' = length d then (True, two, AList.update x d es) else (False, two, es)
          | None \<Rightarrow> if ext_room (length hdr) ?t (byte_exts es) (length d) \<le> cow_capacity (rtp_buffer p) then (True, ?t, AList.update x d es) else (False, two, es))"
    unfolding put_extension_def Let_def x_def prod.case by (rule refl)
  consider "?refused" | d' where "\<not> ?refused" "map_of es x = Some d'" | "\<not> ?refused" "map_of es x = None" by (cases "map_of es x") auto
  then show ?thesis
  proof cases
    case 1
    then show ?thesis using alloc put s unfolding put' by (auto simp: SetRawExtension_def)
  next
    case 2
    from map_of_split [OF 2(2)] obtain es1 es2 where es: "es = es1 @ (x, d') # es2" "x \<notin> fst ` set es1" by blast
    have "1 \<le> length d" using 2(1) by (auto simp: Suc_le_eq)
    moreover have "length d' \<le> 255" using s by (auto simp: ext_state_def exts_ok_def es(1) ext_fits_def)
    ultimately have "AllocateExtension dchecks type (length d) ?w =
        Inr (if length d' = length d then Some (length hdr + 4 + length (ext_mem two (byte_exts es1)) + ext_hlen two) else None, ?w)"
      using AllocateRawExtension_old [OF e, of x "byte_exts es1" "length d" "mem_of d'" two "byte_exts es2" dchecks] 2(1) alloc es s
      by (auto simp: ext_state_def)
    moreover have "ext_state hdr p (two, es1 @ (x, d) # es2)" if "length d' = length d"
      using s that by (auto simp: ext_state_def exts_ok_def es ext_data_def length_ext_block)
    moreover have "write_buffer (mem_store ''buffer'' (int (length hdr + 4 + length (ext_mem two (byte_exts es1)) + ext_hlen two)) (mem_of d)) ?w =
        Inr (written hdr two (byte_exts (es1 @ (x, d) # es2)) p)" if "length d' = length d"
      using write_value [of "mem_of d" "mem_of d'" "''buffer''" hdr two "byte_exts es1" x "byte_exts es2" p] that by (simp add: es)
    moreover have upd: "AList.update x d es = es1 @ (x, d) # es2" by (simp add: es update_old)
    have "(ok, two', es') = (if length d' = length d then (True, two, es1 @ (x, d) # es2) else (False, two, es))"
      using put 2(1) unfolding put' 2(2) upd by (simp only: if_False option.case)
    ultimately show ?thesis
      using s by (cases "length d' = length d") (simp_all add: SetRawExtension_def del: of_nat_add)
  next
    case 3
    have new: "x \<notin> fst ` set es" using 3(2) by (simp add: map_of_eq_None_iff)
    have b: "x \<noteq> 0" "1 \<le> length d" "length d \<le> 255" "two_byte_required x (length d) \<longrightarrow> extmap_allow_mixed (rtp_extensions p)"
      using 3(1) by (auto simp: Suc_le_eq)
    have a: "AllocateExtension dchecks type (length d) ?w = AllocateRawExtension dchecks x (length d) ?w" using alloc 3(1) by auto
    show ?thesis
    proof (cases "ext_room (length hdr) ?t (byte_exts es) (length d) \<le> cow_capacity (rtp_buffer p)")
      case True
      note * = SetRawExtension_new [OF e s b(1-3) new b(4) True refl]
      from *(1) [of dchecks] obtain v where v: "length v = length d" "AllocateRawExtension dchecks x (length d) ?w =
          Inr (Some (length hdr + 4 + length (ext_mem ?t (byte_exts es)) + ext_hlen ?t), written hdr ?t (byte_exts es @ [(x, v)]) p)" by blast
      have "SetRawExtension dchecks type d ?w = Inr (True, written hdr ?t (byte_exts (es @ [(x, d)])) p)"
        using write_value [of "mem_of d" v "''buffer''" hdr ?t "byte_exts es" x "[]" p] v(1)
        by (simp add: SetRawExtension_def a v(2) del: of_nat_add)
      then show ?thesis using *(2) put 3 True unfolding put' by (auto simp: update_new [OF new])
    next
      case False
      have "AllocateRawExtension dchecks x (length d) ?w = Inr (None, ?w)"
        using AllocateRawExtension_new [OF e _ _ b(1-4), of two "byte_exts es" dchecks] s False new by (simp add: ext_state_def)
      then show ?thesis using put 3 False s unfolding put' by (auto simp: SetRawExtension_def a)
    qed
  qed
qed

text \<open>A class that writes its value as given bytes sets the extension as \<open>SetRawExtension\<close> does.\<close>

lemma SetExtension_eq:
  assumes "AllocateExtension dchecks type (length d) p = Inr (view, p1)" "\<And>off. view = Some off \<Longrightarrow> off + length d \<le> buffer_size (rtp_buffer p1)"
    and "\<And>v. length v = length d \<Longrightarrow> write v = Inr (True, mem_of d)"
  shows "SetExtension dchecks type (length d) write p = SetRawExtension dchecks type d p"
  using assms by (auto simp: SetExtension_def SetRawExtension_def mem_load_nat split: option.splits)

end
