(* ===== verification/Rtp_Roundtrip.thy ===== *)
theory Rtp_Roundtrip
  imports Rtp_Extensions
begin

text \<open>
  The parser reads the header extensions and CSRCs that the functions of \<open>Rtp_Extensions\<close> write: a packet that is filled
  completely is read back by a receiver.
\<close>

section \<open>Reading the extension block\<close>

definition one_byte_head_ok :: "u8 \<Rightarrow> nat \<Rightarrow> bool" where
  "one_byte_head_ok x n \<longleftrightarrow> (let b = push_bit 4 x OR of_nat (n - 1) in
     drop_bit 4 b = x \<and> 1 + (b AND 0xf) = of_nat n \<and> b \<noteq> 0 \<and> x \<noteq> 15 \<and> x \<noteq> 0)"

lemma one_byte_heads: "list_all (\<lambda>x. list_all (one_byte_head_ok (of_nat x)) [1..<17]) [1..<15]"
  by code_simp

lemma head_one_byte: "ext_fits False x n \<Longrightarrow> one_byte_head_ok x n"
proof -
  assume "ext_fits False x n"
  then have "x \<noteq> 0" "unat x \<le> 14" "1 \<le> n" "n \<le> 16" by (auto simp: ext_fits_def two_byte_required_def extension_constants)
  then have "unat x \<in> set [1..<15]" "n \<in> set [1..<17]" by (auto simp: Suc_le_eq unat_gt_0)
  then show ?thesis using one_byte_heads unfolding list_all_iff by fastforce
qed

lemma parse_zeros:
  assumes "\<forall>k. m \<le> k \<longrightarrow> k < cap \<longrightarrow> buffer ! (off + k) = Some 0" "off + cap \<le> length buffer"
  shows "\<exists>m'. parse_extensions buffer profile off cap m es = Inr (m', es)"
  using assms(1)
proof (induction "cap - m" arbitrary: m rule: less_induct)
  case less
  have h: "1 \<le> extension_header_length profile" by (simp add: extension_header_length_def rtp_constants)
  show ?case
  proof (cases "m + extension_header_length profile < cap")
    case True
    have "mem_read w (int (off + m)) 1 buffer = Inr [0]" for w
      using less.prems assms(2) True h by (intro mem_read_one) auto
    moreover have "\<exists>m'. parse_extensions buffer profile off cap (m + 1) es = Inr (m', es)"
      using less.prems True by (intro less.hyps) auto
    ultimately show ?thesis using True by (subst parse_extensions.simps) (simp del: of_nat_add)
  next
    case False
    then show ?thesis by (subst parse_extensions.simps) simp
  qed
qed

lemma update_extension_last:
  "x \<notin> ext_id ` set es \<Longrightarrow> ext_id e = x \<Longrightarrow> update_extension x f (es @ [e]) = es @ [f e]"
  by (induction es) auto

lemma parse_written_step:
  fixes A two es fs D x v n buffer
  defines "n \<equiv> length (ext_mem two (es @ (x, v) # fs))"
  defines "buffer \<equiv> A @ ext_mem two (es @ (x, v) # fs) @ ext_zeros n @ D"
  assumes x: "ext_fits two x (length v)" "x \<notin> fst ` set es" and small: "length A + n < 2 ^ 16"
  shows "parse_extensions buffer (profile_of two) (length A) (4 * ext_words n) (length (ext_mem two es)) (ext_infos (length A) two es) =
    parse_extensions buffer (profile_of two) (length A) (4 * ext_words n) (length (ext_mem two (es @ [(x, v)]))) (ext_infos (length A) two (es @ [(x, v)]))"
proof -
  let ?m = "length (ext_mem two es)" and ?h = "ext_hlen two" and ?len = "of_nat (length v) :: u8"
  let ?rest = "v @ ext_mem two fs @ ext_zeros n @ D" and ?cap = "4 * ext_words n"
  have len: "1 \<le> length v" "unat ?len = length v" "x \<noteq> 0" using x(1) by (auto simp: ext_fits_def unat_of_nat)
  have fit: "?m + ?h < ?cap" "?m + ?h + length v \<le> ?cap" using len(1) ext_words_bounds(1) [of n] by (simp_all add: n_def)
  have cell: "mem_read w (int (length A + ?m + k)) 1 buffer = Inr [b]" if "k < ?h" "ext_head two x (length v) ! k = Some b" for w k b
    using that by (intro mem_read_one) (simp_all add: buffer_def nth_append)
  obtain b where b: "b \<noteq> 0" "mem_read ''buffer'' (int (length A + ?m)) 1 buffer = Inr [b]"
    "(if profile_of two = kOneByteExtensionProfileId then Inr (drop_bit 4 b, 1 + (b AND 0xf))
      else bind_res (mem_read ''buffer'' (int (length A + ?m + 1)) 1 buffer) (\<lambda>l. Inr (b, hd l))) = Inr (x, ?len)"
    "\<not> (profile_of two = kOneByteExtensionProfileId \<and> (x = 15 \<or> x = 0 \<and> ?len \<noteq> 1))"
  proof (cases two)
    case True
    then show ?thesis using that [of x] cell [of 0 x] cell [of 1 ?len] len(3) by (simp add: ext_head_def ext_hlen_def)
  next
    case False
    then have "one_byte_head_ok x (length v)" using head_one_byte x(1) by simp
    then show ?thesis
      using False that [of "push_bit 4 x OR of_nat (length v - 1)"] cell [of 0 "push_bit 4 x OR of_nat (length v - 1)"]
      by (simp add: ext_head_def ext_hlen_def one_byte_head_ok_def Let_def)
  qed
  have "x \<notin> ext_id ` set (ext_infos (length A) two es)" using x(2) arg_cong [OF ids_ext_infos, of set "length A" two es] by simp
  then have up: "update_extension x (\<lambda>e. e\<lparr>ext_offset := of_nat (length A + ?m + ?h), ext_length := ?len\<rparr>)
      (FindOrCreateExtensionInfo x (ext_infos (length A) two es)) = ext_infos (length A) two (es @ [(x, v)])"
    using x(2) by (simp add: FindOrCreateExtensionInfo_def FindExtensionInfo_infos update_extension_last)
  have "\<not> length A + ?m + ?h \<ge> 2 ^ 16" using small by (simp add: n_def)
  then show ?thesis
    unfolding parse_extensions.simps [of buffer "profile_of two" "length A" ?cap ?m] Let_def extension_header_length_profile b(2,3) bind_res.simps
      list.sel prod.case len(2) up
    using fit b(1,4) by (auto simp: add.assoc)
qed

lemma parse_written:
  fixes A two D
  assumes "\<forall>(x, v) \<in> set (es @ fs). ext_fits two x (length v)" "distinct (map fst (es @ fs))" "length A + n < 2 ^ 16"
    and n: "n = length (ext_mem two (es @ fs))"
  shows "\<exists>m. parse_extensions (A @ ext_mem two (es @ fs) @ ext_zeros n @ D) (profile_of two) (length A) (4 * ext_words n)
      (length (ext_mem two es)) (ext_infos (length A) two es) = Inr (m, ext_infos (length A) two (es @ fs))"
  using assms
proof (induction fs arbitrary: es)
  case Nil
  have "length (ext_mem two es) \<le> 4 * ext_words n" using ext_words_bounds(1) [of n] Nil.prems(4) by simp
  then show ?case
    using Nil.prems(4) by (simp, intro parse_zeros) (auto simp: nth_append ext_zeros_def)
next
  case (Cons e fs)
  obtain x v where e: "e = (x, v)" by (cases e)
  have "x \<notin> fst ` set es" "ext_fits two x (length v)" using Cons.prems(1,2) by (auto simp: e)
  from parse_written_step [OF this(2,1), of A fs D] Cons.prems(3,4) Cons.IH [of "es @ [e]"] Cons.prems
  show ?case by (simp add: e del: ext_infos_append ext_mem_simps)
qed

section \<open>Parsing a packet with extensions\<close>

lemma parse_padding_entries: "parse_padding buffer f p = Inr (ok, q) \<Longrightarrow> rtp_extension_entries q = rtp_extension_entries p"
  by (auto simp: parse_padding_def bind_res_Inr_iff split: if_splits)

text \<open>The bytes of a packet behind a header of \<open>csrc_end\<close> bytes whose first byte has the extension bit exactly when there are extensions.\<close>

lemma ParseBuffer_entries:
  fixes p q :: "'a RtpPacket_scheme"
  assumes "ParseBuffer (mem_of bytes) p = Inr (True, q)" "12 \<le> length bytes"
  shows "if bit (bytes ! 0) 4 then \<exists>p0 :: 'a RtpPacket_scheme. rtp_payload_offset p0 = csrc_end bytes \<and>
      (\<exists>p1. parse_extension_block (mem_of bytes) p0 = Inr (True, p1) \<and> rtp_extension_entries q = rtp_extension_entries p1)
    else rtp_extension_entries q = []"
proof -
  have r: "mem_read w 0 12 (mem_of bytes) = Inr (take 12 bytes)" "mem_read w 0 1 (mem_of bytes) = Inr (take 1 bytes)" for w
    using assms(2) by (simp_all add: mem_read_mem_of [of 0, simplified])
  have b: "(bytes ! 0 AND 0x10 \<noteq> 0) = bit (bytes ! 0) 4" using and_exp_eq_0_iff_not_bit [of "bytes ! 0" 4] by simp
  have o: "kFixedHeaderSize + unat (bytes ! 0 AND 0x0f) * 4 = csrc_end bytes" by (simp add: kFixedHeaderSize_def csrc_end_def)
  have h: "take 12 bytes ! 0 = bytes ! 0" using assms(2) by simp
  define p0 where "p0 = p\<lparr>rtp_marker := (take 12 bytes ! 1 AND 0x80 \<noteq> 0), rtp_payload_type := take 12 bytes ! 1 AND 0x7f,
    rtp_sequence_number := ReadBigEndian (take 2 (drop 2 (take 12 bytes))), rtp_timestamp := ReadBigEndian (take 4 (drop 4 (take 12 bytes))),
    rtp_ssrc := ReadBigEndian (take 4 (drop 8 (take 12 bytes))), rtp_payload_offset := csrc_end bytes, rtp_extensions_size := 0,
    rtp_extension_entries := []\<rparr>"
  have p0: "rtp_payload_offset p0 = csrc_end bytes" "rtp_extension_entries p0 = []" by (simp_all add: p0_def)
  have "bind_res (if bit (bytes ! 0) 4 then parse_extension_block (mem_of bytes) p0 else Inr (True, p0)) (\<lambda>(ok, p3).
      if ok then parse_padding (mem_of bytes) (take 12 bytes ! 0 AND 0x20 \<noteq> 0) p3 else Inr (False, p3)) = Inr (True, q)"
    using assms(1) unfolding ParseBuffer_def r bind_res.simps Let_def h b o p0_def [symmetric] by (simp split: if_splits)
  then obtain p1 where p1: "(if bit (bytes ! 0) 4 then parse_extension_block (mem_of bytes) p0 else Inr (True, p0)) = Inr (True, p1)"
      "parse_padding (mem_of bytes) (take 12 bytes ! 0 AND 0x20 \<noteq> 0) p1 = Inr (True, q)"
    unfolding bind_res_Inr_iff by (auto split: if_splits)
  from parse_padding_entries [OF this(2)] this(1) p0 show ?thesis by (auto split: if_splits)
qed

text \<open>The bytes of a packet: a header with its CSRCs, the extensions, and the payload with the padding.\<close>

definition packet_bytes :: "u8 list \<Rightarrow> bool \<Rightarrow> (u8 \<times> u8 list) list \<Rightarrow> u8 list \<Rightarrow> u8 list \<Rightarrow> bool" where
  "packet_bytes hdr two es rest bytes \<longleftrightarrow> mem_of bytes = mem_of hdr @ ext_block two (byte_exts es) @ mem_of rest"

lemma rtp_Parse_entries:
  fixes p q :: "'a RtpPacket_scheme"
  assumes "rtp_Parse dchecks b p = Inr (True, q)" "cow_data b = mem_of bytes" "12 \<le> length bytes"
    and bytes: "packet_bytes hdr two es rest bytes" "length hdr = csrc_end hdr" "bit (hdr ! 0) 4 \<longleftrightarrow> es \<noteq> []"
    and es: "exts_ok two (byte_exts es)" "length bytes < 2 ^ 16"
  shows "rtp_extension_entries q = ext_infos (length hdr + 4) two (byte_exts es)"
proof -
  let ?n = "length (ext_mem two (byte_exts es))"
  obtain q' where q': "ParseBuffer (mem_of bytes) p = Inr (True, q')" "rtp_extension_entries q = rtp_extension_entries q'"
    using assms(1,2) by (auto simp: rtp_Parse_def bind_res_Inr_iff Let_def RTC_DCHECK_def RTC_CHECK_def split: if_splits)
  have "hdr \<noteq> []" using bytes(2) by (auto simp: csrc_end_def)
  moreover have "mem_of bytes ! 0 = mem_of hdr ! 0" using bytes(1) \<open>hdr \<noteq> []\<close> by (simp add: packet_bytes_def nth_append)
  ultimately have b0: "bytes ! 0 = hdr ! 0" using assms(3) by (cases bytes; cases hdr) (auto simp: mem_of_def)
  then have c: "csrc_end bytes = length hdr" using bytes(2) by (simp add: csrc_end_def)
  show ?thesis
  proof (cases "es = []")
    case True
    then show ?thesis using ParseBuffer_entries [OF q'(1) assms(3)] q'(2) bytes(3) b0 by simp
  next
    case False
    then have m: "mem_of bytes = mem_of hdr @ mem_of (WriteBigEndian 2 (profile_of two)) @ mem_of (WriteBigEndian 2 (of_nat (ext_words ?n) :: u16)) @
        ext_mem two (byte_exts es) @ ext_zeros ?n @ mem_of rest"
      using bytes(1) by (simp add: packet_bytes_def ext_block_def)
    let ?A = "mem_of hdr @ mem_of (WriteBigEndian 2 (profile_of two)) @ mem_of (WriteBigEndian 2 (of_nat (ext_words ?n) :: u16))"
    have len: "length bytes = length hdr + 4 + 4 * ext_words ?n + length rest"
      using arg_cong [OF m, of length] ext_words_bounds(1) [of ?n] by simp
    have "\<exists>k. parse_extensions (?A @ ext_mem two ([] @ byte_exts es) @ ext_zeros ?n @ mem_of rest) (profile_of two) (length ?A) (4 * ext_words ?n)
        (length (ext_mem two [])) (ext_infos (length ?A) two []) = Inr (k, ext_infos (length ?A) two ([] @ byte_exts es))"
      using es len ext_words_bounds(1) [of ?n] by (intro parse_written) (auto simp: exts_ok_def)
    then obtain k where k: "parse_extensions (mem_of bytes) (profile_of two) (length hdr + 4) (4 * ext_words ?n) 0 [] =
        Inr (k, ext_infos (length hdr + 4) two (byte_exts es))" by (auto simp: m)
    have u: "unat (of_nat (ext_words ?n) :: u16) = ext_words ?n" using len es(2) by (simp add: unat_of_nat)
    let ?w = "WriteBigEndian 2 (of_nat (ext_words ?n) :: u16)"
    have r: "mem_read w (int (length hdr)) 4 (mem_of bytes) = Inr (WriteBigEndian 2 (profile_of two) @ ?w)" for w
      using load_at [of "mem_of hdr" "length hdr" "mem_of (WriteBigEndian 2 (profile_of two)) @ mem_of ?w" 4 w]
        mem_values_mem_of [of w "WriteBigEndian 2 (profile_of two) @ ?w"] unfolding mem_read_def m by simp
    have p: "profile_of two AND kTwobyteExtensionProfileIdAppBitsFilter = kTwoByteExtensionProfileId \<longleftrightarrow> two"
      by (simp add: profile_of_def rtp_constants)
    from ParseBuffer_entries [OF q'(1) assms(3)] b0 bytes(3) False obtain p0 p1 :: "'a RtpPacket_scheme" where
      p1: "rtp_payload_offset p0 = length hdr" "parse_extension_block (mem_of bytes) p0 = Inr (True, p1)" "rtp_extension_entries q' = rtp_extension_entries p1"
      by (auto simp: c)
    have "parse_extension_block (mem_of bytes) p0 = Inr (True, p0\<lparr>rtp_extensions_size := k,
        rtp_extension_entries := ext_infos (length hdr + 4) two (byte_exts es), rtp_payload_offset := length hdr + 4 + 4 * ext_words ?n\<rparr>)"
      using len k by (simp add: parse_extension_block_def p1(1) Let_def r ReadBigEndian_Write u p mult.commute)
    then show ?thesis using p1(2,3) q'(2) by simp
  qed
qed

lemma FindExtension_parsed:
  assumes entries: "rtp_extension_entries q = ext_infos (length hdr + 4) two (byte_exts es)" and q: "cow_data (rtp_buffer q) = mem_of bytes"
    and bytes: "packet_bytes hdr two es rest bytes" "length bytes < 2 ^ 16" and es: "exts_ok two (byte_exts es)" and t: "type \<in> set extension_types"
  shows "FindExtension dchecks type q = Inr (map_option mem_of (map_of es (extension_ids (rtp_extensions q) type)))"
proof -
  define x where "x = extension_ids (rtp_extensions q) type"
  have g: "GetId dchecks type (rtp_extensions q) = Inr x" using t by (auto simp: GetId_def type_checks_def x_def extension_types_def)
  have zero: "0 \<notin> fst ` set es" using es by (force simp: exts_ok_def byte_exts_def ext_fits_def)
  show ?thesis
  proof (cases "map_of es x")
    case None
    then have "FindExtensionInfo x (rtp_extension_entries q) = None" by (simp add: entries FindExtensionInfo_infos map_of_eq_None_iff)
    then show ?thesis using None by (simp add: FindExtension_def g flip: x_def)
  next
    case (Some d)
    from map_of_split [OF this] obtain es1 es2 where sp: "es = es1 @ (x, d) # es2" "x \<notin> fst ` set es1" by blast
    define n where "n = length (ext_mem two (byte_exts es))"
    define k where "k = length hdr + 4 + length (ext_mem two (byte_exts es1)) + ext_hlen two"
    define A where "A = mem_of hdr @ mem_of (WriteBigEndian 2 (profile_of two)) @ mem_of (WriteBigEndian 2 (of_nat (ext_words n) :: u16)) @
      ext_mem two (byte_exts es1) @ ext_head two x (length d)"
    have A: "length A = k" by (simp add: A_def k_def)
    have m: "mem_of bytes = A @ mem_of d @ ext_mem two (byte_exts es2) @ ext_zeros n @ mem_of rest"
      using bytes(1) unfolding packet_bytes_def ext_block_def A_def n_def sp(1) by simp
    have len: "k + length d \<le> length bytes" "length d \<le> 255" "x \<noteq> 0"
      using arg_cong [OF m, of length] A es zero by (auto simp: exts_ok_def sp(1) ext_fits_def)
    have u: "unat (of_nat k :: u16) = k" "unat (of_nat (length d) :: u8) = length d" using len bytes(2) by (simp_all add: unat_of_nat)
    have "FindExtensionInfo x (rtp_extension_entries q) = Some \<lparr>ext_id = x, ext_length = of_nat (length d), ext_offset = of_nat k\<rparr>"
      using FindExtensionInfo_split [of x "byte_exts es1" "length hdr + 4" two "mem_of d" "byte_exts es2"] sp by (simp add: entries k_def)
    moreover have "mem_load w (int k) (length d) (mem_of bytes) = Inr (mem_of d)" for w
      unfolding m using load_at [OF A] by simp
    ultimately show ?thesis using Some len(3) by (simp add: FindExtension_def g q u flip: x_def)
  qed
qed

section \<open>CSRCs\<close>

definition csrc_bytes :: "u32 list \<Rightarrow> u8 list" where
  "csrc_bytes cs = concat (map (WriteBigEndian 4) cs)"

lemma csrc_bytes_simps [simp]: "csrc_bytes [] = []" "csrc_bytes (c # cs) = WriteBigEndian 4 c @ csrc_bytes cs" "length (csrc_bytes cs) = 4 * length cs"
  by (induction cs) (auto simp: csrc_bytes_def)

lemma write_csrcs_ok:
  "length A = off \<Longrightarrow> 4 * length cs \<le> length R \<Longrightarrow> write_csrcs off cs (A @ R) = Inr (A @ mem_of (csrc_bytes cs) @ drop (4 * length cs) R)"
proof (induction cs arbitrary: A off R)
  case (Cons c cs)
  have "mem_store w (int off) (mem_of (WriteBigEndian 4 c)) (A @ take 4 R @ drop 4 R) = Inr (A @ mem_of (WriteBigEndian 4 c) @ drop 4 R)" for w
    using Cons.prems by (intro store_at) auto
  moreover have "write_csrcs (off + 4) cs ((A @ mem_of (WriteBigEndian 4 c)) @ drop 4 R) =
      Inr ((A @ mem_of (WriteBigEndian 4 c)) @ mem_of (csrc_bytes cs) @ drop (4 * length cs) (drop 4 R))"
    using Cons.prems by (intro Cons.IH) auto
  ultimately show ?case by (simp add: add.commute)
qed simp

lemma read_csrcs_ok:
  "length a = off \<Longrightarrow> read_csrcs (length cs) off (mem_of (a @ csrc_bytes cs @ b)) = Inr cs"
proof (induction cs arbitrary: a off)
  case (Cons c cs)
  have "mem_read w (int off) 4 (mem_of (a @ csrc_bytes (c # cs) @ b)) = Inr (WriteBigEndian 4 c)" for w
    using Cons.prems by (subst mem_read_mem_of) auto
  moreover have "read_csrcs (length cs) (off + 4) (mem_of ((a @ WriteBigEndian 4 c) @ csrc_bytes cs @ b)) = Inr cs"
    using Cons.prems by (intro Cons.IH) simp
  ultimately show ?case by (simp add: ReadBigEndian_Write)
qed simp

text \<open>The first byte of a header, and the header: version 2, the bits for padding and extensions, and the number of CSRCs.\<close>

definition first_byte :: "bool \<Rightarrow> bool \<Rightarrow> nat \<Rightarrow> u8" where
  "first_byte padded extended c = 0x80 OR (if padded then 0x20 else 0) OR (if extended then 0x10 else 0) OR of_nat c"

definition rtp_header :: "bool \<Rightarrow> bool \<Rightarrow> bool \<Rightarrow> u8 \<Rightarrow> u16 \<Rightarrow> u32 \<Rightarrow> u32 \<Rightarrow> u32 list \<Rightarrow> u8 list" where
  "rtp_header padded extended m pt sn ts s csrcs =
     [first_byte padded extended (length csrcs), if m then 0x80 OR pt else pt] @ WriteBigEndian 2 sn @ WriteBigEndian 4 ts @ WriteBigEndian 4 s @
     csrc_bytes csrcs"

definition first_byte_ok :: "nat \<Rightarrow> bool" where
  "first_byte_ok c \<longleftrightarrow> (0x80 AND 0xF0) OR of_nat c = first_byte False False c \<and> first_byte False False c OR 0x10 = first_byte False True c \<and>
     list_all (\<lambda>(p, e). let b = first_byte p e c in
       drop_bit 6 b = 2 \<and> unat (b AND 0x0f) = c \<and> bit b 4 = e \<and> bit b 5 = p \<and>
       first_byte False e c OR 0x20 = first_byte True e c \<and> first_byte False e c AND 0xdf = first_byte False e c)
     [(False, False), (False, True), (True, False), (True, True)]"

lemma first_bytes: "list_all first_byte_ok [0..<16]"
  by code_simp

lemma first_byte:
  assumes "c \<le> 15"
  shows "(0x80 AND 0xF0) OR of_nat c = first_byte False False c" "first_byte False False c OR 0x10 = first_byte False True c"
    "drop_bit 6 (first_byte p e c) = 2" "unat (first_byte p e c AND 0x0f) = c" "bit (first_byte p e c) 4 = e" "bit (first_byte p e c) 5 = p"
    "first_byte False e c OR 0x20 = first_byte True e c" "first_byte False e c AND 0xdf = first_byte False e c"
proof -
  have "c \<in> set [0..<16]" using assms by auto
  then have "first_byte_ok c" using first_bytes by (simp only: list_all_iff)
  then show "(0x80 AND 0xF0) OR of_nat c = first_byte False False c" "first_byte False False c OR 0x10 = first_byte False True c"
    "drop_bit 6 (first_byte p e c) = 2" "unat (first_byte p e c AND 0x0f) = c" "bit (first_byte p e c) 4 = e" "bit (first_byte p e c) 5 = p"
    "first_byte False e c OR 0x20 = first_byte True e c" "first_byte False e c AND 0xdf = first_byte False e c"
    by (cases p; cases e; simp add: first_byte_ok_def Let_def)+
qed

lemma rtp_header_simps [simp]:
  "length (rtp_header f e m pt sn ts s cs) = 12 + 4 * length cs" "rtp_header f e m pt sn ts s cs ! 0 = first_byte f e (length cs)"
  by (simp_all add: rtp_header_def)

lemma rtp_header_set:
  assumes "length cs \<le> 15"
  shows "mark_extension b (rtp_header False False m pt sn ts s cs) = rtp_header False b m pt sn ts s cs"
    "(rtp_header False e m pt sn ts s cs @ xs)[0 := if f then first_byte False e (length cs) OR 0x20 else first_byte False e (length cs) AND 0xdf] =
      rtp_header f e m pt sn ts s cs @ xs"
  using first_byte [OF assms] by (auto simp: mark_extension_def rtp_header_def)

lemma SetCsrcs_ok:
  assumes p: "cow_data (rtp_buffer p) = mem_of (rtp_bytes False m pt sn ts s [])" "rtp_extensions_size p = 0" "rtp_payload_size p = 0"
      "rtp_padding_size p = 0" "12 + 4 * length cs \<le> cow_capacity (rtp_buffer p)" and cs: "length cs \<le> 15"
  shows "SetCsrcs dchecks cs p = Inr (with_bytes (rtp_header False False m pt sn ts s cs) (p\<lparr>rtp_payload_offset := 12 + 4 * length cs\<rparr>))"
proof -
  let ?b = "rtp_bytes False m pt sn ts s []" and ?cap = "cow_capacity (rtp_buffer p)" and ?n = "12 + 4 * length cs"
  have r: "raw_memory p = mem_of ?b @ replicate (?cap - 12) None" by (simp add: raw_memory_def p(1))
  have "?b ! 0 = 0x80" by (simp add: rtp_bytes_def)
  then have 1: "modify_byte 0 (\<lambda>b. (b AND 0xF0) OR of_nat (length cs)) (raw_memory p) =
      Inr (mem_of ((rtp_header False False m pt sn ts s [])[0 := first_byte False False (length cs)]) @ replicate (?cap - 12) None)"
    unfolding r using first_byte(1) [OF cs] by (subst modify_byte_append) (simp_all add: rtp_bytes_def rtp_header_def)
  have 2: "write_csrcs 12 cs (mem_of ((rtp_header False False m pt sn ts s [])[0 := first_byte False False (length cs)]) @ replicate (?cap - 12) None) =
      Inr (mem_of (rtp_header False False m pt sn ts s cs) @ replicate (?cap - ?n) None)"
    using p(5) by (subst write_csrcs_ok) (simp_all add: rtp_header_def mem_of_def)
  have "length cs < 2 ^ LENGTH(8)" using cs by simp
  from dchecked_cast_ok [OF this] show ?thesis
    using p(2-5) cs by (simp add: SetCsrcs_def kFixedHeaderSize_def 1 2 Let_def commit_def SetSize_def with_bytes_def)
qed

lemma Csrcs_ok:
  assumes "cow_data (rtp_buffer q) = mem_of (rtp_header f e m pt sn ts s cs @ rest)" "length cs \<le> 15"
    "12 + 4 * length cs \<le> cow_capacity (rtp_buffer q)"
  shows "Csrcs dchecks q = Inr cs"
proof -
  let ?b = "rtp_header f e m pt sn ts s cs"
  have "mem_read w 0 1 (cow_data (rtp_buffer q)) = Inr [first_byte f e (length cs)]" for w
    unfolding assms(1) by (subst mem_read_mem_of) (simp_all add: rtp_header_def)
  moreover have "read_csrcs (length cs) 12 (cow_data (rtp_buffer q)) = Inr cs"
    using read_csrcs_ok [of "take 12 ?b" 12 cs rest] unfolding assms(1) by (simp add: rtp_header_def)
  ultimately show ?thesis using first_byte(4) [OF assms(2), of f e] assms(3) by (simp add: Csrcs_def kFixedHeaderSize_def)
qed

section \<open>A packet filled completely\<close>

text \<open>The calls of a sender that sets header extensions, with their results, and their effect on the association list.\<close>

fun set_extensions :: "bool \<Rightarrow> (RTPExtensionType \<times> u8 list) list \<Rightarrow> 'a RtpPacket_scheme \<Rightarrow> (bool list \<times> 'a RtpPacket_scheme) res" where
  "set_extensions dchecks [] p = Inr ([], p)"
| "set_extensions dchecks ((type, d) # cs) p =
     bind_res (SetRawExtension dchecks type d p) (\<lambda>(ok, p1). bind_res (set_extensions dchecks cs p1) (\<lambda>(oks, p2). Inr (ok # oks, p2)))"

fun put_extensions ::
    "RtpHeaderExtensionMap \<Rightarrow> nat \<Rightarrow> nat \<Rightarrow> (RTPExtensionType \<times> u8 list) list \<Rightarrow> bool \<times> (u8 \<times> u8 list) list \<Rightarrow> bool list \<times> bool \<times> (u8 \<times> u8 list) list" where
  "put_extensions exts hlen cap [] s = ([], s)"
| "put_extensions exts hlen cap (c # cs) s =
     (let (ok, s1) = put_extension exts hlen cap c s; (oks, s2) = put_extensions exts hlen cap cs s1 in (ok # oks, s2))"

lemma set_extensions_ok:
  "extendable hdr p \<Longrightarrow> ext_state hdr p (two, es) \<Longrightarrow> fst ` set cs \<subseteq> set extension_types \<Longrightarrow>
   put_extensions (rtp_extensions p) (length hdr) (cow_capacity (rtp_buffer p)) cs (two, es) = (oks, two', es') \<Longrightarrow>
   set_extensions dchecks cs (written hdr two (byte_exts es) p) = Inr (oks, written hdr two' (byte_exts es') p) \<and> ext_state hdr p (two', es')"
proof (induction cs arbitrary: two es oks)
  case (Cons c cs)
  obtain type d where c: "c = (type, d)" by (cases c)
  obtain ok two1 es1 where 1: "put_extension (rtp_extensions p) (length hdr) (cow_capacity (rtp_buffer p)) (type, d) (two, es) = (ok, two1, es1)"
    by (cases "put_extension (rtp_extensions p) (length hdr) (cow_capacity (rtp_buffer p)) (type, d) (two, es)") auto
  obtain oks1 where 2: "put_extensions (rtp_extensions p) (length hdr) (cow_capacity (rtp_buffer p)) cs (two1, es1) = (oks1, two', es')" "oks = ok # oks1"
    using Cons.prems(4) by (auto simp: c 1 Let_def split: prod.splits)
  have "type \<in> set extension_types" using Cons.prems(3) by (simp add: c)
  from SetRawExtension_ok [OF Cons.prems(1,2) this 1, of dchecks] Cons.IH [OF Cons.prems(1) _ _ 2(1)] Cons.prems(3)
  show ?case by (simp add: c 2(2))
qed simp

text \<open>Payload and padding behind the header.\<close>

definition fill_payload :: "bool \<Rightarrow> u8 list \<Rightarrow> nat \<Rightarrow> 'a RtpPacket_scheme \<Rightarrow> (bool \<times> 'a RtpPacket_scheme) res" where
  "fill_payload dchecks payload n p =
     bind_res (AllocatePayload dchecks (length payload) p) (\<lambda>p1.
     bind_res (write_buffer (mem_store ''buffer_'' (int (rtp_payload_offset p1)) (mem_of payload)) p1) (SetPadding dchecks n))"

lemma fill_payload_ok:
  assumes p: "cow_data (rtp_buffer p) = mem_of bytes" "rtp_payload_offset p = length bytes" "rtp_padding_size p = 0"
    and fit: "length bytes + length payload + n \<le> cow_capacity (rtp_buffer p)" "n < 256" "bytes \<noteq> []"
  shows "fill_payload dchecks payload n p = Inr (True, with_bytes
    ((bytes @ payload @ padding n)[0 := if n > 0 then bytes ! 0 OR 0x20 else bytes ! 0 AND 0xdf]) (p\<lparr>rtp_payload_size := length payload, rtp_padding_size := of_nat n\<rparr>))"
proof -
  let ?cap = "cow_capacity (rtp_buffer p)" and ?k = "length payload"
  let ?b1 = "\<lparr>cow_data = mem_of bytes @ replicate ?k None, cow_capacity = ?cap\<rparr>"
  define p2 where "p2 = with_bytes (bytes @ payload) (p\<lparr>rtp_payload_size := ?k\<rparr>)"
  have al: "AllocatePayload dchecks ?k p = Inr (p\<lparr>rtp_payload_size := ?k, rtp_buffer := ?b1\<rparr>)"
    using fit(1) p SetPayloadSize_ok [of "with_bytes bytes (p\<lparr>rtp_payload_size := 0\<rparr>)" bytes dchecks ?k]
    by (auto simp: AllocatePayload_def SetPayloadSize_0_ok with_bytes_def)
  have wr: "write_buffer (mem_store ''buffer_'' (int (length bytes)) (mem_of payload)) (p\<lparr>rtp_payload_size := ?k, rtp_buffer := ?b1\<rparr>) = Inr p2"
    using store_fresh [of bytes "length bytes" payload ?k "''buffer_''"] by (simp add: write_buffer_def change_data_def p2_def with_bytes_def)
  have "SetPadding dchecks n p2 = Inr (True, with_bytes ((bytes @ payload)[0 := if n > 0 then (bytes @ payload) ! 0 OR 0x20 else (bytes @ payload) ! 0 AND 0xdf] @ padding n)
      (p2\<lparr>rtp_padding_size := of_nat n\<rparr>))"
    using fit p by (intro SetPadding_ok) (simp_all add: p2_def)
  then show ?thesis
    using al wr p(2) fit(3) by (simp add: fill_payload_def p2_def with_bytes_def nth_append list_update_append)
qed

lemma ext_block_bytes: "\<exists>blk. mem_of blk = ext_block two (byte_exts es)"
proof -
  have "None \<notin> set (ext_mem two (byte_exts es))" by (induction es) (auto simp: ext_head_def split: if_splits)
  then have "None \<notin> set (ext_block two (byte_exts es))" by (auto simp: ext_block_def ext_zeros_def)
  then have "mem_values [] (ext_block two (byte_exts es)) = Inr (map the (ext_block two (byte_exts es)))" by (simp add: mem_values_def)
  then show ?thesis by (metis mem_values_Inr_iff)
qed

lemma full_packet_valid:
  fixes n es m pt sn ts s cs blk payload two B
  defines "B \<equiv> rtp_header (n > 0) (es \<noteq> []) m pt sn ts s cs @ blk @ payload @ padding n"
  assumes blk: "mem_of blk = ext_block two (byte_exts es)" and "n < 256" "length cs \<le> 15" "length B < 2 ^ 16"
  shows "valid_rtp B" "header_end B = 12 + 4 * length cs + length blk" "padding_length B = n" "csrc_end B = 12 + 4 * length cs"
proof -
  note fb = first_byte(3-6) [OF assms(4), of "n > 0" "es \<noteq> []"]
  have b: "B ! 0 = first_byte (n > 0) (es \<noteq> []) (length cs)" by (simp add: B_def nth_append)
  show c: "csrc_end B = 12 + 4 * length cs" by (simp add: csrc_end_def b fb)
  have len: "length B = 12 + 4 * length cs + length blk + length payload + n" by (simp add: B_def)
  show h: "header_end B = 12 + 4 * length cs + length blk"
  proof (cases "es = []")
    case True
    then show ?thesis using blk first_byte(5) [OF assms(4), of "n > 0" False] by (simp add: header_end_def b c ext_block_def mem_of_def)
  next
    case False
    let ?N = "length (ext_mem two (byte_exts es))"
    let ?w = "WriteBigEndian 2 (of_nat (ext_words ?N) :: u16)"
    have "mem_of (take 2 (drop 2 blk)) = take 2 (drop 2 (mem_of blk))" by simp
    also have "\<dots> = mem_of ?w" using False unfolding blk by (simp add: ext_block_def)
    finally have w: "take 2 (drop 2 blk) = ?w" by simp
    have l: "length blk = 4 + 4 * ext_words ?N" using arg_cong [OF blk, of length] False by (simp add: length_ext_block)
    have "take 2 (drop (csrc_end B + 2) B) = ?w" unfolding c using w l by (simp add: B_def)
    moreover have "unat (of_nat (ext_words ?N) :: u16) = ext_words ?N" using assms(5) len l by (simp add: unat_of_nat)
    ultimately have "extension_words B = ext_words ?N" by (simp add: extension_words_def ReadBigEndian_Write)
    then show ?thesis using False l first_byte(5) [OF assms(4), of "n > 0" True] by (simp add: header_end_def b c)
  qed
  have l: "n > 0 \<Longrightarrow> last B = of_nat n" "unat (of_nat n :: u8) = n" using assms(3) by (simp_all add: B_def padding_def unat_of_nat)
  then have "n > 0 \<Longrightarrow> (of_nat n :: u8) \<noteq> 0" by auto
  show p: "padding_length B = n" using l len by (simp add: padding_length_def h b fb)
  have "length blk \<ge> 4" if "es \<noteq> []" using arg_cong [OF blk, of length] that by (simp add: length_ext_block)
  then show "valid_rtp B" using l len \<open>n > 0 \<Longrightarrow> (of_nat n :: u8) \<noteq> 0\<close> by (auto simp: valid_rtp_def h b fb p c)
qed

lemma rtp_header_fields:
  assumes "rtp_fields (rtp_header f e m pt sn ts s cs @ rest) p" "pt \<le> 0x7f"
  shows "rtp_marker p = m \<and> rtp_payload_type p = pt \<and> rtp_sequence_number p = sn \<and> rtp_timestamp p = ts \<and> rtp_ssrc p = s"
proof -
  have "rtp_fields (rtp_bytes False m pt sn ts s (csrc_bytes cs @ rest)) p"
    using assms(1) by (simp add: rtp_fields_def rtp_header_def rtp_bytes_def)
  then show ?thesis using assms(2) by (rule rtp_bytes_fields)
qed

lemma written_id:
  assumes "rtp_extension_entries p = []" "rtp_extensions_size p = 0" "rtp_payload_offset p = length hdr" "cow_data (rtp_buffer p) = mem_of hdr"
  shows "written hdr two [] p = p"
proof -
  have "(rtp_buffer p)\<lparr>cow_data := mem_of hdr\<rparr> = rtp_buffer p" using assms(4) by (cases "rtp_buffer p") simp
  then show ?thesis using assms by (cases p) (simp add: written_def ext_data_def ext_block_def mark_extension_def)
qed

section \<open>Complete packets\<close>

text \<open>A packet object with all its parts.\<close>

definition full_packet ::
    "bool \<Rightarrow> u8 \<Rightarrow> u16 \<Rightarrow> u32 \<Rightarrow> u32 \<Rightarrow> u32 list \<Rightarrow> bool \<Rightarrow> (u8 \<times> u8 list) list \<Rightarrow> u8 list \<Rightarrow> nat \<Rightarrow> 'a RtpPacket_scheme \<Rightarrow> bool" where
  "full_packet m pt sn ts s cs two es payload n p \<longleftrightarrow>
     rtp_marker p = m \<and> rtp_payload_type p = pt \<and> rtp_sequence_number p = sn \<and> rtp_timestamp p = ts \<and> rtp_ssrc p = s \<and>
     rtp_extension_entries p = ext_infos (12 + 4 * length cs + 4) two (byte_exts es) \<and> exts_ok two (byte_exts es) \<and>
     rtp_payload_offset p = 12 + 4 * length cs + length (ext_block two (byte_exts es)) \<and> rtp_payload_size p = length payload \<and>
     rtp_padding_size p = of_nat n \<and>
     cow_data (rtp_buffer p) = mem_of (rtp_header (n > 0) (es \<noteq> []) m pt sn ts s cs) @ ext_block two (byte_exts es) @ mem_of (payload @ padding n)"

text \<open>Payload and padding behind the extensions complete a packet.\<close>

lemma fill_payload_full:
  fixes p :: "'a RtpPacket_scheme" and cs hdr
  defines "hdr \<equiv> rtp_header False False (rtp_marker p) (rtp_payload_type p) (rtp_sequence_number p) (rtp_timestamp p) (rtp_ssrc p) cs"
  assumes cs: "length cs \<le> 15" and pad: "rtp_padding_size p = 0" and es: "exts_ok two (byte_exts es)"
    and fit: "12 + 4 * length cs + length (ext_block two (byte_exts es)) + length payload + n \<le> cow_capacity (rtp_buffer p)" "n < 256"
  shows "\<exists>q. fill_payload dchecks payload n (written hdr two (byte_exts es) p) = Inr (True, q) \<and> rtp_extensions q = rtp_extensions p \<and>
    cow_capacity (rtp_buffer q) = cow_capacity (rtp_buffer p) \<and>
    full_packet (rtp_marker p) (rtp_payload_type p) (rtp_sequence_number p) (rtp_timestamp p) (rtp_ssrc p) cs two es payload n q"
proof -
  let ?h = "\<lambda>f e. rtp_header f e (rtp_marker p) (rtp_payload_type p) (rtp_sequence_number p) (rtp_timestamp p) (rtp_ssrc p) cs"
  let ?w = "written hdr two (byte_exts es) p"
  obtain blk where blk: "mem_of blk = ext_block two (byte_exts es)" using ext_block_bytes by blast
  let ?bytes = "?h False (es \<noteq> []) @ blk"
  have d: "ext_data hdr two (byte_exts es) = mem_of ?bytes" by (simp add: ext_data_def blk hdr_def rtp_header_set(1) [OF cs])
  have ne: "?bytes \<noteq> []" and b0: "?bytes ! 0 = first_byte False (es \<noteq> []) (length cs)" by (simp_all add: rtp_header_def)
  have "fill_payload dchecks payload n ?w = Inr (True, with_bytes
      ((?bytes @ payload @ padding n)[0 := if n > 0 then ?bytes ! 0 OR 0x20 else ?bytes ! 0 AND 0xdf])
      (?w\<lparr>rtp_payload_size := length payload, rtp_padding_size := of_nat n\<rparr>))"
    using fit arg_cong [OF blk, of length] pad ne
    by (intro fill_payload_ok) (simp_all add: written_simps d written_def)
  then have "fill_payload dchecks payload n ?w = Inr (True, with_bytes (?h (n > 0) (es \<noteq> []) @ blk @ payload @ padding n)
      (?w\<lparr>rtp_payload_size := length payload, rtp_padding_size := of_nat n\<rparr>))"
    unfolding b0 append_assoc rtp_header_set(2) [OF cs] .
  then show ?thesis
    using es blk arg_cong [OF blk, of length] arg_cong [OF d, of length]
    by (simp add: full_packet_def written_def d hdr_def add.assoc)
qed

text \<open>What the views of a complete packet show.\<close>

lemma full_packet_views:
  assumes p: "full_packet m pt sn ts s cs two es payload n p" and cs: "length cs \<le> 15" and len: "buffer_size (rtp_buffer p) < 2 ^ 16"
  shows "type \<in> set extension_types \<Longrightarrow>
      FindExtension dchecks type p = Inr (map_option mem_of (map_of es (extension_ids (rtp_extensions p) type)))"
    "12 + 4 * length cs \<le> cow_capacity (rtp_buffer p) \<Longrightarrow> Csrcs dchecks p = Inr cs" "rtp_payload p = mem_of payload"
proof -
  let ?hdr = "rtp_header (n > 0) (es \<noteq> []) m pt sn ts s cs"
  obtain blk where blk: "mem_of blk = ext_block two (byte_exts es)" using ext_block_bytes by blast
  have bl: "length blk = length (ext_block two (byte_exts es))" using arg_cong [OF blk, of length] by simp
  define B where "B = ?hdr @ blk @ payload @ padding n"
  have d: "cow_data (rtp_buffer p) = mem_of B" using p by (simp add: full_packet_def B_def blk)
  have "rtp_extension_entries p = ext_infos (length ?hdr + 4) two (byte_exts es)" "packet_bytes ?hdr two es (payload @ padding n) B"
    "length B < 2 ^ 16" "exts_ok two (byte_exts es)" using p len d bl by (simp_all add: full_packet_def packet_bytes_def B_def blk)
  from FindExtension_parsed [OF this(1) d this(2-4)]
  show "type \<in> set extension_types \<Longrightarrow> FindExtension dchecks type p = Inr (map_option mem_of (map_of es (extension_ids (rtp_extensions p) type)))" .
  show "Csrcs dchecks p = Inr cs" if "12 + 4 * length cs \<le> cow_capacity (rtp_buffer p)"
    using d cs that unfolding B_def by (rule Csrcs_ok)
  show "rtp_payload p = mem_of payload"
    using p arg_cong [OF blk, of length] unfolding rtp_payload_def d by (simp add: full_packet_def B_def)
qed

lemma parse_full:
  assumes p: "full_packet m pt sn ts s cs two es payload n p" and pt: "pt \<le> 0x7f" and cs: "length cs \<le> 15" and n: "n < 256"
    and len: "buffer_size (rtp_buffer p) < 2 ^ 16" and p0: "12 \<le> buffer_size (rtp_buffer p0)"
  shows "\<exists>q. rtp_Parse dchecks (rtp_buffer p) p0 = Inr (True, q) \<and> rtp_extensions q = rtp_extensions p0 \<and> rtp_buffer q = rtp_buffer p \<and>
    full_packet m pt sn ts s cs two es payload n q"
proof -
  let ?hdr = "rtp_header (n > 0) (es \<noteq> []) m pt sn ts s cs"
  obtain blk where blk: "mem_of blk = ext_block two (byte_exts es)" using ext_block_bytes by blast
  define B where "B = ?hdr @ blk @ payload @ padding n"
  have d: "cow_data (rtp_buffer p) = mem_of B" using p by (simp add: full_packet_def B_def blk)
  then have l: "length B < 2 ^ 16" using len by simp
  note v = full_packet_valid [OF blk n cs, of m pt sn ts s payload, folded B_def, OF l]
  from rtp_Parse_ok [OF p0 d, of dchecks] v(1) obtain q where
    q: "rtp_Parse dchecks (rtp_buffer p) p0 = Inr (True, q)" "rtp_extensions q = rtp_extensions p0" "rtp_parsed (rtp_buffer p) B q" by auto
  have hdr: "length ?hdr = csrc_end ?hdr" "bit (?hdr ! 0) 4 \<longleftrightarrow> es \<noteq> []" using first_byte(4,5) [OF cs] by (simp_all add: csrc_end_def)
  have pb: "packet_bytes ?hdr two es (payload @ padding n) B" and ok: "exts_ok two (byte_exts es)"
    using p by (simp_all add: packet_bytes_def B_def blk full_packet_def)
  have "rtp_extension_entries q = ext_infos (length ?hdr + 4) two (byte_exts es)"
    using l ok by (intro rtp_Parse_entries [OF q(1) d _ pb hdr]) (simp_all add: B_def)
  moreover have f: "unat (rtp_padding_size q) = n" "rtp_payload_size q = length payload"
    using q(3) v(2,3) by (simp_all add: rtp_parsed_def rtp_holds_def rtp_layout_def rtp_size_def) (simp add: B_def)
  moreover have "rtp_padding_size q = of_nat n" by (simp flip: f(1))
  moreover have "rtp_fields (?hdr @ blk @ payload @ padding n) q" using q(3) by (simp add: rtp_parsed_def B_def)
  note rtp_header_fields [OF this pt]
  ultimately have "full_packet m pt sn ts s cs two es payload n q"
    using q(3) v(2) d ok p arg_cong [OF blk, of length] by (simp add: full_packet_def rtp_parsed_def)
  then show ?thesis using q by (auto simp: rtp_parsed_def)
qed

text \<open>A packet object that has just its header.\<close>

lemma fresh_packet:
  assumes "pt \<le> 0x7f"
  shows "\<exists>p. bind_res (new_RtpPacket dchecks exts kDefaultPacketSize) (\<lambda>p0. bind_res (SetMarker m p0) (\<lambda>p1.
      bind_res (SetPayloadType dchecks pt p1) (\<lambda>p2. bind_res (SetSequenceNumber sn p2) (\<lambda>p3.
      bind_res (SetTimestamp ts p3) (\<lambda>p4. bind_res (SetSsrc s p4) f))))) = f p \<and>
    cow_data (rtp_buffer p) = mem_of (rtp_bytes False m pt sn ts s []) \<and> cow_capacity (rtp_buffer p) = 1500 \<and> rtp_extensions p = exts \<and>
    rtp_extension_entries p = [] \<and> rtp_extensions_size p = 0 \<and> rtp_payload_size p = 0 \<and> rtp_padding_size p = 0 \<and> rtp_payload_offset p = 12 \<and>
    rtp_marker p = m \<and> rtp_payload_type p = pt \<and> rtp_sequence_number p = sn \<and> rtp_timestamp p = ts \<and> rtp_ssrc p = s"
proof -
  have "\<exists>p. new_RtpPacket dchecks exts kDefaultPacketSize = Inr p \<and> cow_data (rtp_buffer p) = mem_of cleared \<and> rtp_extensions p = exts \<and>
      rtp_padding_size p = 0 \<and> rtp_payload_size p = 0 \<and> rtp_extension_entries p = [] \<and> cow_capacity (rtp_buffer p) = 1500 \<and>
      rtp_extensions_size p = 0 \<and> rtp_payload_offset p = 12"
    by (simp add: new_RtpPacket_def kFixedHeaderSize_def kDefaultPacketSize_def rtp_Clear_eq)
  then obtain p0 where p0: "new_RtpPacket dchecks exts kDefaultPacketSize = Inr p0" "cow_data (rtp_buffer p0) = mem_of cleared" "rtp_extensions p0 = exts"
    "rtp_padding_size p0 = 0" "rtp_payload_size p0 = 0" "rtp_extension_entries p0 = []" "cow_capacity (rtp_buffer p0) = 1500" "rtp_extensions_size p0 = 0"
    "rtp_payload_offset p0 = 12" by blast
  have ex: "rtp_extensions_size (with_bytes bs q) = rtp_extensions_size q" for bs and q :: RtpPacket by (simp add: with_bytes_def)
  show ?thesis
    unfolding p0(1) bind_res.simps using assms p0(2-)
    by (intro exI [of _ "with_bytes (rtp_bytes False m pt sn ts s []) (p0\<lparr>rtp_marker := m, rtp_payload_type := pt,
          rtp_sequence_number := sn, rtp_timestamp := ts, rtp_ssrc := s\<rparr>)"]) (simp add: setters_rtp_bytes cleared_rtp_bytes ex)
qed

definition build_extended ::
    "bool \<Rightarrow> RtpHeaderExtensionMap \<Rightarrow> bool \<Rightarrow> u8 \<Rightarrow> u16 \<Rightarrow> u32 \<Rightarrow> u32 \<Rightarrow> u32 list \<Rightarrow> (RTPExtensionType \<times> u8 list) list \<Rightarrow> u8 list \<Rightarrow> nat \<Rightarrow>
     (bool list \<times> bool \<times> RtpPacket) res" where
  "build_extended dchecks exts m pt sn ts s csrcs calls payload n =
     bind_res (new_RtpPacket dchecks exts kDefaultPacketSize) (\<lambda>p0.
     bind_res (SetMarker m p0) (\<lambda>p1.
     bind_res (SetPayloadType dchecks pt p1) (\<lambda>p2.
     bind_res (SetSequenceNumber sn p2) (\<lambda>p3.
     bind_res (SetTimestamp ts p3) (\<lambda>p4.
     bind_res (SetSsrc s p4) (\<lambda>p5.
     bind_res (SetCsrcs dchecks csrcs p5) (\<lambda>p6.
     bind_res (set_extensions dchecks calls p6) (\<lambda>(oks, p7).
     bind_res (fill_payload dchecks payload n p7) (\<lambda>(ok, p8). Inr (oks, ok, p8))))))))))"

lemma build_extended_ok:
  fixes csrcs exts calls
  assumes "pt \<le> 0x7f" and cs: "length csrcs \<le> 15" and calls: "fst ` set calls \<subseteq> set extension_types"
    and put: "put_extensions exts (12 + 4 * length csrcs) 1500 calls (False, []) = (oks, two, es)"
    and fit: "12 + 4 * length csrcs + length (ext_block two (byte_exts es)) + length payload + n \<le> 1500" "n < 256"
  shows "\<exists>p. build_extended dchecks exts m pt sn ts s csrcs calls payload n = Inr (oks, True, p) \<and> rtp_extensions p = exts \<and>
    cow_capacity (rtp_buffer p) = 1500 \<and> full_packet m pt sn ts s csrcs two es payload n p"
proof -
  let ?hdr = "rtp_header False False m pt sn ts s csrcs"
  have ex: "rtp_extensions_size (with_bytes bs q) = rtp_extensions_size q" for bs and q :: RtpPacket by (simp add: with_bytes_def)
  from fresh_packet [OF assms(1), of dchecks exts m sn ts s] obtain p5 where
    5: "build_extended dchecks exts m pt sn ts s csrcs calls payload n =
      bind_res (SetCsrcs dchecks csrcs p5) (\<lambda>p6. bind_res (set_extensions dchecks calls p6) (\<lambda>(oks, p7).
        bind_res (fill_payload dchecks payload n p7) (\<lambda>(ok, p8). Inr (oks, ok, p8))))" and
    p5: "cow_data (rtp_buffer p5) = mem_of (rtp_bytes False m pt sn ts s [])" "cow_capacity (rtp_buffer p5) = 1500" "rtp_extensions p5 = exts"
      "rtp_extension_entries p5 = []" "rtp_extensions_size p5 = 0" "rtp_payload_size p5 = 0" "rtp_padding_size p5 = 0" "rtp_marker p5 = m"
      "rtp_payload_type p5 = pt" "rtp_sequence_number p5 = sn" "rtp_timestamp p5 = ts" "rtp_ssrc p5 = s"
    unfolding build_extended_def by blast
  define p6 where "p6 = with_bytes ?hdr (p5\<lparr>rtp_payload_offset := 12 + 4 * length csrcs\<rparr>)"
  have 6: "SetCsrcs dchecks csrcs p5 = Inr p6" unfolding p6_def using p5 cs fit(1) by (intro SetCsrcs_ok) simp_all
  have p6: "written ?hdr False (byte_exts []) p6 = p6" "rtp_extensions p6 = exts" "cow_capacity (rtp_buffer p6) = 1500" "rtp_padding_size p6 = 0"
    using p5 by (simp_all add: written_id p6_def ex)
  have e: "extendable ?hdr p6" using p5 cs first_byte(4) [OF cs, of False False] by (simp add: extendable_def p6_def csrc_end_def)
  have "ext_state ?hdr p6 (False, [])" using p6(3) cs by (simp add: ext_state_def exts_ok_def ext_data_def ext_block_def)
  from set_extensions_ok [OF e this calls, of oks two es dchecks] put p6
  have 7: "set_extensions dchecks calls p6 = Inr (oks, written ?hdr two (byte_exts es) p6)" and st: "ext_state ?hdr p6 (two, es)" by simp_all
  from fill_payload_full [OF cs p6(4), of two es payload n dchecks] fit p6 st p5
  show ?thesis unfolding 5 6 bind_res.simps 7 prod.case by (auto simp: ext_state_def p6_def)
qed

lemma extended_roundtrip:
  assumes pt: "pt \<le> 0x7f" and cs: "length csrcs \<le> 15" and calls: "fst ` set calls \<subseteq> set extension_types"
    and put: "put_extensions exts (12 + 4 * length csrcs) 1500 calls (False, []) = (oks, two, es)"
    and fit: "12 + 4 * length csrcs + length (ext_block two (byte_exts es)) + length payload + n \<le> 1500" "n < 256"
  shows "\<exists>p p0 q. build_extended dchecks exts m pt sn ts s csrcs calls payload n = Inr (oks, True, p) \<and>
    new_RtpPacket dchecks exts kDefaultPacketSize = Inr p0 \<and> rtp_Parse dchecks (rtp_buffer p) p0 = Inr (True, q) \<and>
    rtp_marker q = m \<and> rtp_payload_type q = pt \<and> rtp_sequence_number q = sn \<and> rtp_timestamp q = ts \<and> rtp_ssrc q = s \<and>
    Csrcs dchecks q = Inr csrcs \<and>
    (\<forall>type \<in> set extension_types. FindExtension dchecks type q = Inr (map_option mem_of (map_of es (extension_ids exts type)))) \<and>
    rtp_payload q = mem_of payload \<and> unat (rtp_padding_size q) = n"
proof -
  from build_extended_ok [OF assms, of dchecks m sn ts s] obtain p where
    p: "build_extended dchecks exts m pt sn ts s csrcs calls payload n = Inr (oks, True, p)" "cow_capacity (rtp_buffer p) = 1500"
      "full_packet m pt sn ts s csrcs two es payload n p" by blast
  obtain p0 where p0: "new_RtpPacket dchecks exts kDefaultPacketSize = Inr p0" "12 \<le> buffer_size (rtp_buffer p0)" "rtp_extensions p0 = exts"
    using new_RtpPacket_ok [of kDefaultPacketSize dchecks exts] by (auto simp: kDefaultPacketSize_def rtp_holds_def cleared_def)
  have len: "buffer_size (rtp_buffer p) < 2 ^ 16" using p(3) fit(1) by (simp add: full_packet_def)
  from parse_full [OF p(3) pt cs fit(2) len p0(2), of dchecks] obtain q where
    q: "rtp_Parse dchecks (rtp_buffer p) p0 = Inr (True, q)" "rtp_extensions q = exts" "rtp_buffer q = rtp_buffer p"
      "full_packet m pt sn ts s csrcs two es payload n q" using p0(3) by blast
  have "unat (of_nat n :: u8) = n" using fit(2) by (simp add: unat_of_nat)
  then show ?thesis
    using p(1,2) p0(1) q full_packet_views [OF q(4) cs] len fit(1) by (simp add: full_packet_def)
qed

section \<open>Properties\<close>

text \<open>
  Claim C12. A packet that is filled with the setters, up to 15 CSRCs, any calls that set header extensions, payload and
  padding, is read back by a receiver with the same extension map: the fields, the CSRCs, the payload and the padding are those that
  were set, and for every type the extension found is what an association list updated by the successful calls holds; the calls
  succeed exactly when the specification \<open>put_extension\<close> says so, with one- and two-byte headers and the change between them.
\<close>

theorem rtp_extensions_roundtrip:
  assumes "pt \<le> 0x7f" "length csrcs \<le> 15" "fst ` set calls \<subseteq> set extension_types"
    "put_extensions exts (12 + 4 * length csrcs) 1500 calls (False, []) = (oks, two, es)"
    "12 + 4 * length csrcs + length (ext_block two (byte_exts es)) + length payload + n \<le> 1500" "n < 256"
  shows "\<exists>p p0 q. build_extended dchecks exts m pt sn ts s csrcs calls payload n = Inr (oks, True, p) \<and>
    new_RtpPacket dchecks exts kDefaultPacketSize = Inr p0 \<and> rtp_Parse dchecks (rtp_buffer p) p0 = Inr (True, q) \<and>
    rtp_marker q = m \<and> rtp_payload_type q = pt \<and> rtp_sequence_number q = sn \<and> rtp_timestamp q = ts \<and> rtp_ssrc q = s \<and>
    Csrcs dchecks q = Inr csrcs \<and>
    (\<forall>type \<in> set extension_types. FindExtension dchecks type q = Inr (map_option mem_of (map_of es (extension_ids exts type)))) \<and>
    rtp_payload q = mem_of payload \<and> unat (rtp_padding_size q) = n"
  using assms by (rule extended_roundtrip)

definition example_map :: RtpHeaderExtensionMap where
  "example_map = \<lparr>extension_ids = (\<lambda>t. if t = kRtpExtensionMid then 3 else if t = kRtpExtensionAbsoluteSendTime then 5
     else if t = kRtpExtensionColorSpace then 20 else 0), extmap_allow_mixed = True\<rparr>"

text \<open>The third call changes the block to two-byte headers; the type of the fourth has no id, the fifth has another length, the sixth sets a new value.\<close>

definition example_calls :: "(RTPExtensionType \<times> u8 list) list" where
  "example_calls = [(kRtpExtensionMid, [1, 2, 3]), (kRtpExtensionAbsoluteSendTime, [9, 8, 7]), (kRtpExtensionColorSpace, [77, 78]),
     (kRtpExtensionVideoRotation, [1]), (kRtpExtensionMid, [4]), (kRtpExtensionMid, [4, 5, 6])]"

lemma example_put:
  "put_extensions example_map 20 1500 example_calls (False, []) =
     ([True, True, True, False, False, True], True, [(3, [4, 5, 6]), (5, [9, 8, 7]), (20, [77, 78])])"
  by code_simp

theorem rtp_extensions_roundtrip_witness:
  "\<exists>p p0 q. build_extended True example_map True 96 65535 7 9 [11, 12] example_calls [1, 2, 3] 4 =
      Inr ([True, True, True, False, False, True], True, p) \<and>
    new_RtpPacket True example_map kDefaultPacketSize = Inr p0 \<and> rtp_Parse True (rtp_buffer p) p0 = Inr (True, q) \<and>
    Csrcs True q = Inr [11, 12] \<and> FindExtension True kRtpExtensionMid q = Inr (Some (mem_of [4, 5, 6])) \<and>
    FindExtension True kRtpExtensionVideoRotation q = Inr None \<and> rtp_payload q = mem_of [1, 2, 3] \<and> unat (rtp_padding_size q) = 4"
proof -
  have "put_extensions example_map (12 + 4 * length [11, 12 :: u32]) 1500 example_calls (False, []) =
     ([True, True, True, False, False, True], True, [(3, [4, 5, 6]), (5, [9, 8, 7]), (20, [77, 78])])"
    using example_put by simp
  from rtp_extensions_roundtrip [OF _ _ _ this, of 96 "[1, 2, 3]" 4 True True 65535 7 9] show ?thesis
    by (force simp: example_calls_def extension_types_def example_map_def ext_block_def ext_words_def ext_hlen_def)
qed

text \<open>In a buffer whose capacity is no multiple of 4 the zeros behind an extension that just fits are written outside.\<close>

lemma extension_padding_overrun:
  "bind_res (new_RtpPacket True example_map 18) (SetRawExtension True kRtpExtensionMid [1]) = Inl (Out_of_bounds ''buffer_'')"
proof -
  obtain p where p: "new_RtpPacket True example_map 18 = Inr p" "cow_data (rtp_buffer p) = mem_of cleared" "rtp_extensions p = example_map"
    "rtp_padding_size p = 0" "rtp_payload_size p = 0" "rtp_extension_entries p = []" "cow_capacity (rtp_buffer p) = 18" "rtp_extensions_size p = 0" "rtp_payload_offset p = 12"
    by (simp add: new_RtpPacket_def kFixedHeaderSize_def rtp_Clear_eq)
  have off: "extensions_offset (mem_of cleared) = Inr 16"
    by (simp add: extensions_offset_def cleared_def mem_read_def mem_load_def kFixedHeaderSize_def)
  have m: "raw_memory p = mem_of cleared @ [None, None] @ replicate 4 None" by (simp add: raw_memory_def p cleared_def numeral_eq_Suc)
  have "modify_byte 0 (\<lambda>b. b OR 0x10) (raw_memory p) = Inr (mem_of (cleared[0 := 0x90]) @ [None, None] @ replicate 4 None)"
    unfolding m by (subst modify_byte_append) (simp_all add: cleared_def)
  then have open16: "open_block True 16 kOneByteExtensionProfileId p =
      Inr (mem_of (cleared[0 := 0x90]) @ mem_of (WriteBigEndian 2 kOneByteExtensionProfileId) @ replicate 4 None)"
    using store_at [of "mem_of (cleared[0 := 0x90])" 12 "[None, None]" "mem_of (WriteBigEndian 2 kOneByteExtensionProfileId)" "''buffer_''" "replicate 4 None"]
    by (simp add: open_block_def p cleared_def)
  obtain M where M: "write_extension_header True 3 1 kOneByteExtensionProfileId 16
      (mem_of (cleared[0 := 0x90]) @ mem_of (WriteBigEndian 2 kOneByteExtensionProfileId) @ replicate 4 None) = Inr M" "length M = 18"
    by (simp add: write_extension_header_def mem_store_nat [of 16, simplified] cleared_def)
  have "size_t 2 = 2" using size_t_nat [of 2] by simp
  then have s: "SetExtensionLengthMaybeAddZeroPadding True 16 2 M = Inl (Out_of_bounds ''buffer_'')"
    using M(2) by (simp add: SetExtensionLengthMaybeAddZeroPadding_def mem_store_def)
  have a: "AllocateRawExtension True 3 1 p = Inl (Out_of_bounds ''buffer_'')"
    by (simp add: AllocateRawExtension_def extension_constants FindExtensionInfo_def p(2-) off two_byte_required_def RTC_CHECK_def append_extension_def
      extension_header_length_def kOneByteExtensionHeaderLength_def open16 M(1) [simplified] close_block_def s [unfolded numeral_2_eq_2])
  have "AllocateExtension True kRtpExtensionMid 1 p = Inl (Out_of_bounds ''buffer_'')"
    using AllocateExtension_refused [of kRtpExtensionMid True 1 p] a by (simp add: p(3) example_map_def extension_types_def two_byte_required_def extension_constants)
  then show ?thesis unfolding p(1) bind_res.simps by (simp add: SetRawExtension_def)
qed

end
