(* ===== verification/Extension_Map.thy ===== *)
theory Extension_Map
  imports Rtp_Packet
begin

text \<open>
  The extension map as an application fills it: by the URIs of the extensions (\<^verbatim>\<open>rtp_header_extension_map.cc\<close>). The map
  never gives two types one id, whatever is registered and deregistered.
\<close>

section \<open>URIs\<close>

definition kExtensions :: "(RTPExtensionType \<times> string) list" where
  "kExtensions =
     [(kRtpExtensionTransmissionTimeOffset, ''urn:ietf:params:rtp-hdrext:toffset''),
      (kRtpExtensionAudioLevel, ''urn:ietf:params:rtp-hdrext:ssrc-audio-level''),
      (kRtpExtensionCsrcAudioLevel, ''urn:ietf:params:rtp-hdrext:csrc-audio-level''),
      (kRtpExtensionAbsoluteSendTime, ''http://www.webrtc.org/experiments/rtp-hdrext/abs-send-time''),
      (kRtpExtensionAbsoluteCaptureTime, ''http://www.webrtc.org/experiments/rtp-hdrext/abs-capture-time''),
      (kRtpExtensionVideoRotation, ''urn:3gpp:video-orientation''),
      (kRtpExtensionTransportSequenceNumber, ''http://www.ietf.org/id/draft-holmer-rmcat-transport-wide-cc-extensions-01''),
      (kRtpExtensionTransportSequenceNumber02, ''http://www.webrtc.org/experiments/rtp-hdrext/transport-wide-cc-02''),
      (kRtpExtensionPlayoutDelay, ''http://www.webrtc.org/experiments/rtp-hdrext/playout-delay''),
      (kRtpExtensionVideoContentType, ''http://www.webrtc.org/experiments/rtp-hdrext/video-content-type''),
      (kRtpExtensionVideoLayersAllocation, ''http://www.webrtc.org/experiments/rtp-hdrext/video-layers-allocation00''),
      (kRtpExtensionVideoTiming, ''http://www.webrtc.org/experiments/rtp-hdrext/video-timing''),
      (kRtpExtensionRtpStreamId, ''urn:ietf:params:rtp-hdrext:sdes:rtp-stream-id''),
      (kRtpExtensionRepairedRtpStreamId, ''urn:ietf:params:rtp-hdrext:sdes:repaired-rtp-stream-id''),
      (kRtpExtensionMid, ''urn:ietf:params:rtp-hdrext:sdes:mid''),
      (kRtpExtensionGenericFrameDescriptor, ''http://www.webrtc.org/experiments/rtp-hdrext/generic-frame-descriptor-00''),
      (kRtpExtensionDependencyDescriptor, ''https://aomediacodec.github.io/av1-rtp-spec/#dependency-descriptor-rtp-header-extension''),
      (kRtpExtensionColorSpace, ''http://www.webrtc.org/experiments/rtp-hdrext/color-space''),
      (kRtpExtensionInbandComfortNoise, ''http://www.webrtc.org/experiments/rtp-hdrext/inband-cn''),
      (kRtpExtensionVideoFrameTrackingId, ''http://www.webrtc.org/experiments/rtp-hdrext/video-frame-tracking-id''),
      (kRtpExtensionCorruptionDetection, ''http://www.webrtc.org/experiments/rtp-hdrext/corruption-detection'')]"

definition RegisterByUri :: "bool \<Rightarrow> int \<Rightarrow> string \<Rightarrow> RtpHeaderExtensionMap \<Rightarrow> (bool \<times> RtpHeaderExtensionMap) res" where
  "RegisterByUri dchecks ext uri m =
     (case find (\<lambda>(t, u). u = uri) kExtensions of Some (t, u) \<Rightarrow> Register dchecks ext t m | None \<Rightarrow> Inr (False, m))"

definition Deregister :: "string \<Rightarrow> RtpHeaderExtensionMap \<Rightarrow> RtpHeaderExtensionMap" where
  "Deregister uri m =
     (case find (\<lambda>(t, u). u = uri) kExtensions of
        Some (t, u) \<Rightarrow> m\<lparr>extension_ids := (extension_ids m)(t := 0)\<rparr> | None \<Rightarrow> m)"

text \<open>The extensions of a list of ids and URIs; results of the single registrations are ignored.\<close>

fun register_all :: "bool \<Rightarrow> (int \<times> string) list \<Rightarrow> RtpHeaderExtensionMap \<Rightarrow> RtpHeaderExtensionMap res" where
  "register_all dchecks [] m = Inr m"
| "register_all dchecks ((ext, uri) # es) m = bind_res (RegisterByUri dchecks ext uri m) (\<lambda>(ok, m'). register_all dchecks es m')"

definition map_Reset :: "bool \<Rightarrow> (int \<times> string) list \<Rightarrow> RtpHeaderExtensionMap \<Rightarrow> RtpHeaderExtensionMap res" where
  "map_Reset dchecks es m = register_all dchecks es (m\<lparr>extension_ids := (\<lambda>_. 0)\<rparr>)"

definition RtpHeaderExtensionMap_of :: "bool \<Rightarrow> (int \<times> string) list \<Rightarrow> RtpHeaderExtensionMap res" where
  "RtpHeaderExtensionMap_of dchecks es = register_all dchecks es (new_RtpHeaderExtensionMap False)"

definition SetExtmapAllowMixed :: "bool \<Rightarrow> RtpHeaderExtensionMap \<Rightarrow> RtpHeaderExtensionMap" where
  "SetExtmapAllowMixed allow m = m\<lparr>extmap_allow_mixed := allow\<rparr>"

section \<open>Ids stay distinct\<close>

lemma kExtensions_types: "set (map fst kExtensions) = set extension_types"
  by (auto simp: kExtensions_def extension_types_def)

lemma find_set: "find P xs = Some x \<Longrightarrow> x \<in> set xs \<and> P x"
  by (induction xs) (auto split: if_splits)

lemma find_kExtensions:
  "find (\<lambda>(t, u). u = uri) kExtensions = Some (t, u) \<Longrightarrow> t \<in> set extension_types \<and> (t, uri) \<in> set kExtensions"
  using kExtensions_types find_set [of "\<lambda>(t, u). u = uri" kExtensions "(t, u)"] by force

lemma RegisterByUri_ok:
  assumes "ids_distinct m"
  shows "\<exists>ok m'. RegisterByUri dchecks ext uri m = Inr (ok, m') \<and> ids_distinct m' \<and> extmap_allow_mixed m' = extmap_allow_mixed m \<and>
    (if ok then \<exists>t. (t, uri) \<in> set kExtensions \<and> 1 \<le> ext \<and> ext \<le> 255 \<and> m' = m\<lparr>extension_ids := (extension_ids m)(t := word_of_int ext)\<rparr>
     else m' = m)"
proof (cases "find (\<lambda>(t, u). u = uri) kExtensions")
  case (Some p)
  obtain t u where p: "p = (t, u)" by (cases p)
  have t: "t \<in> set extension_types" "(t, uri) \<in> set kExtensions"
    using Some find_kExtensions [of uri t u] by (auto simp: p)
  from Register_ok [OF t(1) assms, of dchecks ext] obtain ok m' where
    r: "Register dchecks ext t m = Inr (ok, m')" "ids_distinct m'" "ok \<Longrightarrow> 1 \<le> ext \<and> ext \<le> 255"
      "m' = (if ok then m\<lparr>extension_ids := (extension_ids m)(t := word_of_int ext)\<rparr> else m)" by blast
  have "RegisterByUri dchecks ext uri m = Inr (ok, m')" using Some r(1) by (simp add: RegisterByUri_def p)
  then show ?thesis using r(2-4) t(2) by (cases ok) auto
qed (use assms in \<open>auto simp: RegisterByUri_def\<close>)

lemma register_all_ok:
  "ids_distinct m \<Longrightarrow> \<exists>m'. register_all dchecks es m = Inr m' \<and> ids_distinct m' \<and> extmap_allow_mixed m' = extmap_allow_mixed m"
proof (induction es arbitrary: m)
  case (Cons e es)
  obtain ext uri where e: "e = (ext, uri)" by (cases e)
  from RegisterByUri_ok [OF Cons.prems, of dchecks ext uri] obtain ok m1 where
    1: "RegisterByUri dchecks ext uri m = Inr (ok, m1)" "ids_distinct m1" "extmap_allow_mixed m1 = extmap_allow_mixed m" by blast
  from Cons.IH [OF 1(2)] 1 show ?case by (simp add: e)
qed simp

lemma map_Reset_ok: "\<exists>m'. map_Reset dchecks es m = Inr m' \<and> ids_distinct m' \<and> extmap_allow_mixed m' = extmap_allow_mixed m"
  using register_all_ok [of "m\<lparr>extension_ids := (\<lambda>_. 0)\<rparr>" dchecks es] by (simp add: map_Reset_def ids_distinct_def)

lemma RtpHeaderExtensionMap_of_ok: "\<exists>m. RtpHeaderExtensionMap_of dchecks es = Inr m \<and> ids_distinct m \<and> \<not> extmap_allow_mixed m"
  using register_all_ok [of "new_RtpHeaderExtensionMap False" dchecks es]
  by (simp add: RtpHeaderExtensionMap_of_def new_RtpHeaderExtensionMap_def ids_distinct_def)

lemma Deregister_ok:
  assumes "ids_distinct m"
  shows "ids_distinct (Deregister uri m)" "(t, uri) \<in> set kExtensions \<Longrightarrow> extension_ids (Deregister uri m) t = 0"
proof -
  show "ids_distinct (Deregister uri m)"
    using assms by (auto simp: Deregister_def ids_distinct_def split: option.splits)
  have "distinct (map snd kExtensions)" by code_simp
  then have u: "(t, uri) \<in> set kExtensions \<Longrightarrow> (t', uri) \<in> set kExtensions \<Longrightarrow> t = t'" for t t'
    using inj_onD [of snd "set kExtensions" "(t, uri)" "(t', uri)"] by (simp add: distinct_map)
  show "extension_ids (Deregister uri m) t = 0" if "(t, uri) \<in> set kExtensions"
  proof (cases "find (\<lambda>(t, u). u = uri) kExtensions")
    case None
    then show ?thesis using that by (auto simp: find_None_iff)
  next
    case (Some p)
    then have "p \<in> set kExtensions" "snd p = uri" using find_set by fastforce+
    then have "fst p = t" using u [OF that] by (metis prod.collapse)
    then show ?thesis using Some by (auto simp: Deregister_def split: prod.splits)
  qed
qed

end
