(* ===== verification/Flexfec_Sender.thy ===== *)
theory Flexfec_Sender
  imports Ulpfec_Generator Rtp_Roundtrip Extension_Map "HOL-Library.Signed_Division"
begin

text \<open>
  The FlexFEC sender (\<^verbatim>\<open>flexfec_sender.cc\<close>, \<^verbatim>\<open>rtp_header_extension_size.cc\<close>): it collects and encodes with the ULPFEC
  generator over a FlexFEC codec and sends the FEC packets in an RTP stream of its own, with the header extensions for
  bandwidth estimation reserved. The clock and the random numbers are arguments.
\<close>

section \<open>The size of the header extensions\<close>

fun sum_extensions ::
    "bool \<Rightarrow> RtpHeaderExtensionMap \<Rightarrow> (RTPExtensionType \<times> int) list \<Rightarrow> int \<times> int \<times> int \<Rightarrow> (int \<times> int \<times> int) res" where
  "sum_extensions dchecks m [] acc = Inr acc"
| "sum_extensions dchecks m ((type, value_size) # es) (values_size, num_extensions, each_header) =
     bind_res (GetId dchecks type m) (\<lambda>x.
       if x = 0 then sum_extensions dchecks m es (values_size, num_extensions, each_header)
       else
         sum_extensions dchecks m es (values_size + value_size, num_extensions + 1,
           if unat x > kOneByteHeaderExtensionMaxId \<or> value_size > int kOneByteHeaderExtensionMaxValueSize then 2 else each_header))"

definition RtpHeaderExtensionSize :: "bool \<Rightarrow> (RTPExtensionType \<times> int) list \<Rightarrow> RtpHeaderExtensionMap \<Rightarrow> int res" where
  "RtpHeaderExtensionSize dchecks extensions m =
     bind_res (sum_extensions dchecks m extensions (0, 0, 1)) (\<lambda>(values_size, num_extensions, each_header).
       if values_size = 0 then Inr 0
       else
         let size = 4 + each_header * num_extensions + values_size in
         Inr (size + 3 - (size + 3) smod 4))"

text \<open>The sizes of the extensions that FEC packets may have.\<close>

definition kFecOrPaddingExtensionSizes :: "(RTPExtensionType \<times> int) list" where
  "kFecOrPaddingExtensionSizes =
     [(kRtpExtensionAbsoluteSendTime, 3), (kRtpExtensionTransmissionTimeOffset, 3), (kRtpExtensionTransportSequenceNumber, 2),
      (kRtpExtensionPlayoutDelay, 3), (kRtpExtensionMid, 16), (kRtpExtensionVideoTiming, 13)]"

section \<open>The sender\<close>

record RtpState =
  sequence_number :: u16
  start_timestamp :: u32
  last_rtp_timestamp :: u32
  last_capture_time :: "int option"
  last_timestamp_time :: "int option"
  ssrc_has_acked :: bool

record FlexfecSender =
  flexfec_payload_type :: int
  timestamp_offset :: u32
  flexfec_ssrc :: u32
  flexfec_media_ssrc :: u32
  flexfec_mid :: "u8 list"
  flexfec_seq_num :: u16
  ulpfec_generator :: UlpfecGenerator
  rtp_header_extension_map :: RtpHeaderExtensionMap
  header_extensions_size :: nat
  last_generated_packet :: "int option"
  flexfec_bitrate :: "(nat \<times> int) list"

definition kFlexfecMaxHeaderSize :: nat where "kFlexfecMaxHeaderSize = 32"
definition kMsToRtpTimestamp :: int where "kMsToRtpTimestamp = 90000 div 1000"
definition kPacketLogInterval :: int where "kPacketLogInterval = 10 * 1000000"

definition extension_uri :: "RTPExtensionType \<Rightarrow> string" where
  "extension_uri type = the (map_of kExtensions type)"

fun register_supported :: "bool \<Rightarrow> (int \<times> string) list \<Rightarrow> RtpHeaderExtensionMap \<Rightarrow> RtpHeaderExtensionMap res" where
  "register_supported dchecks [] m = Inr m"
| "register_supported dchecks ((ext, uri) # es) m =
     (let register = (\<lambda>type. bind_res (Register dchecks ext type m) (\<lambda>(ok, m'). register_supported dchecks es m')) in
      if uri = extension_uri kRtpExtensionTransportSequenceNumber then register kRtpExtensionTransportSequenceNumber
      else if uri = extension_uri kRtpExtensionAbsoluteSendTime then register kRtpExtensionAbsoluteSendTime
      else if uri = extension_uri kRtpExtensionTransmissionTimeOffset then register kRtpExtensionTransmissionTimeOffset
      else if uri = extension_uri kRtpExtensionMid then register kRtpExtensionMid
      else register_supported dchecks es m)"

definition RegisterSupportedExtensions :: "bool \<Rightarrow> (int \<times> string) list \<Rightarrow> RtpHeaderExtensionMap res" where
  "RegisterSupportedExtensions dchecks es = register_supported dchecks es (new_RtpHeaderExtensionMap False)"

definition new_FlexfecSender ::
    "bool \<Rightarrow> u32 \<Rightarrow> u32 \<Rightarrow> int \<Rightarrow> u32 \<Rightarrow> u32 \<Rightarrow> u8 list \<Rightarrow> (int \<times> string) list \<Rightarrow> (RTPExtensionType \<times> int) list \<Rightarrow> RtpState option \<Rightarrow>
     FlexfecSender res" where
  "new_FlexfecSender dchecks random_timestamp random_seq payload_type s media_ssrc mid exts sizes rtp_state =
     bind_res (RegisterSupportedExtensions dchecks exts) (\<lambda>m.
     bind_res (RtpHeaderExtensionSize dchecks sizes m) (\<lambda>size.
       RTC_DCHECK dchecks (payload_type \<ge> 0) ''payload_type >= 0''
         (RTC_DCHECK dchecks (payload_type \<le> 127) ''payload_type <= 127''
           (Inr \<lparr>flexfec_payload_type = payload_type,
                 timestamp_offset = (case rtp_state of Some st \<Rightarrow> start_timestamp st | None \<Rightarrow> random_timestamp),
                 flexfec_ssrc = s, flexfec_media_ssrc = media_ssrc, flexfec_mid = mid,
                 flexfec_seq_num = (case rtp_state of Some st \<Rightarrow> sequence_number st | None \<Rightarrow> ucast random_seq),
                 ulpfec_generator = generator_with (CreateFlexfec s media_ssrc) 0 0,
                 rtp_header_extension_map = m, header_extensions_size = size_t size,
                 last_generated_packet = None, flexfec_bitrate = []\<rparr>))))"

definition flexfec_SetProtectionParameters ::
    "bool \<Rightarrow> FecProtectionParams \<Rightarrow> FecProtectionParams \<Rightarrow> FlexfecSender \<Rightarrow> FlexfecSender res" where
  "flexfec_SetProtectionParameters dchecks delta key s =
     bind_res (SetProtectionParameters dchecks delta key (ulpfec_generator s)) (\<lambda>g. Inr (s\<lparr>ulpfec_generator := g\<rparr>))"

definition flexfec_AddPacketAndGenerateFec :: "bool \<Rightarrow> RtpPacketToSend \<Rightarrow> FlexfecSender \<Rightarrow> FlexfecSender res" where
  "flexfec_AddPacketAndGenerateFec dchecks packet s =
     RTC_DCHECK dchecks (rtp_ssrc packet = flexfec_media_ssrc s) ''packet.Ssrc() == protected_media_ssrc_''
       (bind_res (AddPacketAndGenerateFec dchecks packet (ulpfec_generator s)) (\<lambda>g. Inr (s\<lparr>ulpfec_generator := g\<rparr>)))"

section \<open>FEC packets\<close>

definition new_RtpPacketToSend :: "bool \<Rightarrow> RtpHeaderExtensionMap \<Rightarrow> RtpPacketToSend res" where
  "new_RtpPacketToSend dchecks exts =
     bind_res (new_RtpPacket dchecks exts kDefaultPacketSize) (\<lambda>p.
       Inr (RtpPacket.extend p (RtpPacketToSend.fields 0 None None False False False False)))"

text \<open>The class of string extensions: its \<open>Write\<close> for the string \<open>str\<close>.\<close>

definition BaseRtpStringExtension_Write :: "bool \<Rightarrow> u8 list \<Rightarrow> mem \<Rightarrow> (bool \<times> mem) res" where
  "BaseRtpStringExtension_Write dchecks str data =
     (if length str > 16 then Inr (False, data)
      else
        RTC_DCHECK dchecks (length data = length str) ''data.size() == str.size()''
          (RTC_DCHECK dchecks (length str \<ge> 1) ''str.size() >= 1''
            (bind_res (mem_store ''data'' 0 (mem_of str) data) (\<lambda>data'. Inr (True, data')))))"

definition reserve_extensions :: "bool \<Rightarrow> RtpPacketToSend \<Rightarrow> RtpPacketToSend res" where
  "reserve_extensions dchecks p =
     bind_res (ReserveExtension dchecks kRtpExtensionAbsoluteSendTime 3 p) (\<lambda>(_, p1).
     bind_res (ReserveExtension dchecks kRtpExtensionTransmissionTimeOffset 3 p1) (\<lambda>(_, p2).
     bind_res (ReserveExtension dchecks kRtpExtensionTransportSequenceNumber 2 p2) (\<lambda>(_, p3). Inr p3)))"

definition set_mid :: "bool \<Rightarrow> u8 list \<Rightarrow> RtpPacketToSend \<Rightarrow> RtpPacketToSend res" where
  "set_mid dchecks mid p =
     (if mid = [] then Inr p
      else bind_res (SetExtension dchecks kRtpExtensionMid (length mid) (BaseRtpStringExtension_Write dchecks mid) p) (\<lambda>(_, p1). Inr p1))"

text \<open>One FEC packet; \<open>ms\<close> and \<open>now\<close> are the readings of the clock.\<close>

definition flexfec_packet :: "bool \<Rightarrow> FlexfecSender \<Rightarrow> int \<Rightarrow> int \<Rightarrow> CopyOnWriteBuffer \<Rightarrow> RtpPacketToSend res" where
  "flexfec_packet dchecks s ms now fec =
     bind_res (new_RtpPacketToSend dchecks (rtp_header_extension_map s)) (\<lambda>p0.
     bind_res (SetMarker False ((set_packet_type kForwardErrorCorrection p0)\<lparr>allow_retransmission := False\<rparr>)) (\<lambda>p1.
     bind_res (SetPayloadType dchecks (word_of_int (flexfec_payload_type s)) p1) (\<lambda>p2.
     bind_res (SetSequenceNumber (flexfec_seq_num s) p2) (\<lambda>p3.
     bind_res (SetTimestamp (timestamp_offset s + word_of_int (kMsToRtpTimestamp * ms)) p3) (\<lambda>p4.
     bind_res (SetSsrc (flexfec_ssrc s) (p4\<lparr>capture_time := now\<rparr>)) (\<lambda>p5.
     bind_res (reserve_extensions dchecks p5) (\<lambda>p6.
     bind_res (set_mid dchecks (flexfec_mid s) p6) (\<lambda>p7.
     bind_res (AllocatePayload dchecks (buffer_size fec) p7) (\<lambda>p8.
       write_buffer (mem_store ''payload'' (int (rtp_payload_offset p8)) (cow_data fec)) p8)))))))))"

fun flexfec_packets ::
    "bool \<Rightarrow> (nat \<Rightarrow> int) \<Rightarrow> (nat \<Rightarrow> int) \<Rightarrow> nat \<Rightarrow> nat list \<Rightarrow> FlexfecSender \<Rightarrow> (RtpPacketToSend list \<times> FlexfecSender) res" where
  "flexfec_packets dchecks ms now i [] s = Inr ([], s)"
| "flexfec_packets dchecks ms now i (k # ks) s =
     bind_res (flexfec_packet dchecks s (ms i) (now i) (generated_fec_packets (gen_fec (ulpfec_generator s)) ! k)) (\<lambda>p.
     bind_res (flexfec_packets dchecks ms now (Suc i) ks (s\<lparr>flexfec_seq_num := flexfec_seq_num s + 1\<rparr>)) (\<lambda>(ps, s').
       Inr (p # ps, s')))"

definition flexfec_GetFecPackets ::
    "bool \<Rightarrow> (nat \<Rightarrow> int) \<Rightarrow> (nat \<Rightarrow> int) \<Rightarrow> FlexfecSender \<Rightarrow> (RtpPacketToSend list \<times> FlexfecSender) res" where
  "flexfec_GetFecPackets dchecks ms now s =
     bind_res (flexfec_packets dchecks ms now 0 (gen_packets (ulpfec_generator s)) s) (\<lambda>(ps, s1).
       let s2 = (if ps \<noteq> [] then s1\<lparr>ulpfec_generator := generator_ResetState (ulpfec_generator s1)\<rparr> else s1);
           t = now (length ps);
           s3 = (if ps \<noteq> [] \<and> (case last_generated_packet s2 of None \<Rightarrow> True | Some t0 \<Rightarrow> t - t0 > kPacketLogInterval)
                 then s2\<lparr>last_generated_packet := Some t\<rparr> else s2)
       in Inr (ps, s3\<lparr>flexfec_bitrate := flexfec_bitrate s3 @ [(sum_list (map rtp_size ps), t)]\<rparr>))"

definition flexfec_MaxPacketOverhead :: "FlexfecSender \<Rightarrow> nat" where
  "flexfec_MaxPacketOverhead s = header_extensions_size s + kFlexfecMaxHeaderSize"

definition flexfec_GetRtpState :: "FlexfecSender \<Rightarrow> RtpState" where
  "flexfec_GetRtpState s =
     \<lparr>sequence_number = flexfec_seq_num s, start_timestamp = timestamp_offset s, last_rtp_timestamp = 0, last_capture_time = None,
      last_timestamp_time = None, ssrc_has_acked = False\<rparr>"

section \<open>The extensions of FEC packets\<close>

definition fec_extension_types :: "RTPExtensionType list" where
  "fec_extension_types = [kRtpExtensionAbsoluteSendTime, kRtpExtensionTransmissionTimeOffset, kRtpExtensionTransportSequenceNumber, kRtpExtensionMid]"

definition fec_map_ok :: "RtpHeaderExtensionMap \<Rightarrow> bool" where
  "fec_map_ok m \<longleftrightarrow> ids_distinct m \<and> \<not> extmap_allow_mixed m \<and> (\<forall>t. t \<notin> set fec_extension_types \<longrightarrow> extension_ids m t = 0)"

lemma fec_types: "set fec_extension_types \<subseteq> set extension_types"
  by (auto simp: fec_extension_types_def extension_types_def)

lemma Register_fec:
  assumes "type \<in> set fec_extension_types" "fec_map_ok m"
  shows "\<exists>ok m'. Register dchecks ext type m = Inr (ok, m') \<and> fec_map_ok m'"
proof -
  from assms have *: "type \<in> set extension_types" "ids_distinct m" using fec_types by (auto simp: fec_map_ok_def)
  from Register_ok [OF this, of dchecks ext] obtain ok m' where
    r: "Register dchecks ext type m = Inr (ok, m')" "ids_distinct m'"
      "m' = (if ok then m\<lparr>extension_ids := (extension_ids m)(type := word_of_int ext)\<rparr> else m)" by blast
  then have "fec_map_ok m'" using assms by (auto simp: fec_map_ok_def)
  then show ?thesis using r(1) by blast
qed

lemma register_supported_ok: "fec_map_ok m \<Longrightarrow> \<exists>m'. register_supported dchecks es m = Inr m' \<and> fec_map_ok m'"
proof (induction es arbitrary: m)
  case (Cons e es)
  obtain ext uri where e: "e = (ext, uri)" by (cases e)
  have "\<exists>m'. bind_res (Register dchecks ext type m) (\<lambda>(ok, m'). register_supported dchecks es m') = Inr m' \<and> fec_map_ok m'"
    if "type \<in> set fec_extension_types" for type
    using Register_fec [OF that Cons.prems, of dchecks ext] Cons.IH by fastforce
  then show ?case using Cons by (auto simp: e fec_extension_types_def Let_def)
qed simp

lemma RegisterSupportedExtensions_ok: "\<exists>m. RegisterSupportedExtensions dchecks es = Inr m \<and> fec_map_ok m"
  unfolding RegisterSupportedExtensions_def
  by (intro register_supported_ok) (simp add: fec_map_ok_def ids_distinct_def new_RtpHeaderExtensionMap_def)

text \<open>Without two-byte headers an extension is set exactly if it has an id up to 14 and a value of 1 to 16 bytes.\<close>

definition usable :: "RtpHeaderExtensionMap \<Rightarrow> RTPExtensionType \<times> u8 list \<Rightarrow> bool" where
  "usable m c \<longleftrightarrow> extension_ids m (fst c) \<noteq> 0 \<and> \<not> two_byte_required (extension_ids m (fst c)) (length (snd c))"

definition used_extensions :: "RtpHeaderExtensionMap \<Rightarrow> (RTPExtensionType \<times> u8 list) list \<Rightarrow> (u8 \<times> u8 list) list" where
  "used_extensions m cs = map (\<lambda>c. (extension_ids m (fst c), snd c)) (filter (usable m) cs)"

lemma used_extensions_simps [simp]:
  "used_extensions m [] = []"
  "used_extensions m (c # cs) = (if usable m c then [(extension_ids m (fst c), snd c)] else []) @ used_extensions m cs"
  "used_extensions m (cs @ ds) = used_extensions m cs @ used_extensions m ds"
  by (simp_all add: used_extensions_def)

lemma put_used:
  assumes m: "fec_map_ok m"
  shows "distinct (map fst (ds @ cs)) \<Longrightarrow> fst ` set (ds @ cs) \<subseteq> set extension_types \<Longrightarrow>
    hlen + 4 + length (ext_mem False (byte_exts (used_extensions m ds))) + sum_list (map (\<lambda>c. 1 + length (snd c)) cs) \<le> cap \<Longrightarrow>
    put_extensions m hlen cap cs (False, used_extensions m ds) = (map (usable m) cs, False, used_extensions m (ds @ cs))"
proof (induction cs arbitrary: ds)
  case (Cons c cs)
  obtain t d where c: "c = (t, d)" by (cases c)
  let ?x = "extension_ids m t"
  have mixed: "\<not> extmap_allow_mixed m" using m by (simp add: fec_map_ok_def)
  have new: "map_of (used_extensions m ds) ?x = None" if "?x \<noteq> 0"
  proof -
    have "extension_ids m u \<noteq> ?x" if "u \<in> fst ` set ds" for u
      using m that \<open>?x \<noteq> 0\<close> Cons.prems(1,2) by (auto simp: fec_map_ok_def ids_distinct_def c image_iff)
    then have "?x \<notin> fst ` set (used_extensions m ds)" by (force simp: used_extensions_def)
    then show ?thesis by (simp add: map_of_eq_None_iff)
  qed
  have put: "put_extension m hlen cap c (False, used_extensions m ds) = (usable m c, False, used_extensions m (ds @ [c]))"
  proof (cases "usable m c")
    case True
    then have "?x \<noteq> 0" "\<not> two_byte_required ?x (length d)" by (simp_all add: usable_def c)
    moreover from this new have "AList.update ?x d (used_extensions m ds) = used_extensions m ds @ [(?x, d)]"
      by (intro update_new) (simp add: map_of_eq_None_iff)
    ultimately show ?thesis
      using new Cons.prems(3) mixed True
      by (auto simp: put_extension_def c Let_def ext_room_def ext_hlen_def two_byte_required_def extension_constants)
  qed (use mixed in \<open>auto simp: put_extension_def c Let_def usable_def two_byte_required_def extension_constants\<close>)
  have "put_extensions m hlen cap cs (False, used_extensions m (ds @ [c])) = (map (usable m) cs, False, used_extensions m ((ds @ [c]) @ cs))"
    using Cons.prems by (intro Cons.IH) (auto simp: byte_exts_def ext_hlen_def c)
  then show ?case using put by simp
qed simp

section \<open>One packet\<close>

lemma set_string_eq:
  fixes p :: "'a RtpPacket_scheme"
  assumes e: "extendable hdr p" and s: "ext_state hdr p (two, es)" and t: "type \<in> set extension_types"
    and x: "extension_ids (rtp_extensions p) type \<notin> fst ` set es" and mixed: "\<not> extmap_allow_mixed (rtp_extensions p)"
  shows "SetExtension dchecks type (length d) (BaseRtpStringExtension_Write dchecks d) (written hdr two (byte_exts es) p) =
    SetRawExtension dchecks type d (written hdr two (byte_exts es) p)"
proof -
  let ?w = "written hdr two (byte_exts es) p" and ?x = "extension_ids (rtp_extensions p) type"
  note alloc = AllocateExtension_refused [OF t, where p = ?w and dchecks = dchecks and n = "length d", unfolded written_simps]
  show ?thesis
  proof (cases "?x = 0 \<or> length d = 0 \<or> length d > 255 \<or> two_byte_required ?x (length d)")
    case True
    then have "AllocateExtension dchecks type (length d) ?w = Inr (None, ?w)" using alloc mixed by auto
    then show ?thesis by (simp add: SetExtension_def SetRawExtension_def)
  next
    case False
    then have d: "1 \<le> length d" "length d \<le> 16" "?x \<noteq> 0" "\<not> two_byte_required ?x (length d)"
      by (auto simp: two_byte_required_def extension_constants Suc_le_eq)
    have "AllocateExtension dchecks type (length d) ?w = AllocateRawExtension dchecks ?x (length d) ?w" using alloc False by simp
    moreover have "\<exists>view p1. AllocateRawExtension dchecks ?x (length d) ?w = Inr (view, p1) \<and>
        (\<forall>off. view = Some off \<longrightarrow> off + length d \<le> buffer_size (rtp_buffer p1))"
      using AllocateRawExtension_new [OF e, of two "byte_exts es" ?x "length d" dchecks] s x d
      by (auto simp: ext_state_def written_simps ext_data_def length_ext_block ext_words_bounds(1) split: if_splits)
    ultimately obtain view p1 where a: "AllocateExtension dchecks type (length d) ?w = Inr (view, p1)"
      "\<And>off. view = Some off \<Longrightarrow> off + length d \<le> buffer_size (rtp_buffer p1)" by auto
    have "BaseRtpStringExtension_Write dchecks d v = Inr (True, mem_of d)" if "length v = length d" for v
      using that d store_at [of "[]" 0 v "mem_of d" "''data''" "[]"] by (simp add: BaseRtpStringExtension_Write_def)
    then show ?thesis using a by (intro SetExtension_eq) auto
  qed
qed

text \<open>The payload behind the extensions completes a packet without padding, also beyond the first capacity of the buffer.\<close>

lemma payload_full:
  fixes p :: "'a RtpPacket_scheme" and hdr
  defines "hdr \<equiv> rtp_header False False (rtp_marker p) (rtp_payload_type p) (rtp_sequence_number p) (rtp_timestamp p) (rtp_ssrc p) []"
  assumes pad: "rtp_padding_size p = 0" and es: "exts_ok two (byte_exts es)"
  shows "\<exists>q. bind_res (AllocatePayload dchecks (length payload) (written hdr two (byte_exts es) p)) (\<lambda>p8.
      write_buffer (mem_store w (int (rtp_payload_offset p8)) (mem_of payload)) p8) = Inr q \<and>
    full_packet (rtp_marker p) (rtp_payload_type p) (rtp_sequence_number p) (rtp_timestamp p) (rtp_ssrc p) [] two es payload 0 q"
proof -
  let ?w = "written hdr two (byte_exts es) p" and ?k = "length payload"
  obtain blk where blk: "mem_of blk = ext_block two (byte_exts es)" using ext_block_bytes by blast
  let ?bytes = "rtp_header False (es \<noteq> []) (rtp_marker p) (rtp_payload_type p) (rtp_sequence_number p) (rtp_timestamp p) (rtp_ssrc p) [] @ blk"
  have d: "ext_data hdr two (byte_exts es) = mem_of ?bytes" by (simp add: ext_data_def blk hdr_def rtp_header_set(1))
  have wb: "cow_data (rtp_buffer ?w) = mem_of ?bytes" "rtp_payload_offset ?w = length ?bytes" "rtp_padding_size ?w = 0"
    using d arg_cong [OF d, of length] pad by (simp_all add: written_def)
  let ?v = "with_bytes ?bytes (?w\<lparr>rtp_payload_size := 0\<rparr>)"
  have "take (rtp_payload_offset ?w) ?bytes = ?bytes" using wb(2) by simp
  with SetPayloadSize_0_ok [OF wb(1) eq_refl [OF wb(2)] wb(3), of dchecks] have "SetPayloadSize dchecks 0 ?w = Inr ?v" by (simp only:)
  moreover have "cow_data (rtp_buffer ?v) = mem_of ?bytes" "rtp_payload_offset ?v = length ?bytes" "rtp_padding_size ?v = 0" using wb by simp_all
  from SetPayloadSize_ok [OF this, of dchecks ?k] obtain cap where "SetPayloadSize dchecks ?k ?v = Inr (?v\<lparr>rtp_payload_size := ?k,
      rtp_buffer := \<lparr>cow_data = mem_of ?bytes @ replicate ?k None, cow_capacity = cap\<rparr>\<rparr>)"
    by blast
  ultimately have al: "AllocatePayload dchecks ?k ?w = Inr (?v\<lparr>rtp_payload_size := ?k,
      rtp_buffer := \<lparr>cow_data = mem_of ?bytes @ replicate ?k None, cow_capacity = cap\<rparr>\<rparr>)"
    by (simp add: AllocatePayload_def)
  have bl: "length blk = length (ext_block two (byte_exts es))" using arg_cong [OF blk, of length] by simp
  have st: "mem_store w (int (length ?bytes)) (mem_of payload) (mem_of ?bytes @ replicate ?k None) = Inr (mem_of (?bytes @ payload))"
    using store_fresh [of ?bytes "length ?bytes" payload ?k w] by simp
  show ?thesis
    unfolding al bind_res.simps using st wb(2) es bl pad
    by (simp add: write_buffer_def change_data_def full_packet_def written_def blk hdr_def padding_def)
qed

definition bwe_extensions :: "(RTPExtensionType \<times> u8 list) list" where
  "bwe_extensions = [(kRtpExtensionAbsoluteSendTime, replicate 3 0), (kRtpExtensionTransmissionTimeOffset, replicate 3 0),
     (kRtpExtensionTransportSequenceNumber, replicate 2 0)]"

definition fec_extensions :: "u8 list \<Rightarrow> (RTPExtensionType \<times> u8 list) list" where
  "fec_extensions mid = bwe_extensions @ [(kRtpExtensionMid, mid)]"

lemma reserve_extensions_eq:
  "reserve_extensions dchecks p = bind_res (set_extensions dchecks bwe_extensions p) (\<lambda>(oks, q). Inr q)"
  unfolding reserve_extensions_def ReserveExtension_def bwe_extensions_def set_extensions.simps
  by (auto simp: bind_res_assoc split_def)

text \<open>The extensions of a FEC packet, and the packet.\<close>

lemma bwe_extensions_facts:
  "distinct (map fst bwe_extensions)" "fst ` set bwe_extensions \<subseteq> set extension_types" "kRtpExtensionMid \<notin> fst ` set bwe_extensions"
  "sum_list (map (\<lambda>c. 1 + length (snd c)) bwe_extensions) = 11" "kRtpExtensionMid \<in> set extension_types"
  "length (ext_mem False (byte_exts (used_extensions m bwe_extensions))) \<le> 11"
  by (auto simp: bwe_extensions_def extension_types_def ext_hlen_def)

lemma put_mid:
  assumes "fec_map_ok m"
  shows "put_extension m 12 1500 (kRtpExtensionMid, mid) (False, used_extensions m bwe_extensions) =
    (usable m (kRtpExtensionMid, mid), False, used_extensions m (fec_extensions mid))"
proof (cases "length mid \<le> 16")
  case True
  let ?mid = "(kRtpExtensionMid, mid)"
  have "put_extensions m 12 1500 [?mid] (False, used_extensions m bwe_extensions) =
      ([usable m ?mid], False, used_extensions m (bwe_extensions @ [?mid]))"
    using put_used [OF assms, of bwe_extensions "[?mid]" 12 1500] bwe_extensions_facts(1-3,5) bwe_extensions_facts(6) [of m] True by simp
  then show ?thesis by (simp add: fec_extensions_def split: prod.splits)
next
  case False
  then show ?thesis using assms by (auto simp: put_extension_def usable_def fec_map_ok_def two_byte_required_def extension_constants fec_extensions_def)
qed

lemma set_fec_extensions:
  fixes p :: RtpPacketToSend
  assumes e: "extendable hdr p" "length hdr = 12" "cow_capacity (rtp_buffer p) = 1500" "written hdr False [] p = p" and m: "fec_map_ok (rtp_extensions p)"
  shows "bind_res (reserve_extensions dchecks p) (set_mid dchecks mid) =
      Inr (written hdr False (byte_exts (used_extensions (rtp_extensions p) (fec_extensions mid))) p) \<and>
    exts_ok False (byte_exts (used_extensions (rtp_extensions p) (fec_extensions mid)))"
proof -
  let ?m = "rtp_extensions p" and ?cs = bwe_extensions
  let ?w = "written hdr False (byte_exts (used_extensions ?m ?cs)) p"
  have st: "ext_state hdr p (False, [])" using e by (simp add: ext_state_def exts_ok_def ext_data_def ext_block_def)
  have "put_extensions ?m 12 1500 ?cs (False, []) = (map (usable ?m) ?cs, False, used_extensions ?m ?cs)"
    using put_used [OF m, of "[]" ?cs 12 1500] bwe_extensions_facts by simp
  with set_extensions_ok [OF e(1) st bwe_extensions_facts(2), of "map (usable ?m) ?cs" False "used_extensions ?m ?cs" dchecks] e
  have 1: "set_extensions dchecks ?cs p = Inr (map (usable ?m) ?cs, ?w)" "ext_state hdr p (False, used_extensions ?m ?cs)" by simp_all
  have put: "put_extension ?m (length hdr) (cow_capacity (rtp_buffer p)) (kRtpExtensionMid, mid) (False, used_extensions ?m ?cs) =
      (usable ?m (kRtpExtensionMid, mid), False, used_extensions ?m (fec_extensions mid))" using put_mid [OF m] e by simp
  note 2 = SetRawExtension_ok [OF e(1) 1(2) bwe_extensions_facts(5) put, of dchecks]
  have "extension_ids ?m kRtpExtensionMid \<notin> fst ` set (used_extensions ?m ?cs)"
  proof
    assume "extension_ids ?m kRtpExtensionMid \<in> fst ` set (used_extensions ?m ?cs)"
    then obtain c where "c \<in> set ?cs" "extension_ids ?m (fst c) \<noteq> 0" "extension_ids ?m kRtpExtensionMid = extension_ids ?m (fst c)"
      by (auto simp: used_extensions_def usable_def)
    then show False using m bwe_extensions_facts(2,3,5) unfolding fec_map_ok_def ids_distinct_def by (metis image_eqI subsetD)
  qed
  with set_string_eq [OF e(1) 1(2) bwe_extensions_facts(5), of dchecks mid] m
  have 3: "SetExtension dchecks kRtpExtensionMid (length mid) (BaseRtpStringExtension_Write dchecks mid) ?w = SetRawExtension dchecks kRtpExtensionMid mid ?w"
    by (simp add: fec_map_ok_def)
  have "mid = [] \<Longrightarrow> used_extensions ?m (fec_extensions mid) = used_extensions ?m ?cs" by (simp add: fec_extensions_def usable_def two_byte_required_def)
  then show ?thesis
    using 1(1) 2 unfolding reserve_extensions_eq by (auto simp: set_mid_def 3 ext_state_def)
qed

definition sender_ok :: "FlexfecSender \<Rightarrow> bool" where
  "sender_ok s \<longleftrightarrow> 0 \<le> flexfec_payload_type s \<and> flexfec_payload_type s \<le> 127 \<and> fec_map_ok (rtp_header_extension_map s) \<and>
     length (ext_block False (byte_exts (used_extensions (rtp_header_extension_map s) (fec_extensions (flexfec_mid s))))) \<le> header_extensions_size s"

text \<open>What the FEC packet with the sequence number \<open>sn\<close> and the payload \<open>wire\<close> holds.\<close>

definition sent_fec_packet :: "FlexfecSender \<Rightarrow> u16 \<Rightarrow> int \<Rightarrow> u8 list \<Rightarrow> RtpPacketToSend \<Rightarrow> bool" where
  "sent_fec_packet s sn ms wire p \<longleftrightarrow>
     full_packet False (word_of_int (flexfec_payload_type s)) sn (timestamp_offset s + word_of_int (90 * ms)) (flexfec_ssrc s) [] False
       (used_extensions (rtp_header_extension_map s) (fec_extensions (flexfec_mid s))) wire 0 p"

lemma flexfec_packet_ok:
  assumes s: "sender_ok s" and fec: "cow_data fec = mem_of wire"
  shows "\<exists>p. flexfec_packet dchecks s ms now fec = Inr p \<and> sent_fec_packet s (flexfec_seq_num s) ms wire p"
proof -
  let ?m = "rtp_header_extension_map s" and ?pt = "word_of_int (flexfec_payload_type s) :: u8"
  let ?ts = "timestamp_offset s + word_of_int (kMsToRtpTimestamp * ms)" and ?sn = "flexfec_seq_num s" and ?ss = "flexfec_ssrc s"
  define es where "es = used_extensions ?m (fec_extensions (flexfec_mid s))"
  have pt: "?pt \<le> 0x7f" using s by (simp add: sender_ok_def seven_bit_int)
  have "\<exists>p. new_RtpPacketToSend dchecks ?m = Inr p \<and> cow_data (rtp_buffer p) = mem_of cleared \<and> rtp_extensions p = ?m \<and>
      rtp_padding_size p = 0 \<and> rtp_payload_size p = 0 \<and> rtp_extension_entries p = [] \<and> cow_capacity (rtp_buffer p) = 1500 \<and>
      rtp_extensions_size p = 0 \<and> rtp_payload_offset p = 12"
    by (simp add: new_RtpPacketToSend_def new_RtpPacket_def kFixedHeaderSize_def kDefaultPacketSize_def rtp_Clear_eq RtpPacket.defs)
  then obtain q where q: "new_RtpPacketToSend dchecks ?m = Inr q" "cow_data (rtp_buffer q) = mem_of cleared" "rtp_extensions q = ?m"
    "rtp_padding_size q = 0" "rtp_payload_size q = 0" "rtp_extension_entries q = []" "cow_capacity (rtp_buffer q) = 1500" "rtp_extensions_size q = 0"
    "rtp_payload_offset q = 12" by blast
  define p0 where "p0 = (set_packet_type kForwardErrorCorrection q)\<lparr>allow_retransmission := False\<rparr>"
  have p0: "cow_data (rtp_buffer p0) = mem_of cleared" "rtp_extensions p0 = ?m"
    "rtp_padding_size p0 = 0" "rtp_payload_size p0 = 0" "rtp_extension_entries p0 = []" "cow_capacity (rtp_buffer p0) = 1500" "rtp_extensions_size p0 = 0"
    "rtp_payload_offset p0 = 12" using q(2-) by (simp_all add: p0_def set_packet_type_def)
  define p5 where "p5 = with_bytes (rtp_bytes False False ?pt ?sn ?ts ?ss []) (p0\<lparr>rtp_marker := False, rtp_payload_type := ?pt,
      rtp_sequence_number := ?sn, rtp_timestamp := ?ts, capture_time := now, rtp_ssrc := ?ss\<rparr>)"
  have ex: "rtp_extensions_size (with_bytes bs r) = rtp_extensions_size r" for bs and r :: RtpPacketToSend by (simp add: with_bytes_def)
  have 5: "bind_res (SetMarker False p0) (\<lambda>p1. bind_res (SetPayloadType dchecks ?pt p1) (\<lambda>p2. bind_res (SetSequenceNumber ?sn p2) (\<lambda>p3.
      bind_res (SetTimestamp ?ts p3) (\<lambda>p4. bind_res (SetSsrc ?ss (p4\<lparr>capture_time := now\<rparr>)) f)))) = f p5" for f :: "RtpPacketToSend \<Rightarrow> RtpPacketToSend res"
    using pt p0(1) by (simp add: setters_rtp_bytes cleared_rtp_bytes p5_def) (simp add: with_bytes_def)
  define hdr where "hdr = rtp_header False False False ?pt ?sn ?ts ?ss []"
  have hdr: "rtp_bytes False False ?pt ?sn ?ts ?ss [] = hdr" "length hdr = 12" "csrc_end hdr = 12"
    using first_byte(4) [of 0 False False] by (simp_all add: hdr_def rtp_header_def rtp_bytes_def csrc_end_def first_byte_def)
  have e: "extendable hdr p5" "cow_capacity (rtp_buffer p5) = 1500" "written hdr False [] p5 = p5" "fec_map_ok (rtp_extensions p5)"
    using p0 hdr s by (simp_all add: extendable_def p5_def written_id sender_ok_def ex)
  from set_fec_extensions [OF e(1) hdr(2) e(2-4), of dchecks "flexfec_mid s"]
  have 6: "bind_res (reserve_extensions dchecks p5) (set_mid dchecks (flexfec_mid s)) = Inr (written hdr False (byte_exts es) p5)"
    "exts_ok False (byte_exts es)" using p0 by (simp_all add: es_def p5_def)
  have f: "rtp_marker p5 = False" "rtp_payload_type p5 = ?pt" "rtp_sequence_number p5 = ?sn" "rtp_timestamp p5 = ?ts" "rtp_ssrc p5 = ?ss" "rtp_padding_size p5 = 0"
    using p0 by (simp_all add: p5_def)
  from payload_full [OF f(6) 6(2), of dchecks wire "''payload''", unfolded f(1-5), folded hdr_def] obtain p where
    p: "bind_res (AllocatePayload dchecks (length wire) (written hdr False (byte_exts es) p5))
      (\<lambda>p8. write_buffer (mem_store ''payload'' (int (rtp_payload_offset p8)) (mem_of wire)) p8) = Inr p"
      "full_packet False ?pt ?sn ?ts ?ss [] False es wire 0 p" by blast
  have "flexfec_packet dchecks s ms now fec = Inr p"
    unfolding flexfec_packet_def q(1) bind_res.simps p0_def [symmetric] 5 fec
    using 6(1) p(1) by (auto simp: bind_res_assoc [symmetric])
  then show ?thesis using p(2) by (simp add: sent_fec_packet_def es_def kMsToRtpTimestamp_def)
qed

section \<open>A frame through the sender\<close>

lemma flexfec_packets_ok:
  "sender_ok s \<Longrightarrow> \<forall>k \<in> set ks. cow_data (generated_fec_packets (gen_fec (ulpfec_generator s)) ! k) = mem_of (wire k) \<Longrightarrow>
   \<exists>ps. flexfec_packets dchecks ms now i ks s = Inr (ps, s\<lparr>flexfec_seq_num := flexfec_seq_num s + of_nat (length ks)\<rparr>) \<and> length ps = length ks \<and>
     (\<forall>r < length ks. sent_fec_packet s (flexfec_seq_num s + of_nat r) (ms (i + r)) (wire (ks ! r)) (ps ! r))"
proof (induction ks arbitrary: i s)
  case (Cons k ks)
  let ?s = "s\<lparr>flexfec_seq_num := flexfec_seq_num s + 1\<rparr>"
  from flexfec_packet_ok [OF Cons.prems(1), of "generated_fec_packets (gen_fec (ulpfec_generator s)) ! k" "wire k" dchecks "ms i" "now i"] Cons.prems(2)
  obtain p where p: "flexfec_packet dchecks s (ms i) (now i) (generated_fec_packets (gen_fec (ulpfec_generator s)) ! k) = Inr p"
    "sent_fec_packet s (flexfec_seq_num s) (ms i) (wire k) p" by auto
  have "sender_ok ?s" "sent_fec_packet ?s = sent_fec_packet s" using Cons.prems(1) by (auto simp: sender_ok_def sent_fec_packet_def fun_eq_iff)
  with Cons.IH [of ?s "Suc i"] Cons.prems(2) obtain ps where
    ps: "flexfec_packets dchecks ms now (Suc i) ks ?s = Inr (ps, s\<lparr>flexfec_seq_num := flexfec_seq_num s + of_nat (Suc (length ks))\<rparr>)" "length ps = length ks"
      "\<forall>r < length ks. sent_fec_packet s (flexfec_seq_num s + 1 + of_nat r) (ms (Suc i + r)) (wire (ks ! r)) (ps ! r)"
    by (auto simp: algebra_simps)
  have "sent_fec_packet s (flexfec_seq_num s + of_nat r) (ms (i + r)) (wire ((k # ks) ! r)) ((p # ps) ! r)" if "r < length (k # ks)" for r
    using that ps(3) p(2) by (cases r) (auto simp: algebra_simps)
  then show ?case using p(1) ps(1,2) by simp
qed simp

fun flexfec_add_all :: "bool \<Rightarrow> RtpPacketToSend list \<Rightarrow> FlexfecSender \<Rightarrow> FlexfecSender res" where
  "flexfec_add_all dchecks [] s = Inr s"
| "flexfec_add_all dchecks (p # ps) s = bind_res (flexfec_AddPacketAndGenerateFec dchecks p s) (flexfec_add_all dchecks ps)"

lemma flexfec_add_all_eq:
  "\<forall>p \<in> set ps. rtp_ssrc p = flexfec_media_ssrc s \<Longrightarrow>
   flexfec_add_all dchecks ps s = bind_res (add_packets dchecks ps (ulpfec_generator s)) (\<lambda>g. Inr (s\<lparr>ulpfec_generator := g\<rparr>))"
proof (induction ps arbitrary: s)
  case (Cons p ps)
  then show ?case by (cases "AddPacketAndGenerateFec dchecks p (ulpfec_generator s)") (simp_all add: flexfec_AddPacketAndGenerateFec_def)
qed simp

text \<open>New parameters take effect with the first packet.\<close>

lemma apply_pending_facts:
  "apply_pending (apply_pending g) = apply_pending g" "gen_packets (apply_pending g) = gen_packets g" "gen_fec (apply_pending g) = gen_fec g"
  "gen_media_packets (apply_pending g) = gen_media_packets g"
  by (auto simp: apply_pending_def Let_def split: option.splits)

lemma add_packets_pending: "ps \<noteq> [] \<Longrightarrow> add_packets dchecks ps (apply_pending g) = add_packets dchecks ps g"
  by (cases ps) (simp_all add: AddPacketAndGenerateFec_def apply_pending_facts)

definition sender_ready :: "FlexfecSender \<Rightarrow> bool" where
  "sender_ready s \<longleftrightarrow> sender_ok s \<and> idle (apply_pending (ulpfec_generator s)) \<and> codec_ready Flexfec03HeaderWriter (gen_fec (ulpfec_generator s))"

lemma sender_frame:
  assumes s: "sender_ready s" and g: "g = apply_pending (ulpfec_generator s)"
    and ps: "frame_of media ps" "n = length media" "n \<le> 48" "\<forall>p \<in> set ps. rtp_ssrc p = flexfec_media_ssrc s"
    and num: "numbered s0 d media" and lens: "\<And>p. p \<in> set media \<Longrightarrow> length p < 2 ^ 16" and ss: "ParseSsrc (hd media) = Inr ms"
    and prm: "prm = params_for g ps" "0 < fec_rate prm" "fec_rate prm \<le> 255"
    and ends: "frame_ends_group (min_num_media_packets g) prm n" and m: "m = fec_count n (nat (fec_rate prm))"
  shows "\<exists>s1 fs s2. flexfec_add_all dchecks ps s = Inr s1 \<and> flexfec_GetFecPackets dchecks clock now s1 = Inr (fs, s2) \<and> sender_ready s2 \<and>
    length fs = m \<and> flexfec_seq_num s2 = flexfec_seq_num s + of_nat m \<and>
    (\<forall>r < m. \<exists>wire. sent_fec_packet s (flexfec_seq_num s + of_nat r) (clock r) wire (fs ! r) \<and>
      reads_as_row Flexfec03HeaderReader dchecks fs_ssrc ms s0 d media m (fec_mask_type prm) r wire)"
proof -
  have g1: "idle g" "codec_ready Flexfec03HeaderWriter (gen_fec g)" using s by (simp_all add: sender_ready_def g apply_pending_facts)
  from flexfec.frame_encoded [OF g1 ps(1-3) num lens ss TrueI prm ends m, of dchecks fs_ssrc] obtain c' wire where
    e: "add_packets dchecks ps g = Inr ((collected ps g)\<lparr>num_protected_frames := 1, gen_packets := [0..<m], gen_fec := c'\<rparr>)"
      "codec_ready Flexfec03HeaderWriter c'" "\<forall>r < m. cow_data (generated_fec_packets c' ! r) = mem_of (wire r) \<and>
      reads_as_row Flexfec03HeaderReader dchecks fs_ssrc ms s0 d media m (fec_mask_type prm) r (wire r)" by blast
  define h where "h = (collected ps g)\<lparr>num_protected_frames := 1, gen_packets := [0..<m], gen_fec := c'\<rparr>"
  define s1 where "s1 = s\<lparr>ulpfec_generator := h\<rparr>"
  have "ps \<noteq> []" using ps(1) by (simp add: frame_of_def)
  then have 1: "flexfec_add_all dchecks ps s = Inr s1"
    using flexfec_add_all_eq [OF ps(4), of dchecks] add_packets_pending [of ps dchecks "ulpfec_generator s"] e(1) by (simp add: g h_def s1_def)
  have h: "gen_packets h = [0..<m]" "gen_fec h = c'" "pending_params h = None" using g1(1) by (simp_all add: h_def collected_def idle_def)
  have ok: "sender_ok s1" "sent_fec_packet s1 = sent_fec_packet s" "flexfec_seq_num s1 = flexfec_seq_num s"
    using s by (simp_all add: sender_ready_def sender_ok_def s1_def sent_fec_packet_def fun_eq_iff)
  have "\<forall>k \<in> set [0..<m]. cow_data (generated_fec_packets (gen_fec (ulpfec_generator s1)) ! k) = mem_of (wire k)" using e(3) h by (simp add: s1_def)
  from flexfec_packets_ok [OF ok(1) this, of dchecks clock now 0] obtain fs where
    fs: "flexfec_packets dchecks clock now 0 [0..<m] s1 = Inr (fs, s1\<lparr>flexfec_seq_num := flexfec_seq_num s + of_nat m\<rparr>)" "length fs = m"
      "\<forall>r < m. sent_fec_packet s (flexfec_seq_num s + of_nat r) (clock r) (wire r) (fs ! r)" using ok by auto
  have "0 < m" using prm(2) by (simp add: m fec_count_def)
  then have "fs \<noteq> []" using fs(2) by auto
  have "gen_packets (ulpfec_generator s1) = [0..<m]" by (simp add: s1_def h)
  with fs(1) obtain s2 where 2: "flexfec_GetFecPackets dchecks clock now s1 = Inr (fs, s2)" "flexfec_seq_num s2 = flexfec_seq_num s + of_nat m"
      "ulpfec_generator s2 = generator_ResetState h" "rtp_header_extension_map s2 = rtp_header_extension_map s" "flexfec_payload_type s2 = flexfec_payload_type s"
      "flexfec_mid s2 = flexfec_mid s" "header_extensions_size s2 = header_extensions_size s"
    using \<open>fs \<noteq> []\<close> by (auto simp: flexfec_GetFecPackets_def Let_def s1_def)
  have "idle (apply_pending (generator_ResetState h))" "gen_fec (generator_ResetState h) = c'"
    using h by (simp_all add: generator_ResetState_def idle_def apply_pending_def)
  then have "sender_ready s2" using 2(3-7) ok(1) e(2) s by (simp add: sender_ready_def sender_ok_def)
  then show ?thesis using 1 2 fs(2,3) e(3) by blast
qed

section \<open>Construction\<close>

lemma GetId_ok: "type \<in> set extension_types \<Longrightarrow> GetId dchecks type m = Inr (extension_ids m type)"
  by (auto simp: GetId_def type_checks_def extension_types_def)

lemma kFec_types: "type \<in> fst ` set kFecOrPaddingExtensionSizes \<Longrightarrow> type \<in> set extension_types"
  by (auto simp: kFecOrPaddingExtensionSizes_def extension_types_def)

text \<open>The size that is reserved for the extensions is enough for those that are set.\<close>

lemma extension_size_covers:
  assumes m: "fec_map_ok m"
  shows "\<exists>z. RtpHeaderExtensionSize dchecks kFecOrPaddingExtensionSizes m = Inr (int z) \<and> z < 2 ^ 64 \<and>
    length (ext_block False (byte_exts (used_extensions m (fec_extensions mid)))) \<le> z"
proof -
  let ?a = "extension_ids m kRtpExtensionAbsoluteSendTime" and ?b = "extension_ids m kRtpExtensionTransmissionTimeOffset"
    and ?c = "extension_ids m kRtpExtensionTransportSequenceNumber" and ?d = "extension_ids m kRtpExtensionMid"
  define one :: "u8 \<Rightarrow> nat" where "one = (\<lambda>x. if x = 0 then 0 else 1)"
  define N V where "N = one ?a + one ?b + one ?c + one ?d" and "V = 3 * one ?a + 3 * one ?b + 2 * one ?c + 16 * one ?d"
  have none: "extension_ids m kRtpExtensionPlayoutDelay = 0" "extension_ids m kRtpExtensionVideoTiming = 0"
    using m by (auto simp: fec_map_ok_def fec_extension_types_def)
  have "\<exists>h. (h = 1 \<or> h = 2) \<and> sum_extensions dchecks m kFecOrPaddingExtensionSizes (0, 0, 1) = Inr (int V, int N, int h)"
  proof -
    have g: "GetId dchecks type m = Inr (extension_ids m type)" if "type \<in> fst ` set kFecOrPaddingExtensionSizes" for type
      using GetId_ok [OF kFec_types [OF that]] .
    show ?thesis
      unfolding N_def V_def kFecOrPaddingExtensionSizes_def sum_extensions.simps
      using none by (simp add: g kFecOrPaddingExtensionSizes_def one_def)
  qed
  then obtain h :: nat where h: "1 \<le> h" "h \<le> 2" "sum_extensions dchecks m kFecOrPaddingExtensionSizes (0, 0, 1) = Inr (int V, int N, int h)" by force
  define L where "L = length (ext_mem False (byte_exts (used_extensions m (fec_extensions mid))))"
  have L: "L \<le> N + V" "used_extensions m (fec_extensions mid) \<noteq> [] \<Longrightarrow> V > 0"
    by (auto simp: L_def N_def V_def one_def fec_extensions_def bwe_extensions_def ext_hlen_def usable_def two_byte_required_def extension_constants)
  have hN: "N \<le> h * N" "h * N \<le> 2 * N" "N \<le> 4" "V \<le> 24" using h by (simp_all add: N_def V_def one_def)
  define S where "S = 4 + h * N + V + 3"
  have "int S - int S smod 4 = int (4 * (S div 4))"
  proof -
    have "int S smod 4 = int (S mod 4)" by (cases "S = 0") (simp_all add: smod_int_alt_def zmod_int)
    moreover have "int S - int (S mod 4) = int (4 * (S div 4))" using mod_mult_div_eq [of S 4] by linarith
    ultimately show ?thesis by simp
  qed
  then have 1: "RtpHeaderExtensionSize dchecks kFecOrPaddingExtensionSizes m = Inr (int (if V = 0 then 0 else 4 * (S div 4)))"
    using h(3) by (simp add: RtpHeaderExtensionSize_def Let_def S_def add.assoc)
  have 2: "length (ext_block False (byte_exts (used_extensions m (fec_extensions mid)))) =
      (if used_extensions m (fec_extensions mid) = [] then 0 else 4 + 4 * ((L + 3) div 4))" by (simp add: length_ext_block L_def ext_words_def)
  have "L \<le> h * N + V" using L(1) hN(1) by linarith
  then have le: "4 + L + 3 \<le> S" by (simp add: S_def)
  have "4 + 4 * ((L + 3) div 4) = 4 * ((4 + L + 3) div 4)" by presburger
  also have "\<dots> \<le> 4 * (S div 4)" by (intro mult_left_mono div_le_mono le) simp
  finally have 3: "4 + 4 * ((L + 3) div 4) \<le> 4 * (S div 4)" .
  have "S < 100" unfolding S_def using hN(2-4) by linarith
  moreover have "4 * (S div 4) \<le> S" by simp
  ultimately have "4 * (S div 4) < 100" by linarith
  then show ?thesis
    using 1 3 L(2) unfolding 2 by (intro exI [of _ "if V = 0 then 0 else 4 * (S div 4)"]) (auto simp del: used_extensions_simps)
qed

lemma new_FlexfecSender_ok:
  assumes "0 \<le> pt" "pt \<le> 127"
  shows "\<exists>s. new_FlexfecSender dchecks rt rs pt fs ms mid exts kFecOrPaddingExtensionSizes st = Inr s \<and> sender_ready s \<and>
    flexfec_ssrc s = fs \<and> flexfec_media_ssrc s = ms \<and> flexfec_mid s = mid \<and>
    ulpfec_generator s = generator_with (CreateFlexfec fs ms) 0 0"
proof -
  from RegisterSupportedExtensions_ok [of dchecks exts] obtain m where m: "RegisterSupportedExtensions dchecks exts = Inr m" "fec_map_ok m" by blast
  from extension_size_covers [OF m(2), of dchecks mid] obtain z where
    z: "RtpHeaderExtensionSize dchecks kFecOrPaddingExtensionSizes m = Inr (int z)" "z < 2 ^ 64"
      "length (ext_block False (byte_exts (used_extensions m (fec_extensions mid)))) \<le> z" by blast
  have "size_t (int z) = z" using z(2) by (simp add: size_t_small)
  moreover have "codec_ready Flexfec03HeaderWriter (CreateFlexfec fs ms)"
    by (simp add: codec_ready_def CreateFlexfec_def new_ForwardErrorCorrection_def Flexfec03HeaderWriter_def header_constants mask_constants)
  ultimately show ?thesis
    using assms m z by (simp add: new_FlexfecSender_def sender_ready_def sender_ok_def idle_def apply_pending_def generator_with_def del: used_extensions_simps)
qed

lemma SetProtectionParameters_ok:
  assumes "sender_ready s" "media_contains_keyframe (ulpfec_generator s) = False"
    and "0 \<le> fec_rate delta" "fec_rate delta \<le> 255" "0 \<le> fec_rate key" "fec_rate key \<le> 255"
  shows "\<exists>s'. flexfec_SetProtectionParameters dchecks delta key s = Inr s' \<and> sender_ready s' \<and> flexfec_ssrc s' = flexfec_ssrc s \<and>
    flexfec_media_ssrc s' = flexfec_media_ssrc s \<and> flexfec_MaxPacketOverhead s' = flexfec_MaxPacketOverhead s \<and> flexfec_seq_num s' = flexfec_seq_num s \<and>
    current_params (apply_pending (ulpfec_generator s')) = \<lparr>delta_params = delta, keyframe_params = key\<rparr> \<and>
    min_num_media_packets (apply_pending (ulpfec_generator s')) = (if fec_rate delta > 80 then 4 else 1)"
  using assms by (auto simp: flexfec_SetProtectionParameters_def SetProtectionParameters_def sender_ready_def sender_ok_def idle_def apply_pending_def
      Let_def CurrentParams_def flexfec_MaxPacketOverhead_def kHighProtectionThreshold_def kMinMediaPackets_def split: option.splits)

text \<open>No FEC packet is longer than the longest media packet by more than the overhead the sender announces.\<close>

lemma sent_fec_packet_size:
  assumes "sender_ok s" "sent_fec_packet s sn ms wire p" "length wire \<le> 32 + (k - 12)" "12 \<le> k"
  shows "rtp_size p \<le> k + flexfec_MaxPacketOverhead s"
proof -
  have "rtp_size p = 12 + length (ext_block False (byte_exts (used_extensions (rtp_header_extension_map s) (fec_extensions (flexfec_mid s))))) + length wire"
    using assms(2) by (simp add: sent_fec_packet_def full_packet_def rtp_size_def)
  then show ?thesis using assms by (simp add: sender_ok_def flexfec_MaxPacketOverhead_def kFlexfecMaxHeaderSize_def)
qed

lemma fec_block_bound: "length (ext_block False (byte_exts (used_extensions m (fec_extensions mid)))) \<le> 32"
proof -
  have "length (ext_mem False (byte_exts (used_extensions m (fec_extensions mid)))) \<le> 28"
    using bwe_extensions_facts(6) [of m] by (auto simp: fec_extensions_def ext_hlen_def usable_def two_byte_required_def extension_constants)
  then have "ext_words (length (ext_mem False (byte_exts (used_extensions m (fec_extensions mid))))) \<le> 7" by (intro ext_words_bounds(3)) simp
  then show ?thesis by (simp add: length_ext_block)
qed

end
