(* ===== verification/Flexfec_Receiver.thy ===== *)
theory Flexfec_Receiver
  imports Ulpfec_Receiver
begin

text \<open>
  The FlexFEC receiver (\<^verbatim>\<open>flexfec_receiver.cc\<close>): media packets and FEC packets come in separate RTP streams, told apart by their
  SSRC; only recovered packets are given to the callback. As in the ULPFEC receiver the packets given to the callback are the
  output of the model; the time of the last log line is left out.
\<close>

section \<open>The receiver\<close>

record FlexfecReceiver =
  flex_ssrc :: u32
  flex_media_ssrc :: u32
  erasure_code :: fec_codec
  flex_recovered_packets :: "RecoveredPacket list"
  flex_packet_counter :: FecPacketCounter

definition kMinFlexfecHeaderSize :: nat where "kMinFlexfecHeaderSize = 20"

definition new_FlexfecReceiver :: "u32 \<Rightarrow> u32 \<Rightarrow> FlexfecReceiver" where
  "new_FlexfecReceiver s media_ssrc =
     \<lparr>flex_ssrc = s, flex_media_ssrc = media_ssrc, erasure_code = CreateFlexfec s media_ssrc, flex_recovered_packets = [],
      flex_packet_counter = \<lparr>num_packets = 0, num_bytes = 0, num_fec_packets = 0, num_recovered_packets = 0, first_packet_time = None\<rparr>\<rparr>"

definition flex_GetPacketCounter :: "FlexfecReceiver \<Rightarrow> FecPacketCounter" where
  "flex_GetPacketCounter r = flex_packet_counter r"

text \<open>A received packet is returned together with its extension map.\<close>

definition AddReceivedPacket ::
    "bool \<Rightarrow> RtpPacketReceived \<Rightarrow> FlexfecReceiver \<Rightarrow> ((ReceivedPacket \<times> RtpHeaderExtensionMap) option \<times> FlexfecReceiver) res" where
  "AddReceivedPacket dchecks p r =
     RTC_DCHECK dchecks (rtp_size p \<ge> kRtpHeaderSize) ''packet.size() >= kRtpHeaderSize''
       (let cnt = flex_packet_counter r; fec = (rtp_ssrc p = flex_ssrc r);
            received = (\<lambda>data. (\<lparr>ssrc = rtp_ssrc p, seq_num = rtp_sequence_number p, is_fec = fec, received_pkt = data\<rparr>, rtp_extensions p))
        in if fec then
             if rtp_payload_size p < kMinFlexfecHeaderSize then Inr (None, r)
             else
               bind_res (Slice dchecks (rtp_payload_offset p) (rtp_payload_size p) (rtp_buffer p)) (\<lambda>data.
                 Inr (Some (received data), r\<lparr>flex_packet_counter :=
                   cnt\<lparr>num_fec_packets := num_fec_packets cnt + 1, num_packets := num_packets cnt + 1\<rparr>\<rparr>))
           else if rtp_ssrc p \<noteq> flex_media_ssrc r then Inr (None, r)
           else
             bind_res (ZeroMutableExtensions dchecks p) (\<lambda>packet_copy.
               Inr (Some (received (rtp_buffer packet_copy)), r\<lparr>flex_packet_counter := cnt\<lparr>num_packets := num_packets cnt + 1\<rparr>\<rparr>)))"

fun flex_return_recovered ::
    "bool \<Rightarrow> RtpHeaderExtensionMap \<Rightarrow> RecoveredPacket list \<Rightarrow> (RecoveredPacket list \<times> RtpPacketReceived list \<times> nat) res" where
  "flex_return_recovered dchecks exts [] = Inr ([], [], 0)"
| "flex_return_recovered dchecks exts (p # ps) =
     (if returned p then
        bind_res (flex_return_recovered dchecks exts ps) (\<lambda>(rs, out, n). Inr (p # rs, out, n))
      else
        RTC_CHECK (buffer_size (recovered_pkt p) \<ge> kRtpHeaderSize) ''recovered_packet->pkt->data.size() >= kRtpHeaderSize''
          (bind_res (new_RtpPacketReceived dchecks (Some exts)) (\<lambda>p0.
           bind_res (rtp_Parse dchecks (recovered_pkt p) p0) (\<lambda>(ok, rtp).
           bind_res (flex_return_recovered dchecks exts ps) (\<lambda>(rs, out, n).
             Inr (p\<lparr>returned := True\<rparr> # rs, (if ok then [rtp\<lparr>rtp_recovered := True\<rparr>] else []) @ out, Suc n))))))"

definition ProcessReceivedPacket ::
    "bool \<Rightarrow> ReceivedPacket \<times> RtpHeaderExtensionMap \<Rightarrow> FlexfecReceiver \<Rightarrow> (RtpPacketReceived list \<times> FlexfecReceiver) res" where
  "ProcessReceivedPacket dchecks received r =
     bind_res (DecodeFec dchecks (fst received) (flex_recovered_packets r) (erasure_code r)) (\<lambda>(num, rs, fec).
       let r1 = r\<lparr>flex_recovered_packets := rs, erasure_code := fec\<rparr> in
       if num = 0 then Inr ([], r1)
       else
         bind_res (flex_return_recovered dchecks (snd received) rs) (\<lambda>(rs', out, n).
           let cnt = flex_packet_counter r1 in
           Inr (out, r1\<lparr>flex_recovered_packets := rs',
                        flex_packet_counter := cnt\<lparr>num_recovered_packets := num_recovered_packets cnt + n\<rparr>\<rparr>)))"

definition OnRtpPacket :: "bool \<Rightarrow> RtpPacketReceived \<Rightarrow> FlexfecReceiver \<Rightarrow> (RtpPacketReceived list \<times> FlexfecReceiver) res" where
  "OnRtpPacket dchecks p r =
     (if rtp_recovered p then Inr ([], r)
      else
        bind_res (AddReceivedPacket dchecks p r) (\<lambda>(received, r1).
          case received of None \<Rightarrow> Inr ([], r1) | Some x \<Rightarrow> ProcessReceivedPacket dchecks x r1))"

section \<open>The invariant\<close>

definition flex_ok :: "FlexfecReceiver \<Rightarrow> bool" where
  "flex_ok r \<longleftrightarrow> decoder_ok Flexfec03HeaderReader (erasure_code r) (flex_recovered_packets r) \<and>
     codec_ssrc (erasure_code r) = flex_ssrc r \<and> protected_media_ssrc (erasure_code r) = flex_media_ssrc r \<and>
     num_fec_packets (flex_packet_counter r) \<le> num_packets (flex_packet_counter r)"

lemma flex_ok_new: "flex_ok (new_FlexfecReceiver s media_ssrc)"
  by (simp add: flex_ok_def new_FlexfecReceiver_def decoder_ok_def CreateFlexfec_def new_ForwardErrorCorrection_def)

lemma Slice_payload:
  assumes "rtp_holds bytes p"
  shows "Slice dchecks (rtp_payload_offset p) (rtp_payload_size p) (rtp_buffer p) =
    Inr \<lparr>cow_data = mem_of (take (rtp_payload_size p) (drop (rtp_payload_offset p) bytes)), cow_capacity = cow_capacity (rtp_buffer p) - rtp_payload_offset p\<rparr>"
proof -
  have "rtp_payload_offset p + rtp_payload_size p \<le> length bytes" "cow_data (rtp_buffer p) = mem_of bytes"
    using assms by (auto simp: rtp_holds_def rtp_layout_def rtp_size_def)
  then show ?thesis by (simp add: Slice_def mem_load_nat)
qed

lemma AddReceivedPacket_ok:
  assumes p: "rtp_holds bytes p" "length bytes \<le> 1500" and r: "flex_ok r"
  shows "\<exists>x r'. AddReceivedPacket dchecks p r = Inr (x, r') \<and> flex_ok r' \<and> (\<forall>y. x = Some y \<longrightarrow> good_received (erasure_code r') (fst y))"
proof -
  have size: "12 \<le> rtp_size p" and len: "12 \<le> length bytes" using p(1) by (auto simp: rtp_holds_def rtp_layout_def rtp_size_def)
  consider "rtp_ssrc p = flex_ssrc r" "rtp_payload_size p < 20" | "rtp_ssrc p = flex_ssrc r" "20 \<le> rtp_payload_size p"
    | "rtp_ssrc p \<noteq> flex_ssrc r" "rtp_ssrc p \<noteq> flex_media_ssrc r" | "rtp_ssrc p \<noteq> flex_ssrc r" "rtp_ssrc p = flex_media_ssrc r" by linarith
  then show ?thesis
    using p(2) r size len
    by cases (auto simp: AddReceivedPacket_def kRtpHeaderSize_def kMinFlexfecHeaderSize_def Let_def Slice_payload [OF p(1)]
        ZeroMutableExtensions_ok [OF p(1)] flex_ok_def good_received_def good_packet_def)
qed

lemma flex_return_recovered_eq:
  "list_all (good_recovered s) ps \<Longrightarrow> flex_return_recovered dchecks exts ps = return_recovered dchecks (Some exts) ps"
proof (induction ps)
  case (Cons p ps)
  then have "kRtpHeaderSize \<le> buffer_size (recovered_pkt p)" by (auto simp: good_recovered_def good_packet_def kRtpHeaderSize_def)
  then show ?case using Cons by (simp add: RTC_CHECK_def)
qed simp

lemma ProcessReceivedPacket_ok:
  assumes r: "flex_ok r" and x: "good_received (erasure_code r) (fst x)"
  shows "\<exists>out r'. ProcessReceivedPacket dchecks x r = Inr (out, r') \<and> flex_ok r' \<and> (\<forall>p \<in> set out. delivered_ok p \<and> rtp_recovered p)"
proof -
  from flexfec.DecodeFec_ok [OF _ x, of "flex_recovered_packets r" dchecks] r obtain num rs fs where
    d: "DecodeFec dchecks (fst x) (flex_recovered_packets r) (erasure_code r) = Inr (num, rs, (erasure_code r)\<lparr>received_fec_packets := fs\<rparr>)"
      "decoder_ok Flexfec03HeaderReader ((erasure_code r)\<lparr>received_fec_packets := fs\<rparr>) rs"
    unfolding flex_ok_def by blast
  have g: "list_all (good_recovered (flex_media_ssrc r)) rs" using d(2) r by (auto simp: decoder_ok_def flex_ok_def)
  from return_recovered_ok [OF g, of dchecks "Some (snd x)"] obtain out n where
    e: "flex_return_recovered dchecks (snd x) rs = Inr (map (\<lambda>p. p\<lparr>returned := True\<rparr>) rs, out, n)"
      "list_all (\<lambda>p. delivered_ok p \<and> rtp_recovered p) out"
    unfolding flex_return_recovered_eq [OF g] by blast
  have "decoder_ok Flexfec03HeaderReader ((erasure_code r)\<lparr>received_fec_packets := fs\<rparr>) (map (\<lambda>p. p\<lparr>returned := True\<rparr>) rs)"
    using d(2) by (auto simp: decoder_ok_def list_all_iff good_recovered_def)
  then show ?thesis
    using d e r unfolding ProcessReceivedPacket_def d(1) bind_res.simps prod.case Let_def
    by (cases "num = 0") (auto simp: flex_ok_def list_all_iff)
qed

lemma OnRtpPacket_ok:
  assumes "rtp_holds bytes p" "length bytes \<le> 1500" "flex_ok r"
  shows "\<exists>out r'. OnRtpPacket dchecks p r = Inr (out, r') \<and> flex_ok r' \<and> (\<forall>p \<in> set out. delivered_ok p \<and> rtp_recovered p)"
proof (cases "rtp_recovered p")
  case False
  from AddReceivedPacket_ok [OF assms, of dchecks] obtain x r1 where
    1: "AddReceivedPacket dchecks p r = Inr (x, r1)" "flex_ok r1" "\<forall>y. x = Some y \<longrightarrow> good_received (erasure_code r1) (fst y)" by blast
  show ?thesis
  proof (cases x)
    case (Some y)
    then show ?thesis using ProcessReceivedPacket_ok [OF 1(2), of y dchecks] 1 False by (auto simp: OnRtpPacket_def)
  qed (use 1 False in \<open>simp add: OnRtpPacket_def\<close>)
qed (use assms in \<open>simp add: OnRtpPacket_def\<close>)

section \<open>Any datagrams\<close>

definition flex_receive ::
    "bool \<Rightarrow> RtpHeaderExtensionMap option \<Rightarrow> u8 list \<Rightarrow> FlexfecReceiver \<Rightarrow> (RtpPacketReceived list \<times> FlexfecReceiver) res" where
  "flex_receive dchecks exts d r =
     bind_res (new_RtpPacketReceived dchecks exts) (\<lambda>p0.
     bind_res (rtp_Parse dchecks (buffer_of d) p0) (\<lambda>(ok, p). if ok then OnRtpPacket dchecks p r else Inr ([], r)))"

fun flex_receive_all ::
    "bool \<Rightarrow> RtpHeaderExtensionMap option \<Rightarrow> u8 list list \<Rightarrow> FlexfecReceiver \<Rightarrow> (RtpPacketReceived list \<times> FlexfecReceiver) res" where
  "flex_receive_all dchecks exts [] r = Inr ([], r)"
| "flex_receive_all dchecks exts (d # ds) r =
     bind_res (flex_receive dchecks exts d r) (\<lambda>(out, r').
     bind_res (flex_receive_all dchecks exts ds r') (\<lambda>(out', r''). Inr (out @ out', r'')))"

lemma flex_receive_ok:
  assumes "flex_ok r" "length d \<le> 1500"
  shows "\<exists>out r'. flex_receive dchecks exts d r = Inr (out, r') \<and> flex_ok r' \<and> (\<forall>p \<in> set out. delivered_ok p \<and> rtp_recovered p)"
proof -
  have "cow_data (buffer_of d) = mem_of d" by (simp add: buffer_of_def)
  from parse_received_ok [OF this, of dchecks exts] obtain p0 p where
    p: "new_RtpPacketReceived dchecks exts = Inr p0" "rtp_Parse dchecks (buffer_of d) p0 = Inr (valid_rtp d, p)"
      "if valid_rtp d then rtp_parsed (buffer_of d) d p else rtp_holds cleared p" by blast
  show ?thesis
  proof (cases "valid_rtp d")
    case True
    then have "rtp_holds d p" using p(3) by (simp add: rtp_parsed_def)
    from OnRtpPacket_ok [OF this assms(2,1), of dchecks] show ?thesis using p True by (auto simp: flex_receive_def)
  qed (use p assms in \<open>simp add: flex_receive_def\<close>)
qed

lemma flex_receive_all_ok:
  "flex_ok r \<Longrightarrow> \<forall>d \<in> set ds. length d \<le> 1500 \<Longrightarrow>
   \<exists>out r'. flex_receive_all dchecks exts ds r = Inr (out, r') \<and> flex_ok r' \<and> (\<forall>p \<in> set out. delivered_ok p \<and> rtp_recovered p)"
proof (induction ds arbitrary: r)
  case (Cons d ds)
  from flex_receive_ok [OF Cons.prems(1), of d dchecks exts] Cons.prems(2) obtain out r1 where
    1: "flex_receive dchecks exts d r = Inr (out, r1)" "flex_ok r1" "\<forall>p \<in> set out. delivered_ok p \<and> rtp_recovered p" by auto
  from Cons.IH [OF 1(2)] Cons.prems(2) show ?case using 1 by fastforce
qed simp

text \<open>
  Claim C38. Whatever datagrams of at most 1500 bytes arrive, the FlexFEC receiver never reads or writes outside a
  buffer and fails no check, keeps at most 192 media and 48 FEC packets, and gives the callback only valid RTP packets that were
  recovered.
\<close>

theorem flexfec_receiver_safe:
  assumes "\<forall>d \<in> set datagrams. length d \<le> 1500"
  shows "\<exists>out r. flex_receive_all dchecks exts datagrams (new_FlexfecReceiver s media_ssrc) = Inr (out, r) \<and>
    length (flex_recovered_packets r) \<le> 192 \<and> length (received_fec_packets (erasure_code r)) \<le> 48 \<and>
    num_fec_packets (flex_packet_counter r) \<le> num_packets (flex_packet_counter r) \<and> (\<forall>p \<in> set out. delivered_ok p \<and> rtp_recovered p)"
  using flex_receive_all_ok [OF flex_ok_new assms, of dchecks exts s media_ssrc] by (auto simp: flex_ok_def decoder_ok_def)

theorem flexfec_receiver_safe_witness:
  "\<exists>out r. flex_receive_all True None [[0x80, 98], 0xB0 # replicate 40 0xff, [0x80, 98, 0, 1, 0, 0, 0, 0, 0, 0, 0, 7, 97, 0xff]]
       (new_FlexfecReceiver 9 7) = Inr (out, r) \<and> length (flex_recovered_packets r) \<le> 192"
proof -
  have "\<forall>d \<in> set [[0x80, 98], 0xB0 # replicate 40 0xff, [0x80, 98, 0, 1, 0, 0, 0, 0, 0, 0, 0, 7, 97, 0xff]]. length (d :: u8 list) \<le> 1500"
    by simp
  from flexfec_receiver_safe [OF this] show ?thesis by blast
qed

end
