(* ===== verification/Flexfec_Transport.thy ===== *)
theory Flexfec_Transport
  imports Flexfec_Sender Flexfec_Receiver Ulpfec_Transport
begin

text \<open>
  The FlexFEC sender and receiver together: a frame goes through the sender, media and FEC packets travel in two RTP streams, and
  the receiver gives a lost packet to its callback.
\<close>

section \<open>Arrivals\<close>

text \<open>A receiver that has got the packets \<open>js\<close> of a group, whose zeroed bytes are \<open>media\<close>, and no FEC packet.\<close>

definition flex_holding :: "u32 \<Rightarrow> u32 \<Rightarrow> u16 \<Rightarrow> (nat \<Rightarrow> nat) \<Rightarrow> u8 list list \<Rightarrow> nat list \<Rightarrow> FlexfecReceiver \<Rightarrow> bool" where
  "flex_holding fs s s0 d media js r \<longleftrightarrow> flex_ssrc r = fs \<and> flex_media_ssrc r = s \<and> erasure_code r = CreateFlexfec fs s \<and>
     flex_recovered_packets r = map (media_kept s s0 d media) (sort js) \<and> num_recovered_packets (flex_packet_counter r) = 0"

lemma flexfec_codec_simps [simp]:
  "received_fec_packets (CreateFlexfec fs s) = []" "protected_media_ssrc (CreateFlexfec fs s) = s" "codec_ssrc (CreateFlexfec fs s) = fs"
  "fec_header_reader (CreateFlexfec fs s) = Flexfec03HeaderReader" "reader_MaxMediaPackets Flexfec03HeaderReader = 192"
  by (simp_all add: CreateFlexfec_def new_ForwardErrorCorrection_def Flexfec03HeaderReader_def header_constants)

lemma flex_receive_media:
  assumes num: "numbered s0 d media" "n = length media" "n \<le> 48" and fs: "fs \<noteq> s"
    and js: "distinct (j # js)" "\<forall>i \<in> set (j # js). i < n"
    and b: "changed_to dchecks (extension_map exts) (media ! j) b" "rtp_packet (s0 + of_nat (d j)) s b"
    and r: "flex_holding fs s s0 d media js r"
  shows "\<exists>r'. flex_receive dchecks exts b r = Inr ([], r') \<and> flex_holding fs s s0 d media (js @ [j]) r'"
proof -
  let ?E = "extension_map exts"
  have b1: "plain_rtp b" "media ! j = zeroed_at (mutable_positions dchecks ?E b) b" using b(1) by (simp_all add: changed_to_def)
  have "cow_data (buffer_of b) = mem_of b" "take 4 (drop 8 b) = WriteBigEndian 4 s" "take 2 (drop 2 b) = WriteBigEndian 2 (s0 + of_nat (d j))"
    using b(2) by (simp_all add: buffer_of_def rtp_packet_def)
  from parse_plain [OF b1(1) this, of dchecks exts] obtain p0 p where
    p: "new_RtpPacketReceived dchecks exts = Inr p0" "rtp_Parse dchecks (buffer_of b) p0 = Inr (True, p)" "\<not> rtp_recovered p"
      "rtp_extensions p = ?E" "rtp_holds b p" "rtp_buffer p = buffer_of b" "rtp_ssrc p = s" "rtp_sequence_number p = s0 + of_nat (d j)" by blast
  have "new_RtpPacketReceived dchecks (Some ?E) = Inr p0" using p(1) by (simp add: new_RtpPacketReceived_def extension_map_def)
  then have mut: "packet_mutable_bytes p = mutable_positions dchecks ?E b" by (simp add: mutable_positions_def p(2))
  let ?p = "with_bytes (media ! j) p"
  have zero: "ZeroMutableExtensions dchecks p = Inr ?p" using ZeroMutableExtensions_ok [OF p(5)] b1(2) mut by simp
  have buf: "rtp_buffer ?p = buffer_of (media ! j)" using p(6) b1(2) by (simp add: with_bytes_def buffer_of_def)
  from r have r': "flex_ssrc r = fs" "flex_media_ssrc r = s" "erasure_code r = CreateFlexfec fs s"
    "flex_recovered_packets r = map (media_kept s s0 d media) (sort js)" "num_recovered_packets (flex_packet_counter r) = 0"
    by (auto simp: flex_holding_def)
  have size: "kRtpHeaderSize \<le> rtp_size p" using p(5) by (auto simp: rtp_holds_def rtp_layout_def rtp_size_def kRtpHeaderSize_def)
  let ?cnt = "(flex_packet_counter r)\<lparr>num_packets := num_packets (flex_packet_counter r) + 1\<rparr>"
  have add: "AddReceivedPacket dchecks p r = Inr (Some (media_arrival s s0 d media j, ?E), r\<lparr>flex_packet_counter := ?cnt\<rparr>)"
    using size p r' fs zero buf by (simp add: AddReceivedPacket_def Let_def media_arrival_def)
  have dec: "DecodeFec dchecks (media_arrival s s0 d media j) (map (media_kept s s0 d media) (sort js)) (CreateFlexfec fs s) =
      Inr (0, map (media_kept s s0 d media) (sort (js @ [j])), CreateFlexfec fs s)"
    by (rule DecodeFec_media [OF num _ _ _ js]) simp_all
  have "flex_receive dchecks exts b r = Inr ([], r\<lparr>flex_packet_counter := ?cnt, flex_recovered_packets := map (media_kept s s0 d media) (sort (js @ [j])),
      erasure_code := CreateFlexfec fs s\<rparr>)"
    using p(1-3) add dec r' by (simp add: flex_receive_def OnRtpPacket_def ProcessReceivedPacket_def Let_def)
  then show ?thesis using r' by (simp add: flex_holding_def)
qed

lemma flex_receive_all_append:
  "flex_receive_all dchecks exts (xs @ ys) r =
     bind_res (flex_receive_all dchecks exts xs r) (\<lambda>(out, r'). bind_res (flex_receive_all dchecks exts ys r') (\<lambda>(out', r''). Inr (out @ out', r'')))"
proof (induction xs arbitrary: r)
  case Nil
  then show ?case by (cases "flex_receive_all dchecks exts ys r") auto
next
  case (Cons x xs)
  then show ?case by (cases "flex_receive dchecks exts x r"; simp add: bind_res_assoc split_def)
qed

lemma flex_receive_media_all:
  assumes num: "numbered s0 d media" "n = length media" "n \<le> 48" and fs: "fs \<noteq> s"
    and b: "\<And>j. j < n \<Longrightarrow> changed_to dchecks (extension_map exts) (media ! j) (sent ! j) \<and> rtp_packet (s0 + of_nat (d j)) s (sent ! j)"
    and r: "flex_holding fs s s0 d media [] r"
  shows "distinct js \<Longrightarrow> \<forall>i \<in> set js. i < n \<Longrightarrow>
    \<exists>r'. flex_receive_all dchecks exts (map ((!) sent) js) r = Inr ([], r') \<and> flex_holding fs s s0 d media js r'"
proof (induction js rule: rev_induct)
  case (snoc j js)
  then obtain r1 where 1: "flex_receive_all dchecks exts (map ((!) sent) js) r = Inr ([], r1)" "flex_holding fs s s0 d media js r1" by auto
  have j: "distinct (j # js)" "\<forall>i \<in> set (j # js). i < n" "j < n" using snoc.prems by auto
  from flex_receive_media [OF num fs j(1,2) _ _ 1(2), of dchecks exts "sent ! j"] b [OF j(3)] obtain r2 where
    "flex_receive dchecks exts (sent ! j) r1 = Inr ([], r2)" "flex_holding fs s s0 d media (js @ [j]) r2" by blast
  then show ?case using 1 by (auto simp: flex_receive_all_append)
qed (use r in simp)

text \<open>A FlexFEC packet that can be read has at least the 20 bytes the receiver asks for.\<close>

lemma flexfec_wire_length:
  assumes "reads_as_row Flexfec03HeaderReader dchecks fs s s0 d media m ty r wire"
  shows "20 \<le> length wire"
proof -
  define p where "p = \<lparr>ssrc = fs, seq_num = 0, protected_packets = [], protected_streams = [], fec_header_size = 0, protection_length = 0,
    fec_pkt = buffer_of wire\<rparr>"
  have "cow_data (fec_pkt p) = mem_of wire" "ssrc p = fs" by (simp_all add: p_def buffer_of_def)
  with assms obtain f where "Flexfec_ReadFecHeader dchecks p = Inr (Some f)" unfolding reads_as_row_def by (auto simp: Flexfec03HeaderReader_def)
  then show ?thesis
    unfolding Flexfec_ReadFecHeader_def by (auto simp: Let_def bind_res_Inr_iff p_def buffer_of_def header_constants kHeaderSizes_def split: if_splits)
qed

lemma flex_receive_fec:
  fixes sn :: u16
  assumes num: "numbered s0 d media" "n = length media" "n \<le> 48" and media: "rtp_group s s0 d media" and l: "plain_rtp (media ! l)"
    and y: "plain_rtp y" "take 4 (drop 8 y) = WriteBigEndian 4 fs" "drop (header_end y) y = wire" "take 2 (drop 2 y) = WriteBigEndian 2 sn"
    and r: "flex_holding fs s s0 d media js r" and read: "reads_as_row Flexfec03HeaderReader dchecks fs s s0 d media m ty row wire"
    and ks: "ks = filter (protects (encoder_mask (picked_type ty n) n m 0 False) (mask_width n) row) [0..<n]" "l \<in> set ks"
    and js: "distinct (l # js)" "\<forall>j \<in> set js. j < n" "set ks \<subseteq> set (l # js)"
  shows "\<exists>p r'. flex_receive dchecks exts y r = Inr ([p], r') \<and> cow_data (rtp_buffer p) = mem_of (media ! l) \<and> rtp_recovered p \<and>
    num_recovered_packets (flex_packet_counter r') = 1"
proof -
  from r have r': "flex_ssrc r = fs" "flex_media_ssrc r = s" "erasure_code r = CreateFlexfec fs s"
    "flex_recovered_packets r = map (media_kept s s0 d media) (sort js)" "num_recovered_packets (flex_packet_counter r) = 0"
    by (auto simp: flex_holding_def)
  let ?E = "extension_map exts" and ?R = "(media_kept s s0 d media)(l := media_restored s s0 d media l)"
  let ?rs = "map ?R (sort (js @ [l]))"
  from parse_plain [OF y(1) _ y(2,4), of "buffer_of y" dchecks exts] obtain p0 p where
    p: "new_RtpPacketReceived dchecks exts = Inr p0" "rtp_Parse dchecks (buffer_of y) p0 = Inr (True, p)" "\<not> rtp_recovered p"
      "rtp_extensions p = ?E" "rtp_holds y p" "rtp_payload_offset p = header_end y" "rtp_payload_size p = length y - header_end y"
      "rtp_ssrc p = fs" "rtp_sequence_number p = sn" by (auto simp: buffer_of_def)
  have len: "rtp_payload_size p = length wire" using p(7) y(3) by auto
  have size: "kRtpHeaderSize \<le> rtp_size p" using p(5) by (auto simp: rtp_holds_def rtp_layout_def rtp_size_def kRtpHeaderSize_def)
  obtain cap where slice: "Slice dchecks (rtp_payload_offset p) (rtp_payload_size p) (rtp_buffer p) = Inr \<lparr>cow_data = mem_of wire, cow_capacity = cap\<rparr>"
    using Slice_payload [OF p(5), of dchecks] len p(6) y(3) by simp
  define q :: ReceivedPacket where "q = \<lparr>ssrc = fs, seq_num = sn, is_fec = True, received_pkt = \<lparr>cow_data = mem_of wire, cow_capacity = cap\<rparr>\<rparr>"
  let ?cnt = "(flex_packet_counter r)\<lparr>num_fec_packets := num_fec_packets (flex_packet_counter r) + 1, num_packets := num_packets (flex_packet_counter r) + 1\<rparr>"
  have add: "AddReceivedPacket dchecks p r = Inr (Some (q, ?E), r\<lparr>flex_packet_counter := ?cnt\<rparr>)"
    using size p r' slice flexfec_wire_length [OF read] len by (simp add: AddReceivedPacket_def Let_def q_def kMinFlexfecHeaderSize_def)
  have sel: "selected (encoder_mask (picked_type ty n) n m 0 False) row s0 d media = map (\<lambda>j. (s0 + of_nat (d j), media ! j)) ks"
    using num(2) by (simp add: selected_def ks(1))
  have dec: "DecodeFec dchecks q (map (media_kept s s0 d media) (sort js)) (CreateFlexfec fs s) = Inr (1, ?rs, CreateFlexfec fs s)"
  proof (rule flexfec.DecodeFec_restores [OF num media _ _ _ _ _ _ , where ks = ks and wire = wire])
    show "decoder_ok Flexfec03HeaderReader (CreateFlexfec fs s) []" by (simp add: decoder_ok_def)
    show "\<exists>f. ReadFecHeader Flexfec03HeaderReader dchecks p = Inr (Some f) \<and> fec_packet_for s (map (\<lambda>j. (s0 + of_nat (d j), media ! j)) ks) f"
      if "cow_data (fec_pkt p) = mem_of wire" "ssrc p = ssrc q" for p
      using read that sel num(2) unfolding reads_as_row_def by (simp add: q_def)
  qed (use ks js in \<open>auto simp: sorted_wrt_filter q_def\<close>)
  have jl: "\<forall>j \<in> set (sort (js @ [l])). j < length media" using js(2) ks num(2) by auto
  have "good_recovered s (?R j)" if "j < length media" for j
    using media that by (auto simp: good_recovered_def media_kept_def media_restored_def good_packet_def rtp_group_def rtp_packet_def buffer_of_def)
  then have good: "list_all (good_recovered s) ?rs" using jl by (simp add: list_all_iff del: fun_upd_apply)
  have "l < length media" using ks num(2) by auto
  then have "rtp_packet (s0 + of_nat (d l)) s (media ! l)" using media by (simp add: rtp_group_def)
  then have "cow_data (recovered_pkt (?R l)) = mem_of (media ! l)" "take 4 (drop 8 (media ! l)) = WriteBigEndian 4 s"
      "take 2 (drop 2 (media ! l)) = WriteBigEndian 2 (s0 + of_nat (d l))"
    by (simp_all add: media_restored_def rtp_packet_def)
  from parse_plain [OF l this, of dchecks "Some ?E"] obtain z0 z where
    z: "new_RtpPacketReceived dchecks (Some ?E) = Inr z0" "rtp_Parse dchecks (recovered_pkt (?R l)) z0 = Inr (True, z)" "rtp_holds (media ! l) z" by blast
  obtain xs ys where xy: "sort (js @ [l]) = xs @ l # ys" by (metis in_set_conv_decomp set_sort in_set_conv_decomp_first)
  have "distinct (sort (js @ [l]))" using js(1) by simp
  then have "distinct (xs @ l # ys)" unfolding xy .
  then have "return_recovered dchecks (Some ?E) ?rs =
      Inr (map ?R xs @ (?R l)\<lparr>returned := True\<rparr> # map ?R ys, [z\<lparr>rtp_recovered := True\<rparr>], 1)"
    unfolding xy list.map map_append using z(1,2)
    by (intro return_one) (auto simp: media_kept_def media_restored_def)
  then have ret: "flex_return_recovered dchecks ?E ?rs = Inr (map ?R xs @ (?R l)\<lparr>returned := True\<rparr> # map ?R ys, [z\<lparr>rtp_recovered := True\<rparr>], 1)"
    by (simp only: flex_return_recovered_eq [OF good])
  have "\<exists>r2. flex_receive dchecks exts y r = Inr ([z\<lparr>rtp_recovered := True\<rparr>], r2) \<and> num_recovered_packets (flex_packet_counter r2) = 1"
    using p(1-3) add r' by (simp add: flex_receive_def OnRtpPacket_def ProcessReceivedPacket_def dec ret Let_def del: fun_upd_apply)
  moreover have "cow_data (rtp_buffer (z\<lparr>rtp_recovered := True\<rparr>)) = mem_of (media ! l)" using z(3) by (simp add: rtp_holds_def)
  ultimately show ?thesis by (intro exI [of _ "z\<lparr>rtp_recovered := True\<rparr>"]) auto
qed

section \<open>FEC packets on the way\<close>

lemma sent_fec_bytes:
  assumes "sent_fec_packet s sn ms wire p" "length wire \<le> 1500"
  shows "\<exists>y. cow_data (rtp_buffer p) = mem_of y \<and> plain_rtp y \<and> csrc_end y = 12 \<and> take 4 (drop 8 y) = WriteBigEndian 4 (flexfec_ssrc s) \<and>
    take 2 (drop 2 y) = WriteBigEndian 2 sn \<and> drop (header_end y) y = wire"
proof -
  define es where "es = used_extensions (rtp_header_extension_map s) (fec_extensions (flexfec_mid s))"
  obtain blk where blk: "mem_of blk = ext_block False (byte_exts es)" using ext_block_bytes by blast
  have bl: "length blk \<le> 32" using arg_cong [OF blk, of length] fec_block_bound [of "rtp_header_extension_map s" "flexfec_mid s"] by (simp add: es_def)
  let ?h = "rtp_header False (es \<noteq> []) False (word_of_int (flexfec_payload_type s)) sn (timestamp_offset s + word_of_int (90 * ms)) (flexfec_ssrc s) []"
  define y where "y = ?h @ blk @ wire"
  have y': "y = rtp_header (0 < (0 :: nat)) (es \<noteq> []) False (word_of_int (flexfec_payload_type s)) sn (timestamp_offset s + word_of_int (90 * ms)) (flexfec_ssrc s) [] @
      blk @ wire @ padding 0" by (simp add: y_def padding_def)
  have "length y < 2 ^ 16" using bl assms(2) by (simp add: y_def)
  then have v: "valid_rtp y" "header_end y = 12 + length blk" "csrc_end y = 12"
    using full_packet_valid [OF blk, of 0 "[]" False "word_of_int (flexfec_payload_type s)" sn "timestamp_offset s + word_of_int (90 * ms)" "flexfec_ssrc s" wire]
    unfolding y' by simp_all
  have "cow_data (rtp_buffer p) = mem_of y" using assms(1) by (simp add: sent_fec_packet_def full_packet_def y_def blk es_def padding_def)
  moreover have "plain_rtp y" using v(1) first_byte(6) [of 0 False "es \<noteq> []"] by (simp add: plain_rtp_def y_def nth_append)
  moreover have "take 4 (drop 8 y) = WriteBigEndian 4 (flexfec_ssrc s)" "take 2 (drop 2 y) = WriteBigEndian 2 sn"
    by (simp_all add: y_def rtp_header_def)
  moreover have "drop (header_end y) y = wire" unfolding v(2) by (simp add: y_def)
  ultimately show ?thesis using v(3) by blast
qed

text \<open>When a packet leaves, the values of its header extensions are written; the rest stays as it is.\<close>

definition same_outside_extensions :: "u8 list \<Rightarrow> u8 list \<Rightarrow> bool" where
  "same_outside_extensions y y' \<longleftrightarrow> length y' = length y \<and> (\<forall>i < length y. i < 16 \<or> header_end y \<le> i \<longrightarrow> y' ! i = y ! i)"

lemma same_outside_extensions_plain:
  assumes y: "plain_rtp y" "csrc_end y = 12" and same: "same_outside_extensions y y'"
  shows "plain_rtp y'" "header_end y' = header_end y" "take 12 y' = take 12 y" "drop (header_end y) y' = drop (header_end y) y"
proof -
  have v: "12 \<le> header_end y" "header_end y \<le> length y" "drop_bit 6 (y ! 0) = 2" "bit (y ! 0) 4 \<longrightarrow> 16 \<le> header_end y" "\<not> bit (y ! 0) 5"
    using y header_end_12 [of y] by (auto simp: plain_rtp_def valid_rtp_def header_end_def)
  have len: "length y' = length y" and eq: "\<And>i. i < length y \<Longrightarrow> i < 16 \<or> header_end y \<le> i \<Longrightarrow> y' ! i = y ! i"
    using same by (auto simp: same_outside_extensions_def)
  show t: "take 12 y' = take 12 y" using len eq v by (intro nth_equalityI) auto
  show "drop (header_end y) y' = drop (header_end y) y" using len eq by (intro nth_equalityI) auto
  have y0: "y' ! 0 = y ! 0" using v by (intro eq) linarith+
  then have c: "csrc_end y' = csrc_end y" by (simp add: csrc_end_def)
  have "take 2 (drop 14 y') = take 2 (drop 14 y)" if "bit (y ! 0) 4"
    using len eq v that by (intro nth_equalityI) auto
  then show h: "header_end y' = header_end y" using y0 c y(2) by (auto simp: header_end_def extension_words_def)
  show "plain_rtp y'" using v h c y y0 len by (auto simp: plain_rtp_def valid_rtp_def padding_length_def)
qed

section \<open>A lost packet\<close>

lemma flexfec_transported:
  assumes s: "sender_ready s" and g: "g = apply_pending (ulpfec_generator s)" "flexfec_ssrc s \<noteq> flexfec_media_ssrc s"
    and ps: "frame_of media ps" "n = length media" "n \<le> 48" "\<forall>p \<in> set ps. rtp_ssrc p = flexfec_media_ssrc s"
    and num: "numbered s0 d media" and grp: "rtp_group (flexfec_media_ssrc s) s0 d media" and ss: "ParseSsrc (hd media) = Inr (flexfec_media_ssrc s)"
    and prm: "prm = params_for g ps" "0 < fec_rate prm" "fec_rate prm \<le> 255"
    and ends: "frame_ends_group (min_num_media_packets g) prm n" and m: "m = fec_count n (nat (fec_rate prm))"
    and sent: "\<forall>j < n. changed_to dchecks (extension_map exts) (media ! j) (sent ! j)"
    and ks: "row < m" "ks = filter (protects (encoder_mask (picked_type (fec_mask_type prm) n) n m 0 False) (mask_width n) row) [0..<n]" "l \<in> set ks"
    and js: "distinct (l # js)" "\<forall>j \<in> set js. j < n" "set ks \<subseteq> set (l # js)"
  shows "\<exists>s1 fs s2 y. flexfec_add_all dchecks ps s = Inr s1 \<and> flexfec_GetFecPackets dchecks clock now s1 = Inr (fs, s2) \<and> sender_ready s2 \<and>
    row < length fs \<and> cow_data (rtp_buffer (fs ! row)) = mem_of y \<and>
    (\<forall>y'. same_outside_extensions y y' \<longrightarrow>
      (\<exists>p r. flex_receive_all dchecks exts (map ((!) sent) js @ [y']) (new_FlexfecReceiver (flexfec_ssrc s) (flexfec_media_ssrc s)) = Inr ([p], r) \<and>
        cow_data (rtp_buffer p) = mem_of (media ! l) \<and> rtp_recovered p \<and> num_recovered_packets (flex_packet_counter r) = 1))"
proof -
  let ?fs = "flexfec_ssrc s" and ?s = "flexfec_media_ssrc s"
  have lens: "length p < 2 ^ 16" "length p \<le> 1480" if "p \<in> set media" for p
    using grp that by (force simp: rtp_group_def in_set_conv_nth)+
  from sender_frame [OF s g(1) ps num lens(1) ss prm ends m, of dchecks clock now "flexfec_ssrc s"] ks(1) obtain s1 fs s2 wire where
    G: "flexfec_add_all dchecks ps s = Inr s1" "flexfec_GetFecPackets dchecks clock now s1 = Inr (fs, s2)" "sender_ready s2" "length fs = m"
      "sent_fec_packet s (flexfec_seq_num s + of_nat row) (clock row) wire (fs ! row)"
      "reads_as_row Flexfec03HeaderReader dchecks ?fs ?s s0 d media m (fec_mask_type prm) row wire" by blast
  have "length wire \<le> 1500" using flexfec.wire_length [OF G(6), of 1480] lens(2) by simp
  from sent_fec_bytes [OF G(5) this] obtain y where
    y: "cow_data (rtp_buffer (fs ! row)) = mem_of y" "plain_rtp y" "csrc_end y = 12" "take 4 (drop 8 y) = WriteBigEndian 4 ?fs"
      "take 2 (drop 2 y) = WriteBigEndian 2 (flexfec_seq_num s + of_nat row)" "drop (header_end y) y = wire" by blast
  have r0: "flex_holding ?fs ?s s0 d media [] (new_FlexfecReceiver ?fs ?s)" by (simp add: flex_holding_def new_FlexfecReceiver_def)
  have S: "changed_to dchecks (extension_map exts) (media ! j) (sent ! j) \<and> rtp_packet (s0 + of_nat (d j)) ?s (sent ! j)" if "j < n" for j
    using sent that grp ps(2) changed_to_rtp(1) [of dchecks "extension_map exts" "media ! j" "sent ! j"] by (simp add: rtp_group_def)
  have js': "distinct js" "\<forall>i \<in> set js. i < n" using js by auto
  from flex_receive_media_all [OF num ps(2,3) g(2) S r0 js'] obtain r1 where
    R: "flex_receive_all dchecks exts (map ((!) sent) js) (new_FlexfecReceiver ?fs ?s) = Inr ([], r1)" "flex_holding ?fs ?s s0 d media js r1" by blast
  have l: "plain_rtp (media ! l)" using sent ks(2,3) by (auto simp: changed_to_def)
  have "\<exists>p r. flex_receive_all dchecks exts (map ((!) sent) js @ [y']) (new_FlexfecReceiver ?fs ?s) = Inr ([p], r) \<and>
      cow_data (rtp_buffer p) = mem_of (media ! l) \<and> rtp_recovered p \<and> num_recovered_packets (flex_packet_counter r) = 1"
    if "same_outside_extensions y y'" for y'
  proof -
    note y' = same_outside_extensions_plain [OF y(2,3) that]
    have "take 4 (drop 8 y') = take 4 (drop 8 (take 12 y'))" "take 2 (drop 2 y') = take 2 (drop 2 (take 12 y'))" by (simp_all add: drop_take)
    then have "take 4 (drop 8 y') = take 4 (drop 8 (take 12 y))" "take 2 (drop 2 y') = take 2 (drop 2 (take 12 y))" unfolding y'(3) .
    then have f: "take 4 (drop 8 y') = WriteBigEndian 4 ?fs" "take 2 (drop 2 y') = WriteBigEndian 2 (flexfec_seq_num s + of_nat row)"
      "drop (header_end y') y' = wire" using y y' by (simp_all add: drop_take)
    from flex_receive_fec [OF num ps(2,3) grp l y'(1) f(1,3,2) R(2) G(6) ks(2,3) js, of exts] obtain p r2 where
      "flex_receive dchecks exts y' r1 = Inr ([p], r2)" "cow_data (rtp_buffer p) = mem_of (media ! l)" "rtp_recovered p"
      "num_recovered_packets (flex_packet_counter r2) = 1" by blast
    then show ?thesis using R(1) by (simp add: flex_receive_all_append)
  qed
  then show ?thesis using G(1-4) ks(1) y(1) by blast
qed

text \<open>
  Claim C6. A frame is protected by FlexFEC from the sender's packets to the receiver's callback. A frame of 1 to 48 RTP packets
  with rising sequence numbers goes through a sender that is between two groups, with a protection rate above 0 that lets the
  frame end a group; the FEC packets come out in the sender's own stream and the sender is ready again. The media packets \<open>js\<close>, in any order and with
  other values of their mutable header extensions, and FEC packet \<open>row\<close>, with whatever values its header extensions are given on the
  way, reach a new receiver. If the FEC packet protects packet \<open>l\<close> and otherwise only packets that arrived, the callback gets
  packet \<open>l\<close> and nothing else, byte for byte as it was protected and marked as recovered.
\<close>

theorem flexfec_lost_packet_delivered:
  assumes "sender_ready s" "g = apply_pending (ulpfec_generator s)" "flexfec_ssrc s \<noteq> flexfec_media_ssrc s"
    and "frame_of media ps" "n = length media" "n \<le> 48" "\<forall>p \<in> set ps. rtp_ssrc p = flexfec_media_ssrc s"
    and "numbered s0 d media" "rtp_group (flexfec_media_ssrc s) s0 d media" "ParseSsrc (hd media) = Inr (flexfec_media_ssrc s)"
    and "prm = params_for g ps" "0 < fec_rate prm" "fec_rate prm \<le> 255"
    and "frame_ends_group (min_num_media_packets g) prm n" "m = fec_count n (nat (fec_rate prm))"
    and "\<forall>j < n. changed_to dchecks (extension_map exts) (media ! j) (sent ! j)"
    and "row < m" "ks = filter (protects (encoder_mask (picked_type (fec_mask_type prm) n) n m 0 False) (mask_width n) row) [0..<n]" "l \<in> set ks"
    and "distinct (l # js)" "\<forall>j \<in> set js. j < n" "set ks \<subseteq> set (l # js)"
  shows "\<exists>s1 fs s2 y. flexfec_add_all dchecks ps s = Inr s1 \<and> flexfec_GetFecPackets dchecks clock now s1 = Inr (fs, s2) \<and> sender_ready s2 \<and>
    row < length fs \<and> cow_data (rtp_buffer (fs ! row)) = mem_of y \<and>
    (\<forall>y'. same_outside_extensions y y' \<longrightarrow>
      (\<exists>p r. flex_receive_all dchecks exts (map ((!) sent) js @ [y']) (new_FlexfecReceiver (flexfec_ssrc s) (flexfec_media_ssrc s)) = Inr ([p], r) \<and>
        cow_data (rtp_buffer p) = mem_of (media ! l) \<and> rtp_recovered p \<and> num_recovered_packets (flex_packet_counter r) = 1))"
  using assms by (rule flexfec_transported)

text \<open>A frame of two packets, the second with the sequence number 1 behind 65535.\<close>

definition demo_params :: FecProtectionParams where
  "demo_params = \<lparr>fec_rate = 128, max_fec_frames = 1, fec_mask_type = kFecMaskRandom\<rparr>"

definition demo_frame :: "u8 list list" where
  "demo_frame = [[0x80, 96, 0xff, 0xff, 0, 0, 0, 1, 0, 0, 0, 7, 42], [0x80, 0xe0, 0, 1, 0, 0, 0, 1, 0, 0, 0, 7]]"

definition demo_packets :: "RtpPacketToSend list" where
  "demo_packets = [demo_packet False (demo_frame ! 0), demo_packet True (demo_frame ! 1)]"

lemma demo_frame_facts:
  "frame_of demo_frame demo_packets" "length demo_frame = 2" "\<forall>p \<in> set demo_packets. rtp_ssrc p = 7" "\<forall>p \<in> set demo_packets. \<not> is_key_frame p"
  "numbered 0xffff (\<lambda>j. 2 * j) demo_frame" "rtp_group 7 0xffff (\<lambda>j. 2 * j) demo_frame" "ParseSsrc (hd demo_frame) = Inr 7"
  "\<forall>p \<in> set demo_frame. length p \<le> 13" "\<forall>j < 2. changed_to True (extension_map None) (demo_frame ! j) (demo_frame ! j)"
proof -
  have two: "j = 0 \<or> j = 1" if "j < 2" for j :: nat using that by auto
  show "frame_of demo_frame demo_packets"
    by (simp add: frame_of_def media_packet_def rtp_holds_def rtp_layout_def rtp_size_def demo_packet_def buffer_of_def demo_packets_def demo_frame_def)
  show len: "length demo_frame = 2" by (simp add: demo_frame_def)
  show "\<forall>p \<in> set demo_packets. rtp_ssrc p = 7" "\<forall>p \<in> set demo_packets. \<not> is_key_frame p" by (simp_all add: demo_packets_def demo_packet_def)
  have "ParseSequenceNumber (demo_frame ! j) = Inr (0xffff + of_nat (2 * j))" if "j < 2" for j
    using two [OF that] by (elim disjE) (simp_all add: ParseSequenceNumber_def demo_frame_def)
  then show "numbered 0xffff (\<lambda>j. 2 * j) demo_frame" unfolding numbered_def len by simp
  have "rtp_packet (0xffff + of_nat (2 * j)) 7 (demo_frame ! j) \<and> length (demo_frame ! j) \<le> 1480" if "j < 2" for j
    using two [OF that] by (elim disjE) (simp_all add: rtp_packet_def WriteBigEndian_def upt_rec demo_frame_def)
  then show "rtp_group 7 0xffff (\<lambda>j. 2 * j) demo_frame" unfolding rtp_group_def len by blast
  show "ParseSsrc (hd demo_frame) = Inr 7" by (simp add: ParseSsrc_def demo_frame_def)
  show "\<forall>p \<in> set demo_frame. length p \<le> 13" by (simp add: demo_frame_def)
  have plain: "plain_rtp (demo_frame ! j) \<and> \<not> bit (demo_frame ! j ! 0) 4" if "j < 2" for j
    using two [OF that] by (elim disjE) (simp_all add: plain_rtp_def valid_rtp_def padding_length_def header_end_def csrc_end_def demo_frame_def)
  then show "\<forall>j < 2. changed_to True (extension_map None) (demo_frame ! j) (demo_frame ! j)"
    using no_mutable_positions by (simp add: changed_to_def plain_rtp_def)
qed

theorem flexfec_lost_packet_delivered_witness:
  "\<exists>s s' s1 fs s2 y p r. new_FlexfecSender True 5 6 99 9 7 [65, 66] [(3, ''urn:ietf:params:rtp-hdrext:sdes:mid'')]
      kFecOrPaddingExtensionSizes None = Inr s \<and> flexfec_SetProtectionParameters True demo_params demo_params s = Inr s' \<and>
    flexfec_add_all True demo_packets s' = Inr s1 \<and> flexfec_GetFecPackets True int int s1 = Inr (fs, s2) \<and> cow_data (rtp_buffer (fs ! 0)) = mem_of y \<and>
    flex_receive_all True None [[0x80, 0xe0, 0, 1, 0, 0, 0, 1, 0, 0, 0, 7], y] (new_FlexfecReceiver 9 7) = Inr ([p], r) \<and>
    cow_data (rtp_buffer p) = mem_of [0x80, 96, 0xff, 0xff, 0, 0, 0, 1, 0, 0, 0, 7, 42] \<and> rtp_recovered p"
proof -
  let ?exts = "[(3, ''urn:ietf:params:rtp-hdrext:sdes:mid'')]" and ?ty = "fec_mask_type demo_params"
  note D = demo_frame_facts
  from new_FlexfecSender_ok [of 99 True 5 6 9 7 "[65, 66]" ?exts None] obtain s where
    s: "new_FlexfecSender True 5 6 99 9 7 [65, 66] ?exts kFecOrPaddingExtensionSizes None = Inr s" "sender_ready s" "flexfec_ssrc s = 9"
      "flexfec_media_ssrc s = 7" "ulpfec_generator s = generator_with (CreateFlexfec 9 7) 0 0" by auto
  have rate: "0 \<le> fec_rate demo_params" "fec_rate demo_params \<le> 255" "0 < fec_rate demo_params" by (simp_all add: demo_params_def)
  have "media_contains_keyframe (ulpfec_generator s) = False" by (simp add: s(5) generator_with_def)
  from SetProtectionParameters_ok [OF s(2) this rate(1,2) rate(1,2), of True] obtain s' where
    s': "flexfec_SetProtectionParameters True demo_params demo_params s = Inr s'" "sender_ready s'" "flexfec_ssrc s' = 9" "flexfec_media_ssrc s' = 7"
      "current_params (apply_pending (ulpfec_generator s')) = \<lparr>delta_params = demo_params, keyframe_params = demo_params\<rparr>"
    using s(3,4) by auto
  let ?B = "encoder_mask (picked_type ?ty 2) 2 1 0 False"
  let ?ks = "filter (protects ?B (mask_width 2) 0) [0..<2]"
  have "\<exists>r < 1. protects ?B (mask_width 2) r 0" by (rule encoder_mask_facts(2)) simp_all
  then have l: "0 \<in> set ?ks" by simp
  have prm: "demo_params = params_for (apply_pending (ulpfec_generator s')) demo_packets" by (simp add: params_for_def s'(5))
  have sub: "set ?ks \<subseteq> set (0 # [1])" by (auto simp: less_Suc_eq)
  have q: "frame_ends_group (min_num_media_packets (apply_pending (ulpfec_generator s'))) demo_params 2" "1 = fec_count 2 (nat (fec_rate demo_params))"
    "flexfec_ssrc s' \<noteq> flexfec_media_ssrc s'" "(2 :: nat) \<le> 48" "2 = length demo_frame" "distinct (0 # [1 :: nat])" "\<forall>j \<in> set [1]. j < (2 :: nat)"
    "0 < (1 :: nat)"
    by (simp_all add: demo_params_def frame_ends_group_def fec_count_def s' D(2))
  note T = flexfec_lost_packet_delivered [OF s'(2) refl q(3) D(1) q(5,4) D(3) [folded s'(4)] D(5) D(6) [folded s'(4)] D(7) [folded s'(4)] prm rate(3,2) q(1,2) D(9)
      q(8) refl l q(6,7) sub, of int int, unfolded s'(3,4)]
  then obtain s1 fs s2 y where y: "flexfec_add_all True demo_packets s' = Inr s1" "flexfec_GetFecPackets True int int s1 = Inr (fs, s2)"
    "cow_data (rtp_buffer (fs ! 0)) = mem_of y"
    "\<forall>y'. same_outside_extensions y y' \<longrightarrow> (\<exists>p r. flex_receive_all True None (map ((!) demo_frame) [1] @ [y']) (new_FlexfecReceiver 9 7) = Inr ([p], r) \<and>
        cow_data (rtp_buffer p) = mem_of (demo_frame ! 0) \<and> rtp_recovered p \<and> num_recovered_packets (flex_packet_counter r) = 1)"
    by (elim exE conjE)
  have "same_outside_extensions y y" by (simp add: same_outside_extensions_def)
  with y(4) obtain p r where "flex_receive_all True None (map ((!) demo_frame) [1] @ [y]) (new_FlexfecReceiver 9 7) = Inr ([p], r)"
    "cow_data (rtp_buffer p) = mem_of (demo_frame ! 0)" "rtp_recovered p" by blast
  then have r: "flex_receive_all True None [[0x80, 0xe0, 0, 1, 0, 0, 0, 1, 0, 0, 0, 7], y] (new_FlexfecReceiver 9 7) = Inr ([p], r)"
    "cow_data (rtp_buffer p) = mem_of [0x80, 96, 0xff, 0xff, 0, 0, 0, 1, 0, 0, 0, 7, 42]" "rtp_recovered p"
    by (simp_all add: demo_frame_def)
  show ?thesis by (intro exI conjI) (rule s(1) s'(1) y(1-3) r)+
qed

section \<open>The overhead\<close>

lemma sender_overhead:
  assumes pt: "0 \<le> pt" "pt \<le> 127" and rates: "0 \<le> fec_rate delta" "fec_rate delta \<le> 255" "0 \<le> fec_rate key" "fec_rate key \<le> 255"
    and ps: "frame_of media ps" "n = length media" "n \<le> 48" "\<forall>p \<in> set ps. rtp_ssrc p = media_ssrc"
    and num: "numbered s0 d media" and lens: "\<forall>p \<in> set media. length p \<le> k" "k < 2 ^ 16" and ss: "ParseSsrc (hd media) = Inr media_ssrc"
    and prm: "prm = (if \<exists>p \<in> set ps. is_key_frame p then key else delta)" "0 < fec_rate prm"
    and ends: "frame_ends_group (if fec_rate delta > 80 then 4 else 1) prm n" and m: "m = fec_count n (nat (fec_rate prm))"
  shows "\<exists>s s' s1 fs s2. new_FlexfecSender dchecks rt rs pt fec_ssrc media_ssrc mid exts kFecOrPaddingExtensionSizes st = Inr s \<and>
    flexfec_SetProtectionParameters dchecks delta key s = Inr s' \<and> flexfec_add_all dchecks ps s' = Inr s1 \<and>
    flexfec_GetFecPackets dchecks clock now s1 = Inr (fs, s2) \<and> length fs = m \<and>
    (\<forall>p \<in> set fs. rtp_size p \<le> k + flexfec_MaxPacketOverhead s) \<and>
    map rtp_sequence_number fs = map (\<lambda>r. flexfec_seq_num s + of_nat r) [0..<m] \<and>
    sequence_number (flexfec_GetRtpState s2) = flexfec_seq_num s + of_nat m"
proof -
  from new_FlexfecSender_ok [OF pt, of dchecks rt rs fec_ssrc media_ssrc mid exts st] obtain s where
    s: "new_FlexfecSender dchecks rt rs pt fec_ssrc media_ssrc mid exts kFecOrPaddingExtensionSizes st = Inr s" "sender_ready s"
      "flexfec_media_ssrc s = media_ssrc" "ulpfec_generator s = generator_with (CreateFlexfec fec_ssrc media_ssrc) 0 0" by blast
  have "\<not> media_contains_keyframe (ulpfec_generator s)" by (simp add: s(4) generator_with_def)
  with SetProtectionParameters_ok [OF s(2) _ rates, of dchecks] obtain s' where
    s': "flexfec_SetProtectionParameters dchecks delta key s = Inr s'" "sender_ready s'" "flexfec_media_ssrc s' = media_ssrc"
      "flexfec_MaxPacketOverhead s' = flexfec_MaxPacketOverhead s" "flexfec_seq_num s' = flexfec_seq_num s"
      "current_params (apply_pending (ulpfec_generator s')) = \<lparr>delta_params = delta, keyframe_params = key\<rparr>"
      "min_num_media_packets (apply_pending (ulpfec_generator s')) = (if fec_rate delta > 80 then 4 else 1)" using s(3) by auto
  have prm': "prm = params_for (apply_pending (ulpfec_generator s')) ps" "fec_rate prm \<le> 255" using prm(1) rates s'(6) by (auto simp: params_for_def)
  have l16: "length p < 2 ^ 16" if "p \<in> set media" for p using lens that by (meson le_less_trans)
  from sender_frame [OF s'(2) refl ps(1-3) _ num l16 ss prm'(1) prm(2) prm'(2) _ m, of dchecks clock now fec_ssrc] ps(4) ends s'(3,5,7) obtain s1 fs s2 where
    f: "flexfec_add_all dchecks ps s' = Inr s1" "flexfec_GetFecPackets dchecks clock now s1 = Inr (fs, s2)" "length fs = m"
      "flexfec_seq_num s2 = flexfec_seq_num s + of_nat m"
    and w: "\<forall>r < m. \<exists>wire. sent_fec_packet s' (flexfec_seq_num s + of_nat r) (clock r) wire (fs ! r) \<and>
      reads_as_row Flexfec03HeaderReader dchecks fec_ssrc media_ssrc s0 d media m (fec_mask_type prm) r wire" by auto
  have "media \<noteq> []" using ps(1) by (auto simp: frame_of_def)
  then have "12 \<le> k" using frame_bytes [OF ps(1), of "hd media"] lens(1) le_trans by (meson hd_in_set)
  have "rtp_size (fs ! r) \<le> k + flexfec_MaxPacketOverhead s \<and> rtp_sequence_number (fs ! r) = flexfec_seq_num s + of_nat r" if "r < m" for r
  proof -
    from w that obtain wire where wire: "sent_fec_packet s' (flexfec_seq_num s + of_nat r) (clock r) wire (fs ! r)"
      "reads_as_row Flexfec03HeaderReader dchecks fec_ssrc media_ssrc s0 d media m (fec_mask_type prm) r wire" by blast
    have "length wire \<le> 32 + (k - 12)" using flexfec.wire_length [OF wire(2), of k] lens(1) by blast
    moreover have "sender_ok s'" using s'(2) by (simp add: sender_ready_def)
    ultimately have "rtp_size (fs ! r) \<le> k + flexfec_MaxPacketOverhead s" using sent_fec_packet_size [OF _ wire(1), of k] \<open>12 \<le> k\<close> s'(4) by simp
    then show ?thesis using wire(1) by (simp add: sent_fec_packet_def full_packet_def)
  qed
  then have "\<forall>p \<in> set fs. rtp_size p \<le> k + flexfec_MaxPacketOverhead s" "map rtp_sequence_number fs = map (\<lambda>r. flexfec_seq_num s + of_nat r) [0..<m]"
    using f(3) by (auto simp: in_set_conv_nth intro!: nth_equalityI)
  then show ?thesis using s(1) s'(1) f by (intro exI [of _ s] exI [of _ s'] exI [of _ s1] exI [of _ fs] exI [of _ s2]) (simp add: flexfec_GetRtpState_def)
qed

text \<open>
  Claim C40. A FlexFEC sender keeps to the overhead it announces. A sender is constructed for any header extensions, MID and earlier RTP
  state, with the extension sizes the RTP sender gives for FEC packets, and given its protection parameters; a frame of at most
  48 packets of at most \<open>k\<close> bytes ends a group. Then no check fails, the FEC packets are as many as the rate asks for, none of them
  is longer than \<open>k\<close> bytes and \<open>MaxPacketOverhead\<close>, their sequence numbers go on from the first one of the sender without gap,
  and the RTP state that is handed to the next sender is the number behind the last one.
\<close>

theorem flexfec_overhead_kept:
  assumes "0 \<le> pt" "pt \<le> 127" "0 \<le> fec_rate delta" "fec_rate delta \<le> 255" "0 \<le> fec_rate key" "fec_rate key \<le> 255"
    and "frame_of media ps" "n = length media" "n \<le> 48" "\<forall>p \<in> set ps. rtp_ssrc p = media_ssrc"
    and "numbered s0 d media" "\<forall>p \<in> set media. length p \<le> k" "k < 2 ^ 16" "ParseSsrc (hd media) = Inr media_ssrc"
    and "prm = (if \<exists>p \<in> set ps. is_key_frame p then key else delta)" "0 < fec_rate prm"
    and "frame_ends_group (if fec_rate delta > 80 then 4 else 1) prm n" "m = fec_count n (nat (fec_rate prm))"
  shows "\<exists>s s' s1 fs s2. new_FlexfecSender dchecks rt rs pt fec_ssrc media_ssrc mid exts kFecOrPaddingExtensionSizes st = Inr s \<and>
    flexfec_SetProtectionParameters dchecks delta key s = Inr s' \<and> flexfec_add_all dchecks ps s' = Inr s1 \<and>
    flexfec_GetFecPackets dchecks clock now s1 = Inr (fs, s2) \<and> length fs = m \<and>
    (\<forall>p \<in> set fs. rtp_size p \<le> k + flexfec_MaxPacketOverhead s) \<and>
    map rtp_sequence_number fs = map (\<lambda>r. flexfec_seq_num s + of_nat r) [0..<m] \<and>
    sequence_number (flexfec_GetRtpState s2) = flexfec_seq_num s + of_nat m"
  using assms by (rule sender_overhead)

theorem flexfec_overhead_kept_witness:
  "\<exists>s s' s1 fs s2. new_FlexfecSender True 5 6 99 9 7 [65, 66] [(3, ''urn:ietf:params:rtp-hdrext:sdes:mid''), (77, ''urn:ietf:params:rtp-hdrext:toffset'')]
      kFecOrPaddingExtensionSizes None = Inr s \<and> flexfec_SetProtectionParameters True demo_params demo_params s = Inr s' \<and>
    flexfec_add_all True demo_packets s' = Inr s1 \<and> flexfec_GetFecPackets True int int s1 = Inr (fs, s2) \<and> length fs = 1 \<and>
    (\<forall>p \<in> set fs. rtp_size p \<le> 13 + flexfec_MaxPacketOverhead s)"
proof -
  note D = demo_frame_facts
  have "demo_params = (if \<exists>p \<in> set demo_packets. is_key_frame p then demo_params else demo_params)" "0 \<le> fec_rate demo_params" "fec_rate demo_params \<le> 255"
    "0 < fec_rate demo_params" "(2 :: nat) \<le> 48" "(2 :: nat) = length demo_frame" "frame_ends_group (if fec_rate demo_params > 80 then 4 else 1) demo_params 2"
    "1 = fec_count 2 (nat (fec_rate demo_params))" "(0 :: int) \<le> 99" "(99 :: int) \<le> 127" "(13 :: nat) < 2 ^ 16"
    by (simp_all add: demo_params_def D(2) frame_ends_group_def fec_count_def)
  note p = this
  from flexfec_overhead_kept [OF p(9,10,2,3,2,3) D(1) p(6,5) D(3,5,8) p(11) D(7) p(1,4,7,8), of True 5 6 9 "[65, 66]"
      "[(3, ''urn:ietf:params:rtp-hdrext:sdes:mid''), (77, ''urn:ietf:params:rtp-hdrext:toffset'')]" None int int]
  show ?thesis by blast
qed

end
