(* ===== verification/Rtp_Remove.thy ===== *)
theory Rtp_Remove
  imports Rtp_Roundtrip
begin

text \<open>
  \<open>RemoveExtension\<close> builds the packet anew: it keeps the fields, the other extensions, the payload and the padding, and drops the CSRCs.
\<close>

section \<open>Copying the extensions\<close>

definition kept :: "u8 \<Rightarrow> (u8 \<times> u8 list) list \<Rightarrow> (u8 \<times> u8 list) list" where
  "kept x es = filter (\<lambda>(y, d). y \<noteq> x) es"

definition needs_two :: "(u8 \<times> u8 list) list \<Rightarrow> bool" where
  "needs_two es = list_ex (\<lambda>(y, d). two_byte_required y (length d)) es"

lemma kept_simps [simp]: "kept x [] = []" "kept x ((y, d) # es) = (if y = x then kept x es else (y, d) # kept x es)"
  by (simp_all add: kept_def)

lemma needs_two_simps [simp]: "needs_two [] = False" "needs_two ((y, d) # es) = (two_byte_required y (length d) \<or> needs_two es)"
  by (simp_all add: needs_two_def)

lemma kept_subset: "set (kept x es) \<subseteq> set es"
  by (auto simp: kept_def)

lemma length_ext_mem_mono: "(two \<longrightarrow> two') \<Longrightarrow> length (ext_mem two es) \<le> length (ext_mem two' es)"
  by (induction es) (auto simp: ext_hlen_def)

lemma copy_extensions_ok:
  assumes e: "extendable hdr p"
  shows "ext_state hdr p (t, ds) \<Longrightarrow> \<forall>(y, d) \<in> set fs. ext_fits two y (length d) \<and> (two_byte_required y (length d) \<longrightarrow> extmap_allow_mixed (rtp_extensions p)) \<Longrightarrow>
    distinct (map fst (ds @ fs)) \<Longrightarrow> length A + length (ext_mem two (byte_exts fs)) < 2 ^ 16 \<Longrightarrow>
    length hdr + 4 + length (ext_mem (t \<or> needs_two (kept x fs)) (byte_exts (ds @ kept x fs))) \<le> cow_capacity (rtp_buffer p) \<Longrightarrow>
    copy_extensions dchecks x (A @ ext_mem two (byte_exts fs) @ D) (ext_infos (length A) two (byte_exts fs)) (written hdr t (byte_exts ds) p) =
      Inr (Some (x \<in> fst ` set fs, written hdr (t \<or> needs_two (kept x fs)) (byte_exts (ds @ kept x fs)) p)) \<and>
    ext_state hdr p (t \<or> needs_two (kept x fs), ds @ kept x fs)"
proof (induction fs arbitrary: A t ds)
  case (Cons f fs)
  obtain y d where f: "f = (y, d)" by (cases f)
  let ?A = "A @ ext_head two y (length d) @ mem_of d" and ?k = "length A + ext_hlen two"
  have y: "ext_fits two y (length d)" "y \<noteq> 0" "1 \<le> length d" "length d \<le> 255" "y \<notin> fst ` set ds"
      "two_byte_required y (length d) \<longrightarrow> extmap_allow_mixed (rtp_extensions p)"
    using Cons.prems(2,3) by (auto simp: f ext_fits_def)
  have u: "unat (of_nat (length d) :: u8) = length d" "unat (of_nat ?k :: u16) = ?k"
    using y(4) Cons.prems(4) by (simp_all add: f unat_of_nat del: of_nat_add)
  have data: "A @ ext_mem two (byte_exts (f # fs)) @ D = ?A @ ext_mem two (byte_exts fs) @ D" by (simp add: f)
  have infos: "ext_infos (length A) two (byte_exts (f # fs)) = \<lparr>ext_id = y, ext_length = of_nat (length d), ext_offset = of_nat ?k\<rparr> # ext_infos (length ?A) two (byte_exts fs)"
    by (simp add: f add.assoc)
  have pre: "\<forall>(y, d) \<in> set fs. ext_fits two y (length d) \<and> (two_byte_required y (length d) \<longrightarrow> extmap_allow_mixed (rtp_extensions p))"
      "length ?A + length (ext_mem two (byte_exts fs)) < 2 ^ 16"
    using Cons.prems(2,4) by (auto simp: f)
  show ?case
  proof (cases "y = x")
    case True
    have "copy_extensions dchecks x (?A @ ext_mem two (byte_exts fs) @ D) (ext_infos (length ?A) two (byte_exts fs)) (written hdr t (byte_exts ds) p) =
        Inr (Some (x \<in> fst ` set fs, written hdr (t \<or> needs_two (kept x fs)) (byte_exts (ds @ kept x fs)) p)) \<and>
      ext_state hdr p (t \<or> needs_two (kept x fs), ds @ kept x fs)"
      using Cons.prems True by (intro Cons.IH pre) (auto simp: f)
    then show ?thesis unfolding data infos using True by (simp add: f del: of_nat_add)
  next
    case False
    define t' where "t' = (t \<or> two_byte_required y (length d))"
    let ?T = "t \<or> needs_two (kept x (f # fs))"
    have "length hdr + 4 + length (ext_mem ?T (byte_exts (ds @ [(y, d)]))) \<le> cow_capacity (rtp_buffer p)"
      using Cons.prems(5) False by (simp add: f)
    then have room: "ext_room (length hdr) t' (byte_exts ds) (length d) \<le> cow_capacity (rtp_buffer p)"
      using length_ext_mem_mono [of t' ?T "byte_exts (ds @ [(y, d)])"] False by (simp add: ext_room_def t'_def f)
    note new = SetRawExtension_new [OF e Cons.prems(1) y(2-6) room t'_def]
    from new(1) [of dchecks] obtain v where v: "length v = length d" "AllocateRawExtension dchecks y (length d) (written hdr t (byte_exts ds) p) =
        Inr (Some (length hdr + 4 + length (ext_mem t' (byte_exts ds)) + ext_hlen t'), written hdr t' (byte_exts ds @ [(y, v)]) p)" by blast
    have ld: "mem_load w (int ?k) (length d) (?A @ m) = Inr (mem_of d)" for w m
      using load_at [of "A @ ext_head two y (length d)" ?k "mem_of d" "length d" w m] by simp
    have wr: "write_buffer (mem_store w (int (length hdr + 4 + length (ext_mem t' (byte_exts ds)) + ext_hlen t')) (mem_of d))
        (written hdr t' (byte_exts ds @ [(y, v)]) p) = Inr (written hdr t' (byte_exts (ds @ [(y, d)])) p)" for w
      using write_value [of "mem_of d" v w hdr t' "byte_exts ds" y "[]" p] v(1) by simp
    have "copy_extensions dchecks x (?A @ ext_mem two (byte_exts fs) @ D) (ext_infos (length ?A) two (byte_exts fs)) (written hdr t' (byte_exts (ds @ [(y, d)])) p) =
        Inr (Some (x \<in> fst ` set fs, written hdr (t' \<or> needs_two (kept x fs)) (byte_exts ((ds @ [(y, d)]) @ kept x fs)) p)) \<and>
      ext_state hdr p (t' \<or> needs_two (kept x fs), (ds @ [(y, d)]) @ kept x fs)"
      using Cons.prems(3,5) False by (intro Cons.IH pre new(2)) (auto simp: f t'_def disj_assoc)
    moreover have "copy_extensions dchecks x (A @ ext_mem two (byte_exts (f # fs)) @ D) (ext_infos (length A) two (byte_exts (f # fs))) (written hdr t (byte_exts ds) p) =
        copy_extensions dchecks x (?A @ ext_mem two (byte_exts fs) @ D) (ext_infos (length ?A) two (byte_exts fs)) (written hdr t' (byte_exts (ds @ [(y, d)])) p)"
      unfolding data infos copy_extensions.simps ExtensionInfo.simps u v(2) bind_res.simps prod.case option.case ld wr using False by simp
    ultimately show ?thesis using False by (auto simp: f t'_def disj_assoc)
  qed
qed (simp add: exts_ok_def)

lemma length_ext_mem_kept: "length (ext_mem two (byte_exts (kept x es))) \<le> length (ext_mem two (byte_exts es))"
  by (induction es) (auto simp: kept_def)

lemma exts_ok_byte:
  "exts_ok two (byte_exts es) \<longleftrightarrow> (\<forall>(y, d) \<in> set es. ext_fits two y (length d)) \<and> distinct (map fst es) \<and> (es = [] \<longrightarrow> \<not> two)"
  by (simp add: exts_ok_def) (auto simp: byte_exts_def)

lemma rtp_header_bytes: "rtp_header False False m pt sn ts s [] = rtp_bytes False m pt sn ts s []"
  by (simp add: rtp_header_def rtp_bytes_def first_byte_def)

section \<open>The rebuilt packet\<close>

text \<open>The payload is copied as the payload of a new packet is written; an empty payload is set by \<open>SetPayloadSize\<close>.\<close>

lemma copy_payload:
  assumes "rtp_payload p = mem_of payload" "rtp_payload_size p = length payload" "rtp_padding_size q = 0"
    and "cow_data (rtp_buffer q) = mem_of bytes" "rtp_payload_offset q = length bytes"
  shows "bind_res
      (if rtp_payload_size p > 0 then
         bind_res (AllocatePayload dchecks (rtp_payload_size p) q) (\<lambda>q2. write_buffer (mem_store ''buffer_'' (int (rtp_payload_offset q2)) (rtp_payload p)) q2)
       else SetPayloadSize dchecks 0 q) (SetPadding dchecks n) =
    fill_payload dchecks payload n q"
proof (cases "payload = []")
  case True
  have "SetPayloadSize dchecks 0 q = Inr (with_bytes bytes (q\<lparr>rtp_payload_size := 0\<rparr>))" using assms by (simp add: SetPayloadSize_0_ok)
  moreover have "SetPayloadSize dchecks 0 (with_bytes bytes (q\<lparr>rtp_payload_size := 0\<rparr>)) = Inr (with_bytes bytes (q\<lparr>rtp_payload_size := 0\<rparr>))"
    using assms SetPayloadSize_0_ok [of "with_bytes bytes (q\<lparr>rtp_payload_size := 0\<rparr>)" bytes dchecks] by (simp add: with_bytes_def)
  moreover have "write_buffer (mem_store w (int (length bytes)) []) (with_bytes bytes (q\<lparr>rtp_payload_size := 0\<rparr>)) = Inr (with_bytes bytes (q\<lparr>rtp_payload_size := 0\<rparr>))" for w
    using write_buffer_ok [of "mem_store w (int (length bytes)) []" bytes bytes "with_bytes bytes (q\<lparr>rtp_payload_size := 0\<rparr>)"] by (simp add: mem_store_nat)
  ultimately show ?thesis using True assms by (simp add: fill_payload_def AllocatePayload_def)
next
  case False
  then show ?thesis using assms(1,2) by (simp add: fill_payload_def bind_res_assoc)
qed

lemma kept_smaller:
  assumes "exts_ok two (byte_exts es)" "es \<noteq> []"
  shows "length (ext_mem (needs_two (kept x es)) (byte_exts (kept x es))) \<le> length (ext_mem two (byte_exts es))"
    "length (ext_block (needs_two (kept x es)) (byte_exts (kept x es))) \<le> length (ext_block two (byte_exts es))"
proof -
  have "needs_two (kept x es) \<longrightarrow> two"
    using assms(1) kept_subset [of x es] by (fastforce simp: needs_two_def list_ex_iff exts_ok_def byte_exts_def ext_fits_def)
  then show small: "length (ext_mem (needs_two (kept x es)) (byte_exts (kept x es))) \<le> length (ext_mem two (byte_exts es))"
    using length_ext_mem_mono [of "needs_two (kept x es)" two "byte_exts (kept x es)"] length_ext_mem_kept [of two x es] by simp
  then show "length (ext_block (needs_two (kept x es)) (byte_exts (kept x es))) \<le> length (ext_block two (byte_exts es))"
    using assms(2) by (simp add: length_ext_block ext_words_def div_le_mono)
qed

text \<open>The extensions of a complete packet are copied to a packet with a header of 12 bytes.\<close>

lemma copy_kept:
  assumes p: "full_packet m pt sn ts s cs two es payload n p" "buffer_size (rtp_buffer p) \<le> 1500"
    and mixed: "needs_two es \<longrightarrow> extmap_allow_mixed (rtp_extensions p)" and x: "x \<in> fst ` set es"
    and q: "extendable hdr q" "ext_state hdr q (False, [])" "written hdr False (byte_exts []) q = q" "rtp_extensions q = rtp_extensions p"
      "cow_capacity (rtp_buffer q) = 1500" "length hdr = 12"
  shows "copy_extensions dchecks x (cow_data (rtp_buffer p)) (rtp_extension_entries p) q =
      Inr (Some (True, written hdr (needs_two (kept x es)) (byte_exts (kept x es)) q)) \<and> exts_ok (needs_two (kept x es)) (byte_exts (kept x es))"
proof -
  have es: "es \<noteq> []" and ok: "exts_ok two (byte_exts es)" using x p by (auto simp: full_packet_def)
  define A where "A = mem_of (rtp_header (n > 0) True m pt sn ts s cs) @ mem_of (WriteBigEndian 2 (profile_of two)) @
    mem_of (WriteBigEndian 2 (of_nat (ext_words (length (ext_mem two (byte_exts es)))) :: u16))"
  define D where "D = ext_zeros (length (ext_mem two (byte_exts es))) @ mem_of (payload @ padding n)"
  have data: "cow_data (rtp_buffer p) = A @ ext_mem two (byte_exts es) @ D" and infos: "rtp_extension_entries p = ext_infos (length A) two (byte_exts es)"
    using p es by (simp_all add: full_packet_def A_def D_def ext_block_def)
  have fits: "\<forall>(y, d) \<in> set es. ext_fits two y (length d)" "distinct (map fst es)" using ok by (auto simp: exts_ok_byte)
  have room: "16 + 4 * length cs + length (ext_mem two (byte_exts es)) \<le> 1500"
    using p es ext_words_bounds(1) [of "length (ext_mem two (byte_exts es))"] by (simp add: full_packet_def length_ext_block)
  have "copy_extensions dchecks x (A @ ext_mem two (byte_exts es) @ D) (ext_infos (length A) two (byte_exts es)) (written hdr False (byte_exts []) q) =
      Inr (Some (x \<in> fst ` set es, written hdr (False \<or> needs_two (kept x es)) (byte_exts ([] @ kept x es)) q)) \<and>
    ext_state hdr q (False \<or> needs_two (kept x es), [] @ kept x es)"
    using fits mixed room kept_smaller(1) [OF ok es, of x] q(5,6)
    by (intro copy_extensions_ok q(1,2)) (auto simp: A_def needs_two_def list_ex_iff q(4))
  then show ?thesis using x q(3) by (simp add: data infos ext_state_def)
qed

lemma rebuild_packet_ok:
  assumes p: "full_packet m pt sn ts s cs two es payload n p" and cs: "length cs \<le> 15" and n: "n < 256" and len: "buffer_size (rtp_buffer p) \<le> 1500"
    and copy: "copy_extensions dchecks x (cow_data (rtp_buffer p)) (rtp_extension_entries p) q = Inr (Some (True, written hdr t (byte_exts ks) q))"
    and fill: "fill_payload dchecks payload n (written hdr t (byte_exts ks) q) = Inr (True, r)"
    and q: "q = q5\<lparr>rtp_extensions := rtp_extensions p\<rparr>" "rtp_padding_size q = 0"
  shows "rebuild_packet dchecks x p q5 = Inr (True, RtpPacket.extend r (RtpPacket.more p))"
proof -
  let ?w = "written hdr t (byte_exts ks) q"
  have u: "unat (rtp_padding_size p) = n" using p n by (simp add: full_packet_def unat_of_nat)
  obtain blk where blk: "mem_of blk = ext_block t (byte_exts ks)" using ext_block_bytes by blast
  have bl: "length blk = length (ext_block t (byte_exts ks))" using arg_cong [OF blk, of length] by simp
  have "cow_data (rtp_buffer ?w) = mem_of (mark_extension (ks \<noteq> []) hdr @ blk)" "rtp_payload_offset ?w = length (mark_extension (ks \<noteq> []) hdr @ blk)"
    using bl by (simp_all add: written_simps ext_data_def blk) (simp add: written_def ext_data_def)
  note copy_payload [OF _ _ _ this, of p payload dchecks n, unfolded u [symmetric]]
  then show ?thesis
    using copy fill p full_packet_views(3) [OF p cs] len q(2) unfolding rebuild_packet_def u IdentifyExtensions_def q(1) [symmetric]
    by (simp add: full_packet_def written_simps flip: bind_res_assoc)
qed

lemma RemoveExtension_ok:
  fixes p :: "'a RtpPacket_scheme"
  assumes p: "full_packet m pt sn ts s cs two es payload n p" and pt: "pt \<le> 0x7f" and cs: "length cs \<le> 15" and n: "n < 256"
    and len: "buffer_size (rtp_buffer p) \<le> 1500" and mixed: "needs_two es \<longrightarrow> extmap_allow_mixed (rtp_extensions p)"
    and type: "type \<in> set extension_types" and x: "x = extension_ids (rtp_extensions p) type" "x \<in> fst ` set es"
  shows "\<exists>q. RemoveExtension dchecks type p = Inr (True, q) \<and> rtp_extensions q = rtp_extensions p \<and> RtpPacket.more q = RtpPacket.more p \<and>
    cow_capacity (rtp_buffer q) = 1500 \<and> buffer_size (rtp_buffer q) \<le> 1500 \<and> full_packet m pt sn ts s [] (needs_two (kept x es)) (kept x es) payload n q"
proof -
  let ?hdr = "rtp_header False False m pt sn ts s []" and ?t = "needs_two (kept x es)"
  have ok: "exts_ok two (byte_exts es)" and es: "es \<noteq> []" using p x(2) by (auto simp: full_packet_def)
  have x0: "x \<noteq> 0" using ok x(2) by (force simp: exts_ok_def byte_exts_def ext_fits_def)
  have g: "GetId dchecks type (rtp_extensions p) = Inr x" using type by (auto simp: GetId_def type_checks_def x extension_types_def)
  from fresh_packet [OF pt, of dchecks "new_RtpHeaderExtensionMap False" m sn ts s] obtain q5 where
    start: "RemoveExtension dchecks type p = rebuild_packet dchecks x p q5"
    and q5: "cow_data (rtp_buffer q5) = mem_of (rtp_bytes False m pt sn ts s [])" "cow_capacity (rtp_buffer q5) = 1500"
      "rtp_extension_entries q5 = []" "rtp_extensions_size q5 = 0" "rtp_payload_size q5 = 0" "rtp_padding_size q5 = 0" "rtp_payload_offset q5 = 12"
      "rtp_marker q5 = m" "rtp_payload_type q5 = pt" "rtp_sequence_number q5 = sn" "rtp_timestamp q5 = ts" "rtp_ssrc q5 = s"
    using p x0 unfolding RemoveExtension_def g bind_res.simps full_packet_def by (simp only: if_False) blast
  define q where "q = q5\<lparr>rtp_extensions := rtp_extensions p\<rparr>"
  have q: "extendable ?hdr q" "ext_state ?hdr q (False, [])" "written ?hdr False (byte_exts []) q = q" "rtp_extensions q = rtp_extensions p"
    "cow_capacity (rtp_buffer q) = 1500" "length ?hdr = 12" "rtp_padding_size q = 0"
    using q5 first_byte(4) [of 0 False False]
    by (simp_all add: q_def written_id rtp_header_bytes extendable_def csrc_end_def ext_state_def exts_ok_def ext_data_def ext_block_def rtp_bytes_def)
  note copy = copy_kept [OF p len mixed x(2) q(1-6), of dchecks]
  have size: "12 + length (ext_block ?t (byte_exts (kept x es))) + length payload + n \<le> 1500"
    using p len kept_smaller(2) [OF ok es, of x] by (simp add: full_packet_def)
  then have "12 + 4 * length ([] :: u32 list) + length (ext_block ?t (byte_exts (kept x es))) + length payload + n \<le> cow_capacity (rtp_buffer q)"
    using q(5) by simp
  from fill_payload_full [OF _ q(7) _ this n, of dchecks] copy obtain r where
    r: "fill_payload dchecks payload n (written ?hdr ?t (byte_exts (kept x es)) q) = Inr (True, r)" "rtp_extensions r = rtp_extensions p"
      "cow_capacity (rtp_buffer r) = 1500" "full_packet m pt sn ts s [] ?t (kept x es) payload n r" using q5 q(4,5) by (auto simp: q_def)
  have "RemoveExtension dchecks type p = Inr (True, RtpPacket.extend r (RtpPacket.more p))"
    unfolding start using copy by (intro rebuild_packet_ok [OF p cs n len _ r(1) q_def q(7)]) simp
  moreover have "buffer_size (rtp_buffer r) \<le> 1500" using r(4) size by (simp add: full_packet_def)
  ultimately show ?thesis using r by (simp add: full_packet_def RtpPacket.defs)
qed

text \<open>The packets that the setters build need two-byte headers only where the map allows them.\<close>

lemma put_extension_mixed:
  assumes "put_extension exts hlen cap c (two, es) = (ok, two', es')" "needs_two es \<longrightarrow> extmap_allow_mixed exts"
  shows "needs_two es' \<longrightarrow> extmap_allow_mixed exts"
proof -
  obtain type d where c: "c = (type, d)" by (cases c)
  have "set (AList.update x d es) \<subseteq> insert (x, d) (set es)" for x by (induction es) auto
  then have "needs_two (AList.update x d es) \<Longrightarrow> needs_two es \<or> two_byte_required x (length d)" for x
    unfolding needs_two_def list_ex_iff by fast
  then show ?thesis using assms by (auto simp: put_extension_def c Let_def split: if_splits option.splits)
qed

lemma put_extensions_mixed:
  "put_extensions exts hlen cap cs (two, es) = (oks, two', es') \<Longrightarrow> needs_two es \<longrightarrow> extmap_allow_mixed exts \<Longrightarrow>
   needs_two es' \<longrightarrow> extmap_allow_mixed exts"
proof (induction cs arbitrary: two es oks)
  case (Cons c cs)
  then show ?case by (auto simp: Let_def split: prod.splits dest: put_extension_mixed)
qed simp

lemma map_of_kept: "map_of (kept x es) y = (if y = x then None else map_of es y)"
  by (induction es) (auto simp: kept_def)

lemma remove_extension:
  assumes pt: "pt \<le> 0x7f" and cs: "length csrcs \<le> 15" and calls: "fst ` set calls \<subseteq> set extension_types"
    and put: "put_extensions exts (12 + 4 * length csrcs) 1500 calls (False, []) = (oks, two, es)"
    and fit: "12 + 4 * length csrcs + length (ext_block two (byte_exts es)) + length payload + n \<le> 1500" "n < 256"
    and type: "type \<in> set extension_types" "extension_ids exts type \<in> fst ` set es"
  shows "\<exists>p q. build_extended dchecks exts m pt sn ts s csrcs calls payload n = Inr (oks, True, p) \<and> RemoveExtension dchecks type p = Inr (True, q) \<and>
    rtp_marker q = m \<and> rtp_payload_type q = pt \<and> rtp_sequence_number q = sn \<and> rtp_timestamp q = ts \<and> rtp_ssrc q = s \<and>
    (\<forall>type' \<in> set extension_types. FindExtension dchecks type' q =
      (if extension_ids exts type' = extension_ids exts type then Inr None else FindExtension dchecks type' p)) \<and>
    rtp_payload q = mem_of payload \<and> unat (rtp_padding_size q) = n \<and> Csrcs dchecks p = Inr csrcs \<and> Csrcs dchecks q = Inr []"
proof -
  let ?x = "extension_ids exts type"
  from build_extended_ok [OF assms(1-6), of dchecks m sn ts s] obtain p where
    p: "build_extended dchecks exts m pt sn ts s csrcs calls payload n = Inr (oks, True, p)" "rtp_extensions p = exts" "cow_capacity (rtp_buffer p) = 1500"
      "full_packet m pt sn ts s csrcs two es payload n p" by blast
  have len: "buffer_size (rtp_buffer p) \<le> 1500" using p(4) fit(1) by (simp add: full_packet_def)
  have mixed: "needs_two es \<longrightarrow> extmap_allow_mixed (rtp_extensions p)" using put_extensions_mixed [OF put] p(2) by simp
  from RemoveExtension_ok [OF p(4) pt cs fit(2) len mixed type(1), of ?x dchecks] type(2) p(2) obtain q where
    q: "RemoveExtension dchecks type p = Inr (True, q)" "rtp_extensions q = exts" "cow_capacity (rtp_buffer q) = 1500" "buffer_size (rtp_buffer q) \<le> 1500"
      "full_packet m pt sn ts s [] (needs_two (kept ?x es)) (kept ?x es) payload n q" by auto
  have lq: "buffer_size (rtp_buffer q) < 2 ^ 16" using q(4) by simp
  have "unat (of_nat n :: u8) = n" using fit(2) by (simp add: unat_of_nat)
  then have "rtp_marker q = m \<and> rtp_payload_type q = pt \<and> rtp_sequence_number q = sn \<and> rtp_timestamp q = ts \<and> rtp_ssrc q = s \<and> unat (rtp_padding_size q) = n"
    using q(5) by (simp add: full_packet_def)
  then show ?thesis
    using p q(1-3) full_packet_views [OF p(4) cs] full_packet_views [OF q(5) _ lq] len cs by (simp add: map_of_kept)
qed

section \<open>Properties\<close>

text \<open>
  Claim C39. \<open>RemoveExtension\<close> removes what it should and nothing else of the extensions: from a packet filled with the setters it makes
  one in which the removed type is not found, every other type is found as before, and fields, payload and padding are the same. It drops
  the CSRCs: the rebuilt packet has none.
\<close>

theorem remove_extension_rebuilds:
  assumes "pt \<le> 0x7f" "length csrcs \<le> 15" "fst ` set calls \<subseteq> set extension_types"
    "put_extensions exts (12 + 4 * length csrcs) 1500 calls (False, []) = (oks, two, es)"
    "12 + 4 * length csrcs + length (ext_block two (byte_exts es)) + length payload + n \<le> 1500" "n < 256"
    "type \<in> set extension_types" "extension_ids exts type \<in> fst ` set es"
  shows "\<exists>p q. build_extended dchecks exts m pt sn ts s csrcs calls payload n = Inr (oks, True, p) \<and> RemoveExtension dchecks type p = Inr (True, q) \<and>
    rtp_marker q = m \<and> rtp_payload_type q = pt \<and> rtp_sequence_number q = sn \<and> rtp_timestamp q = ts \<and> rtp_ssrc q = s \<and>
    (\<forall>type' \<in> set extension_types. FindExtension dchecks type' q =
      (if extension_ids exts type' = extension_ids exts type then Inr None else FindExtension dchecks type' p)) \<and>
    rtp_payload q = mem_of payload \<and> unat (rtp_padding_size q) = n \<and> Csrcs dchecks p = Inr csrcs \<and> Csrcs dchecks q = Inr []"
  using assms by (rule remove_extension)

theorem remove_extension_rebuilds_witness:
  "\<exists>p q. build_extended True example_map True 96 65535 7 9 [11, 12] example_calls [1, 2, 3] 4 =
      Inr ([True, True, True, False, False, True], True, p) \<and> RemoveExtension True kRtpExtensionColorSpace p = Inr (True, q) \<and>
    FindExtension True kRtpExtensionColorSpace q = Inr None \<and> rtp_payload q = mem_of [1, 2, 3] \<and>
    Csrcs True p = Inr [11, 12] \<and> Csrcs True q = Inr []"
proof -
  have "put_extensions example_map (12 + 4 * length [11, 12 :: u32]) 1500 example_calls (False, []) =
     ([True, True, True, False, False, True], True, [(3, [4, 5, 6]), (5, [9, 8, 7]), (20, [77, 78])])"
    using example_put by simp
  from remove_extension_rebuilds [OF _ _ _ this, of 96 "[1, 2, 3]" 4 kRtpExtensionColorSpace True True 65535 7 9] show ?thesis
    by (force simp: example_calls_def extension_types_def example_map_def ext_block_def ext_words_def ext_hlen_def)
qed

end
