(* ===== verification/Spec2Isabelle.thy ===== *)
theory Spec2Isabelle
  imports Group_Repair Fec_Sender Fec_Encode_Lib Gui Uep_Shift Codec_Roundtrip Ulpfec_Transport Server_Liveness
    Flexfec_Transport Rtp_Remove
begin

text \<open>
  Verification of \<^bold>\<open>Channel_sim\<close>, a Windows program that sends a file over three simulated UDP channels with
  forward error correction, and of the FEC library it was cut out of.

  \<^bold>\<open>The program.\<close> The main window (\<^verbatim>\<open>Channel_sim/Channel_sim.cpp\<close>) chooses a file and sets the state and the loss rate
  of each channel. \<open>Udpserver\<close> (\<^verbatim>\<open>Channel_sim/Udpserver.cpp\<close>) runs one reader thread and three worker threads:
  the reader cuts the file into chunks, hands each to the packetiser
  \<open>ForwardErrorCorrection::PacketByFEC\<close> (\<^verbatim>\<open>Channel_sim/forward_error_correction.cpp\<close>) and queues the packets that
  come out, data packets and, after each complete group, FEC packets, on the channel chosen round robin; a
  worker takes packets from its queue, stamps them with a global sequence number, drops some of them to
  simulate loss, and sends the rest. The FEC packets are XOR combinations of the payloads of a group, selected
  by the mask tables (\<^verbatim>\<open>fec_private_tables_*.cpp\<close>). Failed run-time checks end in \<^verbatim>\<open>checks.cpp\<close>, log lines go
  through \<^verbatim>\<open>LogEmitter.cpp\<close>. \<^verbatim>\<open>FEC_Encode\<close> holds an older copy of the packetiser and the WebRTC sources it was
  written from, among them the ULPFEC and FlexFEC codec
  (\<^verbatim>\<open>FEC_Encode/include/modules/rtp_rtcp/source\<close>).

  \<^bold>\<open>The theories.\<close>

  \<^item> \<^verbatim>\<open>Fec_Prelude\<close>: machine integers, faults as values (a failed check, an access outside an object, a use
    of an indeterminate byte), raw memory. Every operation that can fault returns a \<open>res\<close>; a theorem that
    it equals \<open>Inr\<close> says that it returns. The argument \<open>dchecks\<close> chooses the debug or the release build.
  \<^item> \<^verbatim>\<open>Checks\<close>: the check macros and the report of a failed check (\<^verbatim>\<open>checks.cpp\<close>, \<^verbatim>\<open>rtc_base/checks.h\<close>).
  \<^item> \<^verbatim>\<open>Mask_Tables_Random\<close>, \<^verbatim>\<open>Mask_Tables_Bursty\<close>, \<^verbatim>\<open>Packet_Masks\<close>: the tables byte by byte and their lookup;
    the pointer walk and the interleaving produce the mask of each pair of packet counts.
    \<^verbatim>\<open>Mask_Coverage\<close>: every media packet is protected, and which bursts of losses the bursty masks repair.
  \<^item> \<^verbatim>\<open>Fec_Encoder\<close>, \<^verbatim>\<open>Encoder_Correct\<close>, \<^verbatim>\<open>Packet_Wire\<close>: the packet class, \<open>EncodeFec\<close>, \<open>PacketByFEC\<close>, \<open>Serialize\<close>;
    a sequence of calls refines the abstract stream of groups, and a serialised packet can be parsed.
    \<^verbatim>\<open>Fec_Recovery\<close> (a locale for XOR codes) and \<^verbatim>\<open>Group_Repair\<close>: a group with one loss can be repaired.
  \<^item> \<^verbatim>\<open>Fec_Sender\<close>: \<open>SendByUlpfec\<close>, the sender that paces and sends by itself. \<^verbatim>\<open>Fec_Encode_Lib\<close>: the older
    copy of \<open>PacketByFEC\<close> (\<^verbatim>\<open>FEC_Encode/forward_error_correction.cpp\<close>), which protects its first group only.
  \<^item> \<^verbatim>\<open>Datagram\<close>, \<^verbatim>\<open>Udp_Server\<close>: the datagram layout and the server as a step relation: one step per critical
    section of the reader, a worker, or a call from the window. \<^verbatim>\<open>Step_Systems\<close> has the locales for
    invariants, histories and simulations of runs and for progress in fair executions; \<^verbatim>\<open>Server_Safety\<close> (no fault), \<^verbatim>\<open>Server_Threads\<close> and
    \<^verbatim>\<open>Server_Traces\<close> (no lost wake-up, queues, the fate of every packet, stopping), \<^verbatim>\<open>Server_Stream\<close>
    (what is queued is the FEC stream of the file, sequence numbers), \<^verbatim>\<open>Server_Examples\<close> (concrete runs),
    \<^verbatim>\<open>Server_Fairness\<close> and \<^verbatim>\<open>Server_Liveness\<close> (a stop ends and a queued packet is taken, if every thread
    runs again and again).
  \<^item> \<^verbatim>\<open>Log_Emitter\<close>, \<^verbatim>\<open>Gui\<close>: the log path, and the window with its slots on top of the server.
  \<^item> \<^verbatim>\<open>Uep_Masks\<close>, \<^verbatim>\<open>Uep_Shift\<close>, \<^verbatim>\<open>Uep_Coverage\<close>, \<^verbatim>\<open>Mask_Columns\<close>: the WebRTC mask generator with unequal protection
    (\<^verbatim>\<open>forward_error_correction_internal.cc\<close>), what it protects, and the insertion of columns for gaps in the
    sequence numbers.
  \<^item> \<^verbatim>\<open>Fec_Packets\<close>, \<^verbatim>\<open>Fec_Headers\<close>, \<^verbatim>\<open>Header_Contract\<close>, \<^verbatim>\<open>Flexfec_Header\<close>: buffers, packets and the ULPFEC and
    FlexFEC headers; the locale \<open>fec_header_format\<close> is what the codec needs of a header format, and both
    formats are interpretations of it.
  \<^item> \<^verbatim>\<open>Fec_Codec\<close>, \<^verbatim>\<open>Fec_Decoder\<close>, \<^verbatim>\<open>Codec_Xor\<close>, \<^verbatim>\<open>Codec_Recover\<close>: the WebRTC encoder and decoder
    (\<^verbatim>\<open>forward_error_correction.cc\<close>); the decoder rebuilds a lost packet exactly. \<^verbatim>\<open>Codec_Encode\<close>: what the encoder puts into
    the FEC packets, read back through the header format; how many there are. \<^verbatim>\<open>Codec_Roundtrip\<close>: encoder and decoder
    together restore a lost packet. \<^verbatim>\<open>Decoder_Safe\<close>: the decoder neither faults nor loops on any packets
    at all; it rests on the law of \<open>fec_header_format\<close> that a header reader returns on every packet.
  \<^item> \<^verbatim>\<open>Rtp_Packet\<close>: RTP packets, their parser, setters and header extensions (\<^verbatim>\<open>rtp_packet.cc\<close>,
    \<^verbatim>\<open>rtp_header_extension_map.cc\<close>); parsing is total. \<^verbatim>\<open>Extension_Map\<close>: registration by URI; no two types share an id.
    \<^verbatim>\<open>Rtp_Extensions\<close>: CSRCs and header extensions written in one- or two-byte format; setting an extension refines the
    update of an association list. \<^verbatim>\<open>Rtp_Roundtrip\<close>: the parser reads back all that the setters wrote. \<^verbatim>\<open>Rtp_Remove\<close>: the
    removal of an extension.
    \<^verbatim>\<open>Ulpfec_Generator\<close>: the collection of frames into groups, the generated FEC packets in RED packets
    (\<^verbatim>\<open>ulpfec_generator.cc\<close>), and the RED header of media packets (\<^verbatim>\<open>rtp_sender_video.cc\<close>, \<^verbatim>\<open>rtp_sender_egress.cc\<close>).
    \<^verbatim>\<open>Ulpfec_Receiver\<close> and \<^verbatim>\<open>Flexfec_Receiver\<close>: the receivers (\<^verbatim>\<open>ulpfec_receiver.cc\<close>, \<^verbatim>\<open>flexfec_receiver.cc\<close>), which are safe on
    any datagrams, the second up to 1500 bytes.
    \<^verbatim>\<open>Ulpfec_Transport\<close>: sender and receiver together: a lost packet reaches the receiver's callback.
    \<^verbatim>\<open>Flexfec_Sender\<close>: the sender that puts FEC packets into a stream of its own (\<^verbatim>\<open>flexfec_sender.cc\<close>), on top of the
    generator, with its header extensions and the overhead it announces (\<^verbatim>\<open>rtp_header_extension_size.cc\<close>).
    \<^verbatim>\<open>Flexfec_Transport\<close>: FlexFEC sender and receiver together; the announced overhead is kept.

  \<^bold>\<open>Bounds.\<close> All loops are total functions; no fuel is used. Groups have at most 48 packets
  (\<open>kUlpfecMaxMediaPackets\<close>), the simulator's packet header holds masks of 16. The data field has 2000 bytes.
  The servers' runs are of any length and any interleaving. \<open>size_t\<close> has 64 bits.

  \<^bold>\<open>Not modelled.\<close> The Qt run time, the layout and resource files and the generated code (only the initial
  widget values are taken from the layout); the operating system: opening and reading a file, \<open>sendto\<close>, the
  clock and the random numbers are parameters of the model. The receiver is only in the repository as a binary.
  The wake-up of a waiting thread without a notification is allowed by the step relation, weak memory effects
  are not: shared fields are read and written atomically. Of the vendored WebRTC and Abseil sources only the
  RTP, ULPFEC and FlexFEC code listed above is modelled. Not modelled are the FlexFEC header of the final standard
  (\<^verbatim>\<open>flexfec_header_reader_writer.cc\<close>), which nothing creates, and, but for strings, the classes that give the values of the
  single RTP header extensions; the size of a value and the function that writes it are arguments. The receiver's callback is
  the output of the model: it does not call the receiver. The bit-rate trackers are lists of
  their updates. Log texts of the codec are left out.
\<close>

end
